(* ===== verification/CB_Prelude.thy ===== *)
theory CB_Prelude
  imports Main "HOL-Library.Word" "HOL-Library.Monad_Syntax" "HOL-Library.Signed_Division"
begin

text \<open>
  Shared vocabulary of the development: bytes and memory blocks, the outcome of a C function,
  little-endian integers, and the list lemmas that the components use.

  A C function is a HOL function into \<open>option\<close>. \<open>None\<close> means that the C execution has no
  defined continuation: it reads or writes outside a block, calls a null function pointer, or
  blocks for ever on a mutex. Error codes are ordinary values; where the code returns
  \<open>__LINE__\<close> the model returns the number of that line.
\<close>

unbundle bit_operations_syntax

type_synonym byte = "8 word"

text \<open>A block of memory is the list of its bytes; a pointer into it is an offset.\<close>

type_synonym block = "byte list"

named_theorems mem_simps \<open>reading and writing blocks\<close>
named_theorems le_simps \<open>little-endian integers\<close>

subsection \<open>Memory blocks\<close>

definition peek :: "'a list \<Rightarrow> int \<Rightarrow> int \<Rightarrow> 'a list option" where
  "peek m off n =
     (if 0 \<le> off \<and> 0 \<le> n \<and> off + n \<le> int (length m) then Some (take (nat n) (drop (nat off) m))
      else None)"

definition poke :: "'a list \<Rightarrow> int \<Rightarrow> 'a list \<Rightarrow> 'a list option" where
  "poke m off bs =
     (if 0 \<le> off \<and> off + int (length bs) \<le> int (length m)
      then Some (take (nat off) m @ bs @ drop (nat off + length bs) m) else None)"

text \<open>\<open>memcpy(&dst[doff], &src[soff], n)\<close>: the destination after the copy.\<close>

definition memcpy :: "'a list \<Rightarrow> int \<Rightarrow> 'a list \<Rightarrow> int \<Rightarrow> int \<Rightarrow> 'a list option" where
  "memcpy dst doff src soff n = do { bs \<leftarrow> peek src soff n; poke dst doff bs }"

lemma peek_eq_Some [mem_simps]:
  "peek m off n = Some bs \<longleftrightarrow>
     0 \<le> off \<and> 0 \<le> n \<and> off + n \<le> int (length m) \<and> bs = take (nat n) (drop (nat off) m)"
  by (auto simp: peek_def)

lemma peek_length: "peek m off n = Some bs \<Longrightarrow> int (length bs) = n"
  by (auto simp: peek_def nat_le_iff split: if_splits)

lemma poke_eq_Some [mem_simps]:
  "poke m off bs = Some m' \<longleftrightarrow>
     0 \<le> off \<and> off + int (length bs) \<le> int (length m)
     \<and> m' = take (nat off) m @ bs @ drop (nat off + length bs) m"
  by (auto simp: poke_def)

lemma poke_length: "poke m off bs = Some m' \<Longrightarrow> length m' = length m"
  by (auto simp: poke_def split: if_splits)

lemma memcpy_eq_Some:
  "memcpy dst doff src soff n = Some dst' \<longleftrightarrow>
     0 \<le> soff \<and> 0 \<le> n \<and> soff + n \<le> int (length src) \<and> 0 \<le> doff \<and> doff + n \<le> int (length dst)
     \<and> dst' = take (nat doff) dst @ take (nat n) (drop (nat soff) src) @ drop (nat (doff + n)) dst"
  by (auto simp: memcpy_def peek_def poke_def nat_add_distrib split: if_splits)

lemma memcpy_length: "memcpy dst doff src soff n = Some dst' \<Longrightarrow> length dst' = length dst"
  by (auto simp: memcpy_def poke_length split: bind_splits)

lemma memcpy_to_start:
  assumes "0 \<le> soff" "0 \<le> n" "soff + n \<le> int (length src)" "n \<le> int (length dst)"
  shows "memcpy dst 0 src soff n
         = Some (take (nat n) (drop (nat soff) src) @ drop (nat n) dst)"
  using assms by (simp add: memcpy_eq_Some)

subsection \<open>Little-endian integers\<close>

text \<open>
  The package formats of the code hold little-endian integers. The code reads the bytes of such
  an integer into a variable and converts it with \<open>itpLetoh32\<close> or \<open>itpLetoh64\<close>, which is the
  identity on a little-endian host and a byte swap on a big-endian one; both come to the value
  of the bytes read from the least significant one.
\<close>

fun word_of_le :: "block \<Rightarrow> 'a::len word" where
  "word_of_le [] = 0"
| "word_of_le (b # bs) = ucast b OR push_bit 8 (word_of_le bs)"

definition itpLetoh32 :: "block \<Rightarrow> 32 word" where
  "itpLetoh32 bs = word_of_le bs"

definition itpLetoh64 :: "block \<Rightarrow> 64 word" where
  "itpLetoh64 bs = word_of_le bs"

definition le_of_word :: "nat \<Rightarrow> 'a::len word \<Rightarrow> block" where
  "le_of_word n w = map (\<lambda>i. ucast (drop_bit (8 * i) w)) [0..<n]"

lemma length_le_of_word [simp]: "length (le_of_word n w) = n"
  by (simp add: le_of_word_def)

lemma bit_word_of_le:
  "bit (word_of_le bs :: 'a::len word) i \<longleftrightarrow>
     i < LENGTH('a) \<and> i div 8 < length bs \<and> bit (bs ! (i div 8)) (i mod 8)"
proof (induction bs arbitrary: i)
  case Nil
  then show ?case by simp
next
  case (Cons b bs)
  show ?case
  proof (cases "i < 8")
    case True
    then show ?thesis by (auto simp: bit_simps)
  next
    case False
    then have "i div 8 = Suc ((i - 8) div 8)" and "(i - 8) mod 8 = i mod 8"
      by (simp_all add: le_div_geq mod_if)
    moreover have "\<not> bit b i"
      using False by (auto dest: bit_imp_le_length)
    ultimately show ?thesis
      using False Cons.IH [of "i - 8"] by (auto simp: bit_simps)
  qed
qed

lemma word_of_le_of_word:
  assumes "LENGTH('a::len) = 8 * n"
  shows "word_of_le (le_of_word n w) = (w :: 'a word)"
proof (rule bit_word_eqI)
  fix i
  assume i: "i < LENGTH('a)"
  then have "i div 8 < n" using assms by linarith
  then show "bit (word_of_le (le_of_word n w) :: 'a word) i = bit w i"
    using i by (simp add: bit_word_of_le le_of_word_def bit_simps)
qed

lemma le_of_word_of_le:
  assumes "length bs = n" "8 * n \<le> LENGTH('a::len)"
  shows "le_of_word n (word_of_le bs :: 'a word) = bs"
proof (rule nth_equalityI)
  show "length (le_of_word n (word_of_le bs :: 'a word)) = length bs"
    using assms by simp
next
  fix i
  assume "i < length (le_of_word n (word_of_le bs :: 'a word))"
  then have i: "i < n" by simp
  show "le_of_word n (word_of_le bs :: 'a word) ! i = bs ! i"
  proof (rule bit_word_eqI)
    fix k :: nat
    assume "k < LENGTH(8)"
    then have k: "k < 8" by simp
    with i assms have "8 * i + k < LENGTH('a)" by linarith
    with i k assms show "bit (le_of_word n (word_of_le bs :: 'a word) ! i) k = bit (bs ! i) k"
      by (simp add: le_of_word_def bit_simps bit_word_of_le)
  qed
qed

lemma itpLetoh32_le_of_word [le_simps]: "itpLetoh32 (le_of_word 4 w) = w"
  by (simp add: itpLetoh32_def word_of_le_of_word)

lemma itpLetoh64_le_of_word [le_simps]: "itpLetoh64 (le_of_word 8 w) = w"
  by (simp add: itpLetoh64_def word_of_le_of_word)

lemma le_of_word_itpLetoh32 [le_simps]: "length bs = 4 \<Longrightarrow> le_of_word 4 (itpLetoh32 bs) = bs"
  by (simp add: itpLetoh32_def le_of_word_of_le)

subsection \<open>Division in C\<close>

lemma sdiv_nonneg: "0 \<le> a \<Longrightarrow> 0 < b \<Longrightarrow> a sdiv b = a div (b :: int)"
  by (cases "a = 0") (auto simp: signed_divide_int_def)

subsection \<open>Lists\<close>

lemma take_drop_split:
  "i \<le> j \<Longrightarrow> take (j - i) (drop i xs) @ take k (drop j xs) = take (j - i + k) (drop i xs)"
  using take_add [of "j - i" k "drop i xs"] by simp

lemma take_nat_min: "take (nat (min a b)) xs = take (min (nat a) (nat b)) xs"
  by (simp add: min_def)

lemma bind_Some_iff:
  "Option.bind x f = Some y \<longleftrightarrow> (\<exists>a. x = Some a \<and> f a = Some y)"
  by (cases x) auto

subsection \<open>Counting in lists\<close>

lemma filter_update:
  "t < length xs \<Longrightarrow> length (filter P (xs[t := x])) + (if P (xs ! t) then 1 else 0)
     = length (filter P xs) + (if P x then 1 else 0 :: nat)"
proof (induction xs arbitrary: t)
  case (Cons y xs)
  then show ?case by (cases t) auto
qed simp

end
