(* ===== verification/Ug_Crc32.thy ===== *)
theory Ug_Crc32
  imports CB_Prelude
begin

text \<open>
  The checksum of \<open>sdk/share/upgrade/ug_crc.c\<close>: the table \<open>crc32_tab\<close>, the update of one byte,
  and \<open>ugCalcBufferCrc\<close>. The update shifts \<open>crc32val\<close> as a signed integer, so it fills with the
  sign bit: the checksum is not the standard CRC-32. What it detects is proved here: the update is
  injective in the running checksum and in the byte, so no change of a single byte goes unnoticed.
\<close>

definition crc32_tab :: "32 word list" where
  "crc32_tab = [
     0x00000000, 0x77073096, 0xee0e612c, 0x990951ba, 0x076dc419, 0x706af48f, 0xe963a535, 0x9e6495a3,
     0x0edb8832, 0x79dcb8a4, 0xe0d5e91e, 0x97d2d988, 0x09b64c2b, 0x7eb17cbd, 0xe7b82d07, 0x90bf1d91,
     0x1db71064, 0x6ab020f2, 0xf3b97148, 0x84be41de, 0x1adad47d, 0x6ddde4eb, 0xf4d4b551, 0x83d385c7,
     0x136c9856, 0x646ba8c0, 0xfd62f97a, 0x8a65c9ec, 0x14015c4f, 0x63066cd9, 0xfa0f3d63, 0x8d080df5,
     0x3b6e20c8, 0x4c69105e, 0xd56041e4, 0xa2677172, 0x3c03e4d1, 0x4b04d447, 0xd20d85fd, 0xa50ab56b,
     0x35b5a8fa, 0x42b2986c, 0xdbbbc9d6, 0xacbcf940, 0x32d86ce3, 0x45df5c75, 0xdcd60dcf, 0xabd13d59,
     0x26d930ac, 0x51de003a, 0xc8d75180, 0xbfd06116, 0x21b4f4b5, 0x56b3c423, 0xcfba9599, 0xb8bda50f,
     0x2802b89e, 0x5f058808, 0xc60cd9b2, 0xb10be924, 0x2f6f7c87, 0x58684c11, 0xc1611dab, 0xb6662d3d,
     0x76dc4190, 0x01db7106, 0x98d220bc, 0xefd5102a, 0x71b18589, 0x06b6b51f, 0x9fbfe4a5, 0xe8b8d433,
     0x7807c9a2, 0x0f00f934, 0x9609a88e, 0xe10e9818, 0x7f6a0dbb, 0x086d3d2d, 0x91646c97, 0xe6635c01,
     0x6b6b51f4, 0x1c6c6162, 0x856530d8, 0xf262004e, 0x6c0695ed, 0x1b01a57b, 0x8208f4c1, 0xf50fc457,
     0x65b0d9c6, 0x12b7e950, 0x8bbeb8ea, 0xfcb9887c, 0x62dd1ddf, 0x15da2d49, 0x8cd37cf3, 0xfbd44c65,
     0x4db26158, 0x3ab551ce, 0xa3bc0074, 0xd4bb30e2, 0x4adfa541, 0x3dd895d7, 0xa4d1c46d, 0xd3d6f4fb,
     0x4369e96a, 0x346ed9fc, 0xad678846, 0xda60b8d0, 0x44042d73, 0x33031de5, 0xaa0a4c5f, 0xdd0d7cc9,
     0x5005713c, 0x270241aa, 0xbe0b1010, 0xc90c2086, 0x5768b525, 0x206f85b3, 0xb966d409, 0xce61e49f,
     0x5edef90e, 0x29d9c998, 0xb0d09822, 0xc7d7a8b4, 0x59b33d17, 0x2eb40d81, 0xb7bd5c3b, 0xc0ba6cad,
     0xedb88320, 0x9abfb3b6, 0x03b6e20c, 0x74b1d29a, 0xead54739, 0x9dd277af, 0x04db2615, 0x73dc1683,
     0xe3630b12, 0x94643b84, 0x0d6d6a3e, 0x7a6a5aa8, 0xe40ecf0b, 0x9309ff9d, 0x0a00ae27, 0x7d079eb1,
     0xf00f9344, 0x8708a3d2, 0x1e01f268, 0x6906c2fe, 0xf762575d, 0x806567cb, 0x196c3671, 0x6e6b06e7,
     0xfed41b76, 0x89d32be0, 0x10da7a5a, 0x67dd4acc, 0xf9b9df6f, 0x8ebeeff9, 0x17b7be43, 0x60b08ed5,
     0xd6d6a3e8, 0xa1d1937e, 0x38d8c2c4, 0x4fdff252, 0xd1bb67f1, 0xa6bc5767, 0x3fb506dd, 0x48b2364b,
     0xd80d2bda, 0xaf0a1b4c, 0x36034af6, 0x41047a60, 0xdf60efc3, 0xa867df55, 0x316e8eef, 0x4669be79,
     0xcb61b38c, 0xbc66831a, 0x256fd2a0, 0x5268e236, 0xcc0c7795, 0xbb0b4703, 0x220216b9, 0x5505262f,
     0xc5ba3bbe, 0xb2bd0b28, 0x2bb45a92, 0x5cb36a04, 0xc2d7ffa7, 0xb5d0cf31, 0x2cd99e8b, 0x5bdeae1d,
     0x9b64c2b0, 0xec63f226, 0x756aa39c, 0x026d930a, 0x9c0906a9, 0xeb0e363f, 0x72076785, 0x05005713,
     0x95bf4a82, 0xe2b87a14, 0x7bb12bae, 0x0cb61b38, 0x92d28e9b, 0xe5d5be0d, 0x7cdcefb7, 0x0bdbdf21,
     0x86d3d2d4, 0xf1d4e242, 0x68ddb3f8, 0x1fda836e, 0x81be16cd, 0xf6b9265b, 0x6fb077e1, 0x18b74777,
     0x88085ae6, 0xff0f6a70, 0x66063bca, 0x11010b5c, 0x8f659eff, 0xf862ae69, 0x616bffd3, 0x166ccf45,
     0xa00ae278, 0xd70dd2ee, 0x4e048354, 0x3903b3c2, 0xa7672661, 0xd06016f7, 0x4969474d, 0x3e6e77db,
     0xaed16a4a, 0xd9d65adc, 0x40df0b66, 0x37d83bf0, 0xa9bcae53, 0xdebb9ec5, 0x47b2cf7f, 0x30b5ffe9,
     0xbdbdf21c, 0xcabac28a, 0x53b39330, 0x24b4a3a6, 0xbad03605, 0xcdd70693, 0x54de5729, 0x23d967bf,
     0xb3667a2e, 0xc4614ab8, 0x5d681b02, 0x2a6f2b94, 0xb40bbe37, 0xc30c8ea1, 0x5a05df1b, 0x2d02ef8d]"

text \<open>\<open>crc32val = crc32_tab[(crc32val ^ b) & 0xff] ^ (signed)(((signed int)crc32val) >> 8)\<close>\<close>

definition crc_step :: "32 word \<Rightarrow> byte \<Rightarrow> 32 word" where
  "crc_step crc32val b =
     crc32_tab ! unat ((crc32val XOR ucast b) AND 0xff) XOR signed_drop_bit 8 crc32val"

text \<open>The loops over a buffer and over the \<open>zero\<close> array that pads its end.\<close>

definition crc_bytes :: "32 word \<Rightarrow> block \<Rightarrow> 32 word" where
  "crc_bytes crc32val bs = foldl crc_step crc32val bs"

definition crc_pad :: "32 word \<Rightarrow> int \<Rightarrow> 32 word" where
  "crc_pad crc32val n = foldl crc_step crc32val (replicate (nat n) 0)"

definition ugCalcBufferCrc :: "block \<Rightarrow> int \<Rightarrow> 32 word option" where
  "ugCalcBufferCrc buffer n =
     (if n < 0 then Some 0
      else do { bs \<leftarrow> peek buffer 0 n; Some (crc_pad (crc_bytes 0 bs) (n mod 4)) })"

subsection \<open>The table\<close>

text \<open>The reference: eight steps of division by the reflected polynomial \<open>0xEDB88320\<close>.\<close>

definition crc_bit :: "32 word \<Rightarrow> 32 word" where
  "crc_bit w = (if bit w 0 then drop_bit 1 w XOR 0xEDB88320 else drop_bit 1 w)"

definition crc_ref :: "32 word \<Rightarrow> 32 word" where
  "crc_ref w = (crc_bit ^^ 8) w"

text \<open>The table spanned by the checksums of the single bits, most significant first.\<close>

fun crc_span :: "32 word list \<Rightarrow> 32 word list" where
  "crc_span [] = [0]"
| "crc_span (b # bs) = (let t = crc_span bs in t @ map (\<lambda>w. b XOR w) t)"


lemma pow_8: "(f ^^ 8) x = f (f (f (f (f (f (f (f x)))))))"
  by (simp add: eval_nat_numeral)

lemma crc_ref_bits:
  "map (\<lambda>k. crc_ref (2 ^ k)) (rev [0..<8])
     = [0xedb88320, 0x76dc4190, 0x3b6e20c8, 0x1db71064, 0x0edb8832, 0x076dc419, 0xee0e612c, 0x77073096]"
proof -
  have "rev [0..<8] = [7, 6, 5, 4, 3, 2, 1, 0 :: nat]"
    by (simp add: upt_conv_Cons)
  moreover have "crc_ref 1 = 0x77073096" "crc_ref 2 = 0xee0e612c" "crc_ref 4 = 0x076dc419"
    "crc_ref 8 = 0x0edb8832" "crc_ref 16 = 0x1db71064" "crc_ref 32 = 0x3b6e20c8"
    "crc_ref 64 = 0x76dc4190" "crc_ref 128 = 0xedb88320"
    unfolding crc_ref_def pow_8 crc_bit_def by simp_all
  ultimately show ?thesis by simp
qed

lemma crc32_tab_span: "crc32_tab = crc_span (map (\<lambda>k. crc_ref (2 ^ k)) (rev [0..<8]))"
  unfolding crc_ref_bits by (simp add: crc32_tab_def Let_def)

text \<open>The reference is linear over \<open>XOR\<close>.\<close>

lemma drop_bit_XOR: "drop_bit n (a XOR b) = drop_bit n a XOR drop_bit n (b :: 'a::len word)"
  by (rule bit_word_eqI) (simp add: bit_simps)

lemma crc_bit_XOR: "crc_bit (a XOR b) = crc_bit a XOR crc_bit b"
proof -
  have "crc_bit w = drop_bit 1 w XOR (if bit w 0 then p else 0)" if "p = 0xEDB88320" for p w
    using that by (simp add: crc_bit_def)
  from this [OF refl] obtain p where "\<And>w. crc_bit w = drop_bit 1 w XOR (if bit w 0 then p else 0)"
    by metis
  then show ?thesis
    by (intro bit_word_eqI) (auto simp: drop_bit_XOR bit_simps)
qed

lemma crc_ref_XOR: "crc_ref (a XOR b) = crc_ref a XOR crc_ref b"
proof -
  have "(crc_bit ^^ n) (a XOR b) = (crc_bit ^^ n) a XOR (crc_bit ^^ n) b" for n
    by (induction n) (simp_all add: crc_bit_XOR)
  then show ?thesis by (simp add: crc_ref_def)
qed

lemma crc_ref_0 [simp]: "crc_ref 0 = 0"
  using crc_ref_XOR [of 0 0] by simp

lemma of_nat_add_high_bit:
  assumes "k < 2 ^ n" "n < 32"
  shows "(of_nat (2 ^ n + k) :: 32 word) = 2 ^ n XOR of_nat k"
proof -
  have "(of_nat k :: 32 word) AND 2 ^ n = 0"
  proof (rule bit_word_eqI)
    fix i assume "i < LENGTH(32)"
    have "\<not> bit k n"
      using assms(1) by (simp add: bit_iff_odd)
    then show "bit ((of_nat k :: 32 word) AND 2 ^ n) i = bit (0 :: 32 word) i"
      by (auto simp: bit_simps)
  qed
  then have "(2 ^ n :: 32 word) + of_nat k = 2 ^ n XOR of_nat k"
    by (simp add: disjunctive_add_eq_xor and.commute)
  then show ?thesis by simp
qed

lemma crc_span_ref:
  "n \<le> 32 \<Longrightarrow>
     crc_span (map (\<lambda>k. crc_ref (2 ^ k)) (rev [0..<n])) = map (\<lambda>k. crc_ref (of_nat k)) [0..<2 ^ n]"
proof (induction n)
  case 0
  then show ?case by simp
next
  case (Suc n)
  have "[0..<2 ^ Suc n] = [0..<2 ^ n] @ map (\<lambda>k. k + 2 ^ n) [0..<(2 ^ n :: nat)]"
    using upt_add_eq_append [of 0 "2 ^ n" "2 ^ n"] by (simp only: map_add_upt power_Suc mult_2)
  moreover have "map (\<lambda>k. crc_ref (of_nat (k + 2 ^ n))) [0..<2 ^ n]
        = map (\<lambda>k. crc_ref (2 ^ n) XOR crc_ref (of_nat k)) [0..<2 ^ n]"
  proof (rule map_cong [OF refl])
    fix k :: nat
    assume "k \<in> set [0..<2 ^ n]"
    then have "(of_nat (k + 2 ^ n) :: 32 word) = 2 ^ n XOR of_nat k"
      using Suc.prems of_nat_add_high_bit [of k n] by (simp add: add.commute)
    then show "crc_ref (of_nat (k + 2 ^ n)) = crc_ref (2 ^ n) XOR crc_ref (of_nat k)"
      by (simp only: crc_ref_XOR)
  qed
  moreover have "crc_span (map (\<lambda>k. crc_ref (2 ^ k)) (rev [0..<Suc n]))
        = map (\<lambda>k. crc_ref (of_nat k)) [0..<2 ^ n]
          @ map (\<lambda>k. crc_ref (2 ^ n) XOR crc_ref (of_nat k)) [0..<2 ^ n]"
    using Suc by (simp add: Let_def comp_def)
  ultimately show ?case by (simp add: comp_def)
qed

lemma crc32_tab_crc_ref: "crc32_tab = map (\<lambda>k. crc_ref (of_nat k)) [0..<256]"
  using crc_span_ref [of 8] by (simp add: crc32_tab_span)

lemma crc32_tab_nth: "w < 256 \<Longrightarrow> crc32_tab ! unat w = crc_ref w"
  by (simp add: crc32_tab_crc_ref word_less_nat_alt)

lemma crc_step_ref:
  "crc_step c b = crc_ref ((c XOR ucast b) AND 0xff) XOR signed_drop_bit 8 c"
proof -
  have "(c XOR ucast b) AND 0xff < 256"
    using word_and_le1 [of "c XOR ucast b" "0xff"] by (simp add: word_le_nat_alt word_less_nat_alt)
  then show ?thesis by (simp add: crc_step_def crc32_tab_nth)
qed

subsection \<open>Detection\<close>

text \<open>No table entry but the first has bits 23 to 31 all equal.\<close>

lemma crc32_tab_top:
  "list_all (\<lambda>w. w AND 0xff800000 \<noteq> 0 \<and> w AND 0xff800000 \<noteq> 0xff800000) (tl crc32_tab)"
  by (simp add: crc32_tab_def)

lemma crc_ref_top:
  assumes "w < 256" "crc_ref w AND 0xff800000 \<in> {0, 0xff800000}"
  shows "w = 0"
proof (rule ccontr)
  assume "w \<noteq> 0"
  then obtain i where i: "unat w = Suc i"
    by (metis not0_implies_Suc unat_eq_zero)
  with assms(1) have "i < 255" by (simp add: word_less_nat_alt)
  then have "crc_ref w = tl crc32_tab ! i"
    using i crc32_tab_nth [OF assms(1)] by (simp add: nth_tl crc32_tab_crc_ref)
  moreover have "length (tl crc32_tab) = 255"
    by (simp add: crc32_tab_crc_ref)
  ultimately show False
    using crc32_tab_top assms(2) \<open>i < 255\<close> by (simp add: list_all_length)
qed

lemma and_ff_less: "(w :: 32 word) AND 0xff < 256"
  using word_and_le1 [of w "0xff"] by (simp add: word_le_nat_alt word_less_nat_alt)

lemma signed_drop_bit_top: "signed_drop_bit 8 (d :: 32 word) AND 0xff800000 \<in> {0, 0xff800000}"
proof -
  have "(0xff800000 :: 32 word) = push_bit 23 (mask 9)"
    by (simp add: mask_eq_exp_minus_1)
  then obtain m :: "32 word" where m: "m = 0xff800000" "m = push_bit 23 (mask 9)"
    by blast
  have "bit m i \<longleftrightarrow> 23 \<le> i \<and> i < 32" for i
    unfolding m(2) by (auto simp: bit_simps)
  moreover have "bit (signed_drop_bit 8 d) i = bit d 31" if "23 \<le> i" "i < 32" for i
    using that by (cases "i = 23") (simp_all add: bit_signed_drop_bit_iff)
  ultimately have "bit (signed_drop_bit 8 d AND m) i = bit (if bit d 31 then m else 0) i"
    if "i < LENGTH(32)" for i
    using that by (cases "23 \<le> i") (simp_all add: bit_and_iff)
  then have "signed_drop_bit 8 d AND m = (if bit d 31 then m else 0)"
    by (rule bit_word_eqI)
  then show ?thesis by (simp flip: m(1))
qed

lemma signed_drop_bit_XOR:
  "signed_drop_bit n (a XOR b) = signed_drop_bit n a XOR signed_drop_bit n (b :: 'a::len word)"
  by (rule bit_word_eqI) (simp add: bit_simps)

lemma signed_drop_bit_8_eq_0:
  assumes "signed_drop_bit 8 (d :: 32 word) = 0" "d AND 0xff = 0"
  shows "d = 0"
proof (rule bit_word_eqI)
  fix i assume i: "i < LENGTH(32)"
  have ff: "(0xff :: 32 word) = mask 8" by (simp add: mask_eq_exp_minus_1)
  show "bit d i = bit (0 :: 32 word) i"
  proof (cases "i < 8")
    case True
    then show ?thesis
      using arg_cong [OF assms(2) [unfolded ff], of "\<lambda>w. bit w i"] by (simp add: bit_simps)
  next
    case False
    then have "bit (signed_drop_bit 8 d) (i - 8) = bit d i"
      using i by (cases "i = 31") (auto simp: bit_signed_drop_bit_iff)
    then show ?thesis using assms(1) by simp
  qed
qed

text \<open>The update is injective in the running checksum and in the byte.\<close>

lemma xor_swap: "a XOR b = a' XOR b' \<Longrightarrow> a XOR a' = b XOR (b' :: 'a::len word)"
  by (metis xor.assoc xor.commute xor.right_neutral xor_self_eq)

lemma xor_eq_0: "a XOR b = 0 \<Longrightarrow> a = (b :: 'a::len word)"
  using xor_swap [of a b 0 0] by (metis xor.assoc xor.left_neutral xor.right_neutral xor_self_eq)

lemma crc_step_inj_crc:
  assumes "crc_step c b = crc_step c' b"
  shows "c = c'"
proof -
  have "crc_ref ((c XOR ucast b) AND 0xff) XOR crc_ref ((c' XOR ucast b) AND 0xff)
        = signed_drop_bit 8 c XOR signed_drop_bit 8 c'"
    using assms unfolding crc_step_ref by (rule xor_swap)
  moreover have "((c XOR u) AND m) XOR ((c' XOR u) AND m) = (c XOR c') AND m" for u m
    by (rule bit_word_eqI) (auto simp: bit_simps)
  ultimately have eq: "crc_ref ((c XOR c') AND 0xff) = signed_drop_bit 8 (c XOR c')"
    by (simp only: crc_ref_XOR [symmetric] signed_drop_bit_XOR)
  then have "(c XOR c') AND 0xff = 0"
    using crc_ref_top [OF and_ff_less] signed_drop_bit_top by metis
  with eq have "c XOR c' = 0" by (metis crc_ref_0 signed_drop_bit_8_eq_0)
  then show ?thesis by (rule xor_eq_0)
qed

lemma crc_step_inj_byte:
  assumes "crc_step c b = crc_step c b'"
  shows "b = b'"
proof -
  have "crc_ref ((c XOR ucast b) AND 0xff) XOR crc_ref ((c XOR ucast b') AND 0xff)
        = signed_drop_bit 8 c XOR signed_drop_bit 8 c"
    using assms unfolding crc_step_ref by (rule xor_swap)
  then have "crc_ref (((c XOR ucast b) AND 0xff) XOR ((c XOR ucast b') AND 0xff)) = 0"
    by (simp add: crc_ref_XOR)
  moreover have "((c XOR u) AND m) XOR ((c XOR u') AND m) = (u XOR u') AND m" for u u' m
    by (rule bit_word_eqI) (auto simp: bit_simps)
  ultimately have z: "(ucast b XOR ucast b' :: 32 word) AND 0xff = 0"
    using crc_ref_top [OF and_ff_less] by simp
  have ff: "(0xff :: 32 word) = mask 8" by (simp add: mask_eq_exp_minus_1)
  show ?thesis
  proof (rule bit_word_eqI)
    fix i assume "i < LENGTH(8)"
    then show "bit b i = bit b' i"
      using arg_cong [OF z [unfolded ff], of "\<lambda>w. bit w i"] by (simp add: bit_simps)
  qed
qed

lemma crc_bytes_append: "crc_bytes c (xs @ ys) = crc_bytes (crc_bytes c xs) ys"
  by (simp add: crc_bytes_def)

lemma crc_bytes_inj: "crc_bytes c bs = crc_bytes c' bs \<Longrightarrow> c = c'"
  unfolding crc_bytes_def
  by (induction bs arbitrary: c c') (auto dest: crc_step_inj_crc)

lemma crc_pad_inj: "crc_pad c n = crc_pad c' n \<Longrightarrow> c = c'"
  using crc_bytes_inj [of c _ c'] by (simp add: crc_pad_def crc_bytes_def)

lemma crc_bytes_change:
  assumes "i < length bs" "v \<noteq> bs ! i"
  shows "crc_bytes c (bs[i := v]) \<noteq> crc_bytes c bs"
proof
  assume eq: "crc_bytes c (bs[i := v]) = crc_bytes c bs"
  have "bs = take i bs @ bs ! i # drop (Suc i) bs" "bs[i := v] = take i bs @ v # drop (Suc i) bs"
    using assms(1) by (simp_all add: id_take_nth_drop upd_conv_take_nth_drop)
  with eq have "crc_step (crc_bytes c (take i bs)) v = crc_step (crc_bytes c (take i bs)) (bs ! i)"
    by (metis (no_types, lifting) crc_bytes_append crc_bytes_def crc_bytes_inj foldl_Cons)
  with assms(2) show False by (auto dest: crc_step_inj_byte)
qed

text \<open>The checksum of a whole block, as the files and packages store it.\<close>

definition crc_of :: "block \<Rightarrow> 32 word" where
  "crc_of bs = crc_pad (crc_bytes 0 bs) (int (length bs) mod 4)"

lemma ugCalcBufferCrc_whole:
  "ugCalcBufferCrc (bs @ rest) (int (length bs)) = Some (crc_of bs)"
  by (simp add: ugCalcBufferCrc_def crc_of_def peek_def)

lemma ugCalcBufferCrc_take:
  "n \<le> length bs \<Longrightarrow> ugCalcBufferCrc bs (int n) = Some (crc_of (take n bs))"
  by (simp add: ugCalcBufferCrc_def crc_of_def peek_def)

lemma crc_of_change:
  assumes "i < length bs" "v \<noteq> bs ! i"
  shows "crc_of (bs[i := v]) \<noteq> crc_of bs"
  using crc_bytes_change [OF assms] by (auto simp: crc_of_def dest: crc_pad_inj)

end
