(* ===== verification/Itc_Stream.thy ===== *)
theory Itc_Stream
  imports CB_Prelude
begin

text \<open>
  The stream interface of \<open>sdk/share/itc\<close>: the base structure \<open>ITCStream\<close> and its table of
  function pointers (\<open>sdk/include/ite/itc.h\<close>), the default functions installed by
  \<open>itcStreamOpen\<close> (\<open>itc_stream.c\<close>), and the locale \<open>itc_reader\<close>: what the clients of a
  stream (CRC check, package upgrade) rely on. The locale is interpreted by the array stream and
  by the file stream, in their theories.
\<close>

subsection \<open>The structure and its function pointers\<close>

datatype seek_origin = SEEK_SET | SEEK_CUR | SEEK_END | SEEK_OTHER

record ITCStream =
  eof :: bool
  stream_size :: int

text \<open>
  The function pointers of \<open>struct ITCStreamTag\<close>, for a stream object of type \<open>'s\<close>.
  \<open>Read\<close> gets the block its \<open>buf\<close> points into and returns the block after the call. A lock
  function returns the locked size and, when it stores one, the offset written to \<open>*bufptr\<close>.
  The four lock pointers are null (\<open>None\<close>) in a freshly opened stream. \<open>Base\<close> is the cast
  \<open>(ITCStream*)\<close>, through which clients read the \<open>size\<close> field.
\<close>

record 's ITCStreamOps =
  Base :: "'s \<Rightarrow> ITCStream"
  Close :: "'s \<Rightarrow> (int \<times> 's) option"
  Read :: "'s \<Rightarrow> block \<Rightarrow> int \<Rightarrow> (int \<times> block \<times> 's) option"
  Write :: "'s \<Rightarrow> block \<Rightarrow> int \<Rightarrow> (int \<times> 's) option"
  Seek :: "'s \<Rightarrow> int \<Rightarrow> seek_origin \<Rightarrow> (int \<times> 's) option"
  Tell :: "'s \<Rightarrow> int"
  Available :: "'s \<Rightarrow> (int \<times> 's) option"
  ReadLock :: "('s \<Rightarrow> int \<Rightarrow> (int \<times> int option \<times> 's) option) option"
  ReadUnlock :: "('s \<Rightarrow> int \<Rightarrow> 's option) option"
  WriteLock :: "('s \<Rightarrow> int \<Rightarrow> (int \<times> int option \<times> 's) option) option"
  WriteUnlock :: "('s \<Rightarrow> int \<Rightarrow> 's option) option"

subsection \<open>Default functions and \<open>itcStreamOpen\<close>\<close>

definition StreamClose :: "'s \<Rightarrow> (int \<times> 's) option" where
  "StreamClose s = Some (0, s)"

definition StreamRead :: "'s \<Rightarrow> block \<Rightarrow> int \<Rightarrow> (int \<times> block \<times> 's) option" where
  "StreamRead s buf n = Some (0, buf, s)"

definition StreamWrite :: "'s \<Rightarrow> block \<Rightarrow> int \<Rightarrow> (int \<times> 's) option" where
  "StreamWrite s buf n = Some (0, s)"

definition StreamSeek :: "'s \<Rightarrow> int \<Rightarrow> seek_origin \<Rightarrow> (int \<times> 's) option" where
  "StreamSeek s off origin = Some (0, s)"

definition StreamTell :: "'s \<Rightarrow> int" where
  "StreamTell s = 0"

definition StreamAvailable :: "'s \<Rightarrow> (int \<times> 's) option" where
  "StreamAvailable s = Some (0, s)"

text \<open>\<open>itcStreamOpen\<close> sets the fields of the structure and installs the defaults.\<close>

definition itcStreamOpen :: "('s \<Rightarrow> ITCStream) \<Rightarrow> ITCStream \<times> 's ITCStreamOps" where
  "itcStreamOpen cast =
     (\<lparr>eof = False, stream_size = 0\<rparr>,
      \<lparr>Base = cast, Close = StreamClose, Read = StreamRead, Write = StreamWrite, Seek = StreamSeek,
       Tell = StreamTell, Available = StreamAvailable,
       ReadLock = None, ReadUnlock = None, WriteLock = None, WriteUnlock = None\<rparr>)"

subsection \<open>Reading clients: the interface\<close>

text \<open>
  A seekable source with content \<open>content s\<close> and position \<open>posn s\<close>. \<open>Read\<close> transfers
  \<open>min n (size - pos)\<close> bytes to the start of the buffer and moves the position; a read with room in
  the buffer (and a size that an \<open>int\<close> holds) never fails. \<open>Seek\<close> to a position inside the content succeeds and moves there.
  Positions stay inside the content and no operation changes it.
\<close>

locale itc_reader =
  fixes ops :: "'s ITCStreamOps"
    and content :: "'s \<Rightarrow> block"
    and posn :: "'s \<Rightarrow> nat"
    and valid :: "'s \<Rightarrow> bool"
  assumes posn_le: "valid s \<Longrightarrow> posn s \<le> length (content s)"
    and size_content: "valid s \<Longrightarrow> stream_size (Base ops s) = int (length (content s))"
    and read_ok: "valid s \<Longrightarrow> n \<le> length buf \<Longrightarrow> n < 2 ^ 31 \<Longrightarrow>
      \<exists>s'. Read ops s buf (int n)
             = Some (int (min n (length (content s) - posn s)),
                     take n (drop (posn s) (content s))
                       @ drop (min n (length (content s) - posn s)) buf, s')
         \<and> valid s' \<and> content s' = content s
         \<and> posn s' = posn s + min n (length (content s) - posn s)"
    and seek_set_ok: "valid s \<Longrightarrow> p < length (content s) \<Longrightarrow>
      \<exists>s'. Seek ops s (int p) SEEK_SET = Some (0, s')
         \<and> valid s' \<and> content s' = content s \<and> posn s' = p"
    and seek_cur_ok: "valid s \<Longrightarrow> k \<le> posn s \<Longrightarrow> posn s - k < length (content s) \<Longrightarrow>
      \<exists>s'. Seek ops s (- int k) SEEK_CUR = Some (0, s')
         \<and> valid s' \<and> content s' = content s \<and> posn s' = posn s - k"
    and seek_end_ok: "valid s \<Longrightarrow> 0 < k \<Longrightarrow> k \<le> length (content s) \<Longrightarrow>
      \<exists>s'. Seek ops s (- int k) SEEK_END = Some (0, s')
         \<and> valid s' \<and> content s' = content s \<and> posn s' = length (content s) - k"
    and seek_before_start: "valid s \<Longrightarrow> length (content s) < k \<Longrightarrow>
      \<exists>r s'. r \<noteq> 0 \<and> Seek ops s (- int k) SEEK_END = Some (r, s')"
    and tell_ok: "valid s \<Longrightarrow> Tell ops s = int (posn s)"
    and avail_ok: "valid s \<Longrightarrow>
      \<exists>s'. Available ops s = Some (int (length (content s) - posn s), s')
         \<and> valid s' \<and> content s' = content s \<and> posn s' = posn s"
    and close_ok: "valid s \<Longrightarrow> \<exists>r s'. Close ops s = Some (r, s')"
begin

text \<open>A read that asks for no more than is left fills the front of the buffer.\<close>

lemma read_all:
  assumes "valid s" "n \<le> length buf" "n < 2 ^ 31" "posn s + n \<le> length (content s)"
  shows "\<exists>s'. Read ops s buf (int n)
             = Some (int n, take n (drop (posn s) (content s)) @ drop n buf, s')
         \<and> valid s' \<and> content s' = content s \<and> posn s' = posn s + n"
proof -
  from assms have "min n (length (content s) - posn s) = n"
    by (simp add: min_def)
  with read_ok [OF assms(1,2,3)] show ?thesis by simp
qed

text \<open>A read past the end comes up short, which is how every client detects truncation.\<close>

lemma read_short:
  assumes "valid s" "n \<le> length buf" "n < 2 ^ 31" "length (content s) < posn s + n"
  shows "\<exists>k buf' s'. Read ops s buf (int n) = Some (k, buf', s') \<and> 0 \<le> k \<and> k < int n
         \<and> valid s' \<and> content s' = content s"
proof -
  from assms posn_le [OF assms(1)] have "int (min n (length (content s) - posn s)) < int n"
    by simp
  with read_ok [OF assms(1,2,3)] show ?thesis by fastforce
qed

end

end
