(* ===== verification/Itc_ArrayStream.thy ===== *)
theory Itc_ArrayStream
  imports Itc_Stream
begin

text \<open>
  \<open>sdk/share/itc/itc_arraystream.c\<close>: a read-only stream over an array in memory. The structure
  extends \<open>ITCStream\<close> as in C. A position outside \<open>0..size\<close> makes \<open>&array[pos]\<close> an access
  outside the array, which \<open>memcpy\<close> turns into \<open>None\<close>.
\<close>

record ITCArrayStream = ITCStream +
  arr :: block
  pos :: int

definition ArrayStreamRead ::
  "ITCArrayStream \<Rightarrow> block \<Rightarrow> int \<Rightarrow> (int \<times> block \<times> ITCArrayStream) option" where
  "ArrayStreamRead s buf n =
     (let result = (if stream_size s - pos s > n then n else stream_size s - pos s)
      in do { buf' \<leftarrow> memcpy buf 0 (arr s) (pos s) result;
              Some (result, buf', s\<lparr>pos := pos s + result\<rparr>) })"

definition ArrayStreamSeek ::
  "ITCArrayStream \<Rightarrow> int \<Rightarrow> seek_origin \<Rightarrow> (int \<times> ITCArrayStream) option" where
  "ArrayStreamSeek s offset origin =
     Some (case origin of
         SEEK_SET \<Rightarrow> if offset < stream_size s then (0, s\<lparr>pos := offset\<rparr>) else (-1, s)
       | SEEK_CUR \<Rightarrow>
           let p = pos s + offset
           in if 0 \<le> p \<and> p < stream_size s then (0, s\<lparr>pos := p\<rparr>) else (-1, s)
       | SEEK_END \<Rightarrow>
           let p = stream_size s + offset
           in if 0 \<le> p \<and> p < stream_size s then (0, s\<lparr>pos := p\<rparr>) else (-1, s)
       | SEEK_OTHER \<Rightarrow> (-1, s))"

definition ArrayStreamTell :: "ITCArrayStream \<Rightarrow> int" where
  "ArrayStreamTell s = pos s"

definition ArrayStreamAvailable :: "ITCArrayStream \<Rightarrow> (int \<times> ITCArrayStream) option" where
  "ArrayStreamAvailable s = Some (stream_size s - pos s, s)"

definition ArrayStreamReadLock ::
  "ITCArrayStream \<Rightarrow> int \<Rightarrow> (int \<times> int option \<times> ITCArrayStream) option" where
  "ArrayStreamReadLock s n =
     Some (if stream_size s - pos s > n then n else stream_size s - pos s, Some (pos s), s)"

definition ArrayStreamReadUnlock :: "ITCArrayStream \<Rightarrow> int \<Rightarrow> ITCArrayStream option" where
  "ArrayStreamReadUnlock s n =
     Some (s\<lparr>pos := pos s + (if stream_size s - pos s > n then n else stream_size s - pos s)\<rparr>)"

text \<open>\<open>itcArrayStreamOpen\<close>: the table with the defaults overridden, and the opened structure.\<close>

definition array_ops :: "ITCArrayStream ITCStreamOps" where
  "array_ops = (snd (itcStreamOpen ITCStream.truncate))
     \<lparr>Read := ArrayStreamRead, Seek := ArrayStreamSeek, Tell := ArrayStreamTell,
      Available := ArrayStreamAvailable, ReadLock := Some ArrayStreamReadLock,
      ReadUnlock := Some ArrayStreamReadUnlock\<rparr>"

definition itcArrayStreamOpen :: "block \<Rightarrow> int \<Rightarrow> int \<times> ITCArrayStream" where
  "itcArrayStreamOpen array n =
     (0, ITCStream.extend ((fst (itcStreamOpen (id :: ITCStream \<Rightarrow> ITCStream)))\<lparr>stream_size := n\<rparr>)
           (ITCArrayStream.fields array 0))"

lemmas array_stream_defs = ArrayStreamRead_def ArrayStreamSeek_def ArrayStreamTell_def
  ArrayStreamAvailable_def ArrayStreamReadLock_def ArrayStreamReadUnlock_def

lemma array_ops_simps [simp]:
  "Base array_ops = ITCStream.truncate" "Close array_ops = StreamClose"
  "Read array_ops = ArrayStreamRead" "Write array_ops = StreamWrite"
  "Seek array_ops = ArrayStreamSeek" "Tell array_ops = ArrayStreamTell"
  "Available array_ops = ArrayStreamAvailable"
  by (simp_all add: array_ops_def itcStreamOpen_def)

lemma itcArrayStreamOpen_eq:
  "itcArrayStreamOpen array n
     = (0, \<lparr>eof = False, stream_size = n, arr = array, pos = 0\<rparr>)"
  by (simp add: itcArrayStreamOpen_def itcStreamOpen_def ITCStream.defs ITCArrayStream.defs)

subsection \<open>Invariant\<close>

definition array_stream_inv :: "ITCArrayStream \<Rightarrow> bool" where
  "array_stream_inv s \<longleftrightarrow>
     stream_size s = int (length (arr s)) \<and> 0 \<le> pos s \<and> pos s \<le> stream_size s"

lemma array_stream_inv_open: "array_stream_inv (snd (itcArrayStreamOpen xs (int (length xs))))"
  by (simp add: array_stream_inv_def itcArrayStreamOpen_eq)

lemma ArrayStreamRead_eq:
  assumes "array_stream_inv s" "n \<le> length buf"
  shows "ArrayStreamRead s buf (int n) =
     (let k = min n (length (arr s) - nat (pos s))
      in Some (int k, take n (drop (nat (pos s)) (arr s)) @ drop k buf, s\<lparr>pos := pos s + int k\<rparr>))"
proof -
  from assms(1) obtain p where p: "pos s = int p" "p \<le> length (arr s)"
    and sz: "stream_size s = int (length (arr s))"
    by (auto simp: array_stream_inv_def dest: zero_le_imp_eq_int)
  let ?k = "min n (length (arr s) - p)"
  have k: "(if stream_size s - pos s > int n then int n else stream_size s - pos s) = int ?k"
    using p sz by (simp add: min_def of_nat_diff) arith
  have "memcpy buf 0 (arr s) (pos s) (int ?k)
        = Some (take ?k (drop p (arr s)) @ drop ?k buf)"
    using assms(2) p by (simp add: memcpy_eq_Some) arith
  moreover have "take ?k (drop p (arr s)) = take n (drop p (arr s))"
    by (simp add: min_def)
  ultimately show ?thesis
    unfolding ArrayStreamRead_def Let_def k using p by simp
qed

interpretation arr: itc_reader array_ops arr "\<lambda>s. nat (pos s)" array_stream_inv
proof unfold_locales
  fix s :: ITCArrayStream and n :: nat and buf :: block
  assume inv: "array_stream_inv s" and n: "n \<le> length buf"
  show "\<exists>s'. Read array_ops s buf (int n)
             = Some (int (min n (length (arr s) - nat (pos s))),
                     take n (drop (nat (pos s)) (arr s))
                       @ drop (min n (length (arr s) - nat (pos s))) buf, s')
         \<and> array_stream_inv s' \<and> arr s' = arr s
         \<and> nat (pos s') = nat (pos s) + min n (length (arr s) - nat (pos s))"
    using inv n by (auto simp: ArrayStreamRead_eq Let_def array_stream_inv_def min_def)
qed (auto simp: array_stream_inv_def ArrayStreamSeek_def ArrayStreamTell_def
      ArrayStreamAvailable_def StreamClose_def Let_def ITCStream.defs)

end
