(* ===== verification/Stdio.thy ===== *)
theory Stdio
  imports CB_Prelude
begin

text \<open>
  What the code uses of the C library's files: a volume maps paths to contents, a \<open>FILE\<close> is a path
  and a position in it. The volume also says how the medium behaves, so that the error branches and
  the verification passes of the code are not vacuous: which paths cannot be opened, from which
  offset on reading fails, how much space is free, and which byte a cell reads back after a write.
\<close>

record volume =
  files :: "string \<Rightarrow> block option"
  denied :: "string \<Rightarrow> bool"
  bad_from :: "string \<Rightarrow> nat option"
  capacity :: nat
  medium :: "string \<Rightarrow> nat \<Rightarrow> byte \<Rightarrow> byte"

record FILE =
  fname :: string
  fpos :: nat

definition file_data :: "volume \<Rightarrow> string \<Rightarrow> block" where
  "file_data v p = (case files v p of None \<Rightarrow> [] | Some d \<Rightarrow> d)"

definition readable :: "volume \<Rightarrow> string \<Rightarrow> block" where
  "readable v p = (case bad_from v p of None \<Rightarrow> file_data v p | Some k \<Rightarrow> take k (file_data v p))"

definition fopen_rb :: "volume \<Rightarrow> string \<Rightarrow> FILE option" where
  "fopen_rb v p = (if denied v p \<or> files v p = None then None else Some \<lparr>fname = p, fpos = 0\<rparr>)"

text \<open>Opening for writing creates the file or empties it, which frees the space it took.\<close>

definition fopen_wb :: "volume \<Rightarrow> string \<Rightarrow> FILE option \<times> volume" where
  "fopen_wb v p =
     (if denied v p then (None, v)
      else (Some \<lparr>fname = p, fpos = 0\<rparr>,
            v\<lparr>files := (files v)(p := Some []), capacity := capacity v + length (file_data v p)\<rparr>))"

definition fread :: "volume \<Rightarrow> FILE \<Rightarrow> nat \<Rightarrow> block \<times> FILE" where
  "fread v f n =
     (let bs = take n (drop (fpos f) (readable v (fname f)))
      in (bs, f\<lparr>fpos := fpos f + length bs\<rparr>))"

text \<open>A write stops when the volume is full; each cell keeps what the medium makes of its byte.\<close>

definition stored :: "volume \<Rightarrow> string \<Rightarrow> nat \<Rightarrow> block \<Rightarrow> block" where
  "stored v p off bs = map (\<lambda>(i, b). medium v p (off + i) b) (enumerate 0 bs)"

definition fwrite :: "volume \<Rightarrow> FILE \<Rightarrow> block \<Rightarrow> nat \<times> FILE \<times> volume" where
  "fwrite v f bs =
     (let old = file_data v (fname f);
          k = min (length bs) (length old - fpos f + capacity v);
          new = take (fpos f) old @ stored v (fname f) (fpos f) (take k bs) @ drop (fpos f + k) old
      in (k, f\<lparr>fpos := fpos f + k\<rparr>,
          v\<lparr>files := (files v)(fname f := Some new),
            capacity := capacity v - (length new - length old)\<rparr>))"

datatype whence = W_SET | W_CUR | W_END | W_OTHER

definition fseek :: "volume \<Rightarrow> FILE \<Rightarrow> int \<Rightarrow> whence \<Rightarrow> int \<times> FILE" where
  "fseek v f off w =
     (let go = (\<lambda>p. if p < 0 then (-1, f) else (0, f\<lparr>fpos := nat p\<rparr>))
      in case w of W_SET \<Rightarrow> go off
         | W_CUR \<Rightarrow> go (int (fpos f) + off)
         | W_END \<Rightarrow> go (int (length (file_data v (fname f))) + off)
         | W_OTHER \<Rightarrow> (-1, f))"

definition ftell :: "FILE \<Rightarrow> int" where
  "ftell f = int (fpos f)"

definition file_size :: "volume \<Rightarrow> string \<Rightarrow> nat" where
  "file_size v p = length (file_data v p)"

lemma length_stored [simp]: "length (stored v p off bs) = length bs"
  by (simp add: stored_def)

text \<open>A sound medium reads back what was written.\<close>

definition sound_medium :: "volume \<Rightarrow> string \<Rightarrow> bool" where
  "sound_medium v p \<longleftrightarrow> bad_from v p = None \<and> (\<forall>i b. medium v p i b = b)"

lemma stored_sound: "sound_medium v p \<Longrightarrow> stored v p off bs = bs"
  by (rule nth_equalityI) (simp_all add: stored_def sound_medium_def nth_enumerate_eq)

lemma readable_sound: "sound_medium v p \<Longrightarrow> readable v p = file_data v p"
  by (simp add: readable_def sound_medium_def)

end
