(* ===== verification/Itc_FileStream.thy ===== *)
theory Itc_FileStream
  imports Itc_Stream Stdio
begin

text \<open>
  \<open>sdk/share/itc/itc_filestream.c\<close>: a stream over a \<open>FILE\<close>. The stream object is the structure
  together with the volume its file lives on. Using the null \<open>fs_file\<close> of a closed stream is
  undefined.
\<close>

record ITCFileStream = ITCStream +
  fs_file :: "FILE option"

type_synonym file_stream = "ITCFileStream \<times> volume"

text \<open>The conversion of an \<open>int\<close> size to the \<open>size_t\<close> of \<open>fread\<close> and \<open>fwrite\<close>.\<close>

definition size_t :: "int \<Rightarrow> nat" where
  "size_t n = nat (n mod 2 ^ 32)"

definition itcFileStreamClose :: "file_stream \<Rightarrow> (int \<times> file_stream) option" where
  "itcFileStreamClose fs = Some (0, ((fst fs)\<lparr>fs_file := None\<rparr>, snd fs))"

definition FileStreamRead ::
  "file_stream \<Rightarrow> block \<Rightarrow> int \<Rightarrow> (int \<times> block \<times> file_stream) option" where
  "FileStreamRead fs buf n =
     (case fs of (s, v) \<Rightarrow>
        do { f \<leftarrow> fs_file s;
             let (bs, f') = fread v f (size_t n) in
             do { buf' \<leftarrow> poke buf 0 bs;
                  Some (int (length bs), buf', s\<lparr>fs_file := Some f'\<rparr>, v) } })"

definition FileStreamWrite :: "file_stream \<Rightarrow> block \<Rightarrow> int \<Rightarrow> (int \<times> file_stream) option" where
  "FileStreamWrite fs data n =
     (case fs of (s, v) \<Rightarrow>
        do { f \<leftarrow> fs_file s;
             bs \<leftarrow> peek data 0 (int (size_t n));
             let (k, f', v') = fwrite v f bs in
             Some (int k, s\<lparr>fs_file := Some f'\<rparr>, v') })"

definition whence_of :: "seek_origin \<Rightarrow> whence" where
  "whence_of origin =
     (case origin of SEEK_SET \<Rightarrow> W_SET | SEEK_CUR \<Rightarrow> W_CUR | SEEK_END \<Rightarrow> W_END
      | SEEK_OTHER \<Rightarrow> W_OTHER)"

definition FileStreamSeek :: "file_stream \<Rightarrow> int \<Rightarrow> seek_origin \<Rightarrow> (int \<times> file_stream) option" where
  "FileStreamSeek fs offset origin =
     (case fs of (s, v) \<Rightarrow>
        do { f \<leftarrow> fs_file s;
             let (r, f') = fseek v f offset (whence_of origin) in
             Some (r, s\<lparr>fs_file := Some f'\<rparr>, v) })"

text \<open>\<open>Tell\<close> of a stream without a file has no defined value; the model takes 0 there.\<close>

definition FileStreamTell :: "file_stream \<Rightarrow> int" where
  "FileStreamTell fs = (case fs_file (fst fs) of None \<Rightarrow> 0 | Some f \<Rightarrow> ftell f)"

definition FileStreamAvailable :: "file_stream \<Rightarrow> (int \<times> file_stream) option" where
  "FileStreamAvailable fs =
     do { f \<leftarrow> fs_file (fst fs); Some (stream_size (fst fs) - ftell f, fs) }"

definition file_ops :: "file_stream ITCStreamOps" where
  "file_ops = (snd (itcStreamOpen (\<lambda>fs. ITCStream.truncate (fst fs))))
     \<lparr>Close := itcFileStreamClose, Read := FileStreamRead, Write := FileStreamWrite,
      Seek := FileStreamSeek, Tell := FileStreamTell, Available := FileStreamAvailable\<rparr>"

text \<open>
  \<open>itcFileStreamOpen\<close>: 81 and 87 are the \<open>__LINE__\<close>s of its error returns; \<open>fstat\<close> fails where
  \<open>stat_ok\<close> says so. An opened stream whose \<open>fstat\<close> fails keeps its file open.
\<close>

definition itcFileStreamOpen ::
  "bool \<Rightarrow> volume \<Rightarrow> string \<Rightarrow> bool \<Rightarrow> int \<times> file_stream" where
  "itcFileStreamOpen stat_ok v filename write =
     (let base = ITCStream.extend (fst (itcStreamOpen (id :: ITCStream \<Rightarrow> ITCStream)));
          (f, v') = (if write then fopen_wb v filename else (fopen_rb v filename, v));
          s = base (ITCFileStream.fields f)
      in if f = None then (81, s, v')
         else if \<not> stat_ok then (87, s, v')
         else (0, s\<lparr>stream_size := int (file_size v' filename)\<rparr>, v'))"

lemma file_ops_simps [simp]:
  "Base file_ops = (\<lambda>fs. ITCStream.truncate (fst fs))" "Close file_ops = itcFileStreamClose"
  "Read file_ops = FileStreamRead" "Write file_ops = FileStreamWrite"
  "Seek file_ops = FileStreamSeek" "Tell file_ops = FileStreamTell"
  "Available file_ops = FileStreamAvailable"
  by (simp_all add: file_ops_def itcStreamOpen_def)

subsection \<open>A file opened for reading is a seekable source\<close>

definition file_content :: "file_stream \<Rightarrow> block" where
  "file_content fs = (case fs_file (fst fs) of None \<Rightarrow> [] | Some f \<Rightarrow> file_data (snd fs) (fname f))"

definition file_posn :: "file_stream \<Rightarrow> nat" where
  "file_posn fs = (case fs_file (fst fs) of None \<Rightarrow> 0 | Some f \<Rightarrow> fpos f)"

definition file_stream_inv :: "file_stream \<Rightarrow> bool" where
  "file_stream_inv fs \<longleftrightarrow>
     (case fs_file (fst fs) of None \<Rightarrow> False
      | Some f \<Rightarrow> bad_from (snd fs) (fname f) = None \<and> fpos f \<le> length (file_content fs)
          \<and> stream_size (fst fs) = int (length (file_content fs))
          \<and> length (file_content fs) < 2 ^ 31)"

lemmas file_stream_defs = file_content_def file_posn_def file_stream_inv_def

lemma size_t_nat: "n < 2 ^ 32 \<Longrightarrow> size_t (int n) = n"
  by (simp add: size_t_def)

lemma FileStreamRead_eq:
  assumes inv: "file_stream_inv fs" and n: "n \<le> length buf" "n < 2 ^ 32"
  shows "\<exists>fs'. FileStreamRead fs buf (int n)
             = Some (int (min n (length (file_content fs) - file_posn fs)),
                     take n (drop (file_posn fs) (file_content fs))
                       @ drop (min n (length (file_content fs) - file_posn fs)) buf, fs')
         \<and> file_stream_inv fs' \<and> file_content fs' = file_content fs \<and> snd fs' = snd fs
         \<and> file_posn fs' = file_posn fs + min n (length (file_content fs) - file_posn fs)"
proof -
  obtain s v where fs: "fs = (s, v)" by (cases fs)
  from inv fs obtain f where f: "fs_file s = Some f" "bad_from v (fname f) = None"
    "fpos f \<le> length (file_data v (fname f))" "stream_size s = int (length (file_data v (fname f)))"
    "length (file_data v (fname f)) < 2 ^ 31"
    by (auto simp: file_stream_defs split: option.splits)
  then show ?thesis
    using n fs
    by (auto simp: FileStreamRead_def fread_def readable_def file_stream_defs size_t_nat poke_def
        Let_def min_def)
qed

text \<open>The position a seek asks for.\<close>

definition seek_target :: "file_stream \<Rightarrow> int \<Rightarrow> seek_origin \<Rightarrow> int" where
  "seek_target fs offset origin =
     (case origin of SEEK_SET \<Rightarrow> offset | SEEK_CUR \<Rightarrow> int (file_posn fs) + offset
      | SEEK_END \<Rightarrow> int (length (file_content fs)) + offset | SEEK_OTHER \<Rightarrow> -1)"

lemma FileStreamSeek_eq:
  assumes inv: "file_stream_inv fs"
  shows "\<exists>fs'. FileStreamSeek fs offset origin
      = Some (if seek_target fs offset origin < 0 then -1 else 0, fs')
    \<and> snd fs' = snd fs \<and> file_content fs' = file_content fs
    \<and> (0 \<le> seek_target fs offset origin \<longrightarrow> file_posn fs' = nat (seek_target fs offset origin))
    \<and> (seek_target fs offset origin \<le> int (length (file_content fs)) \<longrightarrow> file_stream_inv fs')"
proof -
  obtain s v where fs: "fs = (s, v)" by (cases fs)
  with inv obtain f where f: "fs_file s = Some f" by (auto simp: file_stream_inv_def split: option.splits)
  show ?thesis
    using inv f fs
    by (cases origin) (auto simp: FileStreamSeek_def seek_target_def whence_of_def fseek_def
        file_stream_defs Let_def nat_le_iff)
qed

text \<open>Reading does not change the volume \<open>v\<close> that the file lives on.\<close>

interpretation fil: itc_reader file_ops file_content file_posn
  "\<lambda>fs. file_stream_inv fs \<and> snd fs = v" for v :: volume
proof unfold_locales
  fix fs :: file_stream and n :: nat and buf :: block
  assume "file_stream_inv fs \<and> snd fs = v" "n \<le> length buf" "n < 2 ^ 31"
  then show "\<exists>s'. Read file_ops fs buf (int n)
             = Some (int (min n (length (file_content fs) - file_posn fs)),
                     take n (drop (file_posn fs) (file_content fs))
                       @ drop (min n (length (file_content fs) - file_posn fs)) buf, s')
         \<and> (file_stream_inv s' \<and> snd s' = v) \<and> file_content s' = file_content fs
         \<and> file_posn s' = file_posn fs + min n (length (file_content fs) - file_posn fs)"
    using FileStreamRead_eq [of fs n buf] by auto
next
  fix fs :: file_stream and p :: nat
  assume "file_stream_inv fs \<and> snd fs = v" "p < length (file_content fs)"
  then show "\<exists>s'. Seek file_ops fs (int p) SEEK_SET = Some (0, s') \<and> (file_stream_inv s' \<and> snd s' = v)
      \<and> file_content s' = file_content fs \<and> file_posn s' = p"
    using FileStreamSeek_eq [of fs "int p" SEEK_SET] by (auto simp: seek_target_def)
next
  fix fs :: file_stream and k :: nat
  assume "file_stream_inv fs \<and> snd fs = v" "k \<le> file_posn fs" "file_posn fs - k < length (file_content fs)"
  then show "\<exists>s'. Seek file_ops fs (- int k) SEEK_CUR = Some (0, s') \<and> (file_stream_inv s' \<and> snd s' = v)
      \<and> file_content s' = file_content fs \<and> file_posn s' = file_posn fs - k"
    using FileStreamSeek_eq [of fs "- int k" SEEK_CUR] by (auto simp: seek_target_def)
next
  fix fs :: file_stream and k :: nat
  assume "file_stream_inv fs \<and> snd fs = v" "0 < k" "k \<le> length (file_content fs)"
  then show "\<exists>s'. Seek file_ops fs (- int k) SEEK_END = Some (0, s') \<and> (file_stream_inv s' \<and> snd s' = v)
      \<and> file_content s' = file_content fs \<and> file_posn s' = length (file_content fs) - k"
    using FileStreamSeek_eq [of fs "- int k" SEEK_END] by (auto simp: seek_target_def)
next
  fix fs :: file_stream and k :: nat
  assume "file_stream_inv fs \<and> snd fs = v" "length (file_content fs) < k"
  then show "\<exists>r s'. r \<noteq> 0 \<and> Seek file_ops fs (- int k) SEEK_END = Some (r, s')"
    using FileStreamSeek_eq [of fs "- int k" SEEK_END] by (auto simp: seek_target_def)
next
  fix fs :: file_stream
  assume "file_stream_inv fs \<and> snd fs = v"
  then show "\<exists>s'. Available file_ops fs = Some (int (length (file_content fs) - file_posn fs), s')
      \<and> (file_stream_inv s' \<and> snd s' = v) \<and> file_content s' = file_content fs \<and> file_posn s' = file_posn fs"
    by (cases fs) (auto simp: FileStreamAvailable_def file_stream_defs ftell_def split: option.splits)
qed (auto simp: file_stream_defs FileStreamTell_def itcFileStreamClose_def ftell_def ITCStream.defs
      split: option.splits)

lemma itcFileStreamOpen_read:
  assumes "files v p = Some d" "\<not> denied v p"
  shows "itcFileStreamOpen True v p False
    = (0, \<lparr>eof = False, stream_size = int (length d), fs_file = Some \<lparr>fname = p, fpos = 0\<rparr>\<rparr>, v)"
  using assms
  by (simp add: itcFileStreamOpen_def itcStreamOpen_def fopen_rb_def file_size_def file_data_def
      ITCStream.defs ITCFileStream.defs Let_def)

lemma itcFileStreamOpen_valid:
  assumes "files v p = Some d" "\<not> denied v p" "bad_from v p = None" "length d < 2 ^ 31"
  shows "file_stream_inv (snd (itcFileStreamOpen True v p False))"
    "file_content (snd (itcFileStreamOpen True v p False)) = d"
    "file_posn (snd (itcFileStreamOpen True v p False)) = 0"
  using assms by (simp_all add: itcFileStreamOpen_read file_stream_defs file_data_def)

end
