(* ===== verification/Ug_Crc.thy ===== *)
theory Ug_Crc
  imports Ug_Crc32 Itc_ArrayStream Itc_FileStream
begin

text \<open>
  The stream functions of \<open>sdk/share/upgrade/ug_crc.c\<close>: \<open>ugCheckCrc\<close> checks the checksum that ends a
  package, \<open>ugCalcFileCrc\<close> computes that of a file. The client lemmas are proved once, in the
  context of \<open>itc_reader\<close>, and hold for the array stream (packages in memory) and for the file
  stream (packages on a disk). \<open>cfg\<close> is \<open>CFG_UG_BUF_SIZE\<close>, a build option; \<open>malloc n\<close> gives the
  block that the C library allocates, or \<open>None\<close>.
\<close>

definition UG_OUT_OF_MEM :: int where
  "UG_OUT_OF_MEM = 3"

text \<open>What is relied on of \<open>malloc\<close>: a block it returns has the size asked for.\<close>

definition malloc_sized :: "(int \<Rightarrow> block option) \<Rightarrow> bool" where
  "malloc_sized malloc \<longleftrightarrow> (\<forall>n b. 0 \<le> n \<longrightarrow> malloc n = Some b \<longrightarrow> int (length b) = n)"

text \<open>
  The \<open>do\<close> loop that both functions have, reading \<open>filesize\<close> bytes \<open>bufsize\<close> at a time. \<open>Inl\<close> is
  the \<open>goto end\<close> with the error \<open>short\<close>; \<open>Inr\<close> the last \<open>readsize\<close> and the checksum. With a
  \<open>bufsize\<close> of 0 and bytes left the loop does not end.
\<close>

partial_function (option) crc_loop ::
  "'s ITCStreamOps \<Rightarrow> int \<Rightarrow> 's \<Rightarrow> block \<Rightarrow> 32 word \<Rightarrow> 32 word \<Rightarrow> 32 word
     \<Rightarrow> ((int + 32 word \<times> 32 word) \<times> block \<times> 's) option" where
  "crc_loop ops short f buf filesize bufsize crc32val =
     (let readsize = (if filesize < bufsize then filesize else bufsize)
      in do { (readsize2, buf, f) \<leftarrow> Read ops f buf (sint readsize);
              if word_of_int readsize2 \<noteq> readsize then Some (Inl short, buf, f)
              else do {
                bs \<leftarrow> peek buf 0 (uint readsize);
                let crc32val = crc_bytes crc32val bs; filesize = filesize - readsize
                in if filesize > 0 then crc_loop ops short f buf filesize bufsize crc32val
                   else Some (Inr (readsize, crc32val), buf, f) } })"

text \<open>
  \<open>ugCheckCrc\<close>. The steps before the loop, up to the allocation: \<open>Inl\<close> an error, \<open>Inr\<close> the stored
  checksum, the size of the payload, the buffer and its size.
\<close>

definition check_crc_head ::
  "int \<Rightarrow> (int \<Rightarrow> block option) \<Rightarrow> 's ITCStreamOps \<Rightarrow> 's \<Rightarrow> block option
     \<Rightarrow> ((int + 32 word \<times> 32 word \<times> block \<times> 32 word) \<times> 's) option" where
  "check_crc_head cfg malloc ops f buffer =
     do { (r, f) \<leftarrow> Seek ops f (-4) SEEK_END;
          if r \<noteq> 0 then Some (Inl 75, f)
          else do {
            (readsize, crcbuf, f) \<leftarrow> Read ops f (replicate 4 0) 4;
            if (word_of_int readsize :: 32 word) \<noteq> 4 then Some (Inl 83, f)
            else
              let crc = itpLetoh32 crcbuf;
                  filesize = (word_of_int (Tell ops f) :: 32 word) - 4
              in case buffer of
                   Some buf \<Rightarrow> Some (Inr (crc, filesize, buf, filesize), f)
                 | None \<Rightarrow>
                     let bufsize = (if word_of_int cfg < filesize then word_of_int cfg else filesize)
                     in case malloc (uint bufsize) of
                          None \<Rightarrow> Some (Inl UG_OUT_OF_MEM, f)
                        | Some buf \<Rightarrow> Some (Inr (crc, filesize, buf, bufsize), f) } }"

definition check_crc_body ::
  "int \<Rightarrow> (int \<Rightarrow> block option) \<Rightarrow> 's ITCStreamOps \<Rightarrow> 's \<Rightarrow> block option
     \<Rightarrow> (int \<times> block option \<times> 's) option" where
  "check_crc_body cfg malloc ops f buffer =
     do { (h, f) \<leftarrow> check_crc_head cfg malloc ops f buffer;
          case h of Inl e \<Rightarrow> Some (e, buffer, f)
          | Inr (crc, filesize, buf, bufsize) \<Rightarrow>
            do { (r, f) \<leftarrow> Seek ops f 0 SEEK_SET;
                 if r \<noteq> 0 then Some (114, buffer, f)
                 else do {
                   (l, buf, f) \<leftarrow> crc_loop ops 125 f buf filesize bufsize 0;
                   let buffer = map_option (\<lambda>_. buf) buffer
                   in case l of Inl e \<Rightarrow> Some (e, buffer, f)
                      | Inr (readsize, crc32val) \<Rightarrow>
                          if crc \<noteq> crc_pad crc32val (uint readsize mod 4) then Some (143, buffer, f)
                          else do { (r, f) \<leftarrow> Seek ops f 0 SEEK_SET;
                                    Some (if r \<noteq> 0 then 150 else 0, buffer, f) } } } }"

text \<open>The end of the function closes the stream after an error.\<close>

definition ugCheckCrc ::
  "int \<Rightarrow> (int \<Rightarrow> block option) \<Rightarrow> 's ITCStreamOps \<Rightarrow> 's \<Rightarrow> block option
     \<Rightarrow> (int \<times> block option \<times> 's) option" where
  "ugCheckCrc cfg malloc ops f buffer =
     do { (ret, buffer, f) \<leftarrow> check_crc_body cfg malloc ops f buffer;
          if ret \<noteq> 0 then do { (_, f) \<leftarrow> Close ops f; Some (ret, buffer, f) }
          else Some (ret, buffer, f) }"

text \<open>\<open>ugCalcFileCrc\<close>: the result and, when it is stored, the checksum.\<close>

definition ugCalcFileCrc ::
  "int \<Rightarrow> (int \<Rightarrow> block option) \<Rightarrow> bool \<Rightarrow> volume \<Rightarrow> string \<Rightarrow> (int \<times> 32 word option \<times> volume) option"
  where
  "ugCalcFileCrc cfg malloc stat_ok v filepath =
     (let (ret, f) = itcFileStreamOpen stat_ok v filepath False
      in if ret \<noteq> 0 then Some (ret, None, snd f)
         else
           let filesize = word_of_int (stream_size (Base file_ops f)) :: 32 word;
               bufsize = (if word_of_int cfg < filesize then word_of_int cfg else filesize)
           in case malloc (uint bufsize) of
                None \<Rightarrow> do { (_, f) \<leftarrow> Close file_ops f; Some (UG_OUT_OF_MEM, None, snd f) }
              | Some buf \<Rightarrow>
                  do { (l, buf, f) \<leftarrow> crc_loop file_ops 197 f buf filesize bufsize 0;
                       (_, f) \<leftarrow> Close file_ops f;
                       case l of Inl e \<Rightarrow> Some (e, None, snd f)
                       | Inr (readsize, crc32val) \<Rightarrow>
                           Some (0, Some (crc_pad crc32val (uint readsize mod 4)), snd f) })"

subsection \<open>Sizes in 32 bits\<close>

lemma u32_of_nat:
  assumes "n < 2 ^ 31"
  shows "unat (of_nat n :: 32 word) = n" "uint (of_nat n :: 32 word) = int n"
    "sint (of_nat n :: 32 word) = int n"
proof -
  show "unat (of_nat n :: 32 word) = n"
    using assms by (simp add: unat_of_nat take_bit_nat_eq_self)
  then show "uint (of_nat n :: 32 word) = int n"
    by (metis uint_nat)
  then show "sint (of_nat n :: 32 word) = int n"
    using assms by (simp add: sint_uint signed_take_bit_int_eq_self)
qed

lemma u32_less:
  "m < 2 ^ 31 \<Longrightarrow> n < 2 ^ 31 \<Longrightarrow> (of_nat m :: 32 word) < of_nat n \<longleftrightarrow> m < n"
  by (simp add: word_less_nat_alt u32_of_nat)

lemma u32_min:
  "m < 2 ^ 31 \<Longrightarrow> n < 2 ^ 31 \<Longrightarrow>
     (if (of_nat m :: 32 word) < of_nat n then of_nat m else of_nat n) = (of_nat (min m n) :: 32 word)"
  by (simp add: u32_less min_def)

lemma u32_eq:
  "m < 2 ^ 31 \<Longrightarrow> n < 2 ^ 31 \<Longrightarrow> (of_nat m :: 32 word) = of_nat n \<longleftrightarrow> m = n"
  by (metis u32_of_nat(1))

subsection \<open>The loop over a source\<close>

context itc_reader
begin

text \<open>
  Reading \<open>n\<close> bytes through a buffer of \<open>b\<close> gives the checksum of these bytes; the last
  \<open>readsize\<close> is what the padding needs. A buffer that holds all of them holds them afterwards.
\<close>

lemma crc_loop_ok:
  assumes "valid s" "posn s + n \<le> length (content s)" "n < 2 ^ 31" "b < 2 ^ 31"
    "b \<le> length buf" "0 < b \<or> n = 0"
  shows "\<exists>k buf' s'. crc_loop ops short s buf (of_nat n) (of_nat b) c
      = Some (Inr (of_nat k, crc_bytes c (take n (drop (posn s) (content s)))), buf', s')
    \<and> valid s' \<and> content s' = content s \<and> posn s' = posn s + n \<and> k < 2 ^ 31
    \<and> (4 dvd b \<or> n \<le> b \<longrightarrow> k mod 4 = n mod 4)
    \<and> (n \<le> b \<longrightarrow> buf' = take n (drop (posn s) (content s)) @ drop n buf)"
  using assms
proof (induction n arbitrary: s buf c rule: less_induct)
  case (less n)
  define r where "r = min n b"
  have r: "r < 2 ^ 31" "r \<le> length buf" "posn s + r \<le> length (content s)" "r \<le> n"
    using less.prems by (auto simp: r_def)
  obtain s1 where s1: "Read ops s buf (int r)
        = Some (int r, take r (drop (posn s) (content s)) @ drop r buf, s1)"
    "valid s1" "content s1 = content s" "posn s1 = posn s + r"
    using read_all [OF less.prems(1) r(2,1,3)] by blast
  define bs where "bs = take r (drop (posn s) (content s))"
  have len: "length bs = r" using r(3) by (simp add: bs_def)
  have pk: "peek (bs @ drop r buf) 0 (uint (of_nat r :: 32 word)) = Some bs"
    using len r by (simp add: peek_def u32_of_nat)
  have step: "crc_loop ops short s buf (of_nat n) (of_nat b) c =
      (if n - r > 0
       then crc_loop ops short s1 (bs @ drop r buf) (of_nat (n - r)) (of_nat b) (crc_bytes c bs)
       else Some (Inr (of_nat r, crc_bytes c bs), bs @ drop r buf, s1))"
  proof -
    have "(of_nat n :: 32 word) - of_nat r = of_nat (n - r)"
      using r(4) by (simp add: of_nat_diff)
    moreover have "(0 :: 32 word) < of_nat (n - r) \<longleftrightarrow> 0 < n - r"
      using u32_less [of 0 "n - r"] less.prems(3) by simp
    ultimately show ?thesis
      by (subst crc_loop.simps)
        (simp add: u32_min [OF less.prems(3,4), folded r_def] u32_of_nat(3) [OF r(1)] s1(1)
          bs_def [symmetric] pk del: of_nat_diff)
  qed
  show ?case
  proof (cases "n \<le> b")
    case True
    then have "r = n" by (simp add: r_def)
    with step True s1 r show ?thesis
      by (auto simp: bs_def)
  next
    case False
    with less.prems have b: "0 < b" "r = b" by (auto simp: r_def)
    have "length (bs @ drop r buf) = length buf" "n - r < n" "n - r < 2 ^ 31"
      using len r(2) less.prems(3) b False by auto
    then obtain k buf' s' where IH:
      "crc_loop ops short s1 (bs @ drop r buf) (of_nat (n - r)) (of_nat b) (crc_bytes c bs)
       = Some (Inr (of_nat k, crc_bytes (crc_bytes c bs)
           (take (n - r) (drop (posn s1) (content s1)))), buf', s')"
      "valid s'" "content s' = content s1" "posn s' = posn s1 + (n - r)" "k < 2 ^ 31"
      "4 dvd b \<or> n - r \<le> b \<longrightarrow> k mod 4 = (n - r) mod 4"
      using less.IH [of "n - r" s1 "bs @ drop r buf" "crc_bytes c bs"] b False s1 less.prems
      by auto
    have "bs @ take (n - r) (drop (posn s1) (content s1)) = take n (drop (posn s) (content s))"
      using take_add [of b "n - b" "drop (posn s) (content s)"] False s1 b
      by (simp add: bs_def add.commute)
    then have "crc_bytes (crc_bytes c bs) (take (n - r) (drop (posn s1) (content s1)))
        = crc_bytes c (take n (drop (posn s) (content s)))"
      by (simp flip: crc_bytes_append)
    moreover have "4 dvd b \<Longrightarrow> (n - b) mod 4 = n mod 4"
      using False by (metis dvd_imp_mod_0 le_add_diff_inverse mod_add_left_eq add_0 nle_le)
    ultimately show ?thesis
      using step IH s1 b False by auto
  qed
qed

end

subsection \<open>The check of a package\<close>

text \<open>The room the function has for its buffer: the caller's, or what \<open>malloc\<close> gives.\<close>

definition crc_buffer_ok :: "int \<Rightarrow> (int \<Rightarrow> block option) \<Rightarrow> block option \<Rightarrow> nat \<Rightarrow> bool" where
  "crc_buffer_ok cfg malloc buffer n \<longleftrightarrow>
     (case buffer of Some buf \<Rightarrow> n \<le> length buf
      | None \<Rightarrow> 0 < cfg \<and> cfg < 2 ^ 31 \<and> malloc_sized malloc \<and> (4 dvd cfg \<or> int n \<le> cfg)
          \<and> malloc (min cfg (int n)) \<noteq> None)"

lemma u32_int: "0 \<le> i \<Longrightarrow> (word_of_int i :: 32 word) = of_nat (nat i)"
  by (metis int_nat_eq of_int_of_nat_eq)

lemma crc_alloc:
  assumes "crc_buffer_ok cfg malloc None n" "n < 2 ^ 31"
  obtains b buf where "(if (word_of_int cfg :: 32 word) < of_nat n then word_of_int cfg
        else of_nat n) = (of_nat b :: 32 word)"
    "malloc (int b) = Some buf" "length buf = b" "b < 2 ^ 31" "0 < b \<or> n = 0" "4 dvd b \<or> n \<le> b"
proof -
  define b where "b = min (nat cfg) n"
  have "4 dvd cfg \<Longrightarrow> 4 dvd nat cfg"
    by (auto elim!: dvdE simp: nat_mult_distrib)
  with assms have cfg: "0 < cfg" "nat cfg < 2 ^ 31" "4 dvd nat cfg \<or> n \<le> nat cfg"
    "malloc_sized malloc" "malloc (int b) \<noteq> None"
    by (auto simp: crc_buffer_ok_def b_def nat_dvd_iff of_nat_min)
  then obtain buf where buf: "malloc (int b) = Some buf" by blast
  with cfg(4) have "int (length buf) = int b"
    unfolding malloc_sized_def by (metis of_nat_0_le_iff)
  then have "length buf = b" by simp
  moreover have "(if (word_of_int cfg :: 32 word) < of_nat n then word_of_int cfg
        else of_nat n) = (of_nat b :: 32 word)"
    unfolding u32_int [OF less_imp_le [OF cfg(1)]] b_def by (rule u32_min [OF cfg(2) assms(2)])
  moreover have "0 < b \<or> n = 0" "4 dvd b \<or> n \<le> b" "b < 2 ^ 31"
    using cfg assms(2) by (auto simp: b_def min_def)
  ultimately show thesis using buf that by blast
qed

context itc_reader
begin

lemma check_crc_head_ok:
  assumes s: "valid s" "content s = payload @ trailer" "length trailer = 4" "length (content s) < 2 ^ 31"
    and buffer: "crc_buffer_ok cfg malloc buffer (length payload)"
  shows "\<exists>b buf s'. check_crc_head cfg malloc ops s buffer
      = Some (Inr (itpLetoh32 trailer, of_nat (length payload), buf, of_nat b), s')
    \<and> valid s' \<and> content s' = content s \<and> b \<le> length buf \<and> b < 2 ^ 31
    \<and> (0 < b \<or> length payload = 0) \<and> (4 dvd b \<or> length payload \<le> b)
    \<and> (\<forall>bf. buffer = Some bf \<longrightarrow> buf = bf \<and> length payload \<le> b)"
proof -
  let ?n = "length payload"
  from s obtain s1 where s1: "Seek ops s (-4) SEEK_END = Some (0, s1)" "valid s1"
    "content s1 = content s" "posn s1 = ?n"
    using seek_end_ok [of s 4] by auto
  from s1 s obtain s2 where s2: "Read ops s1 (replicate 4 0) 4 = Some (4, trailer, s2)" "valid s2"
    "content s2 = content s" "posn s2 = ?n + 4"
    using read_all [of s1 4 "replicate 4 0"] by auto
  have n31: "?n < 2 ^ 31" using s by simp
  have tell: "(word_of_int (Tell ops s2) :: 32 word) - 4 = of_nat ?n"
    using s2 by (simp add: tell_ok)
  show ?thesis
  proof (cases buffer)
    case (Some bf)
    then have "?n \<le> length bf" using buffer by (simp add: crc_buffer_ok_def)
    then show ?thesis
      using Some s1 s2 tell n31 by (auto simp: check_crc_head_def Let_def intro!: exI [of _ ?n])
  next
    case None
    with buffer have "crc_buffer_ok cfg malloc None ?n" by simp
    from crc_alloc [OF this n31]
    obtain b buf where b: "(if (word_of_int cfg :: 32 word) < of_nat ?n then word_of_int cfg
        else of_nat ?n) = (of_nat b :: 32 word)"
      "malloc (int b) = Some buf" "length buf = b" "b < 2 ^ 31" "0 < b \<or> ?n = 0"
      "4 dvd b \<or> ?n \<le> b"
      by blast
    then have "check_crc_head cfg malloc ops s buffer
      = Some (Inr (itpLetoh32 trailer, of_nat ?n, buf, of_nat b), s2)"
      by (simp add: check_crc_head_def Let_def None s1(1) s2(1) tell u32_of_nat(2)
          cong: if_cong split del: if_split)
    then show ?thesis
      using None s2 b by auto
  qed
qed

lemma ugCheckCrc_package:
  assumes s: "valid s" "content s = payload @ trailer" "length trailer = 4" "length (content s) < 2 ^ 31"
    and buffer: "crc_buffer_ok cfg malloc buffer (length payload)"
  shows "\<exists>s'. ugCheckCrc cfg malloc ops s buffer
      = Some (if itpLetoh32 trailer = crc_of payload then 0 else 143,
              map_option (\<lambda>bf. payload @ drop (length payload) bf) buffer, s')
    \<and> (itpLetoh32 trailer = crc_of payload
         \<longrightarrow> valid s' \<and> content s' = content s \<and> posn s' = 0)"
proof -
  let ?n = "length payload"
  obtain b buf s1 where h: "check_crc_head cfg malloc ops s buffer
      = Some (Inr (itpLetoh32 trailer, of_nat ?n, buf, of_nat b), s1)"
    "valid s1" "content s1 = content s" "b \<le> length buf" "b < 2 ^ 31" "0 < b \<or> ?n = 0"
    "4 dvd b \<or> ?n \<le> b" "\<forall>bf. buffer = Some bf \<longrightarrow> buf = bf \<and> ?n \<le> b"
    using check_crc_head_ok [OF assms] by blast
  from h s obtain s2 where s2: "Seek ops s1 0 SEEK_SET = Some (0, s2)" "valid s2"
    "content s2 = content s" "posn s2 = 0"
    using seek_set_ok [of s1 0] by auto
  have n31: "?n < 2 ^ 31" using s by simp
  from s2 s h n31 obtain k buf' s3 where l:
    "crc_loop ops 125 s2 buf (of_nat ?n) (of_nat b) 0 = Some (Inr (of_nat k, crc_bytes 0 payload), buf', s3)"
    "valid s3" "content s3 = content s" "k < 2 ^ 31" "k mod 4 = ?n mod 4"
    "?n \<le> b \<longrightarrow> buf' = payload @ drop ?n buf"
    using crc_loop_ok [of s2 ?n b buf 125 0] by auto
  from l s obtain s4 where s4: "Seek ops s3 0 SEEK_SET = Some (0, s4)" "valid s4"
    "content s4 = content s" "posn s4 = 0"
    using seek_set_ok [of s3 0] by auto
  have "crc_pad (crc_bytes 0 payload) (uint (of_nat k :: 32 word) mod 4) = crc_of payload"
    using l(4) arg_cong [OF l(5), of int] by (simp add: crc_of_def u32_of_nat zmod_int)
  moreover have "map_option (\<lambda>_. buf') buffer = map_option (\<lambda>bf. payload @ drop ?n bf) buffer"
    using h l by (cases buffer) auto
  ultimately have body: "\<exists>s'. check_crc_body cfg malloc ops s buffer
      = Some (if itpLetoh32 trailer = crc_of payload then 0 else 143,
              map_option (\<lambda>bf. payload @ drop ?n bf) buffer, s')
    \<and> valid s' \<and> (itpLetoh32 trailer = crc_of payload \<longrightarrow> content s' = content s \<and> posn s' = 0)"
    using h(1) s2 l s4 by (auto simp: check_crc_body_def)
  then show ?thesis
    using close_ok by (fastforce simp: ugCheckCrc_def)
qed

text \<open>A stream with no room for a checksum is refused and closed.\<close>

lemma ugCheckCrc_truncated:
  assumes "valid s" "length (content s) < 4"
    "\<And>s r s'. Seek ops s (-4) SEEK_END = Some (r, s') \<Longrightarrow> \<exists>q s''. Close ops s' = Some (q, s'')"
  shows "\<exists>s'. ugCheckCrc cfg malloc ops s buffer = Some (75, buffer, s')"
proof -
  obtain r s' where "r \<noteq> 0" "Seek ops s (-4) SEEK_END = Some (r, s')"
    using seek_before_start [OF assms(1), of 4] assms(2) by auto
  then show ?thesis
    using assms(3) by (fastforce simp: ugCheckCrc_def check_crc_body_def check_crc_head_def)
qed

end

subsection \<open>The checksum of a file\<close>

text \<open>Whatever the size of the buffer, the checksum of a file is the one of its content.\<close>

lemma ugCalcFileCrc_ok:
  assumes f: "files v p = Some d" "\<not> denied v p" "bad_from v p = None" "length d < 2 ^ 31"
    and buffer: "crc_buffer_ok cfg malloc None (length d)"
  shows "ugCalcFileCrc cfg malloc True v p = Some (0, Some (crc_of d), v)"
proof -
  define s where "s = snd (itcFileStreamOpen True v p False)"
  have open_eq: "itcFileStreamOpen True v p False = (0, s)"
    using f by (simp add: s_def itcFileStreamOpen_read)
  have s: "file_stream_inv s \<and> snd s = v" "file_content s = d" "file_posn s = 0"
    using itcFileStreamOpen_valid [OF f] itcFileStreamOpen_read [OF f(1,2)] by (auto simp: s_def)
  have size: "stream_size (Base file_ops s) = int (length d)"
    using fil.size_content [OF s(1)] s(2) by simp
  obtain b buf where b: "(if (word_of_int cfg :: 32 word) < of_nat (length d) then word_of_int cfg
        else of_nat (length d)) = (of_nat b :: 32 word)"
    "malloc (int b) = Some buf" "length buf = b" "b < 2 ^ 31" "0 < b \<or> length d = 0"
    "4 dvd b \<or> length d \<le> b"
    using crc_alloc [OF buffer f(4)] by blast
  from s f(4) b obtain k buf' s' where l:
    "crc_loop file_ops 197 s buf (of_nat (length d)) (of_nat b) 0
       = Some (Inr (of_nat k, crc_bytes 0 d), buf', s')"
    "file_stream_inv s' \<and> snd s' = v" "k < 2 ^ 31" "k mod 4 = length d mod 4"
    using fil.crc_loop_ok [of s v "length d" b buf 197 0] by auto
  have "crc_pad (crc_bytes 0 d) (uint (of_nat k :: 32 word) mod 4) = crc_of d"
    using l(3) arg_cong [OF l(4), of int] by (simp add: crc_of_def u32_of_nat zmod_int)
  then show ?thesis
    using l by (simp add: ugCalcFileCrc_def open_eq size Let_def b(1,2) u32_of_nat(2) [OF b(4)]
        itcFileStreamClose_def del: file_ops_simps(1) split del: if_split cong: if_cong)
qed

end
