(* ===== verification/Ug_FileCrc.thy ===== *)
theory Ug_FileCrc
  imports Ug_Crc
begin

text \<open>
  \<open>sdk/share/upgrade/ug_filecrc.c\<close>: a checksum file lists the files of a directory with their
  checksums, each entry a C string followed by four bytes, and ends with its own checksum.
  \<open>PATH_MAX\<close> is the size of the stack buffers for paths; a longer path overflows them.
\<close>

subsection \<open>C strings in memory\<close>

definition char_of_byte :: "byte \<Rightarrow> char" where
  "char_of_byte b = char_of (unat b)"

definition byte_of_char :: "char \<Rightarrow> byte" where
  "byte_of_char c = of_char c"

text \<open>The string at an offset; undefined if no \<open>NUL\<close> follows in the block.\<close>

definition cstr :: "block \<Rightarrow> int \<Rightarrow> string option" where
  "cstr m off =
     (if 0 \<le> off \<and> 0 \<in> set (drop (nat off) m)
      then Some (map char_of_byte (takeWhile (\<lambda>b. b \<noteq> 0) (drop (nat off) m))) else None)"

definition strcpy_mem :: "block \<Rightarrow> int \<Rightarrow> string \<Rightarrow> block option" where
  "strcpy_mem m off s = poke m off (map byte_of_char s @ [0])"

text \<open>\<open>strcpy(pathbuf, path); strcat(pathbuf, name)\<close>\<close>

definition path_buf :: "nat \<Rightarrow> string \<Rightarrow> string \<Rightarrow> string option" where
  "path_buf PATH_MAX path name =
     (if length path + length name < PATH_MAX then Some (path @ name) else None)"

subsection \<open>The functions\<close>

definition ugGetCrcValue :: "block \<Rightarrow> int \<Rightarrow> 32 word option" where
  "ugGetCrcValue m ptr =
     do { p \<leftarrow> peek m ptr 4;
          Some (push_bit 24 (ucast (p ! 3)) OR push_bit 16 (ucast (p ! 2))
                OR push_bit 8 (ucast (p ! 1)) OR ucast (p ! 0)) }"

definition ugSetCrcValue :: "block \<Rightarrow> int \<Rightarrow> 32 word \<Rightarrow> block option" where
  "ugSetCrcValue m ptr crc =
     poke m ptr [ucast (crc AND 0xFF), ucast (drop_bit 8 crc AND 0xFF),
                 ucast (drop_bit 16 crc AND 0xFF), ucast (drop_bit 24 crc AND 0xFF)]"

text \<open>The loop of \<open>ugCheckFilesCrc\<close>, from the entry at \<open>ptr\<close>.\<close>

partial_function (option) check_files_loop ::
  "int \<Rightarrow> (int \<Rightarrow> block option) \<Rightarrow> (string \<Rightarrow> bool) \<Rightarrow> nat \<Rightarrow> string \<Rightarrow> block \<Rightarrow> int \<Rightarrow> volume \<Rightarrow> int
     \<Rightarrow> (int \<times> volume) option" where
  "check_files_loop cfg malloc stat_ok PATH_MAX path buf sz v ptr =
     (if ptr = sz then Some (0, v)
      else do {
        name \<leftarrow> cstr buf ptr;
        pathbuf \<leftarrow> path_buf PATH_MAX path name;
        let n = int (length name) + 1 in do {
          crcval \<leftarrow> ugGetCrcValue buf (ptr + n);
          (ret, crc, v) \<leftarrow> ugCalcFileCrc cfg malloc (stat_ok pathbuf) v pathbuf;
          if ret \<noteq> 0 then Some (ret, v)
          else if crcval \<noteq> (case crc of None \<Rightarrow> 0 | Some c \<Rightarrow> c) then Some (76, v)
          else check_files_loop cfg malloc stat_ok PATH_MAX path buf sz v (ptr + n + 4) } })"

text \<open>
  The steps that the three functions share: open the checksum file, read it whole into a buffer
  of its size and \<open>extra\<close> bytes while checking its own checksum, close it. \<open>Inl\<close> is the error
  returned; \<open>Inr\<close> the buffer and the size.
\<close>

definition load_crc_file ::
  "int \<Rightarrow> (int \<Rightarrow> block option) \<Rightarrow> (string \<Rightarrow> bool) \<Rightarrow> volume \<Rightarrow> string \<Rightarrow> int
     \<Rightarrow> ((int + block \<times> int) \<times> volume) option" where
  "load_crc_file cfg malloc stat_ok v crcpath extra =
     (let (ret, f) = itcFileStreamOpen (stat_ok crcpath) v crcpath False
      in if ret \<noteq> 0 then Some (Inl ret, snd f)
         else
           let sz = stream_size (Base file_ops f)
           in case malloc (sz + extra) of
                None \<Rightarrow> Some (Inl UG_OUT_OF_MEM, snd f)
              | Some buf \<Rightarrow>
                  do { (ret, buffer, f) \<leftarrow> ugCheckCrc cfg malloc file_ops f (Some buf);
                       if ret \<noteq> 0 then Some (Inl ret, snd f)
                       else do { (_, f) \<leftarrow> Close file_ops f;
                                 buf \<leftarrow> buffer;
                                 Some (Inr (buf, sz), snd f) } })"

definition ugCheckFilesCrc ::
  "int \<Rightarrow> (int \<Rightarrow> block option) \<Rightarrow> (string \<Rightarrow> bool) \<Rightarrow> nat \<Rightarrow> volume \<Rightarrow> string \<Rightarrow> string
     \<Rightarrow> (int \<times> volume) option" where
  "ugCheckFilesCrc cfg malloc stat_ok PATH_MAX v path crcpath =
     do { (l, v) \<leftarrow> load_crc_file cfg malloc stat_ok v crcpath 0;
          case l of Inl ret \<Rightarrow> Some (ret, v)
          | Inr (buf, sz) \<Rightarrow>
              check_files_loop cfg malloc stat_ok PATH_MAX path buf (sz - 4) v 0 }"

text \<open>\<open>ugSetFileCrc\<close>: the search for the entry of \<open>filepath\<close>, its offset or the end.\<close>

partial_function (option) find_entry :: "string \<Rightarrow> block \<Rightarrow> int \<Rightarrow> int \<Rightarrow> int option" where
  "find_entry filepath buf sz ptr =
     (if ptr = sz then Some ptr
      else do { name \<leftarrow> cstr buf ptr;
                if filepath = name then Some ptr
                else find_entry filepath buf sz (ptr + (int (length name) + 1) + 4) })"

definition update_entry ::
  "block \<Rightarrow> int \<Rightarrow> int \<Rightarrow> string \<Rightarrow> 32 word \<Rightarrow> (block \<times> int) option" where
  "update_entry buf sz bufsize filepath crc =
     do { ptr \<leftarrow> find_entry filepath buf sz 0;
          let n = int (length filepath) + 1 in
          if ptr = sz
          then do { buf \<leftarrow> strcpy_mem buf ptr filepath;
                    buf \<leftarrow> ugSetCrcValue buf (ptr + n) crc;
                    Some (buf, bufsize) }
          else do { buf \<leftarrow> ugSetCrcValue buf (ptr + n) crc; Some (buf, sz + 4) } }"

definition ugSetFileCrc ::
  "int \<Rightarrow> (int \<Rightarrow> block option) \<Rightarrow> (string \<Rightarrow> bool) \<Rightarrow> nat \<Rightarrow> volume \<Rightarrow> string \<Rightarrow> string \<Rightarrow> string
     \<Rightarrow> (int \<times> volume) option" where
  "ugSetFileCrc cfg malloc stat_ok PATH_MAX v filepath path crcpath =
     (let extra = int (length filepath) + 1 + 4 in
      do { (l, v) \<leftarrow> load_crc_file cfg malloc stat_ok v crcpath extra;
           case l of Inl ret \<Rightarrow> Some (ret, v)
           | Inr (buf, sz) \<Rightarrow>
             do { pathbuf \<leftarrow> path_buf PATH_MAX path filepath;
                  (ret, crc, v) \<leftarrow> ugCalcFileCrc cfg malloc (stat_ok pathbuf) v pathbuf;
                  if ret \<noteq> 0 then Some (ret, v)
                  else do {
                    (buf, filesize) \<leftarrow> update_entry buf (sz - 4) (sz + extra) filepath
                                       (case crc of None \<Rightarrow> 0 | Some c \<Rightarrow> c);
                    crc \<leftarrow> ugCalcBufferCrc buf (filesize - 4);
                    buf \<leftarrow> ugSetCrcValue buf (filesize - 4) crc;
                    let (ret, f) = itcFileStreamOpen (stat_ok crcpath) v crcpath True in
                    if ret \<noteq> 0 then Some (ret, snd f)
                    else do { (written, f) \<leftarrow> Write file_ops f buf filesize;
                              (_, f) \<leftarrow> Close file_ops f;
                              Some (if written \<noteq> filesize then 178 else 0, snd f) } } } })"

text \<open>\<open>ugUpgradeFilesCrc\<close>: the loop updates the buffer, which the function then frees.\<close>

partial_function (option) upgrade_files_loop ::
  "int \<Rightarrow> (int \<Rightarrow> block option) \<Rightarrow> (string \<Rightarrow> bool) \<Rightarrow> nat \<Rightarrow> string \<Rightarrow> int \<Rightarrow> block \<Rightarrow> volume \<Rightarrow> int
     \<Rightarrow> (int \<times> block \<times> volume) option" where
  "upgrade_files_loop cfg malloc stat_ok PATH_MAX path sz buf v ptr =
     (if ptr = sz then Some (0, buf, v)
      else do {
        name \<leftarrow> cstr buf ptr;
        pathbuf \<leftarrow> path_buf PATH_MAX path name;
        let n = int (length name) + 1 in do {
          (ret, crc, v) \<leftarrow> ugCalcFileCrc cfg malloc (stat_ok pathbuf) v pathbuf;
          if ret \<noteq> 0 then Some (ret, buf, v)
          else do {
            buf \<leftarrow> ugSetCrcValue buf (ptr + n) (case crc of None \<Rightarrow> 0 | Some c \<Rightarrow> c);
            upgrade_files_loop cfg malloc stat_ok PATH_MAX path sz buf v (ptr + n + 4) } } })"

definition ugUpgradeFilesCrc ::
  "int \<Rightarrow> (int \<Rightarrow> block option) \<Rightarrow> (string \<Rightarrow> bool) \<Rightarrow> nat \<Rightarrow> volume \<Rightarrow> string \<Rightarrow> string
     \<Rightarrow> (int \<times> volume) option" where
  "ugUpgradeFilesCrc cfg malloc stat_ok PATH_MAX v path crcpath =
     do { (l, v) \<leftarrow> load_crc_file cfg malloc stat_ok v crcpath 0;
          case l of Inl ret \<Rightarrow> Some (ret, v)
          | Inr (buf, sz) \<Rightarrow>
              do { (ret, _, v) \<leftarrow> upgrade_files_loop cfg malloc stat_ok PATH_MAX path (sz - 4) buf v 0;
                   Some (ret, v) } }"

subsection \<open>The format\<close>

text \<open>The abstract content of a checksum file: names with checksums, in order.\<close>

type_synonym crc_entry = "string \<times> 32 word"

definition good_name :: "string \<Rightarrow> bool" where
  "good_name n \<longleftrightarrow> (\<forall>c \<in> set n. byte_of_char c \<noteq> 0)"

definition encode_entry :: "crc_entry \<Rightarrow> block" where
  "encode_entry e = map byte_of_char (fst e) @ 0 # le_of_word 4 (snd e)"

definition encode_entries :: "crc_entry list \<Rightarrow> block" where
  "encode_entries es = concat (map encode_entry es)"

definition crc_file :: "crc_entry list \<Rightarrow> block" where
  "crc_file es = encode_entries es @ le_of_word 4 (crc_of (encode_entries es))"

fun set_entry :: "string \<Rightarrow> 32 word \<Rightarrow> crc_entry list \<Rightarrow> crc_entry list" where
  "set_entry f c [] = [(f, c)]"
| "set_entry f c (e # es) = (if fst e = f then (f, c) # es else e # set_entry f c es)"

lemma encode_entries_simps [simp]:
  "encode_entries [] = []" "encode_entries (e # es) = encode_entry e @ encode_entries es"
  "encode_entries (es @ es') = encode_entries es @ encode_entries es'"
  by (simp_all add: encode_entries_def)

lemma length_encode_entry [simp]: "length (encode_entry e) = length (fst e) + 5"
  by (simp add: encode_entry_def)

lemma char_of_byte_of_char [simp]: "char_of_byte (byte_of_char c) = c"
proof -
  have "of_char c < (256 :: nat)" by simp
  moreover have "byte_of_char c = of_nat (of_char c)"
    by (simp only: byte_of_char_def of_nat_of_char)
  ultimately have "unat (byte_of_char c) = of_char c"
    by (simp only: unat_of_nat) (simp add: take_bit_nat_eq_self)
  then show ?thesis by (simp add: char_of_byte_def)
qed

lemma cstr_at:
  assumes "good_name n" "off = int (length pre)"
  shows "cstr (pre @ map byte_of_char n @ 0 # rest) off = Some n"
proof -
  have "takeWhile (\<lambda>b. b \<noteq> 0) (map byte_of_char n @ 0 # rest) = map byte_of_char n"
    using assms(1) by (subst takeWhile_append2) (auto simp: good_name_def)
  then show ?thesis
    using assms(2) by (simp add: cstr_def comp_def)
qed

lemma le_of_word_4:
  "le_of_word 4 c = [ucast c, ucast (drop_bit 8 c), ucast (drop_bit 16 c), ucast (drop_bit 24 c)]"
proof -
  have "[0..<4] = [0, 1, 2, 3 :: nat]" by (simp add: upt_conv_Cons)
  then show ?thesis by (simp add: le_of_word_def)
qed

lemma get_crc_at:
  assumes "off = int (length pre)"
  shows "ugGetCrcValue (pre @ le_of_word 4 (c :: 32 word) @ rest) off = Some c"
proof -
  have "push_bit 24 (ucast p3) OR push_bit 16 (ucast p2) OR push_bit 8 (ucast p1) OR ucast p0
        = (word_of_le [p0, p1, p2, p3] :: 32 word)" for p0 p1 p2 p3 :: byte
    by (simp add: push_bit_or ac_simps)
  moreover obtain p0 p1 p2 p3 where p: "le_of_word 4 c = [p0, p1, p2, p3]"
    using le_of_word_4 by blast
  moreover have "word_of_le (le_of_word 4 c) = c"
    by (simp add: word_of_le_of_word)
  ultimately show ?thesis
    using assms by (simp add: ugGetCrcValue_def peek_def del: word_of_le.simps)
qed

lemma set_crc_at:
  assumes "off = int (length pre)" "length x = 4"
  shows "ugSetCrcValue (pre @ x @ rest) off c = Some (pre @ le_of_word 4 c @ rest)"
proof -
  have "ucast (w AND mask 8) = (ucast w :: byte)" for w :: "32 word"
    by (rule bit_word_eqI) (auto simp: bit_simps)
  moreover have "(0xFF :: 32 word) = mask 8" by (simp add: mask_eq_exp_minus_1)
  ultimately have "le_of_word 4 c = [ucast (c AND 0xFF), ucast (drop_bit 8 c AND 0xFF),
                 ucast (drop_bit 16 c AND 0xFF), ucast (drop_bit 24 c AND 0xFF)]"
    by (simp only: le_of_word_4)
  then show ?thesis
    using assms by (simp add: ugSetCrcValue_def poke_def)
qed

subsection \<open>Checking\<close>

text \<open>A file that \<open>ugCalcFileCrc\<close> can read, with its content.\<close>

definition crc_readable :: "int \<Rightarrow> (int \<Rightarrow> block option) \<Rightarrow> volume \<Rightarrow> string \<Rightarrow> block \<Rightarrow> bool" where
  "crc_readable cfg malloc v p d \<longleftrightarrow>
     files v p = Some d \<and> \<not> denied v p \<and> bad_from v p = None \<and> length d < 2 ^ 31
     \<and> crc_buffer_ok cfg malloc None (length d)"

lemma ugCalcFileCrc_readable:
  "crc_readable cfg malloc v p d \<Longrightarrow> ugCalcFileCrc cfg malloc True v p = Some (0, Some (crc_of d), v)"
  by (auto simp: crc_readable_def intro: ugCalcFileCrc_ok)

text \<open>The entries of a checksum file that the functions can walk through.\<close>

definition entry_ok ::
  "int \<Rightarrow> (int \<Rightarrow> block option) \<Rightarrow> nat \<Rightarrow> volume \<Rightarrow> string \<Rightarrow> crc_entry \<Rightarrow> bool" where
  "entry_ok cfg malloc PATH_MAX v path e \<longleftrightarrow>
     good_name (fst e) \<and> length path + length (fst e) < PATH_MAX
     \<and> (\<exists>d. crc_readable cfg malloc v (path @ fst e) d)"

definition entry_matches :: "volume \<Rightarrow> string \<Rightarrow> crc_entry \<Rightarrow> bool" where
  "entry_matches v path e \<longleftrightarrow> snd e = crc_of (file_data v (path @ fst e))"

lemma entry_ok_calc:
  assumes "entry_ok cfg malloc PATH_MAX v path e"
  shows "path_buf PATH_MAX path (fst e) = Some (path @ fst e)"
    "ugCalcFileCrc cfg malloc True v (path @ fst e)
       = Some (0, Some (crc_of (file_data v (path @ fst e))), v)"
  using assms ugCalcFileCrc_readable
  by (auto simp: entry_ok_def path_buf_def crc_readable_def file_data_def)

lemma check_files_loop_entries:
  assumes "\<forall>e \<in> set es. entry_ok cfg malloc PATH_MAX v path e" "ptr = int (length pre)"
    "sz = int (length (pre @ encode_entries es))"
  shows "check_files_loop cfg malloc (\<lambda>_. True) PATH_MAX path (pre @ encode_entries es @ tail) sz v ptr
     = Some (if \<forall>e \<in> set es. entry_matches v path e then 0 else 76, v)"
  using assms
proof (induction es arbitrary: pre ptr)
  case Nil
  then show ?case by (simp add: check_files_loop.simps)
next
  case (Cons e es)
  define buf where "buf = pre @ encode_entries (e # es) @ tail"
  let ?n = "int (length (fst e)) + 1"
  have ok: "entry_ok cfg malloc PATH_MAX v path e" "good_name (fst e)"
    using Cons.prems(1) by (auto simp: entry_ok_def)
  have ne: "ptr \<noteq> sz" using Cons.prems(2,3) by simp
  have name: "cstr buf ptr = Some (fst e)"
    using cstr_at [OF ok(2) Cons.prems(2), of "le_of_word 4 (snd e) @ encode_entries es @ tail"]
    by (simp add: encode_entry_def buf_def)
  have val: "ugGetCrcValue buf (ptr + ?n) = Some (snd e)"
    using get_crc_at [of "ptr + ?n" "pre @ map byte_of_char (fst e) @ [0]" "snd e" "encode_entries es @ tail"]
      Cons.prems(2) by (simp add: encode_entry_def buf_def)
  have "check_files_loop cfg malloc (\<lambda>_. True) PATH_MAX path
      ((pre @ encode_entry e) @ encode_entries es @ tail) sz v (ptr + ?n + 4)
     = Some (if \<forall>e \<in> set es. entry_matches v path e then 0 else 76, v)"
    using Cons.prems by (intro Cons.IH) simp_all
  then have IH: "check_files_loop cfg malloc (\<lambda>_. True) PATH_MAX path buf sz v (ptr + ?n + 4)
     = Some (if \<forall>e \<in> set es. entry_matches v path e then 0 else 76, v)"
    by (simp add: buf_def)
  show ?case
    unfolding buf_def [symmetric] using IH
    by (subst check_files_loop.simps) (simp add: ne name val entry_ok_calc [OF ok(1)] Let_def entry_matches_def)
qed

lemma load_crc_file_ok:
  assumes crc: "files v p = Some (crc_file es)" "\<not> denied v p" "bad_from v p = None"
      "length (crc_file es) < 2 ^ 31"
    and mem: "malloc_sized malloc" "malloc (int (length (crc_file es)) + extra) \<noteq> None" "0 \<le> extra"
  shows "\<exists>tail. length tail = 4 + nat extra
    \<and> load_crc_file cfg malloc (\<lambda>_. True) v p extra
      = Some (Inr (encode_entries es @ tail, int (length (crc_file es))), v)"
proof -
  define s where "s = snd (itcFileStreamOpen True v p False)"
  have open_eq: "itcFileStreamOpen True v p False = (0, s)"
    using crc by (simp add: s_def itcFileStreamOpen_read)
  have s: "file_stream_inv s \<and> snd s = v" "file_content s = crc_file es"
    using itcFileStreamOpen_valid [OF crc] itcFileStreamOpen_read [OF crc(1,2)] by (auto simp: s_def)
  have size: "stream_size (Base file_ops s) = int (length (crc_file es))"
    using fil.size_content [OF s(1)] s(2) by simp
  let ?n = "length (encode_entries es)"
  obtain buf where buf: "malloc (int (length (crc_file es)) + extra) = Some buf"
    using mem(2) by blast
  with mem have "int (length buf) = int (length (crc_file es)) + extra"
    unfolding malloc_sized_def by (metis add_nonneg_nonneg of_nat_0_le_iff)
  then have len: "length buf = ?n + 4 + nat extra"
    using mem(3) by (simp add: crc_file_def)
  then have "crc_buffer_ok cfg malloc (Some buf) ?n"
    by (simp add: crc_buffer_ok_def)
  with s crc(4) obtain s' where "ugCheckCrc cfg malloc file_ops s (Some buf)
      = Some (0, Some (encode_entries es @ drop ?n buf), s')" "file_stream_inv s' \<and> snd s' = v"
    using fil.ugCheckCrc_package [of s v "encode_entries es" "le_of_word 4 (crc_of (encode_entries es))"
        cfg malloc "Some buf"]
    by (auto simp: crc_file_def itpLetoh32_le_of_word)
  then show ?thesis
    using len by (auto simp: load_crc_file_def open_eq size Let_def buf itcFileStreamClose_def
        simp del: file_ops_simps(1) intro!: exI [of _ "drop ?n buf"])
qed

lemma ugCheckFilesCrc_entries:
  assumes crc: "files v p = Some (crc_file es)" "\<not> denied v p" "bad_from v p = None"
      "length (crc_file es) < 2 ^ 31"
    and mem: "malloc_sized malloc" "malloc (int (length (crc_file es))) \<noteq> None"
    and es: "\<forall>e \<in> set es. entry_ok cfg malloc PATH_MAX v path e"
  shows "ugCheckFilesCrc cfg malloc (\<lambda>_. True) PATH_MAX v path p
     = Some (if \<forall>e \<in> set es. entry_matches v path e then 0 else 76, v)"
proof -
  obtain tail where "load_crc_file cfg malloc (\<lambda>_. True) v p 0
      = Some (Inr (encode_entries es @ tail, int (length (crc_file es))), v)"
    using load_crc_file_ok [OF crc mem(1), of 0] mem(2) by auto
  moreover have "check_files_loop cfg malloc (\<lambda>_. True) PATH_MAX path
      ([] @ encode_entries es @ tail) (int (length (crc_file es)) - 4) v 0
     = Some (if \<forall>e \<in> set es. entry_matches v path e then 0 else 76, v)"
    by (rule check_files_loop_entries [OF es]) (simp_all add: crc_file_def)
  ultimately show ?thesis
    by (simp add: ugCheckFilesCrc_def)
qed

subsection \<open>Setting the checksum of one file\<close>

lemma find_entry_entries:
  assumes "\<forall>e \<in> set es. good_name (fst e)" "ptr = int (length pre)"
    "sz = int (length (pre @ encode_entries es))"
  shows "find_entry f (pre @ encode_entries es @ tail) sz ptr
     = Some (int (length (pre @ encode_entries (takeWhile (\<lambda>e. fst e \<noteq> f) es))))"
  using assms
proof (induction es arbitrary: pre ptr)
  case Nil
  then show ?case by (simp add: find_entry.simps)
next
  case (Cons e es)
  define buf where "buf = pre @ encode_entries (e # es) @ tail"
  have ne: "ptr \<noteq> sz" using Cons.prems(2,3) by simp
  have "good_name (fst e)" using Cons.prems(1) by simp
  then have name: "cstr buf ptr = Some (fst e)"
    using cstr_at [OF _ Cons.prems(2), of _ "le_of_word 4 (snd e) @ encode_entries es @ tail"]
    by (simp add: encode_entry_def buf_def)
  have "find_entry f ((pre @ encode_entry e) @ encode_entries es @ tail) sz
       (ptr + (int (length (fst e)) + 1) + 4)
     = Some (int (length ((pre @ encode_entry e) @ encode_entries (takeWhile (\<lambda>e. fst e \<noteq> f) es))))"
    using Cons.prems by (intro Cons.IH) simp_all
  then have IH: "find_entry f buf sz (ptr + (int (length (fst e)) + 1) + 4)
     = Some (int (length ((pre @ encode_entry e) @ encode_entries (takeWhile (\<lambda>e. fst e \<noteq> f) es))))"
    by (simp add: buf_def)
  show ?case
    unfolding buf_def [symmetric] using IH
    by (subst find_entry.simps) (auto simp: ne name Cons.prems(2) [symmetric])
qed

lemma set_entry_split:
  "set_entry f c es = (case dropWhile (\<lambda>e. fst e \<noteq> f) es of
     [] \<Rightarrow> es @ [(f, c)] | _ # ys \<Rightarrow> takeWhile (\<lambda>e. fst e \<noteq> f) es @ (f, c) # ys)"
  by (induction es) (auto split: list.splits simp del: dropWhile_eq_Nil_conv)

lemma update_entry_ok:
  assumes es: "\<forall>e \<in> set es. good_name (fst e)"
    and sizes: "sz = int (length (encode_entries es))" "length tail = 4 + (length f + 5)"
      "bufsize = sz + 4 + int (length f + 5)"
  shows "\<exists>rest. 4 \<le> length rest
    \<and> update_entry (encode_entries es @ tail) sz bufsize f c
      = Some (encode_entries (set_entry f c es) @ rest,
              int (length (encode_entries (set_entry f c es))) + 4)"
proof (cases "dropWhile (\<lambda>e. fst e \<noteq> f) es")
  case Nil
  then have all: "takeWhile (\<lambda>e. fst e \<noteq> f) es = es"
    by (metis append_Nil2 takeWhile_dropWhile_id)
  have pos: "find_entry f (encode_entries es @ tail) sz 0 = Some sz"
    using find_entry_entries [OF es, of 0 "[]" sz f tail] sizes by (simp add: all)
  define t where "t = drop (length f + 1) tail"
  have t: "length t = 8" using sizes(2) by (simp add: t_def)
  have "strcpy_mem (encode_entries es @ tail) sz f
      = Some (encode_entries es @ map byte_of_char f @ 0 # t)"
    using sizes by (simp add: strcpy_mem_def poke_def t_def)
  moreover have "ugSetCrcValue (encode_entries es @ map byte_of_char f @ 0 # t)
        (sz + (int (length f) + 1)) c
      = Some (encode_entries es @ map byte_of_char f @ 0 # le_of_word 4 c @ drop 4 t)"
    using set_crc_at [of "sz + (int (length f) + 1)" "encode_entries es @ map byte_of_char f @ [0]"
        "take 4 t" "drop 4 t" c] sizes(1) t by simp
  ultimately have "update_entry (encode_entries es @ tail) sz bufsize f c
      = Some (encode_entries (es @ [(f, c)]) @ drop 4 t, bufsize)"
    by (simp add: update_entry_def pos Let_def encode_entry_def)
  moreover have "set_entry f c es = es @ [(f, c)]"
    unfolding set_entry_split Nil by simp
  ultimately show ?thesis
    using sizes t by auto
next
  case (Cons e ys)
  then have e: "fst e = f"
    by (metis (mono_tags, lifting) hd_dropWhile list.distinct(1) list.sel(1))
  define xs where "xs = takeWhile (\<lambda>e. fst e \<noteq> f) es"
  have split: "es = xs @ e # ys"
    using Cons takeWhile_dropWhile_id [of "\<lambda>e. fst e \<noteq> f" es] by (simp add: xs_def)
  have pos: "find_entry f (encode_entries es @ tail) sz 0 = Some (int (length (encode_entries xs)))"
    using find_entry_entries [OF es, of 0 "[]" sz f tail] sizes(1) by (simp flip: xs_def)
  have "ugSetCrcValue ((encode_entries xs @ map byte_of_char f @ [0]) @ le_of_word 4 (snd e)
        @ encode_entries ys @ tail) (int (length (encode_entries xs)) + (int (length f) + 1)) c
      = Some ((encode_entries xs @ map byte_of_char f @ [0]) @ le_of_word 4 c @ encode_entries ys @ tail)"
    by (intro set_crc_at) simp_all
  then have "update_entry (encode_entries es @ tail) sz bufsize f c
      = Some (encode_entries (xs @ (f, c) # ys) @ tail, sz + 4)"
    using sizes(1) pos unfolding split by (simp add: update_entry_def Let_def encode_entry_def e)
  moreover have "set_entry f c es = xs @ (f, c) # ys"
    using Cons by (simp add: set_entry_split xs_def)
  ultimately show ?thesis
    using sizes e by (auto simp: split)
qed

text \<open>Writing a whole file on a sound medium with room for it.\<close>

lemma write_file_ok:
  assumes "\<not> denied v p" "sound_medium v p" "length d < 2 ^ 31" "length d \<le> length buf"
    "length d \<le> capacity v + length (file_data v p)" "take (length d) buf = d"
  shows "\<exists>s v'. itcFileStreamOpen True v p True = (0, s, v')
    \<and> FileStreamWrite (s, v') buf (int (length d))
      = Some (int (length d), s\<lparr>fs_file := Some \<lparr>fname = p, fpos = length d\<rparr>\<rparr>,
          v\<lparr>files := (files v)(p \<mapsto> d),
            capacity := capacity v + length (file_data v p) - length d\<rparr>)"
proof -
  let ?v = "v\<lparr>files := (files v)(p := Some []), capacity := capacity v + length (file_data v p)\<rparr>"
  let ?s = "\<lparr>eof = False, stream_size = 0, fs_file = Some \<lparr>fname = p, fpos = 0\<rparr>\<rparr>"
  have "itcFileStreamOpen True v p True = (0, ?s, ?v)"
    using assms(1) by (simp add: itcFileStreamOpen_def itcStreamOpen_def fopen_wb_def file_size_def
        file_data_def ITCStream.defs ITCFileStream.defs Let_def)
  moreover have "peek buf 0 (int (length d)) = Some d"
    using assms(4,6) by (simp add: peek_def)
  moreover have "fwrite ?v \<lparr>fname = p, fpos = 0\<rparr> d
      = (length d, \<lparr>fname = p, fpos = length d\<rparr>,
         v\<lparr>files := (files v)(p \<mapsto> d),
           capacity := capacity v + length (file_data v p) - length d\<rparr>)"
  proof -
    have "stored ?v p 0 d = d"
      using assms(2) by (intro stored_sound) (simp add: sound_medium_def)
    moreover have "file_data ?v p = []" by (simp add: file_data_def)
    moreover have "min (length d) (capacity v + length (file_data v p)) = length d"
      using assms(5) by simp
    ultimately show ?thesis by (simp add: fwrite_def Let_def)
  qed
  ultimately show ?thesis
    using assms(3) by (simp add: FileStreamWrite_def size_t_nat)
qed

lemma ugSetFileCrc_sets:
  assumes crc: "files v p = Some (crc_file es)" "\<not> denied v p" "sound_medium v p"
      "length (crc_file es) < 2 ^ 31"
    and es: "\<forall>e \<in> set es. good_name (fst e)"
    and f: "crc_readable cfg malloc v (path @ f) d" "length path + length f < PATH_MAX"
    and mem: "malloc_sized malloc" "malloc (int (length (crc_file es)) + (int (length f) + 1 + 4)) \<noteq> None"
    and new: "new = crc_file (set_entry f (crc_of d) es)" "length new < 2 ^ 31"
      "length new \<le> capacity v + length (crc_file es)"
  shows "ugSetFileCrc cfg malloc (\<lambda>_. True) PATH_MAX v f path p
     = Some (0, v\<lparr>files := (files v)(p \<mapsto> new),
                 capacity := capacity v + length (crc_file es) - length new\<rparr>)"
proof -
  let ?es = "set_entry f (crc_of d) es"
  define extra where "extra = int (length f) + 1 + 4"
  define sz where "sz = int (length (crc_file es))"
  have "bad_from v p = None" using crc(3) by (simp add: sound_medium_def)
  moreover have "0 \<le> extra" "nat extra = length f + 5" by (simp_all add: extra_def)
  ultimately obtain tail where tail: "length tail = 4 + (length f + 5)"
    "load_crc_file cfg malloc (\<lambda>_. True) v p extra = Some (Inr (encode_entries es @ tail, sz), v)"
    using load_crc_file_ok [OF crc(1,2) _ crc(4) mem(1)] mem(2) by (metis extra_def sz_def)
  have calc: "path_buf PATH_MAX path f = Some (path @ f)"
    "ugCalcFileCrc cfg malloc True v (path @ f) = Some (0, Some (crc_of d), v)"
    using f by (simp_all add: path_buf_def ugCalcFileCrc_readable)
  have len: "int (length (encode_entries ?es)) + 4 = int (length new)"
    using new(1) by (simp add: crc_file_def)
  have "sz - 4 = int (length (encode_entries es))" "sz + extra = sz - 4 + 4 + int (length f + 5)"
    by (simp_all add: sz_def extra_def crc_file_def)
  from update_entry_ok [OF es this(1) tail(1) this(2), of "crc_of d"] obtain rest where rest: "4 \<le> length rest"
    "update_entry (encode_entries es @ tail) (sz - 4) (sz + extra) f (crc_of d)
      = Some (encode_entries ?es @ rest, int (length new))"
    unfolding len by blast
  have crcval: "ugCalcBufferCrc (encode_entries ?es @ rest) (int (length new) - 4)
      = Some (crc_of (encode_entries ?es))"
    using ugCalcBufferCrc_whole [of "encode_entries ?es" rest] by (simp flip: len)
  have off: "int (length new) - 4 = int (length (encode_entries ?es))"
    using len by linarith
  have new_eq: "new = encode_entries ?es @ le_of_word 4 (crc_of (encode_entries ?es))"
    unfolding new(1) crc_file_def ..
  have "take 4 rest @ drop 4 rest = rest" "length (take 4 rest) = 4"
    using rest(1) by simp_all
  then have "ugSetCrcValue (encode_entries ?es @ rest) (int (length (encode_entries ?es)))
      (crc_of (encode_entries ?es))
    = Some ((encode_entries ?es @ le_of_word 4 (crc_of (encode_entries ?es))) @ drop 4 rest)"
    by (metis append_assoc set_crc_at)
  then have set: "ugSetCrcValue (encode_entries ?es @ rest) (int (length new) - 4)
      (crc_of (encode_entries ?es)) = Some (new @ drop 4 rest)"
    by (simp only: off new_eq [symmetric])
  obtain s v' where w: "itcFileStreamOpen True v p True = (0, s, v')"
    "FileStreamWrite (s, v') (new @ drop 4 rest) (int (length new))
      = Some (int (length new), s\<lparr>fs_file := Some \<lparr>fname = p, fpos = length new\<rparr>\<rparr>,
          v\<lparr>files := (files v)(p \<mapsto> new),
            capacity := capacity v + length (crc_file es) - length new\<rparr>)"
    using write_file_ok [OF crc(2,3) new(2), of "new @ drop 4 rest"] new(3) crc(1)
    by (auto simp: file_data_def)
  show ?thesis
    using w by (simp add: ugSetFileCrc_def extra_def [symmetric] tail(2) calc rest(2) set crcval Let_def
        itcFileStreamClose_def)
qed

subsection \<open>Upgrading all checksums\<close>

lemma upgrade_files_loop_entries:
  assumes "\<forall>e \<in> set es. entry_ok cfg malloc PATH_MAX v path e" "ptr = int (length pre)"
    "sz = int (length (pre @ encode_entries es))"
  shows "upgrade_files_loop cfg malloc (\<lambda>_. True) PATH_MAX path sz (pre @ encode_entries es @ tail) v ptr
     = Some (0, pre @ encode_entries (map (\<lambda>e. (fst e, crc_of (file_data v (path @ fst e)))) es) @ tail, v)"
  using assms
proof (induction es arbitrary: pre ptr)
  case Nil
  then show ?case by (simp add: upgrade_files_loop.simps)
next
  case (Cons e es)
  define buf where "buf = pre @ encode_entries (e # es) @ tail"
  let ?e = "(fst e, crc_of (file_data v (path @ fst e)))"
  let ?n = "int (length (fst e)) + 1"
  define buf' where "buf' = pre @ encode_entries (?e # es) @ tail"
  have ok: "entry_ok cfg malloc PATH_MAX v path e" "good_name (fst e)"
    using Cons.prems(1) by (auto simp: entry_ok_def)
  have ne: "ptr \<noteq> sz" using Cons.prems(2,3) by simp
  have name: "cstr buf ptr = Some (fst e)"
    using cstr_at [OF ok(2) Cons.prems(2), of "le_of_word 4 (snd e) @ encode_entries es @ tail"]
    by (simp add: encode_entry_def buf_def)
  have set: "ugSetCrcValue buf (ptr + ?n) (snd ?e) = Some buf'"
    using set_crc_at [of "ptr + ?n" "pre @ map byte_of_char (fst e) @ [0]" "le_of_word 4 (snd e)"
        "encode_entries es @ tail" "snd ?e"]
      Cons.prems(2) by (simp add: encode_entry_def buf_def buf'_def)
  have "upgrade_files_loop cfg malloc (\<lambda>_. True) PATH_MAX path sz
      ((pre @ encode_entry ?e) @ encode_entries es @ tail) v (ptr + ?n + 4)
     = Some (0, (pre @ encode_entry ?e)
         @ encode_entries (map (\<lambda>e. (fst e, crc_of (file_data v (path @ fst e)))) es) @ tail, v)"
    using Cons.prems by (intro Cons.IH) simp_all
  then have IH: "upgrade_files_loop cfg malloc (\<lambda>_. True) PATH_MAX path sz buf' v (ptr + ?n + 4)
     = Some (0, pre @ encode_entries (map (\<lambda>e. (fst e, crc_of (file_data v (path @ fst e)))) (e # es))
         @ tail, v)"
    by (simp add: buf'_def)
  show ?case
    unfolding buf_def [symmetric] using IH set
    by (subst upgrade_files_loop.simps) (simp add: ne name entry_ok_calc [OF ok(1)])
qed

text \<open>The updated buffer is dropped: the volume stays as it was.\<close>

lemma ugUpgradeFilesCrc_entries:
  assumes crc: "files v p = Some (crc_file es)" "\<not> denied v p" "bad_from v p = None"
      "length (crc_file es) < 2 ^ 31"
    and mem: "malloc_sized malloc" "malloc (int (length (crc_file es))) \<noteq> None"
    and es: "\<forall>e \<in> set es. entry_ok cfg malloc PATH_MAX v path e"
  shows "ugUpgradeFilesCrc cfg malloc (\<lambda>_. True) PATH_MAX v path p = Some (0, v)"
proof -
  obtain tail where "load_crc_file cfg malloc (\<lambda>_. True) v p 0
      = Some (Inr (encode_entries es @ tail, int (length (crc_file es))), v)"
    using load_crc_file_ok [OF crc mem(1), of 0] mem(2) by auto
  moreover have "upgrade_files_loop cfg malloc (\<lambda>_. True) PATH_MAX path
      (int (length (crc_file es)) - 4) ([] @ encode_entries es @ tail) v 0
     = Some (0, [] @ encode_entries (map (\<lambda>e. (fst e, crc_of (file_data v (path @ fst e)))) es) @ tail, v)"
    by (rule upgrade_files_loop_entries [OF es]) (simp_all add: crc_file_def)
  ultimately show ?thesis
    by (simp add: ugUpgradeFilesCrc_def)
qed

end
