(* ===== verification/Ug_File.thy ===== *)
theory Ug_File
  imports Ug_Crc Ug_FileCrc
begin

text \<open>
  \<open>sdk/share/upgrade/ug_file.c\<close>: the file blocks of a package. \<open>ugUpgradeFile\<close> copies a file from
  the package to a drive and then verifies what the drive stored. \<open>enckey\<close> is
  \<open>CFG_UPGRADE_ENC_KEY\<close>, \<open>stack\<close> the bytes of the uninitialised array \<open>filename\<close> (its length is
  \<open>PATH_MAX\<close>), \<open>statvfs\<close> the free blocks and block size that the drive's file system reports,
  \<open>kept_locals\<close> what the variables \<open>partition\<close> and \<open>drive\<close> of the package loop, declared inside its body,
  hold when the next round begins. Only the messages and the progress dots are left out. When there is
  no memory for the second buffer, the function closes the closed file again (lines 171 to 178 and
  234), which is undefined.
\<close>

text \<open>The environment of the package functions that is fixed while they run.\<close>

record ug_cfg =
  buf_size :: int
  enckey :: "32 word"
  ug_malloc :: "int \<Rightarrow> block option"
  stack :: block
  statvfs :: "volume \<Rightarrow> string \<Rightarrow> (64 word \<times> 64 word) option"
  kept_locals :: "int option \<times> string option \<Rightarrow> int option \<times> string option"

subsection \<open>Reading encrypted data\<close>

definition enc_key32 :: "32 word \<Rightarrow> 32 word" where
  "enc_key32 key = push_bit 24 key OR push_bit 16 key OR push_bit 8 key OR key"

text \<open>The words of the aligned part, then the bytes that are left.\<close>

fun enc_xor :: "32 word \<Rightarrow> block \<Rightarrow> block" where
  "enc_xor key (a # b # c # d # bs) =
     le_of_word 4 (itpLetoh32 [a, b, c, d] XOR enc_key32 key) @ enc_xor key bs"
| "enc_xor key bs = map (\<lambda>b. ucast (ucast b XOR key)) bs"

definition enc_fread ::
  "ug_cfg \<Rightarrow> 's ITCStreamOps \<Rightarrow> block \<Rightarrow> 32 word \<Rightarrow> 's \<Rightarrow> (32 word \<times> block \<times> 's) option" where
  "enc_fread cfg ops buffer n stream =
     (if enckey cfg = 0
      then do { (r, buffer, stream) \<leftarrow> Read ops stream buffer (sint n);
                Some (word_of_int r, buffer, stream) }
      else case ug_malloc cfg (uint n) of
             None \<Rightarrow> Some (0, buffer, stream)
           | Some buf \<Rightarrow>
               do { (r, buf, stream) \<leftarrow> Read ops stream buf (sint n);
                    bs \<leftarrow> peek buf 0 (uint n);
                    buffer \<leftarrow> poke buffer 0 (enc_xor (enckey cfg) bs);
                    Some (word_of_int r, buffer, stream) })"

subsection \<open>The function\<close>

text \<open>
  The header of a file block: the name is read behind the drive letter. \<open>Inl\<close> is an error,
  \<open>Inr\<close> the array with the path and the size of the file.
\<close>

definition read_name ::
  "ug_cfg \<Rightarrow> 's ITCStreamOps \<Rightarrow> string \<Rightarrow> int \<Rightarrow> int \<Rightarrow> 's \<Rightarrow> ((int + block) \<times> 's) option" where
  "read_name cfg ops drive e1 e2 f =
     do { (readsize, hdr, f) \<leftarrow> Read ops f (replicate 4 0) 4;
          if (word_of_int readsize :: 32 word) \<noteq> 4 then Some (Inl e1, f)
          else let name_size = itpLetoh32 hdr in
            do { buf \<leftarrow> strcpy_mem (stack cfg) 0 drive;
                 (readsize, name, f) \<leftarrow> Read ops f (drop 2 buf) (sint name_size);
                 if word_of_int readsize \<noteq> name_size then Some (Inl e2, f)
                 else Some (Inr (take 2 buf @ name), f) } }"

definition file_header ::
  "ug_cfg \<Rightarrow> 's ITCStreamOps \<Rightarrow> string \<Rightarrow> 's \<Rightarrow> ((int + block \<times> 32 word) \<times> 's) option" where
  "file_header cfg ops drive f =
     do { (l, f) \<leftarrow> read_name cfg ops drive 76 89 f;
          case l of Inl e \<Rightarrow> Some (Inl e, f)
          | Inr filename \<Rightarrow>
              do { (readsize, hdr, f) \<leftarrow> Read ops f (replicate 4 0) 4;
                   if (word_of_int readsize :: 32 word) \<noteq> 4 then Some (Inl 97, f)
                   else Some (Inr (filename, itpLetoh32 hdr), f) } }"

text \<open>The loop that writes the file.\<close>

partial_function (option) write_loop ::
  "ug_cfg \<Rightarrow> 's ITCStreamOps \<Rightarrow> 32 word \<Rightarrow> 32 word \<Rightarrow> block \<Rightarrow> FILE \<Rightarrow> 's \<Rightarrow> volume
     \<Rightarrow> (int \<times> block \<times> 's \<times> volume) option" where
  "write_loop cfg ops bufsize remainsize buf outfile f v =
     (let readsize = (if remainsize < bufsize then remainsize else bufsize)
      in do { (size2, buf, f) \<leftarrow> enc_fread cfg ops buf readsize f;
              if size2 \<noteq> readsize then Some (148, buf, f, v)
              else do {
                bs \<leftarrow> peek buf 0 (uint readsize);
                let (k, outfile, v) = fwrite v outfile bs in
                if word_of_nat k \<noteq> readsize then Some (156, buf, f, v)
                else let remainsize = remainsize - readsize in
                  if remainsize > 0 then write_loop cfg ops bufsize remainsize buf outfile f v
                  else Some (0, buf, f, v) } })"

text \<open>The loop that compares the file with the package.\<close>

partial_function (option) verify_loop ::
  "ug_cfg \<Rightarrow> 's ITCStreamOps \<Rightarrow> volume \<Rightarrow> 32 word \<Rightarrow> 32 word \<Rightarrow> block \<Rightarrow> block \<Rightarrow> FILE \<Rightarrow> 's
     \<Rightarrow> (int \<times> 's) option" where
  "verify_loop cfg ops v bufsize remainsize buf buf2 outfile f =
     (let readsize = (if remainsize < bufsize then remainsize else bufsize)
      in do { (size2, buf, f) \<leftarrow> enc_fread cfg ops buf readsize f;
              if size2 \<noteq> readsize then Some (205, f)
              else
                let (bs2, outfile) = fread v outfile (unat readsize) in
                do { buf2 \<leftarrow> poke buf2 0 bs2;
                     if word_of_nat (length bs2) \<noteq> readsize then Some (213, f)
                     else do {
                       bs \<leftarrow> peek buf 0 (uint readsize);
                       bs2 \<leftarrow> peek buf2 0 (uint readsize);
                       if bs \<noteq> bs2 then Some (220, f)
                       else let remainsize = remainsize - readsize in
                         if remainsize > 0 then verify_loop cfg ops v bufsize remainsize buf buf2 outfile f
                         else Some (0, f) } } })"

text \<open>The space check: it passes when the file system does not answer.\<close>

definition space_ok :: "ug_cfg \<Rightarrow> volume \<Rightarrow> string \<Rightarrow> string \<Rightarrow> 32 word \<Rightarrow> bool" where
  "space_ok cfg v drive filename filesize =
     (case statvfs cfg v drive of None \<Rightarrow> True
      | Some (bfree, bsize) \<Rightarrow>
          let avail = bfree * bsize
                + (case files v filename of None \<Rightarrow> 0 | Some d \<Rightarrow> word_of_nat (length d))
          in \<not> avail < ucast filesize)"

definition verify_file ::
  "ug_cfg \<Rightarrow> 's ITCStreamOps \<Rightarrow> 32 word \<Rightarrow> 32 word \<Rightarrow> block \<Rightarrow> string \<Rightarrow> 's \<Rightarrow> volume
     \<Rightarrow> (int \<times> 's \<times> volume) option" where
  "verify_file cfg ops bufsize filesize buf filename f v =
     (case ug_malloc cfg (uint bufsize) of None \<Rightarrow> None
      | Some buf2 \<Rightarrow>
          case fopen_rb v filename of None \<Rightarrow> Some (183, f, v)
          | Some outfile \<Rightarrow>
              do { (r, f) \<leftarrow> Seek ops f (- sint filesize) SEEK_CUR;
                   if r \<noteq> 0 then Some (191, f, v)
                   else do {
                     (ret, f) \<leftarrow> verify_loop cfg ops v bufsize filesize buf buf2 outfile f;
                     Some (ret, f, v) } })"

definition ugUpgradeFile ::
  "ug_cfg \<Rightarrow> 's ITCStreamOps \<Rightarrow> 's \<Rightarrow> volume \<Rightarrow> string \<Rightarrow> (int \<times> 's \<times> volume) option" where
  "ugUpgradeFile cfg ops f v drive =
     do { (l, f) \<leftarrow> file_header cfg ops drive f;
          case l of Inl e \<Rightarrow> Some (e, f, v)
          | Inr (namebuf, filesize) \<Rightarrow>
              let bufsize = (if word_of_int (buf_size cfg) < filesize then word_of_int (buf_size cfg)
                             else filesize)
              in case ug_malloc cfg (uint bufsize) of None \<Rightarrow> Some (108, f, v)
                 | Some buf \<Rightarrow> do {
                     filename \<leftarrow> cstr namebuf 0;
                     if \<not> space_ok cfg v drive filename filesize then Some (124, f, v)
                     else case fopen_wb v filename of
                       (None, v) \<Rightarrow> Some (133, f, v)
                     | (Some outfile, v) \<Rightarrow>
                         do { (ret, buf, f, v) \<leftarrow> write_loop cfg ops bufsize filesize buf outfile f v;
                              if ret \<noteq> 0 then Some (ret, f, v)
                              else verify_file cfg ops bufsize filesize buf filename f v } } }"

subsection \<open>Decryption\<close>

text \<open>With a key of one byte the decryption does not depend on how the data is cut into reads.\<close>

definition decrypted :: "32 word \<Rightarrow> block \<Rightarrow> block" where
  "decrypted key bs = map (\<lambda>b. b XOR ucast key) bs"

lemma decrypted_simps [simp]:
  "length (decrypted key bs) = length bs" "decrypted 0 bs = bs" "decrypted key [] = []"
  "decrypted key (a @ b) = decrypted key a @ decrypted key b"
  by (simp_all add: decrypted_def)

lemma decrypted_involution: "decrypted key (decrypted key bs) = bs"
  by (simp add: decrypted_def comp_def xor.assoc)

lemma le_of_word_xor:
  "le_of_word n (a XOR b) = map2 (XOR) (le_of_word n a) (le_of_word n (b :: 'a::len word))"
proof (rule nth_equalityI)
  fix i assume "i < length (le_of_word n (a XOR b))"
  moreover have "(ucast (drop_bit k (a XOR b)) :: byte) = ucast (drop_bit k a) XOR ucast (drop_bit k b)" for k
    by (rule bit_word_eqI) (auto simp: bit_simps)
  ultimately show "le_of_word n (a XOR b) ! i = map2 (XOR) (le_of_word n a) (le_of_word n b) ! i"
    by (simp add: le_of_word_def)
qed simp

lemma enc_key32_bytes: "le_of_word 4 (enc_key32 (ucast k)) = [k, k, k, k]"
proof -
  have "enc_key32 (ucast k) = word_of_le [k, k, k, k]"
    by (simp add: enc_key32_def push_bit_or ac_simps)
  then show ?thesis by (simp add: le_of_word_of_le del: word_of_le.simps)
qed

lemma enc_xor_decrypted:
  assumes "key = ucast (k :: byte)"
  shows "enc_xor key bs = decrypted key bs"
proof -
  have k: "(ucast (ucast k :: 32 word) :: byte) = k"
    by (rule bit_word_eqI) (auto simp: bit_simps)
  have byte: "(ucast (ucast b XOR ucast k :: 32 word) :: byte) = b XOR k" for b :: byte
    by (rule bit_word_eqI) (auto simp: bit_simps)
  have le: "le_of_word 4 (itpLetoh32 [a, b, c, d]) = [a, b, c, d]" for a b c d
    by (simp add: le_of_word_itpLetoh32)
  show ?thesis
    using assms by (induction key bs rule: enc_xor.induct)
      (simp_all add: decrypted_def k byte le le_of_word_xor enc_key32_bytes)
qed

text \<open>The configuration that the results below assume: memory is there, the key is one byte.\<close>

definition cfg_ok :: "ug_cfg \<Rightarrow> bool" where
  "cfg_ok cfg \<longleftrightarrow> 0 < buf_size cfg \<and> buf_size cfg < 2 ^ 31 \<and> (\<exists>k :: byte. enckey cfg = ucast k)
     \<and> malloc_sized (ug_malloc cfg) \<and> (\<forall>n. 0 \<le> n \<and> n \<le> buf_size cfg \<longrightarrow> ug_malloc cfg n \<noteq> None)"

lemma cfg_ok_malloc:
  assumes "cfg_ok cfg" "int n \<le> buf_size cfg"
  obtains b where "ug_malloc cfg (int n) = Some b" "length b = n"
proof -
  from assms obtain b where b: "ug_malloc cfg (int n) = Some b"
    by (fastforce simp: cfg_ok_def)
  moreover have "int (length b) = int n"
    using assms(1) b unfolding cfg_ok_def malloc_sized_def by (metis of_nat_0_le_iff)
  ultimately show thesis using that by simp
qed

context itc_reader
begin

lemma enc_fread_ok:
  assumes "cfg_ok cfg" "valid s" "posn s + n \<le> length (content s)" "n \<le> length buf"
    "int n \<le> buf_size cfg"
  shows "\<exists>s'. enc_fread cfg ops buf (of_nat n) s
      = Some (of_nat n, decrypted (enckey cfg) (take n (drop (posn s) (content s))) @ drop n buf, s')
    \<and> valid s' \<and> content s' = content s \<and> posn s' = posn s + n"
proof -
  have n31: "n < 2 ^ 31" using assms(1,5) by (auto simp: cfg_ok_def)
  note u = u32_of_nat [OF n31]
  show ?thesis
  proof (cases "enckey cfg = 0")
    case True
    then show ?thesis
      using read_all [OF assms(2,4) n31 assms(3)] by (auto simp: enc_fread_def u)
  next
    case False
    from assms(1) obtain k :: byte where k: "enckey cfg = ucast k" by (auto simp: cfg_ok_def)
    obtain b where b: "ug_malloc cfg (int n) = Some b" "length b = n"
      using cfg_ok_malloc [OF assms(1,5)] .
    obtain s' where s': "Read ops s b (int n)
        = Some (int n, take n (drop (posn s) (content s)), s')"
      "valid s' \<and> content s' = content s \<and> posn s' = posn s + n"
      using read_all [OF assms(2) _ n31 assms(3), of b] b by auto
    have "length (take n (drop (posn s) (content s))) = n" using assms(3) by simp
    then have "peek (take n (drop (posn s) (content s))) 0 (int n)
        = Some (take n (drop (posn s) (content s)))"
      "poke buf 0 (decrypted (enckey cfg) (take n (drop (posn s) (content s))))
        = Some (decrypted (enckey cfg) (take n (drop (posn s) (content s))) @ drop n buf)"
      using assms(4) by (simp_all add: peek_def poke_def)
    then show ?thesis
      using False s' b by (auto simp: enc_fread_def u enc_xor_decrypted [OF k])
  qed
qed

end

subsection \<open>Writing\<close>

lemma stored_append:
  "stored v p off (a @ b) = stored v p off a @ stored v p (off + length a) b"
  by (rule nth_equalityI) (auto simp: stored_def nth_append nth_enumerate_eq)

text \<open>The volume after \<open>d\<close> has been appended to the file \<open>p\<close>.\<close>

definition appended :: "volume \<Rightarrow> string \<Rightarrow> block \<Rightarrow> volume" where
  "appended v p d = v\<lparr>files := (files v)(p \<mapsto> file_data v p @ stored v p (length (file_data v p)) d),
                     capacity := capacity v - length d\<rparr>"

lemma appended_simps [simp]:
  "file_data (appended v p d) p = file_data v p @ stored v p (length (file_data v p)) d"
  "capacity (appended v p d) = capacity v - length d"
  "denied (appended v p d) = denied v" "bad_from (appended v p d) = bad_from v"
  by (simp_all add: appended_def file_data_def)

lemma appended_appended: "appended (appended v p a) p b = appended v p (a @ b)"
proof -
  have "stored (appended v p a) = stored v"
    by (intro ext) (simp add: stored_def appended_def)
  then show ?thesis
    by (simp add: appended_def [of "appended v p a"] stored_append)
      (simp add: appended_def stored_append)
qed

lemma fwrite_append:
  assumes "fpos f = length (file_data v (fname f))" "length d \<le> capacity v"
  shows "fwrite v f d = (length d, f\<lparr>fpos := fpos f + length d\<rparr>, appended v (fname f) d)"
  using assms by (simp add: fwrite_def appended_def Let_def)

context itc_reader
begin

lemma write_loop_ok:
  assumes "cfg_ok cfg" "valid s" "posn s + n \<le> length (content s)" "n < 2 ^ 31"
    "length buf = b" "int b \<le> buf_size cfg" "0 < b \<or> n = 0"
    "fpos f = length (file_data v (fname f))" "n \<le> capacity v"
  shows "\<exists>buf' s'. write_loop cfg ops (of_nat b) (of_nat n) buf f s v
      = Some (0, buf', s',
          appended v (fname f) (decrypted (enckey cfg) (take n (drop (posn s) (content s)))))
    \<and> length buf' = b \<and> valid s' \<and> content s' = content s \<and> posn s' = posn s + n"
  using assms
proof (induction n arbitrary: s buf f v rule: less_induct)
  case (less n)
  define r where "r = min n b"
  have b31: "b < 2 ^ 31" using less.prems(1,6) by (auto simp: cfg_ok_def)
  have r: "r < 2 ^ 31" "r \<le> length buf" "posn s + r \<le> length (content s)" "r \<le> n"
    "int r \<le> buf_size cfg" "r \<le> capacity v"
    using less.prems by (auto simp: r_def)
  define bs where "bs = decrypted (enckey cfg) (take r (drop (posn s) (content s)))"
  have len: "length bs = r" using r(3) by (simp add: bs_def)
  obtain s1 where s1: "enc_fread cfg ops buf (of_nat r) s = Some (of_nat r, bs @ drop r buf, s1)"
    "valid s1" "content s1 = content s" "posn s1 = posn s + r"
    using enc_fread_ok [OF less.prems(1,2) r(3,2,5)] unfolding bs_def by blast
  have pk: "peek (bs @ drop r buf) 0 (uint (of_nat r :: 32 word)) = Some bs"
    using len r by (simp add: peek_def u32_of_nat)
  let ?f = "f\<lparr>fpos := fpos f + r\<rparr>"
  have w: "fwrite v f bs = (r, ?f, appended v (fname f) bs)"
    using fwrite_append [OF less.prems(8), of bs] r(6) len by simp
  have "(of_nat n :: 32 word) - of_nat r = of_nat (n - r)" using r(4) by (simp add: of_nat_diff)
  moreover have "(0 :: 32 word) < of_nat (n - r) \<longleftrightarrow> 0 < n - r"
    using u32_less [of 0 "n - r"] less.prems(4) by simp
  ultimately have step: "write_loop cfg ops (of_nat b) (of_nat n) buf f s v =
      (if n - r > 0
       then write_loop cfg ops (of_nat b) (of_nat (n - r)) (bs @ drop r buf) ?f s1 (appended v (fname f) bs)
       else Some (0, bs @ drop r buf, s1, appended v (fname f) bs))"
    by (subst write_loop.simps)
      (simp add: u32_min [OF less.prems(4) b31, folded r_def] s1(1) pk w del: of_nat_diff)
  show ?case
  proof (cases "n \<le> b")
    case True
    then have "r = n" by (simp add: r_def)
    with step True s1 r len less.prems show ?thesis by (auto simp: bs_def)
  next
    case False
    with less.prems have b: "0 < b" "r = b" by (auto simp: r_def)
    have "length (bs @ drop r buf) = b" "n - r < n" "n - r < 2 ^ 31" "n - r \<le> capacity v - r"
      using len less.prems b False by auto
    then obtain buf' s' where IH:
      "write_loop cfg ops (of_nat b) (of_nat (n - r)) (bs @ drop r buf) ?f s1 (appended v (fname f) bs)
       = Some (0, buf', s', appended (appended v (fname f) bs) (fname f)
           (decrypted (enckey cfg) (take (n - r) (drop (posn s1) (content s1)))))"
      "length buf' = b" "valid s'" "content s' = content s1" "posn s' = posn s1 + (n - r)"
      using less.IH [of "n - r" s1 "bs @ drop r buf" ?f "appended v (fname f) bs"]
        b False s1 less.prems len by auto
    have "take r (drop (posn s) (content s)) @ take (n - r) (drop (posn s1) (content s1))
        = take n (drop (posn s) (content s))"
      using take_add [of b "n - b" "drop (posn s) (content s)"] False s1 b
      by (simp add: add.commute)
    then have "bs @ decrypted (enckey cfg) (take (n - r) (drop (posn s1) (content s1)))
        = decrypted (enckey cfg) (take n (drop (posn s) (content s)))"
      unfolding bs_def by (metis decrypted_simps(4))
    then show ?thesis
      using step IH s1 b False by (auto simp: appended_appended)
  qed
qed

text \<open>
  The verification returns 0 exactly when the file reads back as the decrypted data, whatever the
  medium does.
\<close>

lemma verify_loop_ok:
  assumes "cfg_ok cfg" "valid s" "posn s + n \<le> length (content s)" "n < 2 ^ 31"
    "length buf = b" "length buf2 = b" "int b \<le> buf_size cfg" "0 < b \<or> n = 0"
  shows "\<exists>ret s'. verify_loop cfg ops v (of_nat b) (of_nat n) buf buf2 f s = Some (ret, s')
    \<and> (ret = 0 \<longleftrightarrow> take n (drop (fpos f) (readable v (fname f)))
                 = decrypted (enckey cfg) (take n (drop (posn s) (content s))))
    \<and> ret \<in> {0, 213, 220} \<and> (ret = 0 \<longrightarrow> posn s' = posn s + n)
    \<and> valid s' \<and> content s' = content s"
  using assms
proof (induction n arbitrary: s buf buf2 f rule: less_induct)
  case (less n)
  define r where "r = min n b"
  have b31: "b < 2 ^ 31" using less.prems(1,7) by (auto simp: cfg_ok_def)
  have r: "r < 2 ^ 31" "r \<le> length buf" "posn s + r \<le> length (content s)" "r \<le> n"
    "int r \<le> buf_size cfg" "r \<le> b"
    using less.prems by (auto simp: r_def)
  define bs where "bs = decrypted (enckey cfg) (take r (drop (posn s) (content s)))"
  define bs2 where "bs2 = take r (drop (fpos f) (readable v (fname f)))"
  have len: "length bs = r" using r(3) by (simp add: bs_def)
  have len2: "length bs2 \<le> r" "length bs2 < 2 ^ 31" using r(1) by (simp_all add: bs2_def)
  obtain s1 where s1: "enc_fread cfg ops buf (of_nat r) s = Some (of_nat r, bs @ drop r buf, s1)"
    "valid s1" "content s1 = content s" "posn s1 = posn s + r"
    using enc_fread_ok [OF less.prems(1,2) r(3,2,5)] unfolding bs_def by blast
  have pk: "peek (bs @ drop r buf) 0 (uint (of_nat r :: 32 word)) = Some bs"
    using len r by (simp add: peek_def u32_of_nat)
  let ?f = "f\<lparr>fpos := fpos f + length bs2\<rparr>"
  have rd: "fread v f (unat (of_nat r :: 32 word)) = (bs2, ?f)"
    by (simp add: fread_def u32_of_nat(1) [OF r(1)] bs2_def Let_def)
  have pok: "poke buf2 0 bs2 = Some (bs2 @ drop (length bs2) buf2)"
    using len2 r less.prems(6) by (simp add: poke_def)
  have pk2: "peek (bs2 @ drop r buf2) 0 (uint (of_nat r :: 32 word)) = Some bs2"
    if "length bs2 = r"
    using that r less.prems(6) by (simp add: peek_def u32_of_nat)
  have "(of_nat n :: 32 word) - of_nat r = of_nat (n - r)" using r(4) by (simp add: of_nat_diff)
  moreover have "(0 :: 32 word) < of_nat (n - r) \<longleftrightarrow> 0 < n - r"
    using u32_less [of 0 "n - r"] less.prems(4) by simp
  ultimately have next_n: "(of_nat n :: 32 word) - of_nat r = of_nat (n - r)"
    "(0 :: 32 word) < of_nat (n - r) \<longleftrightarrow> 0 < n - r" by simp_all
  have eq: "(of_nat (length bs2) :: 32 word) = of_nat r \<longleftrightarrow> length bs2 = r"
    using u32_eq [OF len2(2) r(1)] .
  have step: "verify_loop cfg ops v (of_nat b) (of_nat n) buf buf2 f s =
      (if length bs2 \<noteq> r then Some (213, s1) else if bs \<noteq> bs2 then Some (220, s1)
       else if n - r > 0
       then verify_loop cfg ops v (of_nat b) (of_nat (n - r)) (bs @ drop r buf)
              (bs2 @ drop (length bs2) buf2) ?f s1
       else Some (0, s1))"
    by (subst verify_loop.simps, cases "length bs2 = r")
      (simp_all add: u32_min [OF less.prems(4) b31, folded r_def] s1(1) pk rd pok pk2 eq next_n
        Let_def del: of_nat_diff)
  have split: "take n (drop (fpos f) (readable v (fname f)))
        = bs2 @ take (n - r) (drop (fpos f + r) (readable v (fname f)))"
    "decrypted (enckey cfg) (take n (drop (posn s) (content s)))
        = bs @ decrypted (enckey cfg) (take (n - r) (drop (posn s + r) (content s)))"
    using take_add [of r "n - r" "drop (fpos f) (readable v (fname f))"]
      take_add [of r "n - r" "drop (posn s) (content s)"] r(4)
    by (simp_all add: bs2_def bs_def add.commute)
  show ?case
  proof (cases "bs = bs2")
    case False
    have "length bs2 \<noteq> r \<Longrightarrow> take n (drop (fpos f) (readable v (fname f))) = bs2"
      using len2 unfolding split(1) by (simp add: bs2_def)
    moreover have "length bs2 = r \<Longrightarrow> bs2 @ x \<noteq> bs @ y" for x y
      using False len by simp
    moreover have "length bs2 \<noteq> r \<Longrightarrow> bs2 \<noteq> bs @ y" for y
      using len len2 by auto
    ultimately show ?thesis
      using step False s1 split by auto
  next
    case True
    with len have l2: "length bs2 = r" by simp
    show ?thesis
    proof (cases "n \<le> b")
      case True
      then have "r = n" by (simp add: r_def)
      with step \<open>bs = bs2\<close> l2 s1 split show ?thesis by auto
    next
      case False
      with less.prems have b: "0 < b" "r = b" by (auto simp: r_def)
      have "length (bs @ drop r buf) = b" "length (bs2 @ drop (length bs2) buf2) = b"
        "n - r < n" "n - r < 2 ^ 31"
        using len l2 less.prems b False by auto
      then have "\<exists>ret s'. verify_loop cfg ops v (of_nat b) (of_nat (n - r)) (bs @ drop r buf)
              (bs2 @ drop (length bs2) buf2) ?f s1 = Some (ret, s')
        \<and> (ret = 0 \<longleftrightarrow> take (n - r) (drop (fpos f + r) (readable v (fname f)))
                 = decrypted (enckey cfg) (take (n - r) (drop (posn s + r) (content s))))
        \<and> ret \<in> {0, 213, 220} \<and> (ret = 0 \<longrightarrow> posn s' = posn s1 + (n - r))
        \<and> valid s' \<and> content s' = content s1"
        using less.IH [of "n - r" s1 "bs @ drop r buf" "bs2 @ drop (length bs2) buf2" ?f]
          b False s1 less.prems l2 by auto
      then show ?thesis
        using step \<open>bs = bs2\<close> l2 s1 split b False by auto
    qed
  qed
qed

end

subsection \<open>A file block\<close>

definition c_string :: "string \<Rightarrow> block" where
  "c_string s = map byte_of_char s @ [0]"

definition file_block :: "string \<Rightarrow> block \<Rightarrow> block" where
  "file_block name data =
     le_of_word 4 (of_nat (length name + 1) :: 32 word) @ c_string name
     @ le_of_word 4 (of_nat (length data) :: 32 word) @ data"

lemma length_c_string [simp]: "length (c_string s) = length s + 1"
  by (simp add: c_string_def)

lemma cstr_c_string:
  assumes "good_name a" "good_name b"
  shows "cstr (map byte_of_char a @ c_string b @ rest) 0 = Some (a @ b)"
  using cstr_at [of "a @ b" 0 "[]" rest] assms by (auto simp: c_string_def good_name_def)

text \<open>The names that fit: a drive with its letter and colon, a path within \<open>PATH_MAX\<close>.\<close>

definition names_ok :: "ug_cfg \<Rightarrow> string \<Rightarrow> string \<Rightarrow> bool" where
  "names_ok cfg drive name \<longleftrightarrow>
     good_name drive \<and> 2 \<le> length drive \<and> good_name name
     \<and> length drive < length (stack cfg) \<and> length name + 3 \<le> length (stack cfg)
     \<and> length (stack cfg) < 2 ^ 31"

context itc_reader
begin

lemma read_header_word:
  assumes "valid s" "drop (posn s) (content s) = le_of_word 4 w @ rest"
  shows "\<exists>s'. Read ops s (replicate 4 0) 4 = Some (4, le_of_word 4 w, s')
    \<and> valid s' \<and> content s' = content s \<and> posn s' = posn s + 4
    \<and> drop (posn s') (content s') = rest"
proof -
  have "length (drop (posn s) (content s)) = 4 + length rest"
    by (simp add: assms(2))
  then have "posn s + 4 \<le> length (content s)" by simp
  then obtain s' where "Read ops s (replicate 4 0) 4 = Some (4, le_of_word 4 w, s')"
    "valid s'" "content s' = content s" "posn s' = posn s + 4"
    using read_all [OF assms(1), of 4 "replicate 4 0"] by (auto simp: assms(2))
  moreover have "drop (posn s + 4) (content s) = rest"
    using arg_cong [OF assms(2), of "drop 4"] by (simp add: add.commute)
  ultimately show ?thesis by auto
qed

lemma read_name_ok:
  assumes "valid s" "names_ok cfg drive name"
    "drop (posn s) (content s) = le_of_word 4 (of_nat (length name + 1) :: 32 word) @ c_string name @ rest"
  shows "\<exists>s' tl. read_name cfg ops drive e1 e2 s
      = Some (Inr (map byte_of_char (take 2 drive) @ c_string name @ tl), s')
    \<and> valid s' \<and> content s' = content s \<and> posn s' = posn s + 4 + (length name + 1)
    \<and> drop (posn s') (content s') = rest"
proof -
  obtain s1 where s1: "Read ops s (replicate 4 0) 4
      = Some (4, le_of_word 4 (of_nat (length name + 1) :: 32 word), s1)"
    "valid s1" "content s1 = content s" "posn s1 = posn s + 4"
    "drop (posn s1) (content s1) = c_string name @ rest"
    using read_header_word [OF assms(1,3)] by auto
  define buf where "buf = map byte_of_char drive @ 0 # drop (length drive + 1) (stack cfg)"
  have n: "good_name drive" "2 \<le> length drive" "length drive < length (stack cfg)"
    "length name + 3 \<le> length (stack cfg)" "length (stack cfg) < 2 ^ 31"
    using assms(2) by (auto simp: names_ok_def)
  have buf: "strcpy_mem (stack cfg) 0 drive = Some buf" "length buf = length (stack cfg)"
    "take 2 buf = map byte_of_char (take 2 drive)"
    using n by (simp_all add: strcpy_mem_def poke_def buf_def take_map)
  let ?n = "length name + 1"
  have n31: "?n < 2 ^ 31" and fits: "?n \<le> length (drop 2 buf)" using n buf by simp_all
  have "length (drop (posn s1) (content s1)) = ?n + length rest" by (simp add: s1(5))
  then have "posn s1 + ?n \<le> length (content s1)" by simp
  then obtain s2 where s2: "Read ops s1 (drop 2 buf) (int ?n)
      = Some (int ?n, c_string name @ drop ?n (drop 2 buf), s2)"
    "valid s2" "content s2 = content s1" "posn s2 = posn s1 + ?n"
    using read_all [OF s1(2) fits n31] by (auto simp: s1(5))
  have "drop (posn s2) (content s2) = rest"
    using arg_cong [OF s1(5), of "drop ?n"] s2 by (simp add: add.commute)
  moreover have "sint (1 + word_of_nat (length name) :: 32 word) = 1 + int (length name)"
    using u32_of_nat(3) [OF n31] by simp
  then have "read_name cfg ops drive e1 e2 s
      = Some (Inr (map byte_of_char (take 2 drive) @ c_string name @ drop ?n (drop 2 buf)), s2)"
    using s1(1) s2(1) buf(3)
    by (simp add: read_name_def itpLetoh32_le_of_word Let_def buf(1) del: drop_drop)
  ultimately show ?thesis
    using s1 s2 by auto
qed

lemma file_header_ok:
  assumes "valid s" "names_ok cfg drive name"
    "drop (posn s) (content s) = file_block name data @ rest"
  shows "\<exists>s' tl. file_header cfg ops drive s
      = Some (Inr (map byte_of_char (take 2 drive) @ c_string name @ tl, of_nat (length data)), s')
    \<and> valid s' \<and> content s' = content s \<and> posn s' + length data = posn s + length (file_block name data)
    \<and> drop (posn s') (content s') = data @ rest"
proof -
  obtain s1 tl where s1: "read_name cfg ops drive 76 89 s
      = Some (Inr (map byte_of_char (take 2 drive) @ c_string name @ tl), s1)"
    "valid s1" "content s1 = content s" "posn s1 = posn s + 4 + (length name + 1)"
    "drop (posn s1) (content s1) = le_of_word 4 (of_nat (length data) :: 32 word) @ data @ rest"
    using read_name_ok [OF assms(1,2)] assms(3) by (fastforce simp: file_block_def)
  obtain s2 where "Read ops s1 (replicate 4 0) 4 = Some (4, le_of_word 4 (of_nat (length data) :: 32 word), s2)"
    "valid s2" "content s2 = content s1" "posn s2 = posn s1 + 4"
    "drop (posn s2) (content s2) = data @ rest"
    using read_header_word [OF s1(2,5)] by auto
  then show ?thesis
    using s1 by (auto simp: file_header_def itpLetoh32_le_of_word file_block_def)
qed

end

text \<open>The volume with the file \<open>p\<close> replaced by what the medium keeps of \<open>d\<close>.\<close>

definition replaced :: "volume \<Rightarrow> string \<Rightarrow> block \<Rightarrow> volume" where
  "replaced v p d = v\<lparr>files := (files v)(p \<mapsto> stored v p 0 d),
                     capacity := capacity v + length (file_data v p) - length d\<rparr>"

lemma appended_fopen_wb:
  "appended (v\<lparr>files := (files v)(p := Some []), capacity := capacity v + length (file_data v p)\<rparr>) p d
     = replaced v p d"
proof -
  have "stored (v\<lparr>files := f, capacity := c\<rparr>) = stored v" for f c
    by (intro ext) (simp add: stored_def)
  then show ?thesis by (simp add: appended_def replaced_def file_data_def)
qed

lemma replaced_simps [simp]:
  "files (replaced v p d) p = Some (stored v p 0 d)" "file_data (replaced v p d) p = stored v p 0 d"
  "denied (replaced v p d) = denied v" "bad_from (replaced v p d) = bad_from v"
  "q \<noteq> p \<Longrightarrow> files (replaced v p d) q = files v q"
  by (simp_all add: replaced_def file_data_def)

lemma readable_replaced:
  "readable (replaced v p d) p
     = (case bad_from v p of None \<Rightarrow> stored v p 0 d | Some k \<Rightarrow> take k (stored v p 0 d))"
  by (simp add: readable_def split: option.split)

context itc_reader
begin

lemma verify_file_ok:
  assumes cfg: "cfg_ok cfg" and s: "valid s" "posn s = q + n" "q < length (content s)"
      "length (content s) < 2 ^ 31" "n \<le> posn s"
    and b: "length buf = b" "int b \<le> buf_size cfg" "0 < b \<or> n = 0"
    and f: "fopen_rb v p = Some \<lparr>fname = p, fpos = 0\<rparr>"
  shows "\<exists>ret s'. verify_file cfg ops (of_nat b) (of_nat n) buf p s v = Some (ret, s', v)
    \<and> (ret = 0 \<longleftrightarrow> take n (readable v p)
                 = decrypted (enckey cfg) (take n (drop q (content s))))
    \<and> ret \<in> {0, 213, 220} \<and> (ret = 0 \<longrightarrow> posn s' = posn s)
    \<and> valid s' \<and> content s' = content s"
proof -
  have pos: "q + n \<le> length (content s)" using posn_le [OF s(1)] s(2) by simp
  then have n31: "n < 2 ^ 31" using s(4) by simp
  have b31: "b < 2 ^ 31" using cfg b(2) by (auto simp: cfg_ok_def)
  obtain buf2 where buf2: "ug_malloc cfg (int b) = Some buf2" "length buf2 = b"
    using cfg_ok_malloc [OF cfg b(2)] .
  obtain s1 where s1: "Seek ops s (- int n) SEEK_CUR = Some (0, s1)" "valid s1"
    "content s1 = content s" "posn s1 = q"
    using seek_cur_ok [OF s(1), of n] s by auto
  show ?thesis
    using verify_loop_ok [OF cfg s1(2) _ n31 b(1) buf2(2) b(2,3), of v "\<lparr>fname = p, fpos = 0\<rparr>"] s1 s(2) pos
    by (auto simp: verify_file_def u32_of_nat [OF n31] u32_of_nat [OF b31] buf2 f)
qed

lemma ugUpgradeFile_block:
  assumes cfg: "cfg_ok cfg" and names: "names_ok cfg drive name"
    and s: "valid s" "drop (posn s) (content s) = file_block name data @ rest" "rest \<noteq> []"
      "length (content s) < 2 ^ 31"
    and v: "p = take 2 drive @ name" "\<not> denied v p" "space_ok cfg v drive p (of_nat (length data))"
      "length data \<le> capacity v + length (file_data v p)"
  shows "\<exists>ret s'. ugUpgradeFile cfg ops s v drive
      = Some (ret, s', replaced v p (decrypted (enckey cfg) data))
    \<and> (ret = 0 \<longleftrightarrow> take (length data) (readable (replaced v p (decrypted (enckey cfg) data)) p)
          = decrypted (enckey cfg) data)
    \<and> ret \<in> {0, 213, 220} \<and> valid s' \<and> content s' = content s
    \<and> (ret = 0 \<longrightarrow> posn s' = posn s + length (file_block name data))"
proof -
  let ?n = "length data" and ?d = "decrypted (enckey cfg) data"
  obtain s1 tl where s1: "file_header cfg ops drive s
      = Some (Inr (map byte_of_char (take 2 drive) @ c_string name @ tl, of_nat ?n), s1)"
    "valid s1" "content s1 = content s" "posn s1 + ?n = posn s + length (file_block name data)"
    "drop (posn s1) (content s1) = data @ rest"
    using file_header_ok [OF s(1) names s(2)] by blast
  have good: "good_name (take 2 drive)" "good_name name"
    using names by (auto simp: names_ok_def good_name_def dest: in_set_takeD)
  have path: "cstr (map byte_of_char (take 2 drive) @ c_string name @ tl) 0 = Some p"
    using cstr_c_string [OF good] by (simp add: v(1))
  have "length (drop (posn s1) (content s1)) = ?n + length rest" by (simp add: s1(5))
  with s(3) have fits: "posn s1 + ?n < length (content s1)" by (cases rest) auto
  with s(4) s1(3) have n31: "?n < 2 ^ 31" by simp
  define b where "b = min (nat (buf_size cfg)) ?n"
  have c: "0 < buf_size cfg" "nat (buf_size cfg) < 2 ^ 31" using cfg by (auto simp: cfg_ok_def)
  have bufsize: "(if (word_of_int (buf_size cfg) :: 32 word) < of_nat ?n then word_of_int (buf_size cfg)
        else of_nat ?n) = (of_nat b :: 32 word)"
    unfolding u32_int [OF less_imp_le [OF c(1)]] b_def by (rule u32_min [OF c(2) n31])
  have b: "b < 2 ^ 31" "int b \<le> buf_size cfg" "0 < b \<or> ?n = 0"
    using c n31 by (auto simp: b_def)
  obtain buf where buf: "ug_malloc cfg (int b) = Some buf" "length buf = b"
    using cfg_ok_malloc [OF cfg b(2)] .
  define v1 where "v1 = v\<lparr>files := (files v)(p := Some []), capacity := capacity v + length (file_data v p)\<rparr>"
  have open_wb: "fopen_wb v p = (Some \<lparr>fname = p, fpos = 0\<rparr>, v1)"
    using v(2) by (simp add: fopen_wb_def v1_def)
  have data: "take ?n (drop (posn s1) (content s1)) = data" by (simp add: s1(5))
  have v1: "file_data v1 p = []" "?n \<le> capacity v1" "appended v1 p ?d = replaced v p ?d"
    using v(4) by (simp_all add: v1_def appended_fopen_wb) (simp add: file_data_def)
  obtain buf' s2 where w: "write_loop cfg ops (of_nat b) (of_nat ?n) buf \<lparr>fname = p, fpos = 0\<rparr> s1 v1
      = Some (0, buf', s2, replaced v p ?d)"
    "length buf' = b" "valid s2" "content s2 = content s1" "posn s2 = posn s1 + ?n"
    using write_loop_ok [OF cfg s1(2) less_imp_le [OF fits] n31 buf(2) b(2,3), of "\<lparr>fname = p, fpos = 0\<rparr>" v1]
      v1 by (auto simp: data)
  have "fopen_rb (replaced v p ?d) p = Some \<lparr>fname = p, fpos = 0\<rparr>"
    using v(2) by (simp add: fopen_rb_def)
  then obtain ret s3 where "verify_file cfg ops (of_nat b) (of_nat ?n) buf' p s2 (replaced v p ?d)
      = Some (ret, s3, replaced v p ?d)"
    "ret = 0 \<longleftrightarrow> take ?n (readable (replaced v p ?d) p) = ?d"
    "ret \<in> {0, 213, 220}" "ret = 0 \<longrightarrow> posn s3 = posn s2" "valid s3" "content s3 = content s2"
    using verify_file_ok [OF cfg w(3) w(5) _ _ _ w(2) b(2,3), of "replaced v p ?d" p] w fits s1 s(4) data
    by auto
  then show ?thesis
    using s1 w(1,4,5) v(3)
    by (auto simp: ugUpgradeFile_def path bufsize u32_of_nat(2) [OF b(1)] buf open_wb Let_def
        split del: if_split cong: if_cong)
qed

text \<open>On a sound medium the file is upgraded.\<close>

lemma ugUpgradeFile_sound:
  assumes "cfg_ok cfg" "names_ok cfg drive name"
    "valid s" "drop (posn s) (content s) = file_block name data @ rest" "rest \<noteq> []"
    "length (content s) < 2 ^ 31" "p = take 2 drive @ name" "\<not> denied v p"
    "space_ok cfg v drive p (of_nat (length data))"
    "length data \<le> capacity v + length (file_data v p)" "sound_medium v p"
  shows "\<exists>s'. ugUpgradeFile cfg ops s v drive
      = Some (0, s', v\<lparr>files := (files v)(p \<mapsto> decrypted (enckey cfg) data),
                      capacity := capacity v + length (file_data v p) - length data\<rparr>)
    \<and> valid s' \<and> content s' = content s \<and> posn s' = posn s + length (file_block name data)"
proof -
  let ?d = "decrypted (enckey cfg) data"
  have st: "stored v p 0 ?d = ?d" by (rule stored_sound [OF assms(11)])
  then have eq: "replaced v p ?d = v\<lparr>files := (files v)(p \<mapsto> ?d),
      capacity := capacity v + length (file_data v p) - length data\<rparr>"
    by (simp add: replaced_def)
  have "readable (replaced v p ?d) p = ?d"
    using st assms(11) by (simp add: readable_replaced sound_medium_def)
  then have "take (length data) (readable (replaced v p ?d) p) = ?d"
    by simp
  with ugUpgradeFile_block [OF assms(1-10)] show ?thesis
    unfolding eq by blast
qed

end

end
