(* ===== verification/Ug_Device.thy ===== *)
theory Ug_Device
  imports Ug_File
begin

text \<open>
  The blocks of a package that address devices: \<open>ug_device.c\<close> (the partition table of a disk),
  \<open>ug_partition.c\<close> (choosing a drive), \<open>ug_unformatted.c\<close>, \<open>ug_end.c\<close>, and the directory block of
  \<open>ug_directory.c\<close>. The FAT and drive services behind \<open>ioctl\<close>, and the calls \<open>chdir\<close> and \<open>mkdir\<close>,
  are the operations \<open>itp_services\<close> on a state \<open>'d\<close> of their own.
\<close>

datatype ITPDisk = ITP_DISK_SD0 | ITP_DISK_SD1 | ITP_DISK_CF | ITP_DISK_MS | ITP_DISK_XD
  | ITP_DISK_NAND | ITP_DISK_NOR | ITP_DISK_MSC nat | ITP_DISK_RAM
  | ITP_DISK_NONE  \<comment> \<open>the value -1 of a drive that was never mounted\<close>

text \<open>Of the devices, the file systems that drives belong to, and the value -1.\<close>

datatype ITPDeviceType = ITP_DEVICE_FAT | ITP_DEVICE_NTFS | ITP_DEVICE_NONE

record ITPDriveStatus =
  dr_disk :: ITPDisk
  dr_device :: ITPDeviceType
  avail :: bool
  dr_name :: string

record ITPPartition =
  par_disk :: ITPDisk
  par_count :: int
  par_size :: "64 word list"
  par_start :: "64 word list"

definition ITP_MAX_PARTITION :: nat where "ITP_MAX_PARTITION = 10"
definition ITP_MAX_DRIVE :: nat where "ITP_MAX_DRIVE = 26"

record 'd itp_services =
  fat_get_partition :: "ITPDisk \<Rightarrow> 'd \<Rightarrow> int \<times> ITPPartition \<times> 'd"
  fat_unmount :: "ITPDisk \<Rightarrow> 'd \<Rightarrow> int \<times> 'd"
  fat_create_partition :: "ITPPartition \<Rightarrow> 'd \<Rightarrow> int \<times> 'd"
  fat_force_mount :: "ITPDisk \<Rightarrow> 'd \<Rightarrow> int \<times> 'd"
  fat_format :: "nat \<Rightarrow> 'd \<Rightarrow> int \<times> 'd"
  drive_table :: "'d \<Rightarrow> ITPDriveStatus list"
  chdir_dir :: "string \<Rightarrow> 'd \<Rightarrow> int \<times> 'd"
  mkdir_dir :: "string \<Rightarrow> 'd \<Rightarrow> int \<times> 'd"

subsection \<open>Partitioning\<close>

definition device_disk :: "32 word \<Rightarrow> ITPDisk option" where
  "device_disk t = (if t = 0 then Some ITP_DISK_NAND else if t = 1 then Some ITP_DISK_NOR
     else if t = 2 then Some ITP_DISK_SD0 else if t = 3 then Some ITP_DISK_SD1 else None)"

text \<open>
  The device header and the partition sizes. The array \<open>size\<close> has room for
  \<open>ITP_MAX_PARTITION\<close> entries; the loop over \<open>partition_count\<close> entries leaves it when there are more.
\<close>

definition device_header ::
  "'s ITCStreamOps \<Rightarrow> 's \<Rightarrow> ((int + 32 word \<times> 32 word \<times> 32 word \<times> 64 word list) \<times> 's) option" where
  "device_header ops f =
     do { (readsize, hdr, f) \<leftarrow> Read ops f (replicate 12 0) 12;
          if (word_of_int readsize :: 32 word) \<noteq> 12 then Some (Inl 47, f)
          else
            let device_type = itpLetoh32 (take 4 hdr);
                unformatted_size = itpLetoh32 (take 4 (drop 4 hdr));
                partition_count = itpLetoh32 (take 4 (drop 8 hdr)) in
            do { (readsize, szs, f) \<leftarrow>
                   Read ops f (replicate (8 * ITP_MAX_PARTITION) 0) (sint (8 * partition_count));
                 if word_of_int readsize \<noteq> 8 * partition_count then Some (Inl 65, f)
                 else if sint partition_count > int ITP_MAX_PARTITION then None
                 else Some (Inr (device_type, unformatted_size, partition_count,
                        map (\<lambda>i. itpLetoh64 (take 8 (drop (8 * i) szs))) [0..<nat (sint partition_count)]),
                      f) } }"

fun partition_starts :: "64 word \<Rightarrow> 64 word list \<Rightarrow> 64 word list" where
  "partition_starts inc [] = []"
| "partition_starts inc (s # ss) = inc # partition_starts (inc + s) ss"

fun format_drives :: "'d itp_services \<Rightarrow> ITPDisk \<Rightarrow> nat \<Rightarrow> ITPDriveStatus list \<Rightarrow> 'd \<Rightarrow> int \<times> 'd" where
  "format_drives srv disk i [] d = (0, d)"
| "format_drives srv disk i (st # sts) d =
     (if dr_disk st = disk \<and> avail st
      then let (ret, d) = fat_format srv i d
           in if ret \<noteq> 0 then (ret, d) else format_drives srv disk (Suc i) sts d
      else format_drives srv disk (Suc i) sts d)"

definition repartition ::
  "'d itp_services \<Rightarrow> ITPDisk \<Rightarrow> 32 word \<Rightarrow> 32 word \<Rightarrow> 64 word list \<Rightarrow> 'd \<Rightarrow> (int \<times> 'd) option" where
  "repartition srv disk unformatted_size partition_count sizes d =
     (let par = \<lparr>par_disk = disk, par_count = sint partition_count, par_size = sizes,
                 par_start = partition_starts (ucast unformatted_size) sizes\<rparr>;
          (_, d) = fat_unmount srv disk d;
          (ret, d) = fat_create_partition srv par d
      in if ret \<noteq> 0 then Some (ret, d)
         else let (ret, d) = fat_force_mount srv disk d
           in if ret \<noteq> 0 then Some (ret, d)
              else if length (drive_table srv d) < ITP_MAX_DRIVE then None
              else Some (format_drives srv disk 0 (take ITP_MAX_DRIVE (drive_table srv d)) d))"

text \<open>Whether the partitions that exist are the ones asked for; a size of 0 accepts any.\<close>

definition partition_differs :: "32 word \<Rightarrow> 64 word list \<Rightarrow> ITPPartition \<Rightarrow> bool option" where
  "partition_differs partition_count sizes par =
     (if word_of_int (par_count par) \<noteq> partition_count then Some True
      else if length (par_size par) < length sizes then None
      else Some (\<exists>i < length sizes. sizes ! i \<noteq> 0 \<and> par_size par ! i \<noteq> sizes ! i))"

definition ugUpgradeDevice ::
  "'s ITCStreamOps \<Rightarrow> 'd itp_services \<Rightarrow> 's \<Rightarrow> 'd \<Rightarrow> ITPDisk \<Rightarrow> bool \<Rightarrow> bool
     \<Rightarrow> (int \<times> ITPDisk \<times> 's \<times> 'd) option" where
  "ugUpgradeDevice ops srv f d disk force nopartition =
     do { (l, f) \<leftarrow> device_header ops f;
          case l of Inl e \<Rightarrow> Some (e, disk, f, d)
          | Inr (device_type, unformatted_size, partition_count, sizes) \<Rightarrow>
              case device_disk device_type of None \<Rightarrow> Some (98, disk, f, d)
              | Some disk \<Rightarrow>
                  let repart = (\<lambda>d. do { (ret, d) \<leftarrow> repartition srv disk unformatted_size
                                                       partition_count sizes d;
                                        Some (ret, disk, f, d) })
                  in if partition_count = 0 then Some (0, disk, f, d)
                     else if force then repart d
                     else if nopartition then Some (0, disk, f, d)
                     else let (ret, par, d) = fat_get_partition srv disk d
                       in if ret \<noteq> 0 then repart d
                          else do { differs \<leftarrow> partition_differs partition_count sizes par;
                                    if differs then repart d else Some (0, disk, f, d) } }"

subsection \<open>Choosing a drive\<close>

text \<open>The loop over the drive table: the number and the status of the drive found.\<close>

fun find_drive :: "ITPDisk \<Rightarrow> int \<Rightarrow> nat \<Rightarrow> int \<Rightarrow> ITPDriveStatus list \<Rightarrow> (nat \<times> ITPDriveStatus) option" where
  "find_drive disk part i j [] = None"
| "find_drive disk part i j (st # sts) =
     (if dr_disk st = disk \<and> avail st
      then if j = part then Some (i, st) else find_drive disk part (Suc i) (j + 1) sts
      else find_drive disk part (Suc i) j sts)"

definition ugUpgradePartition ::
  "'s ITCStreamOps \<Rightarrow> 'd itp_services \<Rightarrow> 's \<Rightarrow> 'd \<Rightarrow> ITPDisk \<Rightarrow> int \<Rightarrow> string option \<Rightarrow> bool
     \<Rightarrow> (int \<times> string option \<times> 's \<times> 'd) option" where
  "ugUpgradePartition ops srv f d disk part drive format =
     do { (readsize, par, f) \<leftarrow> Read ops f (replicate 8 0) 8;
          if (word_of_int readsize :: 32 word) \<noteq> 8 then Some (56, drive, f, d)
          else if length (drive_table srv d) < ITP_MAX_DRIVE then None
          else case find_drive disk part 0 0 (take ITP_MAX_DRIVE (drive_table srv d)) of
                 None \<Rightarrow> Some (103, drive, f, d)
               | Some (i, st) \<Rightarrow>
                   if 4 \<le> length (dr_name st) then None
                   else Some (0, Some (dr_name st), f, if format then snd (fat_format srv i d) else d) }"

subsection \<open>The other blocks\<close>

definition ugUpgradeUnformatted :: "'s ITCStreamOps \<Rightarrow> 's \<Rightarrow> (int \<times> 's) option" where
  "ugUpgradeUnformatted ops f =
     do { (readsize, fmt, f) \<leftarrow> Read ops f (replicate 4 0) 4;
          Some (if (word_of_int readsize :: 32 word) \<noteq> 4 then 24 else 0, f) }"

definition ugUpgradeEnd :: "'s ITCStreamOps \<Rightarrow> 's \<Rightarrow> (int \<times> 's) option" where
  "ugUpgradeEnd ops f =
     do { (readsize, fmt, f) \<leftarrow> Read ops f (replicate 4 0) 4;
          Some (if (word_of_int readsize :: 32 word) \<noteq> 4 then 22 else 0, f) }"

text \<open>The directory block. A trailing slash is cut off; a failing \<open>mkdir\<close> is only logged.\<close>

definition cut_slash :: "string \<Rightarrow> string option" where
  "cut_slash p = (if p = [] then None else Some (if last p = CHR ''/'' then butlast p else p))"

definition ugUpgradeDirectory ::
  "ug_cfg \<Rightarrow> 's ITCStreamOps \<Rightarrow> 'd itp_services \<Rightarrow> 's \<Rightarrow> 'd \<Rightarrow> string \<Rightarrow> (int \<times> 's \<times> 'd) option" where
  "ugUpgradeDirectory cfg ops srv f d drive =
     do { (l, f) \<leftarrow> read_name cfg ops drive 25 38 f;
          case l of Inl e \<Rightarrow> Some (e, f, d)
          | Inr buf \<Rightarrow>
              let (r, d) = chdir_dir srv drive d
              in if r \<noteq> 0 then Some (47, f, d)
                 else do { path \<leftarrow> cstr buf 0;
                           dir \<leftarrow> cut_slash path;
                           let (_, d) = mkdir_dir srv dir d in Some (0, f, d) } }"

subsection \<open>The layout\<close>

text \<open>The partitions lie one behind the other, the first behind the unformatted area.\<close>

lemma length_partition_starts [simp]: "length (partition_starts inc sizes) = length sizes"
  by (induction inc sizes rule: partition_starts.induct) simp_all

lemma partition_starts_nth:
  "i < length sizes \<Longrightarrow> partition_starts inc sizes ! i = inc + sum_list (take i sizes)"
proof (induction inc sizes arbitrary: i rule: partition_starts.induct)
  case (2 inc s ss)
  then show ?case by (cases i) (simp_all add: add.assoc)
qed simp

text \<open>The search finds the drive with that number among those of the disk that are available.\<close>

definition disk_drives :: "ITPDisk \<Rightarrow> ITPDriveStatus list \<Rightarrow> (nat \<times> ITPDriveStatus) list" where
  "disk_drives disk ds = filter (\<lambda>(i, st). dr_disk st = disk \<and> avail st) (enumerate 0 ds)"

lemma find_drive_filter:
  "j \<le> part \<Longrightarrow> find_drive disk part i j ds =
     (let fs = filter (\<lambda>(i, st). dr_disk st = disk \<and> avail st) (enumerate i ds)
      in if part - j < int (length fs) then Some (fs ! nat (part - j)) else None)"
proof (induction ds arbitrary: i j)
  case Nil
  then show ?case by simp
next
  case (Cons st sts)
  show ?case
  proof (cases "dr_disk st = disk \<and> avail st \<and> j \<noteq> part")
    case True
    with Cons.prems have "nat (part - j) = Suc (nat (part - (j + 1)))" "j + 1 \<le> part" by arith+
    then show ?thesis using True Cons.IH [of "j + 1" "Suc i"] by (auto simp: Let_def)
  next
    case False
    then show ?thesis using Cons by (auto simp: Let_def)
  qed
qed

lemma find_drive_nth:
  "0 \<le> part \<Longrightarrow> find_drive disk part 0 0 ds =
     (if nat part < length (disk_drives disk ds) then Some (disk_drives disk ds ! nat part) else None)"
  by (simp add: find_drive_filter disk_drives_def Let_def nat_less_iff)

subsection \<open>A device block\<close>

definition device_block :: "32 word \<Rightarrow> 32 word \<Rightarrow> 64 word list \<Rightarrow> block" where
  "device_block t unformatted_size sizes =
     le_of_word 4 t @ le_of_word 4 unformatted_size @ le_of_word 4 (of_nat (length sizes) :: 32 word)
     @ concat (map (le_of_word 8) sizes)"

lemma length_concat_le8 [simp]: "length (concat (map (le_of_word 8) (ws :: 64 word list))) = 8 * length ws"
  by (induction ws) simp_all

lemma concat_le8_nth:
  "map (\<lambda>i. itpLetoh64 (take 8 (drop (8 * i) (concat (map (le_of_word 8) ws) @ rest)))) [0..<length ws] = ws"
proof (induction ws)
  case (Cons w ws)
  have "take 8 (drop (8 * Suc i) (concat (map (le_of_word 8) (w # ws)) @ rest))
      = take 8 (drop (8 * i) (concat (map (le_of_word 8) ws) @ rest))" for i
    by simp
  then show ?case
    using Cons by (simp add: map_upt_Suc itpLetoh64_le_of_word del: concat.simps list.map(2) upt_Suc)
      (simp add: itpLetoh64_le_of_word)
qed simp

lemma word_of_nat_8: "(8 :: 32 word) * of_nat n = of_nat (8 * n)"
  by simp

context itc_reader
begin

lemma device_header_ok:
  assumes s: "valid s" "drop (posn s) (content s) = device_block t u sizes @ rest"
    and n: "length sizes \<le> ITP_MAX_PARTITION"
  shows "\<exists>s'. device_header ops s = Some (Inr (t, u, of_nat (length sizes), sizes), s')
    \<and> valid s' \<and> content s' = content s \<and> posn s' = posn s + length (device_block t u sizes)
    \<and> drop (posn s') (content s') = rest"
proof -
  let ?hdr = "le_of_word 4 t @ le_of_word 4 u @ le_of_word 4 (of_nat (length sizes) :: 32 word)"
  let ?szs = "concat (map (le_of_word 8) sizes)"
  have blk: "drop (posn s) (content s) = ?hdr @ ?szs @ rest"
    using s(2) by (simp add: device_block_def)
  have len: "length (drop (posn s) (content s)) = 12 + 8 * length sizes + length rest"
    unfolding blk by simp
  then have "posn s + 12 \<le> length (content s)" by simp
  then obtain s1 where s1: "Read ops s (replicate 12 0) 12 = Some (12, ?hdr, s1)"
    "valid s1" "content s1 = content s" "posn s1 = posn s + 12"
    using read_all [OF s(1), of 12 "replicate 12 0"] by (auto simp: blk)
  have rest1: "drop (posn s1) (content s1) = ?szs @ rest"
    using arg_cong [OF blk, of "drop 12"] s1 by (simp add: add.commute)
  let ?n = "8 * length sizes"
  have n31: "?n < 2 ^ 31" "length sizes < 2 ^ 31" using n by (simp_all add: ITP_MAX_PARTITION_def)
  have "posn s1 + ?n \<le> length (content s1)" using len s1 by simp
  then obtain pad s2 where s2: "Read ops s1 (replicate (8 * ITP_MAX_PARTITION) 0) (int ?n)
      = Some (int ?n, ?szs @ pad, s2)"
    "valid s2" "content s2 = content s1" "posn s2 = posn s1 + ?n"
    using read_all [OF s1(2) _ n31(1), of "replicate (8 * ITP_MAX_PARTITION) 0"] n by (auto simp: rest1)
  obtain hdr where hdr: "hdr = ?hdr" by blast
  have parts: "itpLetoh32 (take 4 hdr) = t" "itpLetoh32 (take 4 (drop 4 hdr)) = u"
    "itpLetoh32 (take 4 (drop 8 hdr)) = of_nat (length sizes)"
    unfolding hdr by (simp_all add: itpLetoh32_le_of_word)
  obtain szs where szs: "szs = ?szs @ pad" by blast
  have sizes: "map (\<lambda>i. itpLetoh64 (take 8 (drop (8 * i) szs))) [0..<length sizes] = sizes"
    unfolding szs by (rule concat_le8_nth)
  have "device_header ops s = Some (Inr (t, u, of_nat (length sizes), sizes), s2)"
    using s1(1) [folded hdr] s2(1) [folded szs] n
    by (simp add: device_header_def parts Let_def word_of_nat_8 u32_of_nat(3) [OF n31(1)]
        u32_of_nat(3) [OF n31(2)] sizes del: of_nat_mult)
  moreover have "drop (posn s2) (content s2) = rest"
    using arg_cong [OF rest1, of "drop ?n"] s2 by (simp add: add.commute)
  ultimately show ?thesis
    using s1 s2 by (auto simp: device_block_def)
qed

text \<open>A disk that is laid out as asked is left alone, unless partitioning is forced.\<close>

lemma ugUpgradeDevice_keeps:
  assumes s: "valid s" "drop (posn s) (content s) = device_block t u sizes @ rest"
    and n: "length sizes \<le> ITP_MAX_PARTITION"
    and t: "device_disk t = Some dk"
    and same: "fat_get_partition srv dk d = (0, par, d)" "par_count par = int (length sizes)"
      "length (par_size par) = ITP_MAX_PARTITION"
      "\<forall>i < length sizes. sizes ! i = 0 \<or> par_size par ! i = sizes ! i"
  shows "\<exists>s'. ugUpgradeDevice ops srv s d disk False nopart = Some (0, dk, s', d)
    \<and> valid s' \<and> content s' = content s \<and> posn s' = posn s + length (device_block t u sizes)
    \<and> drop (posn s') (content s') = rest"
proof -
  have "partition_differs (of_nat (length sizes)) sizes par = Some False"
    using same n by (auto simp: partition_differs_def)
  then show ?thesis
    using device_header_ok [OF s n] t same(1) by (auto simp: ugUpgradeDevice_def Let_def)
qed

text \<open>Otherwise it is partitioned: what the FAT service is asked to create.\<close>

lemma ugUpgradeDevice_repartitions:
  assumes s: "valid s" "drop (posn s) (content s) = device_block t u sizes @ rest"
    and n: "length sizes \<le> ITP_MAX_PARTITION" "sizes \<noteq> []"
    and t: "device_disk t = Some dk"
  shows "\<exists>s'. ugUpgradeDevice ops srv s d disk True nopart
      = map_option (\<lambda>(ret, d). (ret, dk, s', d)) (repartition srv dk u (of_nat (length sizes)) sizes d)
    \<and> valid s' \<and> content s' = content s \<and> posn s' = posn s + length (device_block t u sizes)"
proof -
  have "(of_nat (length sizes) :: 32 word) \<noteq> 0"
    using u32_eq [of "length sizes" 0] n by (simp add: ITP_MAX_PARTITION_def)
  then show ?thesis
    using device_header_ok [OF s n(1)] t
    by (auto simp: ugUpgradeDevice_def Let_def split: bind_splits)
qed

end

end
