(* ===== verification/Ug_RawData.thy ===== *)
theory Ug_RawData
  imports Ug_Device
begin

text \<open>
  \<open>sdk/share/upgrade/ug_rawdata.c\<close>: raw data blocks, written to a flash device block by block and
  verified. The device behind \<open>open\<close>, \<open>ioctl\<close>, \<open>lseek\<close>, \<open>write\<close> and \<open>read\<close> is the record
  \<open>raw_services\<close> on a state \<open>'d\<close>; \<open>write\<close> and \<open>read\<close> count in blocks. The optional MAC address
  check of the NAND and the delays of one chip package are left out.
\<close>

record 'd raw_services =
  raw_open :: "string \<Rightarrow> 'd \<Rightarrow> (int \<times> 'd) option"
  raw_block_size :: "int \<Rightarrow> 'd \<Rightarrow> (int \<times> 32 word \<times> 'd) option"
  raw_gap_size :: "int \<Rightarrow> 'd \<Rightarrow> (int \<times> 32 word \<times> 'd) option"
  raw_lseek :: "int \<Rightarrow> 32 word \<Rightarrow> 'd \<Rightarrow> (int \<times> 'd) option"
  raw_write :: "int \<Rightarrow> block \<Rightarrow> 32 word \<Rightarrow> 'd \<Rightarrow> (int \<times> 'd) option"
  raw_read :: "int \<Rightarrow> block \<Rightarrow> 32 word \<Rightarrow> 'd \<Rightarrow> (int \<times> block \<times> 'd) option"
  raw_close :: "int \<Rightarrow> 'd \<Rightarrow> 'd option"

text \<open>\<open>ITH_ALIGN_UP\<close> aligns to powers of two.\<close>

definition ITH_ALIGN_UP :: "32 word \<Rightarrow> 32 word \<Rightarrow> 32 word" where
  "ITH_ALIGN_UP val al = (val + (al - 1)) AND NOT (al - 1)"

text \<open>
  The size of the next read: the first block of a NAND is four bytes longer. The second component
  is \<open>pos2\<close> afterwards. \<open>nand\<close> is whether the disk is a NAND.
\<close>

definition raw_readsize :: "bool \<Rightarrow> 32 word \<Rightarrow> int \<Rightarrow> 32 word \<Rightarrow> 32 word \<times> int" where
  "raw_readsize nand blocksize pos2 remainsize =
     (if pos2 = 0 \<and> nand
      then (if remainsize < blocksize + 4 then remainsize else blocksize + 4, pos2 + 1)
      else (if remainsize < blocksize then remainsize else blocksize, pos2))"

partial_function (option) raw_write_loop ::
  "'s ITCStreamOps \<Rightarrow> 'd raw_services \<Rightarrow> int \<Rightarrow> bool \<Rightarrow> 32 word \<Rightarrow> int \<Rightarrow> 32 word \<Rightarrow> block \<Rightarrow> 's \<Rightarrow> 'd
     \<Rightarrow> (int \<times> block \<times> 's \<times> 'd) option" where
  "raw_write_loop ops srv fd nand blocksize pos2 remainsize buf f d =
     (let (readsize, pos2) = raw_readsize nand blocksize pos2 remainsize
      in do { (size2, buf, f) \<leftarrow> Read ops f buf (sint readsize);
              if word_of_int size2 \<noteq> readsize then Some (149, buf, f, d)
              else if blocksize = 0 then None
              else let alignsize = ITH_ALIGN_UP readsize blocksize div blocksize in
                do { (size2, d) \<leftarrow> raw_write srv fd buf alignsize d;
                     if word_of_int size2 \<noteq> alignsize then Some (160, buf, f, d)
                     else let remainsize = remainsize - readsize in
                       if remainsize > 0
                       then raw_write_loop ops srv fd nand blocksize pos2 remainsize buf f d
                       else Some (0, buf, f, d) } })"

partial_function (option) raw_verify_loop ::
  "'s ITCStreamOps \<Rightarrow> 'd raw_services \<Rightarrow> int \<Rightarrow> bool \<Rightarrow> 32 word \<Rightarrow> int \<Rightarrow> 32 word \<Rightarrow> block \<Rightarrow> block
     \<Rightarrow> 's \<Rightarrow> 'd \<Rightarrow> (int \<times> 's \<times> 'd) option" where
  "raw_verify_loop ops srv fd nand blocksize pos2 remainsize buf buf2 f d =
     (let (readsize, pos2) = raw_readsize nand blocksize pos2 remainsize
      in do { (size2, buf, f) \<leftarrow> Read ops f buf (sint readsize);
              if word_of_int size2 \<noteq> readsize then Some (214, f, d)
              else if blocksize = 0 then None
              else let alignsize = ITH_ALIGN_UP readsize blocksize div blocksize in
                do { (size2, buf2, d) \<leftarrow> raw_read srv fd buf2 alignsize d;
                     if word_of_int size2 \<noteq> alignsize then Some (224, f, d)
                     else do {
                       bs \<leftarrow> peek buf 0 (uint readsize);
                       bs2 \<leftarrow> peek buf2 0 (uint readsize);
                       if bs \<noteq> bs2 then Some (232, f, d)
                       else let remainsize = remainsize - readsize in
                         if remainsize > 0
                         then raw_verify_loop ops srv fd nand blocksize pos2 remainsize buf buf2 f d
                         else Some (0, f, d) } } })"

text \<open>From the first \<open>lseek\<close> to the end of the verification, with the buffer allocated.\<close>

definition raw_transfer ::
  "ug_cfg \<Rightarrow> 's ITCStreamOps \<Rightarrow> 'd raw_services \<Rightarrow> int \<Rightarrow> ITPDisk \<Rightarrow> 32 word \<Rightarrow> 32 word \<Rightarrow> 32 word
     \<Rightarrow> 32 word \<Rightarrow> block \<Rightarrow> 's \<Rightarrow> 'd \<Rightarrow> (int \<times> 's \<times> 'd) option" where
  "raw_transfer cfg ops srv fd disk blocksize filesize bufsize blkpos buf f d =
     do { (pos2, d) \<leftarrow> raw_lseek srv fd blkpos d;
          if word_of_int pos2 \<noteq> blkpos then Some (124, f, d)
          else do {
            (ret, buf, f, d) \<leftarrow> raw_write_loop ops srv fd (disk = ITP_DISK_NAND) blocksize pos2 filesize buf f d;
            if ret \<noteq> 0 then Some (ret, f, d)
            else do {
              (pos2, d) \<leftarrow> raw_lseek srv fd blkpos d;
              if word_of_int pos2 \<noteq> blkpos then Some (177, f, d)
              else case ug_malloc cfg (uint bufsize) of None \<Rightarrow> Some (185, f, d)
                | Some buf2 \<Rightarrow>
                    do { (r, f) \<leftarrow> Seek ops f (- sint filesize) SEEK_CUR;
                         if r \<noteq> 0 then Some (192, f, d)
                         else raw_verify_loop ops srv fd (disk = ITP_DISK_NAND) blocksize pos2 filesize buf buf2 f d } } } }"

text \<open>With the device open: its block and gap sizes, the buffer, the position in blocks.\<close>

definition raw_device ::
  "ug_cfg \<Rightarrow> 's ITCStreamOps \<Rightarrow> 'd raw_services \<Rightarrow> int \<Rightarrow> ITPDisk \<Rightarrow> 32 word \<Rightarrow> 32 word \<Rightarrow> 's \<Rightarrow> 'd
     \<Rightarrow> (int \<times> 's \<times> 'd) option" where
  "raw_device cfg ops srv fd disk position filesize f d =
     do { (r, blocksize, d) \<leftarrow> raw_block_size srv fd d;
          if r \<noteq> 0 then Some (89, f, d)
          else do {
            (r, gapsize, d) \<leftarrow> raw_gap_size srv fd d;
            if r \<noteq> 0 then Some (96, f, d)
            else
              let alignsize = ITH_ALIGN_UP filesize (blocksize + gapsize);
                  bufsize = (if word_of_int (buf_size cfg) < alignsize then word_of_int (buf_size cfg)
                             else alignsize)
              in case ug_malloc cfg (uint bufsize) of None \<Rightarrow> Some (109, f, d)
                 | Some buf \<Rightarrow>
                     if blocksize + gapsize = 0 then None
                     else raw_transfer cfg ops srv fd disk blocksize filesize bufsize
                            (position div (blocksize + gapsize)) buf f d } }"

text \<open>The name under which the device of a disk is opened.\<close>

definition raw_disk_name :: "ITPDisk \<Rightarrow> string option" where
  "raw_disk_name disk =
     (if disk = ITP_DISK_NAND then Some '':nand'' else if disk = ITP_DISK_NOR then Some '':nor''
      else if disk = ITP_DISK_SD0 then Some '':sd:0'' else if disk = ITP_DISK_SD1 then Some '':sd:1'' else None)"

definition ugUpgradeRawData ::
  "ug_cfg \<Rightarrow> 's ITCStreamOps \<Rightarrow> 'd raw_services \<Rightarrow> 's \<Rightarrow> 'd \<Rightarrow> ITPDisk \<Rightarrow> (int \<times> 's \<times> 'd) option" where
  "ugUpgradeRawData cfg ops srv f d disk =
     do { (readsize, hdr, f) \<leftarrow> Read ops f (replicate 8 0) 8;
          if (word_of_int readsize :: 32 word) \<noteq> 8 then Some (30, f, d)
          else case raw_disk_name disk of None \<Rightarrow> Some (-1, f, d)
            | Some name \<Rightarrow>
                do { (fd, d) \<leftarrow> raw_open srv name d;
                     if fd = -1 then Some (-1, f, d)
                     else do { (ret, f, d) \<leftarrow> raw_device cfg ops srv fd disk (itpLetoh32 (take 4 hdr))
                                               (itpLetoh32 (take 4 (drop 4 hdr))) f d;
                               d \<leftarrow> raw_close srv fd d;
                               Some (ret, f, d) } } }"

end
