(* ===== verification/Itp_Posix.thy ===== *)
theory Itp_Posix
  imports Ug_RawData
begin

text \<open>
  The device layer under \<open>open\<close>, \<open>read\<close>, \<open>write\<close>, \<open>lseek\<close>, \<open>ioctl\<close> and \<open>close\<close>:
  \<open>sdk/driver/itp/itp_posix_openrtos.c\<close> with the device table of \<open>itp_base.c\<close>. A device works on the state
  \<open>'w\<close> of all devices; \<open>info\<close> and the flags and mode of \<open>open\<close> are left out. A handle has the
  number of the device in its second byte and the file of the device in its first; \<open>errno\<close> is left out.
  The standard handles have no device of their own (number 0).
\<close>

unbundle bit_operations_syntax

record 'w ITPDevice =
  dev_name :: string
  dev_open :: "string option \<Rightarrow> 'w \<Rightarrow> int \<times> 'w"
  dev_close :: "int \<Rightarrow> 'w \<Rightarrow> int \<times> 'w"
  dev_read :: "int \<Rightarrow> block \<Rightarrow> 32 word \<Rightarrow> 'w \<Rightarrow> (int \<times> block \<times> 'w) option"
  dev_write :: "int \<Rightarrow> block \<Rightarrow> 32 word \<Rightarrow> 'w \<Rightarrow> (int \<times> 'w) option"
  dev_lseek :: "int \<Rightarrow> 32 word \<Rightarrow> seek_origin \<Rightarrow> 'w \<Rightarrow> (int \<times> 'w) option"
  dev_ioctl :: "int \<Rightarrow> nat \<Rightarrow> 'w \<Rightarrow> int \<times> 32 word option \<times> 'w"

definition ITP_DEVICE_BIT :: nat where "ITP_DEVICE_BIT = 8"
definition ITP_DEVICE_MASK :: int where "ITP_DEVICE_MASK = push_bit ITP_DEVICE_BIT 0xFF"
definition ITP_FILE_MASK :: int where "ITP_FILE_MASK = 0xFF"
definition ITP_DEVICE_SOCKET :: nat where "ITP_DEVICE_SOCKET = 1"
definition ITP_DEVICE_CUSTOM :: nat where "ITP_DEVICE_CUSTOM = 4"
definition ITP_DEVICE_NOR :: nat where "ITP_DEVICE_NOR = 17"
definition ITP_DEVICE_SD0 :: nat where "ITP_DEVICE_SD0 = 18"
definition ITP_DEVICE_SD1 :: nat where "ITP_DEVICE_SD1 = 19"
definition ITP_DEVICE_MAX :: nat where "ITP_DEVICE_MAX = 66"

definition ITP_IOCTL_INIT :: nat where "ITP_IOCTL_INIT = 1"
definition ITP_IOCTL_GET_BLOCK_SIZE :: nat where "ITP_IOCTL_GET_BLOCK_SIZE = 25"
definition ITP_IOCTL_FLUSH :: nat where "ITP_IOCTL_FLUSH = 35"
definition ITP_IOCTL_GET_GAP_SIZE :: nat where "ITP_IOCTL_GET_GAP_SIZE = 39"

text \<open>A device that works on a part of the state, as \<open>info\<close> points to.\<close>

definition dev_part :: "('w \<Rightarrow> 's) \<Rightarrow> ('s \<Rightarrow> 'w \<Rightarrow> 'w) \<Rightarrow> 's ITPDevice \<Rightarrow> 'w ITPDevice" where
  "dev_part info put dev =
     \<lparr>dev_name = dev_name dev,
      dev_open = (\<lambda>name w. let (r, s) = dev_open dev name (info w) in (r, put s w)),
      dev_close = (\<lambda>file w. let (r, s) = dev_close dev file (info w) in (r, put s w)),
      dev_read = (\<lambda>file ptr len w. do { (r, ptr, s) \<leftarrow> dev_read dev file ptr len (info w); Some (r, ptr, put s w) }),
      dev_write = (\<lambda>file ptr len w. do { (r, s) \<leftarrow> dev_write dev file ptr len (info w); Some (r, put s w) }),
      dev_lseek = (\<lambda>file ptr dir w. do { (r, s) \<leftarrow> dev_lseek dev file ptr dir (info w); Some (r, put s w) }),
      dev_ioctl = (\<lambda>file request w. let (r, v, s) = dev_ioctl dev file request (info w) in (r, v, put s w))\<rparr>"

type_synonym 'w device_table = "nat \<Rightarrow> 'w ITPDevice option"

subsection \<open>The device table\<close>

definition itpRegisterDevice :: "nat \<Rightarrow> 'w ITPDevice \<Rightarrow> 'w device_table \<Rightarrow> 'w device_table" where
  "itpRegisterDevice index device table = (if index < ITP_DEVICE_MAX then table(index \<mapsto> device) else table)"

definition itpOpenDefault :: "string option \<Rightarrow> 'w \<Rightarrow> int \<times> 'w" where "itpOpenDefault name w = (-1, w)"
definition itpCloseDefault :: "int \<Rightarrow> 'w \<Rightarrow> int \<times> 'w" where "itpCloseDefault file w = (-1, w)"
definition itpReadDefault :: "int \<Rightarrow> block \<Rightarrow> 32 word \<Rightarrow> 'w \<Rightarrow> (int \<times> block \<times> 'w) option" where
  "itpReadDefault file ptr len w = Some (0, ptr, w)"
definition itpWriteDefault :: "int \<Rightarrow> block \<Rightarrow> 32 word \<Rightarrow> 'w \<Rightarrow> (int \<times> 'w) option" where
  "itpWriteDefault file ptr len w = Some (sint len, w)"
definition itpLseekDefault :: "int \<Rightarrow> 32 word \<Rightarrow> seek_origin \<Rightarrow> 'w \<Rightarrow> (int \<times> 'w) option" where
  "itpLseekDefault file ptr dir w = Some (0, w)"
definition itpIoctlDefault :: "int \<Rightarrow> nat \<Rightarrow> 'w \<Rightarrow> int \<times> 32 word option \<times> 'w" where
  "itpIoctlDefault file request w = (0, None, w)"

subsection \<open>Opening\<close>

text \<open>
  The first device from \<open>ITP_DEVICE_CUSTOM\<close> on whose name agrees with the one asked for up to the second colon
  of the latter. A name without a second colon leaves a pointer to nowhere for the device.
\<close>

definition posix_names :: "'w device_table \<Rightarrow> string \<Rightarrow> nat \<Rightarrow> bool" where
  "posix_names table prefix i =
     (case table i of None \<Rightarrow> False | Some dev \<Rightarrow> take (length prefix) (dev_name dev) = prefix)"

definition posix_open_custom :: "'w device_table \<Rightarrow> string \<Rightarrow> 'w \<Rightarrow> int \<times> 'w" where
  "posix_open_custom table name w =
     (let rest = dropWhile (\<lambda>c. c \<noteq> CHR '':'') (tl name);
          subname = (if rest = [] then None else Some (tl rest));
          prefix = take (length name - length rest) name
      in case List.find (posix_names table prefix) [ITP_DEVICE_CUSTOM..<ITP_DEVICE_MAX] of None \<Rightarrow> (-1, w)
         | Some i \<Rightarrow>
             let (subfile, w) = dev_open (the (table i)) subname w
             in if subfile = -1 then (-1, w) else (push_bit ITP_DEVICE_BIT (int i) OR subfile, w))"

text \<open>
  A path belongs to the drive of its letter, or to the current one of the thread. \<open>device_index\<close> is the
  number of a drive's device.
\<close>

definition device_index :: "ITPDeviceType \<Rightarrow> nat" where
  "device_index dt = (case dt of ITP_DEVICE_FAT \<Rightarrow> 2 | ITP_DEVICE_NTFS \<Rightarrow> 3 | ITP_DEVICE_NONE \<Rightarrow> 0)"

definition toupper :: "char \<Rightarrow> nat" where
  "toupper c = (if c \<in> set ''abcdefghijklmnopqrstuvwxyz'' then of_char c - 32 else of_char c)"

definition path_drive :: "ITPDriveStatus list \<Rightarrow> nat \<Rightarrow> string \<Rightarrow> ITPDriveStatus option" where
  "path_drive driveStatusTable volume path =
     (case path of [] \<Rightarrow> None
      | c # cs \<Rightarrow>
          if cs \<noteq> [] \<and> hd cs = CHR '':''
          then if 65 \<le> toupper c \<and> toupper c - 65 < length driveStatusTable
               then Some (driveStatusTable ! (toupper c - 65)) else None
          else if volume < length driveStatusTable then Some (driveStatusTable ! volume) else None)"

definition posix_open ::
  "'w device_table \<Rightarrow> ('w \<Rightarrow> ITPDriveStatus list) \<Rightarrow> nat \<Rightarrow> string \<Rightarrow> 'w \<Rightarrow> (int \<times> 'w) option" where
  "posix_open table drvs volume name w =
     (case name of [] \<Rightarrow> None
      | c # _ \<Rightarrow>
          if c = CHR '':'' then Some (posix_open_custom table name w)
          else do { st \<leftarrow> path_drive (drvs w) volume name;
                    if avail st
                    then case table (device_index (dr_device st)) of None \<Rightarrow> Some (-1, w)
                      | Some dev \<Rightarrow>
                          let (subfile, w) = dev_open dev (Some name) w
                          in Some (if subfile \<noteq> -1
                                   then (push_bit ITP_DEVICE_BIT (int (device_index (dr_device st))) OR subfile, w)
                                   else (-1, w))
                    else Some (-1, w) })"

subsection \<open>Handles\<close>

text \<open>The table has \<open>ITP_DEVICE_MAX\<close> entries; a handle with a larger number reads past it.\<close>

definition handle_device :: "'w device_table \<Rightarrow> int \<Rightarrow> 'w ITPDevice option option" where
  "handle_device table file =
     (let i = nat (drop_bit ITP_DEVICE_BIT (file AND ITP_DEVICE_MASK))
      in if i < ITP_DEVICE_MAX then Some (table i) else None)"

definition posix_close :: "'w device_table \<Rightarrow> int \<Rightarrow> 'w \<Rightarrow> (int \<times> 'w) option" where
  "posix_close table file w =
     (if file < 0 then Some (-1, w)
      else if file \<le> 2 then Some (0, w)
      else do { dev \<leftarrow> (if file AND ITP_DEVICE_MASK = 0 then Some (table ITP_DEVICE_SOCKET) else handle_device table file);
                case dev of None \<Rightarrow> Some (-1, w) | Some dev \<Rightarrow> Some (dev_close dev (file AND ITP_FILE_MASK) w) })"

definition posix_read :: "'w device_table \<Rightarrow> int \<Rightarrow> block \<Rightarrow> 32 word \<Rightarrow> 'w \<Rightarrow> (int \<times> block \<times> 'w) option" where
  "posix_read table file ptr len w =
     (if file < 0 then Some (-1, ptr, w)
      else do { dev \<leftarrow> handle_device table file;
                case dev of None \<Rightarrow> Some (-1, ptr, w) | Some dev \<Rightarrow> dev_read dev (file AND ITP_FILE_MASK) ptr len w })"

definition posix_write :: "'w device_table \<Rightarrow> int \<Rightarrow> block \<Rightarrow> 32 word \<Rightarrow> 'w \<Rightarrow> (int \<times> 'w) option" where
  "posix_write table file ptr len w =
     (if file < 0 then Some (-1, w)
      else do { dev \<leftarrow> handle_device table file;
                case dev of None \<Rightarrow> Some (-1, w) | Some dev \<Rightarrow> dev_write dev (file AND ITP_FILE_MASK) ptr len w })"

definition posix_lseek :: "'w device_table \<Rightarrow> int \<Rightarrow> 32 word \<Rightarrow> seek_origin \<Rightarrow> 'w \<Rightarrow> (int \<times> 'w) option" where
  "posix_lseek table file ptr dir w =
     (if file < 0 then Some (-1, w)
      else do { dev \<leftarrow> handle_device table file;
                case dev of None \<Rightarrow> Some (-1, w) | Some dev \<Rightarrow> dev_lseek dev (file AND ITP_FILE_MASK) ptr dir w })"

definition posix_ioctl :: "'w device_table \<Rightarrow> int \<Rightarrow> nat \<Rightarrow> 'w \<Rightarrow> (int \<times> 32 word option \<times> 'w) option" where
  "posix_ioctl table file request w =
     (if file < 0 then Some (-1, None, w)
      else do { dev \<leftarrow> (if file AND ITP_DEVICE_MASK = 0 then Some (table ITP_DEVICE_SOCKET) else handle_device table file);
                case dev of None \<Rightarrow> Some (-1, None, w) | Some dev \<Rightarrow> Some (dev_ioctl dev (file AND ITP_FILE_MASK) request w) })"

end
