(* ===== verification/Nor_Chip.thy ===== *)
theory Nor_Chip
  imports CB_Prelude
begin

text \<open>
  The driver of the serial NOR flash, \<open>sdk/driver/nor/it9850/nor.c\<close>, from the commands on the bus to
  \<open>NorRead\<close> and \<open>NorWrite\<close>. The bus is a parameter: \<open>mmpSpiPioWrite\<close> and \<open>mmpSpiDmaWrite\<close> send command
  bytes and data, \<open>mmpSpiPioRead\<close> and \<open>mmpSpiDmaRead\<close> send command bytes and receive data; the two
  transports and their word sizes are not told apart. \<open>uint32_t\<close> values are natural numbers with the
  wrap-around written out. The mutexes around the operations and the messages are left out.
\<close>

record NOR_ADDR_CONTEXT =
  bytesPerPage :: nat
  pagesPerSector_N :: nat
  bytesPerSector :: nat
  sectorsPerBlock_N :: nat
  totalBlocks :: nat
  use4BytesAddress :: bool

datatype FLASH_CMD_TYPE = READ | FAST_READ | READ_ID | READ_STATUS | WRITE_EN | WRITE_DIS | WRITE | WRITE_MULTI
  | AUTO_WRITE | AUTO_WRITE_DATA_ONLY | WRITE_STATUS | WRITE_STATUS_EN | ERASE_SECTOR | ERASE_BLOCK | ERASE_ALL
  | READ_DEVICE | EN4B_MODE | EX4B_MODE

record 'c spi_bus =
  spi_write :: "block \<Rightarrow> block \<Rightarrow> 'c \<Rightarrow> bool \<times> 'c"
  spi_read :: "block \<Rightarrow> nat \<Rightarrow> 'c \<Rightarrow> bool \<times> block \<times> 'c"

abbreviation u32_add :: "nat \<Rightarrow> nat \<Rightarrow> nat" where "u32_add a b \<equiv> (a + b) mod 2 ^ 32"
abbreviation u32_mul :: "nat \<Rightarrow> nat \<Rightarrow> nat" where "u32_mul a b \<equiv> (a * b) mod 2 ^ 32"
abbreviation u32_sub :: "nat \<Rightarrow> nat \<Rightarrow> nat" where "u32_sub a b \<equiv> (a + (2 ^ 32 - b)) mod 2 ^ 32"

subsection \<open>Commands\<close>

text \<open>A command with an address: the opcodes for three and four address bytes.\<close>

definition address_command :: "NOR_ADDR_CONTEXT \<Rightarrow> byte \<Rightarrow> byte \<Rightarrow> nat \<Rightarrow> block" where
  "address_command x cmd3 cmd4 arg =
     (if use4BytesAddress x
      then [cmd4, of_nat (arg div 2 ^ 24), of_nat (arg div 2 ^ 16), of_nat (arg div 2 ^ 8), of_nat arg]
      else [cmd3, of_nat (arg div 2 ^ 16), of_nat (arg div 2 ^ 8), of_nat arg])"

text \<open>
  The data to send is \<open>out\<close>, the number of bytes to receive \<open>n\<close>; the bytes received are returned. Where the
  code leaves its buffer alone they are \<open>[]\<close>. \<open>EN4B_MODE\<close> is sent as the number of the enumeration.
\<close>

definition norSendCommand ::
  "'c spi_bus \<Rightarrow> NOR_ADDR_CONTEXT \<Rightarrow> FLASH_CMD_TYPE \<Rightarrow> nat \<Rightarrow> block \<Rightarrow> nat \<Rightarrow> 'c \<Rightarrow> bool \<times> block \<times> 'c" where
  "norSendCommand bus x cmdType arg out n c =
     (let snd_cmd = (\<lambda>cs bs. let (r, c) = spi_write bus cs bs c in (r, [], c))
      in case cmdType of
           ERASE_ALL \<Rightarrow> snd_cmd [0xC7] []
         | WRITE_EN \<Rightarrow> snd_cmd [0x06] []
         | WRITE_DIS \<Rightarrow> snd_cmd [0x04] []
         | WRITE_STATUS_EN \<Rightarrow> snd_cmd [0x50] []
         | WRITE_STATUS \<Rightarrow> snd_cmd [0x01, of_nat arg] []
         | ERASE_SECTOR \<Rightarrow> snd_cmd (address_command x 0x20 0x21 arg) []
         | ERASE_BLOCK \<Rightarrow> snd_cmd (address_command x 0xD8 0xDC arg) []
         | WRITE \<Rightarrow> snd_cmd (address_command x 0x02 0x12 arg) out
         | READ \<Rightarrow> spi_read bus (address_command x 0x03 0x13 arg) n c
         | FAST_READ \<Rightarrow> spi_read bus (address_command x 0x0B 0x0C arg) n c
         | READ_STATUS \<Rightarrow> let (_, bs, c) = spi_read bus [0x05] 1 c in (True, bs, c)
         | READ_ID \<Rightarrow> spi_read bus [0x9F] 5 c
         | READ_DEVICE \<Rightarrow> spi_read bus [0x90, of_nat (arg div 2 ^ 16), of_nat (arg div 2 ^ 8), of_nat arg] 2 c
         | EN4B_MODE \<Rightarrow> snd_cmd [16] []
         | _ \<Rightarrow> (True, [], c))"

definition SSP_POLLING_COUNT :: nat where "SSP_POLLING_COUNT = 0x100000"
definition NOR_DEVICE_READY :: nat where "NOR_DEVICE_READY = 0"
definition NOR_ERROR_DEVICE_TIMEOUT :: nat where "NOR_ERROR_DEVICE_TIMEOUT = 2"

text \<open>The loop of \<open>norWaitReady\<close>; \<open>value\<close> keeps the status when nothing is received.\<close>

primrec wait_loop :: "'c spi_bus \<Rightarrow> NOR_ADDR_CONTEXT \<Rightarrow> nat \<Rightarrow> byte \<Rightarrow> 'c \<Rightarrow> nat \<times> 'c" where
  "wait_loop bus x 0 value c =
     (let (_, bs, c) = norSendCommand bus x READ_STATUS 0 [] 1 c;
          value = (case bs of [] \<Rightarrow> value | b # _ \<Rightarrow> b)
      in if value AND 1 \<noteq> 0 then (NOR_ERROR_DEVICE_TIMEOUT, c) else (NOR_DEVICE_READY, c))"
| "wait_loop bus x (Suc timeOut) value c =
     (let (_, bs, c) = norSendCommand bus x READ_STATUS 0 [] 1 c;
          value = (case bs of [] \<Rightarrow> value | b # _ \<Rightarrow> b)
      in if value AND 1 \<noteq> 0 then wait_loop bus x timeOut value c else (NOR_DEVICE_READY, c))"

definition norWaitReady :: "'c spi_bus \<Rightarrow> NOR_ADDR_CONTEXT \<Rightarrow> 'c \<Rightarrow> nat \<times> 'c" where
  "norWaitReady bus x c = wait_loop bus x SSP_POLLING_COUNT 0 c"

definition norErase :: "'c spi_bus \<Rightarrow> NOR_ADDR_CONTEXT \<Rightarrow> nat \<Rightarrow> 'c \<Rightarrow> bool \<times> 'c" where
  "norErase bus x address c =
     (let (ok, _, c) = norSendCommand bus x WRITE_EN 0 [] 0 c;
          (result, c) = (if \<not> ok then (False, c)
            else let (ok, _, c) = norSendCommand bus x ERASE_BLOCK address [] 0 c in (ok, c));
          (st, c) = norWaitReady bus x c
      in (if st \<noteq> 0 then False else result, c))"

definition norEnableWrite :: "'c spi_bus \<Rightarrow> NOR_ADDR_CONTEXT \<Rightarrow> 'c \<Rightarrow> bool \<times> 'c" where
  "norEnableWrite bus x c =
     (let (ok, _, c) = norSendCommand bus x WRITE_EN 0 [] 0 c
      in if \<not> ok then (False, c)
         else let (ok, _, c) = norSendCommand bus x WRITE_STATUS 0 [] 0 c
           in if \<not> ok then (False, c)
              else let (st, c) = norWaitReady bus x c
                in if st \<noteq> 0 then (False, c)
                   else let (ok, bs, c) = norSendCommand bus x READ_STATUS 0 [] 1 c;
                            readStatus = (case bs of [] \<Rightarrow> 0 | b # _ \<Rightarrow> b)
                     in (ok \<and> readStatus AND 0x1C = 0, c))"

definition norDisableWrite :: "'c spi_bus \<Rightarrow> NOR_ADDR_CONTEXT \<Rightarrow> 'c \<Rightarrow> bool \<times> 'c" where
  "norDisableWrite bus x c =
     (let (ok, _, c) = norSendCommand bus x WRITE_DIS 0 [] 0 c
      in if \<not> ok then (False, c) else let (st, c) = norWaitReady bus x c in (st = 0, c))"

text \<open>The loop of \<open>norWrite\<close>: a failed wait is remembered and the loop goes on.\<close>

function write_chunks :: "'c spi_bus \<Rightarrow> NOR_ADDR_CONTEXT \<Rightarrow> nat \<Rightarrow> block \<Rightarrow> bool \<Rightarrow> 'c \<Rightarrow> bool \<times> 'c" where
  "write_chunks bus x address inData result c =
     (if inData = [] then (result, c)
      else let chunkSize = (if length inData \<ge> 256 then 256 else length inData);
               (ok, _, c) = norSendCommand bus x WRITE_EN 0 [] 0 c
        in if \<not> ok then (False, c)
           else let (ok, _, c) = norSendCommand bus x WRITE address (take chunkSize inData) chunkSize c
             in if \<not> ok then (False, c)
                else let (st, c) = norWaitReady bus x c
                  in write_chunks bus x (u32_add address chunkSize) (drop chunkSize inData)
                       (if st \<noteq> 0 then False else result) c)"
  by pat_completeness auto
termination by (relation "measure (\<lambda>(bus, x, address, inData, result, c). length inData)") auto

declare write_chunks.simps [simp del]

definition norWrite :: "'c spi_bus \<Rightarrow> NOR_ADDR_CONTEXT \<Rightarrow> nat \<Rightarrow> block \<Rightarrow> 'c \<Rightarrow> bool \<times> 'c" where
  "norWrite bus x address inData c = write_chunks bus x address inData True c"

text \<open>
  The loop of \<open>norRead\<close> takes one byte less than a sector at a time and does not end when a sector has a
  single byte. \<open>acc\<close> is what was received so far.
\<close>

partial_function (option) read_chunks ::
  "'c spi_bus \<Rightarrow> NOR_ADDR_CONTEXT \<Rightarrow> nat \<Rightarrow> nat \<Rightarrow> block \<Rightarrow> 'c \<Rightarrow> (bool \<times> block \<times> 'c) option" where
  "read_chunks bus x address n acc c =
     (if n = 0 then Some (True, acc, c)
      else let m = u32_sub (bytesPerSector x) 1; chunkSize = (if n \<ge> m then m else n);
               (ok, bs, c) = norSendCommand bus x READ address [] chunkSize c
        in if ok then read_chunks bus x (u32_add address chunkSize) (u32_sub n chunkSize) (acc @ bs) c
           else Some (False, acc, c))"

definition norRead :: "'c spi_bus \<Rightarrow> NOR_ADDR_CONTEXT \<Rightarrow> nat \<Rightarrow> nat \<Rightarrow> 'c \<Rightarrow> (bool \<times> block \<times> 'c) option" where
  "norRead bus x address n c = read_chunks bus x address n [] c"

text \<open>\<open>alloc\<close> is \<open>itpVmemAlloc\<close>. The result of reading the old content is not looked at.\<close>

definition norUpdate ::
  "(nat \<Rightarrow> block option) \<Rightarrow> 'c spi_bus \<Rightarrow> NOR_ADDR_CONTEXT \<Rightarrow> nat \<Rightarrow> block \<Rightarrow> 'c \<Rightarrow> (bool \<times> 'c) option" where
  "norUpdate alloc bus x address inData c =
     (if bytesPerSector x = 0 then None
      else let blockStartAddress = u32_mul (address div bytesPerSector x) (bytesPerSector x)
        in if blockStartAddress = address
           then let (ok, c) = norErase bus x blockStartAddress c
             in if \<not> ok then Some (False, c) else Some (norWrite bus x address inData c)
           else case alloc (bytesPerSector x) of None \<Rightarrow> Some (False, c)
             | Some readBackBuffer \<Rightarrow>
                 do { (_, bs, c) \<leftarrow> norRead bus x blockStartAddress (bytesPerSector x) c;
                      readBackBuffer \<leftarrow> poke readBackBuffer 0 bs;
                      readBackBuffer \<leftarrow> poke readBackBuffer (int (u32_sub address blockStartAddress)) inData;
                      let (ok, c) = norErase bus x blockStartAddress c
                      in if \<not> ok then Some (False, c)
                         else Some (norWrite bus x blockStartAddress readBackBuffer c) })"

subsection \<open>Reading and writing\<close>

definition NorGetCapacity :: "NOR_ADDR_CONTEXT \<Rightarrow> nat" where
  "NorGetCapacity x = u32_mul (u32_mul (bytesPerSector x) (sectorsPerBlock_N x)) (totalBlocks x)"

definition NorRead ::
  "'c spi_bus \<Rightarrow> NOR_ADDR_CONTEXT \<Rightarrow> nat \<Rightarrow> nat \<Rightarrow> 'c \<Rightarrow> (nat \<times> block \<times> 'c) option" where
  "NorRead bus x address n c =
     (if u32_add address n > NorGetCapacity x then Some (1, [], c)
      else do { (ok, bs, c) \<leftarrow> norRead bus x address n c; Some (if ok then 0 else 1, bs, c) })"

text \<open>The loop over the blocks to program; \<open>inData\<close> is what \<open>currDataPtr\<close> points to.\<close>

function program_blocks ::
  "(nat \<Rightarrow> block option) \<Rightarrow> 'c spi_bus \<Rightarrow> NOR_ADDR_CONTEXT \<Rightarrow> nat \<Rightarrow> nat \<Rightarrow> nat \<Rightarrow> nat \<Rightarrow> nat \<Rightarrow> block \<Rightarrow> 'c
     \<Rightarrow> (bool \<times> 'c) option" where
  "program_blocks alloc bus x headSize tailSize programBlockCount i currNorAddress inData c =
     (if i < programBlockCount
      then let n = (if i = 0 then headSize else if i = programBlockCount - 1 then tailSize
                    else u32_mul (bytesPerSector x) (sectorsPerBlock_N x))
        in do { bs \<leftarrow> peek inData 0 (int n);
                (ok, c) \<leftarrow> norUpdate alloc bus x currNorAddress bs c;
                if \<not> ok then Some (False, c)
                else program_blocks alloc bus x headSize tailSize programBlockCount (Suc i)
                       (u32_add currNorAddress n) (drop n inData) c }
      else Some (True, c))"
  by pat_completeness auto
termination
  by (relation "measure (\<lambda>(alloc, bus, x, headSize, tailSize, programBlockCount, i, currNorAddress, inData, c).
    programBlockCount - i)") auto

declare program_blocks.simps [simp del]

definition NorWrite ::
  "(nat \<Rightarrow> block option) \<Rightarrow> 'c spi_bus \<Rightarrow> NOR_ADDR_CONTEXT \<Rightarrow> nat \<Rightarrow> block \<Rightarrow> 'c \<Rightarrow> (nat \<times> 'c) option" where
  "NorWrite alloc bus x address inData c =
     (let n = length inData; blk = u32_mul (bytesPerSector x) (sectorsPerBlock_N x)
      in if n = 0 then Some (1, c)
         else if u32_add address n > NorGetCapacity x then Some (1, c)
         else if blk = 0 then None
         else
           let headBlockStart = u32_mul (address div blk) blk;
               headBlockEnd = u32_add headBlockStart blk;
               tailBlockStart = u32_mul (u32_sub (u32_add address n) 1 div blk) blk;
               tailBlockEnd = (if u32_add address n = tailBlockStart then tailBlockStart else u32_add tailBlockStart blk);
               tailBlockAddrOffset = u32_sub (u32_add address n) tailBlockStart;
               programBlockCount = u32_sub tailBlockEnd headBlockStart div blk;
               (ok, c) = norEnableWrite bus x c
           in if \<not> ok then Some (1, c)
              else if programBlockCount > 1
              then do { (result, c) \<leftarrow> program_blocks alloc bus x (u32_sub headBlockEnd address) tailBlockAddrOffset
                                         programBlockCount 0 address inData c;
                        let (ok, c) = norDisableWrite bus x c
                        in Some (if ok \<and> result then 0 else 1, c) }
              else do { (ok, c) \<leftarrow> norUpdate alloc bus x address inData c;
                        if \<not> ok then Some (1, c)
                        else let (ok, c) = norDisableWrite bus x c in Some (if ok then 0 else 1, c) })"

definition NorWriteWithoutErase ::
  "'c spi_bus \<Rightarrow> NOR_ADDR_CONTEXT \<Rightarrow> nat \<Rightarrow> block \<Rightarrow> 'c \<Rightarrow> nat \<times> 'c" where
  "NorWriteWithoutErase bus x address inData c =
     (if u32_add address (length inData) > NorGetCapacity x then (1, c)
      else if address mod 256 \<noteq> 0 then (1, c)
      else let (ok, c) = norEnableWrite bus x c
        in if \<not> ok then (1, c)
           else let (ok, c) = norWrite bus x address inData c
             in if \<not> ok then (1, c)
                else let (ok, c) = norDisableWrite bus x c in (if ok then 0 else 1, c))"

text \<open>The loop of \<open>NorErase\<close>.\<close>

primrec erase_blocks :: "'c spi_bus \<Rightarrow> NOR_ADDR_CONTEXT \<Rightarrow> nat \<Rightarrow> nat \<Rightarrow> 'c \<Rightarrow> bool \<times> 'c" where
  "erase_blocks bus x 0 address c = (True, c)"
| "erase_blocks bus x (Suc n) address c =
     (let (ok, c) = norErase bus x address c
      in if \<not> ok then (False, c) else erase_blocks bus x n (u32_add address (bytesPerSector x)) c)"

definition NorErase :: "'c spi_bus \<Rightarrow> NOR_ADDR_CONTEXT \<Rightarrow> nat \<Rightarrow> nat \<Rightarrow> 'c \<Rightarrow> (bool \<times> 'c) option" where
  "NorErase bus x address eraseLength c =
     (if bytesPerSector x = 0 then None
      else
        let bps = bytesPerSector x;
            headBlockStart = u32_mul (address div bps) bps;
            tailBlockStart = u32_mul (u32_sub (u32_add address eraseLength) 1 div bps) bps;
            tailBlockEnd = (if u32_add address eraseLength = tailBlockStart then tailBlockStart else u32_add tailBlockStart bps);
            programBlockCount = u32_sub tailBlockEnd headBlockStart div bps;
            (ok, c) = norEnableWrite bus x c
        in if \<not> ok then Some (False, c)
           else let (result, c) = erase_blocks bus x programBlockCount headBlockStart c;
                    (ok, c) = norDisableWrite bus x c
             in Some (if \<not> ok then False else result, c))"

definition NorEraseAll :: "'c spi_bus \<Rightarrow> NOR_ADDR_CONTEXT \<Rightarrow> 'c \<Rightarrow> nat \<times> 'c" where
  "NorEraseAll bus x c =
     (let (ok, _, c) = norSendCommand bus x WRITE_EN 0 [] 0 c
      in if \<not> ok then (1, c)
         else let (ok, _, c) = norSendCommand bus x ERASE_ALL 0 [] 0 c
           in if \<not> ok then (1, c)
              else let (st, c) = norWaitReady bus x c;
                       (ok, _, c) = norSendCommand bus x WRITE_DIS 0 [] 0 c
                in (if \<not> ok \<or> st \<noteq> 0 then 1 else 0, c))"

end
