(* ===== verification/Nor_ChipProps.thy ===== *)
theory Nor_ChipProps
  imports Nor_Chip
begin

text \<open>
  The NOR flash driver on a chip that behaves as its data sheet says: what \<open>NorRead\<close> delivers and what
  \<open>NorWrite\<close> leaves in the flash.
\<close>

subsection \<open>The chip\<close>

text \<open>
  What can be observed of a chip: the number of status reads for which it is still busy, the write enable
  latch, the block protection, and the bytes. Commands are obeyed when the chip is not busy, erasing and
  programming only with the latch set and the protection off. Erasing sets all bytes of a block of \<open>eb\<close> bytes;
  programming clears bits within a page of 256 bytes; neither says how long the chip is busy then, except that
  it is no longer than the driver polls.
\<close>

record 'c chip_view =
  busy :: "'c \<Rightarrow> nat"
  wel :: "'c \<Rightarrow> bool"
  prot :: "'c \<Rightarrow> bool"
  mem :: "'c \<Rightarrow> nat \<Rightarrow> byte"

definition programmed :: "nat \<Rightarrow> block \<Rightarrow> (nat \<Rightarrow> byte) \<Rightarrow> nat \<Rightarrow> byte" where
  "programmed a bs m = (\<lambda>i. if a \<le> i \<and> i < a + length bs then m i AND bs ! (i - a) else m i)"

definition erased :: "nat \<Rightarrow> nat \<Rightarrow> (nat \<Rightarrow> byte) \<Rightarrow> nat \<Rightarrow> byte" where
  "erased eb a m = (\<lambda>i. if i div eb = a div eb then 0xFF else m i)"

definition flash_chip :: "'c spi_bus \<Rightarrow> NOR_ADDR_CONTEXT \<Rightarrow> nat \<Rightarrow> 'c chip_view \<Rightarrow> bool" where
  "flash_chip bus x eb v \<longleftrightarrow> (\<forall>c. busy v c \<le> SSP_POLLING_COUNT)
     \<and> (\<forall>c. \<exists>s c'. spi_read bus [0x05] 1 c = (True, [s], c') \<and> (s AND 1 \<noteq> 0 \<longleftrightarrow> 0 < busy v c)
          \<and> (\<not> prot v c \<longrightarrow> s AND 0x1C = 0) \<and> busy v c' = busy v c - 1 \<and> wel v c' = wel v c \<and> prot v c' = prot v c
          \<and> mem v c' = mem v c)
     \<and> (\<forall>c. busy v c = 0 \<longrightarrow> (\<exists>c'. spi_write bus [0x06] [] c = (True, c') \<and> busy v c' = 0 \<and> wel v c'
          \<and> prot v c' = prot v c \<and> mem v c' = mem v c))
     \<and> (\<forall>c. busy v c = 0 \<longrightarrow> (\<exists>c'. spi_write bus [0x04] [] c = (True, c') \<and> busy v c' = 0
          \<and> prot v c' = prot v c \<and> mem v c' = mem v c))
     \<and> (\<forall>c. busy v c = 0 \<and> wel v c \<longrightarrow> (\<exists>c'. spi_write bus [0x01, 0] [] c = (True, c') \<and> \<not> prot v c' \<and> mem v c' = mem v c))
     \<and> (\<forall>a c. busy v c = 0 \<and> wel v c \<and> \<not> prot v c \<and> a < NorGetCapacity x \<longrightarrow>
          (\<exists>c'. spi_write bus (address_command x 0xD8 0xDC a) [] c = (True, c') \<and> \<not> prot v c' \<and> mem v c' = erased eb a (mem v c)))
     \<and> (\<forall>a bs c. busy v c = 0 \<and> wel v c \<and> \<not> prot v c \<and> a mod 256 + length bs \<le> 256 \<and> a + length bs \<le> NorGetCapacity x \<longrightarrow>
          (\<exists>c'. spi_write bus (address_command x 0x02 0x12 a) bs c = (True, c') \<and> \<not> prot v c' \<and> mem v c' = programmed a bs (mem v c)))
     \<and> (\<forall>a n c. busy v c = 0 \<and> a + n \<le> NorGetCapacity x \<longrightarrow>
          (\<exists>c'. spi_read bus (address_command x 0x03 0x13 a) n c = (True, map (mem v c) [a..<a + n], c') \<and> busy v c' = 0
             \<and> prot v c' = prot v c \<and> mem v c' = mem v c))"

text \<open>
  The chips whose erase blocks are the sectors of the driver, with one sector to the block. The driver knows
  chips with 16 sectors to the block, too (lines 431 to 445 of \<open>nor.c\<close>), but there \<open>NorWrite\<close> hands
  \<open>norUpdate\<close> more bytes than its buffer of one sector holds.
\<close>

definition plain_geometry :: "NOR_ADDR_CONTEXT \<Rightarrow> nat \<Rightarrow> bool" where
  "plain_geometry x eb \<longleftrightarrow> bytesPerSector x = eb \<and> sectorsPerBlock_N x = 1 \<and> 256 dvd eb \<and> 0 < eb
     \<and> eb * totalBlocks x < 2 ^ 32"

lemma flash_chipD:
  assumes "flash_chip bus x eb v"
  shows "busy v c \<le> SSP_POLLING_COUNT"
    "\<exists>s c'. norSendCommand bus x READ_STATUS 0 [] 1 c = (True, [s], c') \<and> (s AND 1 \<noteq> 0 \<longleftrightarrow> 0 < busy v c)
       \<and> (\<not> prot v c \<longrightarrow> s AND 0x1C = 0) \<and> busy v c' = busy v c - 1 \<and> wel v c' = wel v c \<and> prot v c' = prot v c
       \<and> mem v c' = mem v c"
    "busy v c = 0 \<Longrightarrow> \<exists>c'. norSendCommand bus x WRITE_EN 0 [] 0 c = (True, [], c') \<and> busy v c' = 0 \<and> wel v c'
       \<and> prot v c' = prot v c \<and> mem v c' = mem v c"
    "busy v c = 0 \<Longrightarrow> \<exists>c'. norSendCommand bus x WRITE_DIS 0 [] 0 c = (True, [], c') \<and> busy v c' = 0
       \<and> prot v c' = prot v c \<and> mem v c' = mem v c"
    "busy v c = 0 \<Longrightarrow> wel v c \<Longrightarrow> \<exists>c'. norSendCommand bus x WRITE_STATUS 0 [] 0 c = (True, [], c') \<and> \<not> prot v c' \<and> mem v c' = mem v c"
    "busy v c = 0 \<Longrightarrow> wel v c \<Longrightarrow> \<not> prot v c \<Longrightarrow> a < NorGetCapacity x \<Longrightarrow>
       \<exists>c'. norSendCommand bus x ERASE_BLOCK a [] 0 c = (True, [], c') \<and> \<not> prot v c' \<and> mem v c' = erased eb a (mem v c)"
    "busy v c = 0 \<Longrightarrow> wel v c \<Longrightarrow> \<not> prot v c \<Longrightarrow> a mod 256 + length bs \<le> 256 \<Longrightarrow> a + length bs \<le> NorGetCapacity x \<Longrightarrow>
       \<exists>c'. norSendCommand bus x WRITE a bs k c = (True, [], c') \<and> \<not> prot v c' \<and> mem v c' = programmed a bs (mem v c)"
    "busy v c = 0 \<Longrightarrow> a + n \<le> NorGetCapacity x \<Longrightarrow>
       \<exists>c'. norSendCommand bus x READ a [] n c = (True, map (mem v c) [a..<a + n], c') \<and> busy v c' = 0
         \<and> prot v c' = prot v c \<and> mem v c' = mem v c"
proof -
  note C = assms [unfolded flash_chip_def]
  show "busy v c \<le> SSP_POLLING_COUNT" using C by blast
  have "\<exists>s c'. spi_read bus [0x05] 1 c = (True, [s], c') \<and> (s AND 1 \<noteq> 0 \<longleftrightarrow> 0 < busy v c)
       \<and> (\<not> prot v c \<longrightarrow> s AND 0x1C = 0) \<and> busy v c' = busy v c - 1 \<and> wel v c' = wel v c \<and> prot v c' = prot v c
       \<and> mem v c' = mem v c" using C by blast
  then show "\<exists>s c'. norSendCommand bus x READ_STATUS 0 [] 1 c = (True, [s], c') \<and> (s AND 1 \<noteq> 0 \<longleftrightarrow> 0 < busy v c)
       \<and> (\<not> prot v c \<longrightarrow> s AND 0x1C = 0) \<and> busy v c' = busy v c - 1 \<and> wel v c' = wel v c \<and> prot v c' = prot v c
       \<and> mem v c' = mem v c" by (auto simp: norSendCommand_def Let_def)
  {
    assume "busy v c = 0"
    then have "\<exists>c'. spi_write bus [0x06] [] c = (True, c') \<and> busy v c' = 0 \<and> wel v c'
          \<and> prot v c' = prot v c \<and> mem v c' = mem v c" using C by blast
    then show "\<exists>c'. norSendCommand bus x WRITE_EN 0 [] 0 c = (True, [], c') \<and> busy v c' = 0 \<and> wel v c'
       \<and> prot v c' = prot v c \<and> mem v c' = mem v c" by (auto simp: norSendCommand_def Let_def)
  }
  {
    assume "busy v c = 0"
    then have "\<exists>c'. spi_write bus [0x04] [] c = (True, c') \<and> busy v c' = 0
          \<and> prot v c' = prot v c \<and> mem v c' = mem v c" using C by blast
    then show "\<exists>c'. norSendCommand bus x WRITE_DIS 0 [] 0 c = (True, [], c') \<and> busy v c' = 0
       \<and> prot v c' = prot v c \<and> mem v c' = mem v c" by (auto simp: norSendCommand_def Let_def)
  }
  {
    assume "busy v c = 0" "wel v c"
    then have "\<exists>c'. spi_write bus [0x01, 0] [] c = (True, c') \<and> \<not> prot v c' \<and> mem v c' = mem v c" using C by blast
    then show "\<exists>c'. norSendCommand bus x WRITE_STATUS 0 [] 0 c = (True, [], c') \<and> \<not> prot v c' \<and> mem v c' = mem v c"
      by (auto simp: norSendCommand_def Let_def)
  }
  {
    assume "busy v c = 0" "wel v c" "\<not> prot v c" "a < NorGetCapacity x"
    then have "\<exists>c'. spi_write bus (address_command x 0xD8 0xDC a) [] c = (True, c') \<and> \<not> prot v c'
      \<and> mem v c' = erased eb a (mem v c)" using C by blast
    then show "\<exists>c'. norSendCommand bus x ERASE_BLOCK a [] 0 c = (True, [], c') \<and> \<not> prot v c'
      \<and> mem v c' = erased eb a (mem v c)" by (auto simp: norSendCommand_def Let_def)
  }
  {
    assume "busy v c = 0" "wel v c" "\<not> prot v c" "a mod 256 + length bs \<le> 256" "a + length bs \<le> NorGetCapacity x"
    then have "\<exists>c'. spi_write bus (address_command x 0x02 0x12 a) bs c = (True, c') \<and> \<not> prot v c'
      \<and> mem v c' = programmed a bs (mem v c)" using C by blast
    then show "\<exists>c'. norSendCommand bus x WRITE a bs k c = (True, [], c') \<and> \<not> prot v c'
      \<and> mem v c' = programmed a bs (mem v c)" by (auto simp: norSendCommand_def Let_def)
  }
  assume "busy v c = 0" "a + n \<le> NorGetCapacity x"
  then have "\<exists>c'. spi_read bus (address_command x 0x03 0x13 a) n c = (True, map (mem v c) [a..<a + n], c') \<and> busy v c' = 0
    \<and> prot v c' = prot v c \<and> mem v c' = mem v c" using C by blast
  then show "\<exists>c'. norSendCommand bus x READ a [] n c = (True, map (mem v c) [a..<a + n], c') \<and> busy v c' = 0
    \<and> prot v c' = prot v c \<and> mem v c' = mem v c" by (auto simp: norSendCommand_def Let_def)
qed

subsection \<open>Waiting, erasing, programming\<close>

lemma wait_loop_ok:
  assumes "flash_chip bus x eb v"
  shows "busy v c \<le> n \<Longrightarrow> \<exists>c'. wait_loop bus x n val c = (0, c') \<and> busy v c' = 0 \<and> wel v c' = wel v c
    \<and> prot v c' = prot v c \<and> mem v c' = mem v c"
proof (induction n arbitrary: val c)
  case 0
  then show ?case using flash_chipD(2) [OF assms, of c] by (auto simp: NOR_DEVICE_READY_def)
next
  case (Suc n)
  obtain s c1 where s: "norSendCommand bus x READ_STATUS 0 [] 1 c = (True, [s], c1)" "s AND 1 \<noteq> 0 \<longleftrightarrow> 0 < busy v c"
    "busy v c1 = busy v c - 1" "wel v c1 = wel v c" "prot v c1 = prot v c" "mem v c1 = mem v c"
    using flash_chipD(2) [OF assms, of c] by metis
  show ?case
  proof (cases "0 < busy v c")
    case True
    then have "busy v c1 \<le> n" using Suc.prems s(3) by simp
    from Suc.IH [OF this, of s] show ?thesis using s True by auto
  next
    case False
    then show ?thesis using s by (simp add: NOR_DEVICE_READY_def)
  qed
qed

lemma norWaitReady_ok:
  assumes "flash_chip bus x eb v"
  shows "\<exists>c'. norWaitReady bus x c = (0, c') \<and> busy v c' = 0 \<and> wel v c' = wel v c \<and> prot v c' = prot v c \<and> mem v c' = mem v c"
  unfolding norWaitReady_def using wait_loop_ok [OF assms flash_chipD(1) [OF assms]] .

definition ready :: "'c chip_view \<Rightarrow> 'c \<Rightarrow> bool" where
  "ready v c \<longleftrightarrow> busy v c = 0 \<and> \<not> prot v c"

lemma norErase_ok:
  assumes F: "flash_chip bus x eb v" and "ready v c" "a < NorGetCapacity x"
  shows "\<exists>c'. norErase bus x a c = (True, c') \<and> ready v c' \<and> mem v c' = erased eb a (mem v c)"
proof -
  obtain c1 where c1: "norSendCommand bus x WRITE_EN 0 [] 0 c = (True, [], c1)" "busy v c1 = 0" "wel v c1"
    "prot v c1 = prot v c" "mem v c1 = mem v c" using flash_chipD(3) [OF F, of c] assms(2) by (auto simp: ready_def)
  obtain c2 where c2: "norSendCommand bus x ERASE_BLOCK a [] 0 c1 = (True, [], c2)" "\<not> prot v c2" "mem v c2 = erased eb a (mem v c1)"
    using flash_chipD(6) [OF F c1(2,3), of a] assms(2,3) c1(4) by (auto simp: ready_def)
  obtain c3 where c3: "norWaitReady bus x c2 = (0, c3)" "busy v c3 = 0" "prot v c3 = prot v c2" "mem v c3 = mem v c2"
    using norWaitReady_ok [OF F, of c2] by blast
  show ?thesis using c1 c2 c3 by (simp add: norErase_def ready_def)
qed

lemma norEnableWrite_ok:
  assumes F: "flash_chip bus x eb v" and "busy v c = 0"
  shows "\<exists>c'. norEnableWrite bus x c = (True, c') \<and> ready v c' \<and> mem v c' = mem v c"
proof -
  obtain c1 where c1: "norSendCommand bus x WRITE_EN 0 [] 0 c = (True, [], c1)" "busy v c1 = 0" "wel v c1" "mem v c1 = mem v c"
    using flash_chipD(3) [OF F assms(2)] by blast
  obtain c2 where c2: "norSendCommand bus x WRITE_STATUS 0 [] 0 c1 = (True, [], c2)" "\<not> prot v c2" "mem v c2 = mem v c1"
    using flash_chipD(5) [OF F c1(2,3)] by blast
  obtain c3 where c3: "norWaitReady bus x c2 = (0, c3)" "busy v c3 = 0" "prot v c3 = prot v c2" "mem v c3 = mem v c2"
    using norWaitReady_ok [OF F, of c2] by blast
  obtain s c4 where c4: "norSendCommand bus x READ_STATUS 0 [] 1 c3 = (True, [s], c4)" "s AND 0x1C = 0" "busy v c4 = 0"
    "prot v c4 = prot v c3" "mem v c4 = mem v c3"
    using flash_chipD(2) [OF F, of c3] c2(2) c3(2,3) by auto
  show ?thesis using c1 c2 c3 c4 by (simp add: norEnableWrite_def ready_def)
qed

lemma norDisableWrite_ok:
  assumes F: "flash_chip bus x eb v" and "ready v c"
  shows "\<exists>c'. norDisableWrite bus x c = (True, c') \<and> ready v c' \<and> mem v c' = mem v c"
proof -
  obtain c1 where c1: "norSendCommand bus x WRITE_DIS 0 [] 0 c = (True, [], c1)" "prot v c1 = prot v c" "mem v c1 = mem v c"
    using flash_chipD(4) [OF F, of c] assms(2) by (auto simp: ready_def)
  obtain c2 where c2: "norWaitReady bus x c1 = (0, c2)" "busy v c2 = 0" "prot v c2 = prot v c1" "mem v c2 = mem v c1"
    using norWaitReady_ok [OF F, of c1] by blast
  show ?thesis using c1 c2 assms(2) by (simp add: norDisableWrite_def ready_def)
qed

lemma programmed_append:
  "programmed (a + length bs) bs' (programmed a bs m) = programmed a (bs @ bs') m"
  by (rule ext) (auto simp: programmed_def nth_append)

lemma programmed_Nil [simp]: "programmed a [] m = m"
  by (auto simp: programmed_def fun_eq_iff)

lemma write_chunks_ok:
  assumes F: "flash_chip bus x eb v" and cap: "NorGetCapacity x < 2 ^ 32"
  shows "ready v c \<Longrightarrow> 256 dvd a \<Longrightarrow> a + length bs \<le> NorGetCapacity x \<Longrightarrow>
    \<exists>c'. write_chunks bus x a bs True c = (True, c') \<and> ready v c' \<and> mem v c' = programmed a bs (mem v c)"
proof (induction "length bs" arbitrary: a bs c rule: less_induct)
  case less
  show ?case
  proof (cases "bs = []")
    case True
    then show ?thesis using less.prems by (subst write_chunks.simps) simp
  next
    case False
    define k where "k = (if length bs \<ge> 256 then 256 else length bs)"
    define hd_bs where "hd_bs = take k bs"
    define tl_bs where "tl_bs = drop k bs"
    have k: "0 < k" "k \<le> length bs" "k \<le> 256" "length hd_bs = k" "bs = hd_bs @ tl_bs" "length tl_bs < length bs"
      using False by (auto simp: k_def hd_bs_def tl_bs_def)
    obtain c1 where c1: "norSendCommand bus x WRITE_EN 0 [] 0 c = (True, [], c1)" "busy v c1 = 0" "wel v c1"
      "prot v c1 = prot v c" "mem v c1 = mem v c" using flash_chipD(3) [OF F, of c] less.prems(1) by (auto simp: ready_def)
    obtain c2 where c2: "norSendCommand bus x WRITE a hd_bs k c1 = (True, [], c2)" "\<not> prot v c2"
      "mem v c2 = programmed a hd_bs (mem v c1)"
      using flash_chipD(7) [OF F c1(2,3), of a hd_bs k] less.prems c1(4) k by (auto simp: ready_def)
    obtain c3 where c3: "norWaitReady bus x c2 = (0, c3)" "busy v c3 = 0" "prot v c3 = prot v c2" "mem v c3 = mem v c2"
      using norWaitReady_ok [OF F, of c2] by blast
    have step: "write_chunks bus x a bs True c = write_chunks bus x (u32_add a k) tl_bs True c3"
      using False c1(1) c2(1) c3(1)
      by (subst write_chunks.simps) (simp add: Let_def hd_bs_def [symmetric] tl_bs_def [symmetric] flip: k_def)
    show ?thesis
    proof (cases "tl_bs = []")
      case True
      then have "write_chunks bus x (u32_add a k) tl_bs True c3 = (True, c3)" by (subst write_chunks.simps) simp
      then show ?thesis using step True c1 c2 c3 k(5) by (auto simp: ready_def)
    next
      case False
      then have "length bs > k" using tl_bs_def by (simp add: not_le)
      then have k256: "k = 256" by (simp add: k_def split: if_splits)
      have "a + k < 2 ^ 32" using less.prems(3) k(2) cap by linarith
      then have a: "u32_add a k = a + k" by simp
      have a2: "256 dvd a + k" using less.prems(2) k256 by simp
      have len: "length bs = k + length tl_bs" using k(4,5) by simp
      then have l: "a + k + length tl_bs \<le> NorGetCapacity x" using less.prems(3) by simp
      have r: "ready v c3" using c2(2) c3(2,3) by (simp add: ready_def)
      have m: "mem v c3 = programmed a hd_bs (mem v c)" using c1(5) c2(3) c3(4) by simp
      from less.hyps [OF k(6) r a2 l] obtain c' where c': "write_chunks bus x (a + k) tl_bs True c3 = (True, c')"
        "ready v c'" "mem v c' = programmed (a + k) tl_bs (mem v c3)" by blast
      then show ?thesis using step a programmed_append [of a hd_bs tl_bs] m k(4,5) by (intro exI [of _ c']) simp
    qed
  qed
qed

subsection \<open>Reading\<close>

lemma u32_sub_le: "b \<le> a \<Longrightarrow> a < 2 ^ 32 \<Longrightarrow> u32_sub a b = a - b"
proof -
  assume a: "b \<le> a" "a < 2 ^ 32"
  then have "a + (2 ^ 32 - b) = (a - b) + 2 ^ 32" by simp
  then have "u32_sub a b = (a - b) mod 2 ^ 32" by (simp only: mod_add_self2)
  then show ?thesis using a by simp
qed

lemma read_chunks_ok:
  assumes F: "flash_chip bus x eb v" and eb: "2 \<le> bytesPerSector x" "bytesPerSector x < 2 ^ 32" and cap: "NorGetCapacity x < 2 ^ 32"
  shows "busy v c = 0 \<Longrightarrow> a + n \<le> NorGetCapacity x \<Longrightarrow>
    \<exists>c'. read_chunks bus x a n acc c = Some (True, acc @ map (mem v c) [a..<a + n], c') \<and> busy v c' = 0
      \<and> prot v c' = prot v c \<and> mem v c' = mem v c"
proof (induction n arbitrary: a acc c rule: less_induct)
  case (less n)
  show ?case
  proof (cases "n = 0")
    case True
    then show ?thesis using less.prems by (subst read_chunks.simps) simp
  next
    case False
    define m where "m = u32_sub (bytesPerSector x) 1"
    define k where "k = (if n \<ge> m then m else n)"
    have "m = bytesPerSector x - 1" using eb by (simp add: m_def mod_if)
    then have k: "0 < k" "k \<le> n" using False eb by (auto simp: k_def)
    obtain c1 where c1: "norSendCommand bus x READ a [] k c = (True, map (mem v c) [a..<a + k], c1)" "busy v c1 = 0"
      "prot v c1 = prot v c" "mem v c1 = mem v c"
      using flash_chipD(8) [OF F less.prems(1), of a k] less.prems(2) k by auto
    have r: "n < 2 ^ 32" "a < 2 ^ 32" using less.prems(2) cap by auto
    have nk: "u32_sub n k = n - k" using u32_sub_le [OF k(2)] r by simp
    have "a + k < 2 ^ 32" using less.prems(2) cap k by linarith
    then have step: "read_chunks bus x a n acc c = read_chunks bus x (a + k) (n - k) (acc @ map (mem v c) [a..<a + k]) c1"
      using False c1(1) nk unfolding read_chunks.simps [of bus x a n acc c] Let_def m_def [symmetric] k_def [symmetric] by simp
    have "[a..<a + n] = [a..<a + k] @ [a + k..<a + k + (n - k)]"
      using k upt_add_eq_append [of a "a + k" "n - k"] by simp
    then show ?thesis
      using less.IH [of "n - k" c1 "a + k" "acc @ map (mem v c) [a..<a + k]"] step k c1 less.prems(2) by auto
  qed
qed

lemma norRead_ok:
  assumes "flash_chip bus x eb v" and "2 \<le> bytesPerSector x" "bytesPerSector x < 2 ^ 32" and "NorGetCapacity x < 2 ^ 32"
    and "busy v c = 0" and "a + n \<le> NorGetCapacity x"
  shows "\<exists>c'. norRead bus x a n c = Some (True, map (mem v c) [a..<a + n], c') \<and> busy v c' = 0
    \<and> prot v c' = prot v c \<and> mem v c' = mem v c"
  using read_chunks_ok [OF assms, of "[]"] by (simp add: norRead_def)

lemma plain_geometryD:
  assumes "plain_geometry x eb" "0 < totalBlocks x"
  shows "bytesPerSector x = eb" "sectorsPerBlock_N x = 1" "256 \<le> eb" "eb < 2 ^ 32" "NorGetCapacity x = eb * totalBlocks x"
    "NorGetCapacity x < 2 ^ 32" "eb dvd NorGetCapacity x" "256 dvd eb"
proof -
  show p: "bytesPerSector x = eb" "sectorsPerBlock_N x = 1" "256 dvd eb" using assms by (auto simp: plain_geometry_def)
  then show "256 \<le> eb" using assms by (auto simp: plain_geometry_def dest: dvd_imp_le)
  have "eb * 1 \<le> eb * totalBlocks x" using assms(2) by (intro mult_le_mono) auto
  then show eb: "eb < 2 ^ 32" using assms(1) unfolding plain_geometry_def by linarith
  show c: "NorGetCapacity x = eb * totalBlocks x" using assms p eb by (simp add: NorGetCapacity_def plain_geometry_def)
  show "NorGetCapacity x < 2 ^ 32" using assms(1) c by (simp add: plain_geometry_def)
  show "eb dvd NorGetCapacity x" using c by simp
qed

subsection \<open>Updating a block\<close>

text \<open>What is in the flash when \<open>bs\<close> was written at \<open>a\<close>: the blocks that begin within the data are erased first.\<close>

definition written :: "nat \<Rightarrow> nat \<Rightarrow> block \<Rightarrow> (nat \<Rightarrow> byte) \<Rightarrow> nat \<Rightarrow> byte" where
  "written eb a bs m = (\<lambda>i. if a \<le> i \<and> i < a + length bs then bs ! (i - a)
     else if a \<le> i div eb * eb \<and> i div eb * eb < a + length bs then 0xFF else m i)"

lemma dvd_next: "eb dvd (x :: nat) \<Longrightarrow> eb dvd y \<Longrightarrow> x < y \<Longrightarrow> x + eb \<le> y"
  by (metis add_leE dvd_diff_nat dvd_imp_le le_add_diff_inverse less_imp_le nat_add_left_cancel_le zero_less_diff)

lemma block_start: "0 < eb \<Longrightarrow> i div eb * eb \<le> i \<and> i < i div eb * eb + (eb :: nat)"
  by (metis div_mult_mod_eq le_add1 mod_less_divisor nat_add_left_cancel_less)

lemma same_block:
  assumes "0 < eb" "(eb :: nat) dvd h"
  shows "i div eb = h div eb \<longleftrightarrow> h \<le> i \<and> i < h + eb"
proof -
  obtain q where q: "h = eb * q" using assms(2) by blast
  show ?thesis using block_start [OF assms(1), of i] assms(1) by (auto simp: q mult.commute intro: div_nat_eqI)
qed

lemma byte_and_ones [simp]: "(0xFF :: byte) AND b = b"
proof -
  have "(0xFF :: byte) = - 1" by simp
  then show ?thesis by (simp only: and.left_neutral)
qed

lemma updated_aligned:
  assumes "eb dvd a" "length bs \<le> eb" "bs \<noteq> []" "0 < eb"
  shows "programmed a bs (erased eb a m) = written eb a bs m"
proof (rule ext)
  fix i
  have d: "a div eb * eb = a" using assms(1) by simp
  have *: "i div eb = a div eb \<longleftrightarrow> a \<le> i div eb * eb \<and> i div eb * eb < a + length bs"
  proof
    assume "i div eb = a div eb"
    then show "a \<le> i div eb * eb \<and> i div eb * eb < a + length bs" using d assms(3) by simp
  next
    assume s: "a \<le> i div eb * eb \<and> i div eb * eb < a + length bs"
    have "\<not> a < i div eb * eb" using dvd_next [OF assms(1) dvd_triv_right] s assms(2) by (metis leD le_trans nat_add_left_cancel_le)
    then have "i div eb * eb = a" using s by simp
    then show "i div eb = a div eb" using assms(4) by auto
  qed
  have "a \<le> i \<Longrightarrow> i < a + length bs \<Longrightarrow> i div eb = a div eb"
    using same_block [OF assms(4,1), of i] assms(2) by simp
  then show "programmed a bs (erased eb a m) i = written eb a bs m i" using * by (auto simp: programmed_def erased_def written_def)
qed

lemma updated_overlay:
  fixes m :: "nat \<Rightarrow> byte"
  assumes eb: "0 < eb" and h: "eb dvd h" and off: "0 < off" "off + length bs \<le> eb"
  defines "old \<equiv> map m [h..<h + eb]"
  shows "programmed h (take off old @ bs @ drop (off + length bs) old) (erased eb h m) = written eb (h + off) bs m"
proof (rule ext)
  fix i
  note in_block = same_block [OF eb h, of i]
  have len: "length old = eb" by (simp add: old_def)
  have no_start: "\<not> (h + off \<le> i div eb * eb \<and> i div eb * eb < h + off + length bs)"
  proof
    assume s: "h + off \<le> i div eb * eb \<and> i div eb * eb < h + off + length bs"
    then have "h < i div eb * eb" using off(1) by linarith
    from dvd_next [OF h dvd_triv_right this] show False using s off by linarith
  qed
  show "programmed h (take off old @ bs @ drop (off + length bs) old) (erased eb h m) i = written eb (h + off) bs m i"
  proof (cases "h \<le> i \<and> i < h + eb")
    case True
    then obtain j where j: "i = h + j" "j < eb" by (metis le_iff_add nat_add_left_cancel_less)
    have "(take off old @ bs @ drop (off + length bs) old) ! j = (if off \<le> j \<and> j < off + length bs then bs ! (j - off) else m i)"
      using j len off by (auto simp: nth_append min_def old_def)
    then show ?thesis using j in_block True no_start len off by (auto simp: programmed_def erased_def written_def)
  next
    case False
    then show ?thesis using in_block no_start off len by (auto simp: programmed_def erased_def written_def)
  qed
qed

definition gives_buffers :: "(nat \<Rightarrow> block option) \<Rightarrow> nat \<Rightarrow> bool" where
  "gives_buffers alloc n \<longleftrightarrow> (case alloc n of None \<Rightarrow> False | Some b \<Rightarrow> length b = n)"

lemma norUpdate_ok:
  assumes F: "flash_chip bus x eb v" and G: "plain_geometry x eb" and A: "gives_buffers alloc eb"
    and r: "ready v c" and a: "bs \<noteq> []" "a mod eb + length bs \<le> eb" "a + length bs \<le> NorGetCapacity x"
  shows "\<exists>c'. norUpdate alloc bus x a bs c = Some (True, c') \<and> ready v c' \<and> mem v c' = written eb a bs (mem v c)"
proof -
  have "0 < totalBlocks x" using a(1,3) by (cases "totalBlocks x") (auto simp: NorGetCapacity_def)
  note g = plain_geometryD [OF G this]
  have eb0: "0 < eb" using g(3) by simp
  define h where "h = a div eb * eb"
  have ah: "a = h + a mod eb" by (simp add: h_def)
  have "0 < length bs" using a(1) by simp
  then have "h < NorGetCapacity x" using ah a(3) by linarith
  then have h: "eb dvd h" "h < NorGetCapacity x" "256 dvd h" using g(8) by (simp_all add: h_def)
  have hb: "h + eb \<le> NorGetCapacity x" using dvd_next [OF h(1) g(7) h(2)] .
  have hw: "u32_mul (a div bytesPerSector x) (bytesPerSector x) = h" using h(2) g(1,6) by (simp add: h_def [symmetric])
  show ?thesis
  proof (cases "h = a")
    case True
    obtain c1 where c1: "norErase bus x h c = (True, c1)" "ready v c1" "mem v c1 = erased eb h (mem v c)"
      using norErase_ok [OF F r h(2)] by blast
    obtain c2 where c2: "write_chunks bus x a bs True c1 = (True, c2)" "ready v c2" "mem v c2 = programmed a bs (mem v c1)"
      using write_chunks_ok [OF F g(6) c1(2), of a bs] h(3) a(3) True by blast
    have "length bs \<le> eb" using a(2) by simp
    then show ?thesis using c1 c2 True hw eb0 g(1) updated_aligned [of eb a bs "mem v c"] h(1) a(1)
      by (auto simp: norUpdate_def norWrite_def)
  next
    case False
    define old where "old = map (mem v c) [h..<h + eb]"
    define new where "new = take (a mod eb) old @ bs @ drop (a mod eb + length bs) old"
    have len: "length old = eb" "length new = eb" using a(2) by (auto simp: old_def new_def)
    obtain b where b: "alloc eb = Some b" "length b = eb" using A by (auto simp: gives_buffers_def split: option.splits)
    obtain c0 where c0: "norRead bus x h eb c = Some (True, old, c0)" "ready v c0" "mem v c0 = mem v c"
      using norRead_ok [OF F _ _ g(6), of c h eb] g(1,3,4) r hb by (auto simp: ready_def old_def)
    obtain c1 where c1: "norErase bus x h c0 = (True, c1)" "ready v c1" "mem v c1 = erased eb h (mem v c)"
      using norErase_ok [OF F c0(2) h(2)] c0(3) by auto
    obtain c2 where c2: "write_chunks bus x h new True c1 = (True, c2)" "ready v c2" "mem v c2 = programmed h new (mem v c1)"
      using write_chunks_ok [OF F g(6) c1(2) h(3), of new] hb len by auto
    have p1: "poke b 0 old = Some old" using b len by (simp add: poke_def)
    have "u32_sub a h = a mod eb" using u32_sub_le [of h a] ah a(3) g(6) by simp
    then have p2: "poke old (int (u32_sub a h)) bs = Some new" using len a(2) by (simp add: poke_def new_def nat_add_distrib)
    have "0 < a mod eb" using False ah by (cases "a mod eb") simp_all
    from updated_overlay [OF eb0 h(1) this a(2), of "mem v c"] have m: "mem v c2 = written eb a bs (mem v c)"
      unfolding c2(3) c1(3) new_def old_def ah [symmetric] .
    have "norUpdate alloc bus x a bs c = Some (True, c2)"
      using False b c0(1) c1(1) c2(1) p1 p2 eb0 g(1) hw unfolding norUpdate_def Let_def hw by (simp add: norWrite_def)
    then show ?thesis using c2(2) m by blast
  qed
qed

subsection \<open>Writing over several blocks\<close>

lemma peek_take: "k \<le> length bs \<Longrightarrow> peek bs 0 (int k) = Some (take k bs)"
  by (simp add: peek_def)

lemma written_append:
  assumes "0 < eb" "eb dvd a + length bs"
  shows "written eb (a + length bs) bs' (written eb a bs m) = written eb a (bs @ bs') m"
proof (rule ext)
  fix i
  note s = block_start [OF assms(1), of i]
  have "a + length bs \<le> i \<Longrightarrow> a + length bs \<le> i div eb * eb"
    using dvd_next [OF dvd_triv_right assms(2), of "i div eb"] s by (meson not_le less_le_trans)
  moreover have "a + length bs \<le> i div eb * eb \<Longrightarrow> a + length bs \<le> i" using s by linarith
  ultimately show "written eb (a + length bs) bs' (written eb a bs m) i = written eb a (bs @ bs') m i"
    by (auto simp: written_def nth_append)
qed

lemma program_blocks_ok:
  assumes F: "flash_chip bus x eb v" and G: "plain_geometry x eb" and A: "gives_buffers alloc eb"
  shows "ready v c \<Longrightarrow> 0 < i \<Longrightarrow> i < cnt \<Longrightarrow> eb dvd a \<Longrightarrow> length bs = (cnt - i - 1) * eb + tail \<Longrightarrow> 0 < tail \<Longrightarrow>
    tail \<le> eb \<Longrightarrow> a + length bs \<le> NorGetCapacity x \<Longrightarrow>
    \<exists>c'. program_blocks alloc bus x hd_n tail cnt i a bs c = Some (True, c') \<and> ready v c' \<and> mem v c' = written eb a bs (mem v c)"
proof (induction "cnt - i" arbitrary: i a bs c rule: less_induct)
  case less
  have "0 < totalBlocks x" using less.prems(5,6,8) by (cases "totalBlocks x") (auto simp: NorGetCapacity_def)
  note g = plain_geometryD [OF G this]
  have blk: "u32_mul (bytesPerSector x) (sectorsPerBlock_N x) = eb" using g by simp
  have am: "a mod eb = 0" using less.prems(4) by simp
  show ?case
  proof (cases "Suc i = cnt")
    case True
    then have i: "i = cnt - 1" "length bs = tail" using less.prems(5) by auto
    have ne: "bs \<noteq> []" using i less.prems(6) by auto
    obtain c1 where c1: "norUpdate alloc bus x a bs c = Some (True, c1)" "ready v c1" "mem v c1 = written eb a bs (mem v c)"
      using norUpdate_ok [OF F G A less.prems(1), of bs a] ne am less.prems(7,8) i by auto
    have "program_blocks alloc bus x hd_n tail cnt (Suc i) b ds c1 = Some (True, c1)" for b ds
      using True by (subst program_blocks.simps) simp
    then have "program_blocks alloc bus x hd_n tail cnt i a bs c = Some (True, c1)"
      using i less.prems(2,3) c1(1) by (subst program_blocks.simps) (simp add: Let_def peek_def)
    then show ?thesis using c1 by blast
  next
    case False
    define b1 where "b1 = take eb bs"
    define b2 where "b2 = drop eb bs"
    have "cnt - i - 1 = Suc (cnt - Suc i - 1)" using False less.prems(3) by simp
    then have l: "length bs = eb + (cnt - Suc i - 1) * eb + tail" using less.prems(5) by simp
    then have b: "length b1 = eb" "length b2 = (cnt - Suc i - 1) * eb + tail" "bs = b1 @ b2" "b1 \<noteq> []"
      using g(3) by (auto simp: b1_def b2_def)
    obtain c1 where c1: "norUpdate alloc bus x a b1 c = Some (True, c1)" "ready v c1" "mem v c1 = written eb a b1 (mem v c)"
      using norUpdate_ok [OF F G A less.prems(1) b(4), of a] am b less.prems(8) by auto
    have i_last: "i \<noteq> cnt - 1" using False less.prems(3) by linarith
    have "a + eb < 2 ^ 32" using less.prems(8) l g(6) by linarith
    then have step: "program_blocks alloc bus x hd_n tail cnt i a bs c = program_blocks alloc bus x hd_n tail cnt (Suc i) (a + eb) b2 c1"
      using False less.prems(2,3) c1(1) l blk i_last
      by (subst program_blocks.simps) (simp add: Let_def peek_def flip: b1_def b2_def)
    have m: "cnt - Suc i < cnt - i" "0 < Suc i" "Suc i < cnt" "eb dvd a + eb" "a + eb + length b2 \<le> NorGetCapacity x"
      using False less.prems(2,3,4,8) b by auto
    from less.hyps [OF m(1) c1(2) m(2,3,4) b(2) less.prems(6,7) m(5)]
    obtain c2 where c2: "program_blocks alloc bus x hd_n tail cnt (Suc i) (a + eb) b2 c1 = Some (True, c2)" "ready v c2"
      "mem v c2 = written eb (a + eb) b2 (mem v c1)" by blast
    have "mem v c2 = written eb a bs (mem v c)"
      using written_append [of eb a b1 b2 "mem v c"] c2(3) c1(3) b m(4) g(3) by simp
    then show ?thesis using step c2 by auto
  qed
qed

lemma NorWrite_ok:
  assumes F: "flash_chip bus x eb v" and G: "plain_geometry x eb" and A: "gives_buffers alloc eb"
    and r: "busy v c = 0" and a: "bs \<noteq> []" "a + length bs \<le> NorGetCapacity x"
  shows "\<exists>c'. NorWrite alloc bus x a bs c = Some (0, c') \<and> busy v c' = 0 \<and> mem v c' = written eb a bs (mem v c)"
proof -
  have "0 < totalBlocks x" using a by (cases "totalBlocks x") (auto simp: NorGetCapacity_def)
  note g = plain_geometryD [OF G this]
  define n where "n = length bs"
  have n: "0 < n" using a(1) by (simp add: n_def)
  have eb: "0 < eb" using g(3) by simp
  define h where "h = a div eb * eb"
  define t where "t = (a + n - 1) div eb * eb"
  note hs = block_start [OF eb, of a, folded h_def] and ts = block_start [OF eb, of "a + n - 1", folded t_def]
  have d: "eb dvd h" "eb dvd t" by (simp_all add: h_def t_def)
  have "a div eb \<le> (a + n - 1) div eb" using n by (intro div_le_mono) simp
  then have ht: "h \<le> t" by (simp add: h_def t_def)
  have an: "a + n \<le> NorGetCapacity x" using a(2) by (simp add: n_def)
  then have "t < NorGetCapacity x" using ts n by linarith
  from dvd_next [OF d(2) g(7) this] have te: "t + eb \<le> NorGetCapacity x" .
  have lt: "a + n < 2 ^ 32" "h < 2 ^ 32" "t < 2 ^ 32" "t + eb < 2 ^ 32" "h + eb < 2 ^ 32" using an te ht g(6) eb by linarith+
  have W1: "u32_mul (bytesPerSector x) (sectorsPerBlock_N x) = eb" "u32_add a n = a + n" "u32_mul (a div eb) eb = h" "u32_add h eb = h + eb" "u32_add t eb = t + eb"
    using g(1,2,4) lt by (simp_all flip: h_def)
  have W0: "u32_mul ((a + n - 1) div eb) eb = t" unfolding t_def [symmetric] using lt by simp
  have W2: "u32_sub (a + n) 1 = a + n - 1" by (rule u32_sub_le) (use lt n in linarith)+
  have W3: "u32_sub (a + n) t = a + n - t" by (rule u32_sub_le) (use lt ts in linarith)+
  have W4: "u32_sub (t + eb) h = t + eb - h" by (rule u32_sub_le) (use lt ht in linarith)+
  have W5: "u32_sub (h + eb) a = h + eb - a" by (rule u32_sub_le) (use lt hs in linarith)+
  have W6: "a + n \<noteq> t" using ts n by linarith
  note W = W1 W0 W2 W3 W4 W5
  obtain c1 where c1: "norEnableWrite bus x c = (True, c1)" "ready v c1" "mem v c1 = mem v c"
    using norEnableWrite_ok [OF F r] by blast
  note D = norDisableWrite_ok [OF F]
  have am: "a mod eb = a - h" unfolding h_def by (rule minus_div_mult_eq_mod [symmetric])
  show ?thesis
  proof (cases "t = h")
    case True
    have fit: "a mod eb + length bs \<le> eb" unfolding am n_def [symmetric] using True ts hs n by arith
    obtain c2 where c2: "norUpdate alloc bus x a bs c1 = Some (True, c2)" "ready v c2" "mem v c2 = written eb a bs (mem v c)"
      using norUpdate_ok [OF F G A c1(2) a(1) fit a(2)] c1(3) by auto
    obtain c3 where c3: "norDisableWrite bus x c2 = (True, c3)" "ready v c3" "mem v c3 = mem v c2" using D [OF c2(2)] by blast
    have "NorWrite alloc bus x a bs c = Some (0, c3)"
      using n an eb c1(1) c2(1) c3(1) True W6 unfolding NorWrite_def Let_def n_def [symmetric] W if_not_P [OF W6] by simp
    then show ?thesis using c2 c3 by (auto simp: ready_def)
  next
    case False
    then have lt': "h < t" using ht by simp
    from dvd_next [OF d this] have het: "h + eb \<le> t" .
    define cnt where "cnt = (t + eb - h) div eb"
    have "eb dvd t - h" using d by (rule dvd_diff_nat [rotated])
    then have "cnt * eb = t + eb - h" unfolding cnt_def using d ht by simp
    then have cnt: "cnt * eb = t - h + eb" using ht by simp
    have c2': "2 \<le> cnt"
    proof (rule ccontr)
      assume "\<not> 2 \<le> cnt"
      then have "cnt * eb \<le> 1 * eb" by (intro mult_le_mono1) simp
      then show False using cnt lt' by simp
    qed
    define b1 where "b1 = take (h + eb - a) bs"
    define b2 where "b2 = drop (h + eb - a) bs"
    have n1: "h + eb - a \<le> n" using het ts n by linarith
    then have b: "length b1 = h + eb - a" "bs = b1 @ b2" "b1 \<noteq> []" "length b2 = n - (h + eb - a)"
      using hs by (auto simp: b1_def b2_def n_def)
    have ab: "a + length b1 = h + eb" using b(1) hs by simp
    have "(cnt - 2) * eb = t - h - eb" using cnt c2' by (simp add: diff_mult_distrib)
    then have "length b2 = (cnt - 2) * eb + (a + n - t)" using b(4) het ts hs n by arith
    then have lb: "length b2 = (cnt - 1 - 1) * eb + (a + n - t)" by (simp add: numeral_2_eq_2)
    have fit: "a mod eb + length b1 \<le> eb" unfolding am b(1) using hs by arith
    obtain c2 where c2: "norUpdate alloc bus x a b1 c1 = Some (True, c2)" "ready v c2" "mem v c2 = written eb a b1 (mem v c)"
      using norUpdate_ok [OF F G A c1(2) b(3) fit] c1(3) ab het te by auto
    have "\<exists>c3. program_blocks alloc bus x (h + eb - a) (a + n - t) cnt 1 (h + eb) b2 c2 = Some (True, c3) \<and> ready v c3
      \<and> mem v c3 = written eb (h + eb) b2 (mem v c2)"
    proof (rule program_blocks_ok [OF F G A c2(2) _ _ _ lb])
      show "a + n - t \<le> eb" "0 < a + n - t" using ts n by linarith+
      show "h + eb + length b2 \<le> NorGetCapacity x" using b(4) n1 hs an by linarith
    qed (use c2' d in auto)
    then obtain c3 where c3: "program_blocks alloc bus x (h + eb - a) (a + n - t) cnt 1 (h + eb) b2 c2 = Some (True, c3)" "ready v c3"
      "mem v c3 = written eb (h + eb) b2 (mem v c2)" by blast
    have "program_blocks alloc bus x (h + eb - a) (a + n - t) cnt 0 a bs c1 = Some (True, c3)"
    proof -
      have "peek bs 0 (int (h + eb - a)) = Some b1" unfolding b1_def by (rule peek_take) (use n1 n_def in simp)
      moreover have "u32_add a (h + eb - a) = h + eb" using hs lt(5) by simp
      ultimately show ?thesis using c2' c2(1) c3(1)
        by (subst program_blocks.simps) (simp add: b2_def del: of_nat_diff)
    qed
    moreover obtain c4 where c4: "norDisableWrite bus x c3 = (True, c4)" "ready v c4" "mem v c4 = mem v c3" using D [OF c3(2)] by blast
    moreover have "\<not> cnt \<le> 1" using c2' by simp
    ultimately have "NorWrite alloc bus x a bs c = Some (0, c4)"
      using n an eb c1(1) W6 unfolding NorWrite_def Let_def n_def [symmetric] W if_not_P [OF W6] by (simp add: cnt_def)
    moreover have "mem v c4 = written eb a bs (mem v c)"
      using written_append [of eb a b1 b2 "mem v c"] c4(3) c3(3) c2(3) ab b(2) d(1) eb by simp
    ultimately show ?thesis using c4 by (auto simp: ready_def)
  qed
qed

lemma NorRead_ok:
  assumes F: "flash_chip bus x eb v" and G: "plain_geometry x eb" and "busy v c = 0" "a + n \<le> NorGetCapacity x" "0 < totalBlocks x"
  shows "\<exists>c'. NorRead bus x a n c = Some (0, map (mem v c) [a..<a + n], c') \<and> busy v c' = 0 \<and> mem v c' = mem v c"
proof -
  note g = plain_geometryD [OF G assms(5)]
  have "u32_add a n = a + n" using assms(4) g(6) by simp
  then show ?thesis using norRead_ok [OF F _ _ g(6) assms(3,4)] g(1,3,4) assms(4) by (auto simp: NorRead_def)
qed

end
