(* ===== verification/Ug_RawProps.thy ===== *)
theory Ug_RawProps
  imports Ug_RawData
begin

text \<open>
  Raw data blocks of a package (\<open>ug_rawdata.c\<close>) on a flash device whose blocks have a power of two of
  bytes and no gaps: the write loop transfers the data, and the verification finds out whether the
  device stored it.
\<close>

unbundle bit_operations_syntax

subsection \<open>Alignment\<close>

lemma align_push: "ITH_ALIGN_UP v (2 ^ k) = push_bit k (drop_bit k (v + (2 ^ k - 1)))"
proof -
  have m: "(2 ^ k - 1 :: 32 word) = mask k" by (simp add: mask_eq_decr_exp)
  show ?thesis
    unfolding ITH_ALIGN_UP_def m
    by (rule bit_word_eqI) (auto simp: bit_simps)
qed

lemma align_blocks:
  assumes "k < 32"
  shows "ITH_ALIGN_UP v (2 ^ k) div 2 ^ k = (v + (2 ^ k - 1)) div 2 ^ k"
proof -
  have "drop_bit k (push_bit k (drop_bit k (v + (2 ^ k - 1)))) = drop_bit k (v + (2 ^ k - 1))"
    by (rule bit_word_eqI) (auto simp: bit_simps dest: bit_imp_le_length)
  then show ?thesis
    unfolding align_push drop_bit_eq_div .
qed

lemma align_unat:
  assumes "k < 31" "n < 2 ^ 31"
  shows "unat ((of_nat n + (2 ^ k - 1)) div 2 ^ k :: 32 word) = (n + (2 ^ k - 1)) div 2 ^ k"
proof -
  have k: "(2::nat) ^ k \<le> 2 ^ 30" using assms(1) by (intro power_increasing) auto
  have "of_nat n + (2 ^ k - 1) = (of_nat (n + (2 ^ k - 1)) :: 32 word)"
    by (simp only: of_nat_add) (simp add: of_nat_diff)
  moreover have "unat (of_nat (n + (2 ^ k - 1)) :: 32 word) = n + (2 ^ k - 1)"
    using assms(2) k by (simp only: unat_of_nat) (simp add: take_bit_nat_eq_self)
  moreover have "unat (2 ^ k :: 32 word) = 2 ^ k"
    using u32_of_nat(1) [of "2 ^ k"] k by simp
  ultimately show ?thesis by (simp add: unat_div)
qed

lemma align_block:
  assumes "r \<le> 2 ^ k" "k < 31"
  shows "ITH_ALIGN_UP (of_nat r) (2 ^ k) div 2 ^ k = (of_nat (if r = 0 then 0 else 1) :: 32 word)"
proof (rule word_unat_eq_iff [THEN iffD2])
  have k: "(2::nat) ^ k \<le> 2 ^ 30" using assms(2) by (intro power_increasing) auto
  then have "r < 2 ^ 31" using assms(1) by simp
  moreover have "(r + (2 ^ k - 1)) div 2 ^ k = (if r = 0 then 0 else 1)"
    using assms(1) by (auto simp: div_nat_eqI)
  ultimately show "unat (ITH_ALIGN_UP (of_nat r) (2 ^ k) div 2 ^ k :: 32 word)
      = unat (of_nat (if r = 0 then 0 else 1) :: 32 word)"
    using align_blocks [of k "of_nat r"] align_unat [of k r] assms(2) by auto
qed


subsection \<open>What the code relies on in a flash device\<close>

text \<open>
  With blocks of \<open>bs\<close> bytes, \<open>cur\<close> is the block the device is at and \<open>cells\<close> is what reads deliver.
  Seeking and reading do as they say. Writing advances by as many blocks as asked for and touches only
  these, but may store anything there; it is never asked for none. \<open>flash_stores\<close> is the device that stores
  what it was given.
  All of it in states where \<open>ok\<close> holds, which the operations preserve.
\<close>

definition flash_ok :: "('d \<Rightarrow> bool) \<Rightarrow> 'd raw_services \<Rightarrow> int \<Rightarrow> nat \<Rightarrow> ('d \<Rightarrow> nat) \<Rightarrow> ('d \<Rightarrow> block) \<Rightarrow> bool" where
  "flash_ok ok srv fd bs cur cells \<longleftrightarrow>
     (\<forall>p d. ok d \<and> p < 2 ^ 31 \<and> p * bs \<le> length (cells d)
        \<longrightarrow> (\<exists>d'. raw_lseek srv fd (of_nat p) d = Some (int p, d') \<and> cur d' = p \<and> cells d' = cells d \<and> ok d'))
   \<and> (\<forall>b n d. ok d \<and> 0 < n \<and> n < 2 ^ 31 \<and> n * bs \<le> length b \<and> (cur d + n) * bs \<le> length (cells d)
        \<longrightarrow> (\<exists>d'. raw_write srv fd b (of_nat n) d = Some (int n, d') \<and> cur d' = cur d + n
             \<and> length (cells d') = length (cells d) \<and> take (cur d * bs) (cells d') = take (cur d * bs) (cells d)
             \<and> drop ((cur d + n) * bs) (cells d') = drop ((cur d + n) * bs) (cells d) \<and> ok d'))
   \<and> (\<forall>b n d. ok d \<and> n < 2 ^ 31 \<and> n * bs \<le> length b \<and> (cur d + n) * bs \<le> length (cells d)
        \<longrightarrow> (\<exists>d'. raw_read srv fd b (of_nat n) d
               = Some (int n, take (n * bs) (drop (cur d * bs) (cells d)) @ drop (n * bs) b, d')
             \<and> cur d' = cur d + n \<and> cells d' = cells d \<and> ok d'))"

definition flash_stores :: "('d \<Rightarrow> bool) \<Rightarrow> 'd raw_services \<Rightarrow> int \<Rightarrow> nat \<Rightarrow> ('d \<Rightarrow> nat) \<Rightarrow> ('d \<Rightarrow> block) \<Rightarrow> bool" where
  "flash_stores ok srv fd bs cur cells \<longleftrightarrow>
     (\<forall>b n d r d'. ok d \<and> n < 2 ^ 31 \<and> n * bs \<le> length b \<and> (cur d + n) * bs \<le> length (cells d)
          \<and> raw_write srv fd b (of_nat n) d = Some (r, d')
        \<longrightarrow> take (n * bs) (drop (cur d * bs) (cells d')) = take (n * bs) b)"

lemma flash_okD:
  assumes "flash_ok ok srv fd bs cur cells"
  shows "ok d \<Longrightarrow> p < 2 ^ 31 \<Longrightarrow> p * bs \<le> length (cells d) \<Longrightarrow>
      \<exists>d'. raw_lseek srv fd (of_nat p) d = Some (int p, d') \<and> cur d' = p \<and> cells d' = cells d \<and> ok d'"
    and "ok d \<Longrightarrow> 0 < n \<Longrightarrow> n < 2 ^ 31 \<Longrightarrow> n * bs \<le> length b \<Longrightarrow> (cur d + n) * bs \<le> length (cells d) \<Longrightarrow>
      \<exists>d'. raw_write srv fd b (of_nat n) d = Some (int n, d') \<and> cur d' = cur d + n
        \<and> length (cells d') = length (cells d) \<and> take (cur d * bs) (cells d') = take (cur d * bs) (cells d)
        \<and> drop ((cur d + n) * bs) (cells d') = drop ((cur d + n) * bs) (cells d) \<and> ok d'"
    and "ok d \<Longrightarrow> n < 2 ^ 31 \<Longrightarrow> n * bs \<le> length b \<Longrightarrow> (cur d + n) * bs \<le> length (cells d) \<Longrightarrow>
      \<exists>d'. raw_read srv fd b (of_nat n) d
          = Some (int n, take (n * bs) (drop (cur d * bs) (cells d)) @ drop (n * bs) b, d')
        \<and> cur d' = cur d + n \<and> cells d' = cells d \<and> ok d'"
  using assms unfolding flash_ok_def by blast+

text \<open>The number of blocks that hold \<open>n\<close> bytes.\<close>

definition blocks_for :: "nat \<Rightarrow> nat \<Rightarrow> nat" where
  "blocks_for bs n = (n + (bs - 1)) div bs"

lemma blocks_for_le: "n \<le> bs \<Longrightarrow> blocks_for bs n = (if n = 0 then 0 else 1)"
  by (cases "bs = 0") (auto simp: blocks_for_def div_nat_eqI)

lemma blocks_for_step:
  assumes "bs < n" "0 < bs" shows "blocks_for bs n = Suc (blocks_for bs (n - bs))"
proof -
  have "n + (bs - 1) = (n - bs + (bs - 1)) + bs" using assms by simp
  then show ?thesis unfolding blocks_for_def using assms(2) by (metis Suc_eq_plus1 div_add_self2 neq0_conv)
qed

lemma first_block: "0 < bs \<Longrightarrow> (if min n bs = 0 then 0 else 1) \<le> blocks_for bs n"
  using blocks_for_le [of n bs] blocks_for_step [of bs n] by (cases "n \<le> bs") auto

lemma blocks_for_ge: "0 < bs \<Longrightarrow> n \<le> blocks_for bs n * bs"
  unfolding blocks_for_def
  using div_mult_mod_eq [of "n + (bs - 1)" bs] mod_less_divisor [of bs "n + (bs - 1)"] by linarith


subsection \<open>The loops\<close>

lemma raw_readsize_plain:
  "\<not> nand \<Longrightarrow> m < 2 ^ 31 \<Longrightarrow> n < 2 ^ 31
   \<Longrightarrow> raw_readsize nand (of_nat m) pos2 (of_nat n) = (of_nat (min n m), pos2)"
  using u32_min [of n m] by (simp add: raw_readsize_def)

lemma take_of_take:
  "take n xs = take n ys \<Longrightarrow> m + k \<le> n \<Longrightarrow> take k (drop m xs) = take k (drop m ys)"
  by (metis drop_take le_add_diff_inverse min.absorb1 take_take add_le_imp_le_diff add.commute)

text \<open>Writing \<open>n\<close> bytes from block \<open>p\<close> on and verifying them, with a buffer of \<open>b\<close> bytes.\<close>

definition raw_outcome :: "('d \<Rightarrow> block) \<Rightarrow> nat \<Rightarrow> nat \<Rightarrow> block \<Rightarrow> bool \<Rightarrow> 'd \<Rightarrow> int \<Rightarrow> 'd \<Rightarrow> bool" where
  "raw_outcome cells bs p data stores d ret d' \<longleftrightarrow>
     (ret = 0 \<longleftrightarrow> take (length data) (drop (p * bs) (cells d')) = data) \<and> ret \<in> {0, 232}
   \<and> (stores \<longrightarrow> ret = 0) \<and> length (cells d') = length (cells d)
   \<and> take (p * bs) (cells d') = take (p * bs) (cells d)
   \<and> drop ((p + blocks_for bs (length data)) * bs) (cells d')
     = drop ((p + blocks_for bs (length data)) * bs) (cells d)"

context itc_reader
begin

lemma raw_write_loop_ok:
  assumes "flash_ok ok srv fd bs cur cells" "bs = 2 ^ k" "k < 31" "\<not> nand"
    "valid s" "posn s + n \<le> length (content s)" "n < 2 ^ 31" "bs \<le> length buf"
    "(cur d + blocks_for bs n) * bs \<le> length (cells d)" "ok d" "0 < n"
  shows "\<exists>buf' s' d'. raw_write_loop ops srv fd nand (of_nat bs) pos2 (of_nat n) buf s d = Some (0, buf', s', d')
    \<and> length buf' = length buf \<and> valid s' \<and> content s' = content s \<and> posn s' = posn s + n
    \<and> length (cells d') = length (cells d)
    \<and> take (cur d * bs) (cells d') = take (cur d * bs) (cells d)
    \<and> drop ((cur d + blocks_for bs n) * bs) (cells d') = drop ((cur d + blocks_for bs n) * bs) (cells d)
    \<and> (flash_stores ok srv fd bs cur cells
        \<longrightarrow> take n (drop (cur d * bs) (cells d')) = take n (drop (posn s) (content s))) \<and> ok d'"
  using assms(5-)
proof (induction n arbitrary: s buf d rule: less_induct)
  case (less n)
  define r where "r = min n bs"
  define j where "j = (if r = 0 then 0 else 1 :: nat)"
  have k: "bs \<le> 2 ^ 30" "0 < bs" "bs < 2 ^ 31"
    using assms(2,3) power_increasing [of k 30 "2 :: nat"] by auto
  have r: "r < 2 ^ 31" "r \<le> length buf" "posn s + r \<le> length (content s)" "r \<le> n" "r \<le> bs"
    using less.prems k by (auto simp: r_def)
  define bf where "bf = take r (drop (posn s) (content s)) @ drop r buf"
  obtain s1 where s1: "Read ops s buf (int r) = Some (int r, bf, s1)"
    "valid s1" "content s1 = content s" "posn s1 = posn s + r"
    using read_all [OF less.prems(1) r(2,1,3)] unfolding bf_def by blast
  have bf: "length bf = length buf" "take r bf = take r (drop (posn s) (content s))"
    using r by (simp_all add: bf_def)
  have j0: "0 < j" using less.prems(7) k(2) by (simp add: j_def r_def)
  have j: "j < 2 ^ 31" "j * bs \<le> length bf" "(cur d + j) * bs \<le> length (cells d)"
  proof -
    have "j \<le> blocks_for bs n" using first_block [OF k(2)] by (simp add: j_def r_def)
    then have "(cur d + j) * bs \<le> (cur d + blocks_for bs n) * bs" by simp
    then show "(cur d + j) * bs \<le> length (cells d)" using less.prems(5) by linarith
  qed (use bf less.prems in \<open>auto simp: j_def\<close>)
  obtain d1 where d1: "raw_write srv fd bf (of_nat j) d = Some (int j, d1)" "cur d1 = cur d + j"
    "length (cells d1) = length (cells d)" "take (cur d * bs) (cells d1) = take (cur d * bs) (cells d)"
    "drop ((cur d + j) * bs) (cells d1) = drop ((cur d + j) * bs) (cells d)" "ok d1"
    using flash_okD(2) [OF assms(1) less.prems(6) j0 j] by blast
  have al: "ITH_ALIGN_UP (of_nat r) (of_nat bs) div of_nat bs = (of_nat j :: 32 word)"
    using align_block [of r k] r(5) assms(2,3) by (simp add: j_def)
  have nz: "(of_nat bs :: 32 word) \<noteq> 0"
    using u32_eq [of bs 0] k by simp
  have "(of_nat n :: 32 word) - of_nat r = of_nat (n - r)" using r(4) by (simp add: of_nat_diff)
  moreover have "(0 :: 32 word) < of_nat (n - r) \<longleftrightarrow> 0 < n - r"
    using u32_less [of 0 "n - r"] less.prems(3) by simp
  ultimately have step: "raw_write_loop ops srv fd nand (of_nat bs) pos2 (of_nat n) buf s d =
      (if n - r > 0
       then raw_write_loop ops srv fd nand (of_nat bs) pos2 (of_nat (n - r)) bf s1 d1
       else Some (0, bf, s1, d1))"
    by (subst raw_write_loop.simps)
      (simp add: raw_readsize_plain [OF assms(4) k(3) less.prems(3), folded r_def] u32_of_nat(3) [OF r(1)]
        s1(1) al nz d1(1) Let_def del: of_nat_diff)
  have here: "take r (drop (cur d * bs) (cells d1)) = take r (drop (posn s) (content s))"
    if "flash_stores ok srv fd bs cur cells"
  proof -
    have "take (j * bs) (drop (cur d * bs) (cells d1)) = take (j * bs) bf"
      using that d1(1) j less.prems(6) unfolding flash_stores_def by blast
    moreover have "r \<le> j * bs" using r(5) by (simp add: j_def)
    ultimately have "take r (drop (cur d * bs) (cells d1)) = take r bf"
      by (metis min.absorb1 take_take)
    with bf(2) show ?thesis by simp
  qed
  show ?case
  proof (cases "n \<le> bs")
    case True
    then have n: "r = n" "blocks_for bs n = j" using blocks_for_le [of n bs] by (auto simp: r_def j_def)
    show ?thesis using step n s1 bf(1) d1 here by auto
  next
    case False
    with less.prems have b: "r = bs" "j = 1" "blocks_for bs n = Suc (blocks_for bs (n - bs))"
      using blocks_for_step [of bs n] k(2) by (auto simp: r_def j_def)
    have pre: "valid s1" "posn s1 + (n - r) \<le> length (content s1)" "n - r < 2 ^ 31" "bs \<le> length bf"
      "(cur d1 + blocks_for bs (n - r)) * bs \<le> length (cells d1)" "n - r < n" "0 < n - r"
      using less.prems s1 bf d1 b r k False by auto
    obtain buf' s' d' where IH:
      "raw_write_loop ops srv fd nand (of_nat bs) pos2 (of_nat (n - r)) bf s1 d1 = Some (0, buf', s', d')"
      "length buf' = length bf" "valid s'" "content s' = content s1" "posn s' = posn s1 + (n - r)"
      "length (cells d') = length (cells d1)"
      "take (cur d1 * bs) (cells d') = take (cur d1 * bs) (cells d1)"
      "drop ((cur d1 + blocks_for bs (n - r)) * bs) (cells d') = drop ((cur d1 + blocks_for bs (n - r)) * bs) (cells d1)"
      "flash_stores ok srv fd bs cur cells
        \<longrightarrow> take (n - r) (drop (cur d1 * bs) (cells d')) = take (n - r) (drop (posn s1) (content s1))" "ok d'"
      using less.IH [OF pre(6,1-5) d1(6) pre(7)] by blast
    have t1: "take (cur d * bs) (cells d') = take (cur d * bs) (cells d)"
      using take_of_take [OF IH(7), of 0 "cur d * bs"] d1(2,4) by simp
    have t2: "take r (drop (cur d * bs) (cells d')) = take r (drop (cur d * bs) (cells d1))"
      using take_of_take [OF IH(7), of "cur d * bs" r] d1(2) b by simp
    have t3: "drop ((cur d + blocks_for bs n) * bs) (cells d') = drop ((cur d + blocks_for bs n) * bs) (cells d)"
    proof -
      have e: "(cur d + blocks_for bs n) * bs = (cur d1 + blocks_for bs (n - r)) * bs"
        "(cur d + blocks_for bs n) * bs = blocks_for bs (n - r) * bs + (cur d + j) * bs"
        using d1(2) b by (simp_all add: algebra_simps)
      have "drop ((cur d + blocks_for bs n) * bs) (cells d') = drop ((cur d + blocks_for bs n) * bs) (cells d1)"
        unfolding e(1) by (rule IH(8))
      also have "\<dots> = drop ((cur d + blocks_for bs n) * bs) (cells d)"
        unfolding e(2) drop_drop [symmetric] d1(5) ..
      finally show ?thesis .
    qed
    have t4: "take n (drop (cur d * bs) (cells d')) = take n (drop (posn s) (content s))"
      if fs: "flash_stores ok srv fd bs cur cells"
    proof -
      have "cur d1 * bs = r + cur d * bs" "r + (n - r) = n"
        using d1(2) b r(4) by (simp_all add: algebra_simps)
      then have "take n (drop (cur d * bs) (cells d'))
          = take r (drop (cur d * bs) (cells d')) @ take (n - r) (drop (cur d1 * bs) (cells d'))"
        using take_add [of r "n - r" "drop (cur d * bs) (cells d')"] by simp
      also have "\<dots> = take r (drop (posn s) (content s)) @ take (n - r) (drop (posn s + r) (content s))"
        using t2 here [OF fs] IH(9) fs s1 by simp
      also have "\<dots> = take n (drop (posn s) (content s))"
        using take_add [of r "n - r" "drop (posn s) (content s)"] r(4) by (simp add: add.commute)
      finally show ?thesis .
    qed
    have "n - r > 0" using False b by simp
    then show ?thesis
      using step IH s1 bf(1) d1(3) t1 t3 t4 r(4) by (intro exI [of _ buf'] exI [of _ s'] exI [of _ d']) simp
  qed
qed

lemma raw_verify_loop_ok:
  assumes "flash_ok ok srv fd bs cur cells" "bs = 2 ^ k" "k < 31" "\<not> nand"
    "valid s" "posn s + n \<le> length (content s)" "n < 2 ^ 31" "bs \<le> length buf" "bs \<le> length buf2"
    "(cur d + blocks_for bs n) * bs \<le> length (cells d)" "ok d"
  shows "\<exists>ret s' d'. raw_verify_loop ops srv fd nand (of_nat bs) pos2 (of_nat n) buf buf2 s d = Some (ret, s', d')
    \<and> (ret = 0 \<longleftrightarrow> take n (drop (cur d * bs) (cells d)) = take n (drop (posn s) (content s)))
    \<and> ret \<in> {0, 232} \<and> cells d' = cells d \<and> valid s' \<and> content s' = content s \<and> ok d'"
  using assms(5-)
proof (induction n arbitrary: s buf buf2 d rule: less_induct)
  case (less n)
  define r where "r = min n bs"
  define j where "j = (if r = 0 then 0 else 1 :: nat)"
  have k: "bs \<le> 2 ^ 30" "0 < bs" "bs < 2 ^ 31"
    using assms(2,3) power_increasing [of k 30 "2 :: nat"] by auto
  have r: "r < 2 ^ 31" "r \<le> length buf" "posn s + r \<le> length (content s)" "r \<le> n" "r \<le> bs"
    using less.prems k by (auto simp: r_def)
  define bs1 where "bs1 = take r (drop (posn s) (content s))"
  define bs2 where "bs2 = take r (drop (cur d * bs) (cells d))"
  have j: "j < 2 ^ 31" "j * bs \<le> length buf2" "(cur d + j) * bs \<le> length (cells d)" "r \<le> j * bs"
  proof -
    have "j \<le> blocks_for bs n" using first_block [OF k(2)] by (simp add: j_def r_def)
    then have "(cur d + j) * bs \<le> (cur d + blocks_for bs n) * bs" by simp
    then show "(cur d + j) * bs \<le> length (cells d)" using less.prems(6) by linarith
  qed (use r less.prems in \<open>auto simp: j_def\<close>)
  define bf2 where "bf2 = take (j * bs) (drop (cur d * bs) (cells d)) @ drop (j * bs) buf2"
  have fit: "r + cur d * bs \<le> length (cells d)" "j * bs + cur d * bs \<le> length (cells d)"
    using j(3,4) by (simp_all add: algebra_simps)
  obtain s1 where s1: "Read ops s buf (int r) = Some (int r, bs1 @ drop r buf, s1)"
    "valid s1" "content s1 = content s" "posn s1 = posn s + r"
    using read_all [OF less.prems(1) r(2,1,3)] unfolding bs1_def by blast
  obtain d1 where d1: "raw_read srv fd buf2 (of_nat j) d = Some (int j, bf2, d1)"
    "cur d1 = cur d + j" "cells d1 = cells d" "ok d1"
    using flash_okD(3) [OF assms(1) less.prems(7) j(1-3)] unfolding bf2_def by blast
  have len: "length bs1 = r" "length bs2 = r" "length bf2 = length buf2" "take r bf2 = bs2"
    using r fit j(2,4) by (simp_all add: bs1_def bs2_def bf2_def min_absorb1)
  have pk: "peek (bs1 @ drop r buf) 0 (uint (of_nat r :: 32 word)) = Some bs1"
    "peek bf2 0 (uint (of_nat r :: 32 word)) = Some bs2"
    using len r less.prems(5) by (simp_all add: peek_def u32_of_nat)
  have al: "ITH_ALIGN_UP (of_nat r) (of_nat bs) div of_nat bs = (of_nat j :: 32 word)"
    using align_block [of r k] r(5) assms(2,3) by (simp add: j_def)
  have nz: "(of_nat bs :: 32 word) \<noteq> 0"
    using u32_eq [of bs 0] k by simp
  have "(of_nat n :: 32 word) - of_nat r = of_nat (n - r)" using r(4) by (simp add: of_nat_diff)
  moreover have "(0 :: 32 word) < of_nat (n - r) \<longleftrightarrow> 0 < n - r"
    using u32_less [of 0 "n - r"] less.prems(3) by simp
  ultimately have step: "raw_verify_loop ops srv fd nand (of_nat bs) pos2 (of_nat n) buf buf2 s d =
      (if bs1 \<noteq> bs2 then Some (232, s1, d1)
       else if n - r > 0
       then raw_verify_loop ops srv fd nand (of_nat bs) pos2 (of_nat (n - r)) (bs1 @ drop r buf) bf2 s1 d1
       else Some (0, s1, d1))"
    by (subst raw_verify_loop.simps)
      (simp add: raw_readsize_plain [OF assms(4) k(3) less.prems(3), folded r_def] u32_of_nat(3) [OF r(1)]
        s1(1) al nz d1(1) pk Let_def del: of_nat_diff)
  have split: "take n (drop (posn s) (content s)) = bs1 @ take (n - r) (drop (posn s + r) (content s))"
    "take n (drop (cur d * bs) (cells d)) = bs2 @ take (n - r) (drop (r + cur d * bs) (cells d))"
    using take_add [of r "n - r" "drop (posn s) (content s)"] take_add [of r "n - r" "drop (cur d * bs) (cells d)"] r(4)
    by (simp_all add: bs1_def bs2_def add.commute)
  show ?case
  proof (cases "bs1 = bs2 \<and> bs < n")
    case False
    then have "bs1 = bs2 \<Longrightarrow> r = n" by (auto simp: r_def)
    then show ?thesis using step s1 d1 split len by (cases "bs1 = bs2") auto
  next
    case True
    with less.prems have b: "r = bs" "j = 1" "blocks_for bs n = Suc (blocks_for bs (n - bs))" "n - r > 0"
      using blocks_for_step [of bs n] k(2) by (auto simp: r_def j_def)
    have "valid s1" "posn s1 + (n - r) \<le> length (content s1)" "n - r < 2 ^ 31" "bs \<le> length (bs1 @ drop r buf)"
      "bs \<le> length bf2" "(cur d1 + blocks_for bs (n - r)) * bs \<le> length (cells d1)" "n - r < n"
      using less.prems s1 d1 b r k True len by auto
    from less.IH [OF this(7,1-6) d1(4)] show ?thesis
      using step split True b s1 d1 len by (simp add: algebra_simps)
  qed
qed

lemma raw_transfer_ok:
  assumes "flash_ok ok srv fd bs cur cells" "bs = 2 ^ k" "k < 31" "disk \<noteq> ITP_DISK_NAND"
    "cfg_ok cfg" "valid s" "take n (drop (posn s) (content s)) = data" "length data = n" "0 < n" "n < 2 ^ 31"
    "length buf = b" "bs \<le> b" "int b \<le> buf_size cfg"
    "p < 2 ^ 31" "(p + blocks_for bs n) * bs \<le> length (cells d)" "ok d"
  shows "\<exists>ret s' d'. raw_transfer cfg ops srv fd disk (of_nat bs) (of_nat n) (of_nat b) (of_nat p) buf s d
      = Some (ret, s', d')
    \<and> raw_outcome cells bs p data (flash_stores ok srv fd bs cur cells) d ret d' \<and> ok d'"
proof -
  have le: "posn s + n \<le> length (content s)" using assms(7-9) by auto
  have b31: "b < 2 ^ 31" using assms(5,13) by (auto simp: cfg_ok_def)
  have pb: "p * bs \<le> length (cells d)" using assms(15) by (simp add: algebra_simps)
  obtain d1 where d1: "raw_lseek srv fd (of_nat p) d = Some (int p, d1)" "cur d1 = p" "cells d1 = cells d" "ok d1"
    using flash_okD(1) [OF assms(1,16,14) pb] by blast
  obtain buf' s1 d2 where w:
    "raw_write_loop ops srv fd (disk = ITP_DISK_NAND) (of_nat bs) (int p) (of_nat n) buf s d1 = Some (0, buf', s1, d2)"
    "length buf' = length buf" "valid s1" "content s1 = content s" "posn s1 = posn s + n"
    "length (cells d2) = length (cells d)" "take (p * bs) (cells d2) = take (p * bs) (cells d)"
    "drop ((p + blocks_for bs n) * bs) (cells d2) = drop ((p + blocks_for bs n) * bs) (cells d)"
    "flash_stores ok srv fd bs cur cells \<longrightarrow> take n (drop (p * bs) (cells d2)) = data" "ok d2"
    using raw_write_loop_ok [OF assms(1-4,6) le assms(10), of buf d1 "int p"] assms(7,9,11,12,15) d1 by auto
  obtain d3 where d3: "raw_lseek srv fd (of_nat p) d2 = Some (int p, d3)" "cur d3 = p" "cells d3 = cells d2" "ok d3"
    using flash_okD(1) [OF assms(1) w(10) assms(14)] pb w(6) by auto
  obtain buf2 where buf2: "ug_malloc cfg (int b) = Some buf2" "length buf2 = b"
    using cfg_ok_malloc [OF assms(5,13)] .
  obtain s2 where s2: "Seek ops s1 (- int n) SEEK_CUR = Some (0, s2)" "valid s2" "content s2 = content s"
    "posn s2 = posn s"
    using seek_cur_ok [OF w(3), of n] w(4,5) le assms(9) by auto
  obtain ret s' d' where v:
    "raw_verify_loop ops srv fd (disk = ITP_DISK_NAND) (of_nat bs) (int p) (of_nat n) buf' buf2 s2 d3 = Some (ret, s', d')"
    "ret = 0 \<longleftrightarrow> take n (drop (p * bs) (cells d2)) = data" "ret \<in> {0, 232}" "cells d' = cells d2" "ok d'"
    using raw_verify_loop_ok [OF assms(1-4) s2(2), of n buf' buf2 d3 "int p"] assms(7,10-12,15) le w(2,6) d3 buf2 s2
    by auto
  have "raw_transfer cfg ops srv fd disk (of_nat bs) (of_nat n) (of_nat b) (of_nat p) buf s d = Some (ret, s', d')"
    by (simp add: raw_transfer_def d1(1) w(1) d3(1) u32_of_nat [OF b31] u32_of_nat(3) [OF assms(10)] buf2(1) s2(1) v(1))
  then show ?thesis
    using v w(6-9) assms(8) by (intro exI conjI) (auto simp: raw_outcome_def)
qed

end

text \<open>Opening a flash device without gaps between its blocks, asking for its sizes, closing it.\<close>

definition flash_opens :: "('d \<Rightarrow> bool) \<Rightarrow> 'd raw_services \<Rightarrow> ITPDisk \<Rightarrow> int \<Rightarrow> nat \<Rightarrow> ('d \<Rightarrow> block) \<Rightarrow> bool" where
  "flash_opens ok srv disk fd bs cells \<longleftrightarrow> fd \<noteq> -1
     \<and> (\<forall>name d. raw_disk_name disk = Some name \<and> ok d \<longrightarrow> (\<exists>d'. raw_open srv name d = Some (fd, d') \<and> cells d' = cells d \<and> ok d'))
     \<and> (\<forall>d. ok d \<longrightarrow> (\<exists>d'. raw_block_size srv fd d = Some (0, of_nat bs, d') \<and> cells d' = cells d \<and> ok d'))
     \<and> (\<forall>d. ok d \<longrightarrow> (\<exists>d'. raw_gap_size srv fd d = Some (0, 0, d') \<and> cells d' = cells d \<and> ok d'))
     \<and> (\<forall>d. ok d \<longrightarrow> (\<exists>d'. raw_close srv fd d = Some d' \<and> cells d' = cells d))"

lemma raw_outcome_cells:
  "raw_outcome cells bs p data c d1 ret d1' \<Longrightarrow> cells d1 = cells d \<Longrightarrow> cells d1' = cells d'
   \<Longrightarrow> raw_outcome cells bs p data c d ret d'"
  by (auto simp only: raw_outcome_def)

lemma raw_bufsize:
  assumes "cfg_ok cfg" "k < 31" "0 < n" "n < 2 ^ 31" "2 ^ k \<le> buf_size cfg"
  obtains b where "2 ^ k \<le> b" "int b \<le> buf_size cfg"
    "(if word_of_int (buf_size cfg) < ITH_ALIGN_UP (of_nat n) (2 ^ k) then word_of_int (buf_size cfg)
      else ITH_ALIGN_UP (of_nat n) (2 ^ k)) = (of_nat b :: 32 word)"
proof -
  let ?a = "ITH_ALIGN_UP (of_nat n) (2 ^ k)"
  let ?q = "(n + (2 ^ k - 1)) div 2 ^ k"
  have c: "(word_of_int (buf_size cfg) :: 32 word) = of_nat (nat (buf_size cfg))" "nat (buf_size cfg) < 2 ^ 31"
    using assms(1) u32_int [of "buf_size cfg"] unfolding cfg_ok_def by (simp_all, linarith)
  have k: "(2::nat) ^ k \<le> 2 ^ 30" using assms(2) by (intro power_increasing) auto
  have "?a = (of_nat n + (2 ^ k - 1)) div 2 ^ k * 2 ^ k"
    unfolding align_push push_bit_eq_mult drop_bit_eq_div ..
  then have m: "unat ?a = ?q * 2 ^ k mod 2 ^ 32"
    using align_unat [OF assms(2,4)] u32_of_nat(1) [of "2 ^ k"] k by (simp add: unat_word_ariths)
  have "n + (2 ^ k - 1) < 2 ^ 32" using assms(4) k by simp
  then have "?q * 2 ^ k < 2 ^ 32" by (rule le_less_trans [OF div_times_less_eq_dividend])
  then have "unat ?a = ?q * 2 ^ k" unfolding m by (rule mod_less)
  moreover have "1 \<le> ?q"
    using assms(3) by (simp add: Suc_le_eq div_greater_zero_iff)
  ultimately have a: "unat ?a = ?q * 2 ^ k" "1 * 2 ^ k \<le> ?q * 2 ^ k"
    by (blast, intro mult_le_mono1)
  show thesis
  proof (cases "word_of_int (buf_size cfg) < ?a")
    case True
    have "0 < buf_size cfg" using assms(1) by (simp add: cfg_ok_def)
    then have n: "2 ^ k \<le> nat (buf_size cfg)" "int (nat (buf_size cfg)) \<le> buf_size cfg"
      using assms(5) by (simp_all add: le_nat_iff)
    show thesis by (rule that [OF n]) (use True c(1) in \<open>simp only: if_True\<close>)
  next
    case False
    then have "unat ?a \<le> nat (buf_size cfg)"
      unfolding c(1) by (simp add: not_less word_le_nat_alt u32_of_nat(1) [OF c(2)])
    moreover have "0 < buf_size cfg" using assms(1) by (simp add: cfg_ok_def)
    ultimately have n: "2 ^ k \<le> unat ?a" "int (unat ?a) \<le> buf_size cfg"
      using a by (simp_all only: mult_1 le_nat_iff order_less_imp_le)
    show thesis by (rule that [OF n]) (use False in simp)
  qed
qed

context itc_reader
begin

text \<open>From the header to \<open>raw_transfer\<close> and the end.\<close>

lemma raw_upgrade_transfers:
  assumes "flash_opens ok srv disk fd bs cells" "bs = 2 ^ k" "k < 31"
    "disk \<in> {ITP_DISK_NOR, ITP_DISK_SD0, ITP_DISK_SD1}"
    "cfg_ok cfg" "int bs \<le> buf_size cfg" "valid s" "length data < 2 ^ 31" "data \<noteq> []"
    "drop (posn s) (content s) = le_of_word 4 (position :: 32 word) @ le_of_word 4 (of_nat (length data) :: 32 word) @ data @ rest"
    "p = unat position div bs" "p < 2 ^ 31" "ok d"
  obtains s1 d1 b buf where "valid s1" "take (length data) (drop (posn s1) (content s1)) = data"
    "ok d1" "cells d1 = cells d" "length buf = b" "bs \<le> b" "int b \<le> buf_size cfg"
    "ugUpgradeRawData cfg ops srv s d disk =
       do { (ret, f, d) \<leftarrow> raw_transfer cfg ops srv fd disk (of_nat bs) (of_nat (length data)) (of_nat b) (of_nat p) buf s1 d1;
            d \<leftarrow> raw_close srv fd d; Some (ret, f, d) }"
proof -
  let ?n = "length data"
  let ?hdr = "le_of_word 4 position @ le_of_word 4 (of_nat ?n :: 32 word)"
  have len: "posn s + 8 + ?n \<le> length (content s)"
    using arg_cong [OF assms(10), of length] by simp
  have take8: "take 8 (drop (posn s) (content s)) = ?hdr"
    unfolding assms(10) by simp
  obtain s1 where s1: "Read ops s (replicate 8 0) 8 = Some (8, ?hdr, s1)" "valid s1" "content s1 = content s"
    "posn s1 = posn s + 8"
    using read_all [OF assms(7), of 8 "replicate 8 0"] len take8 by auto
  have dt: "take ?n (drop (posn s1) (content s1)) = data"
    using arg_cong [OF assms(10), of "drop 8"] s1(3,4) by (simp add: add.commute)
  obtain name where name: "raw_disk_name disk = Some name" using assms(4) by (auto simp: raw_disk_name_def)
  obtain d1 where d1: "raw_open srv name d = Some (fd, d1)" "cells d1 = cells d" "ok d1"
    using assms(1,13) name unfolding flash_opens_def by blast
  obtain d2 where d2: "raw_block_size srv fd d1 = Some (0, of_nat bs, d2)" "cells d2 = cells d" "ok d2"
    using assms(1) d1 unfolding flash_opens_def by metis
  obtain d3 where d3: "raw_gap_size srv fd d2 = Some (0, 0, d3)" "cells d3 = cells d" "ok d3"
    using assms(1) d2 unfolding flash_opens_def by metis
  obtain b where b: "bs \<le> b" "int b \<le> buf_size cfg"
    "(if word_of_int (buf_size cfg) < ITH_ALIGN_UP (of_nat ?n) (2 ^ k) then word_of_int (buf_size cfg)
      else ITH_ALIGN_UP (of_nat ?n) (2 ^ k)) = (of_nat b :: 32 word)"
    using raw_bufsize [OF assms(5,3), of ?n] assms(2,6,8,9) by auto
  obtain buf where buf: "ug_malloc cfg (int b) = Some buf" "length buf = b"
    using cfg_ok_malloc [OF assms(5) b(2)] .
  have b31: "b < 2 ^ 31" using assms(5) b(2) by (auto simp: cfg_ok_def)
  have k31: "bs < 2 ^ 31" using b(1) b31 by simp
  have nz: "(2 :: 32 word) ^ k \<noteq> 0" using u32_eq [of bs 0] k31 assms(2) by simp
  have p: "position div 2 ^ k = of_nat p"
  proof (rule word_unat_eq_iff [THEN iffD2])
    show "unat (position div 2 ^ k) = unat (of_nat p :: 32 word)"
      using u32_of_nat(1) [OF k31] u32_of_nat(1) [OF assms(12)] assms(2,11) by (simp add: unat_div)
  qed
  have "raw_device cfg ops srv fd disk position (of_nat ?n) s1 d1
      = raw_transfer cfg ops srv fd disk (of_nat bs) (of_nat ?n) (of_nat b) (of_nat p) buf s1 d3"
    unfolding raw_device_def d2(1) bind.bind_lunit prod.case d3(1) add_0_right Let_def assms(2) of_nat_power of_nat_numeral b(3) p
    using buf(1) nz assms(2) u32_of_nat(2) [OF b31] by simp
  then have "ugUpgradeRawData cfg ops srv s d disk =
       do { (ret, f, d) \<leftarrow> raw_transfer cfg ops srv fd disk (of_nat bs) (of_nat ?n) (of_nat b) (of_nat p) buf s1 d3;
            d \<leftarrow> raw_close srv fd d; Some (ret, f, d) }"
    using assms(1) s1(1) d1(1) name by (simp add: ugUpgradeRawData_def le_simps flash_opens_def)
  then show thesis using that [OF s1(2) dt d3(3,2) buf(2) b(1,2)] by blast
qed

lemma ugUpgradeRawData_block:
  assumes "flash_ok ok srv fd bs cur cells" "flash_opens ok srv disk fd bs cells" "bs = 2 ^ k" "k < 31"
    "disk \<in> {ITP_DISK_NOR, ITP_DISK_SD0, ITP_DISK_SD1}"
    "cfg_ok cfg" "int bs \<le> buf_size cfg" "valid s" "length data < 2 ^ 31" "data \<noteq> []"
    "drop (posn s) (content s) = le_of_word 4 (position :: 32 word) @ le_of_word 4 (of_nat (length data) :: 32 word) @ data @ rest"
    "p = unat position div bs" "p < 2 ^ 31" "(p + blocks_for bs (length data)) * bs \<le> length (cells d)" "ok d"
  shows "\<exists>ret s' d'. ugUpgradeRawData cfg ops srv s d disk = Some (ret, s', d')
    \<and> raw_outcome cells bs p data (flash_stores ok srv fd bs cur cells) d ret d'
    \<and> (\<exists>d1. ok d1 \<and> raw_close srv fd d1 = Some d')"
proof -
  obtain s1 d1 b buf where t: "valid s1" "take (length data) (drop (posn s1) (content s1)) = data"
    "ok d1" "cells d1 = cells d" "length buf = b" "bs \<le> b" "int b \<le> buf_size cfg"
    "ugUpgradeRawData cfg ops srv s d disk =
       do { (ret, f, d) \<leftarrow> raw_transfer cfg ops srv fd disk (of_nat bs) (of_nat (length data)) (of_nat b) (of_nat p) buf s1 d1;
            d \<leftarrow> raw_close srv fd d; Some (ret, f, d) }"
    using raw_upgrade_transfers [OF assms(2-13,15)] by metis
  have "disk \<noteq> ITP_DISK_NAND" "0 < length data" "(p + blocks_for bs (length data)) * bs \<le> length (cells d1)"
    using assms(5,10,14) t(4) by auto
  from raw_transfer_ok [OF assms(1,3,4) this(1) assms(6) t(1,2) refl this(2) assms(9) t(5-7) assms(13) this(3) t(3)]
  obtain ret s' d' where r: "raw_transfer cfg ops srv fd disk (of_nat bs) (of_nat (length data)) (of_nat b) (of_nat p) buf s1 d1
      = Some (ret, s', d')"
    "raw_outcome cells bs p data (flash_stores ok srv fd bs cur cells) d1 ret d'" "ok d'" by blast
  moreover obtain d4 where d4: "raw_close srv fd d' = Some d4" "cells d4 = cells d'"
    using assms(2) r(3) unfolding flash_opens_def by blast
  ultimately show ?thesis
    using t(8) r(3) raw_outcome_cells [OF r(2) t(4) d4(2) [symmetric]] by auto
qed

end

end
