(* ===== verification/Itp_Nor.thy ===== *)
theory Itp_Nor
  imports Itp_Posix Nor_ChipProps Ug_RawProps
begin

text \<open>
  The flash as devices: \<open>:nor\<close> (\<open>sdk/driver/itp/itp_nor.c\<close>) over the driver of the chip, and \<open>:sd:0\<close>,
  \<open>:sd:1\<close> (\<open>sdk/driver/itp/itp_sd.c\<close>) over the card driver, which is a parameter. A raw data block of a package
  goes through \<open>open\<close>, \<open>lseek\<close> and \<open>write\<close> of the device layer and \<open>_NorWrite\<close> to \<open>NorWrite\<close>, and to the chip.
\<close>

subsection \<open>The NOR device\<close>

text \<open>\<open>ItpNor\<close> and the block size with the flash behind them. \<open>len\<close> and \<open>ptr\<close> count blocks.\<close>

record 'c ITPNor =
  initCount :: "32 word"
  seekPos :: "32 word"
  norBlockSizeInBytes :: "32 word"
  flash :: 'c

definition NorOpen :: "'c ITPNor \<Rightarrow> int \<times> 'c ITPNor" where
  "NorOpen s = (0, s\<lparr>seekPos := 0\<rparr>)"

definition NorClose :: "'c ITPNor \<Rightarrow> int \<times> 'c ITPNor" where
  "NorClose s = (0, s\<lparr>initCount := initCount s - 1\<rparr>)"

text \<open>The number of bytes of a transfer: past the end of the flash it is what does not fit.\<close>

definition nor_length :: "32 word \<Rightarrow> 32 word \<Rightarrow> 'c ITPNor \<Rightarrow> 32 word" where
  "nor_length norSize len s =
     (if norSize \<le> seekPos s + len * norBlockSizeInBytes s then seekPos s + len * norBlockSizeInBytes s - norSize
      else len * norBlockSizeInBytes s)"

definition itp_NorRead ::
  "'c spi_bus \<Rightarrow> NOR_ADDR_CONTEXT \<Rightarrow> block \<Rightarrow> 32 word \<Rightarrow> 'c ITPNor \<Rightarrow> (int \<times> block \<times> 'c ITPNor) option" where
  "itp_NorRead bus x ptr len s =
     (let norSize = of_nat (NorGetCapacity x); readLength = nor_length norSize len s
      in if sint (seekPos s) \<ge> sint norSize then Some (0, ptr, s)
         else do { (norResult, bs, c) \<leftarrow> NorRead bus x (unat (seekPos s)) (unat readLength) (flash s);
                   ptr \<leftarrow> poke ptr 0 bs;
                   if norResult = 0
                   then if norBlockSizeInBytes s = 0 then None
                        else Some (sint (readLength div norBlockSizeInBytes s), ptr,
                                   s\<lparr>flash := c, seekPos := seekPos s + readLength\<rparr>)
                   else Some (-1, ptr, s\<lparr>flash := c\<rparr>) })"

definition itp_NorWrite ::
  "(nat \<Rightarrow> block option) \<Rightarrow> 'c spi_bus \<Rightarrow> NOR_ADDR_CONTEXT \<Rightarrow> block \<Rightarrow> 32 word \<Rightarrow> 'c ITPNor
     \<Rightarrow> (int \<times> 'c ITPNor) option" where
  "itp_NorWrite alloc bus x ptr len s =
     (let norSize = of_nat (NorGetCapacity x); writeLength = nor_length norSize len s
      in if sint (seekPos s) \<ge> sint norSize then Some (0, s)
         else do { bs \<leftarrow> peek ptr 0 (uint writeLength);
                   (norResult, c) \<leftarrow> NorWrite alloc bus x (unat (seekPos s)) bs (flash s);
                   if norResult = 0
                   then if norBlockSizeInBytes s = 0 then None
                        else Some (sint (writeLength div norBlockSizeInBytes s),
                                   s\<lparr>flash := c, seekPos := seekPos s + writeLength\<rparr>)
                   else Some (-1, s\<lparr>flash := c\<rparr>) })"

definition NorLseek :: "NOR_ADDR_CONTEXT \<Rightarrow> 32 word \<Rightarrow> seek_origin \<Rightarrow> 'c ITPNor \<Rightarrow> (int \<times> 'c ITPNor) option" where
  "NorLseek x ptr dir s =
     (let seek = (\<lambda>s. if norBlockSizeInBytes s = 0 then None
                      else Some (sint (seekPos s div norBlockSizeInBytes s), s))
      in case dir of
           SEEK_SET \<Rightarrow> seek (s\<lparr>seekPos := ptr * norBlockSizeInBytes s\<rparr>)
         | SEEK_CUR \<Rightarrow> seek (s\<lparr>seekPos := seekPos s + ptr * norBlockSizeInBytes s\<rparr>)
         | SEEK_END \<Rightarrow> seek (s\<lparr>seekPos := of_nat (NorGetCapacity x)\<rparr>)
         | SEEK_OTHER \<Rightarrow> Some (-1, s))"

text \<open>
  \<open>init\<close> is \<open>NorInitial\<close>, which finds out what chip it is, and \<open>flush\<close> is \<open>iteFatNorFlush\<close>. The idle
  handler is not registered here.
\<close>

definition NorInit :: "('c \<Rightarrow> 'c) \<Rightarrow> NOR_ADDR_CONTEXT \<Rightarrow> 'c ITPNor \<Rightarrow> 'c ITPNor" where
  "NorInit init x s = s\<lparr>flash := init (flash s),
     norBlockSizeInBytes := of_nat (bytesPerPage x) * of_nat (pagesPerSector_N x) * of_nat (sectorsPerBlock_N x)\<rparr>"

definition NorIoctl ::
  "('c \<Rightarrow> 'c) \<Rightarrow> ('c ITPNor \<Rightarrow> 'c ITPNor) \<Rightarrow> NOR_ADDR_CONTEXT \<Rightarrow> nat \<Rightarrow> 'c ITPNor \<Rightarrow> int \<times> 32 word option \<times> 'c ITPNor" where
  "NorIoctl init iteFatNorFlush x request s =
     (if request = ITP_IOCTL_FLUSH then (0, None, iteFatNorFlush s)
      else if request = ITP_IOCTL_INIT then (0, None, NorInit init x s)
      else if request = ITP_IOCTL_GET_BLOCK_SIZE then (0, Some (norBlockSizeInBytes s), s)
      else if request = ITP_IOCTL_GET_GAP_SIZE then (0, Some 0, s)
      else (-1, None, s))"

definition itpDeviceNor ::
  "('c \<Rightarrow> 'c) \<Rightarrow> ('c ITPNor \<Rightarrow> 'c ITPNor) \<Rightarrow> (nat \<Rightarrow> block option) \<Rightarrow> 'c spi_bus \<Rightarrow> NOR_ADDR_CONTEXT
     \<Rightarrow> 'c ITPNor ITPDevice" where
  "itpDeviceNor init flush alloc bus x =
     \<lparr>dev_name = '':nor'', dev_open = (\<lambda>_. NorOpen), dev_close = (\<lambda>_. NorClose), dev_read = (\<lambda>_. itp_NorRead bus x),
      dev_write = (\<lambda>_. itp_NorWrite alloc bus x), dev_lseek = (\<lambda>_. NorLseek x), dev_ioctl = (\<lambda>_. NorIoctl init flush x)\<rparr>"

subsection \<open>The SD devices\<close>

text \<open>The card driver: 0 for success. \<open>retry\<close> counts down in \<open>sd_init\<close>.\<close>

record 'c sd_driver =
  iteSdInitializeEx :: "int \<Rightarrow> 'c \<Rightarrow> int \<times> 'c"
  iteSdTerminateEx :: "int \<Rightarrow> 'c \<Rightarrow> 'c"
  iteSdGetCapacityEx :: "int \<Rightarrow> 'c \<Rightarrow> int \<times> 32 word \<times> 32 word \<times> 'c"
  iteSdReadMultipleSectorEx :: "int \<Rightarrow> 32 word \<Rightarrow> 32 word \<Rightarrow> block \<Rightarrow> 'c \<Rightarrow> (int \<times> block \<times> 'c) option"
  iteSdWriteMultipleSectorEx :: "int \<Rightarrow> 32 word \<Rightarrow> 32 word \<Rightarrow> block \<Rightarrow> 'c \<Rightarrow> (int \<times> 'c) option"

record 'c ITPSd =
  sdIndex :: int
  sectorCnt :: "32 word"
  sdBlockSize :: "32 word"
  sdPos :: "32 word"
  sdCard :: 'c

definition SdOpen :: "'c ITPSd \<Rightarrow> int \<times> 'c ITPSd" where "SdOpen s = (sdIndex s, s)"

definition SdClose :: "'c sd_driver \<Rightarrow> 'c ITPSd \<Rightarrow> int \<times> 'c ITPSd" where
  "SdClose drv s = (0, s\<lparr>sdCard := iteSdTerminateEx drv (sdIndex s) (sdCard s), sdPos := 0, sdBlockSize := 0, sectorCnt := 0\<rparr>)"

definition sd_length :: "32 word \<Rightarrow> 'c ITPSd \<Rightarrow> 32 word" where
  "sd_length len s = (if sectorCnt s < sdPos s + len then sectorCnt s - sdPos s else len)"

definition SdRead :: "'c sd_driver \<Rightarrow> block \<Rightarrow> 32 word \<Rightarrow> 'c ITPSd \<Rightarrow> (int \<times> block \<times> 'c ITPSd) option" where
  "SdRead drv ptr len s =
     (let len = sd_length len s
      in if len = 0 then Some (0, ptr, s)
         else do { (res, ptr, c) \<leftarrow> iteSdReadMultipleSectorEx drv (sdIndex s) (sdPos s) len ptr (sdCard s);
                   if res \<noteq> 0 then Some (0, ptr, s\<lparr>sdCard := c\<rparr>)
                   else Some (sint len, ptr, s\<lparr>sdCard := c, sdPos := sdPos s + len\<rparr>) })"

definition SdWrite :: "'c sd_driver \<Rightarrow> block \<Rightarrow> 32 word \<Rightarrow> 'c ITPSd \<Rightarrow> (int \<times> 'c ITPSd) option" where
  "SdWrite drv ptr len s =
     (let len = sd_length len s
      in if len = 0 then Some (0, s)
         else do { (res, c) \<leftarrow> iteSdWriteMultipleSectorEx drv (sdIndex s) (sdPos s) len ptr (sdCard s);
                   if res \<noteq> 0 then Some (0, s\<lparr>sdCard := c\<rparr>)
                   else Some (sint len, s\<lparr>sdCard := c, sdPos := sdPos s + len\<rparr>) })"

definition SdLseek :: "32 word \<Rightarrow> seek_origin \<Rightarrow> 'c ITPSd \<Rightarrow> (int \<times> 'c ITPSd) option" where
  "SdLseek ptr dir s =
     (let s = (case dir of SEEK_CUR \<Rightarrow> s\<lparr>sdPos := sdPos s + ptr\<rparr> | SEEK_END \<Rightarrow> s | _ \<Rightarrow> s\<lparr>sdPos := ptr\<rparr>)
      in Some (sint (sdPos s), s))"

primrec sd_init :: "'c sd_driver \<Rightarrow> int \<Rightarrow> nat \<Rightarrow> 'c \<Rightarrow> int \<times> 'c" where
  "sd_init drv index 0 c = iteSdInitializeEx drv index c"
| "sd_init drv index (Suc retry) c =
     (let (res, c) = iteSdInitializeEx drv index c in if res \<noteq> 0 then sd_init drv index retry c else (res, c))"

definition SdIoctl :: "'c sd_driver \<Rightarrow> nat \<Rightarrow> 'c ITPSd \<Rightarrow> int \<times> 32 word option \<times> 'c ITPSd" where
  "SdIoctl drv request s =
     (if request = ITP_IOCTL_INIT
      then let (res, c) = sd_init drv (sdIndex s) 3 (sdCard s) in (if res \<noteq> 0 then -1 else 0, None, s\<lparr>sdCard := c\<rparr>)
      else if request = ITP_IOCTL_GET_BLOCK_SIZE
      then let (res, cnt, bsize, c) = iteSdGetCapacityEx drv (sdIndex s) (sdCard s);
               s = s\<lparr>sdCard := c, sectorCnt := cnt, sdBlockSize := bsize\<rparr>
        in if res \<noteq> 0 then (-1, None, s) else (0, Some bsize, s)
      else if request = ITP_IOCTL_GET_GAP_SIZE then (0, Some 0, s)
      else (-1, None, s))"

definition itpDeviceSd :: "string \<Rightarrow> 'c sd_driver \<Rightarrow> 'c ITPSd ITPDevice" where
  "itpDeviceSd name drv =
     \<lparr>dev_name = name, dev_open = (\<lambda>_. SdOpen), dev_close = (\<lambda>_. SdClose drv), dev_read = (\<lambda>_. SdRead drv),
      dev_write = (\<lambda>_. SdWrite drv), dev_lseek = (\<lambda>_. SdLseek), dev_ioctl = (\<lambda>_. SdIoctl drv)\<rparr>"

subsection \<open>The devices of \<open>ugUpgradeRawData\<close>\<close>

text \<open>The calls of \<open>ug_rawdata.c\<close>. The devices store the sizes they are asked for.\<close>

definition posix_size :: "'w device_table \<Rightarrow> nat \<Rightarrow> int \<Rightarrow> 'w \<Rightarrow> (int \<times> 32 word \<times> 'w) option" where
  "posix_size table request fd w =
     do { (r, v, w) \<leftarrow> posix_ioctl table fd request w; Some (r, (case v of None \<Rightarrow> 0 | Some v \<Rightarrow> v), w) }"

definition posix_raw :: "'w device_table \<Rightarrow> ('w \<Rightarrow> ITPDriveStatus list) \<Rightarrow> nat \<Rightarrow> 'w raw_services" where
  "posix_raw table drvs volume =
     \<lparr>raw_open = posix_open table drvs volume, raw_block_size = posix_size table ITP_IOCTL_GET_BLOCK_SIZE,
      raw_gap_size = posix_size table ITP_IOCTL_GET_GAP_SIZE,
      raw_lseek = (\<lambda>fd p w. posix_lseek table fd p SEEK_SET w),
      raw_write = posix_write table, raw_read = posix_read table,
      raw_close = (\<lambda>fd w. do { (_, w) \<leftarrow> posix_close table fd w; Some w })\<rparr>"

end
