(* ===== verification/Itp_NorProps.thy ===== *)
theory Itp_NorProps
  imports Itp_Nor
begin

text \<open>
  Raw data blocks of a package on the NOR flash: through the device layer, the device and the driver to a chip
  that behaves as its data sheet says; and what the device layer does with the names of the SD devices.
\<close>

lemma find_upt:
  assumes "lo \<le> i" "i < hi" "P i" "\<And>j. lo \<le> j \<Longrightarrow> j < i \<Longrightarrow> \<not> P j"
  shows "List.find P [lo..<hi] = Some i"
  unfolding find_Some_iff using assms by (intro exI [of _ "i - lo"]) auto

text \<open>The table has the NOR device, and none before it answers to the name.\<close>

definition nor_registered ::
  "'c ITPNor device_table \<Rightarrow> ('c \<Rightarrow> 'c) \<Rightarrow> ('c ITPNor \<Rightarrow> 'c ITPNor) \<Rightarrow> (nat \<Rightarrow> block option) \<Rightarrow> 'c spi_bus \<Rightarrow> NOR_ADDR_CONTEXT \<Rightarrow> bool" where
  "nor_registered table init fl alloc bus x \<longleftrightarrow> table ITP_DEVICE_NOR = Some (itpDeviceNor init fl alloc bus x)
     \<and> (\<forall>i\<in>{ITP_DEVICE_CUSTOM..<ITP_DEVICE_NOR}. \<not> posix_names table '':nor'' i)"

text \<open>The handle of \<open>:nor\<close>.\<close>

definition nor_fd :: int where "nor_fd = 4352"

lemma nor_handle:
  assumes "nor_registered table init fl alloc bus x"
  shows "posix_open table drvs vol '':nor'' s = Some (nor_fd, s\<lparr>seekPos := 0\<rparr>)"
    "handle_device table nor_fd = Some (Some (itpDeviceNor init fl alloc bus x))"
    "\<not> nor_fd < 0" "\<not> nor_fd \<le> 2" "nor_fd AND ITP_DEVICE_MASK \<noteq> 0"
proof -
  have t: "table ITP_DEVICE_NOR = Some (itpDeviceNor init fl alloc bus x)" using assms by (simp add: nor_registered_def)
  have "List.find (posix_names table '':nor'') [ITP_DEVICE_CUSTOM..<ITP_DEVICE_MAX] = Some ITP_DEVICE_NOR"
    using assms by (intro find_upt) (auto simp: nor_registered_def posix_names_def itpDeviceNor_def ITP_DEVICE_CUSTOM_def
        ITP_DEVICE_NOR_def ITP_DEVICE_MAX_def)
  then show "posix_open table drvs vol '':nor'' s = Some (nor_fd, s\<lparr>seekPos := 0\<rparr>)"
    using t by (simp add: posix_open_def posix_open_custom_def NorOpen_def itpDeviceNor_def ITP_DEVICE_NOR_def
        ITP_DEVICE_BIT_def nor_fd_def)
  show "handle_device table nor_fd = Some (Some (itpDeviceNor init fl alloc bus x))"
    using t by (simp add: handle_device_def nor_fd_def ITP_DEVICE_MASK_def ITP_DEVICE_BIT_def ITP_DEVICE_MAX_def ITP_DEVICE_NOR_def)
qed (simp_all add: nor_fd_def ITP_DEVICE_MASK_def ITP_DEVICE_BIT_def)

lemma nor_calls:
  assumes "nor_registered table init fl alloc bus x"
  shows "raw_lseek (posix_raw table drvs vol) nor_fd p s = NorLseek x p SEEK_SET s"
    "raw_write (posix_raw table drvs vol) nor_fd b n s = itp_NorWrite alloc bus x b n s"
    "raw_read (posix_raw table drvs vol) nor_fd b n s = itp_NorRead bus x b n s"
    "raw_block_size (posix_raw table drvs vol) nor_fd s = Some (0, norBlockSizeInBytes s, s)"
    "raw_gap_size (posix_raw table drvs vol) nor_fd s = Some (0, 0, s)"
    "raw_open (posix_raw table drvs vol) '':nor'' s = Some (nor_fd, s\<lparr>seekPos := 0\<rparr>)"
    "raw_close (posix_raw table drvs vol) nor_fd s = Some (s\<lparr>initCount := initCount s - 1\<rparr>)"
  using nor_handle [OF assms]
  by (simp_all add: posix_raw_def posix_lseek_def posix_write_def posix_read_def posix_size_def posix_ioctl_def posix_close_def
      itpDeviceNor_def NorIoctl_def NorClose_def ITP_IOCTL_INIT_def ITP_IOCTL_FLUSH_def ITP_IOCTL_GET_BLOCK_SIZE_def
      ITP_IOCTL_GET_GAP_SIZE_def)

subsection \<open>Whole blocks\<close>

text \<open>The device between transfers of whole blocks, away from the last block; \<open>last\<close> is what that one holds.\<close>

definition nor_device :: "NOR_ADDR_CONTEXT \<Rightarrow> nat \<Rightarrow> 'c chip_view \<Rightarrow> (nat \<Rightarrow> byte) \<Rightarrow> 'c ITPNor \<Rightarrow> bool" where
  "nor_device x eb v rest s \<longleftrightarrow> busy v (flash s) = 0 \<and> norBlockSizeInBytes s = of_nat eb \<and> eb dvd unat (seekPos s)
     \<and> (\<forall>i \<ge> NorGetCapacity x - eb. mem v (flash s) i = rest i)"

definition nor_cells :: "NOR_ADDR_CONTEXT \<Rightarrow> nat \<Rightarrow> 'c chip_view \<Rightarrow> 'c ITPNor \<Rightarrow> block" where
  "nor_cells x eb v s = map (mem v (flash s)) [0..<NorGetCapacity x - eb]"

definition nor_block :: "nat \<Rightarrow> 'c ITPNor \<Rightarrow> nat" where "nor_block eb s = unat (seekPos s) div eb"

lemma nor_cells_length [simp]: "length (nor_cells x eb v s) = NorGetCapacity x - eb"
  by (simp add: nor_cells_def)

lemma nor_cells_upd [simp]:
  "nor_cells x eb v (s\<lparr>seekPos := p\<rparr>) = nor_cells x eb v s" "nor_cells x eb v (s\<lparr>initCount := k\<rparr>) = nor_cells x eb v s"
  by (simp_all add: nor_cells_def)

lemma nor_pos:
  assumes "0 < eb" "eb < 2 ^ 31" "cap < 2 ^ 31" "norBlockSizeInBytes s = of_nat eb" "eb dvd unat (seekPos s)"
    "(nor_block eb s + n) * eb \<le> cap - eb" "eb \<le> cap"
  shows "unat (seekPos s) = nor_block eb s * eb" "n * eb < 2 ^ 31" "unat (seekPos s) + n * eb < cap"
    "nor_length (of_nat cap) (of_nat n) s = of_nat (n * eb)" "\<not> sint (seekPos s) \<ge> sint (of_nat cap :: 32 word)"
    "unat (of_nat (n * eb) :: 32 word) = n * eb" "seekPos s + of_nat (n * eb) = of_nat ((nor_block eb s + n) * eb)"
    "(of_nat (n * eb) :: 32 word) div norBlockSizeInBytes s = of_nat n" "norBlockSizeInBytes s \<noteq> 0" "n < 2 ^ 31"
proof -
  show u: "unat (seekPos s) = nor_block eb s * eb" using assms(5) by (simp add: nor_block_def)
  have e: "(nor_block eb s + n) * eb = unat (seekPos s) + n * eb" using u by (simp add: algebra_simps)
  then show l: "unat (seekPos s) + n * eb < cap" using assms(1,6,7) by linarith
  then show b: "n * eb < 2 ^ 31" using assms(3) by linarith
  show ub: "unat (of_nat (n * eb) :: 32 word) = n * eb" using u32_of_nat(1) [OF b] .
  have w: "seekPos s = of_nat (unat (seekPos s))" by simp
  have p: "seekPos s + of_nat (n * eb) = of_nat (unat (seekPos s) + n * eb)" by simp
  then show "seekPos s + of_nat (n * eb) = of_nat ((nor_block eb s + n) * eb)" unfolding e .
  have "\<not> (of_nat cap :: 32 word) \<le> of_nat (unat (seekPos s) + n * eb)"
    using u32_less [of "unat (seekPos s) + n * eb" cap] l assms(3) by (simp only: not_le)
  then show "nor_length (of_nat cap) (of_nat n) s = of_nat (n * eb)"
    unfolding nor_length_def assms(4) of_nat_mult [symmetric] p by simp
  have "sint (of_nat (unat (seekPos s)) :: 32 word) = int (unat (seekPos s))" "sint (of_nat cap :: 32 word) = int cap"
    using u32_of_nat(3) l assms(3) by (metis add_lessD1 less_trans)+
  moreover have "sint (seekPos s) = sint (of_nat (unat (seekPos s)) :: 32 word)" by simp
  ultimately show "\<not> sint (seekPos s) \<ge> sint (of_nat cap :: 32 word)" using l by linarith
  show n: "n < 2 ^ 31" using b assms(1) by (metis le_less_trans mult.right_neutral mult_le_mono2 Suc_leI One_nat_def)
  show "norBlockSizeInBytes s \<noteq> 0" using u32_eq [of eb 0] assms(1,2,4) by simp
  show "(of_nat (n * eb) :: 32 word) div norBlockSizeInBytes s = of_nat n"
    using ub u32_of_nat(1) [OF assms(2)] u32_of_nat(1) [OF n] assms(1,4) by (intro word_unat_eq_iff [THEN iffD2]) (simp add: unat_div)
qed

text \<open>The data sheet, the driver's geometry and the buffers it needs.\<close>

definition nor_works ::
  "(nat \<Rightarrow> block option) \<Rightarrow> 'c spi_bus \<Rightarrow> NOR_ADDR_CONTEXT \<Rightarrow> nat \<Rightarrow> 'c chip_view \<Rightarrow> bool" where
  "nor_works alloc bus x eb v \<longleftrightarrow> flash_chip bus x eb v \<and> plain_geometry x eb \<and> gives_buffers alloc eb
     \<and> 0 < totalBlocks x \<and> NorGetCapacity x < 2 ^ 31"

lemma nor_worksD:
  assumes "nor_works alloc bus x eb v"
  shows "flash_chip bus x eb v" "plain_geometry x eb" "gives_buffers alloc eb" "NorGetCapacity x < 2 ^ 31" "0 < totalBlocks x"
    "0 < eb" "eb < 2 ^ 31" "eb \<le> NorGetCapacity x" "eb dvd NorGetCapacity x"
proof -
  show w: "flash_chip bus x eb v" "plain_geometry x eb" "gives_buffers alloc eb" "NorGetCapacity x < 2 ^ 31" "0 < totalBlocks x"
    using assms by (auto simp: nor_works_def)
  note g = plain_geometryD [OF w(2,5)]
  show "eb dvd NorGetCapacity x" by (rule g(7))
  show "0 < eb" using g(3) by simp
  show "eb \<le> NorGetCapacity x" using w(5) unfolding g(5) by simp
  then show "eb < 2 ^ 31" using w(4) by simp
qed

lemma written_whole:
  assumes "0 < eb" "length bs = n * eb"
  shows "written eb (p * eb) bs m = (\<lambda>i. if p * eb \<le> i \<and> i < (p + n) * eb then bs ! (i - p * eb) else m i)"
proof (rule ext)
  fix i
  note s = block_start [OF assms(1), of i]
  have "i < (p + n) * eb" if "i div eb * eb < (p + n) * eb" using dvd_next [OF dvd_triv_right dvd_triv_right that] s by simp
  moreover have "p * eb \<le> i" if "p * eb \<le> i div eb * eb" using that s by (blast intro: le_trans)
  ultimately have "\<not> (p * eb \<le> i div eb * eb \<and> i div eb * eb < (p + n) * eb)" if "\<not> (p * eb \<le> i \<and> i < (p + n) * eb)"
    using that by blast
  then show "written eb (p * eb) bs m i = (if p * eb \<le> i \<and> i < (p + n) * eb then bs ! (i - p * eb) else m i)"
    using assms(2) by (auto simp: written_def algebra_simps)
qed

lemma poke_front: "length xs \<le> length b \<Longrightarrow> poke b 0 xs = Some (xs @ drop (length xs) b)"
  by (simp add: poke_def)

lemma nor_write_blocks:
  assumes W: "nor_works alloc bus x eb v" and D: "nor_device x eb v rest s" and n: "0 < n" "n * eb \<le> length b"
    and fit: "(nor_block eb s + n) * eb \<le> NorGetCapacity x - eb"
  shows "\<exists>s'. itp_NorWrite alloc bus x b (of_nat n) s = Some (int n, s') \<and> nor_device x eb v rest s'
    \<and> nor_block eb s' = nor_block eb s + n
    \<and> mem v (flash s') = (\<lambda>i. if nor_block eb s * eb \<le> i \<and> i < (nor_block eb s + n) * eb then b ! (i - nor_block eb s * eb)
         else mem v (flash s) i)"
proof -
  note w = nor_worksD [OF W]
  have d: "busy v (flash s) = 0" "norBlockSizeInBytes s = of_nat eb" "eb dvd unat (seekPos s)"
    "\<forall>i \<ge> NorGetCapacity x - eb. mem v (flash s) i = rest i" using D by (auto simp: nor_device_def)
  note N = nor_pos [OF w(6,7,4) d(2,3) fit w(8)]
  define p where "p = nor_block eb s"
  define bs where "bs = take (n * eb) b"
  have bs: "length bs = n * eb" "bs \<noteq> []" using n w(6) by (auto simp: bs_def)
  have pk: "peek b 0 (uint (of_nat (n * eb) :: 32 word)) = Some bs"
    using n(2) N(6) unfolding bs_def uint_nat by (simp only: peek_take)
  have le: "p * eb + length bs \<le> NorGetCapacity x" using N(1,3) bs(1) by (simp add: p_def)
  obtain c where c: "NorWrite alloc bus x (p * eb) bs (flash s) = Some (0, c)" "busy v c = 0" "mem v c = written eb (p * eb) bs (mem v (flash s))"
    using NorWrite_ok [OF w(1-3) d(1) bs(2) le] by blast
  define s' where "s' = s\<lparr>flash := c, seekPos := of_nat ((p + n) * eb)\<rparr>"
  have "sint (of_nat n :: 32 word) = int n" using u32_of_nat(3) [OF N(10)] .
  then have run: "itp_NorWrite alloc bus x b (of_nat n) s = Some (int n, s')"
    unfolding itp_NorWrite_def Let_def N(4) N(1) using N(5,7,8,9) pk c(1) by (simp add: s'_def p_def)
  have pb: "(p + n) * eb < 2 ^ 31" using fit w(4) by (simp add: p_def)
  have us: "unat (seekPos s') = (p + n) * eb" using u32_of_nat(1) [OF pb] by (simp add: s'_def)
  have m: "mem v c = (\<lambda>i. if p * eb \<le> i \<and> i < (p + n) * eb then b ! (i - p * eb) else mem v (flash s) i)"
    unfolding c(3) written_whole [OF w(6) bs(1)] by (rule ext) (auto simp: bs_def algebra_simps)
  have "nor_device x eb v rest s'"
    using d c(2) us fit unfolding nor_device_def by (auto simp: s'_def m p_def)
  moreover have "nor_block eb s' = p + n" using us w(6) by (simp add: nor_block_def)
  moreover have "flash s' = c" by (simp add: s'_def)
  ultimately show ?thesis unfolding p_def [symmetric] using run m by blast
qed

lemma nor_read_blocks:
  assumes W: "nor_works alloc bus x eb v" and D: "nor_device x eb v rest s" and n: "n * eb \<le> length b"
    and fit: "(nor_block eb s + n) * eb \<le> NorGetCapacity x - eb"
  shows "\<exists>s'. itp_NorRead bus x b (of_nat n) s
      = Some (int n, map (mem v (flash s)) [nor_block eb s * eb..<(nor_block eb s + n) * eb] @ drop (n * eb) b, s')
    \<and> nor_device x eb v rest s' \<and> nor_block eb s' = nor_block eb s + n \<and> mem v (flash s') = mem v (flash s)"
proof -
  note w = nor_worksD [OF W]
  have d: "busy v (flash s) = 0" "norBlockSizeInBytes s = of_nat eb" "eb dvd unat (seekPos s)"
    "\<forall>i \<ge> NorGetCapacity x - eb. mem v (flash s) i = rest i" using D by (auto simp: nor_device_def)
  note N = nor_pos [OF w(6,7,4) d(2,3) fit w(8)]
  define p where "p = nor_block eb s"
  have le: "p * eb + n * eb \<le> NorGetCapacity x" using N(1,3) by (simp add: p_def)
  obtain c where c: "NorRead bus x (p * eb) (n * eb) (flash s) = Some (0, map (mem v (flash s)) [p * eb..<p * eb + n * eb], c)"
    "busy v c = 0" "mem v c = mem v (flash s)"
    using NorRead_ok [OF w(1,2) d(1) le w(5)] by blast
  define s' where "s' = s\<lparr>flash := c, seekPos := of_nat ((p + n) * eb)\<rparr>"
  have "sint (of_nat n :: 32 word) = int n" using u32_of_nat(3) [OF N(10)] .
  moreover have "poke b 0 (map (mem v (flash s)) [p * eb..<p * eb + n * eb])
      = Some (map (mem v (flash s)) [p * eb..<(p + n) * eb] @ drop (n * eb) b)"
    using poke_front [of "map (mem v (flash s)) [p * eb..<(p + n) * eb]" b] n by (simp add: algebra_simps)
  ultimately have run: "itp_NorRead bus x b (of_nat n) s
      = Some (int n, map (mem v (flash s)) [p * eb..<(p + n) * eb] @ drop (n * eb) b, s')"
    unfolding itp_NorRead_def Let_def N(4) N(1) N(6) using N(5,7,8,9) c(1) by (simp add: s'_def p_def)
  have pb: "(p + n) * eb < 2 ^ 31" using fit w(4) by (simp add: p_def)
  have us: "unat (seekPos s') = (p + n) * eb" using u32_of_nat(1) [OF pb] by (simp add: s'_def)
  have "nor_device x eb v rest s'" using d c(2,3) us unfolding nor_device_def by (auto simp: s'_def)
  moreover have "nor_block eb s' = p + n" using us w(6) by (simp add: nor_block_def)
  moreover have "flash s' = c" by (simp add: s'_def)
  ultimately show ?thesis unfolding p_def [symmetric] using run c(3) by blast
qed

lemma nor_seek_blocks:
  assumes W: "nor_works alloc bus x eb v" and D: "nor_device x eb v rest s" and p: "p * eb \<le> NorGetCapacity x - eb"
  shows "\<exists>s'. NorLseek x (of_nat p) SEEK_SET s = Some (int p, s') \<and> nor_device x eb v rest s' \<and> nor_block eb s' = p
    \<and> flash s' = flash s"
proof -
  note w = nor_worksD [OF W]
  define s' where "s' = s\<lparr>seekPos := of_nat p * norBlockSizeInBytes s\<rparr>"
  have d: "norBlockSizeInBytes s' = of_nat eb" using D by (simp add: nor_device_def s'_def)
  have pb: "p * eb < 2 ^ 31" using p w(4) by linarith
  have sp: "seekPos s' = of_nat (p * eb)" using D by (simp add: nor_device_def s'_def)
  have us: "unat (seekPos s') = p * eb" unfolding sp using u32_of_nat(1) [OF pb] .
  have nb: "nor_block eb s' = p" using us w(6) by (simp add: nor_block_def)
  have dv: "nor_device x eb v rest s'" using D us by (simp add: nor_device_def s'_def)
  have "(nor_block eb s' + 0) * eb \<le> NorGetCapacity x - eb" using p nb by simp
  note N = nor_pos [OF w(6,7,4) d _ this w(8)]
  have e: "eb dvd unat (seekPos s')" using us by simp
  have p31: "p < 2 ^ 31" using pb w(6) by (metis le_less_trans mult.right_neutral mult_le_mono2 Suc_leI One_nat_def)
  have "seekPos s' div norBlockSizeInBytes s' = of_nat p"
    unfolding d using us u32_of_nat(1) [OF w(7)] u32_of_nat(1) [OF p31] w(6)
    by (intro word_unat_eq_iff [THEN iffD2]) (simp add: unat_div)
  moreover have "sint (of_nat p :: 32 word) = int p" using u32_of_nat(3) [OF p31] .
  ultimately have "NorLseek x (of_nat p) SEEK_SET s = Some (int p, s')"
    using N(9) e by (simp add: NorLseek_def s'_def)
  then show ?thesis using dv nb by (intro exI [of _ s']) (simp add: s'_def)
qed

lemma take_uptD: "i \<in> set (take k [0..<n]) \<Longrightarrow> i < k"
  and drop_uptD: "i \<in> set (drop k [0..<n]) \<Longrightarrow> k \<le> i"
  by (auto simp: in_set_conv_nth)

lemma nor_flash_ok:
  assumes W: "nor_works alloc bus x eb v" and T: "nor_registered table init fl alloc bus x"
  shows "flash_ok (nor_device x eb v rest) (posix_raw table drvs vol) nor_fd eb (nor_block eb) (nor_cells x eb v)"
proof -
  note w = nor_worksD [OF W]
  have "\<exists>d'. NorLseek x (of_nat p) SEEK_SET d = Some (int p, d') \<and> nor_block eb d' = p \<and> nor_cells x eb v d' = nor_cells x eb v d
      \<and> nor_device x eb v rest d'" if "nor_device x eb v rest d" "p * eb \<le> NorGetCapacity x - eb" for p d
    using nor_seek_blocks [OF W that] by (force simp: nor_cells_def)
  moreover have "\<exists>d'. itp_NorWrite alloc bus x b (of_nat n) d = Some (int n, d') \<and> nor_block eb d' = nor_block eb d + n
      \<and> take (nor_block eb d * eb) (nor_cells x eb v d') = take (nor_block eb d * eb) (nor_cells x eb v d)
      \<and> drop ((nor_block eb d + n) * eb) (nor_cells x eb v d') = drop ((nor_block eb d + n) * eb) (nor_cells x eb v d)
      \<and> nor_device x eb v rest d'"
    if "nor_device x eb v rest d" "0 < n" "n * eb \<le> length b" "(nor_block eb d + n) * eb \<le> NorGetCapacity x - eb" for b n d
    using nor_write_blocks [OF W that]
    by (elim exE conjE) (auto simp: nor_cells_def take_map drop_map dest: take_uptD drop_uptD)
  moreover have "\<exists>d'. itp_NorRead bus x b (of_nat n) d
        = Some (int n, take (n * eb) (drop (nor_block eb d * eb) (nor_cells x eb v d)) @ drop (n * eb) b, d')
      \<and> nor_block eb d' = nor_block eb d + n \<and> nor_cells x eb v d' = nor_cells x eb v d \<and> nor_device x eb v rest d'"
    if "nor_device x eb v rest d" "n * eb \<le> length b" "(nor_block eb d + n) * eb \<le> NorGetCapacity x - eb" for b n d
    using nor_read_blocks [OF W that] that(3) by (elim exE conjE) (simp add: nor_cells_def take_map drop_map algebra_simps)
  ultimately show ?thesis unfolding flash_ok_def nor_calls [OF T] by simp
qed

lemma nor_flash_stores:
  assumes W: "nor_works alloc bus x eb v" and T: "nor_registered table init fl alloc bus x"
  shows "flash_stores (nor_device x eb v rest) (posix_raw table drvs vol) nor_fd eb (nor_block eb) (nor_cells x eb v)"
proof -
  have "take (n * eb) (drop (nor_block eb d * eb) (nor_cells x eb v d')) = take (n * eb) b"
    if D: "nor_device x eb v rest d" and n: "n * eb \<le> length b" "(nor_block eb d + n) * eb \<le> NorGetCapacity x - eb"
      and r: "itp_NorWrite alloc bus x b (of_nat n) d = Some (r, d')" for b n d r d'
  proof (cases "n = 0")
    case False
    then show ?thesis using nor_write_blocks [OF W D _ n] r n
      by (intro nth_equalityI) (auto simp: nor_cells_def algebra_simps)
  qed simp
  then show ?thesis unfolding flash_stores_def nor_calls [OF T] by simp
qed

lemma nor_flash_opens:
  assumes W: "nor_works alloc bus x eb v" and T: "nor_registered table init fl alloc bus x"
  shows "flash_opens (nor_device x eb v rest) (posix_raw table drvs vol) ITP_DISK_NOR nor_fd eb (nor_cells x eb v)"
proof -
  have "nor_fd \<noteq> -1" by (simp add: nor_fd_def)
  then show ?thesis unfolding flash_opens_def nor_calls [OF T]
    by (auto simp: raw_disk_name_def nor_calls [OF T] nor_device_def)
qed

subsection \<open>The last block\<close>

lemma nor_write_last:
  assumes W: "nor_works alloc bus x eb v" and D: "norBlockSizeInBytes s = of_nat eb" "unat (seekPos s) = NorGetCapacity x - eb"
  shows "itp_NorWrite alloc bus x b 1 s = Some (-1, s)"
proof -
  note w = nor_worksD [OF W]
  have "seekPos s + of_nat eb = of_nat (unat (seekPos s) + eb)" by simp
  also have "\<dots> = of_nat (NorGetCapacity x)" using D(2) w(8) by simp
  finally have e: "seekPos s + of_nat eb = of_nat (NorGetCapacity x)" .
  have l: "nor_length (of_nat (NorGetCapacity x)) 1 s = 0" using D(1) e by (simp add: nor_length_def)
  have "NorGetCapacity x - eb < 2 ^ 31" using w(4) by simp
  then have "sint (of_nat (unat (seekPos s)) :: 32 word) = int (NorGetCapacity x - eb)" unfolding D(2) by (rule u32_of_nat(3))
  then have "sint (seekPos s) = int (NorGetCapacity x - eb)" by (simp only: of_nat_unat) simp
  then have "\<not> sint (seekPos s) \<ge> sint (of_nat (NorGetCapacity x) :: 32 word)"
    using u32_of_nat(3) [OF w(4)] w(6,8) by linarith
  moreover have "NorWrite alloc bus x (unat (seekPos s)) [] (flash s) = Some (1, flash s)" by (simp add: NorWrite_def)
  ultimately show ?thesis unfolding itp_NorWrite_def Let_def l by (simp add: peek_def)
qed

context itc_reader
begin

lemma raw_write_refused:
  assumes "raw_write srv fd (take n (drop (posn s) (content s)) @ drop n buf) 1 d = Some (-1, d')" "\<not> nand"
    "valid s" "posn s + n \<le> length (content s)" "0 < n" "n \<le> 2 ^ k" "k < 31" "2 ^ k \<le> length buf"
  shows "\<exists>buf' s'. raw_write_loop ops srv fd nand (of_nat (2 ^ k)) pos2 (of_nat n) buf s d = Some (160, buf', s', d')"
proof -
  have k: "2 ^ k < (2 :: nat) ^ 31" using assms(7) by (intro power_strict_increasing) auto
  have n: "n < 2 ^ 31" using assms(6) k by simp
  obtain s1 where s1: "Read ops s buf (int n) = Some (int n, take n (drop (posn s) (content s)) @ drop n buf, s1)"
    using read_all [OF assms(3) le_trans [OF assms(6,8)] n assms(4)] by blast
  have al: "ITH_ALIGN_UP (of_nat n) (of_nat (2 ^ k)) div of_nat (2 ^ k) = (1 :: 32 word)"
    using align_block [of n k] assms(5,6,7) by simp
  have nz: "(of_nat (2 ^ k) :: 32 word) \<noteq> 0" using u32_eq [of "2 ^ k" 0] k by simp
  have "min n (2 ^ k) = n" using assms(6) by simp
  then show ?thesis
    using raw_readsize_plain [OF assms(2) k n, of pos2] u32_of_nat(3) [OF n] s1 al nz assms(1)
    by (subst raw_write_loop.simps) (simp add: Let_def)
qed

lemma raw_last_block_refused:
  assumes W: "nor_works alloc bus x eb v" and T: "nor_registered table init fl alloc bus x"
    and d: "nor_device x eb v rest d" and k: "eb = 2 ^ k" "k < 31"
    and c: "cfg_ok cfg" "int eb \<le> buf_size cfg" "valid s" "data \<noteq> []" "length data \<le> eb"
    "drop (posn s) (content s) = le_of_word 4 (position :: 32 word) @ le_of_word 4 (of_nat (length data) :: 32 word) @ data @ tl_bs"
    and p: "unat position div eb = totalBlocks x - 1"
  shows "\<exists>s' d'. ugUpgradeRawData cfg ops (posix_raw table drvs vol) s d ITP_DISK_NOR = Some (160, s', d')
    \<and> mem v (flash d') = mem v (flash d)"
proof -
  note w = nor_worksD [OF W] and C = nor_calls [OF T]
  have k31: "length data < 2 ^ 31" using c(5) w(7) by simp
  have cap: "NorGetCapacity x = eb * totalBlocks x" using plain_geometryD(5) [OF w(2,5)] .
  have pe: "(totalBlocks x - 1) * eb = NorGetCapacity x - eb" using cap w(5) by (simp add: algebra_simps diff_mult_distrib2)
  have "totalBlocks x - 1 \<le> (totalBlocks x - 1) * eb" using w(6) by simp
  then have p31: "totalBlocks x - 1 < 2 ^ 31" using pe w(4) by linarith
  obtain s1 d1 b buf where t: "valid s1" "take (length data) (drop (posn s1) (content s1)) = data"
    "nor_device x eb v rest d1" "length buf = b" "eb \<le> b" "mem v (flash d1) = mem v (flash d)"
    "ugUpgradeRawData cfg ops (posix_raw table drvs vol) s d ITP_DISK_NOR =
       do { (ret, f, d) \<leftarrow> raw_transfer cfg ops (posix_raw table drvs vol) nor_fd ITP_DISK_NOR (of_nat eb) (of_nat (length data))
                           (of_nat b) (of_nat (totalBlocks x - 1)) buf s1 d1;
            d \<leftarrow> raw_close (posix_raw table drvs vol) nor_fd d; Some (ret, f, d) }"
  proof (rule raw_upgrade_transfers [where p = "totalBlocks x - 1",
        OF nor_flash_opens [OF W T, of rest drvs vol] k(1,2) _ c(1-3) k31 c(4,6) _ p31 d], goal_cases)
    case (3 s1 d1 b buf)
    note P = 3
    have "mem v (flash d1) = mem v (flash d)"
    proof (rule ext)
      fix i
      show "mem v (flash d1) i = mem v (flash d) i"
        using P(4,5) d arg_cong [OF P(5), of "\<lambda>l. l ! i"] unfolding nor_device_def nor_cells_def
        by (cases "i < NorGetCapacity x - eb") auto
    qed
    then show thesis using P that by blast
  qed (use p in auto)
  obtain d2 where d2: "NorLseek x (of_nat (totalBlocks x - 1)) SEEK_SET d1 = Some (int (totalBlocks x - 1), d2)"
    "nor_device x eb v rest d2" "nor_block eb d2 = totalBlocks x - 1" "flash d2 = flash d1"
    using nor_seek_blocks [OF W t(3), of "totalBlocks x - 1"] pe by auto
  have "eb dvd unat (seekPos d2)" using d2(2) by (simp add: nor_device_def)
  then have "unat (seekPos d2) = nor_block eb d2 * eb" by (simp add: nor_block_def)
  then have "unat (seekPos d2) = NorGetCapacity x - eb" unfolding d2(3) pe .
  then have wl: "itp_NorWrite alloc bus x bf 1 d2 = Some (-1, d2)" for bf
    using nor_write_last [OF W] d2(2) by (simp add: nor_device_def)
  have le: "posn s1 + length data \<le> length (content s1)" using arg_cong [OF t(2), of length] c(4) by (cases "posn s1 \<le> length (content s1)") auto
  obtain buf' s2 where "raw_write_loop ops (posix_raw table drvs vol) nor_fd False (of_nat eb) (int (totalBlocks x - 1))
      (of_nat (length data)) buf s1 d2 = Some (160, buf', s2, d2)"
    using raw_write_refused [OF _ _ t(1) le, of "posix_raw table drvs vol" nor_fd buf d2 d2 False k "int (totalBlocks x - 1)"]
      t(4,5) c(4,5) k(2) unfolding C wl k(1) by fastforce
  then have "ugUpgradeRawData cfg ops (posix_raw table drvs vol) s d ITP_DISK_NOR
      = Some (160, s2, d2\<lparr>initCount := initCount d2 - 1\<rparr>)"
    unfolding t(7) raw_transfer_def C d2(1) by simp
  then show ?thesis using d2(4) t(6) by auto
qed

end

subsection \<open>The names of the SD devices\<close>

text \<open>The device that is opened is the first one whose name begins as the one asked for up to the second colon.\<close>

lemma posix_open_prefix:
  assumes "name = '':'' @ cs @ '':'' @ sub" "CHR '':'' \<notin> set cs"
  shows "posix_open table drvs vol name w =
    Some (case List.find (posix_names table ('':'' @ cs)) [ITP_DEVICE_CUSTOM..<ITP_DEVICE_MAX] of None \<Rightarrow> (-1, w)
       | Some i \<Rightarrow>
           let (subfile, w) = dev_open (the (table i)) (Some sub) w
           in if subfile = -1 then (-1, w) else (push_bit ITP_DEVICE_BIT (int i) OR subfile, w))"
proof -
  have "dropWhile (\<lambda>c. c \<noteq> CHR '':'') (cs @ '':'' @ sub) = '':'' @ sub"
    using assms(2) by (induction cs) auto
  then show ?thesis unfolding assms(1) by (simp add: posix_open_def posix_open_custom_def Let_def cong: option.case_cong)
qed

lemma sd1_name:
  assumes "table ITP_DEVICE_SD0 = Some (dev_part info put (itpDeviceSd '':sd:0'' drv))"
    "\<forall>i\<in>{ITP_DEVICE_CUSTOM..<ITP_DEVICE_SD0}. \<not> posix_names table '':sd'' i"
  shows "posix_open table drvs vol '':sd:1'' w = posix_open table drvs vol '':sd:0'' w"
proof -
  have "List.find (posix_names table '':sd'') [ITP_DEVICE_CUSTOM..<ITP_DEVICE_MAX] = Some ITP_DEVICE_SD0"
    using assms by (intro find_upt) (auto simp: posix_names_def dev_part_def itpDeviceSd_def ITP_DEVICE_CUSTOM_def
        ITP_DEVICE_SD0_def ITP_DEVICE_MAX_def)
  then have find_sd: "List.find (posix_names table ('':'' @ ''sd'')) [ITP_DEVICE_CUSTOM..<ITP_DEVICE_MAX] = Some ITP_DEVICE_SD0"
    by (simp only: append.simps)
  have "'':sd:1'' = '':'' @ ''sd'' @ '':'' @ ''1''" "'':sd:0'' = '':'' @ ''sd'' @ '':'' @ ''0''" "CHR '':'' \<notin> set ''sd''" by simp_all
  note open1 = posix_open_prefix [OF this(1,3)] and open0 = posix_open_prefix [OF this(2,3)]
  show ?thesis unfolding open1 open0 find_sd option.case assms(1) option.sel by (simp add: dev_part_def itpDeviceSd_def)
qed

lemma raw_device_disk:
  assumes "disk \<noteq> ITP_DISK_NAND" "disk' \<noteq> ITP_DISK_NAND"
  shows "raw_device cfg ops srv fd disk = raw_device cfg ops srv fd disk'"
proof -
  have n: "(disk = ITP_DISK_NAND) = False" "(disk' = ITP_DISK_NAND) = False" using assms by simp_all
  show ?thesis by (intro ext) (simp only: raw_device_def raw_transfer_def n)
qed

end
