(* ===== verification/Net_Dhcps.thy ===== *)
theory Net_Dhcps
  imports CB_Prelude
begin

text \<open>
  The DHCP server of the access point, \<open>sdk/share/dhcps/dhcps.c\<close>: parsing a message, the table of leases,
  building the reply. The message is the structure \<open>dhcp_msg\<close> in the buffer that lwIP hands over; its
  \<open>options\<close> are the memory from there to the end of that buffer, and the reply is built in place. lwIP itself
  is not modelled: what \<open>udp_sendto\<close> is given is returned.
\<close>

record dhcp_msg =
  bop :: byte
  htype :: byte
  hlen :: byte
  hops :: byte
  xid :: block
  secs :: block
  bflags :: block
  ciaddr :: block
  yiaddr :: block
  siaddr :: block
  giaddr :: block
  chaddr :: block
  sname :: block
  bfile :: block
  options :: block

definition BOOTP_BROADCAST :: block where "BOOTP_BROADCAST = [0x80, 0]"
definition DHCP_REPLY :: byte where "DHCP_REPLY = 2"
definition DHCPDISCOVER :: nat where "DHCPDISCOVER = 1"
definition DHCPOFFER :: byte where "DHCPOFFER = 2"
definition DHCPREQUEST :: nat where "DHCPREQUEST = 3"
definition DHCPDECLINE :: nat where "DHCPDECLINE = 4"
definition DHCPACK :: byte where "DHCPACK = 5"
definition DHCPNAK :: byte where "DHCPNAK = 6"
definition DHCPRELEASE :: nat where "DHCPRELEASE = 7"
definition DHCP_OPTION_REQ_IPADDR :: byte where "DHCP_OPTION_REQ_IPADDR = 50"
definition DHCP_OPTION_MSG_TYPE :: byte where "DHCP_OPTION_MSG_TYPE = 53"
definition DHCP_OPTION_END :: byte where "DHCP_OPTION_END = 255"
definition magic_cookie :: block where "magic_cookie = [99, 130, 83, 99]"
definition null_chaddr :: block where "null_chaddr = replicate 16 0"

definition DHCPS_STATE_OFFER :: nat where "DHCPS_STATE_OFFER = 1"
definition DHCPS_STATE_ACK :: nat where "DHCPS_STATE_ACK = 3"
definition DHCPS_STATE_NAK :: nat where "DHCPS_STATE_NAK = 4"
definition DHCPS_STATE_IDLE :: nat where "DHCPS_STATE_IDLE = 5"

text \<open>The server: addresses are their four bytes in network order; the tables have \<open>CFG_DHCPS_ADDR_COUNT\<close> entries.\<close>

record dhcps =
  sstate :: nat
  sxid :: block
  server_address :: block
  client_addresses :: "block list"
  chaddres :: "block list"

subsection \<open>Building the reply\<close>

definition add_msg_type :: "byte \<Rightarrow> block" where
  "add_msg_type ty = [DHCP_OPTION_MSG_TYPE, 1, ty]"

definition add_offer_options :: "block \<Rightarrow> block" where
  "add_offer_options ip =
     [1, 4, 255, 255, 255, 0]
     @ [51, 4, 0x00, 0xED, 0x4E, 0x00]
     @ [54, 4, ip ! 0, ip ! 1, ip ! 2, ip ! 3]
     @ [28, 4, ip ! 0, ip ! 1, ip ! 2, 255]
     @ [26, 2, 0x05, 0xDC]
     @ [6, 4, ip ! 0, ip ! 1, ip ! 2, ip ! 3]
     @ [3, 4, ip ! 0, ip ! 1, ip ! 2, ip ! 3]
     @ [43, 6, 0x01, 4, 0x00, 0x00, 0x00, 0x02]"

definition add_end :: block where "add_end = [DHCP_OPTION_END]"

text \<open>The entry of the client: its own, else a free one, else the first.\<close>

definition find_chaddr :: "block \<Rightarrow> dhcps \<Rightarrow> nat option" where
  "find_chaddr hw s = List.find (\<lambda>i. chaddres s ! i = hw) [0..<length (chaddres s)]"

definition take_lease :: "block \<Rightarrow> dhcps \<Rightarrow> (nat \<times> dhcps) option" where
  "take_lease hw s =
     (case find_chaddr hw s of Some i \<Rightarrow> Some (i, s)
      | None \<Rightarrow>
          (case find_chaddr null_chaddr s of Some i \<Rightarrow> Some (i, s\<lparr>chaddres := (chaddres s)[i := hw]\<rparr>)
           | None \<Rightarrow> if chaddres s = [] then None else Some (0, s\<lparr>chaddres := (chaddres s)[0 := hw]\<rparr>)))"

definition create_msg :: "dhcp_msg \<Rightarrow> dhcps \<Rightarrow> (dhcp_msg \<times> dhcps) option" where
  "create_msg m s =
     do { (i, s) \<leftarrow> take_lease (chaddr m) s;
          opts \<leftarrow> poke (options m) 0 (replicate 312 0);
          opts \<leftarrow> poke opts 0 magic_cookie;
          Some (m\<lparr>bop := DHCP_REPLY, htype := 1, hlen := 6, hops := 0, secs := [0, 0], bflags := BOOTP_BROADCAST,
                  yiaddr := client_addresses s ! i, ciaddr := replicate 4 0, siaddr := replicate 4 0,
                  giaddr := replicate 4 0, sname := replicate 64 0, bfile := replicate 128 0, options := opts\<rparr>,
                s\<lparr>sxid := xid m\<rparr>) }"

definition send_msg :: "block \<Rightarrow> dhcp_msg \<Rightarrow> dhcps \<Rightarrow> (dhcp_msg \<times> dhcps) option" where
  "send_msg bs m s = do { (m, s) \<leftarrow> create_msg m s; opts \<leftarrow> poke (options m) 4 bs; Some (m\<lparr>options := opts\<rparr>, s) }"

definition send_offer :: "dhcp_msg \<Rightarrow> dhcps \<Rightarrow> (dhcp_msg \<times> dhcps) option" where
  "send_offer m s = send_msg (add_msg_type DHCPOFFER @ add_offer_options (server_address s) @ add_end) m s"

definition send_nak :: "dhcp_msg \<Rightarrow> dhcps \<Rightarrow> (dhcp_msg \<times> dhcps) option" where
  "send_nak m s = send_msg (add_msg_type DHCPNAK @ add_end) m s"

definition send_ack :: "dhcp_msg \<Rightarrow> dhcps \<Rightarrow> (dhcp_msg \<times> dhcps) option" where
  "send_ack m s = send_msg (add_msg_type DHCPACK @ add_offer_options (server_address s) @ add_end) m s"

subsection \<open>Parsing\<close>

text \<open>
  The loop over the options, from \<open>o\<close> to \<open>e\<close>; the message type and the state are carried along. The option
  \<open>DHCP_OPTION_END\<close> is skipped as any other one.
\<close>

function options_loop :: "block list \<Rightarrow> block \<Rightarrow> int \<Rightarrow> int \<Rightarrow> nat \<Rightarrow> nat \<Rightarrow> (nat \<times> nat) option" where
  "options_loop addrs opts pos e ty st =
     (if pos < e
      then do { tag \<leftarrow> peek opts pos 1;
                (ty, st) \<leftarrow>
                  (if tag = [DHCP_OPTION_MSG_TYPE] then do { bs \<leftarrow> peek opts (pos + 2) 1; Some (unat (hd bs), st) }
                   else if tag = [DHCP_OPTION_REQ_IPADDR] \<and> addrs = [] then Some (ty, DHCPS_STATE_NAK)
                   else if tag = [DHCP_OPTION_REQ_IPADDR]
                   then do { bs \<leftarrow> peek opts (pos + 2) 4;
                             Some (ty, if bs \<in> set addrs then DHCPS_STATE_ACK else DHCPS_STATE_NAK) }
                   else Some (ty, st));
                n \<leftarrow> peek opts (pos + 1) 1;
                options_loop addrs opts (pos + uint (hd n) + 2) e ty st }
      else Some (ty, st))"
  by pat_completeness auto
termination by (relation "measure (\<lambda>(addrs, opts, pos, e, ty, st). nat (e - pos))") (auto intro: order.strict_trans1 [of _ 0])

declare options_loop.simps [simp del]

definition parse_options :: "block \<Rightarrow> int \<Rightarrow> int \<Rightarrow> dhcps \<Rightarrow> (nat \<times> dhcps) option" where
  "parse_options opts optptr len s =
     do { (ty, st) \<leftarrow> options_loop (client_addresses s) opts optptr (optptr + len) 0 DHCPS_STATE_IDLE;
          let st = (if ty = DHCPDECLINE \<or> ty = DHCPDISCOVER \<or> ty = DHCPRELEASE then DHCPS_STATE_OFFER
                    else if ty = DHCPREQUEST \<and> st \<noteq> DHCPS_STATE_ACK \<and> st \<noteq> DHCPS_STATE_NAK then DHCPS_STATE_NAK
                    else st)
          in Some (st, s\<lparr>sstate := st\<rparr>) }"

text \<open>
  The buffer of lwIP: the message, the length of the first piece (a 16 bit number that becomes signed) and
  whether there are more pieces. \<open>coalesced\<close> is whether \<open>pbuf_coalesce\<close> found memory; it frees the buffer then,
  which is parsed nevertheless.
\<close>

record pbuf =
  pmsg :: dhcp_msg
  plen :: "16 word"
  chained :: bool

definition parse_msg :: "pbuf \<Rightarrow> dhcps \<Rightarrow> (nat \<times> dhcps) option" where
  "parse_msg p s =
     do { cookie \<leftarrow> peek (options (pmsg p)) 0 4;
          if cookie = magic_cookie then parse_options (options (pmsg p)) 4 (sint (plen p)) s else Some (0, s) }"

definition handle_dhcp :: "bool \<Rightarrow> pbuf \<Rightarrow> dhcps \<Rightarrow> (dhcp_msg option \<times> dhcps) option" where
  "handle_dhcp coalesced p s =
     (if chained p \<and> coalesced then None
      else do { (st, s) \<leftarrow> parse_msg p s;
                if st = DHCPS_STATE_OFFER then do { (m, s) \<leftarrow> send_offer (pmsg p) s; Some (Some m, s) }
                else if st = DHCPS_STATE_ACK then do { (m, s) \<leftarrow> send_ack (pmsg p) s; Some (Some m, s) }
                else if st = DHCPS_STATE_NAK then do { (m, s) \<leftarrow> send_nak (pmsg p) s; Some (Some m, s) }
                else Some (None, s) })"

subsection \<open>Starting\<close>

text \<open>The loop over the client addresses: the server's own is left out, and \<open>j\<close> is the next entry to fill.\<close>

fun init_loop :: "block \<Rightarrow> nat list \<Rightarrow> nat \<Rightarrow> block list \<Rightarrow> block list" where
  "init_loop ip [] j addrs = addrs"
| "init_loop ip (i # is) j addrs =
     (if unat (ip ! 3) = 1 + i then init_loop ip is j addrs
      else init_loop ip is (Suc j) (addrs[j := [ip ! 0, ip ! 1, ip ! 2, of_nat (1 + i)]]))"

definition dhcps_init :: "nat \<Rightarrow> block \<Rightarrow> dhcps" where
  "dhcps_init CFG_DHCPS_ADDR_COUNT ip =
     \<lparr>sstate = 0, sxid = [0xad, 0xde, 0x12, 0x23], server_address = ip,
      client_addresses = init_loop ip [0..<CFG_DHCPS_ADDR_COUNT] 0 (replicate CFG_DHCPS_ADDR_COUNT (replicate 4 0)),
      chaddres = replicate CFG_DHCPS_ADDR_COUNT null_chaddr\<rparr>"

end
