(* ===== verification/Net_DhcpsProps.thy ===== *)
theory Net_DhcpsProps
  imports Net_Dhcps
begin

text \<open>
  The DHCP server: its table of leases is a list of the clients it has seen, and a message is answered by its
  last message type and its last requested address.
\<close>

subsection \<open>The leases\<close>

text \<open>\<open>known cs s\<close>: the clients \<open>cs\<close> have been seen, in this order, and no other.\<close>

definition known :: "block list \<Rightarrow> dhcps \<Rightarrow> bool" where
  "known cs s \<longleftrightarrow> distinct cs \<and> null_chaddr \<notin> set cs \<and> length cs \<le> length (chaddres s)
     \<and> chaddres s = cs @ replicate (length (chaddres s) - length cs) null_chaddr"

definition add_client :: "block \<Rightarrow> block list \<Rightarrow> block list" where
  "add_client c cs = (if c \<in> set cs then cs else cs @ [c])"

text \<open>The entry of a client.\<close>

definition slot :: "block \<Rightarrow> block list \<Rightarrow> nat" where "slot c cs = length (takeWhile (\<lambda>d. d \<noteq> c) cs)"

lemma slot_less: "c \<in> set cs \<Longrightarrow> slot c cs < length cs"
  by (induction cs) (auto simp: slot_def)

lemma slot_nth: "c \<in> set cs \<Longrightarrow> cs ! slot c cs = c"
  using nth_length_takeWhile [of "\<lambda>d. d \<noteq> c" cs] slot_less [of c cs] by (simp add: slot_def)

lemma slot_before: "j < slot c cs \<Longrightarrow> cs ! j \<noteq> c"
  unfolding slot_def by (metis (mono_tags) nth_mem set_takeWhileD takeWhile_nth)

lemma slot_inj: "c \<in> set cs \<Longrightarrow> d \<in> set cs \<Longrightarrow> slot c cs = slot d cs \<longleftrightarrow> c = d"
  using slot_nth by metis

lemma slot_append: "c \<in> set cs \<Longrightarrow> slot c (cs @ ds) = slot c cs"
  by (simp add: slot_def takeWhile_append1 [of c])

lemma slot_new: "c \<notin> set cs \<Longrightarrow> slot c (cs @ [c]) = length cs"
  by (induction cs) (auto simp: slot_def)

lemma find_first:
  assumes "i < n" "P i" "\<And>j. j < i \<Longrightarrow> \<not> P j" shows "List.find P [0..<n] = Some i"
  unfolding find_Some_iff using assms by (intro exI [of _ i]) auto

lemma take_lease_known:
  assumes "known cs s" "c \<noteq> null_chaddr" "length (add_client c cs) \<le> length (chaddres s)"
  obtains s' where "take_lease c s = Some (slot c (add_client c cs), s')" "known (add_client c cs) s'"
    "server_address s' = server_address s" "client_addresses s' = client_addresses s" "length (chaddres s') = length (chaddres s)"
proof -
  define n where "n = length (chaddres s)"
  have tab: "chaddres s = cs @ replicate (n - length cs) null_chaddr" and len: "length cs \<le> n"
    using assms(1) by (auto simp: known_def n_def)
  have nth: "chaddres s ! i = (if i < length cs then cs ! i else null_chaddr)" if "i < n" for i
    using that tab len by (subst tab) (simp add: nth_append)
  show thesis
  proof (cases "c \<in> set cs")
    case True
    have "find_chaddr c s = Some (slot c cs)"
      unfolding find_chaddr_def n_def [symmetric]
      using slot_less [OF True] slot_nth [OF True] slot_before [of _ c cs] len nth by (intro find_first) auto
    then show thesis using that [of s] True assms(1) by (simp add: take_lease_def add_client_def)
  next
    case False
    have nz: "cs ! j \<noteq> null_chaddr" if "j < length cs" for j
      using assms(1) that by (metis known_def nth_mem)
    from False have l: "length cs < n" using assms(3) by (simp add: add_client_def n_def)
    have "find_chaddr c s = None"
      unfolding find_chaddr_def find_None_iff using False assms(2) nth by (auto simp: n_def [symmetric])
    moreover have "find_chaddr null_chaddr s = Some (length cs)"
      unfolding find_chaddr_def n_def [symmetric]
      using l nth nz by (intro find_first) auto
    ultimately have t: "take_lease c s = Some (length cs, s\<lparr>chaddres := (chaddres s)[length cs := c]\<rparr>)"
      by (simp add: take_lease_def)
    have "replicate (n - length cs) null_chaddr = null_chaddr # replicate (n - Suc (length cs)) null_chaddr"
      using l by (simp add: Suc_diff_Suc [symmetric] del: replicate_Suc flip: replicate_Suc)
    then have "(chaddres s)[length cs := c] = (cs @ [c]) @ replicate (n - Suc (length cs)) null_chaddr"
      by (simp add: tab list_update_append)
    then have "known (cs @ [c]) (s\<lparr>chaddres := (chaddres s)[length cs := c]\<rparr>)"
      using assms(1,2) False l by (simp add: known_def n_def)
    then show thesis using that t False by (simp add: add_client_def slot_new)
  qed
qed

text \<open>The replies to a sequence of messages: the addresses given out.\<close>

primrec create_msgs :: "dhcp_msg list \<Rightarrow> dhcps \<Rightarrow> (block list \<times> dhcps) option" where
  "create_msgs [] s = Some ([], s)"
| "create_msgs (m # ms) s =
     do { (m, s) \<leftarrow> create_msg m s; (as, s) \<leftarrow> create_msgs ms s; Some (yiaddr m # as, s) }"

definition clients :: "dhcp_msg list \<Rightarrow> block list \<Rightarrow> block list" where
  "clients ms cs = fold (\<lambda>m. add_client (chaddr m)) ms cs"

lemma add_client_set [simp]: "set (add_client c cs) = insert c (set cs)"
  by (auto simp: add_client_def)

lemma clients_mono: "length cs \<le> length (clients ms cs)"
proof (induction ms arbitrary: cs)
  case (Cons m ms)
  have "length cs \<le> length (add_client (chaddr m) cs)" by (simp add: add_client_def)
  also have "\<dots> \<le> length (clients ms (add_client (chaddr m) cs))" by (rule Cons.IH)
  finally show ?case by (simp add: clients_def)
qed (simp add: clients_def)

lemma clients_slot: "c \<in> set cs \<Longrightarrow> slot c (clients ms cs) = slot c cs"
proof (induction ms arbitrary: cs)
  case (Cons m ms)
  have "slot c (add_client (chaddr m) cs) = slot c cs" using Cons.prems by (simp add: add_client_def slot_append)
  then show ?case using Cons.IH [of "add_client (chaddr m) cs"] Cons.prems by (simp add: clients_def)
qed (simp add: clients_def)

lemma clients_set: "set (clients ms cs) = set cs \<union> chaddr ` set ms"
proof (induction ms arbitrary: cs)
  case (Cons m ms)
  from Cons.IH [of "add_client (chaddr m) cs"] show ?case by (simp add: clients_def)
qed (simp add: clients_def)

lemma clients_distinct: "distinct cs \<Longrightarrow> distinct (clients ms cs)"
proof (induction ms arbitrary: cs)
  case (Cons m ms)
  from Cons.IH [of "add_client (chaddr m) cs"] Cons.prems show ?case by (simp add: clients_def add_client_def)
qed (simp add: clients_def)

lemma create_msg_known:
  assumes "known cs s" "chaddr m \<noteq> null_chaddr" "length (add_client (chaddr m) cs) \<le> length (chaddres s)" "312 \<le> length (options m)"
  obtains m' s' where "create_msg m s = Some (m', s')" "yiaddr m' = client_addresses s ! slot (chaddr m) (add_client (chaddr m) cs)"
    "known (add_client (chaddr m) cs) s'" "client_addresses s' = client_addresses s" "length (chaddres s') = length (chaddres s)"
proof -
  obtain s1 where "take_lease (chaddr m) s = Some (slot (chaddr m) (add_client (chaddr m) cs), s1)" "known (add_client (chaddr m) cs) s1"
    "client_addresses s1 = client_addresses s" "length (chaddres s1) = length (chaddres s)"
    using take_lease_known [OF assms(1-3)] by metis
  then show thesis using that assms(4)
    by (simp add: create_msg_def poke_def magic_cookie_def known_def)
qed

lemma create_msgs_known:
  assumes "\<forall>m\<in>set ms. chaddr m \<noteq> null_chaddr \<and> 312 \<le> length (options m)"
  shows "known cs s \<Longrightarrow> length (clients ms cs) \<le> length (chaddres s) \<Longrightarrow>
    \<exists>s'. create_msgs ms s = Some (map (\<lambda>m. client_addresses s ! slot (chaddr m) (clients ms cs)) ms, s') \<and> known (clients ms cs) s'"
  using assms
proof (induction ms arbitrary: cs s)
  case Nil
  then show ?case by (simp add: clients_def)
next
  case (Cons m ms)
  let ?cs = "add_client (chaddr m) cs"
  have cl: "clients (m # ms) cs = clients ms ?cs" by (simp add: clients_def)
  have "length ?cs \<le> length (chaddres s)" using Cons.prems(2) clients_mono [of ?cs ms] unfolding cl by linarith
  then obtain m' s1 where m': "create_msg m s = Some (m', s1)" "yiaddr m' = client_addresses s ! slot (chaddr m) ?cs"
    "known ?cs s1" "client_addresses s1 = client_addresses s" "length (chaddres s1) = length (chaddres s)"
    using create_msg_known [OF Cons.prems(1), of m] Cons.prems(3) by auto
  obtain s' where s': "create_msgs ms s1 = Some (map (\<lambda>m. client_addresses s ! slot (chaddr m) (clients ms ?cs)) ms, s')"
    "known (clients ms ?cs) s'"
    using Cons.IH [OF m'(3)] Cons.prems(2,3) m'(4,5) unfolding cl by auto
  have "slot (chaddr m) (clients ms ?cs) = slot (chaddr m) ?cs" by (rule clients_slot) simp
  then show ?case using m'(1,2) s' unfolding cl by simp
qed

subsection \<open>The addresses\<close>

lemma init_loop_eq:
  "j + length (filter (\<lambda>i. unat (ip ! 3) \<noteq> 1 + i) is) \<le> length addrs \<Longrightarrow>
    init_loop ip is j addrs = take j addrs
      @ map (\<lambda>i. [ip ! 0, ip ! 1, ip ! 2, of_nat (1 + i)]) (filter (\<lambda>i. unat (ip ! 3) \<noteq> 1 + i) is)
      @ drop (j + length (filter (\<lambda>i. unat (ip ! 3) \<noteq> 1 + i) is)) addrs"
proof (induction ip "is" j addrs rule: init_loop.induct)
  case (2 ip i "is" j addrs)
  show ?case
  proof (cases "unat (ip ! 3) = 1 + i")
    case False
    then have "j < length addrs" using 2(3) by simp
    then show ?thesis using 2(2) 2(3) False by (simp add: take_Suc_conv_app_nth)
  qed (use 2 in simp)
qed simp

text \<open>The hosts that clients are given: those of the first \<open>n\<close> that are not the server.\<close>

definition hosts :: "nat \<Rightarrow> block \<Rightarrow> nat list" where
  "hosts n ip = filter (\<lambda>h. h \<noteq> unat (ip ! 3)) [1..<n + 1]"

lemma map_Suc_filter: "map (\<lambda>i. f (1 + i)) (filter (\<lambda>i. P (1 + i)) xs) = map f (filter P (map Suc xs))"
  by (induction xs) auto

lemma dhcps_addresses:
  "client_addresses (dhcps_init n ip) =
     map (\<lambda>h. [ip ! 0, ip ! 1, ip ! 2, of_nat h]) (hosts n ip) @ replicate (n - length (hosts n ip)) (replicate 4 0)"
  "length (hosts n ip) = (if 1 \<le> unat (ip ! 3) \<and> unat (ip ! 3) \<le> n then n - 1 else n)"
proof -
  have f: "map Suc [0..<n] = [1..<n + 1]" by (simp add: map_Suc_upt)
  have "filter (\<lambda>i. unat (ip ! 3) \<noteq> 1 + i) [0..<n] = filter (\<lambda>i. 1 + i \<noteq> unat (ip ! 3)) [0..<n]"
    by (rule filter_cong) auto
  then have m: "map (\<lambda>i. g (1 + i)) (filter (\<lambda>i. unat (ip ! 3) \<noteq> 1 + i) [0..<n]) = map g (hosts n ip)" for g :: "nat \<Rightarrow> 'a"
    using map_Suc_filter [of g "\<lambda>h. h \<noteq> unat (ip ! 3)" "[0..<n]"] unfolding hosts_def f by simp
  have l: "length (filter (\<lambda>i. unat (ip ! 3) \<noteq> 1 + i) [0..<n]) = length (hosts n ip)"
    using arg_cong [OF m [of id], of length] by simp
  moreover have "length (hosts n ip) \<le> n" using length_filter_le [of _ "[1..<n + 1]"] unfolding hosts_def by (metis add_diff_cancel_right' length_upt)
  ultimately show "client_addresses (dhcps_init n ip) =
     map (\<lambda>h. [ip ! 0, ip ! 1, ip ! 2, of_nat h]) (hosts n ip) @ replicate (n - length (hosts n ip)) (replicate 4 0)"
    using m [of "\<lambda>h. [ip ! 0, ip ! 1, ip ! 2, of_nat h]"] by (simp add: dhcps_init_def init_loop_eq)
  show "length (hosts n ip) = (if 1 \<le> unat (ip ! 3) \<and> unat (ip ! 3) \<le> n then n - 1 else n)"
  proof (cases "1 \<le> unat (ip ! 3) \<and> unat (ip ! 3) \<le> n")
    case True
    have "distinct (hosts n ip)" "set (hosts n ip) = {1..n} - {unat (ip ! 3)}" by (auto simp: hosts_def)
    then have "length (hosts n ip) = card ({1..n} - {unat (ip ! 3)})" by (metis distinct_card)
    then show ?thesis using True by simp
  next
    case False
    then have "hosts n ip = [1..<n + 1]" unfolding hosts_def by (intro filter_True) auto
    then show ?thesis using False by (auto simp del: upt_Suc)
  qed
qed

lemma hosts_range: "h \<in> set (hosts n ip) \<Longrightarrow> 1 \<le> h \<and> h \<le> n \<and> h \<noteq> unat (ip ! 3)"
  by (auto simp: hosts_def simp del: upt_Suc)

lemma hosts_distinct:
  assumes "n < 256" shows "distinct (map (\<lambda>h. [a, b, c, of_nat h :: byte]) (hosts n ip))"
proof -
  have "inj_on (\<lambda>h. [a, b, c, of_nat h :: byte]) (set (hosts n ip))"
  proof (rule inj_onI)
    fix h h' assume "h \<in> set (hosts n ip)" "h' \<in> set (hosts n ip)" "[a, b, c, of_nat h :: byte] = [a, b, c, of_nat h']"
    then have "unat (of_nat h :: byte) = unat (of_nat h' :: byte)" "h < 256" "h' < 256"
      using assms hosts_range [of h n ip] hosts_range [of h' n ip] by auto
    then show "h = h'" by (simp add: unat_of_nat take_bit_nat_eq_self)
  qed
  then show ?thesis by (simp add: distinct_map hosts_def)
qed

lemma known_init: "known [] (dhcps_init n ip)"
  by (simp add: known_def dhcps_init_def)

subsection \<open>Messages\<close>

text \<open>Options as they are encoded, and what the server makes of them.\<close>

definition enc_options :: "(byte \<times> block) list \<Rightarrow> block" where
  "enc_options opts = concat (map (\<lambda>(t, v). t # of_nat (length v) # v) opts)"

definition plain_option :: "byte \<times> block \<Rightarrow> bool" where
  "plain_option tv \<longleftrightarrow> length (snd tv) < 256
     \<and> (fst tv = DHCP_OPTION_MSG_TYPE \<longrightarrow> length (snd tv) = 1) \<and> (fst tv = DHCP_OPTION_REQ_IPADDR \<longrightarrow> length (snd tv) = 4)"

definition option_step :: "block list \<Rightarrow> byte \<times> block \<Rightarrow> nat \<times> nat \<Rightarrow> nat \<times> nat" where
  "option_step addrs = (\<lambda>(t, v) (ty, st).
     if t = DHCP_OPTION_MSG_TYPE then (unat (hd v), st)
     else if t = DHCP_OPTION_REQ_IPADDR then (ty, if v \<in> set addrs then DHCPS_STATE_ACK else DHCPS_STATE_NAK) else (ty, st))"

lemma peek_middle: "peek (xs @ ys @ zs) (int (length xs)) (int (length ys)) = Some ys"
  by (simp add: peek_def)

lemma options_loop_enc:
  assumes "\<forall>tv\<in>set opts. plain_option tv" "int (length pre + length (enc_options opts)) \<le> e + 1"
  shows "options_loop addrs (pre @ enc_options opts @ post) (int (length pre)) e ty st
    = (case fold (option_step addrs) opts (ty, st) of (ty, st) \<Rightarrow>
         options_loop addrs (pre @ enc_options opts @ post) (int (length pre + length (enc_options opts))) e ty st)"
  using assms
proof (induction opts arbitrary: pre ty st)
  case Nil
  then show ?case by (simp add: enc_options_def)
next
  case (Cons tv opts)
  obtain t v where tv: "tv = (t, v)" by (cases tv)
  define m where "m = pre @ enc_options (tv # opts) @ post"
  define pre' where "pre' = pre @ t # of_nat (length v) # v"
  have m: "m = pre' @ enc_options opts @ post" by (simp add: m_def pre'_def enc_options_def tv)
  have p: "plain_option (t, v)" using Cons.prems(1) tv by simp
  then have v: "length v < 256" by (simp add: plain_option_def)
  have pk: "peek m (int (length pre)) 1 = Some [t]" "peek m (int (length pre) + 1) 1 = Some [of_nat (length v)]"
    "peek m (int (length pre) + 2) (int (length v)) = Some v"
    using peek_middle [of pre "[t]"] peek_middle [of "pre @ [t]" "[of_nat (length v)]"] peek_middle [of "pre @ [t, of_nat (length v)]" v]
    by (simp_all add: m_def enc_options_def tv add.commute)
  have lt: "int (length pre) < e" using Cons.prems(2) by (simp add: enc_options_def tv)
  have "uint (of_nat (length v) :: byte) = int (length v)" using v by (simp add: uint_nat unat_of_nat take_bit_nat_eq_self)
  then have l: "int (length pre) + uint (of_nat (length v) :: byte) + 2 = int (length pre')" by (simp add: pre'_def)
  obtain ty' st' where s: "option_step addrs tv (ty, st) = (ty', st')" by fastforce
  have "options_loop addrs m (int (length pre)) e ty st = options_loop addrs m (int (length pre')) e ty' st'"
    using pk lt p s unfolding l [symmetric]
    by (subst options_loop.simps)
      (auto simp: option_step_def tv plain_option_def DHCP_OPTION_MSG_TYPE_def DHCP_OPTION_REQ_IPADDR_def split: if_splits)
  also have "\<dots> = (case fold (option_step addrs) opts (ty', st') of (ty, st) \<Rightarrow>
         options_loop addrs m (int (length pre' + length (enc_options opts))) e ty st)"
    unfolding m by (rule Cons.IH) (use Cons.prems in \<open>auto simp: pre'_def enc_options_def tv\<close>)
  also have "length pre' + length (enc_options opts) = length pre + length (enc_options (tv # opts))"
    by (simp add: pre'_def enc_options_def tv)
  finally show ?case using s unfolding m_def by simp
qed

text \<open>Zeros are skipped two at a time.\<close>

lemma options_loop_zeros:
  assumes "\<forall>i. p \<le> int i \<and> int i < e + 1 \<longrightarrow> i < length m \<and> m ! i = 0" "0 \<le> p"
  shows "options_loop addrs m p e ty st = Some (ty, st)"
  using assms
proof (induction "nat (e - p)" arbitrary: p rule: less_induct)
  case less
  show ?case
  proof (cases "p < e")
    case True
    then have "nat p < length m" "m ! nat p = 0" "nat (p + 1) < length m" "m ! nat (p + 1) = 0"
      using less.prems(1) [rule_format, of "nat p"] less.prems(1) [rule_format, of "nat (p + 1)"] less.prems(2) by auto
    then have "peek m p 1 = Some [0]" "peek m (p + 1) 1 = Some [0]"
      using less.prems(2) by (auto simp: peek_def take_Suc_conv_app_nth Cons_nth_drop_Suc [symmetric] hd_drop_conv_nth)
    moreover have "options_loop addrs m (p + 2) e ty st = Some (ty, st)"
      using less.hyps [of "p + 2"] less.prems True by auto
    ultimately show ?thesis using True
      by (subst options_loop.simps) (simp add: DHCP_OPTION_MSG_TYPE_def DHCP_OPTION_REQ_IPADDR_def)
  qed (subst options_loop.simps, simp)
qed

text \<open>The last message type of a message, and the last address it asks for.\<close>

definition msg_type :: "(byte \<times> block) list \<Rightarrow> nat" where
  "msg_type opts = last (0 # [unat (hd v). (t, v) \<leftarrow> opts, t = DHCP_OPTION_MSG_TYPE])"

definition requested :: "(byte \<times> block) list \<Rightarrow> block option" where
  "requested opts = last (None # [Some v. (t, v) \<leftarrow> opts, t = DHCP_OPTION_REQ_IPADDR])"

definition request_state :: "block list \<Rightarrow> block option \<Rightarrow> nat" where
  "request_state addrs a =
     (case a of None \<Rightarrow> DHCPS_STATE_IDLE | Some a \<Rightarrow> if a \<in> set addrs then DHCPS_STATE_ACK else DHCPS_STATE_NAK)"

lemma option_fold:
  "fold (option_step addrs) opts (0, DHCPS_STATE_IDLE) = (msg_type opts, request_state addrs (requested opts))"
proof (induction opts rule: rev_induct)
  case Nil
  then show ?case by (simp add: msg_type_def requested_def request_state_def)
next
  case (snoc tv opts)
  obtain t v where tv: "tv = (t, v)" by (cases tv)
  have "DHCP_OPTION_MSG_TYPE \<noteq> DHCP_OPTION_REQ_IPADDR" by (simp add: DHCP_OPTION_MSG_TYPE_def DHCP_OPTION_REQ_IPADDR_def)
  then show ?case using snoc.IH by (auto simp: tv option_step_def msg_type_def requested_def request_state_def)
qed

text \<open>The type of the answer, if there is one.\<close>

definition dhcp_answer :: "block list \<Rightarrow> (byte \<times> block) list \<Rightarrow> byte option" where
  "dhcp_answer addrs opts =
     (if msg_type opts \<in> {DHCPDISCOVER, DHCPDECLINE, DHCPRELEASE} then Some DHCPOFFER
      else case requested opts of
          None \<Rightarrow> if msg_type opts = DHCPREQUEST then Some DHCPNAK else None
        | Some a \<Rightarrow> Some (if a \<in> set addrs then DHCPACK else DHCPNAK))"

definition dhcp_options :: "byte \<Rightarrow> block \<Rightarrow> block" where
  "dhcp_options ty ip = add_msg_type ty @ (if ty = DHCPNAK then [] else add_offer_options ip) @ add_end"

lemma drop_four: "drop (4 + n) (a # b # c # d # xs) = drop n xs"
  by (simp add: eval_nat_numeral)

lemma send_msg_ok:
  assumes "312 \<le> length (options m)" "length bs \<le> 308" "chaddres s \<noteq> []"
  obtains i s' where "take_lease (chaddr m) s = Some (i, s')"
    "send_msg bs m s = Some (m\<lparr>bop := DHCP_REPLY, htype := 1, hlen := 6, hops := 0, secs := [0, 0], bflags := BOOTP_BROADCAST,
        yiaddr := client_addresses s ! i, ciaddr := replicate 4 0, siaddr := replicate 4 0, giaddr := replicate 4 0,
        sname := replicate 64 0, bfile := replicate 128 0,
        options := magic_cookie @ bs @ replicate (308 - length bs) 0 @ drop 312 (options m)\<rparr>, s'\<lparr>sxid := xid m\<rparr>)"
proof -
  have "\<exists>i s'. take_lease (chaddr m) s = Some (i, s') \<and> client_addresses s' = client_addresses s"
    using assms(3) by (simp add: take_lease_def split: option.split)
  then obtain i s' where t: "take_lease (chaddr m) s = Some (i, s')" "client_addresses s' = client_addresses s" by blast
  show thesis
    by (rule that [OF t(1)]) (use assms t in \<open>simp add: send_msg_def create_msg_def poke_def magic_cookie_def drop_four\<close>)
qed

lemma handle_dhcp_ok:
  assumes "\<not> chained p" "options (pmsg p) = magic_cookie @ enc_options opts @ DHCP_OPTION_END # replicate k 0"
    "\<forall>tv\<in>set opts. plain_option tv" "int (length (enc_options opts)) < sint (plen p)"
    "sint (plen p) \<le> int (length (enc_options opts) + k)" "312 \<le> length (options (pmsg p))" "chaddres s \<noteq> []"
  shows "case dhcp_answer (client_addresses s) opts of
      None \<Rightarrow> \<exists>s'. handle_dhcp c p s = Some (None, s')
    | Some ty \<Rightarrow> \<exists>i s1 m s'. take_lease (chaddr (pmsg p)) s = Some (i, s1) \<and> handle_dhcp c p s = Some (Some m, s')
        \<and> bop m = DHCP_REPLY \<and> xid m = xid (pmsg p) \<and> chaddr m = chaddr (pmsg p) \<and> yiaddr m = client_addresses s ! i
        \<and> chaddres s' = chaddres s1
        \<and> take 312 (options m) = magic_cookie @ dhcp_options ty (server_address s)
             @ replicate (308 - length (dhcp_options ty (server_address s))) 0"
proof -
  define e where "e = 4 + sint (plen p)"
  define opts' where "opts' = opts @ [(DHCP_OPTION_END, [])]"
  have k: "0 < k" using assms(4,5) by simp
  then obtain k' where k': "k = Suc k'" by (cases k) auto
  have enc: "enc_options opts' = enc_options opts @ [DHCP_OPTION_END, 0]" by (simp add: enc_options_def opts'_def)
  have m: "options (pmsg p) = magic_cookie @ enc_options opts' @ replicate k' 0"
    unfolding assms(2) enc k' by simp
  let ?A = "client_addresses s"
  have END: "DHCP_OPTION_END \<noteq> DHCP_OPTION_MSG_TYPE" "DHCP_OPTION_END \<noteq> DHCP_OPTION_REQ_IPADDR"
    by (simp_all add: DHCP_OPTION_END_def DHCP_OPTION_MSG_TYPE_def DHCP_OPTION_REQ_IPADDR_def)
  have "option_step ?A (DHCP_OPTION_END, []) ts = ts" for ts using END by (cases ts) (simp add: option_step_def)
  then have f: "fold (option_step ?A) opts' (0, DHCPS_STATE_IDLE) = (msg_type opts, request_state ?A (requested opts))"
    by (simp add: opts'_def option_fold)
  have "options_loop ?A (options (pmsg p)) 4 e 0 DHCPS_STATE_IDLE
      = options_loop ?A (options (pmsg p)) (int (4 + length (enc_options opts'))) e (msg_type opts) (request_state ?A (requested opts))"
  proof -
    have "\<forall>tv\<in>set opts'. plain_option tv" using assms(3) END by (simp add: opts'_def plain_option_def)
    moreover have "int (length magic_cookie + length (enc_options opts')) \<le> e + 1"
      using assms(4) by (simp add: enc e_def magic_cookie_def)
    ultimately show ?thesis
      using options_loop_enc [of opts' magic_cookie e ?A "replicate k' 0" 0 DHCPS_STATE_IDLE] unfolding m f
      by (simp add: magic_cookie_def)
  qed
  also have "\<dots> = Some (msg_type opts, request_state ?A (requested opts))"
  proof (rule options_loop_zeros)
    show "\<forall>i. int (4 + length (enc_options opts')) \<le> int i \<and> int i < e + 1
        \<longrightarrow> i < length (options (pmsg p)) \<and> options (pmsg p) ! i = 0"
      using assms(5) unfolding m by (auto simp: e_def enc k' magic_cookie_def nth_append nth_Cons')
  qed simp
  finally have loop: "options_loop ?A (options (pmsg p)) 4 (4 + sint (plen p)) 0 DHCPS_STATE_IDLE
      = Some (msg_type opts, request_state ?A (requested opts))" unfolding e_def .
  have ck: "peek (options (pmsg p)) 0 4 = Some magic_cookie"
    unfolding assms(2) by (simp add: peek_def magic_cookie_def)
  note st = DHCPS_STATE_OFFER_def DHCPS_STATE_ACK_def DHCPS_STATE_NAK_def DHCPS_STATE_IDLE_def
  note ty = DHCPDISCOVER_def DHCPDECLINE_def DHCPRELEASE_def DHCPREQUEST_def
  define stf where "stf = (if msg_type opts \<in> {DHCPDISCOVER, DHCPDECLINE, DHCPRELEASE} then DHCPS_STATE_OFFER
      else case requested opts of None \<Rightarrow> if msg_type opts = DHCPREQUEST then DHCPS_STATE_NAK else DHCPS_STATE_IDLE
        | Some a \<Rightarrow> if a \<in> set ?A then DHCPS_STATE_ACK else DHCPS_STATE_NAK)"
  have pm: "parse_msg p s = Some (stf, s\<lparr>sstate := stf\<rparr>)"
    using ck loop by (auto simp: parse_msg_def parse_options_def stf_def request_state_def st ty Let_def split: option.splits)
  define s0 where "s0 = s\<lparr>sstate := stf\<rparr>"
  have s0: "take_lease hw s0 = map_option (\<lambda>(i, s'). (i, s'\<lparr>sstate := stf\<rparr>)) (take_lease hw s)" for hw
    by (simp add: s0_def take_lease_def find_chaddr_def split: option.split)
  show ?thesis
  proof (cases "dhcp_answer ?A opts")
    case None
    then have "stf = DHCPS_STATE_IDLE" by (auto simp: dhcp_answer_def stf_def st split: option.splits if_splits)
    then show ?thesis using None assms(1) pm by (simp add: handle_dhcp_def st)
  next
    case (Some t)
    define bs where "bs = dhcp_options t (server_address s)"
    have bs: "length bs \<le> 308" by (simp add: bs_def dhcp_options_def add_msg_type_def add_offer_options_def add_end_def)
    have run: "handle_dhcp c p s = do { (m, s) \<leftarrow> send_msg bs (pmsg p) s0; Some (Some m, s) }"
      using Some assms(1) pm
      by (auto simp: dhcp_answer_def stf_def handle_dhcp_def st s0_def send_offer_def send_ack_def send_nak_def bs_def dhcp_options_def
          DHCPOFFER_def DHCPACK_def DHCPNAK_def split: option.splits if_splits)
    obtain i s' where o: "take_lease (chaddr (pmsg p)) s0 = Some (i, s')"
      "send_msg bs (pmsg p) s0 = Some ((pmsg p)\<lparr>bop := DHCP_REPLY, htype := 1, hlen := 6, hops := 0, secs := [0, 0], bflags := BOOTP_BROADCAST,
        yiaddr := client_addresses s0 ! i, ciaddr := replicate 4 0, siaddr := replicate 4 0, giaddr := replicate 4 0,
        sname := replicate 64 0, bfile := replicate 128 0,
        options := magic_cookie @ bs @ replicate (308 - length bs) 0 @ drop 312 (options (pmsg p))\<rparr>, s'\<lparr>sxid := xid (pmsg p)\<rparr>)"
      using send_msg_ok [OF assms(6) bs, of s0] assms(7) by (auto simp: s0_def)
    obtain s1 where s1: "take_lease (chaddr (pmsg p)) s = Some (i, s1)" "chaddres s' = chaddres s1"
      using o(1) unfolding s0 by auto
    then show ?thesis using Some run o bs by (simp add: s0_def bs_def [symmetric] magic_cookie_def)
  qed
qed

end
