(* ===== verification/Cb_External.thy ===== *)
theory Cb_External
  imports CB_Prelude
begin

text \<open>
  The link of the control board to a second board over UART0, \<open>project/ctrlboard/external.c\<close>: events in a queue
  each way, and four bytes on the wire for each. A local variable that is not set holds what the stack held
  before, which is an argument here (\<open>junk\<close>); \<open>char\<close> is unsigned as on ARM. The queues are those of \<open>mq_open\<close>: the one for
  incoming events does not block.
\<close>

datatype ExternalEventType = EXTERNAL_SHOW_MSG | EXTERNAL_TEST0 | EXTERNAL_TEST1 | EXTERNAL_TEST2 | EXTERNAL_TEST3
  | EXTERNAL_TEST4 | EXTERNAL_TEST5

definition EXTERNAL_BUFFER_SIZE :: nat where "EXTERNAL_BUFFER_SIZE = 64"
definition EXT_MAX_QUEUE_SIZE :: nat where "EXT_MAX_QUEUE_SIZE = 8"

record ExternalEvent =
  etype :: ExternalEventType
  arg1 :: "32 word"
  arg2 :: "32 word"
  arg3 :: "32 word"
  buf1 :: block

record external =
  extInQueue :: "ExternalEvent list"
  extOutQueue :: "ExternalEvent list"
  extQuit :: bool

text \<open>What \<open>ExternalInTask\<close> makes of the bytes read; \<open>ev\<close> is the variable before.\<close>

definition external_decode :: "block \<Rightarrow> ExternalEvent \<Rightarrow> ExternalEvent" where
  "external_decode readbuf ev =
     (let a1 = ucast (readbuf ! 1); a2 = ucast (readbuf ! 2); a3 = ucast (readbuf ! 3)
      in if readbuf ! 0 = 0x30 then ev\<lparr>etype := EXTERNAL_TEST0\<rparr>
         else if readbuf ! 0 = 0x31 then ev\<lparr>etype := EXTERNAL_TEST1, arg1 := a1\<rparr>
         else if readbuf ! 0 = 0x32 then ev\<lparr>etype := EXTERNAL_TEST2, arg1 := a1, arg2 := a2\<rparr>
         else if readbuf ! 0 = 0x33 then ev\<lparr>etype := EXTERNAL_TEST3, arg1 := a1, arg2 := a2, arg3 := a3\<rparr>
         else if readbuf ! 0 = 0x34 then ev\<lparr>etype := EXTERNAL_TEST4, arg1 := a1\<rparr>
         else if readbuf ! 0 = 0x35 then ev\<lparr>etype := EXTERNAL_TEST5, arg1 := a1\<rparr>
         else ev\<lparr>etype := EXTERNAL_SHOW_MSG, buf1 := take 4 readbuf @ replicate (EXTERNAL_BUFFER_SIZE - 4) 0\<rparr>)"

text \<open>What \<open>ExternalOutTask\<close> writes; \<open>junk\<close> is \<open>writebuf\<close> before.\<close>

definition external_encode :: "ExternalEvent \<Rightarrow> block \<Rightarrow> block" where
  "external_encode ev junk =
     (let a1 = ucast (arg1 ev); a2 = ucast (arg2 ev); a3 = ucast (arg3 ev)
      in case etype ev of
           EXTERNAL_TEST0 \<Rightarrow> junk[0 := 0x30]
         | EXTERNAL_TEST1 \<Rightarrow> junk[0 := 0x31, 1 := a1]
         | EXTERNAL_TEST2 \<Rightarrow> junk[2 := 0x32, 1 := a1, 2 := a2]
         | EXTERNAL_TEST3 \<Rightarrow> junk[0 := 0x33, 1 := a1, 2 := a2, 3 := a3]
         | EXTERNAL_TEST4 \<Rightarrow> junk[0 := 0x34, 1 := a1]
         | EXTERNAL_TEST5 \<Rightarrow> junk[0 := 0x35, 1 := a1]
         | EXTERNAL_SHOW_MSG \<Rightarrow> take 4 (buf1 ev))"

text \<open>
  One round of the tasks. \<open>r\<close> is what \<open>read\<close> returns; anything but 0 counts as a message. A full queue drops the
  event. \<open>ExternalOutTask\<close> waits while its queue is empty.
\<close>

definition ExternalInTask_step :: "int \<Rightarrow> block \<Rightarrow> ExternalEvent \<Rightarrow> external \<Rightarrow> external" where
  "ExternalInTask_step r readbuf junk s =
     (if r \<noteq> 0 \<and> length (extInQueue s) < EXT_MAX_QUEUE_SIZE
      then s\<lparr>extInQueue := extInQueue s @ [external_decode readbuf junk]\<rparr> else s)"

definition ExternalOutTask_step :: "block \<Rightarrow> external \<Rightarrow> (block \<times> external) option" where
  "ExternalOutTask_step junk s =
     (case extOutQueue s of [] \<Rightarrow> None | ev # evs \<Rightarrow> Some (external_encode ev junk, s\<lparr>extOutQueue := evs\<rparr>))"

definition ExternalInit :: external where
  "ExternalInit = \<lparr>extInQueue = [], extOutQueue = [], extQuit = False\<rparr>"

definition ExternalExit :: "external \<Rightarrow> external" where "ExternalExit s = s\<lparr>extQuit := True\<rparr>"

definition ExternalReceive :: "ExternalEvent \<Rightarrow> external \<Rightarrow> int \<times> ExternalEvent \<times> external" where
  "ExternalReceive ev s =
     (if extQuit s then (0, ev, s)
      else case extInQueue s of [] \<Rightarrow> (0, ev, s) | e # evs \<Rightarrow> (1, e, s\<lparr>extInQueue := evs\<rparr>))"

text \<open>\<open>None\<close>: the queue is full and the caller waits.\<close>

definition ExternalSend :: "ExternalEvent \<Rightarrow> external \<Rightarrow> (int \<times> external) option" where
  "ExternalSend ev s =
     (if extQuit s then Some (-1, s)
      else if length (extOutQueue s) < EXT_MAX_QUEUE_SIZE then Some (0, s\<lparr>extOutQueue := extOutQueue s @ [ev]\<rparr>) else None)"

text \<open>The number of arguments that an event carries over the wire.\<close>

definition event_args :: "ExternalEvent \<Rightarrow> 32 word list" where
  "event_args ev =
     (case etype ev of EXTERNAL_TEST1 \<Rightarrow> [arg1 ev] | EXTERNAL_TEST2 \<Rightarrow> [arg1 ev, arg2 ev]
      | EXTERNAL_TEST3 \<Rightarrow> [arg1 ev, arg2 ev, arg3 ev] | EXTERNAL_TEST4 \<Rightarrow> [arg1 ev] | EXTERNAL_TEST5 \<Rightarrow> [arg1 ev] | _ \<Rightarrow> [])"

lemma byte_back: "unat (w :: 32 word) < 256 \<Longrightarrow> ucast (ucast w :: byte) = w"
  by (simp add: word_unat_eq_iff unsigned_ucast_eq unsigned_take_bit_eq take_bit_nat_eq_self)

text \<open>Each event that the other board writes is an event read here, of the same type and arguments.\<close>

lemma external_wire:
  assumes "length junk = 4" "\<forall>a\<in>set (event_args ev). unat a < 256" "etype ev \<notin> {EXTERNAL_TEST2, EXTERNAL_SHOW_MSG}"
  shows "etype (external_decode (external_encode ev junk) ev0) = etype ev"
    "event_args (external_decode (external_encode ev junk) ev0) = event_args ev"
  using assms by (auto simp: external_decode_def external_encode_def event_args_def Let_def byte_back split: ExternalEventType.splits)

lemma external_wire_test2:
  assumes "length junk = 4" "etype ev = EXTERNAL_TEST2"
  shows "etype (external_decode (external_encode ev junk) ev0) = EXTERNAL_TEST2 \<longleftrightarrow> junk ! 0 = 0x32"
  using assms by (auto simp: external_decode_def external_encode_def Let_def)

text \<open>A message arrives with its first four characters, unless the first one is the tag of a test event.\<close>

lemma external_wire_msg:
  assumes "length (buf1 ev) = EXTERNAL_BUFFER_SIZE" "etype ev = EXTERNAL_SHOW_MSG"
  shows "if buf1 ev ! 0 \<in> {0x30, 0x31, 0x32, 0x33, 0x34, 0x35}
    then etype (external_decode (external_encode ev junk) ev0) \<noteq> EXTERNAL_SHOW_MSG
    else etype (external_decode (external_encode ev junk) ev0) = EXTERNAL_SHOW_MSG
      \<and> buf1 (external_decode (external_encode ev junk) ev0) = take 4 (buf1 ev) @ replicate (EXTERNAL_BUFFER_SIZE - 4) 0"
  using assms by (auto simp: external_decode_def external_encode_def Let_def)

end
