(* ===== verification/Itp_Mutex.thy ===== *)
theory Itp_Mutex
  imports CB_Prelude
begin

text \<open>
  The POSIX mutexes of \<open>sdk/driver/itp/itp_posix_openrtos.c\<close>, which wrap the semaphores of
  FreeRTOS. Tasks are numbers. A call that would wait for ever is \<open>None\<close>; the semaphore itself
  is the holder and the recursive call count that FreeRTOS keeps.
\<close>

datatype mutex_type = PTHREAD_MUTEX_NORMAL | PTHREAD_MUTEX_RECURSIVE

record itpMutex =
  mtype :: mutex_type
  holder :: "nat option"
  call_count :: nat

text \<open>A \<open>pthread_mutex_t\<close>: null, the static initializer, a created mutex, or a dangling pointer.\<close>

datatype pthread_mutex = MutexNull | MUTEX_INITIALIZER | Mutex itpMutex | MutexFreed

abbreviation EINVAL :: int where "EINVAL \<equiv> 22"
abbreviation ENOMEM :: int where "ENOMEM \<equiv> 12"

definition pthread_mutex_init ::
  "bool \<Rightarrow> mutex_type option \<Rightarrow> pthread_mutex \<Rightarrow> int \<times> pthread_mutex" where
  "pthread_mutex_init mem_ok attr m =
     (if \<not> mem_ok then (ENOMEM, m)
      else (0, Mutex \<lparr>mtype = (case attr of None \<Rightarrow> PTHREAD_MUTEX_RECURSIVE | Some ty \<Rightarrow> ty),
                     holder = None, call_count = 0\<rparr>))"

definition pthread_mutex_destroy :: "pthread_mutex \<Rightarrow> (int \<times> pthread_mutex) option" where
  "pthread_mutex_destroy m =
     (case m of MutexNull \<Rightarrow> Some (EINVAL, m)
      | MUTEX_INITIALIZER \<Rightarrow> Some (0, MutexNull)
      | Mutex _ \<Rightarrow> Some (0, MutexFreed)
      | MutexFreed \<Rightarrow> None)"

text \<open>Taking and giving the semaphore, without a time limit.\<close>

definition take_semaphore :: "nat \<Rightarrow> itpMutex \<Rightarrow> itpMutex option" where
  "take_semaphore t m =
     (if holder m = None then Some (m\<lparr>holder := Some t, call_count := 1\<rparr>)
      else if mtype m = PTHREAD_MUTEX_RECURSIVE \<and> holder m = Some t
      then Some (m\<lparr>call_count := Suc (call_count m)\<rparr>)
      else None)"

definition give_semaphore :: "nat \<Rightarrow> itpMutex \<Rightarrow> itpMutex" where
  "give_semaphore t m =
     (if mtype m = PTHREAD_MUTEX_RECURSIVE \<and> holder m \<noteq> Some t then m
      else if mtype m = PTHREAD_MUTEX_RECURSIVE \<and> call_count m > 1
      then m\<lparr>call_count := call_count m - 1\<rparr>
      else m\<lparr>holder := None, call_count := 0\<rparr>)"

definition pthread_mutex_lock ::
  "bool \<Rightarrow> nat \<Rightarrow> pthread_mutex \<Rightarrow> (int \<times> pthread_mutex) option" where
  "pthread_mutex_lock mem_ok t m =
     (if m = MutexNull then Some (EINVAL, m)
      else let (ret2, m1) = (if m = MUTEX_INITIALIZER then pthread_mutex_init mem_ok None m else (0, m))
      in if ret2 \<noteq> 0 then Some (ret2, m1)
      else (case m1 of
              Mutex sem \<Rightarrow> do { sem' \<leftarrow> take_semaphore t sem; Some (0, Mutex sem') }
            | _ \<Rightarrow> None))"

definition pthread_mutex_unlock :: "nat \<Rightarrow> pthread_mutex \<Rightarrow> (int \<times> pthread_mutex) option" where
  "pthread_mutex_unlock t m =
     (case m of MutexNull \<Rightarrow> Some (EINVAL, m)
      | MUTEX_INITIALIZER \<Rightarrow> Some (0, m)
      | Mutex sem \<Rightarrow> Some (0, Mutex (give_semaphore t sem))
      | MutexFreed \<Rightarrow> None)"

lemmas mutex_defs = pthread_mutex_init_def pthread_mutex_destroy_def pthread_mutex_lock_def
  pthread_mutex_unlock_def take_semaphore_def give_semaphore_def

text \<open>A created mutex that is consistent: it is free exactly when its count is zero.\<close>

definition sem_ok :: "itpMutex \<Rightarrow> bool" where
  "sem_ok m \<longleftrightarrow> (holder m = None) = (call_count m = 0)"

text \<open>How deep task \<open>t\<close> holds a mutex.\<close>

definition held :: "nat \<Rightarrow> pthread_mutex \<Rightarrow> nat" where
  "held t m = (case m of Mutex sem \<Rightarrow> if holder sem = Some t then call_count sem else 0 | _ \<Rightarrow> 0)"

text \<open>A mutex that task \<open>t\<close> can lock: it is live and no other task holds it.\<close>

definition lockable :: "nat \<Rightarrow> pthread_mutex \<Rightarrow> bool" where
  "lockable t m \<longleftrightarrow> (\<exists>sem. m = Mutex sem \<and> sem_ok sem \<and> mtype sem = PTHREAD_MUTEX_RECURSIVE
     \<and> (holder sem = None \<or> holder sem = Some t))"

subsection \<open>Critical sections: the interface of a recursive lock\<close>

locale recursive_lock =
  fixes lock :: "nat \<Rightarrow> 'm \<Rightarrow> (int \<times> 'm) option"
    and unlock :: "nat \<Rightarrow> 'm \<Rightarrow> (int \<times> 'm) option"
    and depth :: "nat \<Rightarrow> 'm \<Rightarrow> nat"
    and avail :: "nat \<Rightarrow> 'm \<Rightarrow> bool"
  assumes lock_ok: "avail t m \<Longrightarrow> \<exists>m'. lock t m = Some (0, m') \<and> avail t m' \<and> depth t m' = Suc (depth t m)"
    and unlock_lock: "avail t m \<Longrightarrow> lock t m = Some (0, m') \<Longrightarrow> unlock t m' = Some (0, m)"
    and exclusion: "avail t m \<Longrightarrow> 0 < depth t m \<Longrightarrow> u \<noteq> t \<Longrightarrow> lock u m = None"
begin

text \<open>A body that does not touch the mutex runs as a critical section that restores it.\<close>

lemma section_restores:
  assumes "avail t m"
  shows "\<exists>m'. lock t m = Some (0, m') \<and> unlock t m' = Some (0, m) \<and> depth t m' = Suc (depth t m)"
  using lock_ok [OF assms] unlock_lock [OF assms] by blast

lemma inside_excludes:
  assumes "avail t m" "lock t m = Some (0, m')" "u \<noteq> t"
  shows "lock u m' = None"
  using lock_ok [OF assms(1)] assms exclusion [of t m' u] by auto

lemma nested_section:
  assumes "avail t m" "lock t m = Some (0, m1)"
  shows "\<exists>m2. lock t m1 = Some (0, m2) \<and> unlock t m2 = Some (0, m1)"
  using lock_ok [OF assms(1)] assms section_restores [of t m1] by auto

end

interpretation mtx: recursive_lock "pthread_mutex_lock mem_ok" pthread_mutex_unlock held lockable
proof unfold_locales
  fix t m
  assume "lockable t m"
  then show "\<exists>m'. pthread_mutex_lock mem_ok t m = Some (0, m') \<and> lockable t m'
                 \<and> held t m' = Suc (held t m)"
    by (auto simp: lockable_def pthread_mutex_lock_def take_semaphore_def held_def sem_ok_def)
next
  fix t m m'
  assume "lockable t m" "pthread_mutex_lock mem_ok t m = Some (0, m')"
  then show "pthread_mutex_unlock t m' = Some (0, m)"
    by (auto simp: lockable_def pthread_mutex_lock_def pthread_mutex_unlock_def take_semaphore_def
        give_semaphore_def sem_ok_def)
next
  fix t m u
  assume "lockable t m" "0 < held t m" "u \<noteq> t"
  then show "pthread_mutex_lock mem_ok u m = None"
    by (auto simp: lockable_def pthread_mutex_lock_def take_semaphore_def held_def split: if_splits)
qed

lemma lockable_init:
  "pthread_mutex_init True None m = (0, m') \<Longrightarrow> lockable t m'"
  by (auto simp: pthread_mutex_init_def lockable_def sem_ok_def)

end
