(* ===== verification/Itc_BufferStream.thy ===== *)
theory Itc_BufferStream
  imports Itc_Stream Itp_Mutex
begin

text \<open>
  \<open>sdk/share/itc/itc_bufferstream.c\<close>: a ring buffer behind the stream interface, guarded by a
  mutex. Every operation takes the calling task \<open>t\<close> and \<open>mem_ok\<close>, whether the allocator could
  serve a lazily created mutex. \<open>buf\<close> is \<open>None\<close> once the stream is closed. The bodies between
  lock and unlock are definitions of their own.
\<close>

record ITCBufferStream = ITCStream +
  buf :: "block option"
  bsize :: int
  readpos :: int
  writepos :: int
  mutex :: pthread_mutex

text \<open>The critical section of the operations: lock, return \<open>err\<close> on failure, body, unlock.\<close>

definition critical ::
  "bool \<Rightarrow> nat \<Rightarrow> ITCBufferStream \<Rightarrow> 'a \<Rightarrow> (ITCBufferStream \<Rightarrow> ('a \<times> ITCBufferStream) option)
     \<Rightarrow> ('a \<times> ITCBufferStream) option" where
  "critical mem_ok t s err body =
     do { (result, m) \<leftarrow> pthread_mutex_lock mem_ok t (mutex s);
          if result \<noteq> 0 then Some (err, s\<lparr>mutex := m\<rparr>)
          else do { (r, s1) \<leftarrow> body (s\<lparr>mutex := m\<rparr>);
                    (_, m1) \<leftarrow> pthread_mutex_unlock t (mutex s1);
                    Some (r, s1\<lparr>mutex := m1\<rparr>) } }"

subsection \<open>Read and write\<close>

definition bs_read_body ::
  "block \<Rightarrow> int \<Rightarrow> ITCBufferStream \<Rightarrow> ((int \<times> block) \<times> ITCBufferStream) option" where
  "bs_read_body out n s0 =
     (if eof s0 then Some ((0, out), s0)
      else let s = (if readpos s0 = bsize s0 then s0\<lparr>readpos := 0\<rparr> else s0)
      in do {
        b \<leftarrow> buf s;
        ((readsize, out'), s') \<leftarrow>
          (if readpos s < writepos s
           then let k = min n (writepos s - readpos s)
                in do { out1 \<leftarrow> memcpy out 0 b (readpos s) k;
                        Some ((k, out1), s\<lparr>readpos := readpos s + k\<rparr>) }
           else if n > bsize s - readpos s
           then let size1 = bsize s - readpos s; size2 = min (n - size1) (writepos s)
                in do { out1 \<leftarrow> memcpy out 0 b (readpos s) size1;
                        out2 \<leftarrow> memcpy out1 size1 b 0 size2;
                        Some ((size1 + size2, out2), s\<lparr>readpos := size2\<rparr>) }
           else do { b' \<leftarrow> memcpy b (readpos s) out 0 n;
                     Some ((n, out), s\<lparr>buf := Some b', readpos := readpos s + n\<rparr>) });
        Some ((readsize, out'),
              if readsize > 0 \<and> readpos s' = writepos s' then s'\<lparr>eof := True\<rparr> else s') })"

definition BufferStreamRead ::
  "bool \<Rightarrow> nat \<Rightarrow> ITCBufferStream \<Rightarrow> block \<Rightarrow> int \<Rightarrow> (int \<times> block \<times> ITCBufferStream) option" where
  "BufferStreamRead mem_ok t s out n =
     do { ((r, out'), s') \<leftarrow> critical mem_ok t s (0, out) (bs_read_body out n); Some (r, out', s') }"

definition bs_write_body ::
  "block \<Rightarrow> int \<Rightarrow> ITCBufferStream \<Rightarrow> (int \<times> ITCBufferStream) option" where
  "bs_write_body data n s =
     do { b \<leftarrow> buf s;
          (writesize, s') \<leftarrow>
            (if writepos s < readpos s
             then let k = min n (readpos s - writepos s)
                  in do { b1 \<leftarrow> memcpy b (writepos s) data 0 k;
                          Some (k, s\<lparr>buf := Some b1, writepos := writepos s + k\<rparr>) }
             else if n > bsize s - writepos s
             then let size1 = bsize s - writepos s; size2 = min (n - size1) (readpos s)
                  in do { b1 \<leftarrow> memcpy b (writepos s) data 0 size1;
                          b2 \<leftarrow> memcpy b1 0 data size1 size2;
                          Some (size1 + size2, s\<lparr>buf := Some b2, writepos := size2\<rparr>) }
             else do { b1 \<leftarrow> memcpy b (writepos s) data 0 n;
                       Some (n, s\<lparr>buf := Some b1, writepos := writepos s + n\<rparr>) });
          Some (writesize, if writesize > 0 then s'\<lparr>eof := False\<rparr> else s') }"

definition BufferStreamWrite ::
  "bool \<Rightarrow> nat \<Rightarrow> ITCBufferStream \<Rightarrow> block \<Rightarrow> int \<Rightarrow> (int \<times> ITCBufferStream) option" where
  "BufferStreamWrite mem_ok t s data n = critical mem_ok t s 0 (bs_write_body data n)"

subsection \<open>Seek, tell, available\<close>

text \<open>The branch shared by \<open>SEEK_CUR\<close> and \<open>SEEK_END\<close>, for the target position \<open>p\<close>.\<close>

definition bs_seek_to :: "ITCBufferStream \<Rightarrow> int \<Rightarrow> int \<times> ITCBufferStream" where
  "bs_seek_to s p =
     (if readpos s < writepos s
      then if 0 \<le> p \<and> p < writepos s
           then (0, s\<lparr>readpos := p, eof := (p = writepos s)\<rparr>) else (-1, s)
      else if writepos s \<le> p \<and> p < bsize s then (0, s\<lparr>readpos := p\<rparr>) else (-1, s))"

definition bs_seek_body ::
  "int \<Rightarrow> seek_origin \<Rightarrow> ITCBufferStream \<Rightarrow> int \<times> ITCBufferStream" where
  "bs_seek_body offset origin s =
     (case origin of
        SEEK_SET \<Rightarrow>
          if readpos s < writepos s
          then if offset \<le> writepos s
               then (0, s\<lparr>readpos := offset, eof := (offset = writepos s)\<rparr>) else (-1, s)
          else if offset < bsize s then (0, s\<lparr>readpos := offset\<rparr>) else (-1, s)
      | SEEK_CUR \<Rightarrow> bs_seek_to s (readpos s + offset)
      | SEEK_END \<Rightarrow> bs_seek_to s (bsize s + offset)
      | SEEK_OTHER \<Rightarrow> (-1, s))"

text \<open>\<open>BufferStreamSeek\<close> returns the result of the unlock, whatever the switch computed.\<close>

definition BufferStreamSeek ::
  "bool \<Rightarrow> nat \<Rightarrow> ITCBufferStream \<Rightarrow> int \<Rightarrow> seek_origin \<Rightarrow> (int \<times> ITCBufferStream) option" where
  "BufferStreamSeek mem_ok t s offset origin =
     do { (result, m) \<leftarrow> pthread_mutex_lock mem_ok t (mutex s);
          if result \<noteq> 0 then Some (0, s\<lparr>mutex := m\<rparr>)
          else let (_, s1) = bs_seek_body offset origin (s\<lparr>mutex := m\<rparr>)
               in do { (result1, m1) \<leftarrow> pthread_mutex_unlock t (mutex s1);
                       Some (result1, s1\<lparr>mutex := m1\<rparr>) } }"

definition BufferStreamTell :: "ITCBufferStream \<Rightarrow> int" where
  "BufferStreamTell s = readpos s"

definition bs_available :: "ITCBufferStream \<Rightarrow> int" where
  "bs_available s =
     (if eof s then 0 else if readpos s < writepos s then writepos s - readpos s
      else bsize s - readpos s)"

definition BufferStreamAvailable ::
  "bool \<Rightarrow> nat \<Rightarrow> ITCBufferStream \<Rightarrow> (int \<times> ITCBufferStream) option" where
  "BufferStreamAvailable mem_ok t s = critical mem_ok t s 0 (\<lambda>s. Some (bs_available s, s))"

subsection \<open>Lock and unlock\<close>

abbreviation ITC_LOCK_FAIL :: int where "ITC_LOCK_FAIL \<equiv> -1"

text \<open>
  \<open>ReadLock\<close> and \<open>WriteLock\<close> return with the mutex held; the matching unlock releases it. The
  middle component is the offset stored in \<open>*bufptr\<close>, if one is stored.
\<close>

definition BufferStreamReadLock ::
  "bool \<Rightarrow> nat \<Rightarrow> ITCBufferStream \<Rightarrow> int \<Rightarrow> (int \<times> int option \<times> ITCBufferStream) option" where
  "BufferStreamReadLock mem_ok t s0 n =
     do { (result, m) \<leftarrow> pthread_mutex_lock mem_ok t (mutex s0);
          let s1 = s0\<lparr>mutex := m\<rparr> in
          if result \<noteq> 0 then Some (ITC_LOCK_FAIL, None, s1)
          else if eof s1 then Some (0, None, s1)
          else let s = (if readpos s1 = bsize s1 then s1\<lparr>readpos := 0\<rparr> else s1);
                   readsize = (if readpos s < writepos s then min n (writepos s - readpos s)
                               else min n (bsize s - readpos s))
               in Some (readsize, Some (readpos s), s) }"

definition bs_read_unlock_body :: "int \<Rightarrow> ITCBufferStream \<Rightarrow> ITCBufferStream" where
  "bs_read_unlock_body n s0 =
     (if eof s0 then s0
      else let s1 = (if readpos s0 = bsize s0 \<and> writepos s0 > 0 then s0\<lparr>readpos := 0\<rparr> else s0);
               readsize = (if readpos s1 < writepos s1 then min n (writepos s1 - readpos s1)
                           else min n (bsize s1 - readpos s1));
               s2 = s1\<lparr>readpos := readpos s1 + readsize\<rparr>;
               s3 = (if readpos s2 = bsize s2 \<and> writepos s2 > 0 then s2\<lparr>readpos := 0\<rparr> else s2)
           in if readsize > 0 \<and> readpos s3 = writepos s3 then s3\<lparr>eof := True\<rparr> else s3)"

definition BufferStreamReadUnlock ::
  "nat \<Rightarrow> ITCBufferStream \<Rightarrow> int \<Rightarrow> ITCBufferStream option" where
  "BufferStreamReadUnlock t s n =
     (let s1 = bs_read_unlock_body n s
      in do { (_, m) \<leftarrow> pthread_mutex_unlock t (mutex s1); Some (s1\<lparr>mutex := m\<rparr>) })"

definition BufferStreamWriteLock ::
  "bool \<Rightarrow> nat \<Rightarrow> ITCBufferStream \<Rightarrow> int \<Rightarrow> (int \<times> int option \<times> ITCBufferStream) option" where
  "BufferStreamWriteLock mem_ok t s0 n =
     do { (result, m) \<leftarrow> pthread_mutex_lock mem_ok t (mutex s0);
          let s = s0\<lparr>mutex := m\<rparr> in
          if result \<noteq> 0 then Some (ITC_LOCK_FAIL, None, s)
          else let writesize = (if writepos s < readpos s then min n (readpos s - writepos s)
                                else if n > bsize s - writepos s then bsize s - writepos s else n)
               in Some (writesize, Some (writepos s), s) }"

definition bs_write_unlock_body :: "int \<Rightarrow> ITCBufferStream \<Rightarrow> ITCBufferStream" where
  "bs_write_unlock_body n s =
     (let (writesize, s1) =
            (if writepos s < readpos s
             then let k = min n (readpos s - writepos s) in (k, s\<lparr>writepos := writepos s + k\<rparr>)
             else if n > bsize s - writepos s
             then (bsize s - writepos s, if readpos s > 0 then s\<lparr>writepos := 0\<rparr> else s)
             else (n, s\<lparr>writepos := writepos s + n\<rparr>));
          s2 = (if writepos s1 = bsize s1 \<and> readpos s1 > 0 then s1\<lparr>writepos := 0\<rparr> else s1)
      in if writesize > 0 then s2\<lparr>eof := False\<rparr> else s2)"

definition BufferStreamWriteUnlock ::
  "nat \<Rightarrow> ITCBufferStream \<Rightarrow> int \<Rightarrow> ITCBufferStream option" where
  "BufferStreamWriteUnlock t s n =
     (let s1 = bs_write_unlock_body n s
      in do { (_, m) \<leftarrow> pthread_mutex_unlock t (mutex s1); Some (s1\<lparr>mutex := m\<rparr>) })"

subsection \<open>Open and close\<close>

text \<open>
  \<open>BufferStreamClose\<close> frees the buffer and destroys the mutex, which it still holds; its result
  is 0 once the lock succeeded.
\<close>

definition BufferStreamClose ::
  "bool \<Rightarrow> nat \<Rightarrow> ITCBufferStream \<Rightarrow> (int \<times> ITCBufferStream) option" where
  "BufferStreamClose mem_ok t s =
     do { (result, m) \<leftarrow> pthread_mutex_lock mem_ok t (mutex s);
          if result \<noteq> 0 then Some (result, s\<lparr>mutex := m\<rparr>)
          else do { (_, m1) \<leftarrow> pthread_mutex_destroy m;
                    Some (0, s\<lparr>buf := None, mutex := m1\<rparr>) } }"

definition buffer_ops :: "bool \<Rightarrow> nat \<Rightarrow> ITCBufferStream ITCStreamOps" where
  "buffer_ops mem_ok t = (snd (itcStreamOpen ITCStream.truncate))
     \<lparr>Close := BufferStreamClose mem_ok t, Read := BufferStreamRead mem_ok t,
      Write := BufferStreamWrite mem_ok t, Seek := BufferStreamSeek mem_ok t,
      Tell := BufferStreamTell, Available := BufferStreamAvailable mem_ok t,
      ReadLock := Some (BufferStreamReadLock mem_ok t),
      ReadUnlock := Some (BufferStreamReadUnlock t),
      WriteLock := Some (BufferStreamWriteLock mem_ok t),
      WriteUnlock := Some (BufferStreamWriteUnlock t)\<rparr>"

text \<open>
  \<open>itcBufferStreamOpen\<close>: \<open>mem\<close> is the block that \<open>malloc(size)\<close> returns, with whatever
  bytes it holds, or \<open>None\<close>; 466 is the \<open>__LINE__\<close> of the error return. \<open>s\<close> is the caller's
  structure, whose fields that are not assigned keep their values.
\<close>

definition itcBufferStreamOpen ::
  "block option \<Rightarrow> bool \<Rightarrow> ITCBufferStream \<Rightarrow> int \<Rightarrow> int \<times> ITCBufferStream" where
  "itcBufferStreamOpen mem mutex_ok s0 n =
     (let s = s0\<lparr>eof := False, stream_size := 0, buf := mem\<rparr>
      in if mem = None then (466, s)
         else let (result, m) = pthread_mutex_init mutex_ok None (mutex s)
              in if result \<noteq> 0 then (result, s\<lparr>mutex := m\<rparr>)
                 else (0, s\<lparr>mutex := m, bsize := n, readpos := 0, writepos := 0, eof := True\<rparr>))"

end
