(* ===== verification/Itc_BufferQueue.thy ===== *)
theory Itc_BufferQueue
  imports Itc_BufferStream
begin

text \<open>
  What the buffer stream promises: it is a bounded first-in first-out queue of bytes.
  \<open>bs_content\<close> is the abstraction of the ring to the queue, \<open>bs_ok\<close> the invariant. Writing
  appends as many bytes as there is room for, reading removes from the front. Two states are
  outside the contract, and the theorems name them: a ring whose positions meet while it is full
  (\<open>bs_collided\<close>), where a write overwrites unread bytes, and the unsplit read of a wrapped ring
  (\<open>bs_unsplit\<close>), where the code copies in the wrong direction.
\<close>

definition bs_content :: "ITCBufferStream \<Rightarrow> block" where
  "bs_content s =
     (case buf s of None \<Rightarrow> []
      | Some b \<Rightarrow> if eof s then []
                 else if readpos s < writepos s
                 then take (nat (writepos s - readpos s)) (drop (nat (readpos s)) b)
                 else drop (nat (readpos s)) b @ take (nat (writepos s)) b)"

text \<open>Positions inside the block: what keeps every \<open>memcpy\<close> inside the buffer.\<close>

definition bs_bounds :: "ITCBufferStream \<Rightarrow> bool" where
  "bs_bounds s \<longleftrightarrow>
     (case buf s of None \<Rightarrow> False
      | Some b \<Rightarrow> bsize s = int (length b) \<and> 0 < bsize s
           \<and> 0 \<le> readpos s \<and> readpos s \<le> bsize s \<and> 0 \<le> writepos s \<and> writepos s \<le> bsize s)"

definition bs_ok :: "ITCBufferStream \<Rightarrow> bool" where
  "bs_ok s \<longleftrightarrow> bs_bounds s \<and> (eof s \<longrightarrow> readpos s = writepos s)
     \<and> \<not> (\<not> eof s \<and> readpos s = bsize s \<and> writepos s = 0)"

definition bs_collided :: "ITCBufferStream \<Rightarrow> bool" where
  "bs_collided s \<longleftrightarrow> \<not> eof s \<and> readpos s = writepos s"

text \<open>A read of \<open>n\<close> bytes takes the branch without a split in a ring that has wrapped.\<close>

definition bs_unsplit :: "ITCBufferStream \<Rightarrow> int \<Rightarrow> bool" where
  "bs_unsplit s n \<longleftrightarrow> \<not> eof s
     \<and> (let r = (if readpos s = bsize s then 0 else readpos s)
        in writepos s \<le> r \<and> n \<le> bsize s - r)"

definition bs_room :: "ITCBufferStream \<Rightarrow> nat" where
  "bs_room s = nat (bsize s) - length (bs_content s)"

lemma bs_okE:
  assumes "bs_ok s"
  obtains b r w where "buf s = Some b" "bsize s = int (length b)" "0 < length b"
    "readpos s = int r" "writepos s = int w" "r \<le> length b" "w \<le> length b"
    "eof s \<longrightarrow> r = w" "\<not> eof s \<and> r = length b \<longrightarrow> 0 < w"
proof -
  from assms obtain b where b: "buf s = Some b" "bsize s = int (length b)" "0 < length b"
    "0 \<le> readpos s" "0 \<le> writepos s" "readpos s \<le> bsize s" "writepos s \<le> bsize s"
    and e: "eof s \<longrightarrow> readpos s = writepos s"
    "\<not> (\<not> eof s \<and> readpos s = bsize s \<and> writepos s = 0)"
    by (auto simp: bs_ok_def bs_bounds_def split: option.splits)
  show ?thesis
    by (rule that [of b "nat (readpos s)" "nat (writepos s)"]) (use b e in auto)
qed

text \<open>The abstraction, over natural positions.\<close>

lemma bs_content_nat:
  "buf s = Some b \<Longrightarrow> readpos s = int r \<Longrightarrow> writepos s = int w \<Longrightarrow>
   bs_content s = (if eof s then [] else if r < w then take (w - r) (drop r b)
                   else drop r b @ take w b)"
  by (auto simp: bs_content_def nat_diff_distrib)

lemma bs_ok_nat:
  "buf s = Some b \<Longrightarrow> readpos s = int r \<Longrightarrow> writepos s = int w \<Longrightarrow>
   bs_ok s \<longleftrightarrow> bsize s = int (length b) \<and> 0 < length b \<and> r \<le> length b \<and> w \<le> length b
     \<and> (eof s \<longrightarrow> r = w) \<and> (\<not> eof s \<longrightarrow> r = length b \<longrightarrow> w \<noteq> 0)"
  by (auto simp: bs_ok_def bs_bounds_def)

subsection \<open>Writing appends\<close>

lemma poke_nat:
  "memcpy b (int i) d (int j) (int k)
     = (if j + k \<le> length d \<and> i + k \<le> length b
        then Some (take i b @ take k (drop j d) @ drop (i + k) b) else None)"
  by (auto simp: memcpy_def peek_def poke_def nat_add_distrib)

lemma bs_write_ahead:
  assumes "buf s = Some b" "bsize s = int (length b)" "readpos s = int r" "writepos s = int w"
    "r \<le> w" "w + n \<le> length b" "length d = n"
  shows "bs_write_body d (int n) s =
    Some (int n, (if 0 < n then (\<lambda>x. x\<lparr>eof := False\<rparr>) else id)
                   (s\<lparr>buf := Some (take w b @ d @ drop (w + n) b), writepos := int (w + n)\<rparr>))"
  using assms by (simp add: bs_write_body_def poke_nat [where j = 0, simplified])

lemma bs_write_split:
  assumes "buf s = Some b" "length b = w + k1" "bsize s = int (length b)"
    "readpos s = int r" "writepos s = int w" "r \<le> w" "0 < m" "length d = k1 + m"
  shows "bs_write_body d (int (k1 + m)) s =
    (let k2 = min m r
     in Some (int (k1 + k2), (if 0 < k1 + k2 then (\<lambda>x. x\<lparr>eof := False\<rparr>) else id)
          (s\<lparr>buf := Some (take k2 (drop k1 d) @ drop k2 (take w b @ take k1 d)),
             writepos := int k2\<rparr>)))"
proof -
  let ?k2 = "min m r"
  have c1: "memcpy b (int w) d 0 (int k1) = Some (take w b @ take k1 d)"
    using poke_nat [of b w d 0 k1] assms by simp
  have c2: "memcpy (take w b @ take k1 d) 0 d (int k1) (int ?k2)
      = Some (take ?k2 (drop k1 d) @ drop ?k2 (take w b @ take k1 d))"
    using poke_nat [of "take w b @ take k1 d" 0 d k1 ?k2] assms by (simp add: min_def)
  have i: "min (int m) (int r) = int ?k2"
    by (simp add: min_def)
  show ?thesis
    using assms c1 c2 i by (simp add: bs_write_body_def Let_def)
qed

lemma bs_write_behind:
  assumes "buf s = Some b" "bsize s = int (length b)" "readpos s = int (w + g)" "writepos s = int w"
    "0 < g" "w + g \<le> length b" "length d = n"
  shows "bs_write_body d (int n) s =
    (let k = min n g
     in Some (int k, (if 0 < k then (\<lambda>x. x\<lparr>eof := False\<rparr>) else id)
          (s\<lparr>buf := Some (take w b @ take k d @ drop (w + k) b), writepos := int (w + k)\<rparr>)))"
proof -
  let ?k = "min n g"
  have i: "min (int n) (int g) = int ?k"
    by (simp add: min_def)
  have c: "memcpy b (int w) d 0 (int ?k) = Some (take w b @ take ?k d @ drop (w + ?k) b)"
    using poke_nat [of b w d 0 ?k] assms by simp
  show ?thesis
    using assms c i by (simp add: bs_write_body_def Let_def)
qed

text \<open>The three shapes of the ring after a write, as lists.\<close>

lemma ring_ahead:
  assumes "r \<le> w" "w + n \<le> length b" "length d = n"
  shows "take (w + n - r) (drop r (take w b @ d @ drop (w + n) b)) = take (w - r) (drop r b) @ d"
  using assms by (simp add: drop_take)

lemma ring_split:
  assumes "r \<le> w" "w \<le> length b" "k2 \<le> r" "length d = k1 + m" "k2 \<le> m"
  shows "drop r (take k2 (drop k1 d) @ drop k2 (take w b @ take k1 d))
           @ take k2 (take k2 (drop k1 d) @ drop k2 (take w b @ take k1 d))
         = take (w - r) (drop r b) @ take (k1 + k2) d"
proof -
  have "length (take k2 (drop k1 d)) = k2"
    using assms by simp
  moreover have "drop (r - k2) (drop k2 (take w b @ take k1 d)) = take (w - r) (drop r b) @ take k1 d"
    using assms by (simp add: drop_take)
  ultimately show ?thesis
    using assms by (simp add: take_add)
qed

lemma ring_behind:
  assumes "w + k \<le> r" "r \<le> length b" "k \<le> length d"
  shows "drop r (take w b @ take k d @ drop (w + k) b) @ take (w + k) (take w b @ take k d @ drop (w + k) b)
         = (drop r b @ take w b) @ take k d"
  using assms by simp

text \<open>The contract of a write, and the contract in each of the three shapes.\<close>

definition appends :: "ITCBufferStream \<Rightarrow> block \<Rightarrow> (int \<times> ITCBufferStream) option \<Rightarrow> bool" where
  "appends s d res \<longleftrightarrow>
     (case res of None \<Rightarrow> False
      | Some (r, s') \<Rightarrow> r = int (min (length d) (bs_room s))
          \<and> bs_content s' = bs_content s @ take (bs_room s) d
          \<and> bs_ok s' \<and> mutex s' = mutex s \<and> bsize s' = bsize s)"

lemma appends_ahead:
  assumes ok: "bs_ok s" and nc: "\<not> bs_collided s"
    and s: "buf s = Some b" "bsize s = int (length b)" "readpos s = int r" "writepos s = int w"
    and sh: "r \<le> w" "w + length d \<le> length b"
  shows "appends s d (bs_write_body d (int (length d)) s)"
proof -
  let ?n = "length d"
  let ?s = "(if 0 < ?n then (\<lambda>x. x\<lparr>eof := False\<rparr>) else id)
                 (s\<lparr>buf := Some (take w b @ d @ drop (w + ?n) b), writepos := int (w + ?n)\<rparr>)"
  note cont = bs_content_nat [OF s(1,3,4)] and okn = ok [unfolded bs_ok_nat [OF s(1,3,4)]]
  have len: "length (take w b @ d @ drop (w + ?n) b) = length b"
    using sh by simp
  have room: "bs_room s = (if eof s then length b else length b - (w - r))"
    using sh s nc cont by (auto simp: bs_room_def bs_collided_def)
  have k: "?n \<le> bs_room s"
    using room sh okn by auto
  have "bs_content ?s = bs_content s @ d"
    using ring_ahead [OF sh refl] sh okn nc cont s(3,4)
    by (cases "?n = 0") (auto simp: bs_content_nat [where r = r and w = "w + ?n"] bs_collided_def)
  moreover have "bs_ok ?s"
    using sh okn s nc len
    by (cases "?n = 0") (auto simp: bs_ok_nat [where r = r and w = "w + ?n"] bs_collided_def)
  ultimately show ?thesis
    using bs_write_ahead [OF s sh refl] k by (simp add: appends_def)
qed

lemma appends_split:
  assumes ok: "bs_ok s" and nc: "\<not> bs_collided s"
    and s: "buf s = Some b" "bsize s = int (length b)" "readpos s = int r" "writepos s = int w"
    and sh: "r \<le> w" "length b = w + k1" "length d = k1 + m" "0 < m"
  shows "appends s d (bs_write_body d (int (length d)) s)"
proof -
  let ?k2 = "min m r"
  let ?b = "take ?k2 (drop k1 d) @ drop ?k2 (take w b @ take k1 d)"
  let ?s = "(if 0 < k1 + ?k2 then (\<lambda>x. x\<lparr>eof := False\<rparr>) else id)
                 (s\<lparr>buf := Some ?b, writepos := int ?k2\<rparr>)"
  note cont = bs_content_nat [OF s(1,3,4)] and okn = ok [unfolded bs_ok_nat [OF s(1,3,4)]]
  have len: "length ?b = length b"
    using sh by (simp add: min_def)
  have room: "bs_room s = k1 + r"
    using sh s nc okn cont by (auto simp: bs_room_def bs_collided_def)
  have pos: "0 < k1 + ?k2 \<or> \<not> eof s"
    using sh okn by (auto simp: min_def)
  have w: "w \<le> length b" using sh by simp
  have "bs_content ?s = bs_content s @ take (k1 + ?k2) d"
    using ring_split [OF sh(1) w _ sh(3)] sh s(3) nc okn cont pos
    by (auto simp: bs_content_nat [where r = r and w = ?k2] bs_collided_def s(4))
  moreover have "bs_ok ?s"
    using sh okn s nc len pos by (auto simp: bs_ok_nat [where r = r and w = ?k2] bs_collided_def)
  moreover have "take (bs_room s) d = take (k1 + ?k2) d" "min (length d) (bs_room s) = k1 + ?k2"
    using room sh by (auto simp: min_def)
  ultimately show ?thesis
    using bs_write_split [OF s(1) sh(2) s(2,3,4) sh(1,4,3)] sh(3)
    by (simp add: appends_def Let_def)
qed

lemma appends_behind:
  assumes ok: "bs_ok s"
    and s: "buf s = Some b" "bsize s = int (length b)" "readpos s = int (w + g)" "writepos s = int w"
    and sh: "0 < g"
  shows "appends s d (bs_write_body d (int (length d)) s)"
proof -
  let ?k = "min (length d) g"
  let ?b = "take w b @ take ?k d @ drop (w + ?k) b"
  let ?s = "(if 0 < ?k then (\<lambda>x. x\<lparr>eof := False\<rparr>) else id)
                 (s\<lparr>buf := Some ?b, writepos := int (w + ?k)\<rparr>)"
  note cont = bs_content_nat [OF s(1,3,4)] and okn = ok [unfolded bs_ok_nat [OF s(1,3,4)]]
  have neof: "\<not> eof s" and r: "w + g \<le> length b" using sh okn by auto
  have len: "length ?b = length b"
    using r by simp
  have room: "bs_room s = g"
    using sh s neof cont r by (simp add: bs_room_def)
  have "bs_content ?s = bs_content s @ take ?k d"
    using ring_behind [of w ?k "w + g" b d] r s(3) neof cont
    by (auto simp: bs_content_nat [where r = "w + g" and w = "w + ?k"])
  moreover have "bs_ok ?s"
    using sh okn s neof len by (auto simp: bs_ok_nat [where r = "w + g" and w = "w + ?k"])
  moreover have "take (bs_room s) d = take ?k d"
    using room by (simp add: min_def)
  ultimately show ?thesis
    using bs_write_behind [OF s sh r refl] room by (simp add: appends_def Let_def)
qed

lemma bs_write_fifo:
  assumes ok: "bs_ok s" and nc: "\<not> bs_collided s"
  shows "appends s d (bs_write_body d (int (length d)) s)"
proof -
  from ok obtain b r w where s: "buf s = Some b" "bsize s = int (length b)" "readpos s = int r"
    "writepos s = int w" and w: "w \<le> length b"
    by (rule bs_okE) blast
  consider "r \<le> w" "w + length d \<le> length b" | "r \<le> w" "length b < w + length d" | "w < r"
    by linarith
  then show ?thesis
  proof cases
    case 1
    then show ?thesis by (rule appends_ahead [OF ok nc s])
  next
    case 2
    with w have "length b = w + (length b - w)" "length d = (length b - w) + (w + length d - length b)"
      "0 < w + length d - length b" by simp_all
    then show ?thesis by (rule appends_split [OF ok nc s 2(1)])
  next
    case 3
    then have "readpos s = int (w + (r - w))" "0 < r - w" using s by simp_all
    then show ?thesis using appends_behind [OF ok s(1,2)] s(4) by blast
  qed
qed

end
