(* ===== verification/Itc_BufferDequeue.thy ===== *)
theory Itc_BufferDequeue
  imports Itc_BufferQueue
begin

text \<open>The reading half of the queue contract, for \<open>Read\<close> and for the read lock.\<close>

definition removes ::
  "ITCBufferStream \<Rightarrow> block \<Rightarrow> nat \<Rightarrow> ((int \<times> block) \<times> ITCBufferStream) option \<Rightarrow> bool" where
  "removes s out n res \<longleftrightarrow>
     (case res of None \<Rightarrow> False
      | Some ((r, out'), s') \<Rightarrow> r = int (min n (length (bs_content s)))
          \<and> out' = take n (bs_content s) @ drop (min n (length (bs_content s))) out
          \<and> bs_content s' = drop n (bs_content s)
          \<and> bs_ok s' \<and> mutex s' = mutex s \<and> bsize s' = bsize s)"

text \<open>The position a read starts from: the end of the block is the start.\<close>

definition wrap_readpos :: "ITCBufferStream \<Rightarrow> ITCBufferStream" where
  "wrap_readpos s = (if readpos s = bsize s then s\<lparr>readpos := 0\<rparr> else s)"

lemma wrap_readpos:
  assumes "bs_ok s" "\<not> eof s"
  shows "bs_ok (wrap_readpos s)" "bs_content (wrap_readpos s) = bs_content s"
    "readpos (wrap_readpos s) < bsize s" "eof (wrap_readpos s) = eof s"
    "mutex (wrap_readpos s) = mutex s" "bsize (wrap_readpos s) = bsize s"
    "buf (wrap_readpos s) = buf s" "writepos (wrap_readpos s) = writepos s"
  using assms by (auto simp: wrap_readpos_def elim!: bs_okE)
    (auto simp: bs_ok_def bs_bounds_def bs_content_def split: if_splits)

lemma bs_read_body_eof: "eof s \<Longrightarrow> bs_read_body out n s = Some ((0, out), s)"
  by (simp add: bs_read_body_def)

lemma bs_read_linear:
  assumes "buf s = Some b" "readpos s = int r" "writepos s = int (r + g)" "0 < g"
    "r + g \<le> length b" "bsize s = int (length b)" "\<not> eof s" "n \<le> length out" "k = min n g"
  shows "bs_read_body out (int n) s
    = Some ((int k, take k (drop r b) @ drop k out),
            if 0 < k \<and> k = g then s\<lparr>readpos := int (r + k), eof := True\<rparr>
            else s\<lparr>readpos := int (r + k)\<rparr>)"
proof -
  have i: "min (int n) (int g) = int k" using assms by (simp add: min_def)
  have c: "memcpy out 0 b (int r) (int k) = Some (take k (drop r b) @ drop k out)"
    using poke_nat [of out 0 b r k] assms min.cobounded1 [of n g] min.cobounded2 [of n g]
    by (simp del: min.cobounded1 min.cobounded2)
  have ne: "readpos s \<noteq> bsize s" using assms by simp
  show ?thesis using assms i c ne by (auto simp: bs_read_body_def Let_def)
qed

lemma bs_read_split:
  assumes "buf s = Some b" "readpos s = int r" "length b = r + k1" "0 < k1" "writepos s = int w"
    "w \<le> r" "bsize s = int (length b)" "\<not> eof s" "k1 + m \<le> length out" "0 < m" "k2 = min m w"
  shows "bs_read_body out (int (k1 + m)) s
    = Some ((int (k1 + k2), drop r b @ take k2 b @ drop (k1 + k2) out),
            if k2 = w then s\<lparr>readpos := int k2, eof := True\<rparr> else s\<lparr>readpos := int k2\<rparr>)"
proof -
  have i: "min (int m) (int w) = int k2" using assms by (simp add: min_def)
  have c1: "memcpy out 0 b (int r) (int k1) = Some (drop r b @ drop k1 out)"
    using poke_nat [of out 0 b r k1] assms by simp
  have k2: "k2 \<le> w" "k2 \<le> m" using assms by simp_all
  have c2: "memcpy (drop r b @ drop k1 out) (int k1) b 0 (int k2)
      = Some (drop r b @ take k2 b @ drop (k1 + k2) out)"
    using poke_nat [of "drop r b @ drop k1 out" k1 b 0 k2] k2 assms(3-10)
    by (simp add: add.commute)
  show ?thesis using assms i c1 c2 by (auto simp: bs_read_body_def Let_def)
qed

lemma bs_read_body_wrap:
  "\<not> eof s \<Longrightarrow> readpos (wrap_readpos s) < bsize s \<Longrightarrow>
     bs_read_body out n s = bs_read_body out n (wrap_readpos s)"
  by (auto simp: bs_read_body_def wrap_readpos_def Let_def)

lemma removes_linear:
  assumes ok: "bs_ok s" and n: "n \<le> length out" "\<not> eof s"
    and s: "buf s = Some b" "bsize s = int (length b)" "readpos s = int r" "writepos s = int (r + g)"
    and g: "0 < g"
  shows "removes s out n (bs_read_body out (int n) s)"
proof -
  let ?k = "min n g"
  have w: "r + g \<le> length b"
    using ok [unfolded bs_ok_nat [OF s(1,3,4)]] by simp
  have cont: "bs_content s = take g (drop r b)"
    using g n by (simp add: bs_content_nat [OF s(1,3,4)])
  have len: "length (bs_content s) = g" using cont w by simp
  note rd = bs_read_linear [OF s(1,3,4) g w s(2) n(2,1) refl]
  show ?thesis
  proof (cases "0 < ?k \<and> ?k = g")
    case True
    then have "g \<le> n" "min n g = g" "0 < length b"
      using w g by (auto simp: min_def split: if_splits)
    then show ?thesis
      using rd cont len w s n g
      by (simp add: removes_def bs_content_def bs_ok_def bs_bounds_def)
  next
    case False
    then have lt: "?k < g \<and> ?k = n" using g by (cases "n \<le> g") auto
    have "take n (take g (drop r b)) = take n (drop r b)"
      using lt by (simp add: min_def)
    moreover have "drop n (take g (drop r b)) = take (g - n) (drop (r + n) b)"
      by (simp add: drop_take add.commute)
    moreover have "b \<noteq> []" using w g by auto
    ultimately show ?thesis
      using rd cont len w s n lt False
      by (simp add: removes_def bs_content_nat [where r = "r + n" and w = "r + g"]
          bs_ok_nat [where r = "r + n" and w = "r + g"])
  qed
qed

lemma removes_split:
  assumes ok: "bs_ok s" and n: "n \<le> length out" "\<not> eof s"
    and s: "buf s = Some b" "bsize s = int (length b)" "readpos s = int r" "writepos s = int w"
    and g: "w \<le> r" "length b = r + k1" "0 < k1" "n = k1 + m" "0 < m"
  shows "removes s out n (bs_read_body out (int n) s)"
proof -
  let ?k2 = "min m w"
  have cont: "bs_content s = drop r b @ take w b"
    using g n by (simp add: bs_content_nat [OF s(1,3,4)])
  have len: "length (bs_content s) = k1 + w" using cont g by simp
  have rd: "bs_read_body out (int n) s
    = Some ((int (k1 + ?k2), drop r b @ take ?k2 b @ drop (k1 + ?k2) out),
            if ?k2 = w then s\<lparr>readpos := int ?k2, eof := True\<rparr> else s\<lparr>readpos := int ?k2\<rparr>)"
    unfolding g(4) by (rule bs_read_split) (use s g n in auto)
  have k: "min n (k1 + w) = k1 + ?k2" using g by (simp add: min_def)
  have t: "take n (drop r b @ take w b) = drop r b @ take ?k2 b"
    using g by (simp add: min_def)
  have d: "drop n (drop r b @ take w b) = take (w - m) (drop m b)"
    using g by (simp add: drop_take)
  show ?thesis
  proof (cases "?k2 = w")
    case True
    then show ?thesis
      using rd cont len k t d s g n
      by (simp add: removes_def bs_content_def bs_ok_def bs_bounds_def min_def split: if_splits)
  next
    case False
    then have "?k2 = m" "m < w" by (auto simp: min_def split: if_splits)
    then show ?thesis
      using rd cont len k t d s g n
      by (simp add: removes_def bs_content_nat [where r = m and w = w]
          bs_ok_nat [where r = m and w = w])
  qed
qed

lemma removes_wrap:
  assumes "bs_ok s" "\<not> eof s"
  shows "removes s out n (bs_read_body out (int n) s)
       = removes (wrap_readpos s) out n (bs_read_body out (int n) (wrap_readpos s))"
proof -
  have "bs_read_body out (int n) s = bs_read_body out (int n) (wrap_readpos s)"
    using bs_read_body_wrap wrap_readpos [OF assms] assms(2) by metis
  then show ?thesis by (simp only: removes_def wrap_readpos [OF assms])
qed

lemma bs_read_fifo:
  assumes ok: "bs_ok s" and n: "n \<le> length out" and us: "\<not> bs_unsplit s (int n)"
  shows "removes s out n (bs_read_body out (int n) s)"
proof (cases "eof s")
  case True
  then have "bs_content s = []" by (simp add: bs_content_def split: option.splits)
  with True ok show ?thesis by (simp add: removes_def bs_read_body_eof)
next
  case False
  note wr = wrap_readpos [OF ok False]
  let ?s = "wrap_readpos s"
  from wr(1) obtain b r w where s: "buf ?s = Some b" "bsize ?s = int (length b)" "readpos ?s = int r"
    "writepos ?s = int w" and w: "w \<le> length b"
    by (rule bs_okE) blast
  have r: "r < length b" using wr(3,6) s by simp
  have neof: "\<not> eof ?s" using wr(4) False by simp
  have "removes ?s out n (bs_read_body out (int n) ?s)"
  proof (cases "r < w")
    case True
    then have "writepos ?s = int (r + (w - r))" "0 < w - r" using s by simp_all
    then show ?thesis using removes_linear [OF wr(1) n neof s(1,2,3)] by blast
  next
    case F: False
    have "length b - r < n"
      using us F r s wr(6,8) False by (auto simp: bs_unsplit_def wrap_readpos_def Let_def split: if_splits)
    then have "length b = r + (length b - r)" "0 < length b - r"
      "n = (length b - r) + (n + r - length b)" "0 < n + r - length b"
      using r by simp_all
    then show ?thesis using removes_split [OF wr(1) n neof s] F by (meson linorder_not_less)
  qed
  then show ?thesis using removes_wrap [OF ok False] by simp
qed

subsection \<open>The lock interface\<close>

text \<open>
  The locked region of a read is the front of the queue, and the unlock removes what was read. The
  side condition excludes the ring whose last unread byte is the last byte of the block.
\<close>

definition bs_drains_at_end :: "ITCBufferStream \<Rightarrow> int \<Rightarrow> bool" where
  "bs_drains_at_end s n \<longleftrightarrow>
     (let r = readpos (wrap_readpos s)
      in bsize s \<le> r + n \<and> (writepos s = 0 \<or> writepos s = bsize s))"

lemma min_int [simp]: "min (int a) (int b) = int (min a b)"
  by (simp add: min_def)

lemma bs_read_lock_region:
  assumes ok: "bs_ok s" and neof: "\<not> eof s"
  shows "\<exists>k b. BufferStreamReadLock mem_ok t s (int n)
      = map_option (\<lambda>(r, m). if r = 0 then (int k, Some (readpos (wrap_readpos s)), (wrap_readpos s)\<lparr>mutex := m\<rparr>)
                             else (-1, None, s\<lparr>mutex := m\<rparr>))
          (pthread_mutex_lock mem_ok t (mutex s))
    \<and> buf s = Some b \<and> k \<le> n
    \<and> peek b (readpos (wrap_readpos s)) (int k) = Some (take k (bs_content s))"
proof -
  note wr = wrap_readpos [OF ok neof]
  let ?s = "wrap_readpos s"
  from wr(1) obtain b r w where s: "buf ?s = Some b" "bsize ?s = int (length b)" "readpos ?s = int r"
    "writepos ?s = int w" and w: "w \<le> length b" "r \<le> length b"
    by (rule bs_okE) blast
  let ?k = "if r < w then min n (w - r) else min n (length b - r)"
  have cont: "bs_content s = (if r < w then take (w - r) (drop r b) else drop r b @ take w b)"
    using wr(2,4) neof bs_content_nat [OF s(1,3,4)] by simp
  have p: "peek b (int r) (int ?k) = Some (take ?k (bs_content s))"
    using w cont by (auto simp: peek_def min_def)
  have "BufferStreamReadLock mem_ok t s (int n)
      = map_option (\<lambda>(r, m). if r = 0 then (int ?k, Some (readpos ?s), ?s\<lparr>mutex := m\<rparr>)
                             else (-1, None, s\<lparr>mutex := m\<rparr>))
          (pthread_mutex_lock mem_ok t (mutex s))"
    using s w wr(6,8) neof
    by (cases "pthread_mutex_lock mem_ok t (mutex s)")
      (auto simp: BufferStreamReadLock_def Let_def wrap_readpos_def of_nat_diff [symmetric]
        simp del: of_nat_diff split: if_splits)
  then show ?thesis using p s wr(7) by (intro exI [of _ ?k] exI [of _ b]) auto
qed

lemma bs_read_unlock_step:
  assumes s: "bsize s = int L" "readpos s = int r" "writepos s = int w" "\<not> eof s"
    and r: "r < L" and rn: "if r < w then n \<le> w - r else n \<le> L - r" 
    and nd: "r + n < L \<or> 0 < w"
  shows "bs_read_unlock_body (int n) s
    = (if 0 < n \<and> (if r + n = L then 0 else r + n) = w
       then s\<lparr>readpos := int (if r + n = L then 0 else r + n), eof := True\<rparr>
       else s\<lparr>readpos := int (if r + n = L then 0 else r + n)\<rparr>)"
proof -
  have m: "(if readpos s < writepos s then min (int n) (writepos s - readpos s)
            else min (int n) (bsize s - readpos s)) = int n"
    using rn r s by (cases "r < w") (auto simp: min_def)
  have ne: "(readpos s = bsize s \<and> 0 < writepos s) = False" using r s by simp
  have u: "bs_read_unlock_body (int n) s =
     (let s2 = s\<lparr>readpos := readpos s + int n\<rparr>;
          s3 = (if readpos s2 = bsize s2 \<and> writepos s2 > 0 then s2\<lparr>readpos := 0\<rparr> else s2)
      in if int n > 0 \<and> readpos s3 = writepos s3 then s3\<lparr>eof := True\<rparr> else s3)"
    unfolding bs_read_unlock_body_def Let_def using s(4) by (simp only: ne m if_False)
  show ?thesis
  proof (cases "r + n = L")
    case True
    then have "int r + int n = int L" "0 < w" using nd by auto
    then show ?thesis using True s unfolding u Let_def by simp
  next
    case False
    then have "int r + int n \<noteq> int L" by auto
    moreover have "(int r + int n = int w) = (r + n = w)" by auto
    ultimately show ?thesis using False s unfolding u Let_def by simp
  qed
qed

lemma bs_read_unlock_fifo:
  assumes ok: "bs_ok s" and neof: "\<not> eof s" and wrapped: "wrap_readpos s = s"
    and n: "n \<le> length (bs_content s)"
      "int n \<le> (if readpos s < writepos s then writepos s - readpos s else bsize s - readpos s)"
    and nd: "\<not> bs_drains_at_end s (int n)"
  shows "bs_content (bs_read_unlock_body (int n) s) = drop n (bs_content s)
    \<and> bs_ok (bs_read_unlock_body (int n) s)
    \<and> mutex (bs_read_unlock_body (int n) s) = mutex s"
proof -
  from ok obtain b r w where s: "buf s = Some b" "bsize s = int (length b)" "readpos s = int r"
    "writepos s = int w" and w: "w \<le> length b" "r \<le> length b" "0 < length b"
    by (rule bs_okE) blast
  have r: "r < length b"
    using wrap_readpos(3) [OF ok neof] wrapped s by simp
  have cont: "bs_content s = (if r < w then take (w - r) (drop r b) else drop r b @ take w b)"
    using neof bs_content_nat [OF s(1,3,4)] by simp
  have rn: "if r < w then n \<le> w - r else n \<le> length b - r"
    using n(2) s r by (simp split: if_splits)
  have nd': "r + n < length b \<or> (0 < w \<and> w < length b)"
    using nd wrapped s w by (auto simp: bs_drains_at_end_def Let_def)
  let ?r = "if r + n = length b then 0 else r + n"
  have step: "bs_read_unlock_body (int n) s
    = (if 0 < n \<and> ?r = w then s\<lparr>readpos := int ?r, eof := True\<rparr> else s\<lparr>readpos := int ?r\<rparr>)"
    using nd' by (intro bs_read_unlock_step [OF s(2,3,4) neof r rn]) blast
  have w0: "\<not> (0 < n \<and> ?r = w) \<Longrightarrow> bs_content (s\<lparr>readpos := int ?r\<rparr>) = drop n (bs_content s)"
    using s rn nd' w r cont neof
    by (auto simp: bs_content_nat [where r = ?r and w = w] drop_take add.commute split: if_splits)
  have w1: "0 < n \<and> ?r = w \<Longrightarrow> drop n (bs_content s) = []"
    using s rn nd' w r cont by (auto split: if_splits)
  have r': "?r < length b"
    using rn r w by (auto split: if_splits)
  show ?thesis
  proof (cases "0 < n \<and> ?r = w")
    case True
    have st: "bs_read_unlock_body (int n) s = s\<lparr>readpos := int ?r, eof := True\<rparr>"
      by (simp only: step if_P [OF True])
    show ?thesis
      unfolding st using w1 [OF True] True s w
      by (simp add: bs_content_def bs_ok_def bs_bounds_def del: drop_eq_Nil)
  next
    case False
    have st: "bs_read_unlock_body (int n) s = s\<lparr>readpos := int ?r\<rparr>"
      by (simp only: step if_not_P [OF False])
    have "bs_ok (s\<lparr>readpos := int ?r\<rparr>)"
      using s w r' neof by (simp add: bs_ok_nat [where r = ?r and w = w] del: of_nat_add)
    then show ?thesis
      unfolding st using w0 [OF False] by simp
  qed
qed

end
