(* ===== verification/Itc_BufferProps.thy ===== *)
theory Itc_BufferProps
  imports Itc_BufferDequeue
begin

text \<open>
  The contract of the buffer stream's own operations, mutex included: what a task that can take
  the mutex observes. The queue interface is the locale \<open>byte_fifo\<close>, interpreted on the code.
\<close>

subsection \<open>The critical section\<close>

lemma bs_mutex_update [simp]:
  "bs_content (s\<lparr>mutex := m\<rparr>) = bs_content s" "bs_ok (s\<lparr>mutex := m\<rparr>) = bs_ok s"
  "bs_room (s\<lparr>mutex := m\<rparr>) = bs_room s" "bs_collided (s\<lparr>mutex := m\<rparr>) = bs_collided s"
  "bs_unsplit (s\<lparr>mutex := m\<rparr>) n = bs_unsplit s n" "bs_bounds (s\<lparr>mutex := m\<rparr>) = bs_bounds s"
  by (cases "buf s"; simp add: bs_content_def bs_ok_def bs_bounds_def bs_room_def bs_collided_def
      bs_unsplit_def)+

lemma critical_run:
  assumes "pthread_mutex_lock mem_ok t (mutex s) = Some (0, m)"
    "pthread_mutex_unlock t m = Some (0, mutex s)"
    "body (s\<lparr>mutex := m\<rparr>) = Some (r, s1)" "mutex s1 = m"
  shows "critical mem_ok t s err body = Some (r, s1\<lparr>mutex := mutex s\<rparr>)"
  using assms by (simp add: critical_def)

lemma appendsD:
  "appends s d res \<Longrightarrow> \<exists>s'. res = Some (int (min (length d) (bs_room s)), s')
     \<and> bs_content s' = bs_content s @ take (bs_room s) d
     \<and> bs_ok s' \<and> mutex s' = mutex s \<and> bsize s' = bsize s"
  by (cases res) (auto simp: appends_def)

lemma removesD:
  "removes s out n res \<Longrightarrow> \<exists>s'. res = Some ((int (min n (length (bs_content s))),
        take n (bs_content s) @ drop (min n (length (bs_content s))) out), s')
     \<and> bs_content s' = drop n (bs_content s)
     \<and> bs_ok s' \<and> mutex s' = mutex s \<and> bsize s' = bsize s"
  by (cases res) (auto simp: removes_def)

lemma BufferStreamWrite_ok:
  assumes ok: "bs_ok s" and nc: "\<not> bs_collided s" and lk: "lockable t (mutex s)"
  shows "\<exists>s'. BufferStreamWrite mem_ok t s d (int (length d))
            = Some (int (min (length d) (bs_room s)), s')
     \<and> bs_content s' = bs_content s @ take (bs_room s) d
     \<and> bs_ok s' \<and> mutex s' = mutex s \<and> bsize s' = bsize s"
proof -
  obtain m where m: "pthread_mutex_lock mem_ok t (mutex s) = Some (0, m)"
    "pthread_mutex_unlock t m = Some (0, mutex s)"
    using mtx.section_restores [OF lk, of mem_ok] by blast
  have "appends (s\<lparr>mutex := m\<rparr>) d (bs_write_body d (int (length d)) (s\<lparr>mutex := m\<rparr>))"
    by (rule bs_write_fifo) (use ok nc in simp_all)
  from appendsD [OF this] obtain s1 where s1:
    "bs_write_body d (int (length d)) (s\<lparr>mutex := m\<rparr>) = Some (int (min (length d) (bs_room s)), s1)"
    "bs_content s1 = bs_content s @ take (bs_room s) d" "bs_ok s1" "mutex s1 = m" "bsize s1 = bsize s"
    by auto
  show ?thesis
    unfolding BufferStreamWrite_def
      critical_run [where body = "bs_write_body d (int (length d))", OF m s1(1,4)] using s1 by simp
qed

lemma BufferStreamRead_ok:
  assumes ok: "bs_ok s" and us: "\<not> bs_unsplit s (int n)" and n: "n \<le> length out"
    and lk: "lockable t (mutex s)"
  shows "\<exists>s'. BufferStreamRead mem_ok t s out (int n)
            = Some (int (min n (length (bs_content s))),
                    take n (bs_content s) @ drop (min n (length (bs_content s))) out, s')
     \<and> bs_content s' = drop n (bs_content s)
     \<and> bs_ok s' \<and> mutex s' = mutex s \<and> bsize s' = bsize s"
proof -
  obtain m where m: "pthread_mutex_lock mem_ok t (mutex s) = Some (0, m)"
    "pthread_mutex_unlock t m = Some (0, mutex s)"
    using mtx.section_restores [OF lk, of mem_ok] by blast
  have "removes (s\<lparr>mutex := m\<rparr>) out n (bs_read_body out (int n) (s\<lparr>mutex := m\<rparr>))"
    by (rule bs_read_fifo) (use ok us n in simp_all)
  from removesD [OF this] obtain s1 where s1:
    "bs_read_body out (int n) (s\<lparr>mutex := m\<rparr>) = Some ((int (min n (length (bs_content s))),
        take n (bs_content s) @ drop (min n (length (bs_content s))) out), s1)"
    "bs_content s1 = drop n (bs_content s)" "bs_ok s1" "mutex s1 = m" "bsize s1 = bsize s"
    by auto
  show ?thesis
    unfolding BufferStreamRead_def
      critical_run [where body = "bs_read_body out (int n)", OF m s1(1,4)] using s1 by simp
qed

lemma BufferStream_empty_open:
  assumes "mem = Some b" "int (length b) = n" "0 < n"
    "itcBufferStreamOpen mem mutex_ok s0 n = (0, s)"
  shows "bs_ok s \<and> bs_content s = [] \<and> lockable t (mutex s) \<and> bs_room s = length b"
  using assms
  by (auto simp: itcBufferStreamOpen_def pthread_mutex_init_def lockable_def sem_ok_def Let_def
      bs_ok_def bs_bounds_def bs_content_def bs_room_def split: if_splits)

subsection \<open>The queue interface\<close>

locale byte_fifo =
  fixes put :: "'s \<Rightarrow> block \<Rightarrow> (int \<times> 's) option"
    and get :: "'s \<Rightarrow> block \<Rightarrow> nat \<Rightarrow> (int \<times> block \<times> 's) option"
    and content :: "'s \<Rightarrow> block"
    and room :: "'s \<Rightarrow> nat"
    and ok :: "'s \<Rightarrow> bool"
    and may_put :: "'s \<Rightarrow> bool"
    and may_get :: "'s \<Rightarrow> nat \<Rightarrow> bool"
  assumes put_ok: "ok s \<Longrightarrow> may_put s \<Longrightarrow>
      \<exists>s'. put s d = Some (int (min (length d) (room s)), s') \<and> ok s'
         \<and> content s' = content s @ take (room s) d"
    and get_ok: "ok s \<Longrightarrow> may_get s n \<Longrightarrow> n \<le> length out \<Longrightarrow>
      \<exists>s'. get s out n = Some (int (min n (length (content s))),
             take n (content s) @ drop (min n (length (content s))) out, s') \<and> ok s'
         \<and> content s' = drop n (content s)"
    and drain: "ok s \<Longrightarrow> may_put s \<Longrightarrow> d \<noteq> [] \<Longrightarrow> length d \<le> room s \<Longrightarrow> put s d = Some (r, s') \<Longrightarrow>
      may_get s' (length (content s'))"
    and empty_may_put: "ok s \<Longrightarrow> content s = [] \<Longrightarrow> may_put s"
begin

text \<open>What is put and fits comes out, in order, after what was there before.\<close>

lemma put_then_drain:
  assumes "ok s" "may_put s" "d \<noteq> []" "length d \<le> room s"
    "length (content s @ d) \<le> length out"
  shows "\<exists>s1 s2. put s d = Some (int (length d), s1)
    \<and> get s1 out (length (content s @ d))
        = Some (int (length (content s @ d)), (content s @ d) @ drop (length (content s @ d)) out, s2)
    \<and> content s2 = [] \<and> ok s2 \<and> may_put s2"
proof -
  from put_ok [OF assms(1,2), of d] assms(4) obtain s1 where
    s1: "put s d = Some (int (length d), s1)" "ok s1" "content s1 = content s @ d"
    by auto
  from drain [OF assms(1-4) s1(1)] s1(3) have "may_get s1 (length (content s @ d))" by simp
  from get_ok [OF s1(2) this assms(5)] s1 show ?thesis
    using empty_may_put by fastforce
qed

end

lemma bs_drainable:
  assumes ok: "bs_ok s" and w: "0 < writepos s"
  shows "\<not> bs_unsplit s (int (length (bs_content s)))"
proof (cases "eof s")
  case False
  note wr = wrap_readpos [OF ok False]
  from wr(1) obtain b r v where s: "buf (wrap_readpos s) = Some b" "bsize (wrap_readpos s) = int (length b)"
    "readpos (wrap_readpos s) = int r" "writepos (wrap_readpos s) = int v" and v: "v \<le> length b" "r \<le> length b"
    by (rule bs_okE) blast
  have "length (bs_content s) = (if r < v then v - r else length b - r + v)"
    using bs_content_nat [OF s(1,3,4), unfolded wr(2)] wr(4) False v by auto
  then show ?thesis
    using s wr(6,8) w v by (auto simp: bs_unsplit_def wrap_readpos_def Let_def split: if_splits)
qed (simp add: bs_unsplit_def)

lemma bs_write_moves:
  assumes ok: "bs_ok s" and nc: "\<not> bs_collided s" and d: "d \<noteq> []" "length d \<le> bs_room s"
    and w: "bs_write_body d (int (length d)) s = Some (r, s')"
  shows "0 < writepos s'"
proof -
  from ok obtain b p q where s: "buf s = Some b" "bsize s = int (length b)" "readpos s = int p"
    "writepos s = int q" and q: "q \<le> length b" "p \<le> length b" "0 < length b"
    by (rule bs_okE) blast
  have room: "bs_room s = (if eof s then length b else if p < q then length b - (q - p) else p - q)"
    using nc s q bs_content_nat [OF s(1,3,4)] by (auto simp: bs_room_def bs_collided_def)
  have eq: "eof s \<longrightarrow> p = q" using ok s by (simp add: bs_ok_def)
  show ?thesis
  proof (cases "p \<le> q")
    case True
    show ?thesis
    proof (cases "q + length d \<le> length b")
      case fits: True
      show ?thesis
        using bs_write_ahead [OF s True fits refl] w d(1) by (auto simp flip: of_nat_add)
    next
      case False
      let ?k = "length b - q" and ?m = "q + length d - length b"
      have sh: "length b = q + ?k" "0 < ?m" "length d = ?k + ?m" using q False by simp_all
      have "0 < p" using room eq d(2) True False q by (auto split: if_splits)
      then show ?thesis
        using bs_write_split [OF s(1) sh(1) s(2,3,4) True sh(2,3)] sh(2,3) w
        by (auto simp: Let_def min_def split: if_splits)
    qed
  next
    case False
    then have "readpos s = int (q + (p - q))" "0 < p - q" "q + (p - q) \<le> length b" using s q by simp_all
    from bs_write_behind [OF s(1,2) this(1) s(4) this(2,3) refl, of d] False w d
    show ?thesis by (auto simp: Let_def min_def split: if_splits)
  qed
qed

lemma BufferStreamWrite_moves:
  assumes "bs_ok s" "\<not> bs_collided s" "lockable t (mutex s)" "d \<noteq> []" "length d \<le> bs_room s"
    and w: "BufferStreamWrite mem_ok t s d (int (length d)) = Some (r, s')"
  shows "0 < writepos s'"
proof -
  obtain m where m: "pthread_mutex_lock mem_ok t (mutex s) = Some (0, m)"
    "pthread_mutex_unlock t m = Some (0, mutex s)"
    using mtx.section_restores [OF assms(3), of mem_ok] by blast
  from w m obtain r1 s1 m1 where b: "bs_write_body d (int (length d)) (s\<lparr>mutex := m\<rparr>) = Some (r1, s1)"
    and s': "s' = s1\<lparr>mutex := m1\<rparr>"
    by (auto simp: BufferStreamWrite_def critical_def split: bind_splits)
  have "0 < writepos s1"
    by (rule bs_write_moves [OF _ _ _ _ b]) (use assms in simp_all)
  then show ?thesis by (simp add: s')
qed

lemma bs_content_nil_eof:
  assumes "bs_ok s" "bs_content s = []"
  shows "eof s"
proof (rule ccontr)
  assume "\<not> eof s"
  note wr = wrap_readpos [OF assms(1) this]
  from wr(1) obtain b r v where s: "buf (wrap_readpos s) = Some b"
    "bsize (wrap_readpos s) = int (length b)"
    "readpos (wrap_readpos s) = int r" "writepos (wrap_readpos s) = int v"
    "r \<le> length b" "v \<le> length b"
    by (rule bs_okE) blast
  with bs_content_nat [OF s(1,3,4)] wr(2,3,4,6) assms(2) \<open>\<not> eof s\<close> show False
    by (auto split: if_splits)
qed

interpretation bfifo: byte_fifo
  "\<lambda>s d. BufferStreamWrite mem_ok t s d (int (length d))"
  "\<lambda>s out n. BufferStreamRead mem_ok t s out (int n)"
  bs_content bs_room "\<lambda>s. bs_ok s \<and> lockable t (mutex s)"
  "\<lambda>s. \<not> bs_collided s" "\<lambda>s n. \<not> bs_unsplit s (int n)"
proof (unfold_locales, goal_cases)
  case (1 s d)
  then show ?case using BufferStreamWrite_ok [of s t mem_ok d] by force
next
  case (2 s n out)
  then show ?case using BufferStreamRead_ok [of s n out t mem_ok] by force
next
  case (3 s d r s')
  then show ?case
    using BufferStreamWrite_moves [of s t d mem_ok r s'] BufferStreamWrite_ok [of s t mem_ok d]
    by (intro bs_drainable) auto
next
  case (4 s)
  then show ?case using bs_content_nil_eof [of s] by (auto simp: bs_collided_def)
qed

end
