(* ===== verification/Itc_BufferRun.thy ===== *)
theory Itc_BufferRun
  imports Itc_BufferProps
begin

text \<open>
  The buffer stream under any sequence of calls by any tasks: a transition system of its operations,
  each with arguments that describe existing buffers, and the invariant that keeps every \<open>memcpy\<close>
  inside the ring. Regions that are locked stay locked between the two calls, while other tasks may
  try to call.
\<close>

datatype bs_call =
    CallRead block nat | CallWrite block nat | CallSeek int seek_origin | CallAvailable
  | CallReadLock nat | CallReadUnlock nat | CallWriteLock nat | CallWriteUnlock nat

text \<open>The buffers of the caller are as long as it says, and no position before the start is asked for.\<close>

fun fits :: "bs_call \<Rightarrow> bool" where
  "fits (CallRead out n) = (n \<le> length out)"
| "fits (CallWrite d n) = (n \<le> length d)"
| "fits (CallSeek off SEEK_SET) = (0 \<le> off)"
| "fits _ = True"

fun run_call :: "bool \<Rightarrow> nat \<Rightarrow> bs_call \<Rightarrow> ITCBufferStream \<Rightarrow> ITCBufferStream option" where
  "run_call m t (CallRead out n) s = map_option (\<lambda>(r, out, s). s) (BufferStreamRead m t s out (int n))"
| "run_call m t (CallWrite d n) s = map_option snd (BufferStreamWrite m t s d (int n))"
| "run_call m t (CallSeek off org) s = map_option snd (BufferStreamSeek m t s off org)"
| "run_call m t CallAvailable s = map_option snd (BufferStreamAvailable m t s)"
| "run_call m t (CallReadLock n) s = map_option (\<lambda>(r, p, s). s) (BufferStreamReadLock m t s (int n))"
| "run_call m t (CallReadUnlock n) s = BufferStreamReadUnlock t s (int n)"
| "run_call m t (CallWriteLock n) s = map_option (\<lambda>(r, p, s). s) (BufferStreamWriteLock m t s (int n))"
| "run_call m t (CallWriteUnlock n) s = BufferStreamWriteUnlock t s (int n)"

inductive bs_reach :: "ITCBufferStream \<Rightarrow> ITCBufferStream \<Rightarrow> bool" for s0 where
  start: "bs_reach s0 s0"
| call: "bs_reach s0 s \<Longrightarrow> fits c \<Longrightarrow> run_call m t c s = Some s' \<Longrightarrow> bs_reach s0 s'"

subsection \<open>The bodies stay inside the ring\<close>

lemma bs_boundsE:
  assumes "bs_bounds s"
  obtains b where "buf s = Some b" "bsize s = int (length b)" "0 < length b"
    "0 \<le> readpos s" "readpos s \<le> bsize s" "0 \<le> writepos s" "writepos s \<le> bsize s"
  using assms by (auto simp: bs_bounds_def split: option.splits)

lemma bs_boundsI:
  "buf s = Some b \<Longrightarrow> bsize s = int (length b) \<Longrightarrow> 0 < length b \<Longrightarrow> 0 \<le> readpos s \<Longrightarrow> readpos s \<le> bsize s
   \<Longrightarrow> 0 \<le> writepos s \<Longrightarrow> writepos s \<le> bsize s \<Longrightarrow> bs_bounds s"
  by (simp add: bs_bounds_def)

lemma memcpy_defined:
  assumes "0 \<le> soff" "0 \<le> n" "soff + n \<le> int (length src)" "0 \<le> doff" "doff + n \<le> int (length dst)"
  shows "\<exists>d. memcpy dst doff src soff n = Some d \<and> length d = length dst"
proof -
  obtain d where "memcpy dst doff src soff n = Some d"
    using memcpy_eq_Some [of dst doff src soff n] assms by blast
  then show ?thesis using memcpy_length by blast
qed

lemma bs_write_body_bounds:
  assumes "bs_bounds s" "n \<le> length d"
  shows "\<exists>r s'. bs_write_body d (int n) s = Some (r, s') \<and> bs_bounds s' \<and> mutex s' = mutex s"
proof -
  obtain b where b: "buf s = Some b" "bsize s = int (length b)" "0 < length b"
    "0 \<le> readpos s" "readpos s \<le> bsize s" "0 \<le> writepos s" "writepos s \<le> bsize s"
    using assms(1) by (rule bs_boundsE)
  show ?thesis
  proof (cases "writepos s < readpos s \<or> int n \<le> bsize s - writepos s")
    case True
    define k where "k = (if writepos s < readpos s then min (int n) (readpos s - writepos s) else int n)"
    have k: "0 \<le> k" "k \<le> int (length d)" "writepos s + k \<le> int (length b)"
      using b assms(2) True by (auto simp: k_def)
    obtain b1 where "memcpy b (writepos s) d 0 k = Some b1" "length b1 = length b"
      using memcpy_defined [of 0 k d "writepos s" b] k b by auto
    then show ?thesis
      using True b k by (auto simp: bs_write_body_def k_def Let_def bs_bounds_def)
  next
    case False
    define n1 where "n1 = bsize s - writepos s"
    define n2 where "n2 = min (int n - n1) (readpos s)"
    have k: "0 \<le> n1" "0 \<le> n2" "n1 + n2 \<le> int (length d)" "writepos s + n1 \<le> int (length b)" "n2 \<le> int (length b)"
      using b assms(2) False by (auto simp: n1_def n2_def)
    obtain b1 where b1: "memcpy b (writepos s) d 0 n1 = Some b1" "length b1 = length b"
      using memcpy_defined [of 0 n1 d "writepos s" b] k b by auto
    obtain b2 where "memcpy b1 0 d n1 n2 = Some b2" "length b2 = length b1"
      using memcpy_defined [of n1 n2 d 0 b1] k b b1 by auto
    then show ?thesis
      using False b k b1 by (auto simp: bs_write_body_def n1_def n2_def Let_def bs_bounds_def)
  qed
qed

lemma bs_read_body_bounds:
  assumes "bs_bounds s0" "n \<le> length out"
  shows "\<exists>r o' s'. bs_read_body out (int n) s0 = Some ((r, o'), s') \<and> bs_bounds s' \<and> mutex s' = mutex s0"
proof (cases "eof s0")
  case True
  then show ?thesis using assms by (simp add: bs_read_body_def)
next
  case neof: False
  define s where "s = (if readpos s0 = bsize s0 then s0\<lparr>readpos := 0\<rparr> else s0)"
  have bnd: "bs_bounds s" "mutex s = mutex s0"
    using assms(1) by (auto simp: s_def bs_bounds_def split: option.splits)
  obtain b where b: "buf s = Some b" "bsize s = int (length b)" "0 < length b"
    "0 \<le> readpos s" "readpos s \<le> bsize s" "0 \<le> writepos s" "writepos s \<le> bsize s"
    using bnd(1) by (rule bs_boundsE)
  consider "readpos s < writepos s" | "\<not> readpos s < writepos s" "int n > bsize s - readpos s"
    | "\<not> readpos s < writepos s" "\<not> int n > bsize s - readpos s" by blast
  then show ?thesis
  proof cases
    case 1
    define k where "k = min (int n) (writepos s - readpos s)"
    have k: "0 \<le> k" "readpos s + k \<le> int (length b)" "k \<le> int (length out)"
      using b assms(2) 1 by (auto simp: k_def)
    obtain o1 where "memcpy out 0 b (readpos s) k = Some o1"
      using memcpy_defined [of "readpos s" k b 0 out] k b by auto
    then show ?thesis
      using 1 b bnd(2) k neof by (auto simp: bs_read_body_def s_def [symmetric] k_def Let_def bs_bounds_def)
  next
    case 2
    define n1 where "n1 = bsize s - readpos s"
    define n2 where "n2 = min (int n - n1) (writepos s)"
    have k: "0 \<le> n1" "0 \<le> n2" "n1 + n2 \<le> int (length out)" "readpos s + n1 \<le> int (length b)" "n2 \<le> int (length b)"
      using b assms(2) 2 by (auto simp: n1_def n2_def)
    obtain o1 where o1: "memcpy out 0 b (readpos s) n1 = Some o1" "length o1 = length out"
      using memcpy_defined [of "readpos s" n1 b 0 out] k b by auto
    obtain o2 where "memcpy o1 n1 b 0 n2 = Some o2"
      using memcpy_defined [of 0 n2 b n1 o1] k b o1 by auto
    then show ?thesis
      using 2 b bnd(2) k neof o1
      by (auto simp: bs_read_body_def s_def [symmetric] n1_def n2_def Let_def bs_bounds_def)
  next
    case 3
    obtain b' where "memcpy b (readpos s) out 0 (int n) = Some b'" "length b' = length b"
      using memcpy_defined [of 0 "int n" out "readpos s" b] 3 b assms(2) by auto
    then show ?thesis
      using 3 b bnd(2) neof by (auto simp: bs_read_body_def s_def [symmetric] Let_def bs_bounds_def)
  qed
qed

lemma bs_seek_body_bounds:
  assumes "bs_bounds s" "fits (CallSeek off org)"
  shows "bs_bounds (snd (bs_seek_body off org s)) \<and> mutex (snd (bs_seek_body off org s)) = mutex s"
  using assms
  by (cases org; cases "buf s")
    (auto simp: bs_seek_body_def bs_seek_to_def bs_bounds_def Let_def)

lemma bs_bounds_move:
  "bs_bounds s \<Longrightarrow> 0 \<le> r \<Longrightarrow> r \<le> bsize s \<Longrightarrow> 0 \<le> w \<Longrightarrow> w \<le> bsize s
   \<Longrightarrow> bs_bounds (s\<lparr>readpos := r, writepos := w, eof := e\<rparr>)"
  by (cases "buf s") (auto simp: bs_bounds_def)

text \<open>The unlocks only move the positions.\<close>

lemma bs_read_unlock_moves:
  assumes "bs_bounds s"
  shows "\<exists>r e. bs_read_unlock_body (int n) s = s\<lparr>readpos := r, writepos := writepos s, eof := e\<rparr>
    \<and> 0 \<le> r \<and> r \<le> bsize s"
proof (cases "eof s")
  case True
  then show ?thesis
    using assms by (intro exI [of _ "readpos s"] exI [of _ "eof s"])
      (auto simp: bs_read_unlock_body_def elim: bs_boundsE)
next
  case False
  obtain b :: block where b: "bsize s = int (length b)" "0 \<le> readpos s" "readpos s \<le> bsize s" "0 \<le> writepos s"
    "writepos s \<le> bsize s" using assms by (rule bs_boundsE) blast
  define r1 where "r1 = (if readpos s = bsize s \<and> writepos s > 0 then 0 else readpos s)"
  define k where "k = (if r1 < writepos s then min (int n) (writepos s - r1) else min (int n) (bsize s - r1))"
  define r2 where "r2 = (if r1 + k = bsize s \<and> writepos s > 0 then 0 else r1 + k)"
  have "0 \<le> r1" "r1 \<le> bsize s" using b by (auto simp: r1_def)
  then have "0 \<le> k" "r1 + k \<le> bsize s" using b by (auto simp: k_def)
  then have r2: "0 \<le> r2" "r2 \<le> bsize s" using \<open>0 \<le> r1\<close> b(1) by (auto simp: r2_def)
  have a: "(if readpos s = bsize s \<and> writepos s > 0 then s\<lparr>readpos := 0\<rparr> else s) = s\<lparr>readpos := r1\<rparr>"
    "(if r1 + k = bsize s \<and> writepos s > 0 then s\<lparr>readpos := 0\<rparr> else s\<lparr>readpos := r1 + k\<rparr>) = s\<lparr>readpos := r2\<rparr>"
    by (simp_all add: r1_def r2_def)
  have "bs_read_unlock_body (int n) s
      = (if k > 0 \<and> r2 = writepos s then s\<lparr>readpos := r2, eof := True\<rparr> else s\<lparr>readpos := r2\<rparr>)"
    using False unfolding bs_read_unlock_body_def Let_def a(1)
    by (simp add: k_def [symmetric] a(2) split del: if_split cong: if_cong)
  then have "bs_read_unlock_body (int n) s
      = s\<lparr>readpos := r2, writepos := writepos s, eof := (if k > 0 \<and> r2 = writepos s then True else eof s)\<rparr>"
    by simp
  then show ?thesis using r2 by blast
qed

lemma bs_write_unlock_moves:
  assumes "bs_bounds s"
  shows "\<exists>w e. bs_write_unlock_body (int n) s = s\<lparr>readpos := readpos s, writepos := w, eof := e\<rparr>
    \<and> 0 \<le> w \<and> w \<le> bsize s"
proof -
  obtain b :: block where b: "bsize s = int (length b)" "0 \<le> readpos s" "readpos s \<le> bsize s" "0 \<le> writepos s"
    "writepos s \<le> bsize s" using assms by (rule bs_boundsE) blast
  define k where "k = (if writepos s < readpos s then min (int n) (readpos s - writepos s)
    else if int n > bsize s - writepos s then bsize s - writepos s else int n)"
  define w1 where "w1 = (if \<not> writepos s < readpos s \<and> int n > bsize s - writepos s
    then if readpos s > 0 then 0 else writepos s else writepos s + k)"
  define w2 where "w2 = (if w1 = bsize s \<and> readpos s > 0 then 0 else w1)"
  have "0 \<le> w1" "w1 \<le> bsize s" using b by (auto simp: w1_def k_def)
  then have w2: "0 \<le> w2" "w2 \<le> bsize s" using b(1) by (auto simp: w2_def)
  have "bs_write_unlock_body (int n) s
      = s\<lparr>readpos := readpos s, writepos := w2, eof := (if k > 0 then False else eof s)\<rparr>"
    by (simp add: bs_write_unlock_body_def Let_def k_def w1_def w2_def)
  then show ?thesis using w2 by blast
qed

lemma bs_read_unlock_bounds:
  assumes "bs_bounds s"
  shows "bs_bounds (bs_read_unlock_body (int n) s) \<and> mutex (bs_read_unlock_body (int n) s) = mutex s"
proof -
  obtain r e where "bs_read_unlock_body (int n) s = s\<lparr>readpos := r, writepos := writepos s, eof := e\<rparr>"
    "0 \<le> r" "r \<le> bsize s" using bs_read_unlock_moves [OF assms] by blast
  moreover have "bs_bounds (s\<lparr>readpos := r, writepos := writepos s, eof := e\<rparr>)"
    using calculation assms by (intro bs_bounds_move) (auto elim: bs_boundsE)
  ultimately show ?thesis by simp
qed

lemma bs_write_unlock_bounds:
  assumes "bs_bounds s"
  shows "bs_bounds (bs_write_unlock_body (int n) s) \<and> mutex (bs_write_unlock_body (int n) s) = mutex s"
proof -
  obtain w e where "bs_write_unlock_body (int n) s = s\<lparr>readpos := readpos s, writepos := w, eof := e\<rparr>"
    "0 \<le> w" "w \<le> bsize s" using bs_write_unlock_moves [OF assms] by blast
  moreover have "bs_bounds (s\<lparr>readpos := readpos s, writepos := w, eof := e\<rparr>)"
    using calculation assms by (intro bs_bounds_move) (auto elim: bs_boundsE)
  ultimately show ?thesis by simp
qed

subsection \<open>The invariant\<close>

definition live_mutex :: "pthread_mutex \<Rightarrow> bool" where
  "live_mutex m \<longleftrightarrow> (\<exists>sem. m = Mutex sem)"

lemma live_lock:
  "live_mutex m \<Longrightarrow> pthread_mutex_lock mem t m = Some (r, m') \<Longrightarrow> r = 0 \<and> live_mutex m'"
  by (auto simp: live_mutex_def pthread_mutex_lock_def bind_Some_iff)

lemma live_unlock: "live_mutex m \<Longrightarrow> \<exists>m'. pthread_mutex_unlock t m = Some (0, m') \<and> live_mutex m'"
  by (auto simp: live_mutex_def pthread_mutex_unlock_def)

definition bs_inv :: "ITCBufferStream \<Rightarrow> bool" where
  "bs_inv s \<longleftrightarrow> bs_bounds s \<and> live_mutex (mutex s)"

lemma critical_inv:
  assumes "bs_inv s"
    and body: "\<And>s. bs_bounds s \<Longrightarrow> \<exists>r s'. body s = Some (r, s') \<and> bs_bounds s' \<and> mutex s' = mutex s"
  shows "case critical m t s err body of None \<Rightarrow> pthread_mutex_lock m t (mutex s) = None
         | Some (r, s') \<Rightarrow> bs_inv s'"
proof (cases "pthread_mutex_lock m t (mutex s)")
  case None
  then show ?thesis by (simp add: critical_def)
next
  case (Some p)
  then obtain m1 where l: "pthread_mutex_lock m t (mutex s) = Some (0, m1)" "live_mutex m1"
    using live_lock assms(1) unfolding bs_inv_def by (cases p) blast
  obtain r s' where b: "body (s\<lparr>mutex := m1\<rparr>) = Some (r, s')" "bs_bounds s'" "mutex s' = m1"
    using body [of "s\<lparr>mutex := m1\<rparr>"] assms(1) by (auto simp: bs_inv_def)
  obtain m2 where "pthread_mutex_unlock t m1 = Some (0, m2)" "live_mutex m2"
    using live_unlock [OF l(2)] by blast
  then show ?thesis using l b by (simp add: critical_def bs_inv_def)
qed

text \<open>Every call of the interface is defined, unless it waits for the mutex, and keeps the invariant.\<close>

lemma run_call_inv:
  assumes inv: "bs_inv s" and "fits c"
  shows "case run_call m t c s of None \<Rightarrow> pthread_mutex_lock m t (mutex s) = None | Some s' \<Rightarrow> bs_inv s'"
proof -
  have b: "bs_bounds s" "live_mutex (mutex s)" using inv by (simp_all add: bs_inv_def)
  consider (blocked) "pthread_mutex_lock m t (mutex s) = None"
    | (taken) m1 where "pthread_mutex_lock m t (mutex s) = Some (0, m1)" "live_mutex m1"
    using live_lock [OF b(2)] by (cases "pthread_mutex_lock m t (mutex s)") auto
  note lk = this
  show ?thesis
  proof (cases c)
    case (CallRead out n)
    then show ?thesis
      using critical_inv [OF inv, where body = "bs_read_body out (int n)" and m = m and t = t and err = "(0, out)"]
        bs_read_body_bounds [of _ n out] assms(2)
      by (auto simp: BufferStreamRead_def split: option.splits)
  next
    case (CallWrite d n)
    then show ?thesis
      using critical_inv [OF inv, where body = "bs_write_body d (int n)" and m = m and t = t and err = 0]
        bs_write_body_bounds [of _ n d] assms(2)
      by (auto simp: BufferStreamWrite_def split: option.splits)
  next
    case CallAvailable
    then show ?thesis
      using critical_inv [OF inv, where body = "\<lambda>s. Some (bs_available s, s)" and m = m and t = t and err = 0]
      by (auto simp: BufferStreamAvailable_def split: option.splits)
  next
    case (CallSeek off org)
    show ?thesis
    proof (cases rule: lk)
      case blocked
      then show ?thesis by (simp add: CallSeek BufferStreamSeek_def)
    next
      case (taken m1)
      let ?s = "snd (bs_seek_body off org (s\<lparr>mutex := m1\<rparr>))"
      have s': "bs_bounds ?s" "mutex ?s = m1"
        using bs_seek_body_bounds [of "s\<lparr>mutex := m1\<rparr>" off org] assms(2) b(1) CallSeek by simp_all
      obtain m2 where "pthread_mutex_unlock t m1 = Some (0, m2)" "live_mutex m2"
        using live_unlock [OF taken(2)] by blast
      then show ?thesis
        using s' taken by (simp add: CallSeek BufferStreamSeek_def case_prod_beta Let_def bs_inv_def)
    qed
  next
    case (CallReadLock n)
    have "bs_bounds (s\<lparr>mutex := m1, readpos := 0\<rparr>)" for m1
      using b(1) by (cases "buf s") (auto simp: bs_bounds_def)
    then show ?thesis
      using b by (cases rule: lk) (auto simp: CallReadLock BufferStreamReadLock_def bs_inv_def Let_def)
  next
    case (CallWriteLock n)
    then show ?thesis
      using b by (cases rule: lk) (auto simp: BufferStreamWriteLock_def bs_inv_def Let_def)
  next
    case (CallReadUnlock n)
    then show ?thesis
      using bs_read_unlock_bounds [OF b(1), of n] live_unlock [OF b(2), of t]
      by (auto simp: BufferStreamReadUnlock_def bs_inv_def Let_def)
  next
    case (CallWriteUnlock n)
    then show ?thesis
      using bs_write_unlock_bounds [OF b(1), of n] live_unlock [OF b(2), of t]
      by (auto simp: BufferStreamWriteUnlock_def bs_inv_def Let_def)
  qed
qed

lemma bs_reach_inv: "bs_reach s0 s \<Longrightarrow> bs_inv s0 \<Longrightarrow> bs_inv s"
proof (induction rule: bs_reach.induct)
  case (call s c m t s')
  then show ?case using run_call_inv [of s c m t] by simp
qed

lemma open_inv:
  assumes "itcBufferStreamOpen (Some mem) ok s0 (int (length mem)) = (0, s)" "mem \<noteq> []"
  shows "bs_inv s"
  using assms by (auto simp: itcBufferStreamOpen_def Let_def bs_inv_def bs_bounds_def live_mutex_def pthread_mutex_init_def
      split: if_splits prod.splits)

end
