(* ===== verification/Itp_Cond.thy ===== *)
theory Itp_Cond
  imports Itp_Mutex
begin

text \<open>
  The condition variables of \<open>sdk/driver/itp/itp_posix_openrtos.c\<close>: a count of waiting tasks and a
  counting semaphore of FreeRTOS with at most 32 tokens. The functions run in several tasks at once,
  so each is cut at its critical sections and semaphore calls, the places where tasks can interleave;
  what a task does next is its phase. Times are not modelled: a wait with a limit may time out whenever
  it finds no token.
\<close>

record itpCondition =
  ccount :: int
  tokens :: nat

datatype pthread_cond = CondNull | COND_INITIALIZER | Cond itpCondition

datatype cphase =
    Returned int        \<comment> \<open>not in a call; the result of the last one\<close>
  | Counted bool        \<comment> \<open>waiting: counted, the mutex still locked; with a time limit or without\<close>
  | Blocked bool        \<comment> \<open>waiting for a token\<close>
  | Woken               \<comment> \<open>has taken a token, is to lock the mutex\<close>
  | TimedOut            \<comment> \<open>no token in time, still counted\<close>
  | Signalling | Posting | Broadcasting | Undoing

record cond_sys =
  ccond :: pthread_cond
  cmutex :: pthread_mutex
  phases :: "cphase list"

definition goto :: "nat \<Rightarrow> cphase \<Rightarrow> cond_sys \<Rightarrow> cond_sys" where
  "goto t p s = s\<lparr>phases := (phases s)[t := p]\<rparr>"

abbreviation ETIMEDOUT :: int where "ETIMEDOUT \<equiv> 116"
abbreviation max_tokens :: nat where "max_tokens \<equiv> 32"

definition pthread_cond_init :: "bool \<Rightarrow> pthread_cond \<Rightarrow> int \<times> pthread_cond" where
  "pthread_cond_init mem_ok c = (if \<not> mem_ok then (ENOMEM, c) else (0, Cond \<lparr>ccount = 0, tokens = 0\<rparr>))"

text \<open>The critical section at the start of each operation, up to the condition it works on.\<close>

definition cond_handle :: "bool \<Rightarrow> pthread_cond \<Rightarrow> int \<times> pthread_cond" where
  "cond_handle mem_ok c =
     (case c of CondNull \<Rightarrow> (EINVAL, c) | COND_INITIALIZER \<Rightarrow> pthread_cond_init mem_ok c | Cond _ \<Rightarrow> (0, c))"

definition on_cond :: "(itpCondition \<Rightarrow> itpCondition \<times> cphase) \<Rightarrow> nat \<Rightarrow> cond_sys \<Rightarrow> cond_sys option" where
  "on_cond f t s =
     (case ccond s of Cond k \<Rightarrow> let (k, p) = f k in Some (goto t p (s\<lparr>ccond := Cond k\<rparr>)) | _ \<Rightarrow> None)"

definition enter_cond ::
  "bool \<Rightarrow> (itpCondition \<Rightarrow> itpCondition \<times> cphase) \<Rightarrow> nat \<Rightarrow> cond_sys \<Rightarrow> cond_sys option" where
  "enter_cond mem_ok f t s =
     (let (r, c) = cond_handle mem_ok (ccond s); s = s\<lparr>ccond := c\<rparr>
      in if r \<noteq> 0 then Some (goto t (Returned r) s) else on_cond f t s)"

subsection \<open>Waiting\<close>

definition wait_enter :: "bool \<Rightarrow> bool \<Rightarrow> nat \<Rightarrow> cond_sys \<Rightarrow> cond_sys option" where
  "wait_enter mem_ok timed = enter_cond mem_ok (\<lambda>k. (k\<lparr>ccount := ccount k + 1\<rparr>, Counted timed))"

definition wait_unlock :: "bool \<Rightarrow> nat \<Rightarrow> cond_sys \<Rightarrow> cond_sys option" where
  "wait_unlock timed t s =
     do { (r, m) \<leftarrow> pthread_mutex_unlock t (cmutex s);
          Some (goto t (if r \<noteq> 0 then Returned EINVAL else Blocked timed) (s\<lparr>cmutex := m\<rparr>)) }"

text \<open>\<open>xSemaphoreTake\<close>: with a token, and, for the wait with a limit, without one.\<close>

definition wait_take :: "nat \<Rightarrow> cond_sys \<Rightarrow> cond_sys option" where
  "wait_take t s =
     (case ccond s of
        Cond k \<Rightarrow> if 0 < tokens k then on_cond (\<lambda>k. (k\<lparr>tokens := tokens k - 1\<rparr>, Woken)) t s else None
      | _ \<Rightarrow> None)"

definition wait_timeout :: "nat \<Rightarrow> cond_sys \<Rightarrow> cond_sys option" where
  "wait_timeout t s =
     (case ccond s of Cond k \<Rightarrow> if tokens k = 0 then Some (goto t TimedOut s) else None | _ \<Rightarrow> None)"

definition wait_expire :: "nat \<Rightarrow> cond_sys \<Rightarrow> cond_sys option" where
  "wait_expire = on_cond (\<lambda>k. (k\<lparr>ccount := ccount k - 1\<rparr>, Returned ETIMEDOUT))"

definition wait_relock :: "bool \<Rightarrow> nat \<Rightarrow> cond_sys \<Rightarrow> cond_sys option" where
  "wait_relock mem_ok t s =
     do { (r, m) \<leftarrow> pthread_mutex_lock mem_ok t (cmutex s);
          Some (goto t (Returned (if r \<noteq> 0 then EINVAL else 0)) (s\<lparr>cmutex := m\<rparr>)) }"

subsection \<open>Signalling\<close>

definition signal_enter :: "bool \<Rightarrow> nat \<Rightarrow> cond_sys \<Rightarrow> cond_sys option" where
  "signal_enter mem_ok = enter_cond mem_ok
     (\<lambda>k. if ccount k = 0 then (k, Returned 0) else (k\<lparr>ccount := ccount k - 1\<rparr>, Signalling))"

text \<open>\<open>xSemaphoreGive\<close>, with the phases after it when there is room for the token and when not.\<close>

definition cond_give :: "cphase \<Rightarrow> cphase \<Rightarrow> nat \<Rightarrow> cond_sys \<Rightarrow> cond_sys option" where
  "cond_give given full =
     on_cond (\<lambda>k. if tokens k < max_tokens then (k\<lparr>tokens := Suc (tokens k)\<rparr>, given) else (k, full))"

definition cond_undo :: "nat \<Rightarrow> cond_sys \<Rightarrow> cond_sys option" where
  "cond_undo = on_cond (\<lambda>k. (k\<lparr>ccount := ccount k + 1\<rparr>, Returned EINVAL))"

definition broadcast_enter :: "bool \<Rightarrow> nat \<Rightarrow> cond_sys \<Rightarrow> cond_sys option" where
  "broadcast_enter mem_ok = enter_cond mem_ok (\<lambda>k. (k, Broadcasting))"

definition broadcast_check :: "nat \<Rightarrow> cond_sys \<Rightarrow> cond_sys option" where
  "broadcast_check =
     on_cond (\<lambda>k. if ccount k = 0 then (k, Returned 0) else (k\<lparr>ccount := ccount k - 1\<rparr>, Posting))"

text \<open>The loop of \<open>pthread_cond_broadcast\<close> when no other task runs, at most \<open>n\<close> times.\<close>

fun broadcast_loop :: "nat \<Rightarrow> nat \<Rightarrow> cond_sys \<Rightarrow> cond_sys option" where
  "broadcast_loop 0 t s = None"
| "broadcast_loop (Suc n) t s =
     do { s \<leftarrow> broadcast_check t s;
          if phases s ! t \<noteq> Posting then Some s
          else do { s \<leftarrow> cond_give Broadcasting Undoing t s;
                    if phases s ! t = Undoing then cond_undo t s else broadcast_loop n t s } }"

subsection \<open>All tasks together\<close>

text \<open>
  One step of some task \<open>t\<close>, which is in the phase that the function is in. Between its calls a task may
  lock and unlock the mutex. \<open>tm\<close> tells whether waits with a time limit occur.
\<close>

inductive cond_step :: "bool \<Rightarrow> bool \<Rightarrow> cond_sys \<Rightarrow> cond_sys \<Rightarrow> bool" for tm m where
  lock: "t < length (phases s) \<Longrightarrow> phases s ! t = Returned r \<Longrightarrow>
     pthread_mutex_lock m t (cmutex s) = Some (r', mx) \<Longrightarrow> cond_step tm m s (goto t (Returned r') (s\<lparr>cmutex := mx\<rparr>))"
| unlock: "t < length (phases s) \<Longrightarrow> phases s ! t = Returned r \<Longrightarrow>
     pthread_mutex_unlock t (cmutex s) = Some (r', mx) \<Longrightarrow> cond_step tm m s (goto t (Returned r') (s\<lparr>cmutex := mx\<rparr>))"
| wait: "t < length (phases s) \<Longrightarrow> phases s ! t = Returned r \<Longrightarrow> timed \<le> tm \<Longrightarrow>
     wait_enter m timed t s = Some s' \<Longrightarrow> cond_step tm m s s'"
| release: "t < length (phases s) \<Longrightarrow> phases s ! t = Counted timed \<Longrightarrow>
     wait_unlock timed t s = Some s' \<Longrightarrow> cond_step tm m s s'"
| take: "t < length (phases s) \<Longrightarrow> phases s ! t = Blocked timed \<Longrightarrow>
     wait_take t s = Some s' \<Longrightarrow> cond_step tm m s s'"
| timeout: "t < length (phases s) \<Longrightarrow> phases s ! t = Blocked True \<Longrightarrow>
     wait_timeout t s = Some s' \<Longrightarrow> cond_step tm m s s'"
| expire: "t < length (phases s) \<Longrightarrow> phases s ! t = TimedOut \<Longrightarrow>
     wait_expire t s = Some s' \<Longrightarrow> cond_step tm m s s'"
| relock: "t < length (phases s) \<Longrightarrow> phases s ! t = Woken \<Longrightarrow>
     wait_relock m t s = Some s' \<Longrightarrow> cond_step tm m s s'"
| signal: "t < length (phases s) \<Longrightarrow> phases s ! t = Returned r \<Longrightarrow>
     signal_enter m t s = Some s' \<Longrightarrow> cond_step tm m s s'"
| give: "t < length (phases s) \<Longrightarrow> phases s ! t = Signalling \<Longrightarrow>
     cond_give (Returned 0) Undoing t s = Some s' \<Longrightarrow> cond_step tm m s s'"
| undo: "t < length (phases s) \<Longrightarrow> phases s ! t = Undoing \<Longrightarrow>
     cond_undo t s = Some s' \<Longrightarrow> cond_step tm m s s'"
| broadcast: "t < length (phases s) \<Longrightarrow> phases s ! t = Returned r \<Longrightarrow>
     broadcast_enter m t s = Some s' \<Longrightarrow> cond_step tm m s s'"
| check: "t < length (phases s) \<Longrightarrow> phases s ! t = Broadcasting \<Longrightarrow>
     broadcast_check t s = Some s' \<Longrightarrow> cond_step tm m s s'"
| post: "t < length (phases s) \<Longrightarrow> phases s ! t = Posting \<Longrightarrow>
     cond_give Broadcasting Undoing t s = Some s' \<Longrightarrow> cond_step tm m s s'"

inductive cond_reach :: "bool \<Rightarrow> bool \<Rightarrow> cond_sys \<Rightarrow> cond_sys \<Rightarrow> bool" for tm m s0 where
  start: "cond_reach tm m s0 s0"
| step: "cond_reach tm m s0 s \<Longrightarrow> cond_step tm m s s' \<Longrightarrow> cond_reach tm m s0 s'"

text \<open>\<open>n\<close> tasks, a condition that is statically initialised or created, a live mutex.\<close>

definition cond_start :: "nat \<Rightarrow> cond_sys \<Rightarrow> bool" where
  "cond_start n s \<longleftrightarrow> phases s = replicate n (Returned 0)
     \<and> ccond s \<in> {COND_INITIALIZER, Cond \<lparr>ccount = 0, tokens = 0\<rparr>} \<and> (\<exists>sem. cmutex s = Mutex sem)"

subsection \<open>The count of waiting tasks\<close>

fun is_waiting :: "cphase \<Rightarrow> bool" where
  "is_waiting (Counted _) = True"
| "is_waiting (Blocked _) = True"
| "is_waiting TimedOut = True"
| "is_waiting _ = False"

definition waiting :: "cond_sys \<Rightarrow> nat" where
  "waiting s = length (filter is_waiting (phases s))"

definition giving :: "cond_sys \<Rightarrow> nat" where
  "giving s = length (filter (\<lambda>p. p \<in> {Signalling, Posting, Undoing}) (phases s))"

text \<open>
  Every waiting task is in the count, or a token is there for it, or on the way. Without time limits
  the count is never negative.
\<close>

definition cond_inv :: "bool \<Rightarrow> cond_sys \<Rightarrow> bool" where
  "cond_inv tm s \<longleftrightarrow> (\<exists>sem. cmutex s = Mutex sem)
     \<and> (case ccond s of CondNull \<Rightarrow> False | COND_INITIALIZER \<Rightarrow> waiting s = 0 \<and> giving s = 0
        | Cond k \<Rightarrow> ccount k + int (tokens k) + int (giving s) = int (waiting s) \<and> tokens k \<le> max_tokens
            \<and> (\<not> tm \<longrightarrow> 0 \<le> ccount k))
     \<and> (\<not> tm \<longrightarrow> (\<forall>p \<in> set (phases s). p \<noteq> TimedOut \<and> p \<noteq> Counted True \<and> p \<noteq> Blocked True))"

lemma waiting_goto:
  "t < length (phases s) \<Longrightarrow> int (waiting (goto t p s))
     = int (waiting s) + (if is_waiting p then 1 else 0) - (if is_waiting (phases s ! t) then 1 else 0)"
  using filter_update [of t "phases s" is_waiting p] by (auto simp: waiting_def goto_def split: if_splits)

lemma giving_goto:
  "t < length (phases s) \<Longrightarrow> int (giving (goto t p s))
     = int (giving s) + (if p \<in> {Signalling, Posting, Undoing} then 1 else 0)
       - (if phases s ! t \<in> {Signalling, Posting, Undoing} then 1 else 0)"
  using filter_update [of t "phases s" "\<lambda>p. p \<in> {Signalling, Posting, Undoing}" p]
  by (auto simp: giving_def goto_def split: if_splits)

lemma goto_simps [simp]:
  "ccond (goto t p s) = ccond s" "cmutex (goto t p s) = cmutex s" "length (phases (goto t p s)) = length (phases s)"
  "waiting (s\<lparr>ccond := c\<rparr>) = waiting s" "giving (s\<lparr>ccond := c\<rparr>) = giving s"
  "waiting (s\<lparr>cmutex := m\<rparr>) = waiting s" "giving (s\<lparr>cmutex := m\<rparr>) = giving s"
  "t < length (phases s) \<Longrightarrow> phases (goto t p s) ! t = p"
  by (simp_all add: goto_def waiting_def giving_def)

lemma goto_phases: "p' \<in> set (phases (goto t p s)) \<Longrightarrow> p' = p \<or> p' \<in> set (phases s)"
  by (auto simp: goto_def dest: set_update_subset_insert [THEN subsetD])

text \<open>What a phase adds to the balance.\<close>

definition weight :: "cphase \<Rightarrow> int" where
  "weight p = (if is_waiting p then 1 else 0) - (if p \<in> {Signalling, Posting, Undoing} then 1 else 0)"

definition untimed :: "cphase \<Rightarrow> bool" where
  "untimed p \<longleftrightarrow> p \<noteq> TimedOut \<and> p \<noteq> Counted True \<and> p \<noteq> Blocked True"

lemma weights [simp]:
  "weight (Returned r) = 0" "weight (Counted b) = 1" "weight (Blocked b) = 1" "weight TimedOut = 1"
  "weight Woken = 0" "weight Broadcasting = 0" "weight Signalling = -1" "weight Posting = -1" "weight Undoing = -1"
  by (simp_all add: weight_def)

lemma untimed_simps [simp]:
  "untimed (Returned r)" "untimed Woken" "untimed Broadcasting" "untimed Signalling" "untimed Posting" "untimed Undoing"
  "untimed (Counted b) \<longleftrightarrow> \<not> b" "untimed (Blocked b) \<longleftrightarrow> \<not> b" "\<not> untimed TimedOut"
  by (simp_all add: untimed_def)

lemma balance_goto:
  "t < length (phases s) \<Longrightarrow> int (waiting (goto t p s)) - int (giving (goto t p s))
     = int (waiting s) - int (giving s) + weight p - weight (phases s ! t)"
  by (simp add: waiting_goto giving_goto weight_def)

lemma cond_invI:
  assumes "cmutex s = Mutex sem" "ccond s = Cond k" "ccount k + int (tokens k) = int (waiting s) - int (giving s)"
    "tokens k \<le> max_tokens" "\<not> tm \<Longrightarrow> 0 \<le> ccount k" "\<not> tm \<Longrightarrow> \<forall>p \<in> set (phases s). untimed p"
  shows "cond_inv tm s"
  using assms by (auto simp: cond_inv_def untimed_def)

lemma cond_invD:
  assumes "cond_inv tm s" "ccond s = Cond k"
  shows "ccount k + int (tokens k) = int (waiting s) - int (giving s)" "tokens k \<le> max_tokens"
    "\<not> tm \<Longrightarrow> 0 \<le> ccount k" "\<not> tm \<Longrightarrow> \<forall>p \<in> set (phases s). untimed p" "\<exists>sem. cmutex s = Mutex sem"
  using assms by (auto simp: cond_inv_def untimed_def)

text \<open>A step that keeps the balance keeps the invariant.\<close>

lemma on_cond_inv:
  assumes "cond_inv tm s" "t < length (phases s)" "on_cond f t s = Some s'"
    and f: "\<And>k k' p. ccond s = Cond k \<Longrightarrow> f k = (k', p) \<Longrightarrow>
      tokens k \<le> max_tokens \<Longrightarrow> (\<not> tm \<Longrightarrow> 0 \<le> ccount k) \<Longrightarrow>
      ccount k' + int (tokens k') - weight p = ccount k + int (tokens k) - weight (phases s ! t)
      \<and> tokens k' \<le> max_tokens \<and> (\<not> tm \<longrightarrow> 0 \<le> ccount k' \<and> untimed p)"
  shows "cond_inv tm s'"
proof -
  obtain k k' p where k: "ccond s = Cond k" "f k = (k', p)" "s' = goto t p (s\<lparr>ccond := Cond k'\<rparr>)"
    using assms(3) by (auto simp: on_cond_def split: pthread_cond.splits prod.splits)
  note inv = cond_invD [OF assms(1) k(1)]
  obtain sem where "cmutex s = Mutex sem" using inv(5) by blast
  then show ?thesis
    using f [OF k(1,2) inv(2,3)] inv balance_goto [of t "s\<lparr>ccond := Cond k'\<rparr>" p] assms(2) k(3)
    by (intro cond_invI [of _ sem k']) (auto dest: goto_phases)
qed

lemma enter_cond_inv:
  assumes "cond_inv tm s" "t < length (phases s)" "enter_cond m f t s = Some s'" "phases s ! t = Returned r"
    and f: "\<And>k k' p. f k = (k', p) \<Longrightarrow> tokens k \<le> max_tokens \<Longrightarrow> (\<not> tm \<Longrightarrow> 0 \<le> ccount k) \<Longrightarrow>
      ccount k' + int (tokens k') - weight p = ccount k + int (tokens k)
      \<and> tokens k' \<le> max_tokens \<and> (\<not> tm \<longrightarrow> 0 \<le> ccount k' \<and> untimed p)"
  shows "cond_inv tm s'"
proof (cases "ccond s")
  case CondNull
  then show ?thesis using assms(1) by (simp add: cond_inv_def)
next
  case (Cond k)
  then have "on_cond f t s = Some s'" using assms(3) Cond by (simp add: enter_cond_def cond_handle_def on_cond_def goto_def)
  then show ?thesis
    by (rule on_cond_inv [OF assms(1,2)]) (use f assms(4) in auto)
next
  case COND_INITIALIZER
  then have zero: "waiting s = 0" "giving s = 0" using assms(1) by (simp_all add: cond_inv_def)
  show ?thesis
  proof (cases m)
    case False
    then have "s' = goto t (Returned ENOMEM) s"
      using assms(3) COND_INITIALIZER
      by (cases s) (simp add: enter_cond_def cond_handle_def pthread_cond_init_def goto_def)
    moreover have "waiting s' = 0" "giving s' = 0"
      using calculation waiting_goto [OF assms(2), of "Returned ENOMEM"] giving_goto [OF assms(2), of "Returned ENOMEM"]
        zero assms(4) by simp_all
    ultimately show ?thesis
      using assms(1) COND_INITIALIZER by (auto simp: cond_inv_def dest!: goto_phases)
  next
    case True
    let ?s = "s\<lparr>ccond := Cond \<lparr>ccount = 0, tokens = 0\<rparr>\<rparr>"
    have o: "on_cond f t ?s = Some s'"
      using assms(3) COND_INITIALIZER True by (simp add: enter_cond_def cond_handle_def pthread_cond_init_def)
    have "cond_inv tm ?s" using assms(1) zero COND_INITIALIZER by (simp add: cond_inv_def)
    then show ?thesis
      by (rule on_cond_inv [OF _ _ o]) (use f assms(2,4) in auto)
  qed
qed

text \<open>Steps that change only the mutex and the phase.\<close>

lemma mutex_step_inv:
  assumes "cond_inv tm s" "t < length (phases s)" "weight p = weight (phases s ! t)" "\<not> tm \<Longrightarrow> untimed p"
    "is_waiting p = is_waiting (phases s ! t)"
  shows "cond_inv tm (goto t p (s\<lparr>cmutex := Mutex sem\<rparr>))"
proof -
  have w: "waiting (goto t p (s\<lparr>cmutex := Mutex sem\<rparr>)) = waiting s" "giving (goto t p (s\<lparr>cmutex := Mutex sem\<rparr>)) = giving s"
    using waiting_goto [of t "s\<lparr>cmutex := Mutex sem\<rparr>" p] balance_goto [of t "s\<lparr>cmutex := Mutex sem\<rparr>" p] assms(2,3,5)
    by auto
  have "\<forall>q \<in> set (phases (goto t p (s\<lparr>cmutex := Mutex sem\<rparr>))). untimed q" if "\<not> tm"
    using assms(1,4) that goto_phases [of _ t p "s\<lparr>cmutex := Mutex sem\<rparr>"]
    by (auto simp: cond_inv_def untimed_def)
  then show ?thesis
    using assms(1) unfolding cond_inv_def w untimed_def goto_simps by simp
qed

lemma cond_step_inv:
  assumes "cond_step tm m s s'" "cond_inv tm s"
  shows "cond_inv tm s'"
  using assms(1)
proof cases
  case (lock t r r' mx)
  obtain sem where "mx = Mutex sem"
    using assms(2) lock(4) by (auto simp: cond_inv_def pthread_mutex_lock_def bind_Some_iff)
  then show ?thesis using lock mutex_step_inv [OF assms(2)] by simp
next
  case (unlock t r r' mx)
  obtain sem where "mx = Mutex sem"
    using assms(2) unlock(4) by (auto simp: cond_inv_def pthread_mutex_unlock_def)
  then show ?thesis using unlock mutex_step_inv [OF assms(2)] by simp
next
  case (wait t r timed)
  show ?thesis
    by (rule enter_cond_inv [OF assms(2) wait(1) _ wait(2)])
      (use wait(3,4) in \<open>auto simp: wait_enter_def\<close>)
next
  case (release t timed)
  obtain sem where "cmutex s = Mutex sem" using assms(2) by (auto simp: cond_inv_def)
  then have "s' = goto t (Blocked timed) (s\<lparr>cmutex := Mutex (give_semaphore t sem)\<rparr>)"
    using release(3) by (simp add: wait_unlock_def pthread_mutex_unlock_def)
  moreover have "untimed (Blocked timed)" if "\<not> tm"
    using assms(2) release(1,2) that nth_mem [OF release(1)] by (cases timed) (auto simp: cond_inv_def)
  ultimately show ?thesis using release mutex_step_inv [OF assms(2) release(1)] by simp
next
  case (take t timed)
  show ?thesis
  proof (rule on_cond_inv [OF assms(2) take(1)])
    show "on_cond (\<lambda>k. (k\<lparr>tokens := tokens k - 1\<rparr>, Woken)) t s = Some s'"
      using take(3) by (auto simp: wait_take_def split: pthread_cond.splits if_splits)
  qed (use take in \<open>auto simp: wait_take_def split: if_splits\<close>)
next
  case (timeout t)
  obtain sem where sem: "cmutex s = Mutex sem" using assms(2) by (auto simp: cond_inv_def)
  have "s' = goto t TimedOut s"
    using timeout(3) by (auto simp: wait_timeout_def split: pthread_cond.splits if_splits)
  then have "s' = goto t TimedOut (s\<lparr>cmutex := Mutex sem\<rparr>)" using sem by (simp add: goto_def)
  moreover have tm
    using assms(2) nth_mem [OF timeout(1)] timeout(2) by (auto simp: cond_inv_def)
  ultimately show ?thesis using timeout(1,2) mutex_step_inv [OF assms(2), of t TimedOut sem] by simp
next
  case (expire t)
  have tm using assms(2) nth_mem [OF expire(1)] expire(2) by (auto simp: cond_inv_def)
  then show ?thesis
    by (intro on_cond_inv [OF assms(2) expire(1) expire(3) [unfolded wait_expire_def]]) (use expire in auto)
next
  case (relock t)
  obtain sem where "cmutex s = Mutex sem" using assms(2) by (auto simp: cond_inv_def)
  then obtain sem' where "s' = goto t (Returned 0) (s\<lparr>cmutex := Mutex sem'\<rparr>)"
    using relock(3) by (auto simp: wait_relock_def pthread_mutex_lock_def bind_Some_iff)
  then show ?thesis using relock mutex_step_inv [OF assms(2)] by simp
next
  case (signal t r)
  show ?thesis
    by (rule enter_cond_inv [OF assms(2) signal(1) _ signal(2)])
      (use signal(3) in \<open>auto simp: signal_enter_def split: if_splits\<close>)
next
  case (give t)
  show ?thesis
    by (rule on_cond_inv [OF assms(2) give(1) give(3) [unfolded cond_give_def]]) (use give in \<open>auto split: if_splits\<close>)
next
  case (undo t)
  show ?thesis
    by (rule on_cond_inv [OF assms(2) undo(1) undo(3) [unfolded cond_undo_def]]) (use undo in auto)
next
  case (broadcast t r)
  show ?thesis
    by (rule enter_cond_inv [OF assms(2) broadcast(1) _ broadcast(2)])
      (use broadcast(3) in \<open>auto simp: broadcast_enter_def\<close>)
next
  case (check t)
  show ?thesis
    by (rule on_cond_inv [OF assms(2) check(1) check(3) [unfolded broadcast_check_def]])
      (use check in \<open>auto split: if_splits\<close>)
next
  case (post t)
  show ?thesis
    by (rule on_cond_inv [OF assms(2) post(1) post(3) [unfolded cond_give_def]]) (use post in \<open>auto split: if_splits\<close>)
qed

lemma cond_start_inv: "cond_start n s \<Longrightarrow> cond_inv tm s"
  by (auto simp: cond_start_def cond_inv_def waiting_def giving_def)

lemma cond_reach_inv: "cond_reach tm m s0 s \<Longrightarrow> cond_start n s0 \<Longrightarrow> cond_inv tm s"
  by (induction rule: cond_reach.induct) (auto intro: cond_start_inv cond_step_inv)

subsection \<open>Broadcasting\<close>

lemma broadcast_loop_mono:
  "broadcast_loop n t s = Some s' \<Longrightarrow> n \<le> n' \<Longrightarrow> broadcast_loop n' t s = Some s'"
proof (induction n arbitrary: n' s)
  case (Suc n)
  then obtain j where "n' = Suc j" "n \<le> j" by (cases n') auto
  with Suc show ?case by (auto simp: bind_Some_iff split: if_splits)
qed simp

lemma goto_goto [simp]:
  "goto t p (goto t q s) = goto t p s" "(goto t p s)\<lparr>ccond := c\<rparr> = goto t p (s\<lparr>ccond := c\<rparr>)"
  by (simp_all add: goto_def)

text \<open>
  What the loop leaves behind when it runs alone: with a count that the semaphore has room for, a token
  for each; else a full semaphore and an error.
\<close>

lemma broadcast_result:
  assumes "ccond s = Cond k" "tokens k + n = max_tokens" "t < length (phases s)"
  shows "broadcast_loop (Suc n) t s = Some
    (if 0 \<le> ccount k \<and> ccount k \<le> int n
     then goto t (Returned 0) (s\<lparr>ccond := Cond \<lparr>ccount = 0, tokens = tokens k + nat (ccount k)\<rparr>\<rparr>)
     else goto t (Returned EINVAL) (s\<lparr>ccond := Cond \<lparr>ccount = ccount k - int n, tokens = max_tokens\<rparr>\<rparr>))"
  using assms
proof (induction n arbitrary: s k)
  case 0
  then show ?case
    by (cases k) (auto simp: broadcast_check_def cond_give_def cond_undo_def on_cond_def)
next
  case (Suc n)
  show ?case
  proof (cases "ccount k = 0")
    case True
    then show ?thesis using Suc.prems
      by (cases k) (simp add: broadcast_check_def on_cond_def del: broadcast_loop.simps(2) add: broadcast_loop.simps(2) [of "Suc n"])
  next
    case False
    let ?k = "k\<lparr>ccount := ccount k - 1, tokens := Suc (tokens k)\<rparr>"
    let ?s = "goto t Broadcasting (s\<lparr>ccond := Cond ?k\<rparr>)"
    have "broadcast_loop (Suc (Suc n)) t s = broadcast_loop (Suc n) t ?s"
      using Suc.prems False
      by (subst broadcast_loop.simps(2)) (simp add: broadcast_check_def cond_give_def on_cond_def del: broadcast_loop.simps)
    then show ?thesis
      using Suc.IH [of ?s ?k] Suc.prems False by (auto simp: nat_diff_distrib diff_diff_eq [symmetric] simp del: broadcast_loop.simps)
  qed
qed

lemma broadcast_wakes:
  assumes "cond_inv False s" "ccond s = Cond k" "t < length (phases s)" "phases s ! t = Broadcasting" "giving s = 0"
    "waiting s \<le> max_tokens"
  shows "\<exists>s'. broadcast_loop (Suc (max_tokens - tokens k)) t s = Some s' \<and> phases s' ! t = Returned 0
    \<and> ccond s' = Cond \<lparr>ccount = 0, tokens = waiting s\<rparr> \<and> waiting s' = waiting s"
proof -
  note inv = cond_invD [OF assms(1,2)]
  have c: "ccount k = int (waiting s) - int (tokens k)" "0 \<le> ccount k" using inv assms(5) by simp_all
  then have "ccount k \<le> int (max_tokens - tokens k)" "tokens k + nat (ccount k) = waiting s"
    using inv(2) assms(6) by (simp_all add: of_nat_diff)
  then show ?thesis
    using broadcast_result [OF assms(2) _ assms(3), of "max_tokens - tokens k"] inv(2) c(2) assms(3,4)
      waiting_goto [of t "s\<lparr>ccond := Cond \<lparr>ccount = 0, tokens = waiting s\<rparr>\<rparr>" "Returned 0"]
    by simp
qed

text \<open>A wait with a time limit that ends without a token does not lock the mutex again.\<close>

definition run_timeout :: "bool \<Rightarrow> nat \<Rightarrow> cond_sys \<Rightarrow> cond_sys option" where
  "run_timeout m t s =
     do { s \<leftarrow> wait_enter m True t s; s \<leftarrow> wait_unlock True t s; s \<leftarrow> wait_timeout t s; wait_expire t s }"

definition run_signalled :: "bool \<Rightarrow> nat \<Rightarrow> nat \<Rightarrow> cond_sys \<Rightarrow> cond_sys option" where
  "run_signalled m t u s =
     do { s \<leftarrow> wait_enter m True t s; s \<leftarrow> wait_unlock True t s; s \<leftarrow> signal_enter m u s;
          s \<leftarrow> cond_give (Returned 0) Undoing u s; s \<leftarrow> wait_take t s; wait_relock m t s }"

lemma unlock_depth:
  "lockable t m \<Longrightarrow> held t m = Suc n \<Longrightarrow> \<exists>m'. pthread_mutex_unlock t m = Some (0, m') \<and> lockable t m' \<and> held t m' = n"
  by (auto simp: lockable_def held_def pthread_mutex_unlock_def give_semaphore_def sem_ok_def split: if_splits)

lemma timeout_result:
  assumes "ccond s = Cond k" "tokens k = 0" "t < length (phases s)" "lockable t (cmutex s)" "held t (cmutex s) = Suc n"
  shows "\<exists>s'. run_timeout m t s = Some s' \<and> phases s' ! t = Returned ETIMEDOUT \<and> held t (cmutex s') = n"
proof -
  obtain m' where "pthread_mutex_unlock t (cmutex s) = Some (0, m')" "held t m' = n"
    using unlock_depth [OF assms(4,5)] by blast
  then show ?thesis
    using assms(1-3)
    by (simp add: run_timeout_def wait_enter_def enter_cond_def cond_handle_def on_cond_def wait_unlock_def
        wait_timeout_def wait_expire_def Let_def)
qed

lemma signalled_result:
  assumes "ccond s = Cond k" "0 \<le> ccount k" "tokens k < max_tokens" "t < length (phases s)" "u < length (phases s)" "t \<noteq> u"
    "lockable t (cmutex s)" "held t (cmutex s) = Suc n"
  shows "\<exists>s'. run_signalled m t u s = Some s' \<and> phases s' ! t = Returned 0 \<and> held t (cmutex s') = Suc n"
proof -
  obtain m' where m': "pthread_mutex_unlock t (cmutex s) = Some (0, m')" "lockable t m'" "held t m' = n"
    using unlock_depth [OF assms(7,8)] by blast
  obtain m2 where "pthread_mutex_lock m t m' = Some (0, m2)" "held t m2 = Suc n"
    using mtx.lock_ok [OF m'(2), of m] m'(3) by auto
  then show ?thesis
    using assms(1-6) m'(1)
    by (simp add: run_signalled_def wait_enter_def enter_cond_def cond_handle_def on_cond_def wait_unlock_def
        signal_enter_def cond_give_def wait_take_def wait_relock_def Let_def)
qed

end
