(* ===== verification/Itu_Calendar.thy ===== *)
theory Itu_Calendar
  imports CB_Prelude
begin

text \<open>
  The calendar of \<open>sdk/share/itu/itu_calendar.c\<close>: the month and year that are shown, the grid of the days
  of a month under their days of the week, and the days of the lunar calendar. \<open>weekDays\<close> is the array
  of seven columns and six rows, whose bounds are checked. The current date comes from \<open>localtime\<close>
  and is an argument. Finding, filling and selecting the widgets of the calendar is not modelled, but
  the texts that are shown in a column are.
\<close>

record ITUCalendar =
  minYear :: int
  maxYear :: int
  cyear :: int
  cmonth :: int
  cday :: int
  weekDays :: "nat \<Rightarrow> nat \<Rightarrow> nat"

text \<open>Years and months are unsigned in the functions that fill the grid.\<close>

definition leap_year :: "nat \<Rightarrow> bool" where
  "leap_year y \<longleftrightarrow> (y mod 100 \<noteq> 0 \<and> y mod 4 = 0) \<or> y mod 400 = 0"

definition CalendarDay :: "nat \<Rightarrow> nat \<Rightarrow> nat" where
  "CalendarDay m y =
     (if m = 1 \<or> m = 3 \<or> m = 5 \<or> m = 7 \<or> m = 8 \<or> m = 10 \<or> m = 12 then 31
      else if m = 4 \<or> m = 6 \<or> m = 9 \<or> m = 11 then 30
      else if leap_year y then 29 else 28)"

subsection \<open>The grid\<close>

text \<open>The loops over the years and months before, in 32 bit arithmetic.\<close>

function add_years :: "nat \<Rightarrow> nat \<Rightarrow> 32 word \<Rightarrow> 32 word" where
  "add_years y y1 t = (if y1 < y then add_years y (Suc y1) (t + (if leap_year y1 then 366 else 365)) else t)"
  by pat_completeness auto
termination by (relation "measure (\<lambda>(y, y1, t). y - y1)") auto

function add_months :: "nat \<Rightarrow> nat \<Rightarrow> nat \<Rightarrow> 32 word \<Rightarrow> 32 word" where
  "add_months y m m1 t = (if m1 < m then add_months y m (Suc m1) (t + of_nat (CalendarDay m1 y)) else t)"
  by pat_completeness auto
termination by (relation "measure (\<lambda>(y, m, m1, t). m - m1)") auto

declare add_years.simps [simp del] add_months.simps [simp del]

definition put_day :: "(nat \<Rightarrow> nat \<Rightarrow> nat) \<Rightarrow> nat \<Rightarrow> nat \<Rightarrow> nat \<Rightarrow> (nat \<Rightarrow> nat \<Rightarrow> nat) option" where
  "put_day wd w l v = (if w < 7 \<and> l < 6 then Some (wd(w := (wd w)(l := v))) else None)"

text \<open>The empty cells before the first day: \<open>for (j = 1; j < n; j++, k++)\<close>.\<close>

function lead_in :: "nat \<Rightarrow> nat \<Rightarrow> nat \<Rightarrow> (nat \<Rightarrow> nat \<Rightarrow> nat) \<Rightarrow> (nat \<times> (nat \<Rightarrow> nat \<Rightarrow> nat)) option" where
  "lead_in n j k wd =
     (if j < n then do { wd \<leftarrow> put_day wd (j - 1) 0 0; lead_in n (Suc j) (Suc k) wd } else Some (k, wd))"
  by pat_completeness auto
termination by (relation "measure (\<lambda>(n, j, k, wd). n - j)") auto

function fill_days :: "nat \<Rightarrow> nat \<Rightarrow> nat \<Rightarrow> nat \<Rightarrow> nat \<Rightarrow> (nat \<Rightarrow> nat \<Rightarrow> nat) \<Rightarrow> (nat \<Rightarrow> nat \<Rightarrow> nat) option" where
  "fill_days d days i k l wd =
     (if i \<le> days then
        do { (k, wd) \<leftarrow> (if i = 1 then lead_in (if d = 0 then 7 else d) 1 k wd else Some (k, wd));
             wd \<leftarrow> put_day wd (if k mod 7 = 0 then 6 else k mod 7 - 1) l i;
             fill_days d days (Suc i) (Suc k) (if k mod 7 = 0 then Suc l else l) wd }
      else Some wd)"
  by pat_completeness auto
termination by (relation "measure (\<lambda>(d, days, i, k, l, wd). Suc days - i)") auto

declare lead_in.simps [simp del] fill_days.simps [simp del]

definition u32_of_int :: "int \<Rightarrow> nat" where
  "u32_of_int i = unat (word_of_int i :: 32 word)"

definition CalendarUpdateWeekDays :: "ITUCalendar \<Rightarrow> ITUCalendar option" where
  "CalendarUpdateWeekDays cal =
     (let y = u32_of_int (cyear cal); m = u32_of_int (cmonth cal);
          t = add_months y m 1 (add_years y 0 0);
          d = unat (t mod 7)
      in do { wd \<leftarrow> fill_days d (CalendarDay m y) 1 1 0 (\<lambda>_ _. 0); Some (cal\<lparr>weekDays := wd\<rparr>) })"

subsection \<open>Moving through the months\<close>

text \<open>\<open>today\<close> is the year, month and day of \<open>localtime\<close>.\<close>

definition mark_today :: "int \<times> int \<times> int \<Rightarrow> ITUCalendar \<Rightarrow> ITUCalendar" where
  "mark_today today cal =
     (case today of (y, m, d) \<Rightarrow> cal\<lparr>cday := (if y = cyear cal \<and> m = cmonth cal then d else 0)\<rparr>)"

definition ituCalendarLastMonth :: "int \<times> int \<times> int \<Rightarrow> ITUCalendar \<Rightarrow> ITUCalendar option" where
  "ituCalendarLastMonth today cal =
     (if cyear cal = 0 \<or> cmonth cal = 0 then Some cal
      else if cmonth cal > 1
      then CalendarUpdateWeekDays (mark_today today (cal\<lparr>cmonth := cmonth cal - 1\<rparr>))
      else if cyear cal > minYear cal
      then CalendarUpdateWeekDays (mark_today today (cal\<lparr>cyear := cyear cal - 1, cmonth := 12\<rparr>))
      else Some cal)"

definition ituCalendarNextMonth :: "int \<times> int \<times> int \<Rightarrow> ITUCalendar \<Rightarrow> ITUCalendar option" where
  "ituCalendarNextMonth today cal =
     (if cyear cal = 0 \<or> cmonth cal = 0 then Some cal
      else if cmonth cal < 12
      then CalendarUpdateWeekDays (mark_today today (cal\<lparr>cmonth := cmonth cal + 1\<rparr>))
      else if cyear cal < maxYear cal
      then CalendarUpdateWeekDays (mark_today today (cal\<lparr>cyear := cyear cal + 1, cmonth := 1\<rparr>))
      else Some cal)"

definition ituCalendarToday :: "int \<times> int \<times> int \<Rightarrow> ITUCalendar \<Rightarrow> ITUCalendar option" where
  "ituCalendarToday today cal =
     (case today of (y, m, d) \<Rightarrow> CalendarUpdateWeekDays (cal\<lparr>cyear := y, cmonth := m, cday := d\<rparr>))"

definition ituCalendarGoto :: "ITUCalendar \<Rightarrow> int \<Rightarrow> int \<Rightarrow> ITUCalendar option" where
  "ituCalendarGoto cal year month = CalendarUpdateWeekDays (cal\<lparr>cyear := year, cmonth := month, cday := 0\<rparr>)"

text \<open>The timer event: a calendar that shows a day follows the clock.\<close>

definition calendar_timer :: "int \<times> int \<times> int \<Rightarrow> ITUCalendar \<Rightarrow> (bool \<times> ITUCalendar) option" where
  "calendar_timer today cal =
     (if cday cal > 0 \<and> (cyear cal, cmonth cal, cday cal) \<noteq> today
      then do { cal \<leftarrow> ituCalendarToday today cal; Some (True, cal) } else Some (False, cal))"

subsection \<open>Lunar days\<close>

definition wMonthAdd :: "int list" where
  "wMonthAdd = [0, 31, 59, 90, 120, 151, 181, 212, 243, 273, 304, 334]"

text \<open>One entry for each year from 1921: twelve or thirteen bits for the lengths of its months.\<close>

definition wNongliData :: "nat list" where
  "wNongliData = [
    2635, 333387, 1701, 1748, 267701, 694, 2391, 133423, 1175, 396438,
    3402, 3749, 331177, 1453, 694, 201326, 2350, 465197, 3221, 3402,
    400202, 2901, 1386, 267611, 605, 2349, 137515, 2709, 464533, 1738,
    2901, 330421, 1242, 2651, 199255, 1323, 529706, 3733, 1706, 398762,
    2741, 1206, 267438, 2647, 1318, 204070, 3477, 461653, 1386, 2413,
    330077, 1197, 2637, 268877, 3365, 531109, 2900, 2922, 398042, 2395,
    1179, 267415, 2635, 661067, 1701, 1748, 398772, 2742, 2391, 330031,
    1175, 1611, 200010, 3749, 527717, 1452, 2742, 332397, 2350, 3222,
    268949, 3402, 3493, 133973, 1386, 464219, 605, 2349, 334123, 2709,
    2890, 267946, 2773, 592565, 1210, 2651, 395863, 1323, 2707, 265877]"

text \<open>\<open>nTheDate\<close>: days from the lunar new year of 1921, counted from one.\<close>

definition the_date :: "int \<Rightarrow> int \<Rightarrow> int \<Rightarrow> int" where
  "the_date y m d =
     (y - 1921) * 365 + (y - 1921) sdiv 4 + d + wMonthAdd ! nat (m - 1) - 38
       + (if y mod 4 = 0 \<and> m > 2 then 1 else 0)"

definition month_bit :: "nat \<Rightarrow> nat \<Rightarrow> nat" where
  "month_bit x n = x div 2 ^ n mod 2"

text \<open>The months of one year, from the highest of \<open>n\<close> bits to the lowest: the day found, or the days left.\<close>

fun lunar_months :: "nat \<Rightarrow> nat \<Rightarrow> int \<Rightarrow> bool \<times> int" where
  "lunar_months x 0 date = (False, date)"
| "lunar_months x (Suc n) date =
     (if date \<le> int (29 + month_bit x n) then (True, date)
      else lunar_months x n (date - 29 - int (month_bit x n)))"

text \<open>The loop over the years; beyond the table it reads outside the array.\<close>

fun lunar_years :: "nat list \<Rightarrow> int \<Rightarrow> int option" where
  "lunar_years [] date = None"
| "lunar_years (x # xs) date =
     (let (found, date) = lunar_months x (if x < 4095 then 12 else 13) date
      in if found then Some date else lunar_years xs date)"

text \<open>The index into the 31 names of \<open>cDayName\<close>.\<close>

definition GetDayOf :: "int \<Rightarrow> int \<Rightarrow> int \<Rightarrow> nat option" where
  "GetDayOf y m d =
     (if 1 \<le> m \<and> m \<le> 12 then
        do { i \<leftarrow> lunar_years wNongliData (the_date y m d);
             if 0 \<le> i \<and> i < 31 then Some (nat i) else None }
      else None)"

text \<open>The texts in the list box of a column with \<open>n\<close> items.\<close>

datatype cal_text = Blank | DayNumber nat | LunarDay nat

fun column_texts :: "bool \<Rightarrow> ITUCalendar \<Rightarrow> nat \<Rightarrow> nat \<Rightarrow> nat \<Rightarrow> cal_text list option" where
  "column_texts lunar cal w i 0 = Some []"
| "column_texts lunar cal w i (Suc n) =
     (if i < 6 then
        do { let d = weekDays cal w i;
             x \<leftarrow> (if d = 0 then Some Blank
                   else if lunar then map_option LunarDay (GetDayOf (cyear cal) (cmonth cal) (int d))
                   else Some (DayNumber d));
             xs \<leftarrow> column_texts lunar cal w (Suc i) n;
             Some (x # xs) }
      else None)"

subsection \<open>The grid shows the days under their days of the week\<close>

fun days_before :: "nat \<Rightarrow> nat" where
  "days_before 0 = 0"
| "days_before (Suc y) = days_before y + (if leap_year y then 366 else 365)"

fun months_before :: "nat \<Rightarrow> nat \<Rightarrow> nat" where
  "months_before y 0 = 0"
| "months_before y (Suc m) = months_before y m + (if m = 0 then 0 else CalendarDay m y)"

lemma add_years_eq:
  "y1 \<le> y \<Longrightarrow> add_years y y1 (of_nat (days_before y1)) = of_nat (days_before y)"
proof (induction "y - y1" arbitrary: y1)
  case 0
  then show ?case by (subst add_years.simps) simp
next
  case (Suc n)
  then have ih: "add_years y (Suc y1) (of_nat (days_before (Suc y1))) = of_nat (days_before y)"
    by (intro Suc.hyps(1)) simp_all
  have e: "of_nat (days_before y1) + (if leap_year y1 then 366 else 365 :: 32 word)
      = of_nat (days_before (Suc y1))" by simp
  show ?case
    using ih Suc.prems Suc.hyps(2) unfolding add_years.simps [of y y1] e by (simp del: days_before.simps)
qed

lemma add_months_eq:
  "1 \<le> m1 \<Longrightarrow> m1 \<le> m \<Longrightarrow> add_months y m m1 (t + of_nat (months_before y m1)) = t + of_nat (months_before y m)"
proof (induction "m - m1" arbitrary: m1)
  case 0
  then show ?case by (subst add_months.simps) simp
next
  case (Suc n)
  then have "months_before y (Suc m1) = months_before y m1 + CalendarDay m1 y"
    by simp
  moreover have "add_months y m (Suc m1) (t + of_nat (months_before y (Suc m1))) = t + of_nat (months_before y m)"
    using Suc.prems Suc.hyps(2) by (intro Suc.hyps(1)) simp_all
  ultimately show ?case using Suc.prems Suc.hyps(2)
    by (subst add_months.simps) (simp add: add.assoc del: months_before.simps)
qed

text \<open>A month whose first day is in column \<open>f\<close>, up to day \<open>n\<close>.\<close>

definition grid :: "nat \<Rightarrow> nat \<Rightarrow> nat \<Rightarrow> nat \<Rightarrow> nat" where
  "grid f n w l = (if w < 7 \<and> f \<le> 7 * l + w \<and> 7 * l + w < f + n then Suc (7 * l + w - f) else 0)"

lemma grid_0 [simp]: "grid f 0 = (\<lambda>_ _. 0)"
  by (intro ext) (simp add: grid_def)

lemma cell_of: "w < 7 \<Longrightarrow> 7 * k + w = c \<Longrightarrow> w = c mod 7 \<and> k = c div (7 :: nat)"
  by auto

lemma put_grid:
  assumes "f + n < 42"
  shows "put_day (grid f n) ((f + n) mod 7) ((f + n) div 7) (Suc n) = Some (grid f (Suc n))"
proof -
  have l: "(f + n) div 7 < 6" using assms by (simp add: div_less_iff_less_mult)
  have "((grid f n)((f + n) mod 7 := (grid f n ((f + n) mod 7))((f + n) div 7 := Suc n))) w k = grid f (Suc n) w k" for w k
  proof (cases "w = (f + n) mod 7 \<and> k = (f + n) div 7")
    case True
    then have "7 * k + w = f + n" "w < 7" by simp_all
    then show ?thesis using True by (simp add: grid_def)
  next
    case False
    then have "w < 7 \<Longrightarrow> 7 * k + w \<noteq> f + n" using cell_of by blast
    then show ?thesis using False by (auto simp: grid_def)
  qed
  then show ?thesis using l by (auto simp: put_day_def intro!: ext)
qed

lemma put_zero: "w < 7 \<Longrightarrow> l < 6 \<Longrightarrow> put_day (\<lambda>_ _. 0) w l 0 = Some (\<lambda>_ _. 0)"
  by (auto simp: put_day_def intro!: ext)

lemma lead_in_empty:
  "j \<le> n \<Longrightarrow> 1 \<le> j \<Longrightarrow> n \<le> 7 \<Longrightarrow> lead_in n j k (\<lambda>_ _. 0) = Some (k + (n - j), \<lambda>_ _. 0)"
proof (induction "n - j" arbitrary: j k)
  case 0
  then show ?case by (subst lead_in.simps) simp
next
  case (Suc i)
  then have "lead_in n (Suc j) (Suc k) (\<lambda>_ _. 0) = Some (Suc k + (n - Suc j), \<lambda>_ _. 0)" by simp
  then show ?case using Suc by (subst lead_in.simps) (simp add: put_zero)
qed

lemma column_of_k: "(if Suc c mod 7 = 0 then 6 else Suc c mod 7 - 1) = c mod (7 :: nat)"
  by (simp add: mod_Suc)

lemma row_of_k: "(if Suc c mod 7 = 0 then Suc (c div 7) else c div 7) = Suc c div (7 :: nat)"
  by (simp add: div_Suc)

lemma fill_step:
  assumes "f + n < 42" "n < days" "n = 0 \<longrightarrow> (if d = 0 then 7 else d) = Suc f" "f < 7"
  shows "fill_days d days (Suc n) (if n = 0 then 1 else Suc (f + n)) (if n = 0 then 0 else (f + n) div 7) (grid f n)
    = fill_days d days (Suc (Suc n)) (Suc (f + Suc n)) ((f + Suc n) div 7) (grid f (Suc n))"
proof (cases n)
  case 0
  have r: "(if Suc f mod 7 = 0 then Suc 0 else 0) = Suc f div 7" using assms(4) by (simp add: div_Suc)
  from 0 have "lead_in (if d = 0 then 7 else d) 1 1 (\<lambda>_ _. 0) = Some (Suc f, \<lambda>_ _. 0)"
    using assms lead_in_empty [of 1 "Suc f" 1] by simp
  then show ?thesis
    using assms 0 put_grid [of f 0] column_of_k [of f] r
    by (subst fill_days.simps) (simp del: One_nat_def split del: if_split cong: if_cong)
next
  case (Suc n')
  then show ?thesis
    using assms put_grid [of f n] column_of_k [of "f + n"] row_of_k [of "f + n"]
    by (subst fill_days.simps) (simp split del: if_split cong: if_cong)
qed

lemma fill_days_grid:
  assumes "f + days \<le> 42" "f < 7" "0 < n" "n \<le> days"
  shows "fill_days d days (Suc n) (Suc (f + n)) ((f + n) div 7) (grid f n) = Some (grid f days)"
  using assms(3,4)
proof (induction "days - n" arbitrary: n)
  case 0
  then show ?case by (subst fill_days.simps) simp
next
  case (Suc j)
  then have "fill_days d days (Suc (Suc n)) (Suc (f + Suc n)) ((f + Suc n) div 7) (grid f (Suc n)) = Some (grid f days)"
    by (intro Suc.hyps(1)) simp_all
  then show ?case using fill_step [of f n days d] assms(1,2) Suc.prems Suc.hyps(2) by simp
qed

lemma fill_month:
  assumes "f + days \<le> 42" "f < 7" "0 < days" "(if d = 0 then 7 else d) = Suc f"
  shows "fill_days d days 1 1 0 (\<lambda>_ _. 0) = Some (grid f days)"
  using fill_step [of f 0 days d] fill_days_grid [OF assms(1,2), of 1 d] assms by simp

text \<open>Zeller's congruence, counted from Sunday.\<close>

definition zeller :: "int \<Rightarrow> int \<Rightarrow> int \<Rightarrow> int" where
  "zeller y m d =
     (let (y, m) = (if m < 3 then (y - 1, m + 12) else (y, m))
      in (d + (13 * (m + 1) div 5 + y + y div 4 - y div 100 + y div 400 + 6)) mod 7)"

lemma days_before_Suc:
  "days_before (Suc y) + y div 100 = 365 * Suc y + y div 4 + y div 400 + 1"
proof (induction y)
  case 0
  then show ?case by (simp add: leap_year_def)
next
  case (Suc y)
  have "400 dvd n \<Longrightarrow> 100 dvd n" "100 dvd n \<Longrightarrow> 4 dvd n" for n :: nat
    using dvd_trans [of 100 400 n] dvd_trans [of 4 100 n] by auto
  then have "(if leap_year (Suc y) then 366 else 365) + (if Suc y mod 100 = 0 then 1 else 0)
      = 365 + (if Suc y mod 4 = 0 then 1 else 0) + (if Suc y mod 400 = 0 then 1 else 0 :: nat)"
    unfolding leap_year_def mod_eq_0_iff_dvd by auto
  moreover have "Suc y div 100 = y div 100 + (if Suc y mod 100 = 0 then 1 else 0)"
    "Suc y div 4 = y div 4 + (if Suc y mod 4 = 0 then 1 else 0)"
    "Suc y div 400 = y div 400 + (if Suc y mod 400 = 0 then 1 else 0)"
    by (simp_all add: div_Suc)
  ultimately show ?case using Suc by simp
qed

lemma days_before_int:
  "int (days_before (Suc y)) = 365 * (int y + 1) + int y div 4 - int y div 100 + int y div 400 + 1"
  using arg_cong [OF days_before_Suc [of y], of int] by (simp add: zdiv_int)

lemma months_3_12:
  "3 \<le> m \<Longrightarrow> m \<le> 12 \<Longrightarrow> m = 3 \<or> m = 4 \<or> m = 5 \<or> m = 6 \<or> m = 7 \<or> m = 8 \<or> m = 9 \<or> m = 10 \<or> m = 11 \<or> m = (12 :: nat)"
  by presburger

lemma month_offsets:
  "months_before y 1 = 0" "months_before y 2 = 31"
  "m \<in> {3..12} \<Longrightarrow> months_before y m
     = [59, 90, 120, 151, 181, 212, 243, 273, 304, 334] ! (m - 3) + (if leap_year y then 1 else 0)"
proof -
  show "months_before y 1 = 0" "months_before y 2 = 31"
    by (simp_all add: eval_nat_numeral CalendarDay_def)
  assume "m \<in> {3..12}"
  then have "m = 3 \<or> m = 4 \<or> m = 5 \<or> m = 6 \<or> m = 7 \<or> m = 8 \<or> m = 9 \<or> m = 10 \<or> m = 11 \<or> m = 12"
    using months_3_12 by simp
  then show "months_before y m
     = [59, 90, 120, 151, 181, 212, 243, 273, 304, 334] ! (m - 3) + (if leap_year y then 1 else 0)"
    by (elim disjE) (simp_all add: eval_nat_numeral CalendarDay_def)
qed

lemma whole_weeks: "a = b + 7 * j \<Longrightarrow> a mod 7 = b mod (7 :: int)"
  by simp

lemma offset_weeks:
  "3 \<le> m \<Longrightarrow> m \<le> 12 \<Longrightarrow> int ([59, 90, 120, 151, 181, 212, 243, 273, 304, 334] ! (m - 3))
     = 13 * (int m + 1) div 5 + 7 * (4 * int m - 5)"
  by (drule (1) months_3_12, elim disjE) simp_all

text \<open>The days that the code counts put the first of a month into the column of Zeller's congruence.\<close>

lemma column_zeller:
  assumes "1 \<le> y" "1 \<le> m" "m \<le> 12"
  shows "int ((days_before y + months_before y m + 5 + i) mod 7) = zeller (int y) (int m) (int i)"
proof -
  obtain z where z: "y = Suc z" using assms(1) by (cases y) auto
  show ?thesis
  proof (cases "m < 3")
    case True
    have d: "int (days_before y) = 365 * (int z + 1) + int z div 4 - int z div 100 + int z div 400 + 1"
      unfolding z by (rule days_before_int)
    have "m = 1 \<or> m = 2" using assms(2) True by auto
    then show ?thesis
    proof
      assume m: "m = 1"
      show ?thesis
        unfolding m month_offsets(1) zmod_int of_nat_add d zeller_def
        by (simp add: z del: mod_mult_self1 mod_mult_self2) (rule whole_weeks [of _ _ "52 * int z + 47"], simp)
    next
      assume m: "m = 2"
      show ?thesis
        unfolding m month_offsets(2) zmod_int of_nat_add d zeller_def
        by (simp add: z) (rule whole_weeks [of _ _ "52 * int z + 51"], simp)
    qed
  next
    case False
    let ?s = "[59, 90, 120, 151, 181, 212, 243, 273, 304, 334] ! (m - 3) :: nat"
    have "days_before y + months_before y m + 365 = days_before (Suc y) + ?s"
      using month_offsets(3) [of m y] False assms(3) by simp
    from arg_cong [OF this, of int]
    have d: "int (days_before y) + int (months_before y m)
        = 365 * int y + int y div 4 - int y div 100 + int y div 400 + 1 + int ?s"
      using days_before_int [of y] by simp
    show ?thesis
      using False offset_weeks [of m] assms(3) unfolding zmod_int of_nat_add d zeller_def
      by (simp add: Let_def) (rule whole_weeks [of _ _ "52 * int y + 4 * int m - 5"], simp)
  qed
qed

lemma days_before_le: "days_before y \<le> 366 * y"
  by (induction y) auto

lemma months_before_le: "m \<le> 13 \<Longrightarrow> months_before y m \<le> 31 * m"
  by (induction m) (auto simp: CalendarDay_def)

definition sane_date :: "ITUCalendar \<Rightarrow> bool" where
  "sane_date cal \<longleftrightarrow> 1 \<le> cyear cal \<and> cyear cal \<le> 11000000 \<and> 1 \<le> cmonth cal \<and> cmonth cal \<le> 12"

definition month_days :: "ITUCalendar \<Rightarrow> nat" where
  "month_days cal = CalendarDay (nat (cmonth cal)) (nat (cyear cal))"

definition first_column :: "ITUCalendar \<Rightarrow> nat" where
  "first_column cal = nat (zeller (cyear cal) (cmonth cal) 1)"

lemma u32_of_int_nat: "0 \<le> i \<Longrightarrow> i < 2 ^ 32 \<Longrightarrow> u32_of_int i = nat i"
  by (simp add: u32_of_int_def unsigned_of_int take_bit_int_eq_self nat_eq_iff)

lemma zeller_range: "0 \<le> zeller y m d" "zeller y m d < 7"
  by (simp_all add: zeller_def split: prod.splits)

lemma month_days_le: "month_days cal \<le> 31" "28 \<le> month_days cal"
  by (simp_all add: month_days_def CalendarDay_def)

lemma lead_of: "(if T mod 7 = 0 then 7 else T mod 7) = Suc ((T + 6) mod (7 :: nat))"
  by presburger

lemma week_days_grid:
  assumes "sane_date cal"
  shows "CalendarUpdateWeekDays cal = Some (cal\<lparr>weekDays := grid (first_column cal) (month_days cal)\<rparr>)"
proof -
  define y where "y = nat (cyear cal)"
  define m where "m = nat (cmonth cal)"
  have ym: "1 \<le> y" "y \<le> 11000000" "1 \<le> m" "m \<le> 12" "cyear cal = int y" "cmonth cal = int m"
    using assms by (auto simp: sane_date_def y_def m_def)
  have u: "u32_of_int (cyear cal) = y" "u32_of_int (cmonth cal) = m"
    using ym u32_of_int_nat [of "int y"] u32_of_int_nat [of "int m"] by auto
  let ?T = "days_before y + months_before y m"
  have T: "?T < 2 ^ 32" using days_before_le [of y] months_before_le [of m y] ym by simp
  have t: "add_months y m 1 (add_years y 0 0) = of_nat ?T"
    using add_years_eq [of 0 y] add_months_eq [of 1 m y "of_nat (days_before y)"] ym(3) by simp
  have "unat (of_nat ?T :: 32 word) = ?T" using T by (simp add: unat_of_nat take_bit_nat_eq_self del: of_nat_add)
  then have d: "unat ((of_nat ?T :: 32 word) mod 7) = ?T mod 7" by (simp only: unat_mod) simp
  have f: "first_column cal = (?T + 6) mod 7"
    using arg_cong [OF column_zeller [OF ym(1,3,4), of 1], of nat] ym(5,6)
    by (simp add: first_column_def add.commute)
  have lead: "(if ?T mod 7 = 0 then 7 else ?T mod 7) = Suc (first_column cal)"
    unfolding f by (rule lead_of)
  have "first_column cal < 7" unfolding f by simp
  moreover have "CalendarDay m y = month_days cal" by (simp add: month_days_def y_def m_def)
  ultimately show ?thesis
    using fill_month [OF _ _ _ lead, of "month_days cal"] month_days_le [of cal]
    unfolding CalendarUpdateWeekDays_def Let_def u t d by simp
qed

text \<open>Reading the grid: every day is there, in its column, and nothing else.\<close>

lemma grid_day: "1 \<le> i \<Longrightarrow> i \<le> n \<Longrightarrow> f + n \<le> 42 \<Longrightarrow> grid f n ((f + i - 1) mod 7) ((f + i - 1) div 7) = i"
proof -
  assume a: "1 \<le> i" "i \<le> n" "f + n \<le> 42"
  have "7 * ((f + i - 1) div 7) + (f + i - 1) mod 7 = f + i - 1" by simp
  moreover have "f \<le> f + i - 1" "f + i - 1 < f + n" "Suc (f + i - 1 - f) = i" using a by auto
  ultimately show ?thesis by (simp only: grid_def) simp
qed

lemma grid_column:
  "grid f n w l \<noteq> 0 \<Longrightarrow> grid f n w l \<le> n \<and> w = (f + grid f n w l - 1) mod 7 \<and> l = (f + grid f n w l - 1) div 7"
  using cell_of [of w l "7 * l + w"] by (auto simp: grid_def split: if_splits)

lemma zeller_days:
  assumes "sane_date cal" "1 \<le> i"
  shows "zeller (cyear cal) (cmonth cal) (int i) = int ((first_column cal + i - 1) mod 7)"
proof -
  have "\<exists>x. \<forall>d. zeller (cyear cal) (cmonth cal) d = (d + x) mod 7"
    unfolding zeller_def Let_def case_prod_beta by (rule exI, rule allI, rule refl)
  then obtain x where x: "zeller (cyear cal) (cmonth cal) d = (d + x) mod 7" for d by blast
  have "zeller (cyear cal) (cmonth cal) (int i) = (zeller (cyear cal) (cmonth cal) 1 + (int i - 1)) mod 7"
    unfolding x mod_add_left_eq by (simp add: algebra_simps)
  then show ?thesis
    using zeller_range [of "cyear cal" "cmonth cal" 1] assms(2)
    by (simp add: first_column_def zmod_int of_nat_diff algebra_simps)
qed

subsection \<open>The lunar calendar\<close>

text \<open>The days of a date from the start of year zero.\<close>

definition day_number :: "int \<Rightarrow> int \<Rightarrow> int \<Rightarrow> int" where
  "day_number y m d = int (days_before (nat y) + months_before (nat y) (nat m)) + d"

lemma month_add:
  "3 \<le> k \<Longrightarrow> k \<le> 12 \<Longrightarrow> wMonthAdd ! (k - 1) = int ([59, 90, 120, 151, 181, 212, 243, 273, 304, 334] ! (k - 3))"
  by (drule (1) months_3_12, elim disjE) (simp_all add: wMonthAdd_def)

lemma the_date_difference:
  assumes "1921 \<le> y" "y \<le> 2099" "1 \<le> m" "m \<le> 12"
  shows "the_date y m d = day_number y m d - day_number 1921 2 8 + 1"
proof -
  define n where "n = nat y"
  define k where "k = nat m"
  have n: "y = int n" "m = int k" "1921 \<le> n" "n \<le> 2099" "1 \<le> k" "k \<le> 12"
    using assms by (auto simp: n_def k_def)
  obtain z where z: "n = Suc z" using n(3) by (cases n) auto
  have "int z div 400 - int z div 100 = -15"
  proof (cases "z < 2000")
    case True
    then have "int z div 100 = 19" "int z div 400 = 4"
      using n(3) unfolding z by (intro int_div_pos_eq [where r = "int z - 1900"] int_div_pos_eq [where r = "int z - 1600"]; simp)+
    then show ?thesis by simp
  next
    case False
    then have "int z div 100 = 20" "int z div 400 = 5"
      using n(4) unfolding z by (intro int_div_pos_eq [where r = "int z - 2000"]; simp)+
    then show ?thesis by simp
  qed
  then have db: "int (days_before n) = 365 * int n + int z div 4 - 14"
    using days_before_int [of z] unfolding z by simp
  have base: "int (days_before 1921) = 365 * 1921 + 480 - 14"
    using days_before_int [of 1920] by simp
  have q: "(int n - 1921) sdiv 4 = int z div 4 - 480"
    using n(3) unfolding z by (simp add: sdiv_nonneg)
  have "n = 2000" if "100 dvd n"
    using that n(3,4) by (elim dvdE) presburger
  then have lp: "leap_year n \<longleftrightarrow> n mod 4 = 0"
    using dvd_trans [of 100 400 n] unfolding leap_year_def mod_eq_0_iff_dvd by auto
  have "k = 1 \<or> k = 2 \<or> (3 \<le> k \<and> k \<le> 12)" using n(5,6) by auto
  then have add: "wMonthAdd ! nat (m - 1) + (if y mod 4 = 0 \<and> m > 2 then 1 else 0) = int (months_before n k)"
  proof (elim disjE conjE)
    assume "3 \<le> k" "k \<le> 12"
    moreover have "nat (int k - 1) = k - 1" "(int n mod 4 = 0) = (n mod 4 = 0)"
      by (simp_all add: nat_diff_distrib') presburger
    ultimately show ?thesis
      using month_offsets(3) [of k n] lp month_add [of k] unfolding n(1,2) by simp
  qed (use n(2) month_offsets(1,2) [of n] in \<open>auto simp: wMonthAdd_def\<close>)
  show ?thesis
    using add db base q month_offsets(2) [of 1921] by (simp add: the_date_def day_number_def n(1,2))
qed

text \<open>The months in one entry, and the years in a table, as lengths.\<close>

fun year_length :: "nat \<Rightarrow> nat \<Rightarrow> int" where
  "year_length x 0 = 0"
| "year_length x (Suc n) = 29 + int (month_bit x n) + year_length x n"

fun table_length :: "nat list \<Rightarrow> int" where
  "table_length [] = 0"
| "table_length (x # xs) = year_length x (if x < 4095 then 12 else 13) + table_length xs"

lemma month_bit_le: "month_bit x n \<le> 1"
  by (simp add: month_bit_def)

lemma year_length_nonneg: "0 \<le> year_length x n"
  by (induction n) auto

lemma table_length_nonneg: "0 \<le> table_length xs"
  by (induction xs) (auto simp: year_length_nonneg)

lemma lunar_months_found:
  "1 \<le> date \<Longrightarrow> date \<le> year_length x n \<Longrightarrow> \<exists>r. lunar_months x n date = (True, r) \<and> 1 \<le> r \<and> r \<le> 30"
proof (induction n arbitrary: date)
  case (Suc n)
  then show ?case using month_bit_le [of x n] by auto
qed simp

lemma lunar_months_past: "year_length x n < date \<Longrightarrow> lunar_months x n date = (False, date - year_length x n)"
proof (induction n arbitrary: date)
  case (Suc n)
  then show ?case using year_length_nonneg [of x n] by auto
qed simp

lemma lunar_years_found:
  "1 \<le> date \<Longrightarrow> date \<le> table_length xs \<Longrightarrow> \<exists>r. lunar_years xs date = Some r \<and> 1 \<le> r \<and> r \<le> 30"
proof (induction xs arbitrary: date)
  case (Cons x xs)
  let ?n = "if x < 4095 then 12 else 13 :: nat"
  show ?case
  proof (cases "date \<le> year_length x ?n")
    case True
    then show ?thesis using lunar_months_found [OF Cons.prems(1) True] by (auto split del: if_split)
  next
    case False
    then show ?thesis
      using lunar_months_past [of x ?n date] Cons.IH [of "date - year_length x ?n"] Cons.prems(2)
      by (simp split del: if_split)
  qed
qed simp

lemma lunar_years_past: "table_length xs < date \<Longrightarrow> lunar_years xs date = None"
proof (induction xs arbitrary: date)
  case (Cons x xs)
  let ?n = "if x < 4095 then 12 else 13 :: nat"
  have "year_length x ?n < date" using Cons.prems table_length_nonneg [of xs] by (simp split del: if_split)
  then show ?case
    using lunar_months_past [of x ?n date] Cons.IH [of "date - year_length x ?n"] Cons.prems
    by (simp split del: if_split)
qed simp

text \<open>From one day to the next: the next day of the month, or the first of the next month.\<close>

definition next_day :: "int \<Rightarrow> int \<Rightarrow> bool" where
  "next_day r r' \<longleftrightarrow> r' = r + 1 \<or> (r' = 1 \<and> r \<in> {29, 30})"

lemma lunar_months_first: "0 < n \<Longrightarrow> lunar_months x n 1 = (True, 1)"
  by (cases n) auto

lemma lunar_months_next:
  "1 \<le> date \<Longrightarrow> date < year_length x n \<Longrightarrow>
   \<exists>r r'. lunar_months x n date = (True, r) \<and> lunar_months x n (date + 1) = (True, r') \<and> next_day r r'"
proof (induction n arbitrary: date)
  case (Suc n)
  let ?l = "29 + int (month_bit x n)"
  consider "date < ?l" | "date = ?l" | "?l < date" by linarith
  then show ?case
  proof cases
    case 2
    then have "0 < n" using Suc.prems(2) by (cases n) auto
    then show ?thesis using 2 lunar_months_first [of n x] month_bit_le [of x n] by (auto simp: next_day_def)
  next
    case 3
    then have "\<exists>r r'. lunar_months x n (date - ?l) = (True, r) \<and> lunar_months x n (date - ?l + 1) = (True, r') \<and> next_day r r'"
      using Suc.prems by (intro Suc.IH) auto
    then show ?thesis using 3 by (simp add: algebra_simps)
  qed (auto simp: next_day_def)
qed simp

lemma lunar_months_last: "0 < n \<Longrightarrow> \<exists>r. lunar_months x n (year_length x n) = (True, r) \<and> r \<in> {29, 30}"
proof (induction n)
  case (Suc n)
  show ?case
  proof (cases n)
    case 0
    then show ?thesis using month_bit_le [of x 0] by auto
  next
    case (Suc n')
    then have "0 < year_length x n" using year_length_nonneg [of x n'] by simp
    then show ?thesis using Suc.IH Suc by auto
  qed
qed simp

lemma lunar_years_next:
  "1 \<le> date \<Longrightarrow> date < table_length xs \<Longrightarrow>
   \<exists>r r'. lunar_years xs date = Some r \<and> lunar_years xs (date + 1) = Some r' \<and> next_day r r'"
proof (induction xs arbitrary: date)
  case (Cons x xs)
  let ?n = "if x < 4095 then 12 else 13 :: nat"
  let ?l = "year_length x ?n"
  consider "date < ?l" | "date = ?l" | "?l < date" by linarith
  then show ?case
  proof cases
    case 1
    then show ?thesis using lunar_months_next [OF Cons.prems(1) 1] by (auto split del: if_split)
  next
    case 2
    have "xs \<noteq> []" using Cons.prems(2) 2 by (auto split del: if_split)
    then have "lunar_years xs 1 = Some 1"
      by (cases xs) (auto simp: lunar_months_first)
    moreover obtain r where "lunar_months x ?n ?l = (True, r)" "r \<in> {29, 30}"
      using lunar_months_last [of ?n x] by (cases "x < 4095") auto
    ultimately show ?thesis
      using 2 lunar_months_past [of x ?n "?l + 1"] by (simp add: next_day_def split del: if_split)
  next
    case 3
    then have "\<exists>r r'. lunar_years xs (date - ?l) = Some r \<and> lunar_years xs (date - ?l + 1) = Some r' \<and> next_day r r'"
      using Cons.prems by (intro Cons.IH) (auto split del: if_split)
    then show ?thesis
      using 3 lunar_months_past [of x ?n date] lunar_months_past [of x ?n "date + 1"]
      by (simp add: algebra_simps split del: if_split)
  qed
qed simp

lemma year_lengths:
  "year_length x 12 = 348 + int (month_bit x 11 + month_bit x 10 + month_bit x 9 + month_bit x 8 + month_bit x 7
     + month_bit x 6 + month_bit x 5 + month_bit x 4 + month_bit x 3 + month_bit x 2 + month_bit x 1 + month_bit x 0)"
  "year_length x 13 = 29 + int (month_bit x 12) + year_length x 12"
  by (simp_all add: eval_nat_numeral)

lemma table_ends: "table_length wNongliData = 36529"
  by (simp add: wNongliData_def year_lengths month_bit_def)

end
