(* ===== verification/Fat_NorCache.thy ===== *)
theory Fat_NorCache
  imports Itp_Mutex
begin

text \<open>
  The cache of the NOR flash under the FAT volumes, \<open>sdk/share/fat/nor/cache2.c\<close>: pages of consecutive
  sectors, written back when they are replaced or flushed. The functions that read and write the disc
  are the two pointers of \<open>DISC_INTERFACE\<close>. Sector numbers are \<open>uint32_t\<close>; they are natural numbers
  here, with the wrap-around written out where the code adds or subtracts them.
\<close>

definition u32_plus :: "nat \<Rightarrow> nat \<Rightarrow> nat" where
  "u32_plus a b = (a + b) mod 2 ^ 32"

definition u32_minus :: "nat \<Rightarrow> nat \<Rightarrow> nat" where
  "u32_minus a b = (a + (2 ^ 32 - b)) mod 2 ^ 32"

lemma u32_plus_eq [simp]: "a + b < 2 ^ 32 \<Longrightarrow> u32_plus a b = a + b"
  by (simp add: u32_plus_def)

lemma u32_minus_eq: "b \<le> a \<Longrightarrow> a < 2 ^ 32 \<Longrightarrow> u32_minus a b = a - b"
proof -
  assume a: "b \<le> a" "a < 2 ^ 32"
  then have "u32_minus a b = ((a - b) + 2 ^ 32) mod 2 ^ 32"
    unfolding u32_minus_def by (intro arg_cong [where f = "\<lambda>x. x mod 2 ^ 32"]) simp
  then show ?thesis using a by (simp only: mod_add_self2) simp
qed

definition CACHE_FREE :: nat where "CACHE_FREE = 2 ^ 32 - 1"

text \<open>\<open>None\<close> is a call that does not return. Reading tells whether it succeeded and what it has put into the buffer, whole sectors if it did.\<close>

record 'd DISC_INTERFACE =
  readSectors :: "nat \<Rightarrow> nat \<Rightarrow> 'd \<Rightarrow> (bool \<times> block \<times> 'd) option"
  writeSectors :: "nat \<Rightarrow> nat \<Rightarrow> block \<Rightarrow> 'd \<Rightarrow> (bool \<times> 'd) option"

record NOR_CACHE_ENTRY =
  e_sector :: nat
  e_count :: nat
  last_access :: nat
  e_dirty :: bool
  e_cache :: block

text \<open>\<open>cacheEntries\<close> is the array of \<open>numberOfPages\<close> entries.\<close>

record NOR_CACHE =
  endOfPartition :: nat
  sectorsPerPage :: nat
  sectorSize :: nat
  cacheEntries :: "NOR_CACHE_ENTRY list"

datatype cache_ptr = CacheNull | CacheAt NOR_CACHE | CacheFreed

text \<open>The global variables of the cache and of its driver, with the state of the disc.\<close>

record 'd nor =
  norCache :: cache_ptr
  accessCounter :: nat
  CacheValidFlush :: bool
  flushMutex :: pthread_mutex
  disc :: 'd

definition the_cache :: "'d nor \<Rightarrow> NOR_CACHE option" where
  "the_cache s = (case norCache s of CacheAt c \<Rightarrow> Some c | _ \<Rightarrow> None)"

definition put_entry ::
  "nat \<Rightarrow> (NOR_CACHE_ENTRY \<Rightarrow> NOR_CACHE_ENTRY) \<Rightarrow> NOR_CACHE \<Rightarrow> 'd nor \<Rightarrow> 'd nor" where
  "put_entry i f c s =
     s\<lparr>norCache := CacheAt (c\<lparr>cacheEntries := (cacheEntries c)[i := f (cacheEntries c ! i)]\<rparr>)\<rparr>"

definition accessTime :: "'d nor \<Rightarrow> nat \<times> 'd nor" where
  "accessTime s = (let a = u32_plus (accessCounter s) 1 in (a, s\<lparr>accessCounter := a\<rparr>))"

subsection \<open>Construction\<close>

text \<open>\<open>fresh i\<close> is the memory of page \<open>i\<close>, which the code does not initialise.\<close>

definition NOR_cache_constructor ::
  "bool \<Rightarrow> (nat \<Rightarrow> block) \<Rightarrow> nat \<Rightarrow> nat \<Rightarrow> nat \<Rightarrow> nat \<Rightarrow> cache_ptr" where
  "NOR_cache_constructor mem_ok fresh n spp endp sz =
     (if n = 0 \<or> spp = 0 then CacheNull
      else let n = (if n < 4 then 4 else n); spp = (if spp < 32 then 32 else spp)
        in if \<not> mem_ok then CacheNull
           else CacheAt \<lparr>endOfPartition = endp, sectorsPerPage = spp, sectorSize = sz,
             cacheEntries = map (\<lambda>i. \<lparr>e_sector = CACHE_FREE, e_count = 0, last_access = 0, e_dirty = False,
               e_cache = fresh i\<rparr>) [0..<n]\<rparr>)"

subsection \<open>Writing back\<close>

text \<open>The dirty page with the lowest sector.\<close>

fun lowest_dirty :: "nat \<Rightarrow> NOR_CACHE_ENTRY list \<Rightarrow> nat option \<times> nat \<Rightarrow> nat option \<times> nat" where
  "lowest_dirty j [] acc = acc"
| "lowest_dirty j (e # es) (found, low) =
     lowest_dirty (Suc j) es (if e_dirty e \<and> e_sector e < low then (Some j, e_sector e) else (found, low))"

text \<open>
  The loop over \<open>i\<close>, with the result: \<open>Some False\<close> after a failure, and \<open>None\<close> otherwise, for a
  variable that is never assigned.
\<close>

fun flush_loop :: "'d DISC_INTERFACE \<Rightarrow> nat \<Rightarrow> 'd nor \<Rightarrow> (bool option \<times> 'd nor) option" where
  "flush_loop ops 0 s = Some (None, s)"
| "flush_loop ops (Suc n) s =
     do { c \<leftarrow> the_cache s;
          case fst (lowest_dirty 0 (cacheEntries c) (None, CACHE_FREE)) of
            None \<Rightarrow> Some (None, s)
          | Some i \<Rightarrow>
              do { let e = cacheEntries c ! i;
                   bs \<leftarrow> peek (e_cache e) 0 (int (e_count e * sectorSize c));
                   (ok, d) \<leftarrow> writeSectors ops (e_sector e) (e_count e) bs (disc s);
                   let s = s\<lparr>disc := d\<rparr>;
                   if \<not> ok then Some (Some False, s)
                   else flush_loop ops n (put_entry i (\<lambda>e. e\<lparr>e_dirty := False\<rparr>) c s) } }"

definition NOR_cache_flush ::
  "'d DISC_INTERFACE \<Rightarrow> bool \<Rightarrow> nat \<Rightarrow> 'd nor \<Rightarrow> (bool option \<times> 'd nor) option" where
  "NOR_cache_flush ops mem_ok t s =
     do { (_, m) \<leftarrow> pthread_mutex_lock mem_ok t (flushMutex s);
          let s = s\<lparr>flushMutex := m\<rparr>;
          (ret, s) \<leftarrow> (if \<not> CacheValidFlush s then Some (Some False, s)
                      else case norCache s of
                          CacheNull \<Rightarrow> Some (Some False, s)
                        | CacheAt c \<Rightarrow> flush_loop ops (length (cacheEntries c)) s
                        | CacheFreed \<Rightarrow> None);
          (_, m) \<leftarrow> pthread_mutex_unlock t (flushMutex s);
          Some (ret, s\<lparr>flushMutex := m\<rparr>) }"

definition NOR_cache_invalidate ::
  "'d DISC_INTERFACE \<Rightarrow> bool \<Rightarrow> nat \<Rightarrow> 'd nor \<Rightarrow> 'd nor option" where
  "NOR_cache_invalidate ops mem_ok t s =
     (if norCache s = CacheNull then Some s
      else do { (_, s) \<leftarrow> NOR_cache_flush ops mem_ok t s;
                c \<leftarrow> the_cache s;
                Some (s\<lparr>norCache := CacheAt (c\<lparr>cacheEntries := map (\<lambda>e. e\<lparr>e_sector := CACHE_FREE,
                  last_access := 0, e_count := 0, e_dirty := False\<rparr>) (cacheEntries c)\<rparr>)\<rparr>) })"

text \<open>The memory of the cache is freed; the pointer of the driver to it is not cleared.\<close>

definition NOR_cache_destructor ::
  "'d DISC_INTERFACE \<Rightarrow> bool \<Rightarrow> nat \<Rightarrow> 'd nor \<Rightarrow> 'd nor option" where
  "NOR_cache_destructor ops mem_ok t s =
     (case norCache s of
        CacheNull \<Rightarrow> Some s
      | CacheAt c \<Rightarrow> do { (_, s) \<leftarrow> NOR_cache_flush ops mem_ok t s; Some (s\<lparr>norCache := CacheFreed\<rparr>) }
      | CacheFreed \<Rightarrow> None)"

subsection \<open>Pages\<close>

definition covers :: "NOR_CACHE_ENTRY \<Rightarrow> nat \<Rightarrow> bool" where
  "covers e sector \<longleftrightarrow> e_sector e \<le> sector \<and> sector < u32_plus (e_sector e) (e_count e)"

text \<open>
  The loop over the pages: the page that holds the sector, or whether a free page was found and the
  page to use: the first free one before any page older than all before it.
\<close>

fun scan_pages :: "nat \<Rightarrow> nat \<Rightarrow> NOR_CACHE_ENTRY list \<Rightarrow> bool \<times> nat \<times> nat \<Rightarrow> nat + bool \<times> nat" where
  "scan_pages sector i [] (foundFree, oldUsed, oldAccess) = Inr (foundFree, oldUsed)"
| "scan_pages sector i (e # es) (foundFree, oldUsed, oldAccess) =
     (if covers e sector then Inl i
      else scan_pages sector (Suc i) es
        (if \<not> foundFree \<and> (e_sector e = CACHE_FREE \<or> last_access e < oldAccess)
         then (e_sector e = CACHE_FREE, i, last_access e mod 2 ^ 32)
         else (foundFree, oldUsed, oldAccess)))"

text \<open>Reads the page of a sector into entry \<open>i\<close>.\<close>

definition load_page :: "'d DISC_INTERFACE \<Rightarrow> nat \<Rightarrow> nat \<Rightarrow> 'd nor \<Rightarrow> (nat option \<times> 'd nor) option" where
  "load_page ops i sector s =
     do { c \<leftarrow> the_cache s;
          let base = sector div sectorsPerPage c * sectorsPerPage c;
          let next_page = u32_plus base (sectorsPerPage c);
          let next_page = (if next_page > endOfPartition c then endOfPartition c else next_page);
          let count = u32_minus next_page base;
          (ok, bs, d) \<leftarrow> readSectors ops base count (disc s);
          page \<leftarrow> memcpy (e_cache (cacheEntries c ! i)) 0 bs 0 (int (length bs));
          let s = s\<lparr>disc := d\<rparr>;
          if \<not> ok then Some (None, put_entry i (\<lambda>e. e\<lparr>e_cache := page\<rparr>) c s)
          else let (a, s) = accessTime s
            in Some (Some i, put_entry i
                 (\<lambda>e. e\<lparr>e_sector := base, e_count := count, last_access := a, e_cache := page\<rparr>) c s) }"

definition NOR_cache_getPage ::
  "'d DISC_INTERFACE \<Rightarrow> bool \<Rightarrow> nat \<Rightarrow> nat \<Rightarrow> 'd nor \<Rightarrow> (nat option \<times> 'd nor) option" where
  "NOR_cache_getPage ops mem_ok t sector s =
     do { c \<leftarrow> the_cache s;
          case scan_pages sector 0 (cacheEntries c) (False, 0, 2 ^ 32 - 1) of
            Inl i \<Rightarrow> let (a, s) = accessTime s in Some (Some i, put_entry i (\<lambda>e. e\<lparr>last_access := a\<rparr>) c s)
          | Inr (foundFree, i) \<Rightarrow>
              do { e \<leftarrow> (if i < length (cacheEntries c) then Some (cacheEntries c ! i) else None);
                   s \<leftarrow> (if \<not> foundFree \<and> e_dirty e then map_option snd (NOR_cache_flush ops mem_ok t s)
                        else Some s);
                   load_page ops i sector s } }"

text \<open>The first page that holds the sector, unless it begins with it.\<close>

fun find_page :: "nat \<Rightarrow> nat \<Rightarrow> NOR_CACHE_ENTRY list \<Rightarrow> nat option" where
  "find_page sector i [] = None"
| "find_page sector i (e # es) =
     (if e_sector e \<noteq> CACHE_FREE \<and> e_sector e < sector \<and> sector - e_sector e < e_count e
      then Some i else find_page sector (Suc i) es)"

definition NOR_cache_findPage :: "nat \<Rightarrow> 'd nor \<Rightarrow> nat option option" where
  "NOR_cache_findPage sector s = map_option (\<lambda>c. find_page sector 0 (cacheEntries c)) (the_cache s)"

subsection \<open>Reading and writing sectors\<close>

text \<open>
  One pass of the loop that reads: the sectors that are left, how many, and the bytes that have arrived in
  the buffer of the caller, or the result.
\<close>

definition read_pass ::
  "'d DISC_INTERFACE \<Rightarrow> bool \<Rightarrow> nat \<Rightarrow> nat \<Rightarrow> nat \<Rightarrow> block \<Rightarrow> 'd nor
     \<Rightarrow> ((bool \<times> block \<times> 'd nor) + (nat \<times> nat \<times> block \<times> 'd nor)) option" where
  "read_pass ops mem_ok t sector numSectors dest s =
     do { (p, s) \<leftarrow> NOR_cache_getPage ops mem_ok t sector s;
          case p of
            None \<Rightarrow> Some (Inl (False, dest, s))
          | Some i \<Rightarrow>
              do { c \<leftarrow> the_cache s;
                   let e = cacheEntries c ! i;
                   let sec = u32_minus sector (e_sector e);
                   let n = min (u32_minus (e_count e) sec) numSectors;
                   bs \<leftarrow> peek (e_cache e) (int (sec * sectorSize c)) (int (n * sectorSize c));
                   Some (Inr (u32_plus sector n, numSectors - n, dest @ bs, s)) } }"

partial_function (option) read_sectors ::
  "'d DISC_INTERFACE \<Rightarrow> bool \<Rightarrow> nat \<Rightarrow> nat \<Rightarrow> nat \<Rightarrow> block \<Rightarrow> 'd nor \<Rightarrow> (bool \<times> block \<times> 'd nor) option" where
  "read_sectors ops mem_ok t sector numSectors dest s =
     (if numSectors = 0 then Some (True, dest, s)
      else do { r \<leftarrow> read_pass ops mem_ok t sector numSectors dest s;
                case r of
                  Inl res \<Rightarrow> Some res
                | Inr st \<Rightarrow> (case st of (sector, numSectors, dest, s) \<Rightarrow>
                    read_sectors ops mem_ok t sector numSectors dest s) })"

definition NOR_cache_readSectors ::
  "'d DISC_INTERFACE \<Rightarrow> bool \<Rightarrow> nat \<Rightarrow> nat \<Rightarrow> nat \<Rightarrow> 'd nor \<Rightarrow> (bool \<times> block \<times> 'd nor) option" where
  "NOR_cache_readSectors ops mem_ok t sector numSectors s = read_sectors ops mem_ok t sector numSectors [] s"

text \<open>The sectors before the page, if the page begins behind the sector, go to the disc directly.\<close>

definition write_before ::
  "'d DISC_INTERFACE \<Rightarrow> NOR_CACHE \<Rightarrow> NOR_CACHE_ENTRY \<Rightarrow> nat \<times> nat \<times> block \<Rightarrow> 'd nor
     \<Rightarrow> ((nat \<times> nat \<times> block) \<times> 'd nor) option" where
  "write_before ops c e st s =
     (case st of (sector, numSectors, src) \<Rightarrow>
        if sector < e_sector e
        then let n = e_sector e - sector
          in do { bs \<leftarrow> peek src 0 (int (n * sectorSize c));
                  (_, d) \<leftarrow> writeSectors ops sector n bs (disc s);
                  Some ((sector + n, u32_minus numSectors n, drop (n * sectorSize c) src), s\<lparr>disc := d\<rparr>) }
        else Some (st, s))"

partial_function (option) write_sectors ::
  "'d DISC_INTERFACE \<Rightarrow> bool \<Rightarrow> nat \<Rightarrow> nat \<Rightarrow> nat \<Rightarrow> block \<Rightarrow> 'd nor \<Rightarrow> (bool \<times> 'd nor) option" where
  "write_sectors ops mem_ok t sector numSectors src s =
     (if numSectors = 0 then Some (True, s)
      else do { p \<leftarrow> NOR_cache_findPage sector s;
                (p, s) \<leftarrow> (if p = None then NOR_cache_getPage ops mem_ok t sector s else Some (p, s));
                case p of
                  None \<Rightarrow> Some (False, s)
                | Some i \<Rightarrow>
                    do { c \<leftarrow> the_cache s;
                         let e = cacheEntries c ! i;
                         ((sector, numSectors, src), s) \<leftarrow> write_before ops c e (sector, numSectors, src) s;
                         let sec = u32_minus sector (e_sector e);
                         let n = min (u32_minus (e_count e) sec) numSectors;
                         page \<leftarrow> memcpy (e_cache e) (int (sec * sectorSize c)) src 0 (int (n * sectorSize c));
                         write_sectors ops mem_ok t (u32_plus sector n) (numSectors - n)
                           (drop (n * sectorSize c) src)
                           (put_entry i (\<lambda>e. e\<lparr>e_cache := page, e_dirty := True\<rparr>) c s) } })"

definition NOR_cache_writeSectors ::
  "'d DISC_INTERFACE \<Rightarrow> bool \<Rightarrow> nat \<Rightarrow> nat \<Rightarrow> nat \<Rightarrow> block \<Rightarrow> 'd nor \<Rightarrow> (bool \<times> 'd nor) option" where
  "NOR_cache_writeSectors ops mem_ok t sector numSectors src s = write_sectors ops mem_ok t sector numSectors src s"

subsection \<open>Parts of a sector\<close>

definition NOR_cache_readPartialSector ::
  "'d DISC_INTERFACE \<Rightarrow> bool \<Rightarrow> nat \<Rightarrow> nat \<Rightarrow> nat \<Rightarrow> nat \<Rightarrow> 'd nor \<Rightarrow> (bool \<times> block \<times> 'd nor) option" where
  "NOR_cache_readPartialSector ops mem_ok t sector off n s =
     do { c \<leftarrow> the_cache s;
          if u32_plus off n > sectorSize c then Some (False, [], s)
          else do { (p, s) \<leftarrow> NOR_cache_getPage ops mem_ok t sector s;
                    case p of None \<Rightarrow> Some (False, [], s)
                    | Some i \<Rightarrow>
                        do { c \<leftarrow> the_cache s;
                             let e = cacheEntries c ! i;
                             let sec = u32_minus sector (e_sector e);
                             bs \<leftarrow> peek (e_cache e) (int (sec * sectorSize c + off)) (int n);
                             Some (True, bs, s) } } }"

text \<open>\<open>erase\<close> tells \<open>_NOR_cache_eraseWritePartialSector\<close>, which clears the sector first.\<close>

definition write_partial ::
  "bool \<Rightarrow> 'd DISC_INTERFACE \<Rightarrow> bool \<Rightarrow> nat \<Rightarrow> block \<Rightarrow> nat \<Rightarrow> nat \<Rightarrow> 'd nor \<Rightarrow> (bool \<times> 'd nor) option" where
  "write_partial erase ops mem_ok t src sector off s =
     do { c \<leftarrow> the_cache s;
          if u32_plus off (length src) > sectorSize c then Some (False, s)
          else do { (p, s) \<leftarrow> NOR_cache_getPage ops mem_ok t sector s;
                    case p of None \<Rightarrow> Some (False, s)
                    | Some i \<Rightarrow>
                        do { c \<leftarrow> the_cache s;
                             let e = cacheEntries c ! i;
                             let pos = u32_minus sector (e_sector e) * sectorSize c;
                             page \<leftarrow> (if erase then poke (e_cache e) (int pos) (replicate (sectorSize c) 0)
                                      else Some (e_cache e));
                             page \<leftarrow> poke page (int (pos + off)) src;
                             Some (True, put_entry i (\<lambda>e. e\<lparr>e_cache := page, e_dirty := True\<rparr>) c s) } } }"

definition NOR_cache_writePartialSector ::
  "'d DISC_INTERFACE \<Rightarrow> bool \<Rightarrow> nat \<Rightarrow> block \<Rightarrow> nat \<Rightarrow> nat \<Rightarrow> 'd nor \<Rightarrow> (bool \<times> 'd nor) option" where
  "NOR_cache_writePartialSector = write_partial False"

definition NOR_cache_eraseWritePartialSector ::
  "'d DISC_INTERFACE \<Rightarrow> bool \<Rightarrow> nat \<Rightarrow> block \<Rightarrow> nat \<Rightarrow> nat \<Rightarrow> 'd nor \<Rightarrow> (bool \<times> 'd nor) option" where
  "NOR_cache_eraseWritePartialSector = write_partial True"

definition NOR_cache_readLittleEndianValue ::
  "'d DISC_INTERFACE \<Rightarrow> bool \<Rightarrow> nat \<Rightarrow> nat \<Rightarrow> nat \<Rightarrow> nat \<Rightarrow> 'd nor \<Rightarrow> (32 word option \<times> 'd nor) option" where
  "NOR_cache_readLittleEndianValue ops mem_ok t sector off n s =
     do { (ok, bs, s) \<leftarrow> NOR_cache_readPartialSector ops mem_ok t sector off n s;
          if ok \<and> n > 4 then None
          else Some (if ok \<and> n \<in> {1, 2, 4} then Some (word_of_le bs) else None, s) }"

definition NOR_cache_writeLittleEndianValue ::
  "'d DISC_INTERFACE \<Rightarrow> bool \<Rightarrow> nat \<Rightarrow> 32 word \<Rightarrow> nat \<Rightarrow> nat \<Rightarrow> nat \<Rightarrow> 'd nor \<Rightarrow> (bool \<times> 'd nor) option" where
  "NOR_cache_writeLittleEndianValue ops mem_ok t v sector off n s =
     (if n \<in> {1, 2, 4} then NOR_cache_writePartialSector ops mem_ok t (le_of_word n v) sector off s
      else Some (False, s))"

end
