(* ===== verification/Fat_NorProps.thy ===== *)
theory Fat_NorProps
  imports Fat_NorCache
begin

text \<open>
  The cache of \<open>cache2.c\<close> over a disc that works: what its clients see is the contents of the disc
  with the pages of the cache laid over them. Reading returns these contents, writing changes
  them and nothing else, and after a flush they are the contents of the disc itself.
\<close>

subsection \<open>Sectors in blocks\<close>

definition sect :: "nat \<Rightarrow> block \<Rightarrow> nat \<Rightarrow> block" where
  "sect sz bs j = take sz (drop (j * sz) bs)"

lemma sect_concat:
  "(\<And>x. x \<in> set xs \<Longrightarrow> length x = sz) \<Longrightarrow> j < length xs \<Longrightarrow> sect sz (concat xs) j = xs ! j"
proof (induction xs arbitrary: j)
  case (Cons x xs)
  then show ?case by (cases j) (simp_all add: sect_def)
qed simp

lemma concat_sects: "length bs = n * sz \<Longrightarrow> concat (map (sect sz bs) [0..<n]) = bs"
proof (induction n arbitrary: bs)
  case (Suc n)
  have "map (sect sz bs) [0..<Suc n] = take sz bs # map (sect sz (drop sz bs)) [0..<n]"
    by (simp add: upt_conv_Cons map_Suc_upt [symmetric] sect_def o_def add.commute del: upt_Suc)
  then show ?case using Suc.IH [of "drop sz bs"] Suc.prems by simp
qed simp

lemma length_sect: "length bs = n * sz \<Longrightarrow> j < n \<Longrightarrow> length (sect sz bs j) = sz"
proof -
  assume a: "length bs = n * sz" "j < n"
  then have "(j + 1) * sz \<le> n * sz" by (intro mult_le_mono1) simp
  then show ?thesis using a by (simp add: sect_def)
qed

lemma sect_take_drop: "j < n \<Longrightarrow> sect sz (take (n * sz) (drop (i * sz) bs)) j = sect sz bs (i + j)"
proof -
  assume "j < n"
  then have "(j + 1) * sz \<le> n * sz" by (intro mult_le_mono1) simp
  then have "min sz (n * sz - j * sz) = sz" by simp
  then show ?thesis by (simp add: sect_def drop_take add_mult_distrib add.commute)
qed

lemma take_drop_sects:
  assumes "(i + n) * sz \<le> length bs"
  shows "take (n * sz) (drop (i * sz) bs) = concat (map (\<lambda>j. sect sz bs (i + j)) [0..<n])"
proof -
  have "length (take (n * sz) (drop (i * sz) bs)) = n * sz"
    using assms by (simp add: add_mult_distrib)
  moreover have "map (sect sz (take (n * sz) (drop (i * sz) bs))) [0..<n] = map (\<lambda>j. sect sz bs (i + j)) [0..<n]"
    by (simp add: sect_take_drop)
  ultimately show ?thesis using concat_sects by metis
qed

text \<open>A block with some of its sectors overwritten.\<close>

lemma sect_overwrite:
  assumes "length src = n * sz" "(i + n) * sz \<le> length bs"
  shows "sect sz (take (i * sz) bs @ src @ drop ((i + n) * sz) bs) j
    = (if i \<le> j \<and> j < i + n then sect sz src (j - i) else sect sz bs j)"
proof -
  consider (before) "j < i" | (inside) "i \<le> j" "j < i + n" | (behind) "i + n \<le> j" by linarith
  then show ?thesis
  proof cases
    case before
    then have "(j + 1) * sz \<le> i * sz" by (intro mult_le_mono1) simp
    then have "j * sz \<le> i * sz" "sz \<le> i * sz - j * sz" "i * sz \<le> length bs"
      using before assms(2) by (simp_all add: add_mult_distrib)
    then show ?thesis using before by (simp add: sect_def drop_take min_absorb1 min_absorb2)
  next
    case inside
    then obtain k where k: "j = i + k" "k < n" using le_Suc_ex by fastforce
    then have "(k + 1) * sz \<le> n * sz" by (intro mult_le_mono1) simp
    then show ?thesis using k assms by (simp add: sect_def add_mult_distrib)
  next
    case behind
    then have le: "(i + n) * sz \<le> j * sz" by (intro mult_le_mono1)
    define X where "X = take (i * sz) bs @ src"
    have len: "length X = (i + n) * sz"
      using assms by (simp add: X_def add_mult_distrib)
    have "drop (j * sz) (X @ drop ((i + n) * sz) bs) = drop (j * sz) bs"
      using len le by (simp only: drop_append drop_all append_Nil drop_drop le_add_diff_inverse2)
    then show ?thesis using behind by (simp add: sect_def X_def)
  qed
qed

subsection \<open>The invariant and the view of the clients\<close>

text \<open>
  A disc on which whole pages of \<open>p\<close> sectors can be read and replaced while it is in order; the page at the end
  has the sectors before \<open>lim\<close>. \<open>med\<close> are the sectors. Nothing is said about other runs of sectors: the flash
  erases whole blocks.
\<close>

definition page_run :: "nat \<Rightarrow> nat \<Rightarrow> nat \<Rightarrow> nat \<Rightarrow> bool" where
  "page_run p lim a n \<longleftrightarrow> p dvd a \<and> a < lim \<and> n = min p (lim - a)"

definition disc_works ::
  "'d DISC_INTERFACE \<Rightarrow> ('d \<Rightarrow> nat \<Rightarrow> block) \<Rightarrow> ('d \<Rightarrow> bool) \<Rightarrow> nat \<Rightarrow> nat \<Rightarrow> nat \<Rightarrow> bool" where
  "disc_works ops med ok p sz lim \<longleftrightarrow>
     (\<forall>d k. ok d \<longrightarrow> length (med d k) = sz)
     \<and> (\<forall>d a n. ok d \<longrightarrow> page_run p lim a n \<longrightarrow>
          (\<exists>d'. readSectors ops a n d = Some (True, concat (map (med d) [a..<a + n]), d') \<and> ok d' \<and> med d' = med d))
     \<and> (\<forall>d a n bs. ok d \<longrightarrow> page_run p lim a n \<longrightarrow> length bs = n * sz \<longrightarrow>
          (\<exists>d'. writeSectors ops a n bs d = Some (True, d') \<and> ok d'
            \<and> med d' = (\<lambda>k. if a \<le> k \<and> k < a + n then sect sz bs (k - a) else med d k)))"

definition page_ok :: "NOR_CACHE \<Rightarrow> (nat \<Rightarrow> block) \<Rightarrow> NOR_CACHE_ENTRY \<Rightarrow> bool" where
  "page_ok c md e \<longleftrightarrow> length (e_cache e) = sectorsPerPage c * sectorSize c
     \<and> (if e_sector e = CACHE_FREE then e_count e = 0 \<and> \<not> e_dirty e
        else e_sector e mod sectorsPerPage c = 0 \<and> e_sector e < endOfPartition c
          \<and> e_count e = min (sectorsPerPage c) (endOfPartition c - e_sector e)
          \<and> (\<not> e_dirty e \<longrightarrow> (\<forall>j < e_count e. sect (sectorSize c) (e_cache e) j = md (e_sector e + j))))"

definition cache_inv :: "NOR_CACHE \<Rightarrow> (nat \<Rightarrow> block) \<Rightarrow> bool" where
  "cache_inv c md \<longleftrightarrow> 0 < sectorsPerPage c \<and> 0 < sectorSize c \<and> endOfPartition c + sectorsPerPage c < 2 ^ 32
     \<and> cacheEntries c \<noteq> []
     \<and> (\<forall>i < length (cacheEntries c). page_ok c md (cacheEntries c ! i))
     \<and> (\<forall>i < length (cacheEntries c). \<forall>j < length (cacheEntries c).
          e_sector (cacheEntries c ! i) = e_sector (cacheEntries c ! j)
            \<longrightarrow> e_sector (cacheEntries c ! i) \<noteq> CACHE_FREE \<longrightarrow> i = j)"

text \<open>What the clients see of a sector.\<close>

definition view :: "NOR_CACHE \<Rightarrow> (nat \<Rightarrow> block) \<Rightarrow> nat \<Rightarrow> block" where
  "view c md k =
     (case find (\<lambda>e. covers e k) (cacheEntries c) of
        Some e \<Rightarrow> sect (sectorSize c) (e_cache e) (k - e_sector e)
      | None \<Rightarrow> md k)"

text \<open>The page of a sector.\<close>

definition page_base :: "NOR_CACHE \<Rightarrow> nat \<Rightarrow> nat" where
  "page_base c k = k div sectorsPerPage c * sectorsPerPage c"

lemma page_base_bounds: "0 < sectorsPerPage c \<Longrightarrow> page_base c k \<le> k \<and> k < page_base c k + sectorsPerPage c"
  by (simp add: page_base_def div_times_less_eq_dividend dividend_less_div_times add.commute)

lemma page_base_aligned:
  assumes "0 < sectorsPerPage c" "b mod sectorsPerPage c = 0" "b \<le> k" "k < b + sectorsPerPage c"
  shows "page_base c k = b"
proof -
  obtain q where q: "b = q * sectorsPerPage c" using assms(2) by (metis mod_0_imp_dvd dvd_div_mult_self)
  have "k div sectorsPerPage c = q"
    using assms(3,4) unfolding q by (intro div_nat_eqI) (simp_all add: algebra_simps)
  then show ?thesis by (simp add: page_base_def q)
qed

lemma covers_iff:
  assumes "page_ok c md e" "0 < sectorsPerPage c" "endOfPartition c + sectorsPerPage c < 2 ^ 32"
  shows "covers e k \<longleftrightarrow> e_sector e \<noteq> CACHE_FREE \<and> k < endOfPartition c \<and> e_sector e = page_base c k"
proof (cases "e_sector e = CACHE_FREE")
  case True
  then show ?thesis using assms(1) by (simp add: covers_def page_ok_def CACHE_FREE_def)
next
  case False
  then have e: "e_sector e mod sectorsPerPage c = 0" "e_sector e < endOfPartition c"
    "e_count e = min (sectorsPerPage c) (endOfPartition c - e_sector e)"
    using assms(1) by (simp_all add: page_ok_def)
  have "covers e k \<longleftrightarrow> e_sector e \<le> k \<and> k < e_sector e + e_count e"
    using e(2,3) assms(3) by (simp add: covers_def)
  also have "\<dots> \<longleftrightarrow> e_sector e \<le> k \<and> k < e_sector e + sectorsPerPage c \<and> k < endOfPartition c"
    using e(2,3) by auto
  also have "\<dots> \<longleftrightarrow> k < endOfPartition c \<and> e_sector e = page_base c k"
    using page_base_aligned [OF assms(2) e(1), of k] page_base_bounds [OF assms(2), of k] by auto
  finally show ?thesis using False by simp
qed

lemma cache_invD:
  assumes "cache_inv c md"
  shows "0 < sectorsPerPage c" "0 < sectorSize c" "endOfPartition c + sectorsPerPage c < 2 ^ 32" "cacheEntries c \<noteq> []"
    "\<And>i. i < length (cacheEntries c) \<Longrightarrow> page_ok c md (cacheEntries c ! i)"
    "\<And>i j. i < length (cacheEntries c) \<Longrightarrow> j < length (cacheEntries c) \<Longrightarrow>
       i \<noteq> j \<Longrightarrow> e_sector (cacheEntries c ! i) \<noteq> CACHE_FREE \<Longrightarrow>
       e_sector (cacheEntries c ! i) \<noteq> e_sector (cacheEntries c ! j)"
  using assms unfolding cache_inv_def by blast+

lemma covers_inv:
  "cache_inv c md \<Longrightarrow> i < length (cacheEntries c) \<Longrightarrow> covers (cacheEntries c ! i) k \<longleftrightarrow>
     e_sector (cacheEntries c ! i) \<noteq> CACHE_FREE \<and> k < endOfPartition c \<and> e_sector (cacheEntries c ! i) = page_base c k"
  using covers_iff [OF cache_invD(5) cache_invD(1,3)] by blast

lemma view_page:
  assumes "cache_inv c md" "i < length (cacheEntries c)" "covers (cacheEntries c ! i) k"
  shows "view c md k = sect (sectorSize c) (e_cache (cacheEntries c ! i)) (k - e_sector (cacheEntries c ! i))"
proof (cases "find (\<lambda>e. covers e k) (cacheEntries c)")
  case None
  then show ?thesis using assms(2,3) by (auto simp: find_None_iff)
next
  case (Some e)
  then obtain j where j: "j < length (cacheEntries c)" "covers (cacheEntries c ! j) k" "e = cacheEntries c ! j"
    by (auto simp: find_Some_iff)
  then have "j = i" using assms cache_invD(6) [OF assms(1) j(1) assms(2)] by (metis covers_inv)
  then show ?thesis using Some j(3) by (simp add: view_def)
qed

lemma view_disc:
  "(\<And>i. i < length (cacheEntries c) \<Longrightarrow> \<not> covers (cacheEntries c ! i) k) \<Longrightarrow> view c md k = md k"
  by (auto simp: view_def find_None_iff in_set_conv_nth split: option.splits dest: find_Some_iff [THEN iffD1])

text \<open>A page as a whole: it shows its first sectors.\<close>

lemma page_sectors:
  assumes "page_ok c md e" "0 < sectorsPerPage c" "endOfPartition c + sectorsPerPage c < 2 ^ 32" "covers e k"
  shows "e_sector e \<le> k" "k - e_sector e < e_count e" "e_count e \<le> sectorsPerPage c"
    "e_sector e + e_count e \<le> endOfPartition c" "e_sector e < 2 ^ 32" "e_count e < 2 ^ 32"
    "length (e_cache e) = sectorsPerPage c * sectorSize c"
proof -
  note cv = covers_iff [OF assms(1-3), of k, THEN iffD1, OF assms(4)]
  have e: "e_sector e < endOfPartition c" "e_count e = min (sectorsPerPage c) (endOfPartition c - e_sector e)"
    "length (e_cache e) = sectorsPerPage c * sectorSize c"
    using assms(1) cv by (simp_all add: page_ok_def)
  then show "e_count e \<le> sectorsPerPage c" "e_sector e + e_count e \<le> endOfPartition c" "e_sector e < 2 ^ 32"
    "e_count e < 2 ^ 32" "length (e_cache e) = sectorsPerPage c * sectorSize c"
    using assms(3) by simp_all
  show "e_sector e \<le> k" "k - e_sector e < e_count e"
    using cv e(2) page_base_bounds [OF assms(2), of k] by auto
qed

subsection \<open>Changing one page\<close>

abbreviation set_page :: "NOR_CACHE \<Rightarrow> nat \<Rightarrow> NOR_CACHE_ENTRY \<Rightarrow> NOR_CACHE" where
  "set_page c i e \<equiv> c\<lparr>cacheEntries := (cacheEntries c)[i := e]\<rparr>"

lemma page_ok_set_page [simp]: "page_ok (c\<lparr>cacheEntries := es\<rparr>) = page_ok c"
  by (simp add: page_ok_def fun_eq_iff)

lemma page_base_set_page [simp]: "page_base (c\<lparr>cacheEntries := es\<rparr>) = page_base c"
  by (simp add: page_base_def fun_eq_iff)

lemma cache_inv_update:
  assumes "cache_inv c md" "i < length (cacheEntries c)" "page_ok c md' e'"
    "\<And>j. j < length (cacheEntries c) \<Longrightarrow> j \<noteq> i \<Longrightarrow> page_ok c md' (cacheEntries c ! j)"
    "\<And>j. j < length (cacheEntries c) \<Longrightarrow> j \<noteq> i \<Longrightarrow> e_sector e' \<noteq> CACHE_FREE \<Longrightarrow> e_sector (cacheEntries c ! j) \<noteq> e_sector e'"
  shows "cache_inv (set_page c i e') md'"
proof -
  let ?es = "(cacheEntries c)[i := e']"
  have ne: "e_sector (?es ! x) \<noteq> e_sector (?es ! y)"
    if "x < length (cacheEntries c)" "y < length (cacheEntries c)" "x \<noteq> y" "e_sector (?es ! x) \<noteq> CACHE_FREE" for x y
  proof -
    note xy = that(3)
    consider "x = i" "y \<noteq> i" | "x \<noteq> i" "y = i" | "x \<noteq> i" "y \<noteq> i" using xy by blast
    then show ?thesis
    proof cases
      case 1
      then show ?thesis using assms(5) [OF that(2)] assms(2) that(4) by simp
    next
      case 2
      then show ?thesis using assms(5) [OF that(1)] assms(2) that(4) by (cases "e_sector e' = CACHE_FREE") simp_all
    next
      case 3
      then show ?thesis using cache_invD(6) [OF assms(1) that(1-3)] that(4) by simp
    qed
  qed
  show ?thesis
    unfolding cache_inv_def
  proof (intro conjI)
    show "\<forall>x < length (cacheEntries (set_page c i e')). page_ok (set_page c i e') md' (cacheEntries (set_page c i e') ! x)"
      using assms(2-4) by (simp add: nth_list_update)
    show "\<forall>x < length (cacheEntries (set_page c i e')). \<forall>y < length (cacheEntries (set_page c i e')).
        e_sector (cacheEntries (set_page c i e') ! x) = e_sector (cacheEntries (set_page c i e') ! y) \<longrightarrow>
        e_sector (cacheEntries (set_page c i e') ! x) \<noteq> CACHE_FREE \<longrightarrow> x = y"
    proof (intro allI impI, rule ccontr)
      fix x y
      assume "x < length (cacheEntries (set_page c i e'))" "y < length (cacheEntries (set_page c i e'))"
        "e_sector (cacheEntries (set_page c i e') ! x) = e_sector (cacheEntries (set_page c i e') ! y)"
        "e_sector (cacheEntries (set_page c i e') ! x) \<noteq> CACHE_FREE" "x \<noteq> y"
      then show False using ne [of x y] by simp
    qed
  qed (use cache_invD(1-4) [OF assms(1)] in simp_all)
qed

lemma view_cases:
  assumes "cache_inv c md"
  obtains (page) j where "j < length (cacheEntries c)" "covers (cacheEntries c ! j) k"
      "view c md k = sect (sectorSize c) (e_cache (cacheEntries c ! j)) (k - e_sector (cacheEntries c ! j))"
    | (disc) "\<And>j. j < length (cacheEntries c) \<Longrightarrow> \<not> covers (cacheEntries c ! j) k" "view c md k = md k"
  using view_page [OF assms] view_disc by metis

lemma covers_unique:
  assumes "cache_inv c md" "i < length (cacheEntries c)" "j < length (cacheEntries c)"
    "covers (cacheEntries c ! i) k" "covers (cacheEntries c ! j) k"
  shows "i = j"
  using cache_invD(6) [OF assms(1-3)] covers_inv [OF assms(1,2), of k] covers_inv [OF assms(1,3), of k] assms(4,5)
  by metis

lemma cache_inv_update_same:
  assumes "cache_inv c md" "i < length (cacheEntries c)" "page_ok c md' e'" "e_sector e' = e_sector (cacheEntries c ! i)"
    "\<And>j. j < length (cacheEntries c) \<Longrightarrow> j \<noteq> i \<Longrightarrow> page_ok c md' (cacheEntries c ! j)"
  shows "cache_inv (set_page c i e') md'"
  by (rule cache_inv_update [OF assms(1-3,5)]) (use cache_invD(6) [OF assms(1)] assms(2,4) in metis)+

text \<open>The view after a change of page \<open>i\<close>, and of the disc under it.\<close>

lemma view_set_page:
  assumes "cache_inv c md" "cache_inv (set_page c i e') md'" "i < length (cacheEntries c)"
    "\<not> covers (cacheEntries c ! i) k \<Longrightarrow> md' k = md k"
  shows "view (set_page c i e') md' k =
    (if covers e' k then sect (sectorSize c) (e_cache e') (k - e_sector e')
     else if covers (cacheEntries c ! i) k then md' k else view c md k)"
proof -
  let ?es = "cacheEntries c" and ?c = "set_page c i e'"
  have new: "cacheEntries ?c ! j = (if j = i then e' else ?es ! j)" if "j < length ?es" for j
    using that by simp
  consider (here) "covers e' k" | (old) "\<not> covers e' k" "covers (?es ! i) k"
    | (other) "\<not> covers e' k" "\<not> covers (?es ! i) k" by blast
  then show ?thesis
  proof cases
    case here
    then show ?thesis using view_page [OF assms(2), of i k] assms(3) new [of i] by simp
  next
    case old
    have "\<not> covers (cacheEntries ?c ! j) k" if "j < length (cacheEntries ?c)" for j
    proof (cases "j = i")
      case False
      then show ?thesis using old(2) covers_unique [OF assms(1,3), of j k] that new [of j] by fastforce
    qed (use old new that in simp)
    then show ?thesis using old view_disc [of ?c k md'] by simp
  next
    case other
    show ?thesis
    proof (cases rule: view_cases [OF assms(1), of k, case_names page disc])
      case (page j)
      then have "j \<noteq> i" using other by blast
      then show ?thesis using page other view_page [OF assms(2), of j k] new [of j] by simp
    next
      case disc
      then have "\<not> covers (cacheEntries ?c ! j) k" if "j < length (cacheEntries ?c)" for j
        using that other(1) by (cases "j = i") simp_all
      then show ?thesis using disc(2) other assms(4) view_disc [of ?c k md'] by simp
    qed
  qed
qed

text \<open>A page is looked at.\<close>

lemma touched:
  assumes "cache_inv c md" "i < length (cacheEntries c)"
  shows "cache_inv (set_page c i ((cacheEntries c ! i)\<lparr>last_access := a\<rparr>)) md"
    "view (set_page c i ((cacheEntries c ! i)\<lparr>last_access := a\<rparr>)) md = view c md"
proof -
  let ?e = "(cacheEntries c ! i)\<lparr>last_access := a\<rparr>"
  have ok: "page_ok c md ?e" using cache_invD(5) [OF assms] by (simp add: page_ok_def)
  then show inv: "cache_inv (set_page c i ?e) md"
    by (intro cache_inv_update_same [OF assms _ _ cache_invD(5) [OF assms(1)]]) simp_all
  have cov: "covers ?e k = covers (cacheEntries c ! i) k" for k by (simp add: covers_def)
  show "view (set_page c i ?e) md = view c md"
    by (rule ext) (use view_set_page [OF assms(1) inv assms(2)] view_page [OF assms] cov in simp)
qed

text \<open>A page is written back.\<close>

lemma written_back:
  assumes "cache_inv c md" "i < length (cacheEntries c)" "e = cacheEntries c ! i" "e_sector e \<noteq> CACHE_FREE"
    "md' = (\<lambda>k. if e_sector e \<le> k \<and> k < e_sector e + e_count e then sect (sectorSize c) (e_cache e) (k - e_sector e) else md k)"
  shows "cache_inv (set_page c i (e\<lparr>e_dirty := False\<rparr>)) md'"
    "view (set_page c i (e\<lparr>e_dirty := False\<rparr>)) md' = view c md"
proof -
  let ?e = "e\<lparr>e_dirty := False\<rparr>"
  note D = cache_invD [OF assms(1)]
  have oke: "page_ok c md e" using D(5) assms(2,3) by simp
  have rng: "e_sector e \<le> k \<and> k < e_sector e + e_count e \<longleftrightarrow> covers e k" for k
    using oke D(3) assms(4) by (auto simp: covers_def page_ok_def)
  have cov: "covers ?e k = covers e k" for k by (simp add: covers_def)
  have md': "md' k = (if covers e k then sect (sectorSize c) (e_cache e) (k - e_sector e) else md k)" for k
    using assms(5) rng by simp
  have "md' (e_sector e + j) = sect (sectorSize c) (e_cache e) j" if "j < e_count e" for j
    using that assms(5) by simp
  then have ok: "page_ok c md' ?e" using oke by (simp add: page_ok_def)
  have others: "page_ok c md' (cacheEntries c ! j)" if j: "j < length (cacheEntries c)" "j \<noteq> i" for j
  proof -
    have okj: "page_ok c md (cacheEntries c ! j)" using D(5) j(1) .
    have "md' (e_sector (cacheEntries c ! j) + x) = md (e_sector (cacheEntries c ! j) + x)"
      if "e_sector (cacheEntries c ! j) \<noteq> CACHE_FREE" "x < e_count (cacheEntries c ! j)" for x
    proof -
      have "covers (cacheEntries c ! j) (e_sector (cacheEntries c ! j) + x)"
        using okj D(3) that by (auto simp: covers_def page_ok_def)
      then show ?thesis using covers_unique [OF assms(1) assms(2) j(1)] j(2) assms(3) md' by metis
    qed
    then show ?thesis using okj by (auto simp: page_ok_def)
  qed
  show inv: "cache_inv (set_page c i ?e) md'"
    by (rule cache_inv_update_same [OF assms(1,2) ok _ others]) (simp_all add: assms(3))
  show "view (set_page c i ?e) md' = view c md"
  proof
    fix k
    show "view (set_page c i ?e) md' k = view c md k"
      using view_set_page [OF assms(1) inv assms(2), of k] view_page [OF assms(1,2), of k] cov md' assms(3) by simp
  qed
qed

text \<open>A page is read in, into an entry that holds nothing unwritten.\<close>

lemma loaded:
  assumes "cache_inv c md" "i < length (cacheEntries c)" "\<not> e_dirty (cacheEntries c ! i)"
    "\<And>j. j < length (cacheEntries c) \<Longrightarrow> \<not> covers (cacheEntries c ! j) k0" "k0 < endOfPartition c"
    and e: "e_sector e = page_base c k0" "e_count e = min (sectorsPerPage c) (endOfPartition c - page_base c k0)"
      "\<not> e_dirty e" "length (e_cache e) = sectorsPerPage c * sectorSize c"
      "\<And>j. j < e_count e \<Longrightarrow> sect (sectorSize c) (e_cache e) j = md (page_base c k0 + j)"
  shows "cache_inv (set_page c i e) md" "view (set_page c i e) md = view c md" "covers e k0"
proof -
  note D = cache_invD [OF assms(1)]
  have b: "page_base c k0 \<le> k0" using page_base_bounds [OF D(1)] by blast
  then have nf: "e_sector e \<noteq> CACHE_FREE" using e(1) assms(5) D(3) by (simp add: CACHE_FREE_def)
  have ok: "page_ok c md e"
    using e nf b assms(5) by (simp add: page_ok_def) (simp add: page_base_def)
  have cov: "covers e k \<longleftrightarrow> k < endOfPartition c \<and> page_base c k = page_base c k0" for k
    using covers_iff [OF ok D(1,3), of k] nf e(1) by auto
  then show "covers e k0" using assms(5) by simp
  have none: "\<not> covers (cacheEntries c ! j) k" if "j < length (cacheEntries c)" "covers e k" for j k
    using assms(4) [OF that(1)] cov that covers_inv [OF assms(1) that(1), of k] covers_inv [OF assms(1) that(1), of k0]
      assms(5) by simp
  show inv: "cache_inv (set_page c i e) md"
  proof (rule cache_inv_update [OF assms(1,2) ok D(5)])
    fix j
    assume j: "j < length (cacheEntries c)"
    show "e_sector (cacheEntries c ! j) \<noteq> e_sector e"
      using assms(4) [OF j] covers_inv [OF assms(1) j, of k0] nf e(1) assms(5) by metis
  qed
  show "view (set_page c i e) md = view c md"
  proof
    fix k
    have new: "sect (sectorSize c) (e_cache e) (k - e_sector e) = view c md k" if "covers e k"
    proof -
      have "e_sector e \<le> k" "k - e_sector e < e_count e" using page_sectors [OF ok D(1,3) that] by simp_all
      then show ?thesis using e(5) [of "k - e_sector e"] e(1) none [OF _ that] view_disc [of c k md] by simp
    qed
    have old: "md k = view c md k" if "covers (cacheEntries c ! i) k"
    proof -
      have ok: "page_ok c md (cacheEntries c ! i)" using D(5) assms(2) .
      have "e_sector (cacheEntries c ! i) \<le> k" "k - e_sector (cacheEntries c ! i) < e_count (cacheEntries c ! i)"
        using page_sectors [OF ok D(1,3) that] by simp_all
      moreover have "e_sector (cacheEntries c ! i) \<noteq> CACHE_FREE" using covers_inv [OF assms(1,2)] that by blast
      ultimately show ?thesis
        using ok assms(3) view_page [OF assms(1,2) that] by (simp add: page_ok_def)
    qed
    show "view (set_page c i e) md k = view c md k"
      using view_set_page [OF assms(1) inv assms(2), of k] new old by simp
  qed
qed

text \<open>Sectors of a page are written.\<close>

lemma written:
  assumes "cache_inv c md" "i < length (cacheEntries c)" "e = cacheEntries c ! i" "covers e a"
    "a - e_sector e + n \<le> e_count e" "length src = n * sectorSize c"
    "page = take ((a - e_sector e) * sectorSize c) (e_cache e) @ src @ drop ((a - e_sector e + n) * sectorSize c) (e_cache e)"
  shows "cache_inv (set_page c i (e\<lparr>e_cache := page, e_dirty := True\<rparr>)) md"
    "view (set_page c i (e\<lparr>e_cache := page, e_dirty := True\<rparr>)) md =
       (\<lambda>k. if a \<le> k \<and> k < a + n then sect (sectorSize c) src (k - a) else view c md k)"
proof -
  let ?e = "e\<lparr>e_cache := page, e_dirty := True\<rparr>"
  note D = cache_invD [OF assms(1)]
  have oke: "page_ok c md e" using D(5) assms(2,3) by simp
  note P = page_sectors [OF oke D(1,3) assms(4)]
  have fit: "(a - e_sector e + n) * sectorSize c \<le> length (e_cache e)"
    unfolding P(7) using assms(5) P(3) by (intro mult_le_mono1) simp
  have ok: "page_ok c md ?e"
    using oke fit assms(6,7) covers_inv [OF assms(1,2), of a] assms(3,4)
    by (simp add: page_ok_def add_mult_distrib)
  show inv: "cache_inv (set_page c i ?e) md"
    by (rule cache_inv_update_same [OF assms(1,2) ok _ D(5)]) (simp_all add: assms(3))
  have cov: "covers ?e k = covers e k" for k by (simp add: covers_def)
  show "view (set_page c i ?e) md = (\<lambda>k. if a \<le> k \<and> k < a + n then sect (sectorSize c) src (k - a) else view c md k)"
  proof
    fix k
    have inside: "covers e k" if "a \<le> k" "k < a + n"
      using that P(1,4,5) assms(4,5) D(3) by (simp add: covers_def)
    have ge: "e_sector e \<le> k" if "covers e k" using that by (simp add: covers_def)
    show "view (set_page c i ?e) md k = (if a \<le> k \<and> k < a + n then sect (sectorSize c) src (k - a) else view c md k)"
      using view_set_page [OF assms(1) inv assms(2), of k] view_page [OF assms(1,2), of k] cov [of k] inside ge P(1) assms(3)
        sect_overwrite [OF assms(6) fit, of "k - e_sector e"]
      unfolding assms(7) by auto
  qed
qed

end
