(* ===== verification/Fat_NorStore.thy ===== *)
theory Fat_NorStore
  imports Fat_NorProps
begin

text \<open>
  The operations of \<open>cache2.c\<close> refine the view: the invariant and the view through flushing, loading
  pages, reading and writing.
\<close>

definition nor_ok ::
  "'d DISC_INTERFACE \<Rightarrow> ('d \<Rightarrow> nat \<Rightarrow> block) \<Rightarrow> ('d \<Rightarrow> bool) \<Rightarrow> NOR_CACHE \<Rightarrow> 'd nor \<Rightarrow> bool" where
  "nor_ok ops med ok c s \<longleftrightarrow> norCache s = CacheAt c \<and> cache_inv c (med (disc s))
     \<and> disc_works ops med ok (sectorsPerPage c) (sectorSize c) (endOfPartition c) \<and> ok (disc s) \<and> CacheValidFlush s"

definition contents :: "('d \<Rightarrow> nat \<Rightarrow> block) \<Rightarrow> 'd nor \<Rightarrow> nat \<Rightarrow> block" where
  "contents med s = (case norCache s of CacheAt c \<Rightarrow> view c (med (disc s)) | _ \<Rightarrow> med (disc s))"

definition same_geometry :: "NOR_CACHE \<Rightarrow> NOR_CACHE \<Rightarrow> bool" where
  "same_geometry c c' \<longleftrightarrow> endOfPartition c' = endOfPartition c \<and> sectorsPerPage c' = sectorsPerPage c
     \<and> sectorSize c' = sectorSize c \<and> length (cacheEntries c') = length (cacheEntries c)"

text \<open>What the steps that only move pages keep.\<close>

definition steady ::
  "'d DISC_INTERFACE \<Rightarrow> ('d \<Rightarrow> nat \<Rightarrow> block) \<Rightarrow> ('d \<Rightarrow> bool) \<Rightarrow> NOR_CACHE \<Rightarrow> 'd nor \<Rightarrow> NOR_CACHE \<Rightarrow> 'd nor \<Rightarrow> bool" where
  "steady ops med ok c s c' s' \<longleftrightarrow> nor_ok ops med ok c' s' \<and> contents med s' = contents med s
     \<and> same_geometry c c' \<and> flushMutex s' = flushMutex s"

lemma nor_okD:
  assumes "nor_ok ops med ok c s"
  shows "norCache s = CacheAt c" "the_cache s = Some c" "cache_inv c (med (disc s))" "ok (disc s)" "CacheValidFlush s"
    "disc_works ops med ok (sectorsPerPage c) (sectorSize c) (endOfPartition c)" "contents med s = view c (med (disc s))"
  using assms by (simp_all add: nor_ok_def the_cache_def contents_def)

lemma same_geometry_refl [simp]: "same_geometry c c"
  by (simp add: same_geometry_def)

lemma steady_refl: "nor_ok ops med ok c s \<Longrightarrow> steady ops med ok c s c s"
  by (simp add: steady_def)

lemma steady_trans:
  "steady ops med ok c s c' s' \<Longrightarrow> steady ops med ok c' s' c'' s'' \<Longrightarrow> steady ops med ok c s c'' s''"
  by (simp add: steady_def same_geometry_def)

lemma disc_worksD:
  assumes "disc_works ops med ok p sz lim" "ok d"
  shows "length (med d k) = sz"
    "page_run p lim a n \<Longrightarrow> \<exists>d'. readSectors ops a n d = Some (True, concat (map (med d) [a..<a + n]), d') \<and> ok d' \<and> med d' = med d"
    "page_run p lim a n \<Longrightarrow> length bs = n * sz \<Longrightarrow> \<exists>d'. writeSectors ops a n bs d = Some (True, d') \<and> ok d'
       \<and> med d' = (\<lambda>k. if a \<le> k \<and> k < a + n then sect sz bs (k - a) else med d k)"
  using assms unfolding disc_works_def by blast+

subsection \<open>Flushing\<close>

lemma lowest_dirty_Some:
  "fst (lowest_dirty j es (found, low)) = Some i \<Longrightarrow>
     found = Some i \<or> (j \<le> i \<and> i - j < length es \<and> e_dirty (es ! (i - j)) \<and> e_sector (es ! (i - j)) < low)"
proof (induction es arbitrary: j found low)
  case (Cons e es)
  then show ?case
    by (cases "j = i") (fastforce simp: nth_Cons' split: if_splits)+
qed simp

lemma lowest_dirty_None:
  "fst (lowest_dirty j es (found, low)) = None \<Longrightarrow> found = None \<and> (\<forall>e \<in> set es. e_dirty e \<longrightarrow> low \<le> e_sector e)"
proof (induction es arbitrary: j found low)
  case (Cons e es)
  show ?case
    using Cons.IH [of "Suc j" "Some j" "e_sector e"] Cons.IH [of "Suc j" found low] Cons.prems
    by (auto split: if_splits)
qed simp

definition same_pages :: "NOR_CACHE \<Rightarrow> NOR_CACHE \<Rightarrow> bool" where
  "same_pages c c' \<longleftrightarrow> map (\<lambda>e. (e_sector e, e_count e)) (cacheEntries c') = map (\<lambda>e. (e_sector e, e_count e)) (cacheEntries c)"

lemma same_pages_covers:
  assumes "same_pages c c'" "j < length (cacheEntries c')"
  shows "covers (cacheEntries c' ! j) k = covers (cacheEntries c ! j) k"
proof -
  have "length (cacheEntries c') = length (cacheEntries c)"
    using assms(1) unfolding same_pages_def by (metis length_map)
  moreover have "map (\<lambda>e. (e_sector e, e_count e)) (cacheEntries c') ! j = map (\<lambda>e. (e_sector e, e_count e)) (cacheEntries c) ! j"
    using assms(1) by (simp add: same_pages_def)
  ultimately show ?thesis using assms(2) by (simp add: covers_def)
qed

lemma same_pages_clean: "i < length (cacheEntries c) \<Longrightarrow> same_pages c (set_page c i ((cacheEntries c ! i)\<lparr>e_dirty := b\<rparr>))"
  by (simp add: same_pages_def map_update list_update_same_conv)

definition dirty_pages :: "NOR_CACHE \<Rightarrow> nat" where
  "dirty_pages c = length (filter e_dirty (cacheEntries c))"

text \<open>One round: the chosen page is written and clean.\<close>

lemma flush_round:
  assumes "nor_ok ops med ok c s" "i < length (cacheEntries c)" "e_dirty (cacheEntries c ! i)"
  defines "e \<equiv> cacheEntries c ! i"
  defines "c' \<equiv> set_page c i (e\<lparr>e_dirty := False\<rparr>)"
  shows "\<exists>bs d. peek (e_cache e) 0 (int (e_count e * sectorSize c)) = Some bs
    \<and> writeSectors ops (e_sector e) (e_count e) bs (disc s) = Some (True, d)
    \<and> steady ops med ok c s c' (put_entry i (\<lambda>e. e\<lparr>e_dirty := False\<rparr>) c (s\<lparr>disc := d\<rparr>))
    \<and> dirty_pages c = Suc (dirty_pages c')"
proof -
  note N = nor_okD [OF assms(1)] and D = cache_invD [OF nor_okD(3) [OF assms(1)]]
  have e: "page_ok c (med (disc s)) e" using D(5) assms(2) e_def by simp
  then have p: "e_sector e \<noteq> CACHE_FREE" "e_sector e < endOfPartition c"
    "e_count e = min (sectorsPerPage c) (endOfPartition c - e_sector e)"
    "length (e_cache e) = sectorsPerPage c * sectorSize c"
    using assms(3) by (auto simp: page_ok_def e_def split: if_splits)
  let ?bs = "take (e_count e * sectorSize c) (e_cache e)"
  have le: "e_count e * sectorSize c \<le> sectorsPerPage c * sectorSize c" using p(3) by simp
  then have bs: "peek (e_cache e) 0 (int (e_count e * sectorSize c)) = Some ?bs"
    using p(4) by (simp add: peek_def del: of_nat_mult)
  have "page_run (sectorsPerPage c) (endOfPartition c) (e_sector e) (e_count e)" "length ?bs = e_count e * sectorSize c"
    using p le e by (auto simp: page_run_def page_ok_def)
  then obtain d where d: "writeSectors ops (e_sector e) (e_count e) ?bs (disc s) = Some (True, d)" "ok d"
    "med d = (\<lambda>k. if e_sector e \<le> k \<and> k < e_sector e + e_count e then sect (sectorSize c) ?bs (k - e_sector e) else med (disc s) k)"
    using disc_worksD(3) [OF N(6,4)] by blast
  have "sect (sectorSize c) ?bs j = sect (sectorSize c) (e_cache e) j" if "j < e_count e" for j
    using sect_take_drop [OF that, of "sectorSize c" 0] by simp
  then have d3: "med d = (\<lambda>k. if e_sector e \<le> k \<and> k < e_sector e + e_count e
      then sect (sectorSize c) (e_cache e) (k - e_sector e) else med (disc s) k)"
    unfolding d(3) by (intro ext) (simp add: less_diff_conv2)
  note W = written_back [OF N(3) assms(2) e_def [THEN meta_eq_to_obj_eq] p(1) d3]
  have "dirty_pages c = Suc (dirty_pages c')"
    using filter_update [OF assms(2), of e_dirty "e\<lparr>e_dirty := False\<rparr>"] assms(3) by (simp add: dirty_pages_def c'_def)
  moreover have "steady ops med ok c s c' (put_entry i (\<lambda>e. e\<lparr>e_dirty := False\<rparr>) c (s\<lparr>disc := d\<rparr>))"
    using W N d(2) by (simp add: steady_def nor_ok_def contents_def put_entry_def c'_def e_def same_geometry_def)
  ultimately show ?thesis using bs d(1) by blast
qed

lemma flush_loop_ok:
  "nor_ok ops med ok c s \<Longrightarrow> dirty_pages c \<le> n \<Longrightarrow>
     \<exists>c' s'. flush_loop ops n s = Some (None, s') \<and> steady ops med ok c s c' s' \<and> dirty_pages c' = 0 \<and> same_pages c c'"
proof (induction n arbitrary: c s)
  case 0
  then show ?case using steady_refl by (fastforce simp: same_pages_def)
next
  case (Suc n)
  note N = nor_okD [OF Suc.prems(1)] and D = cache_invD [OF nor_okD(3) [OF Suc.prems(1)]]
  show ?case
  proof (cases "fst (lowest_dirty 0 (cacheEntries c) (None, CACHE_FREE))")
    case None
    have "\<not> e_dirty (cacheEntries c ! i)" if "i < length (cacheEntries c)" for i
      using lowest_dirty_None [OF None] D(5) [OF that] D(3) that
      by (auto simp: page_ok_def CACHE_FREE_def split: if_splits dest: nth_mem)
    then have "dirty_pages c = 0" by (auto simp: dirty_pages_def in_set_conv_nth filter_empty_conv)
    then show ?thesis using None N(2) steady_refl [OF Suc.prems(1)] by (auto simp: same_pages_def)
  next
    case (Some i)
    then have i: "i < length (cacheEntries c)" "e_dirty (cacheEntries c ! i)"
      using lowest_dirty_Some [OF Some] by simp_all
    obtain bs d where r: "peek (e_cache (cacheEntries c ! i)) 0 (int (e_count (cacheEntries c ! i) * sectorSize c)) = Some bs"
      "writeSectors ops (e_sector (cacheEntries c ! i)) (e_count (cacheEntries c ! i)) bs (disc s) = Some (True, d)"
      "steady ops med ok c s (set_page c i ((cacheEntries c ! i)\<lparr>e_dirty := False\<rparr>))
         (put_entry i (\<lambda>e. e\<lparr>e_dirty := False\<rparr>) c (s\<lparr>disc := d\<rparr>))"
      "dirty_pages c = Suc (dirty_pages (set_page c i ((cacheEntries c ! i)\<lparr>e_dirty := False\<rparr>)))"
      using flush_round [OF Suc.prems(1) i] by blast
    have ok: "nor_ok ops med ok (set_page c i ((cacheEntries c ! i)\<lparr>e_dirty := False\<rparr>))
         (put_entry i (\<lambda>e. e\<lparr>e_dirty := False\<rparr>) c (s\<lparr>disc := d\<rparr>))"
      using r(3) by (simp add: steady_def)
    then obtain c' s' where "flush_loop ops n (put_entry i (\<lambda>e. e\<lparr>e_dirty := False\<rparr>) c (s\<lparr>disc := d\<rparr>)) = Some (None, s')"
      "steady ops med ok (set_page c i ((cacheEntries c ! i)\<lparr>e_dirty := False\<rparr>))
         (put_entry i (\<lambda>e. e\<lparr>e_dirty := False\<rparr>) c (s\<lparr>disc := d\<rparr>)) c' s'" "dirty_pages c' = 0"
      "same_pages (set_page c i ((cacheEntries c ! i)\<lparr>e_dirty := False\<rparr>)) c'"
      using Suc.IH [OF ok] Suc.prems(2) r(4) by auto
    moreover have "same_pages c c'" using calculation(4) same_pages_clean [OF i(1), of False] by (simp add: same_pages_def)
    ultimately show ?thesis using Some N(2) r steady_trans by (fastforce simp: Let_def)
  qed
qed

text \<open>A whole flush, with its mutex.\<close>

lemma steady_mutex:
  assumes "nor_ok ops med ok c s"
  shows "nor_ok ops med ok c (s\<lparr>flushMutex := m\<rparr>)" "contents med (s\<lparr>flushMutex := m\<rparr>) = contents med s"
  using assms by (simp_all add: nor_ok_def contents_def)

lemma flush_ok:
  assumes "nor_ok ops med ok c s" "lockable t (flushMutex s)"
  shows "\<exists>c' s'. NOR_cache_flush ops m t s = Some (None, s') \<and> steady ops med ok c s c' s' \<and> dirty_pages c' = 0
    \<and> same_pages c c'"
proof -
  obtain mx where mx: "pthread_mutex_lock m t (flushMutex s) = Some (0, mx)" "pthread_mutex_unlock t mx = Some (0, flushMutex s)"
    using mtx.section_restores [OF assms(2)] by blast
  let ?s = "s\<lparr>flushMutex := mx\<rparr>"
  have ok: "nor_ok ops med ok c ?s" using steady_mutex [OF assms(1)] by blast
  have "dirty_pages c \<le> length (cacheEntries c)" by (simp add: dirty_pages_def)
  then obtain c' s' where r: "flush_loop ops (length (cacheEntries c)) ?s = Some (None, s')" "steady ops med ok c ?s c' s'"
    "dirty_pages c' = 0" "same_pages c c'"
    using flush_loop_ok [OF ok] by blast
  then have "flushMutex s' = mx" by (simp add: steady_def)
  then have "NOR_cache_flush ops m t s = Some (None, s'\<lparr>flushMutex := flushMutex s\<rparr>)"
    using mx r(1) nor_okD(1,5) [OF assms(1)] by (simp add: NOR_cache_flush_def)
  moreover have "steady ops med ok c s c' (s'\<lparr>flushMutex := flushMutex s\<rparr>)"
    using r(2) steady_mutex [of ops med ok c' s' "flushMutex s"] steady_mutex(2) [OF assms(1), of mx] by (simp add: steady_def)
  ultimately show ?thesis using r(3,4) by blast
qed

text \<open>A cache without dirty pages shows the disc.\<close>

lemma clean_view:
  assumes "nor_ok ops med ok c s" "dirty_pages c = 0"
  shows "contents med s = med (disc s)"
proof
  fix k
  note N = nor_okD [OF assms(1)] and D = cache_invD [OF nor_okD(3) [OF assms(1)]]
  show "contents med s k = med (disc s) k"
  proof (cases rule: view_cases [OF N(3), of k, case_names page disc])
    case (page j)
    have "\<not> e_dirty (cacheEntries c ! j)" using assms(2) page(1) by (auto simp: dirty_pages_def filter_empty_conv)
    moreover have "e_sector (cacheEntries c ! j) \<noteq> CACHE_FREE" using covers_inv [OF N(3) page(1)] page(2) by blast
    ultimately show ?thesis
      using page D(5) [OF page(1)] page_sectors(1,2) [OF D(5) [OF page(1)] D(1,3) page(2)] N(7) by (simp add: page_ok_def)
  next
    case disc
    then show ?thesis using N(7) by simp
  qed
qed

subsection \<open>Pages\<close>

lemma scan_pages_spec:
  "scan_pages k i es (ff, ou, oa) = Inl j \<Longrightarrow> i \<le> j \<and> j - i < length es \<and> covers (es ! (j - i)) k"
  "scan_pages k i es (ff, ou, oa) = Inr (ff', j) \<Longrightarrow> (\<forall>e \<in> set es. \<not> covers e k)
     \<and> (j = ou \<and> ff' = ff \<or> i \<le> j \<and> j - i < length es \<and> (ff' \<longrightarrow> e_sector (es ! (j - i)) = CACHE_FREE))"
proof (induction es arbitrary: i ff ou oa)
  case (Cons e es)
  {
    case 1
    then show ?case
      using Cons.IH(1) [of "Suc i"] by (cases "j = i") (fastforce simp: nth_Cons' split: if_splits)+
  next
    case 2
    let ?st = "if \<not> ff \<and> (e_sector e = CACHE_FREE \<or> last_access e < oa)
      then (e_sector e = CACHE_FREE, i, last_access e mod 2 ^ 32) else (ff, ou, oa)"
    have c: "\<not> covers e k" using 2 by (cases "covers e k") simp_all
    then have n: "scan_pages k (Suc i) es ?st = Inr (ff', j)"
      using 2 by (simp only: scan_pages.simps if_False)
    obtain ff1 ou1 oa1 where st: "?st = (ff1, ou1, oa1)" by (cases ?st)
    have "(\<forall>e \<in> set es. \<not> covers e k) \<and> (j = ou1 \<and> ff' = ff1 \<or> Suc i \<le> j \<and> j - Suc i < length es \<and>
        (ff' \<longrightarrow> e_sector (es ! (j - Suc i)) = CACHE_FREE))"
      using n unfolding st by (rule Cons.IH(2))
    moreover have "(ou1 = ou \<and> ff1 = ff) \<or> (ou1 = i \<and> ff1 = (e_sector e = CACHE_FREE))"
      using st by (auto split: if_splits)
    ultimately show ?case using c by (auto simp: nth_Cons')
  }
qed simp_all

lemma load_page_ok:
  assumes "nor_ok ops med ok c s" "i < length (cacheEntries c)" "\<not> e_dirty (cacheEntries c ! i)"
    "\<And>j. j < length (cacheEntries c) \<Longrightarrow> \<not> covers (cacheEntries c ! j) k" "k < endOfPartition c"
  shows "\<exists>c' s'. load_page ops i k s = Some (Some i, s') \<and> steady ops med ok c s c' s'
    \<and> covers (cacheEntries c' ! i) k"
proof -
  note N = nor_okD [OF assms(1)] and D = cache_invD [OF nor_okD(3) [OF assms(1)]]
  let ?b = "page_base c k" and ?n = "min (sectorsPerPage c) (endOfPartition c - page_base c k)"
  have b: "?b \<le> k" "?b < endOfPartition c" using page_base_bounds [OF D(1), of k] assms(5) by simp_all
  have next_page: "(if u32_plus ?b (sectorsPerPage c) > endOfPartition c then endOfPartition c
      else u32_plus ?b (sectorsPerPage c)) = ?b + ?n"
    using b D(3) by simp
  have count: "u32_minus (?b + ?n) ?b = ?n" using b D(3) by (subst u32_minus_eq) simp_all
  obtain d where d: "readSectors ops ?b ?n (disc s) = Some (True, concat (map (med (disc s)) [?b..<?b + ?n]), d)"
    "ok d" "med d = med (disc s)"
  proof -
    have "page_run (sectorsPerPage c) (endOfPartition c) ?b ?n" using b by (simp add: page_run_def page_base_def)
    then show ?thesis using disc_worksD(2) [OF N(6,4)] that by blast
  qed
  let ?bs = "concat (map (med (disc s)) [?b..<?b + ?n])"
  have len: "length ?bs = ?n * sectorSize c"
    using disc_worksD(1) [OF N(6,4)] by (simp add: length_concat o_def sum_list_triv)
  have "length (e_cache (cacheEntries c ! i)) = sectorsPerPage c * sectorSize c"
    using D(5) [OF assms(2)] by (simp add: page_ok_def)
  moreover have le: "?n * sectorSize c \<le> sectorsPerPage c * sectorSize c" by (intro mult_le_mono1) simp
  ultimately have fit: "length ?bs \<le> length (e_cache (cacheEntries c ! i))"
    "length (e_cache (cacheEntries c ! i)) = sectorsPerPage c * sectorSize c"
    using len by simp_all
  have pg: "memcpy (e_cache (cacheEntries c ! i)) 0 ?bs 0 (int (length ?bs))
      = Some (?bs @ drop (length ?bs) (e_cache (cacheEntries c ! i)))"
    using memcpy_to_start [of 0 "int (length ?bs)" ?bs "e_cache (cacheEntries c ! i)"] fit(1) by simp
  have page_len: "length (?bs @ drop (length ?bs) (e_cache (cacheEntries c ! i))) = sectorsPerPage c * sectorSize c"
    using fit by (simp only: length_append length_drop)
  define page where "page = ?bs @ drop (length ?bs) (e_cache (cacheEntries c ! i))"
  let ?a = "u32_plus (accessCounter s) 1"
  let ?e = "(cacheEntries c ! i)\<lparr>e_sector := ?b, e_count := ?n, last_access := ?a, e_cache := page\<rparr>"
  have sec: "sect (sectorSize c) page j = med (disc s) (?b + j)" if "j < ?n" for j
  proof -
    have "sect (sectorSize c) page j = sect (sectorSize c) ?bs j"
      using sect_take_drop [OF that, of "sectorSize c" 0 page] len by (simp add: page_def)
    also have "\<dots> = map (med (disc s)) [?b..<?b + ?n] ! j"
      by (rule sect_concat) (use disc_worksD(1) [OF N(6,4)] that in auto)
    finally show ?thesis using that by simp
  qed
  have e: "e_sector ?e = page_base c k" "e_count ?e = min (sectorsPerPage c) (endOfPartition c - page_base c k)"
    "\<not> e_dirty ?e" "length (e_cache ?e) = sectorsPerPage c * sectorSize c"
    "\<And>j. j < e_count ?e \<Longrightarrow> sect (sectorSize c) (e_cache ?e) j = med (disc s) (page_base c k + j)"
    using assms(3) page_len [folded page_def] sec by simp_all
  note L = loaded [OF N(3) assms(2,3,4,5) e]
  have r: "load_page ops i k s = Some (Some i, put_entry i
      (\<lambda>e. e\<lparr>e_sector := ?b, e_count := ?n, last_access := ?a, e_cache := page\<rparr>) c (s\<lparr>disc := d, accessCounter := ?a\<rparr>))"
    unfolding load_page_def page_def
    using N(2) next_page count d(1) pg by (simp add: page_base_def [symmetric] Let_def accessTime_def)
  show ?thesis
    by (rule exI [of _ "set_page c i ?e"], rule exI, intro conjI, rule r)
      (use L N d assms(2) in \<open>simp_all add: steady_def nor_ok_def contents_def put_entry_def same_geometry_def\<close>)
qed

lemma getPage_ok:
  assumes "nor_ok ops med ok c s" "lockable t (flushMutex s)" "k < endOfPartition c"
  shows "\<exists>i c' s'. NOR_cache_getPage ops m t k s = Some (Some i, s') \<and> steady ops med ok c s c' s'
    \<and> i < length (cacheEntries c') \<and> covers (cacheEntries c' ! i) k"
proof -
  note N = nor_okD [OF assms(1)] and D = cache_invD [OF nor_okD(3) [OF assms(1)]]
  show ?thesis
  proof (cases "scan_pages k 0 (cacheEntries c) (False, 0, 2 ^ 32 - 1)")
    case (Inl i)
    then have i: "i < length (cacheEntries c)" "covers (cacheEntries c ! i) k"
      using scan_pages_spec(1) [OF Inl] by simp_all
    let ?a = "u32_plus (accessCounter s) 1"
    let ?s = "put_entry i (\<lambda>e. e\<lparr>last_access := ?a\<rparr>) c (s\<lparr>accessCounter := ?a\<rparr>)"
    have "NOR_cache_getPage ops m t k s = Some (Some i, ?s)"
      using Inl N(2) by (simp add: NOR_cache_getPage_def accessTime_def Let_def)
    moreover have "steady ops med ok c s (set_page c i ((cacheEntries c ! i)\<lparr>last_access := ?a\<rparr>)) ?s"
      using touched [OF N(3) i(1)] N
      by (simp add: steady_def nor_ok_def contents_def put_entry_def same_geometry_def)
    moreover have "covers (cacheEntries (set_page c i ((cacheEntries c ! i)\<lparr>last_access := ?a\<rparr>)) ! i) k"
      using i by (simp add: covers_def)
    ultimately show ?thesis using i(1) by fastforce
  next
    case (Inr r)
    obtain ff i where r: "r = (ff, i)" by (cases r)
    note sp = scan_pages_spec(2) [OF Inr [unfolded r]]
    have i: "i < length (cacheEntries c)" using sp D(4) by auto
    have none: "\<not> covers (cacheEntries c ! j) k" if "j < length (cacheEntries c)" for j
      using sp that by simp
    show ?thesis
    proof (cases "\<not> ff \<and> e_dirty (cacheEntries c ! i)")
      case False
      then have clean: "\<not> e_dirty (cacheEntries c ! i)"
        using sp D(5) [OF i] by (auto simp: page_ok_def)
      obtain c' s' where l: "load_page ops i k s = Some (Some i, s')" "steady ops med ok c s c' s'"
        "covers (cacheEntries c' ! i) k"
        using load_page_ok [OF assms(1) i clean none assms(3)] by blast
      have "NOR_cache_getPage ops m t k s = Some (Some i, s')"
        using Inr r N(2) i False l(1) by (auto simp: NOR_cache_getPage_def)
      moreover have "i < length (cacheEntries c')" using l(2) i by (simp add: steady_def same_geometry_def)
      ultimately show ?thesis using l(2,3) by blast
    next
      case True
      obtain c1 s1 where f: "NOR_cache_flush ops m t s = Some (None, s1)" "steady ops med ok c s c1 s1" "dirty_pages c1 = 0"
        "same_pages c c1"
        using flush_ok [OF assms(1,2)] by blast
      then have ok1: "nor_ok ops med ok c1 s1" and g: "same_geometry c c1" by (simp_all add: steady_def)
      have i1: "i < length (cacheEntries c1)" "k < endOfPartition c1" using g i assms(3) by (simp_all add: same_geometry_def)
      have clean: "\<not> e_dirty (cacheEntries c1 ! i)"
        using f(3) i1(1) by (auto simp: dirty_pages_def filter_empty_conv)
      have none1: "\<not> covers (cacheEntries c1 ! j) k" if "j < length (cacheEntries c1)" for j
        using same_pages_covers [OF f(4) that] none [of j] that g by (simp add: same_geometry_def)
      obtain c' s' where l: "load_page ops i k s1 = Some (Some i, s')" "steady ops med ok c1 s1 c' s'"
        "covers (cacheEntries c' ! i) k"
        using load_page_ok [OF ok1 i1(1) clean none1 i1(2)] by blast
      have "NOR_cache_getPage ops m t k s = Some (Some i, s')"
        using Inr r N(2) i True l(1) f(1) by (simp add: NOR_cache_getPage_def)
      moreover have "i < length (cacheEntries c')" using l(2) i1 by (simp add: steady_def same_geometry_def)
      ultimately show ?thesis using l(2,3) steady_trans [OF f(2) l(2)] by blast
    qed
  qed
qed

end
