(* ===== verification/Fat_NorRw.thy ===== *)
theory Fat_NorRw
  imports Fat_NorStore
begin

text \<open>
  Reading and writing through the cache: the loops end for every range before \<open>endOfPartition\<close>, reading
  returns the view and writing updates it. The sector \<open>endOfPartition\<close> itself is never in a page, and
  the loops do not end when they reach it.
\<close>

subsection \<open>A transfer from or to one page\<close>

definition in_page :: "NOR_CACHE \<Rightarrow> nat \<Rightarrow> nat \<Rightarrow> nat \<Rightarrow> bool" where
  "in_page c i k n \<longleftrightarrow> i < length (cacheEntries c) \<and> covers (cacheEntries c ! i) k
     \<and> k - e_sector (cacheEntries c ! i) + n \<le> e_count (cacheEntries c ! i)"

text \<open>The share of a transfer that the page of its first sector takes.\<close>

lemma page_share:
  assumes "nor_ok ops med ok c s" "i < length (cacheEntries c)" "covers (cacheEntries c ! i) k" "0 < n"
  defines "e \<equiv> cacheEntries c ! i"
  shows "u32_minus k (e_sector e) = k - e_sector e"
    "u32_minus (e_count e) (k - e_sector e) = e_count e - (k - e_sector e)"
    "0 < min (e_count e - (k - e_sector e)) n" "in_page c i k (min (e_count e - (k - e_sector e)) n)"
proof -
  note D = cache_invD [OF nor_okD(3) [OF assms(1)]]
  note P = page_sectors [OF D(5) [OF assms(2)] D(1,3) assms(3), folded e_def]
  have "k < 2 ^ 32" using P(1,2,4) D(3) by simp
  then show "u32_minus k (e_sector e) = k - e_sector e"
    "u32_minus (e_count e) (k - e_sector e) = e_count e - (k - e_sector e)"
    using P(1,2,6) by (simp_all add: u32_minus_eq)
  show "0 < min (e_count e - (k - e_sector e)) n" "in_page c i k (min (e_count e - (k - e_sector e)) n)"
    using P(2) assms(2-4) by (simp_all add: in_page_def e_def)
qed

lemma in_page_bounds:
  assumes "nor_ok ops med ok c s" "in_page c i k n"
  defines "e \<equiv> cacheEntries c ! i"
  shows "(k - e_sector e + n) * sectorSize c \<le> length (e_cache e)" "k + n \<le> endOfPartition c"
    "\<And>j. j < n \<Longrightarrow> covers e (k + j)" "e_sector e \<le> k"
proof -
  note D = cache_invD [OF nor_okD(3) [OF assms(1)]]
  have i: "i < length (cacheEntries c)" "covers e k" "k - e_sector e + n \<le> e_count e"
    using assms(2) by (simp_all add: in_page_def e_def)
  note P = page_sectors [OF D(5) [OF i(1)] D(1,3), folded e_def, OF i(2)]
  show "(k - e_sector e + n) * sectorSize c \<le> length (e_cache e)"
    unfolding P(7) using i(3) P(3) by (intro mult_le_mono1) simp
  show "k + n \<le> endOfPartition c" "e_sector e \<le> k" using i(3) P(1,4) by simp_all
  show "covers e (k + j)" if "j < n" for j
    using that i(3) P(1,4) D(3) by (simp add: covers_def)
qed

lemma page_bytes:
  assumes "nor_ok ops med ok c s" "in_page c i k n"
  defines "e \<equiv> cacheEntries c ! i"
  shows "peek (e_cache e) (int ((k - e_sector e) * sectorSize c)) (int (n * sectorSize c))
    = Some (concat (map (contents med s) [k..<k + n]))"
proof -
  note B = in_page_bounds [OF assms(1,2), folded e_def] and N = nor_okD [OF assms(1)]
  have i: "i < length (cacheEntries c)" using assms(2) by (simp add: in_page_def)
  have "sect (sectorSize c) (e_cache e) (k - e_sector e + j) = contents med s (k + j)" if "j < n" for j
    using view_page [OF N(3) i B(3) [OF that, unfolded e_def]] B(4) N(7) by (simp add: e_def)
  then have "map (\<lambda>j. sect (sectorSize c) (e_cache e) (k - e_sector e + j)) [0..<n] = map (contents med s) [k..<k + n]"
    by (intro nth_equalityI) simp_all
  then have "take (n * sectorSize c) (drop ((k - e_sector e) * sectorSize c) (e_cache e))
      = concat (map (contents med s) [k..<k + n])"
    using take_drop_sects [OF B(1)] by simp
  then show ?thesis
    using B(1) by (simp add: peek_def add_mult_distrib nat_mult_distrib flip: of_nat_mult of_nat_add)
qed

subsection \<open>Reading\<close>

lemma read_sectors_ok:
  "nor_ok ops med ok c s \<Longrightarrow> lockable t (flushMutex s) \<Longrightarrow> k + n \<le> endOfPartition c \<Longrightarrow>
     \<exists>c' s'. read_sectors ops m t k n dest s = Some (True, dest @ concat (map (contents med s) [k..<k + n]), s')
       \<and> steady ops med ok c s c' s'"
proof (induction n arbitrary: k dest c s rule: less_induct)
  case (less n)
  show ?case
  proof (cases "n = 0")
    case True
    then show ?thesis using steady_refl [OF less.prems(1)] by (subst read_sectors.simps) auto
  next
    case False
    then obtain i c1 s1 where g: "NOR_cache_getPage ops m t k s = Some (Some i, s1)" "steady ops med ok c s c1 s1"
      "i < length (cacheEntries c1)" "covers (cacheEntries c1 ! i) k"
    proof -
      have "k < endOfPartition c" using False less.prems(3) by simp
      then show ?thesis using getPage_ok [OF less.prems(1,2)] that by blast
    qed
    have ok1: "nor_ok ops med ok c1 s1" and lk1: "lockable t (flushMutex s1)" and v1: "contents med s1 = contents med s"
      and e1: "endOfPartition c1 = endOfPartition c"
      using g(2) less.prems(2) by (simp_all add: steady_def same_geometry_def)
    let ?e = "cacheEntries c1 ! i"
    define n1 where "n1 = min (e_count ?e - (k - e_sector ?e)) n"
    have n0: "0 < n" using False by simp
    note S = page_share [OF ok1 g(3,4) n0, folded n1_def]
    note B = in_page_bounds(2) [OF ok1 S(4)] and Y = page_bytes [OF ok1 S(4)]
    have lt: "n - n1 < n" "n1 \<le> n" using S(3) n0 by (simp_all add: n1_def)
    have kn: "u32_plus k n1 = k + n1" "k + n1 + (n - n1) \<le> endOfPartition c1"
      using B less.prems(3) cache_invD(3) [OF nor_okD(3) [OF ok1]] e1 lt(2) by simp_all
    obtain c' s' where r: "read_sectors ops m t (k + n1) (n - n1) (dest @ concat (map (contents med s) [k..<k + n1])) s1
        = Some (True, (dest @ concat (map (contents med s) [k..<k + n1])) @ concat (map (contents med s) [k + n1..<k + n1 + (n - n1)]), s')"
      "steady ops med ok c1 s1 c' s'"
      using less.IH [OF lt(1) ok1 lk1 kn(2)] unfolding v1 by blast
    have sp: "concat (map (contents med s) [k..<k + n]) = concat (map (contents med s) [k..<k + n1])
        @ concat (map (contents med s) [k + n1..<k + n1 + (n - n1)])"
      using upt_add_eq_append [of k "k + n1" "n - n1"] lt(2) by simp
    have "read_sectors ops m t k n dest s = Some (True, dest @ concat (map (contents med s) [k..<k + n]), s')"
      using g(1) nor_okD(2) [OF ok1] S(1,2) Y [unfolded v1] r(1) kn(1) n0
      by (subst read_sectors.simps) (simp add: read_pass_def Let_def n1_def [symmetric] sp del: map_append concat_append)
    then show ?thesis using steady_trans [OF g(2) r(2)] by blast
  qed
qed

subsection \<open>Writing\<close>

lemma find_page_spec:
  "find_page k j es = Some i \<Longrightarrow> j \<le> i \<and> i - j < length es \<and> e_sector (es ! (i - j)) \<noteq> CACHE_FREE
     \<and> e_sector (es ! (i - j)) < k \<and> k - e_sector (es ! (i - j)) < e_count (es ! (i - j))"
proof (induction es arbitrary: j)
  case (Cons e es)
  then show ?case by (cases "j = i") (fastforce simp: nth_Cons' split: if_splits)+
qed simp

text \<open>The page that a write goes to.\<close>

lemma write_page_ok:
  assumes "nor_ok ops med ok c s" "lockable t (flushMutex s)" "k < endOfPartition c"
  shows "\<exists>p i c' s'. NOR_cache_findPage k s = Some p
    \<and> (if p = None then NOR_cache_getPage ops m t k s else Some (p, s)) = Some (Some i, s')
    \<and> steady ops med ok c s c' s' \<and> i < length (cacheEntries c') \<and> covers (cacheEntries c' ! i) k"
proof (cases "find_page k 0 (cacheEntries c)")
  case None
  then show ?thesis
    using getPage_ok [OF assms] nor_okD(2) [OF assms(1)] by (auto simp: NOR_cache_findPage_def)
next
  case (Some i)
  note D = cache_invD [OF nor_okD(3) [OF assms(1)]]
  have i: "i < length (cacheEntries c)" "e_sector (cacheEntries c ! i) \<noteq> CACHE_FREE" "e_sector (cacheEntries c ! i) < k"
    "k - e_sector (cacheEntries c ! i) < e_count (cacheEntries c ! i)"
    using find_page_spec [OF Some] by simp_all
  then have "covers (cacheEntries c ! i) k"
    using D(3) D(5) [OF i(1)] by (auto simp: covers_def page_ok_def)
  then show ?thesis
    using Some i(1) nor_okD(2) [OF assms(1)] steady_refl [OF assms(1)]
    by (intro exI [of _ "Some i"] exI [of _ i] exI [of _ c] exI [of _ s]) (simp add: NOR_cache_findPage_def)
qed

text \<open>The view with the sectors of \<open>src\<close> written from sector \<open>k\<close> on.\<close>

definition overlay :: "nat \<Rightarrow> nat \<Rightarrow> nat \<Rightarrow> block \<Rightarrow> (nat \<Rightarrow> block) \<Rightarrow> nat \<Rightarrow> block" where
  "overlay sz k n src v = (\<lambda>x. if k \<le> x \<and> x < k + n then sect sz src (x - k) else v x)"

lemma overlay_0 [simp]: "overlay sz k 0 src v = v"
  by (intro ext) (auto simp: overlay_def)

lemma overlay_split:
  assumes "n1 \<le> n" "length src = n * sz"
  shows "overlay sz (k + n1) (n - n1) (drop (n1 * sz) src) (overlay sz k n1 (take (n1 * sz) src) v) = overlay sz k n src v"
proof
  fix x
  have d: "sect sz (drop (n1 * sz) src) (x - (k + n1)) = sect sz src (x - k)" if "k + n1 \<le> x"
  proof -
    have "(x - (k + n1)) * sz + n1 * sz = (x - k) * sz" using that by (simp flip: add_mult_distrib)
    then show ?thesis by (simp add: sect_def)
  qed
  have t: "sect sz (take (n1 * sz) src) (x - k) = sect sz src (x - k)" if "k \<le> x" "x < k + n1"
    using sect_take_drop [of "x - k" n1 sz 0 src] that by simp
  show "overlay sz (k + n1) (n - n1) (drop (n1 * sz) src) (overlay sz k n1 (take (n1 * sz) src) v) x = overlay sz k n src v x"
    using d t assms(1) by (auto simp: overlay_def)
qed

lemma page_written:
  assumes "nor_ok ops med ok c s" "in_page c i k n" "n * sectorSize c \<le> length src"
  defines "e \<equiv> cacheEntries c ! i"
  shows "\<exists>page. memcpy (e_cache e) (int ((k - e_sector e) * sectorSize c)) src 0 (int (n * sectorSize c)) = Some page
    \<and> nor_ok ops med ok (set_page c i (e\<lparr>e_cache := page, e_dirty := True\<rparr>))
        (put_entry i (\<lambda>e. e\<lparr>e_cache := page, e_dirty := True\<rparr>) c s)
    \<and> contents med (put_entry i (\<lambda>e. e\<lparr>e_cache := page, e_dirty := True\<rparr>) c s)
        = overlay (sectorSize c) k n (take (n * sectorSize c) src) (contents med s)"
proof -
  note B = in_page_bounds [OF assms(1,2), folded e_def] and N = nor_okD [OF assms(1)]
  have i: "i < length (cacheEntries c)" "covers e k" "k - e_sector e + n \<le> e_count e"
    using assms(2) by (simp_all add: in_page_def e_def)
  define page where "page = take ((k - e_sector e) * sectorSize c) (e_cache e) @ take (n * sectorSize c) src
    @ drop ((k - e_sector e + n) * sectorSize c) (e_cache e)"
  have mc: "memcpy (e_cache e) (int ((k - e_sector e) * sectorSize c)) src 0 (int (n * sectorSize c)) = Some page"
    using B(1) assms(3)
    by (simp add: memcpy_eq_Some page_def add_mult_distrib nat_mult_distrib flip: of_nat_mult of_nat_add)
  have src: "length (take (n * sectorSize c) src) = n * sectorSize c" using assms(3) by simp
  note W = written [OF N(3) i(1) e_def [THEN meta_eq_to_obj_eq] i(2,3) src page_def]
  have u: "put_entry i (\<lambda>e. e\<lparr>e_cache := page, e_dirty := True\<rparr>) c s
      = s\<lparr>norCache := CacheAt (set_page c i (e\<lparr>e_cache := page, e_dirty := True\<rparr>))\<rparr>"
    by (simp add: put_entry_def e_def)
  show ?thesis
    by (rule exI [of _ page])
      (use mc W N in \<open>simp add: u nor_ok_def contents_def overlay_def\<close>)
qed

lemma write_sectors_ok:
  "nor_ok ops med ok c s \<Longrightarrow> lockable t (flushMutex s) \<Longrightarrow> k + n \<le> endOfPartition c \<Longrightarrow>
     length src = n * sectorSize c \<Longrightarrow>
     \<exists>c' s'. write_sectors ops m t k n src s = Some (True, s') \<and> nor_ok ops med ok c' s'
       \<and> same_geometry c c' \<and> flushMutex s' = flushMutex s
       \<and> contents med s' = overlay (sectorSize c) k n src (contents med s)"
proof (induction n arbitrary: k src c s rule: less_induct)
  case (less n)
  show ?case
  proof (cases "n = 0")
    case True
    then have "write_sectors ops m t k n src s = Some (True, s)" by (subst write_sectors.simps) simp
    then show ?thesis using less.prems(1) True by (intro exI [of _ c] exI [of _ s]) simp
  next
    case False
    then obtain p i c1 s1 where g: "NOR_cache_findPage k s = Some p"
      "(if p = None then NOR_cache_getPage ops m t k s else Some (p, s)) = Some (Some i, s1)" "steady ops med ok c s c1 s1"
      "i < length (cacheEntries c1)" "covers (cacheEntries c1 ! i) k"
    proof -
      have "k < endOfPartition c" using False less.prems(3) by simp
      then show ?thesis using write_page_ok [OF less.prems(1,2)] that by blast
    qed
    have ok1: "nor_ok ops med ok c1 s1" and lk1: "lockable t (flushMutex s1)" and v1: "contents med s1 = contents med s"
      and e1: "endOfPartition c1 = endOfPartition c" "sectorSize c1 = sectorSize c"
      using g(3) less.prems(2) by (simp_all add: steady_def same_geometry_def)
    let ?e = "cacheEntries c1 ! i"
    define n1 where "n1 = min (e_count ?e - (k - e_sector ?e)) n"
    have n0: "0 < n" using False by simp
    note S = page_share [OF ok1 g(4,5) n0, folded n1_def]
    note B = in_page_bounds [OF ok1 S(4)]
    have n1: "n1 \<le> n" "n - n1 < n" using S(3) n0 by (simp_all add: n1_def)
    have src: "n1 * sectorSize c1 \<le> length src" using less.prems(4) e1 n1 by simp
    obtain page where pg: "memcpy (e_cache ?e) (int ((k - e_sector ?e) * sectorSize c1)) src 0 (int (n1 * sectorSize c1)) = Some page"
      "nor_ok ops med ok (set_page c1 i (?e\<lparr>e_cache := page, e_dirty := True\<rparr>))
        (put_entry i (\<lambda>e. e\<lparr>e_cache := page, e_dirty := True\<rparr>) c1 s1)"
      "contents med (put_entry i (\<lambda>e. e\<lparr>e_cache := page, e_dirty := True\<rparr>) c1 s1)
        = overlay (sectorSize c1) k n1 (take (n1 * sectorSize c1) src) (contents med s1)"
      using page_written [OF ok1 S(4) src] by blast
    let ?c2 = "set_page c1 i (?e\<lparr>e_cache := page, e_dirty := True\<rparr>)"
    let ?s2 = "put_entry i (\<lambda>e. e\<lparr>e_cache := page, e_dirty := True\<rparr>) c1 s1"
    have kn: "u32_plus k n1 = k + n1" "k + n1 + (n - n1) \<le> endOfPartition ?c2"
      using B(2) less.prems(3) cache_invD(3) [OF nor_okD(3) [OF ok1]] e1 n1 by simp_all
    have lk2: "lockable t (flushMutex ?s2)" and src2: "length (drop (n1 * sectorSize c) src) = (n - n1) * sectorSize ?c2"
      using lk1 less.prems(4) e1 by (simp_all add: put_entry_def diff_mult_distrib)
    obtain c' s' where r: "write_sectors ops m t (k + n1) (n - n1) (drop (n1 * sectorSize c) src) ?s2 = Some (True, s')"
      "nor_ok ops med ok c' s'" "same_geometry ?c2 c'" "flushMutex s' = flushMutex ?s2"
      "contents med s' = overlay (sectorSize ?c2) (k + n1) (n - n1) (drop (n1 * sectorSize c) src) (contents med ?s2)"
      using less.IH [OF n1(2) pg(2) lk2 kn(2) src2] by blast
    have wb: "write_before ops c1 ?e (k, n, src) s1 = Some ((k, n, src), s1)"
      using B(4) by (simp add: write_before_def)
    have w: "write_sectors ops m t k n src s = Some (True, s')"
      using g(1,2) nor_okD(2) [OF ok1] S(1,2) wb pg(1) r(1) kn(1) n0 e1(2)
      by (subst write_sectors.simps) (simp add: Let_def n1_def [symmetric])
    have "contents med s' = overlay (sectorSize c) k n src (contents med s)"
      using r(5) pg(3) v1 e1(2) overlay_split [OF n1(1) less.prems(4), of k "contents med s"] by simp
    moreover have "same_geometry c c'" "flushMutex s' = flushMutex s"
      using r(3,4) g(3) by (simp_all add: steady_def same_geometry_def put_entry_def)
    ultimately show ?thesis using w r(2) by blast
  qed
qed

subsection \<open>The sector behind the last page\<close>

text \<open>
  What is left of the invariant when the loop asks for the sector \<open>endOfPartition\<close>: pages are loaded again and
  again, also twice, but none of them holds that sector.
\<close>

definition bounded_entry :: "NOR_CACHE \<Rightarrow> NOR_CACHE_ENTRY \<Rightarrow> bool" where
  "bounded_entry c e \<longleftrightarrow> length (e_cache e) = sectorsPerPage c * sectorSize c \<and> e_count e \<le> sectorsPerPage c
     \<and> (if e_sector e = CACHE_FREE then e_count e = 0 \<and> \<not> e_dirty e
        else page_run (sectorsPerPage c) (endOfPartition c) (e_sector e) (e_count e))"

definition nor_bounded ::
  "'d DISC_INTERFACE \<Rightarrow> ('d \<Rightarrow> nat \<Rightarrow> block) \<Rightarrow> ('d \<Rightarrow> bool) \<Rightarrow> NOR_CACHE \<Rightarrow> 'd nor \<Rightarrow> bool" where
  "nor_bounded ops med ok c s \<longleftrightarrow> norCache s = CacheAt c \<and> 0 < sectorsPerPage c
     \<and> endOfPartition c + sectorsPerPage c < 2 ^ 32 \<and> cacheEntries c \<noteq> []
     \<and> (\<forall>e \<in> set (cacheEntries c). bounded_entry c e)
     \<and> \<not> sectorsPerPage c dvd endOfPartition c
     \<and> disc_works ops med ok (sectorsPerPage c) (sectorSize c) (endOfPartition c) \<and> ok (disc s) \<and> CacheValidFlush s"

lemma page_ok_bounded: "page_ok c md e \<Longrightarrow> bounded_entry c e"
  by (auto simp: page_ok_def bounded_entry_def page_run_def split: if_splits)

lemma nor_ok_bounded:
  assumes "nor_ok ops med ok c s" "\<not> sectorsPerPage c dvd endOfPartition c"
  shows "nor_bounded ops med ok c s"
proof -
  have "bounded_entry c e" if "e \<in> set (cacheEntries c)" for e
    using cache_invD(5) [OF nor_okD(3) [OF assms(1)]] page_ok_bounded that by (auto simp: in_set_conv_nth)
  then show ?thesis
    using nor_okD [OF assms(1)] cache_invD(1-4) [OF nor_okD(3) [OF assms(1)]] assms(2) by (simp add: nor_bounded_def)
qed

lemma bounded_entry_set [simp]: "bounded_entry (c\<lparr>cacheEntries := es\<rparr>) = bounded_entry c"
  by (simp add: bounded_entry_def fun_eq_iff)

lemma bounded_update:
  assumes "nor_bounded ops med ok c s" "bounded_entry c (f (cacheEntries c ! i))" "ok d"
  shows "nor_bounded ops med ok (set_page c i (f (cacheEntries c ! i))) (put_entry i f c (s\<lparr>disc := d, accessCounter := a\<rparr>))"
  using assms set_update_subset_insert [of "cacheEntries c" i "f (cacheEntries c ! i)"]
  by (auto simp: nor_bounded_def put_entry_def)

lemma bounded_flush_loop:
  "nor_bounded ops med ok c s \<Longrightarrow> \<exists>c' s'. flush_loop ops n s = Some (None, s') \<and> nor_bounded ops med ok c' s'
     \<and> same_geometry c c' \<and> flushMutex s' = flushMutex s"
proof (induction n arbitrary: c s)
  case 0
  then show ?case using same_geometry_refl by fastforce
next
  case (Suc n)
  have c: "the_cache s = Some c" using Suc.prems by (simp add: nor_bounded_def the_cache_def)
  show ?case
  proof (cases "fst (lowest_dirty 0 (cacheEntries c) (None, CACHE_FREE))")
    case None
    then show ?thesis using Suc.prems c same_geometry_refl by fastforce
  next
    case (Some i)
    have i: "i < length (cacheEntries c)" "e_sector (cacheEntries c ! i) \<noteq> CACHE_FREE"
      using lowest_dirty_Some [OF Some] by auto
    let ?e = "cacheEntries c ! i"
    have b: "bounded_entry c ?e" using Suc.prems i by (simp add: nor_bounded_def)
    have le: "e_count ?e * sectorSize c \<le> length (e_cache ?e)"
      using b by (simp add: bounded_entry_def)
    then have bs: "peek (e_cache ?e) 0 (int (e_count ?e * sectorSize c)) = Some (take (e_count ?e * sectorSize c) (e_cache ?e))"
      by (simp add: peek_def nat_mult_distrib flip: of_nat_mult)
    have "page_run (sectorsPerPage c) (endOfPartition c) (e_sector ?e) (e_count ?e)" using b i(2) by (simp add: bounded_entry_def)
    then obtain d where d: "writeSectors ops (e_sector ?e) (e_count ?e) (take (e_count ?e * sectorSize c) (e_cache ?e)) (disc s) = Some (True, d)"
      "ok d"
      using disc_worksD(3) [of ops med ok "sectorsPerPage c" "sectorSize c" "endOfPartition c" "disc s" "e_sector ?e" "e_count ?e"
          "take (e_count ?e * sectorSize c) (e_cache ?e)"] Suc.prems le
      by (auto simp: nor_bounded_def)
    have "bounded_entry c (?e\<lparr>e_dirty := False\<rparr>)" using b by (simp add: bounded_entry_def)
    then have ok: "nor_bounded ops med ok (set_page c i (?e\<lparr>e_dirty := False\<rparr>))
        (put_entry i (\<lambda>e. e\<lparr>e_dirty := False\<rparr>) c (s\<lparr>disc := d\<rparr>))"
      using bounded_update [OF Suc.prems, of "\<lambda>e. e\<lparr>e_dirty := False\<rparr>" i d "accessCounter s"] d(2) by simp
    obtain c' s' where r: "flush_loop ops n (put_entry i (\<lambda>e. e\<lparr>e_dirty := False\<rparr>) c (s\<lparr>disc := d\<rparr>)) = Some (None, s')"
      "nor_bounded ops med ok c' s'" "same_geometry (set_page c i (?e\<lparr>e_dirty := False\<rparr>)) c'" "flushMutex s' = flushMutex s"
      using Suc.IH [OF ok] by (auto simp: put_entry_def)
    then show ?thesis using Some c bs d(1) by (fastforce simp: Let_def same_geometry_def)
  qed
qed

lemma bounded_flush:
  assumes "nor_bounded ops med ok c s" "lockable t (flushMutex s)"
  shows "\<exists>r c' s'. NOR_cache_flush ops m t s = Some (r, s') \<and> nor_bounded ops med ok c' s'
     \<and> same_geometry c c' \<and> flushMutex s' = flushMutex s"
proof -
  obtain mx where mx: "pthread_mutex_lock m t (flushMutex s) = Some (0, mx)" "pthread_mutex_unlock t mx = Some (0, flushMutex s)"
    using mtx.section_restores [OF assms(2)] by blast
  let ?s = "s\<lparr>flushMutex := mx\<rparr>"
  have "nor_bounded ops med ok c ?s" using assms(1) by (simp add: nor_bounded_def)
  then obtain c' s' where r: "flush_loop ops (length (cacheEntries c)) ?s = Some (None, s')" "nor_bounded ops med ok c' s'"
    "same_geometry c c'" "flushMutex s' = mx"
    using bounded_flush_loop by fastforce
  then have "NOR_cache_flush ops m t s = Some (None, s'\<lparr>flushMutex := flushMutex s\<rparr>)"
    using mx assms(1) by (simp add: NOR_cache_flush_def nor_bounded_def)
  then show ?thesis using r(2,3) by (fastforce simp: nor_bounded_def)
qed

lemma bounded_uncovered:
  assumes "bounded_entry c e" "endOfPartition c + sectorsPerPage c < 2 ^ 32"
  shows "\<not> covers e (endOfPartition c)"
  using assms by (cases "e_sector e = CACHE_FREE") (auto simp: bounded_entry_def covers_def page_run_def CACHE_FREE_def)

lemma last_sector_page:
  assumes "nor_bounded ops med ok c s" "lockable t (flushMutex s)"
  shows "\<exists>i c' s'. NOR_cache_getPage ops m t (endOfPartition c) s = Some (Some i, s') \<and> nor_bounded ops med ok c' s'
     \<and> same_geometry c c' \<and> flushMutex s' = flushMutex s \<and> i < length (cacheEntries c')
     \<and> e_sector (cacheEntries c' ! i) + e_count (cacheEntries c' ! i) = endOfPartition c"
proof -
  have N: "the_cache s = Some c" "0 < sectorsPerPage c" "endOfPartition c + sectorsPerPage c < 2 ^ 32"
    "cacheEntries c \<noteq> []" "\<And>e. e \<in> set (cacheEntries c) \<Longrightarrow> bounded_entry c e" "\<not> sectorsPerPage c dvd endOfPartition c"
    using assms(1) by (simp_all add: nor_bounded_def the_cache_def)
  have none: "\<not> covers e (endOfPartition c)" if "e \<in> set (cacheEntries c)" for e
    using bounded_uncovered [OF N(5) [OF that] N(3)] .
  obtain ff i where sp: "scan_pages (endOfPartition c) 0 (cacheEntries c) (False, 0, 2 ^ 32 - 1) = Inr (ff, i)"
    using scan_pages_spec(1) [of "endOfPartition c" 0 "cacheEntries c" False 0 "2 ^ 32 - 1"] none
    by (cases "scan_pages (endOfPartition c) 0 (cacheEntries c) (False, 0, 2 ^ 32 - 1)") auto
  have i: "i < length (cacheEntries c)" using scan_pages_spec(2) [OF sp] N(4) by auto
  obtain c1 s1 where s1: "(if \<not> ff \<and> e_dirty (cacheEntries c ! i) then map_option snd (NOR_cache_flush ops m t s) else Some s) = Some s1"
    "nor_bounded ops med ok c1 s1" "same_geometry c c1" "flushMutex s1 = flushMutex s"
  proof (cases "\<not> ff \<and> e_dirty (cacheEntries c ! i)")
    case True
    then show ?thesis using bounded_flush [OF assms, of m] that by fastforce
  next
    case False
    have "(if \<not> ff \<and> e_dirty (cacheEntries c ! i) then map_option snd (NOR_cache_flush ops m t s) else Some s) = Some s"
      using False by auto
    then show ?thesis using assms(1) same_geometry_refl that by blast
  qed
  have g: "endOfPartition c1 = endOfPartition c" "sectorsPerPage c1 = sectorsPerPage c" "sectorSize c1 = sectorSize c"
    "i < length (cacheEntries c1)"
    using s1(3) i by (simp_all add: same_geometry_def)
  have nb1: "the_cache s1 = Some c1" using s1(2) by (simp add: nor_bounded_def the_cache_def)
  let ?k = "endOfPartition c" and ?b = "page_base c (endOfPartition c)"
  have pb: "page_base c1 ?k = ?b" using g by (simp add: page_base_def)
  have "?b \<noteq> ?k" using N(6) by (metis page_base_def dvd_triv_right)
  then have b: "?b \<le> ?k" "?k < ?b + sectorsPerPage c" "?b < ?k"
    using page_base_bounds [OF N(2), of ?k] by linarith+
  then have run: "page_run (sectorsPerPage c) ?k ?b (?k - ?b)" by (simp add: page_run_def page_base_def)
  have next_page: "?k < u32_plus ?b (sectorsPerPage c)"
    using b N(3) by simp
  have count: "u32_minus ?k ?b = ?k - ?b" using b N(3) by (simp add: u32_minus_eq)
  have w: "disc_works ops med ok (sectorsPerPage c) (sectorSize c) ?k" "ok (disc s1)" using s1(2) g by (simp_all add: nor_bounded_def)
  obtain d where d: "readSectors ops ?b (?k - ?b) (disc s1) = Some (True, concat (map (med (disc s1)) [?b..<?k]), d)" "ok d"
    using disc_worksD(2) [OF w run] b(1) by auto
  let ?bs = "concat (map (med (disc s1)) [?b..<?k])"
  have len: "length ?bs = (?k - ?b) * sectorSize c"
    using disc_worksD(1) [OF w] by (simp add: length_concat o_def sum_list_triv)
  have e1: "length (e_cache (cacheEntries c1 ! i)) = sectorsPerPage c * sectorSize c"
    using s1(2) g by (simp add: nor_bounded_def bounded_entry_def)
  have fit: "length ?bs \<le> length (e_cache (cacheEntries c1 ! i))"
    unfolding len e1 using b by (intro mult_le_mono1) simp
  define page where "page = ?bs @ drop (length ?bs) (e_cache (cacheEntries c1 ! i))"
  have pg: "memcpy (e_cache (cacheEntries c1 ! i)) 0 ?bs 0 (int (length ?bs)) = Some page"
    using memcpy_to_start [of 0 "int (length ?bs)" ?bs "e_cache (cacheEntries c1 ! i)"] fit by (simp add: page_def)
  have page_len: "length page = sectorsPerPage c * sectorSize c" using fit e1 by (simp only: page_def length_append length_drop)
  let ?a = "u32_plus (accessCounter s1) 1"
  let ?f = "\<lambda>e. e\<lparr>e_sector := ?b, e_count := ?k - ?b, last_access := ?a, e_cache := page\<rparr>"
  have l: "load_page ops i ?k s1 = Some (Some i, put_entry i ?f c1 (s1\<lparr>disc := d, accessCounter := ?a\<rparr>))"
    unfolding load_page_def
    using nb1 g next_page count d(1) pg pb by (simp add: page_base_def [symmetric] Let_def accessTime_def)
  have "bounded_entry c1 (?f (cacheEntries c1 ! i))"
    using b page_len g N(3) run by (simp add: bounded_entry_def CACHE_FREE_def)
  then have nb: "nor_bounded ops med ok (set_page c1 i (?f (cacheEntries c1 ! i)))
      (put_entry i ?f c1 (s1\<lparr>disc := d, accessCounter := ?a\<rparr>))"
    by (rule bounded_update [OF s1(2) _ d(2)])
  have "NOR_cache_getPage ops m t ?k s = Some (Some i, put_entry i ?f c1 (s1\<lparr>disc := d, accessCounter := ?a\<rparr>))"
    using sp N(1) i s1(1) l by (simp add: NOR_cache_getPage_def)
  then show ?thesis
    using nb s1(3,4) g b
    by (intro exI [of _ i] exI [of _ "set_page c1 i (?f (cacheEntries c1 ! i))"]
        exI [of _ "put_entry i ?f c1 (s1\<lparr>disc := d, accessCounter := ?a\<rparr>)"])
      (simp add: same_geometry_def put_entry_def)
qed

text \<open>\<open>j\<close> passes of the loop that reads.\<close>

fun read_passes ::
  "'d DISC_INTERFACE \<Rightarrow> bool \<Rightarrow> nat \<Rightarrow> nat \<Rightarrow> nat \<times> nat \<times> block \<times> 'd nor \<Rightarrow> (nat \<times> nat \<times> block \<times> 'd nor) option" where
  "read_passes ops m t 0 st = Some st"
| "read_passes ops m t (Suc j) (sector, n, dest, s) =
     do { r \<leftarrow> read_pass ops m t sector n dest s;
          case r of Inl _ \<Rightarrow> None | Inr st \<Rightarrow> read_passes ops m t j st }"

lemma last_sector_pass:
  assumes "nor_bounded ops med ok c s" "lockable t (flushMutex s)" "endOfPartition c = k"
  shows "\<exists>c' s'. read_pass ops m t k n dest s = Some (Inr (k, n, dest, s')) \<and> nor_bounded ops med ok c' s'
    \<and> endOfPartition c' = k \<and> lockable t (flushMutex s')"
proof -
  obtain i c' s' where g: "NOR_cache_getPage ops m t k s = Some (Some i, s')" "nor_bounded ops med ok c' s'"
    "same_geometry c c'" "flushMutex s' = flushMutex s" "i < length (cacheEntries c')"
    "e_sector (cacheEntries c' ! i) + e_count (cacheEntries c' ! i) = k"
    using last_sector_page [OF assms(1,2)] assms(3) by blast
  let ?e = "cacheEntries c' ! i"
  have nb: "bounded_entry c' ?e" "the_cache s' = Some c'" "k < 2 ^ 32"
    using g(2,3,5) assms(3) by (simp_all add: nor_bounded_def the_cache_def same_geometry_def)
  have sec: "u32_minus k (e_sector ?e) = e_count ?e" "u32_minus (e_count ?e) (e_count ?e) = 0"
    using g(6) nb(3) by (simp_all add: u32_minus_eq)
  have "e_count ?e * sectorSize c' \<le> length (e_cache ?e)" using nb(1) by (simp add: bounded_entry_def)
  then have "peek (e_cache ?e) (int (e_count ?e * sectorSize c')) (int (0 * sectorSize c')) = Some []"
    by (simp add: peek_def flip: of_nat_mult)
  then have "read_pass ops m t k n dest s = Some (Inr (k, n, dest, s'))"
    using g(1) nb(2,3) sec by (simp add: read_pass_def Let_def)
  then show ?thesis using g(2-4) assms(2,3) by (auto simp: same_geometry_def)
qed

lemma last_sector_passes:
  "nor_bounded ops med ok c s \<Longrightarrow> lockable t (flushMutex s) \<Longrightarrow> endOfPartition c = k \<Longrightarrow>
     \<exists>s'. read_passes ops m t j (k, n, dest, s) = Some (k, n, dest, s')"
proof (induction j arbitrary: c s)
  case (Suc j)
  obtain c' s' where p: "read_pass ops m t k n dest s = Some (Inr (k, n, dest, s'))" "nor_bounded ops med ok c' s'"
    "endOfPartition c' = k" "lockable t (flushMutex s')"
    using last_sector_pass [OF Suc.prems] by blast
  then show ?case using Suc.IH [OF p(2,4,3)] by auto
qed auto

lemma last_sector_never:
  assumes "nor_bounded ops med ok c s" "lockable t (flushMutex s)" "endOfPartition c = k" "0 < n"
  shows "read_sectors ops m t k n dest s = None"
proof -
  have "\<forall>c. nor_bounded ops med ok c s \<longrightarrow> lockable t (flushMutex s) \<longrightarrow> endOfPartition c = k \<longrightarrow> 0 < n \<longrightarrow> False"
    if "read_sectors ops m t k n dest s = Some y" for y
    using that
  proof (induction rule: read_sectors.raw_induct [rotated 1, consumes 1])
    case (1 rd ops m t k n dest s y)
    show ?case
    proof (intro allI impI)
      fix c
      assume a: "nor_bounded ops med ok c s" "lockable t (flushMutex s)" "endOfPartition c = k" "0 < n"
      then obtain c' s' where p: "read_pass ops m t k n dest s = Some (Inr (k, n, dest, s'))" "nor_bounded ops med ok c' s'"
        "endOfPartition c' = k" "lockable t (flushMutex s')"
        using last_sector_pass by blast
      then show False using 1 a(4) by (cases y) fastforce
    qed
  qed
  then show ?thesis using assms by (cases "read_sectors ops m t k n dest s") blast+
qed

end
