(* ===== verification/Fat_NorDrv.thy ===== *)
theory Fat_NorDrv
  imports Fat_NorRw
begin

text \<open>
  The driver of the NOR flash for the FAT library, \<open>sdk/share/fat/nor/nordrv_f.c\<close>. The chip is a
  parameter here: \<open>chipRead\<close> and \<open>chipWrite\<close> return 0 for success, and the attitudes are its geometry. The
  locale \<open>sector_store\<close> is what the FAT library relies on; the driver with its cache provides it on a
  chip whose pages work, and the chip of \<open>nor.c\<close> is one of them (theory \<open>Fat_NorChip\<close>). Without the
  cache the driver hands the sectors to the chip as they come, whose write erases the rest of the blocks.
\<close>

record 'd nor_chip =
  chipRead :: "nat \<Rightarrow> nat \<Rightarrow> 'd \<Rightarrow> (nat \<times> block \<times> 'd) option"
  chipWrite :: "nat \<Rightarrow> block \<Rightarrow> 'd \<Rightarrow> (nat \<times> 'd) option"
  NOR_ATTITUDE_PAGE_SIZE :: nat
  NOR_ATTITUDE_PAGE_PER_SECTOR :: nat
  NOR_ATTITUDE_SECTOR_PER_BLOCK :: nat
  NOR_ATTITUDE_BLOCK_SIZE :: nat

record NOR_CONTEXT =
  reservrdFatSectors :: nat
  pageSize :: nat
  pagesPerSector :: nat
  sectorsPerBlock :: nat
  blockSize :: nat
  fatSectorSize :: nat
  blockSizeInBytes :: nat
  fatSectorsPerBlock :: nat

abbreviation u32_times :: "nat \<Rightarrow> nat \<Rightarrow> nat" where
  "u32_times a b \<equiv> (a * b) mod 2 ^ 32"

definition nor_readSectors :: "'d nor_chip \<Rightarrow> NOR_CONTEXT \<Rightarrow> nat \<Rightarrow> nat \<Rightarrow> 'd \<Rightarrow> (bool \<times> block \<times> 'd) option" where
  "nor_readSectors chip x sector numSectors d =
     do { (norResult, bs, d) \<leftarrow> chipRead chip (u32_times (reservrdFatSectors x + sector) (fatSectorSize x))
            (u32_times numSectors (fatSectorSize x)) d;
          Some (norResult = 0, bs, d) }"

definition nor_writeSectors :: "'d nor_chip \<Rightarrow> NOR_CONTEXT \<Rightarrow> nat \<Rightarrow> nat \<Rightarrow> block \<Rightarrow> 'd \<Rightarrow> (bool \<times> 'd) option" where
  "nor_writeSectors chip x sector numSectors bs d =
     do { bs \<leftarrow> peek bs 0 (int (u32_times numSectors (fatSectorSize x)));
          (norResult, d) \<leftarrow> chipWrite chip (u32_times (reservrdFatSectors x + sector) (fatSectorSize x)) bs d;
          Some (norResult = 0, d) }"

definition discInterface :: "'d nor_chip \<Rightarrow> NOR_CONTEXT \<Rightarrow> 'd DISC_INTERFACE" where
  "discInterface chip x = \<lparr>readSectors = nor_readSectors chip x, writeSectors = nor_writeSectors chip x\<rparr>"

definition iteFatNorFlush :: "'d nor_chip \<Rightarrow> NOR_CONTEXT \<Rightarrow> bool \<Rightarrow> nat \<Rightarrow> 'd nor \<Rightarrow> 'd nor option" where
  "iteFatNorFlush chip x mem_ok t s =
     (if norCache s \<noteq> CacheNull then map_option snd (NOR_cache_flush (discInterface chip x) mem_ok t s) else Some s)"

definition nor_readmultiplesector ::
  "'d nor_chip \<Rightarrow> NOR_CONTEXT \<Rightarrow> bool \<Rightarrow> nat \<Rightarrow> nat \<Rightarrow> nat \<Rightarrow> 'd nor \<Rightarrow> (int \<times> block \<times> 'd nor) option" where
  "nor_readmultiplesector chip x mem_ok t sector cnt s =
     (if norCache s \<noteq> CacheNull
      then do { (ok, bs, s) \<leftarrow> NOR_cache_readSectors (discInterface chip x) mem_ok t sector cnt s;
                Some (if ok then 0 else 1, bs, s) }
      else do { (ok, bs, d) \<leftarrow> nor_readSectors chip x sector cnt (disc s);
                Some (if ok then 0 else 1, bs, s\<lparr>disc := d\<rparr>) })"

definition nor_readsector ::
  "'d nor_chip \<Rightarrow> NOR_CONTEXT \<Rightarrow> bool \<Rightarrow> nat \<Rightarrow> nat \<Rightarrow> 'd nor \<Rightarrow> (int \<times> block \<times> 'd nor) option" where
  "nor_readsector chip x mem_ok t sector s = nor_readmultiplesector chip x mem_ok t sector 1 s"

definition nor_writemultiplesector ::
  "'d nor_chip \<Rightarrow> NOR_CONTEXT \<Rightarrow> bool \<Rightarrow> nat \<Rightarrow> block \<Rightarrow> nat \<Rightarrow> nat \<Rightarrow> 'd nor \<Rightarrow> (int \<times> 'd nor) option" where
  "nor_writemultiplesector chip x mem_ok t data sector cnt s =
     (if norCache s \<noteq> CacheNull
      then do { (ok, s) \<leftarrow> NOR_cache_writeSectors (discInterface chip x) mem_ok t sector cnt data s;
                Some (if ok then 0 else 1, s) }
      else do { (ok, d) \<leftarrow> nor_writeSectors chip x sector cnt data (disc s);
                Some (if ok then 0 else 1, s\<lparr>disc := d\<rparr>) })"

definition nor_writesector ::
  "'d nor_chip \<Rightarrow> NOR_CONTEXT \<Rightarrow> bool \<Rightarrow> nat \<Rightarrow> block \<Rightarrow> nat \<Rightarrow> 'd nor \<Rightarrow> (int \<times> 'd nor) option" where
  "nor_writesector chip x mem_ok t data sector s = nor_writemultiplesector chip x mem_ok t data sector 1 s"

text \<open>The bytes in a sector and the number of sectors.\<close>

definition nor_getphy :: "NOR_CONTEXT \<Rightarrow> nat \<times> nat" where
  "nor_getphy x = (fatSectorSize x mod 2 ^ 16,
     u32_minus (u32_times (blockSize x) (fatSectorsPerBlock x)) (reservrdFatSectors x))"

definition nor_release :: "'d nor_chip \<Rightarrow> NOR_CONTEXT \<Rightarrow> bool \<Rightarrow> nat \<Rightarrow> 'd nor \<Rightarrow> 'd nor option" where
  "nor_release chip x mem_ok t s =
     do { s \<leftarrow> (if norCache s \<noteq> CacheNull then NOR_cache_destructor (discInterface chip x) mem_ok t s else Some s);
          (_, m) \<leftarrow> pthread_mutex_lock mem_ok t (flushMutex s);
          (_, m) \<leftarrow> pthread_mutex_unlock t m;
          let s = s\<lparr>CacheValidFlush := False, flushMutex := m\<rparr>;
          if m \<noteq> MutexNull
          then do { (_, m) \<leftarrow> pthread_mutex_destroy m; Some (s\<lparr>flushMutex := m\<rparr>) }
          else Some s }"

text \<open>The geometry of the chip in FAT sectors; without bytes in a block the code divides by zero.\<close>

definition nor_context :: "'d nor_chip \<Rightarrow> nat \<Rightarrow> NOR_CONTEXT option" where
  "nor_context chip reserved =
     (let ps = NOR_ATTITUDE_PAGE_SIZE chip; pps = NOR_ATTITUDE_PAGE_PER_SECTOR chip;
          spb = NOR_ATTITUDE_SECTOR_PER_BLOCK chip;
          fss = (if ps > 512 then ps else 512);
          bytes = u32_times (u32_times ps pps) spb;
          fspb = bytes div fss
      in if bytes = 0 then None
         else Some \<lparr>reservrdFatSectors = u32_times (reserved div bytes) fspb, pageSize = ps, pagesPerSector = pps,
           sectorsPerBlock = spb, blockSize = NOR_ATTITUDE_BLOCK_SIZE chip, fatSectorSize = fss,
           blockSizeInBytes = bytes, fatSectorsPerBlock = fspb\<rparr>)"

definition nor_initfunc ::
  "'d nor_chip \<Rightarrow> bool \<Rightarrow> bool \<Rightarrow> (nat \<Rightarrow> block) \<Rightarrow> nat \<Rightarrow> nat \<Rightarrow> nat \<Rightarrow> 'd nor
     \<Rightarrow> ((NOR_CONTEXT option) \<times> 'd nor) option" where
  "nor_initfunc chip mutex_ok mem_ok fresh reserved cacheSize t s =
     (let (r, m) = pthread_mutex_init mutex_ok None (flushMutex s)
      in if r \<noteq> 0 then Some (None, s\<lparr>flushMutex := MutexNull\<rparr>)
         else do { x \<leftarrow> nor_context chip reserved;
                   let s = s\<lparr>flushMutex := m\<rparr>;
                   let s = (if cacheSize > 0
                     then s\<lparr>norCache := NOR_cache_constructor mem_ok fresh (cacheSize div blockSizeInBytes x)
                       (fatSectorsPerBlock x)
                       (u32_minus (u32_minus (u32_times (blockSize x) (fatSectorsPerBlock x)) (reservrdFatSectors x)) 1)
                       (fatSectorSize x)\<rparr>
                     else s);
                   (_, m) \<leftarrow> pthread_mutex_lock mutex_ok t (flushMutex s);
                   (_, m) \<leftarrow> pthread_mutex_unlock t m;
                   Some (Some x, s\<lparr>CacheValidFlush := True, flushMutex := m\<rparr>) })"

subsection \<open>What the FAT library relies on\<close>

locale sector_store =
  fixes rd :: "nat \<Rightarrow> nat \<Rightarrow> 's \<Rightarrow> (int \<times> block \<times> 's) option"
    and wr :: "block \<Rightarrow> nat \<Rightarrow> nat \<Rightarrow> 's \<Rightarrow> (int \<times> 's) option"
    and sects :: "'s \<Rightarrow> nat \<Rightarrow> block"
    and good :: "'s \<Rightarrow> bool"
    and sz :: nat and lim :: nat
  assumes rd_ok: "good s \<Longrightarrow> a + n \<le> lim \<Longrightarrow>
      \<exists>s'. rd a n s = Some (0, concat (map (sects s) [a..<a + n]), s') \<and> good s' \<and> sects s' = sects s"
    and wr_ok: "good s \<Longrightarrow> a + n \<le> lim \<Longrightarrow> length bs = n * sz \<Longrightarrow>
      \<exists>s'. wr bs a n s = Some (0, s') \<and> good s' \<and> sects s' = overlay sz a n bs (sects s)"
begin

text \<open>What is written is read back, and what was elsewhere still is.\<close>

lemma write_read:
  assumes "good s" "a + n \<le> lim" "length bs = n * sz" "wr bs a n s = Some (r, s')"
  shows "r = 0 \<and> (\<exists>s''. rd a n s' = Some (0, bs, s'') \<and> good s'' \<and> sects s'' = sects s')"
proof -
  have w: "r = 0" "good s'" "sects s' = overlay sz a n bs (sects s)" using wr_ok [OF assms(1-3)] assms(4) by auto
  have "map (sects s') [a..<a + n] = map (sect sz bs) [0..<n]"
    by (intro nth_equalityI) (simp_all add: w(3) overlay_def)
  then have "concat (map (sects s') [a..<a + n]) = bs" using concat_sects [OF assms(3)] by simp
  then show ?thesis using rd_ok [OF w(2) assms(2)] w(1) by metis
qed

lemma write_keeps:
  assumes "good s" "a + n \<le> lim" "length bs = n * sz" "wr bs a n s = Some (r, s')" "b + m \<le> lim" "b + m \<le> a \<or> a + n \<le> b"
  shows "\<exists>s1 s2 out. rd b m s = Some (0, out, s1) \<and> rd b m s' = Some (0, out, s2)"
proof -
  have w: "good s'" "sects s' = overlay sz a n bs (sects s)" using wr_ok [OF assms(1-3)] assms(4) by auto
  have "map (sects s') [b..<b + m] = map (sects s) [b..<b + m]"
    using assms(6) by (auto simp: w(2) overlay_def)
  then show ?thesis using rd_ok [OF assms(1,5)] rd_ok [OF w(1) assms(5)] by metis
qed

end

definition cached_store ::
  "'d nor_chip \<Rightarrow> NOR_CONTEXT \<Rightarrow> ('d \<Rightarrow> nat \<Rightarrow> block) \<Rightarrow> ('d \<Rightarrow> bool) \<Rightarrow> nat \<Rightarrow> nat \<Rightarrow> nat \<Rightarrow> 'd nor \<Rightarrow> bool" where
  "cached_store chip x med ok t sz lim s \<longleftrightarrow> lockable t (flushMutex s)
     \<and> (\<exists>c. nor_ok (discInterface chip x) med ok c s \<and> sectorSize c = sz \<and> endOfPartition c = lim)"

interpretation cached: sector_store "nor_readmultiplesector chip x m t" "nor_writemultiplesector chip x m t"
  "contents med" "cached_store chip x med ok t sz lim" sz lim
proof unfold_locales
  fix s :: "'a nor" and a n
  assume "cached_store chip x med ok t sz lim s" "a + n \<le> lim"
  then obtain c where c: "nor_ok (discInterface chip x) med ok c s" "sectorSize c = sz" "endOfPartition c = lim"
    "lockable t (flushMutex s)" "a + n \<le> endOfPartition c"
    by (auto simp: cached_store_def)
  then show "\<exists>s'. nor_readmultiplesector chip x m t a n s = Some (0, concat (map (contents med s) [a..<a + n]), s')
      \<and> cached_store chip x med ok t sz lim s' \<and> contents med s' = contents med s"
    using read_sectors_ok [OF c(1,4,5), of m "[]"] nor_okD(1) [OF c(1)]
    by (fastforce simp: nor_readmultiplesector_def NOR_cache_readSectors_def cached_store_def steady_def same_geometry_def)
next
  fix s :: "'a nor" and a n and bs :: block
  assume "cached_store chip x med ok t sz lim s" "a + n \<le> lim" "length bs = n * sz"
  then obtain c where c: "nor_ok (discInterface chip x) med ok c s" "sectorSize c = sz" "endOfPartition c = lim"
    "lockable t (flushMutex s)" "a + n \<le> endOfPartition c" "length bs = n * sectorSize c"
    by (auto simp: cached_store_def)
  then show "\<exists>s'. nor_writemultiplesector chip x m t bs a n s = Some (0, s')
      \<and> cached_store chip x med ok t sz lim s' \<and> contents med s' = overlay sz a n bs (contents med s)"
    using write_sectors_ok [OF c(1,4,5,6), of m] nor_okD(1) [OF c(1)]
    by (fastforce simp: nor_writemultiplesector_def NOR_cache_writeSectors_def cached_store_def same_geometry_def)
qed

subsection \<open>Start, flush and release\<close>

text \<open>The sectors that the driver reports to the FAT library.\<close>

definition nor_sectors :: "NOR_CONTEXT \<Rightarrow> nat" where
  "nor_sectors x = snd (nor_getphy x)"

lemma nor_init_ok:
  assumes "nor_initfunc chip True True fresh reserved cacheSize t s = Some (Some x, s')"
    "blockSizeInBytes x \<le> cacheSize" "32 \<le> fatSectorsPerBlock x" "0 < nor_sectors x" "nor_sectors x + fatSectorsPerBlock x < 2 ^ 32"
    "\<And>i. length (fresh i) = fatSectorsPerBlock x * fatSectorSize x"
    "disc_works (discInterface chip x) med ok (fatSectorsPerBlock x) (fatSectorSize x) (nor_sectors x - 1)" "ok (disc s)"
  shows "cached_store chip x med ok t (fatSectorSize x) (nor_sectors x - 1) s'" "contents med s' = med (disc s)"
    "disc s' = disc s" "nor_context chip reserved = Some x"
    "\<exists>c. nor_ok (discInterface chip x) med ok c s' \<and> endOfPartition c = nor_sectors x - 1
       \<and> sectorsPerPage c = fatSectorsPerBlock x \<and> lockable t (flushMutex s')"
proof -
  obtain m where m: "pthread_mutex_init True None (flushMutex s) = (0, m)" by (simp add: pthread_mutex_init_def)
  have lk: "lockable t m" using lockable_init [OF m] .
  obtain m' where m': "pthread_mutex_lock True t m = Some (0, m')" "pthread_mutex_unlock t m' = Some (0, m)"
    using mtx.section_restores [OF lk] by blast
  show ctx: "nor_context chip reserved = Some x"
    using assms(1) m m' by (cases "nor_context chip reserved") (simp_all add: nor_initfunc_def Let_def split: if_splits)
  then have x: "nor_context chip reserved = Some x" "0 < blockSizeInBytes x" "0 < fatSectorSize x"
    by (auto simp: nor_context_def Let_def split: if_split_asm)
  have T: "u32_minus (u32_minus (u32_times (blockSize x) (fatSectorsPerBlock x)) (reservrdFatSectors x)) 1 = nor_sectors x - 1"
    using assms(4,5) by (simp add: nor_sectors_def nor_getphy_def u32_minus_eq)
  have n: "0 < cacheSize div blockSizeInBytes x" "0 < cacheSize"
    using assms(2) x(2) by (simp_all add: div_greater_zero_iff)
  let ?n = "if cacheSize div blockSizeInBytes x < 4 then 4 else cacheSize div blockSizeInBytes x"
  define c where "c = \<lparr>endOfPartition = nor_sectors x - 1, sectorsPerPage = fatSectorsPerBlock x, sectorSize = fatSectorSize x,
    cacheEntries = map (\<lambda>i. \<lparr>e_sector = CACHE_FREE, e_count = 0, last_access = 0, e_dirty = False, e_cache = fresh i\<rparr>) [0..<?n]\<rparr>"
  have c: "NOR_cache_constructor True fresh (cacheSize div blockSizeInBytes x) (fatSectorsPerBlock x) (nor_sectors x - 1)
      (fatSectorSize x) = CacheAt c"
    using n(1) assms(3) by (simp add: NOR_cache_constructor_def c_def Let_def)
  have s': "s' = s\<lparr>norCache := CacheAt c, CacheValidFlush := True, flushMutex := m\<rparr>"
    using assms(1) m m' x(1) n(2) T c by (simp add: nor_initfunc_def Let_def)
  then show "disc s' = disc s" by simp
  have ne: "cacheEntries c \<noteq> []" by (simp add: c_def)
  have free: "\<not> covers (cacheEntries c ! i) k" "page_ok c (med (disc s)) (cacheEntries c ! i)"
    "e_sector (cacheEntries c ! i) = CACHE_FREE" if "i < length (cacheEntries c)" for i k
    using that assms(6) by (simp_all add: c_def covers_def page_ok_def CACHE_FREE_def)
  have "cache_inv c (med (disc s))"
    unfolding cache_inv_def
  proof (intro conjI)
    show "\<forall>i < length (cacheEntries c). page_ok c (med (disc s)) (cacheEntries c ! i)" using free(2) by blast
    show "\<forall>i < length (cacheEntries c). \<forall>j < length (cacheEntries c).
        e_sector (cacheEntries c ! i) = e_sector (cacheEntries c ! j) \<longrightarrow>
        e_sector (cacheEntries c ! i) \<noteq> CACHE_FREE \<longrightarrow> i = j" using free(3) by blast
  qed (use ne assms(3-5) x(3) in \<open>simp_all add: c_def\<close>)
  then have nok: "nor_ok (discInterface chip x) med ok c s'"
    using assms(3,7,8) by (simp add: nor_ok_def s' c_def)
  then show "\<exists>c. nor_ok (discInterface chip x) med ok c s' \<and> endOfPartition c = nor_sectors x - 1
       \<and> sectorsPerPage c = fatSectorsPerBlock x \<and> lockable t (flushMutex s')"
    using lk by (intro exI [of _ c]) (simp add: c_def s')
  from nok show "cached_store chip x med ok t (fatSectorSize x) (nor_sectors x - 1) s'"
    using lk by (auto simp: cached_store_def s' c_def)
  show "contents med s' = med (disc s)"
    using view_disc [of c] free(1) by (auto simp: contents_def s')
qed

lemma nor_flush_ok:
  assumes "cached_store chip x med ok t sz lim s"
  shows "\<exists>s'. iteFatNorFlush chip x m t s = Some s' \<and> cached_store chip x med ok t sz lim s'
    \<and> contents med s' = contents med s \<and> med (disc s') = contents med s"
proof -
  obtain c where c: "nor_ok (discInterface chip x) med ok c s" "sectorSize c = sz" "endOfPartition c = lim" "lockable t (flushMutex s)"
    using assms by (auto simp: cached_store_def)
  obtain c' s' where f: "NOR_cache_flush (discInterface chip x) m t s = Some (None, s')"
    "steady (discInterface chip x) med ok c s c' s'" "dirty_pages c' = 0"
    using flush_ok [OF c(1,4)] by blast
  then have "contents med s' = med (disc s')" using clean_view by (fastforce simp: steady_def)
  then show ?thesis
    using f nor_okD(1) [OF c(1)] c(2-4)
    by (intro exI [of _ s']) (auto simp: iteFatNorFlush_def cached_store_def steady_def same_geometry_def)
qed

lemma nor_release_ok:
  assumes "cached_store chip x med ok t sz lim s"
  shows "\<exists>s'. nor_release chip x m t s = Some s' \<and> norCache s' = CacheFreed \<and> flushMutex s' = MutexFreed
    \<and> ok (disc s') \<and> med (disc s') = contents med s"
proof -
  obtain c where c: "nor_ok (discInterface chip x) med ok c s" "lockable t (flushMutex s)"
    using assms by (auto simp: cached_store_def)
  obtain c' s' where f: "NOR_cache_flush (discInterface chip x) m t s = Some (None, s')"
    "steady (discInterface chip x) med ok c s c' s'" "dirty_pages c' = 0"
    using flush_ok [OF c] by blast
  have ok': "nor_ok (discInterface chip x) med ok c' s'" and lk: "lockable t (flushMutex s')"
    and v: "contents med s' = contents med s"
    using f(2) c(2) by (simp_all add: steady_def)
  obtain mx where mx: "pthread_mutex_lock m t (flushMutex s') = Some (0, mx)" "pthread_mutex_unlock t mx = Some (0, flushMutex s')"
    using mtx.section_restores [OF lk] by blast
  obtain sem where "flushMutex s' = Mutex sem" using lk by (auto simp: lockable_def)
  then show ?thesis
    using f(1) mx nor_okD(1) [OF c(1)] nor_okD(4) [OF ok'] clean_view [OF ok' f(3)] v
    by (simp add: nor_release_def NOR_cache_destructor_def pthread_mutex_destroy_def)
qed

lemma nor_init_total:
  assumes "nor_context chip reserved = Some x"
  shows "\<exists>s'. nor_initfunc chip True mem_ok fresh reserved cacheSize t s = Some (Some x, s')"
proof -
  obtain m where m: "pthread_mutex_init True None (flushMutex s) = (0, m)" by (simp add: pthread_mutex_init_def)
  obtain m' where "pthread_mutex_lock True t m = Some (0, m')" "pthread_mutex_unlock t m' = Some (0, m)"
    using mtx.section_restores [OF lockable_init [OF m]] by blast
  then show ?thesis using assms m by (auto simp: nor_initfunc_def Let_def)
qed

end
