(* ===== verification/Fat_NorChip.thy ===== *)
theory Fat_NorChip
  imports Fat_NorDrv Nor_ChipProps
begin

text \<open>
  The FAT driver of \<open>nordrv_f.c\<close> on the flash driver of \<open>nor.c\<close>: the chip of \<open>Fat_NorDrv\<close> is made of \<open>NorRead\<close>,
  \<open>NorWrite\<close> and \<open>NorGetAttitude\<close>. \<open>NorWrite\<close> erases the blocks it writes to, so a run of sectors cannot be
  replaced without losing the rest of its blocks; the pages of the cache, though, are erase blocks, and the
  last page lacks one sector only, the last one of the device, which the cache never holds.
\<close>

definition nor_chip_of :: "(nat \<Rightarrow> block option) \<Rightarrow> 'c spi_bus \<Rightarrow> NOR_ADDR_CONTEXT \<Rightarrow> 'c nor_chip" where
  "nor_chip_of alloc bus nx = \<lparr>chipRead = NorRead bus nx, chipWrite = NorWrite alloc bus nx,
     NOR_ATTITUDE_PAGE_SIZE = bytesPerPage nx, NOR_ATTITUDE_PAGE_PER_SECTOR = pagesPerSector_N nx,
     NOR_ATTITUDE_SECTOR_PER_BLOCK = sectorsPerBlock_N nx, NOR_ATTITUDE_BLOCK_SIZE = totalBlocks nx\<rparr>"

text \<open>
  A flash for FAT: its erase blocks are whole numbers of FAT sectors, at least 32, and the reserved area
  leaves room behind it.
\<close>

definition fat_flash ::
  "(nat \<Rightarrow> block option) \<Rightarrow> 'c spi_bus \<Rightarrow> NOR_ADDR_CONTEXT \<Rightarrow> nat \<Rightarrow> 'c chip_view \<Rightarrow> nat \<Rightarrow> NOR_CONTEXT \<Rightarrow> bool" where
  "fat_flash alloc bus nx eb v reserved x \<longleftrightarrow> flash_chip bus nx eb v \<and> plain_geometry nx eb \<and> gives_buffers alloc eb
     \<and> bytesPerPage nx * pagesPerSector_N nx = eb \<and> reserved div eb < totalBlocks nx
     \<and> nor_context (nor_chip_of alloc bus nx) reserved = Some x
     \<and> fatSectorSize x dvd eb \<and> 32 \<le> fatSectorsPerBlock x"

lemma fat_flashD:
  assumes "fat_flash alloc bus nx eb v reserved x"
  shows "flash_chip bus nx eb v" "plain_geometry nx eb" "gives_buffers alloc eb" "0 < totalBlocks nx"
    "nor_context (nor_chip_of alloc bus nx) reserved = Some x" "32 \<le> fatSectorsPerBlock x"
    "fatSectorSize x * fatSectorsPerBlock x = eb" "blockSizeInBytes x = eb" "512 \<le> fatSectorSize x"
    "reservrdFatSectors x = reserved div eb * fatSectorsPerBlock x"
    "nor_sectors x = (totalBlocks nx - reserved div eb) * fatSectorsPerBlock x"
    "nor_sectors x + fatSectorsPerBlock x < 2 ^ 32" "0 < nor_sectors x"
    "\<not> fatSectorsPerBlock x dvd nor_sectors x - 1"
    "(reservrdFatSectors x + nor_sectors x) * fatSectorSize x = NorGetCapacity nx"
proof -
  note F = assms [unfolded fat_flash_def]
  show "flash_chip bus nx eb v" "plain_geometry nx eb" "gives_buffers alloc eb"
    "nor_context (nor_chip_of alloc bus nx) reserved = Some x" and P: "32 \<le> fatSectorsPerBlock x"
    using F by blast+
  have R: "reserved div eb < totalBlocks nx" using F by blast
  then show tb: "0 < totalBlocks nx" by simp
  note g = plain_geometryD [OF _ tb, of eb] and G = F [THEN conjunct2, THEN conjunct1]
  let ?fss = "fatSectorSize x" and ?p = "fatSectorsPerBlock x" and ?R = "reserved div eb"
  have bytes: "u32_times (u32_times (bytesPerPage nx) (pagesPerSector_N nx)) (sectorsPerBlock_N nx) = eb"
    using F g(2,4) [OF G] by simp
  define s where "s = (if bytesPerPage nx > 512 then bytesPerPage nx else 512)"
  have eb0: "eb \<noteq> 0" using g(3) [OF G] by simp
  have "nor_context (nor_chip_of alloc bus nx) reserved = Some \<lparr>reservrdFatSectors = u32_times ?R (eb div s), pageSize = bytesPerPage nx,
      pagesPerSector = pagesPerSector_N nx, sectorsPerBlock = sectorsPerBlock_N nx, blockSize = totalBlocks nx,
      fatSectorSize = s, blockSizeInBytes = eb, fatSectorsPerBlock = eb div s\<rparr>"
    unfolding nor_context_def nor_chip_of_def Let_def nor_chip.simps bytes if_not_P [OF eb0] s_def by (rule refl)
  then have x: "x = \<lparr>reservrdFatSectors = u32_times ?R (eb div s), pageSize = bytesPerPage nx,
      pagesPerSector = pagesPerSector_N nx, sectorsPerBlock = sectorsPerBlock_N nx, blockSize = totalBlocks nx,
      fatSectorSize = s, blockSizeInBytes = eb, fatSectorsPerBlock = eb div s\<rparr>"
    using F [THEN conjunct2, THEN conjunct2, THEN conjunct2, THEN conjunct2, THEN conjunct2, THEN conjunct1] by (simp only: option.inject)
  have "?fss dvd eb" using F by blast
  moreover have fss: "?p = eb div ?fss" "512 \<le> ?fss" "blockSizeInBytes x = eb" "blockSize x = totalBlocks nx"
    "reservrdFatSectors x = u32_times ?R ?p"
    unfolding x by (simp_all add: s_def)
  ultimately show eb: "?fss * ?p = eb" "blockSizeInBytes x = eb" "512 \<le> ?fss" by simp_all
  have cap: "eb * totalBlocks nx < 2 ^ 32" using G by (simp add: plain_geometry_def)
  have "512 * (?p * totalBlocks nx) \<le> ?fss * (?p * totalBlocks nx)" using eb(3) by (intro mult_le_mono1)
  moreover have "?fss * (?p * totalBlocks nx) = eb * totalBlocks nx" by (simp only: eb(1) [symmetric] mult.assoc)
  ultimately have pt: "512 * (?p * totalBlocks nx) < 2 ^ 32" using cap by linarith
  have "?R * ?p \<le> totalBlocks nx * ?p" using R by (intro mult_le_mono1) simp
  then have Rp: "?R * ?p < 2 ^ 32" using pt by (simp only: mult.commute [of _ ?p])
  then show res: "reservrdFatSectors x = ?R * ?p" using fss(5) by simp
  have sec: "u32_times (blockSize x) ?p = totalBlocks nx * ?p" using pt fss(4) by (simp add: mult.commute)
  have "u32_minus (totalBlocks nx * ?p) (?R * ?p) = totalBlocks nx * ?p - ?R * ?p"
    by (rule u32_minus_eq) (use pt R in \<open>simp_all add: mult.commute\<close>)
  then show ns: "nor_sectors x = (totalBlocks nx - ?R) * ?p"
    unfolding nor_sectors_def nor_getphy_def sec res by (simp add: diff_mult_distrib)
  have "(totalBlocks nx - ?R) * ?p \<le> totalBlocks nx * ?p" by (intro mult_le_mono1) simp
  moreover have "1 * ?p \<le> totalBlocks nx * ?p" using tb by (intro mult_le_mono1) simp
  ultimately show "nor_sectors x + ?p < 2 ^ 32" using ns pt by (simp only: mult.commute [of _ ?p])
  show pos: "0 < nor_sectors x" using ns R P by simp
  show "\<not> ?p dvd nor_sectors x - 1"
  proof
    assume d: "?p dvd nor_sectors x - 1"
    have "?p dvd nor_sectors x" using ns by simp
    then have "?p dvd nor_sectors x - (nor_sectors x - 1)" using d by (rule dvd_diff_nat)
    then show False using pos P by simp
  qed
  have "?R * ?p + (totalBlocks nx - ?R) * ?p = totalBlocks nx * ?p" using R by (simp flip: add_mult_distrib)
  then show "(reservrdFatSectors x + nor_sectors x) * ?fss = NorGetCapacity nx"
    using res ns eb(1) g(5) [OF G] by (simp add: mult.assoc mult.commute)
qed

text \<open>The FAT sectors of the flash; behind the sectors that the cache serves it shows nothing.\<close>

definition fat_sector :: "'c chip_view \<Rightarrow> NOR_CONTEXT \<Rightarrow> 'c \<Rightarrow> nat \<Rightarrow> block" where
  "fat_sector v x d k =
     (if k < nor_sectors x - 1
      then map (mem v d) [(reservrdFatSectors x + k) * fatSectorSize x..<(reservrdFatSectors x + Suc k) * fatSectorSize x]
      else replicate (fatSectorSize x) 0)"

lemma length_fat_sector [simp]: "length (fat_sector v x d k) = fatSectorSize x"
  by (simp add: fat_sector_def)

lemma concat_runs: "concat (map (\<lambda>k. map f [k * s..<Suc k * s]) [a..<a + n]) = map f [a * s..<(a + n) * s]"
proof (induction n)
  case (Suc n)
  have "[a * s..<(a + Suc n) * s] = [a * s..<(a + n) * s] @ [(a + n) * s..<Suc (a + n) * s]"
    using upt_add_eq_append [of "a * s" "(a + n) * s" s] by (simp add: algebra_simps)
  then show ?case using Suc by simp
qed simp

lemma fat_sectors_run:
  assumes "a + n \<le> nor_sectors x - 1"
  shows "concat (map (fat_sector v x d) [a..<a + n])
    = map (mem v d) [(reservrdFatSectors x + a) * fatSectorSize x..<(reservrdFatSectors x + a) * fatSectorSize x + n * fatSectorSize x]"
proof -
  let ?r = "reservrdFatSectors x" and ?s = "fatSectorSize x"
  have "map (fat_sector v x d) [a..<a + n] = map (\<lambda>k. map (mem v d) [k * ?s..<Suc k * ?s]) [?r + a..<?r + a + n]"
    by (rule nth_equalityI) (use assms in \<open>simp_all add: fat_sector_def algebra_simps\<close>)
  then show ?thesis using concat_runs [of "mem v d" ?s "?r + a" n] by (simp add: add_mult_distrib)
qed

text \<open>The address of a page.\<close>

lemma page_address:
  assumes "fat_flash alloc bus nx eb v reserved x" "page_run (fatSectorsPerBlock x) (nor_sectors x - 1) a n"
  defines "A \<equiv> (reservrdFatSectors x + a) * fatSectorSize x"
  shows "u32_times (reservrdFatSectors x + a) (fatSectorSize x) = A" "u32_times n (fatSectorSize x) = n * fatSectorSize x"
    "eb dvd A" "n * fatSectorSize x \<le> eb" "A + n * fatSectorSize x \<le> NorGetCapacity nx" "0 < n"
    "a + n \<le> nor_sectors x - 1"
    "n * fatSectorSize x = eb \<or> a + n = nor_sectors x - 1"
proof -
  note D = fat_flashD [OF assms(1)] and R = assms(2) [unfolded page_run_def]
  let ?s = "fatSectorSize x" and ?p = "fatSectorsPerBlock x"
  show n: "0 < n" "a + n \<le> nor_sectors x - 1" using R D(6) by auto
  then have "(reservrdFatSectors x + a + n) * ?s \<le> (reservrdFatSectors x + nor_sectors x) * ?s"
    by (intro mult_le_mono1) simp
  then show le: "A + n * ?s \<le> NorGetCapacity nx" unfolding D(15) by (simp add: A_def add_mult_distrib)
  have lt: "NorGetCapacity nx < 2 ^ 32" using plain_geometryD(6) [OF D(2,4)] .
  show "u32_times (reservrdFatSectors x + a) ?s = A" "u32_times n ?s = n * ?s"
    using le lt by (simp_all add: A_def)
  have "?p dvd reservrdFatSectors x + a" using R D(10) by simp
  then show "eb dvd A" unfolding A_def D(7) [symmetric] by (simp add: mult.commute mult_dvd_mono)
  have "n * ?s \<le> ?p * ?s" using R by (intro mult_le_mono1) simp
  then show "n * ?s \<le> eb" using D(7) by (simp add: mult.commute)
  have "n = ?p \<or> n = nor_sectors x - 1 - a" using R by linarith
  then show "n * ?s = eb \<or> a + n = nor_sectors x - 1" using D(7) R by (auto simp: mult.commute)
qed

lemma page_overwritten:
  assumes F: "fat_flash alloc bus nx eb v reserved x" and R: "page_run (fatSectorsPerBlock x) (nor_sectors x - 1) a n"
    and l: "length bs = n * fatSectorSize x"
    and m: "mem v d' = written eb ((reservrdFatSectors x + a) * fatSectorSize x) bs (mem v d)"
  shows "fat_sector v x d' k
    = (if a \<le> k \<and> k < a + n then sect (fatSectorSize x) bs (k - a) else fat_sector v x d k)"
proof (cases "k < nor_sectors x - 1")
  case False
  then show ?thesis using page_address(7) [OF F R] by (simp add: fat_sector_def)
next
  case True
  note D = fat_flashD [OF F] and P = page_address [OF F R]
  let ?s = "fatSectorSize x" and ?r = "reservrdFatSectors x"
  define A where "A = (?r + a) * ?s"
  note P = P [folded A_def]
  have eb: "0 < eb" using plain_geometryD(3) [OF D(2,4)] by simp
  have ends: "(?r + Suc k) * ?s = (?r + k) * ?s + ?s" by (simp add: algebra_simps)
  show ?thesis
  proof (cases "a \<le> k \<and> k < a + n")
    case in_run: True
    then obtain j where j: "k = a + j" "j < n" using le_Suc_ex by fastforce
    have at: "(?r + k) * ?s = A + j * ?s" by (simp add: j A_def algebra_simps)
    have "(j + 1) * ?s \<le> n * ?s" using j by (intro mult_le_mono1) simp
    then have fit: "j * ?s + ?s \<le> length bs" using l by (simp add: add_mult_distrib)
    have "fat_sector v x d' k = map (written eb A bs (mem v d)) [A + j * ?s..<A + j * ?s + ?s]"
      using True m by (simp only: fat_sector_def if_True ends at A_def [symmetric])
    also have "\<dots> = sect ?s bs j"
      using fit by (intro nth_equalityI) (auto simp: sect_def written_def)
    finally show ?thesis using in_run j by simp
  next
    case out: False
    have keep: "written eb A bs (mem v d) i = mem v d i" if i: "(?r + k) * ?s \<le> i" "i < (?r + k) * ?s + ?s" for i
    proof (cases "k < a")
      case True
      then have "(?r + Suc k) * ?s \<le> A" unfolding A_def by (intro mult_le_mono1) simp
      then have "i < A" using i ends by simp
      then have "\<not> A \<le> i" "\<not> A \<le> i div eb * eb" using block_start [OF eb, of i] by linarith+
      then show ?thesis by (simp add: written_def)
    next
      case False
      then have ge: "a + n \<le> k" using out by simp
      then have "n * ?s = eb" using P(8) True by auto
      moreover have "(?r + a + n) * ?s \<le> (?r + k) * ?s" using ge by (intro mult_le_mono1) simp
      ultimately have le: "A + eb \<le> i" using i by (simp add: A_def add_mult_distrib)
      have "A + eb \<le> i div eb * eb"
      proof -
        have "(A + eb) div eb \<le> i div eb" using le by (rule div_le_mono)
        then have "(A + eb) div eb * eb \<le> i div eb * eb" by (rule mult_le_mono1)
        moreover have "eb dvd A + eb" using P(3) by simp
        ultimately show ?thesis by (simp only: dvd_div_mult_self)
      qed
      then show ?thesis using le l P(4) by (simp add: written_def)
    qed
    then have "fat_sector v x d' k = fat_sector v x d k"
      using True m ends by (simp add: fat_sector_def A_def)
    then show ?thesis using out by auto
  qed
qed

lemma nor_chip_works:
  assumes F: "fat_flash alloc bus nx eb v reserved x"
  shows "disc_works (discInterface (nor_chip_of alloc bus nx) x) (fat_sector v x) (\<lambda>d. busy v d = 0)
    (fatSectorsPerBlock x) (fatSectorSize x) (nor_sectors x - 1)"
  unfolding disc_works_def
proof (intro conjI allI impI)
  note D = fat_flashD [OF F]
  fix d a n
  assume d: "busy v d = 0" and R: "page_run (fatSectorsPerBlock x) (nor_sectors x - 1) a n"
  note P = page_address [OF F R]
  obtain d' where d': "NorRead bus nx ((reservrdFatSectors x + a) * fatSectorSize x) (n * fatSectorSize x) d
      = Some (0, map (mem v d) [(reservrdFatSectors x + a) * fatSectorSize x..<(reservrdFatSectors x + a) * fatSectorSize x
          + n * fatSectorSize x], d')" "busy v d' = 0" "mem v d' = mem v d"
    using NorRead_ok [OF D(1,2) d P(5) D(4)] by blast
  have "fat_sector v x d' = fat_sector v x d" using d'(3) by (simp add: fat_sector_def fun_eq_iff)
  then show "\<exists>d'. readSectors (discInterface (nor_chip_of alloc bus nx) x) a n d
        = Some (True, concat (map (fat_sector v x d) [a..<a + n]), d')
      \<and> busy v d' = 0 \<and> fat_sector v x d' = fat_sector v x d"
    using d'(1,2) P(1,2) fat_sectors_run [OF P(7), of v d]
    by (simp add: discInterface_def nor_readSectors_def nor_chip_of_def)
next
  note D = fat_flashD [OF F]
  fix d a n and bs :: block
  assume d: "busy v d = 0" and R: "page_run (fatSectorsPerBlock x) (nor_sectors x - 1) a n"
    and l: "length bs = n * fatSectorSize x"
  note P = page_address [OF F R]
  have "bs \<noteq> []" using l P(6) D(9) by auto
  then obtain d' where d': "NorWrite alloc bus nx ((reservrdFatSectors x + a) * fatSectorSize x) bs d = Some (0, d')"
    "busy v d' = 0" "mem v d' = written eb ((reservrdFatSectors x + a) * fatSectorSize x) bs (mem v d)"
    using NorWrite_ok [OF D(1-3) d] P(5) l by metis
  have "peek bs 0 (int (n * fatSectorSize x)) = Some bs" using l by (simp add: peek_def flip: of_nat_mult)
  then have "writeSectors (discInterface (nor_chip_of alloc bus nx) x) a n bs d = Some (True, d')"
    using d'(1) P(1,2) by (simp add: discInterface_def nor_writeSectors_def nor_chip_of_def)
  then show "\<exists>d'. writeSectors (discInterface (nor_chip_of alloc bus nx) x) a n bs d = Some (True, d') \<and> busy v d' = 0
      \<and> fat_sector v x d' = (\<lambda>k. if a \<le> k \<and> k < a + n then sect (fatSectorSize x) bs (k - a) else fat_sector v x d k)"
    using d'(2) page_overwritten [OF F R l d'(3)] by blast
qed simp

text \<open>The driver with its cache on this flash, and that it is so once started.\<close>

abbreviation fat_store ::
  "(nat \<Rightarrow> block option) \<Rightarrow> 'c spi_bus \<Rightarrow> NOR_ADDR_CONTEXT \<Rightarrow> 'c chip_view \<Rightarrow> NOR_CONTEXT \<Rightarrow> nat \<Rightarrow> 'c nor \<Rightarrow> bool" where
  "fat_store alloc bus nx v x t \<equiv> cached_store (nor_chip_of alloc bus nx) x (fat_sector v x) (\<lambda>d. busy v d = 0) t
     (fatSectorSize x) (nor_sectors x - 1)"

lemma fat_init_ok:
  assumes "fat_flash alloc bus nx eb v reserved x" "eb \<le> cacheSize" "\<And>i. length (fresh i) = eb" "busy v (disc s) = 0"
    "nor_initfunc (nor_chip_of alloc bus nx) True True fresh reserved cacheSize t s = Some (Some x, s')"
  shows "fat_store alloc bus nx v x t s'" "contents (fat_sector v x) s' = fat_sector v x (disc s)"
    "\<exists>c. nor_ok (discInterface (nor_chip_of alloc bus nx) x) (fat_sector v x) (\<lambda>d. busy v d = 0) c s'
       \<and> endOfPartition c = nor_sectors x - 1 \<and> sectorsPerPage c = fatSectorsPerBlock x \<and> lockable t (flushMutex s')"
proof -
  note D = fat_flashD [OF assms(1)]
  have "length (fresh i) = fatSectorsPerBlock x * fatSectorSize x" for i using assms(3) D(7) by (simp add: mult.commute)
  from nor_init_ok(1,2,5) [OF assms(5) _ D(6,13,12) this nor_chip_works [OF assms(1)] assms(4)] assms(2) D(8)
  show "fat_store alloc bus nx v x t s'" "contents (fat_sector v x) s' = fat_sector v x (disc s)"
    "\<exists>c. nor_ok (discInterface (nor_chip_of alloc bus nx) x) (fat_sector v x) (\<lambda>d. busy v d = 0) c s'
       \<and> endOfPartition c = nor_sectors x - 1 \<and> sectorsPerPage c = fatSectorsPerBlock x \<and> lockable t (flushMutex s')"
    by simp_all
qed

end
