(* ===== verification/Itc_Tree.thy ===== *)
theory Itc_Tree
  imports CB_Prelude
begin

text \<open>
  \<open>sdk/share/itc/itc_tree.c\<close> (and \<open>sdk/share/itu/itu_tree.c\<close>, its twin): trees whose nodes are
  linked by parent, sibling and child pointers. Nodes are addresses, a pointer that may be null
  is an \<open>option\<close>, and the three fields of all nodes are three maps. The loops that follow sibling
  pointers are partial: they do not end on a cyclic list and dereference null at its end, and
  both are \<open>None\<close>.
\<close>

type_synonym node = nat

record tree_heap =
  parent :: "node \<Rightarrow> node option"
  sibling :: "node \<Rightarrow> node option"
  child :: "node \<Rightarrow> node option"

subsection \<open>Operations\<close>

definition itcTreePushFront :: "tree_heap \<Rightarrow> node \<Rightarrow> node \<Rightarrow> tree_heap" where
  "itcTreePushFront h tree node =
     (let h1 = (case child h tree of
                  None \<Rightarrow> h\<lparr>sibling := (sibling h)(node := None)\<rparr>
                | Some c \<Rightarrow> h\<lparr>sibling := (sibling h)(node := Some c)\<rparr>);
          h2 = h1\<lparr>child := (child h1)(tree := Some node)\<rparr>
      in h2\<lparr>parent := (parent h2)(node := Some tree)\<rparr>)"

text \<open>The loop \<open>for (child = c; child->sibling; child = child->sibling);\<close>\<close>

partial_function (option) last_sibling :: "(node \<Rightarrow> node option) \<Rightarrow> node \<Rightarrow> node option" where
  "last_sibling sib c = (case sib c of None \<Rightarrow> Some c | Some c' \<Rightarrow> last_sibling sib c')"

definition itcTreePushBack :: "tree_heap \<Rightarrow> node \<Rightarrow> node \<Rightarrow> tree_heap option" where
  "itcTreePushBack h tree node =
     do { h1 \<leftarrow> (case child h tree of
              None \<Rightarrow> Some (h\<lparr>child := (child h)(tree := Some node)\<rparr>)
            | Some c \<Rightarrow> do { l \<leftarrow> last_sibling (sibling h) c;
                            Some (h\<lparr>sibling := (sibling h)(l := Some node)\<rparr>) });
          let h2 = h1\<lparr>parent := (parent h1)(node := Some tree)\<rparr> in
          Some (h2\<lparr>sibling := (sibling h2)(node := None)\<rparr>) }"

text \<open>The loop \<open>for (; prev->sibling != thisNode; prev = prev->sibling);\<close>\<close>

partial_function (option) find_prev ::
  "(node \<Rightarrow> node option) \<Rightarrow> node \<Rightarrow> node option \<Rightarrow> node option" where
  "find_prev sib this prev =
     (case prev of None \<Rightarrow> None
      | Some p \<Rightarrow> if sib p = Some this then Some p else find_prev sib this (sib p))"

definition itcTreeRemove :: "tree_heap \<Rightarrow> node \<Rightarrow> tree_heap option" where
  "itcTreeRemove h this =
     (case parent h this of None \<Rightarrow> Some h
      | Some p \<Rightarrow>
          do { h1 \<leftarrow> (if child h p = Some this
                     then Some (h\<lparr>child := (child h)(p := sibling h this)\<rparr>)
                     else do { q \<leftarrow> find_prev (sibling h) this (child h p);
                               Some (h\<lparr>sibling := (sibling h)(q := sibling h this)\<rparr>) });
               Some (h1\<lparr>parent := (parent h1)(this := None), sibling := (sibling h1)(this := None)\<rparr>) })"

partial_function (option) child_at ::
  "(node \<Rightarrow> node option) \<Rightarrow> node option \<Rightarrow> int \<Rightarrow> int \<Rightarrow> node option option" where
  "child_at sib c i index =
     (case c of None \<Rightarrow> Some None
      | Some x \<Rightarrow> if i = index then Some (Some x) else child_at sib (sib x) (i + 1) index)"

definition itcTreeGetChildAtImpl :: "tree_heap \<Rightarrow> node \<Rightarrow> int \<Rightarrow> node option option" where
  "itcTreeGetChildAtImpl h tree index = child_at (sibling h) (child h tree) 0 index"

partial_function (option) child_count ::
  "(node \<Rightarrow> node option) \<Rightarrow> node option \<Rightarrow> int \<Rightarrow> int option" where
  "child_count sib c i = (case c of None \<Rightarrow> Some i | Some x \<Rightarrow> child_count sib (sib x) (i + 1))"

definition itcTreeGetChildCountImpl :: "tree_heap \<Rightarrow> node \<Rightarrow> int option" where
  "itcTreeGetChildCountImpl h tree = child_count (sibling h) (child h tree) 0"

text \<open>The loop of \<open>itcTreeRotateFront\<close>: the last child and the one before it.\<close>

partial_function (option) last_two ::
  "(node \<Rightarrow> node option) \<Rightarrow> node option \<Rightarrow> node \<Rightarrow> (node option \<times> node) option" where
  "last_two sib prev c =
     (case sib c of None \<Rightarrow> Some (prev, c) | Some c' \<Rightarrow> last_two sib (Some c) c')"

definition itcTreeRotateFront :: "tree_heap \<Rightarrow> node \<Rightarrow> tree_heap option" where
  "itcTreeRotateFront h tree =
     (case child h tree of None \<Rightarrow> Some h
      | Some c \<Rightarrow>
          if sibling h c = None then Some h
          else do { (prev, l) \<leftarrow> last_two (sibling h) None c;
                    p \<leftarrow> prev;
                    let h1 = h\<lparr>sibling := (sibling h)(l := Some c)\<rparr>;
                        h2 = h1\<lparr>child := (child h1)(tree := Some l)\<rparr>
                    in Some (h2\<lparr>sibling := (sibling h2)(p := None)\<rparr>) })"

definition itcTreeRotateBack :: "tree_heap \<Rightarrow> node \<Rightarrow> tree_heap option" where
  "itcTreeRotateBack h tree =
     (case child h tree of None \<Rightarrow> Some h
      | Some c \<Rightarrow>
          if sibling h c = None then Some h
          else do { l \<leftarrow> last_sibling (sibling h) c;
                    let h1 = h\<lparr>child := (child h)(tree := sibling h c)\<rparr>;
                        h2 = h1\<lparr>sibling := (sibling h1)(l := Some c)\<rparr>
                    in Some (h2\<lparr>sibling := (sibling h2)(c := None)\<rparr>) })"

subsection \<open>The sibling chain\<close>

fun chain :: "(node \<Rightarrow> node option) \<Rightarrow> node option \<Rightarrow> node list \<Rightarrow> bool" where
  "chain sib p [] \<longleftrightarrow> p = None"
| "chain sib p (x # xs) \<longleftrightarrow> p = Some x \<and> chain sib (sib x) xs"

text \<open>A chain that need not end: the part before some node.\<close>

fun path :: "(node \<Rightarrow> node option) \<Rightarrow> node option \<Rightarrow> node list \<Rightarrow> node option \<Rightarrow> bool" where
  "path sib p [] q \<longleftrightarrow> p = q"
| "path sib p (x # xs) q \<longleftrightarrow> p = Some x \<and> path sib (sib x) xs q"

lemma chain_path: "chain sib p xs = path sib p xs None"
  by (induction xs arbitrary: p) auto

lemma path_append: "path sib p (xs @ ys) q \<longleftrightarrow> (\<exists>r. path sib p xs r \<and> path sib r ys q)"
  by (induction xs arbitrary: p) auto

lemma path_update: "x \<notin> set xs \<Longrightarrow> path (sib(x := v)) p xs q = path sib p xs q"
  by (induction xs arbitrary: p) auto

lemma chain_update: "x \<notin> set xs \<Longrightarrow> chain (sib(x := v)) p xs = chain sib p xs"
  by (simp add: chain_path path_update)

lemma chain_append: "chain sib p (xs @ ys) \<longleftrightarrow> (\<exists>r. path sib p xs r \<and> chain sib r ys)"
  by (simp add: chain_path path_append)

lemma chain_None: "chain sib None xs \<longleftrightarrow> xs = []"
  by (cases xs) auto

lemma chain_Some: "chain sib (Some c) xs \<longleftrightarrow> (\<exists>ys. xs = c # ys \<and> chain sib (sib c) ys)"
  by (cases xs) auto

subsection \<open>The loops on a chain\<close>

named_theorems loop_steps \<open>one iteration of a pointer loop\<close>

lemma last_sibling_steps [loop_steps]:
  "sib c = None \<Longrightarrow> last_sibling sib c = Some c"
  "sib c = Some c' \<Longrightarrow> last_sibling sib c = last_sibling sib c'"
  by (subst last_sibling.simps, simp)+

lemma find_prev_steps [loop_steps]:
  "find_prev sib this None = None"
  "sib p = Some this \<Longrightarrow> find_prev sib this (Some p) = Some p"
  "sib p \<noteq> Some this \<Longrightarrow> find_prev sib this (Some p) = find_prev sib this (sib p)"
  by (subst find_prev.simps, simp)+

lemma child_at_steps [loop_steps]:
  "child_at sib None i index = Some None"
  "child_at sib (Some x) i index
     = (if i = index then Some (Some x) else child_at sib (sib x) (i + 1) index)"
  by (subst child_at.simps, simp)+

lemma child_count_steps [loop_steps]:
  "child_count sib None i = Some i"
  "child_count sib (Some x) i = child_count sib (sib x) (i + 1)"
  by (subst child_count.simps, simp)+

lemma last_two_steps [loop_steps]:
  "sib c = None \<Longrightarrow> last_two sib q c = Some (q, c)"
  "sib c = Some c' \<Longrightarrow> last_two sib q c = last_two sib (Some c) c'"
  by (subst last_two.simps, simp)+

lemma last_sibling_chain: "chain sib (Some c) xs \<Longrightarrow> last_sibling sib c = Some (last xs)"
proof (induction xs arbitrary: c)
  case (Cons x xs)
  then show ?case by (cases xs) (auto simp: loop_steps)
qed simp

lemma find_prev_path:
  "path sib p (xs @ [y]) (Some this) \<Longrightarrow> this \<notin> set (xs @ [y]) \<Longrightarrow> find_prev sib this p = Some y"
proof (induction xs arbitrary: p)
  case (Cons x xs)
  then have "sib x \<noteq> Some this" by (cases xs) auto
  with Cons show ?case by (auto simp: loop_steps)
qed (auto simp: loop_steps)

lemma child_at_chain:
  "chain sib p xs \<Longrightarrow> i \<le> index \<Longrightarrow>
     child_at sib p i index
       = Some (if index - i < int (length xs) then Some (xs ! nat (index - i)) else None)"
proof (induction xs arbitrary: p i)
  case (Cons x xs)
  show ?case
  proof (cases "i = index")
    case False
    with Cons.prems have "nat (index - i) = Suc (nat (index - (i + 1)))" "i + 1 \<le> index" by simp_all
    with False Cons show ?thesis by (auto simp: loop_steps)
  qed (use Cons.prems in \<open>simp add: loop_steps\<close>)
qed (simp add: loop_steps)

lemma child_count_chain: "chain sib p xs \<Longrightarrow> child_count sib p i = Some (i + int (length xs))"
  by (induction xs arbitrary: p i) (simp_all add: loop_steps add.assoc)

lemma last_two_chain:
  "chain sib (Some c) (ys @ [y, z]) \<Longrightarrow> last_two sib q c = Some (Some y, z)"
proof (induction ys arbitrary: c q)
  case (Cons x ys)
  then obtain c' where "sib c = Some c'" by (cases ys) auto
  with Cons show ?case by (auto simp: loop_steps)
qed (auto simp: loop_steps)

subsection \<open>The forest a heap represents\<close>

text \<open>
  \<open>kids t\<close> is the list of children of \<open>t\<close>: the sibling chain of \<open>child t\<close>, without repetition,
  and exactly the nodes whose parent is \<open>t\<close>.
\<close>

definition represents :: "tree_heap \<Rightarrow> (node \<Rightarrow> node list) \<Rightarrow> bool" where
  "represents h kids \<longleftrightarrow>
     (\<forall>t. chain (sibling h) (child h t) (kids t) \<and> distinct (kids t)
        \<and> (\<forall>x. x \<in> set (kids t) \<longleftrightarrow> parent h x = Some t))"

lemma representsD:
  assumes "represents h kids"
  shows "chain (sibling h) (child h t) (kids t)" "distinct (kids t)"
    "x \<in> set (kids t) \<longleftrightarrow> parent h x = Some t"
  using assms by (auto simp: represents_def)

lemma kids_disjoint: "represents h kids \<Longrightarrow> x \<in> set (kids t) \<Longrightarrow> x \<in> set (kids u) \<Longrightarrow> t = u"
  by (auto simp: representsD)

lemma orphan_not_kid: "represents h kids \<Longrightarrow> parent h n = None \<Longrightarrow> n \<notin> set (kids t)"
  by (simp add: representsD)

lemma itcTreePushFront_represents:
  assumes r: "represents h kids" and n: "parent h node = None"
  shows "represents (itcTreePushFront h tree node) (kids(tree := node # kids tree))"
proof -
  note nk = orphan_not_kid [OF r n]
  have eq: "itcTreePushFront h tree node
     = \<lparr>parent = (parent h)(node := Some tree), sibling = (sibling h)(node := child h tree),
        child = (child h)(tree := Some node), \<dots> = tree_heap.more h\<rparr>"
    by (cases "child h tree") (simp_all add: itcTreePushFront_def)
  show ?thesis
    unfolding represents_def eq using representsD [OF r] nk n
    by (auto simp: chain_update)
qed

lemma itcTreePushBack_represents:
  assumes r: "represents h kids" and n: "parent h node = None"
  shows "\<exists>h'. itcTreePushBack h tree node = Some h' \<and> represents h' (kids(tree := kids tree @ [node]))"
proof (cases "child h tree")
  case None
  then have k: "kids tree = []" using representsD(1) [OF r, of tree] by (simp add: chain_None)
  then have np: "parent h x \<noteq> Some tree" for x using representsD(3) [OF r, of x tree] by auto
  let ?h = "h\<lparr>child := (child h)(tree := Some node), parent := (parent h)(node := Some tree),
              sibling := (sibling h)(node := None)\<rparr>"
  have "represents ?h (kids(tree := kids tree @ [node]))"
    unfolding represents_def using representsD [OF r] orphan_not_kid [OF r n] n k np
    by (auto simp: chain_update)
  then show ?thesis using None by (auto simp: itcTreePushBack_def)
next
  case (Some c)
  note ch = representsD(1) [OF r, of tree, unfolded Some]
  then have ne: "kids tree \<noteq> []" by auto
  let ?l = "last (kids tree)"
  let ?sib = "(sibling h)(?l := Some node, node := None)"
  let ?h = "h\<lparr>parent := (parent h)(node := Some tree), sibling := ?sib\<rparr>"
  have l: "?l \<in> set (kids tree)" "?l \<notin> set (butlast (kids tree))"
    using ne representsD(2) [OF r, of tree]
    by (simp, metis append_butlast_last_id distinct_butlast not_distinct_conv_prefix)
  have "chain ?sib (Some c) (kids tree @ [node])"
  proof -
    have "path (sibling h) (Some c) (butlast (kids tree) @ [?l]) None"
      using ch ne by (simp add: chain_path)
    then have p: "path (sibling h) (Some c) (butlast (kids tree)) (Some ?l)"
      by (auto simp: path_append)
    have "node \<notin> set (butlast (kids tree))" using orphan_not_kid [OF r n] by (meson in_set_butlastD)
    then have "path ?sib (Some c) (butlast (kids tree)) (Some ?l)"
      using p l by (simp add: path_update)
    then have "path ?sib (Some c) (butlast (kids tree) @ [?l]) (Some node)"
      using l orphan_not_kid [OF r n] by (auto simp: path_append)
    then show ?thesis using ne by (auto simp: chain_append)
  qed
  moreover have "chain ?sib (child h t) (kids t)" if "t \<noteq> tree" for t
    using that representsD [OF r] orphan_not_kid [OF r n] kids_disjoint [OF r] l
    by (simp add: chain_update)
  ultimately have "represents ?h (kids(tree := kids tree @ [node]))"
    unfolding represents_def using representsD [OF r] orphan_not_kid [OF r n] n Some by auto
  then show ?thesis
    using Some last_sibling_chain [OF ch] by (auto simp: itcTreePushBack_def)
qed

text \<open>Removing a node splices its siblings together.\<close>

lemma splice_chain:
  assumes c: "chain sib p (us @ u # n # ys)" and d: "distinct (us @ u # n # ys)"
  shows "find_prev sib n p = Some u"
    "chain (sib(u := sib n, n := None)) p (us @ u # ys)"
proof -
  from c have p: "path sib p (us @ [u]) (Some n)" and pu: "path sib p us (Some u)"
    and t: "chain sib (sib n) ys"
    by (auto simp: chain_append path_append)
  show "find_prev sib n p = Some u"
    using find_prev_path [OF p] d by auto
  have "path (sib(u := sib n, n := None)) p us (Some u)"
    using pu d by (simp add: path_update)
  moreover have "chain (sib(u := sib n, n := None)) (sib n) ys"
    using t d by (simp add: chain_update)
  ultimately show "chain (sib(u := sib n, n := None)) p (us @ u # ys)"
    using d by (auto simp: chain_append)
qed

lemma itcTreeRemove_represents:
  assumes r: "represents h kids" and n: "parent h node = Some p"
  shows "\<exists>h'. itcTreeRemove h node = Some h' \<and> parent h' node = None \<and> sibling h' node = None
     \<and> represents h' (kids(p := remove1 node (kids p)))"
proof -
  from n have "node \<in> set (kids p)" using representsD(3) [OF r] by simp
  then obtain xs ys where k: "kids p = xs @ node # ys" and nx: "node \<notin> set xs"
    by (meson split_list_first)
  have d: "distinct (xs @ node # ys)" and c: "chain (sibling h) (child h p) (xs @ node # ys)"
    using representsD(1,2) [OF r, of p] k by simp_all
  have rem: "remove1 node (kids p) = xs @ ys" using k nx by (simp add: remove1_append)
  have other: "x \<notin> set (kids t)" if "t \<noteq> p" "x \<in> set (kids p)" for t x
    using kids_disjoint [OF r, of x t p] that by auto
  have mem: "x \<in> set xs \<or> x \<in> set ys \<longleftrightarrow> parent h x = Some p \<and> x \<noteq> node" for x
    using representsD(3) [OF r, of x p] k d by auto
  show ?thesis
  proof (cases xs rule: rev_cases)
    case Nil
    with c have ch: "child h p = Some node" "chain (sibling h) (sibling h node) ys" by simp_all
    let ?h = "h\<lparr>child := (child h)(p := sibling h node), parent := (parent h)(node := None),
                sibling := (sibling h)(node := None)\<rparr>"
    have "represents ?h (kids(p := xs @ ys))"
      unfolding represents_def using representsD [OF r] other [of _ node] d ch mem Nil k
      by (auto simp: chain_update)
    then show ?thesis using n ch rem by (auto simp: itcTreeRemove_def)
  next
    case (snoc us u)
    have c': "chain (sibling h) (child h p) (us @ u # node # ys)" and d': "distinct (us @ u # node # ys)"
      using c d snoc by simp_all
    note sp = splice_chain [OF c' d']
    have "child h p \<noteq> Some node" using c' d' by (cases us) auto
    moreover have "represents (h\<lparr>parent := (parent h)(node := None),
        sibling := (sibling h)(u := sibling h node, node := None)\<rparr>) (kids(p := xs @ ys))"
      unfolding represents_def
      using representsD [OF r] other [of _ node] other [of _ u] d sp(2) mem snoc k
      by (auto simp: chain_update)
    ultimately show ?thesis using n sp(1) rem by (auto simp: itcTreeRemove_def)
  qed
qed

text \<open>The rotations move the last child to the front and the first one to the back.\<close>

lemma itcTreeRotateFront_represents:
  assumes r: "represents h kids"
  shows "\<exists>h'. itcTreeRotateFront h tree = Some h' \<and> parent h' = parent h
     \<and> represents h' (kids(tree := (if kids tree = [] then [] else last (kids tree) # butlast (kids tree))))"
proof -
  note c = representsD(1) [OF r, of tree]
  consider (nil) "kids tree = []" | (one) x where "kids tree = [x]"
    | (two) as y z where "kids tree = as @ [y, z]"
    by (metis append_Cons append_Nil append_butlast_last_id append_assoc)
  then show ?thesis
  proof cases
    case nil
    with c show ?thesis using r by (auto simp: itcTreeRotateFront_def fun_upd_idem)
  next
    case one
    with c show ?thesis using r by (auto simp: itcTreeRotateFront_def fun_upd_idem)
  next
    case two
    from c two obtain x where x: "child h tree = Some x" "chain (sibling h) (Some x) (as @ [y, z])"
      by (cases as) auto
    have sx: "sibling h x \<noteq> None" using x by (cases as) (auto, cases "tl as", auto)
    have d: "distinct (as @ [y, z])" using representsD(2) [OF r, of tree] two by simp
    let ?sib = "(sibling h)(z := Some x, y := None)"
    have "path (sibling h) (Some x) as (Some y)" using x(2) by (auto simp: chain_append)
    then have "path ?sib (Some x) as (Some y)" using d by (simp add: path_update)
    then have ch: "chain ?sib (Some z) (z # as @ [y])" using d by (auto simp: chain_append)
    have other: "y \<notin> set (kids t)" "z \<notin> set (kids t)" if "t \<noteq> tree" for t
      using kids_disjoint [OF r, of _ t tree] that two by auto
    have "represents (h\<lparr>child := (child h)(tree := Some z), sibling := ?sib\<rparr>) (kids(tree := z # as @ [y]))"
      unfolding represents_def using representsD [OF r] other d ch two
      by (auto simp: chain_update simp flip: representsD(3) [OF r])
    then show ?thesis
      using x sx last_two_chain [OF x(2)] two by (auto simp: itcTreeRotateFront_def butlast_append)
  qed
qed

lemma itcTreeRotateBack_represents:
  assumes r: "represents h kids"
  shows "\<exists>h'. itcTreeRotateBack h tree = Some h' \<and> parent h' = parent h
     \<and> represents h' (kids(tree := rotate1 (kids tree)))"
proof -
  note c = representsD(1) [OF r, of tree]
  consider (nil) "kids tree = []" | (one) x where "kids tree = [x]"
    | (two) x y as where "kids tree = x # y # as"
    by (metis list.exhaust)
  then show ?thesis
  proof cases
    case nil
    with c show ?thesis using r by (auto simp: itcTreeRotateBack_def fun_upd_idem)
  next
    case one
    with c show ?thesis using r by (auto simp: itcTreeRotateBack_def fun_upd_idem)
  next
    case two
    with c have x: "child h tree = Some x" "sibling h x = Some y"
      and cx: "chain (sibling h) (Some x) (x # y # as)" by auto
    obtain bs l where yl: "y # as = bs @ [l]"
      by (metis append_butlast_last_id list.distinct(1))
    have d: "distinct (x # bs @ [l])" using representsD(2) [OF r, of tree] two yl by simp
    let ?sib = "(sibling h)(l := Some x, x := None)"
    have "path (sibling h) (Some y) (bs @ [l]) None"
      using cx x unfolding yl [symmetric] by (simp add: chain_path)
    then have "path (sibling h) (Some y) bs (Some l)"
      by (auto simp: path_append)
    then have "path ?sib (Some y) bs (Some l)"
      using d by (simp add: path_update)
    then have ch: "chain ?sib (Some y) (bs @ [l, x])"
      using d by (auto simp: chain_append)
    have k: "kids tree = x # bs @ [l]" using two yl by simp
    have other: "v \<notin> set (kids t)" if "t \<noteq> tree" "v \<in> set (kids tree)" for t v
      using kids_disjoint [OF r, of v t tree] that by auto
    have "represents (h\<lparr>child := (child h)(tree := Some y), sibling := ?sib\<rparr>) (kids(tree := bs @ [l, x]))"
      unfolding represents_def using representsD [OF r] other [of _ x] other [of _ l] d ch k
      by (auto simp: chain_update simp flip: representsD(3) [OF r])
    moreover have "last_sibling (sibling h) x = Some l"
      using last_sibling_chain [OF cx] unfolding yl by simp
    ultimately show ?thesis
      using x k by (auto simp: itcTreeRotateBack_def)
  qed
qed

subsection \<open>Ordered children: the interface\<close>

text \<open>
  What the users of the tree (the widgets, the action lists) rely on: a state represents the ordered
  children of every node, and the operations change them as lists.
\<close>

locale ordered_children =
  fixes rep :: "'s \<Rightarrow> ('n \<Rightarrow> 'n list) \<Rightarrow> bool"
    and owner :: "'s \<Rightarrow> 'n \<Rightarrow> 'n option"
    and push_front :: "'s \<Rightarrow> 'n \<Rightarrow> 'n \<Rightarrow> 's option"
    and push_back :: "'s \<Rightarrow> 'n \<Rightarrow> 'n \<Rightarrow> 's option"
    and remove_node :: "'s \<Rightarrow> 'n \<Rightarrow> 's option"
    and rotate_front :: "'s \<Rightarrow> 'n \<Rightarrow> 's option"
    and rotate_back :: "'s \<Rightarrow> 'n \<Rightarrow> 's option"
  assumes owner_iff: "rep s kids \<Longrightarrow> owner s n = Some t \<longleftrightarrow> n \<in> set (kids t)"
    and kids_distinct: "rep s kids \<Longrightarrow> distinct (kids t)"
    and push_front_ok: "rep s kids \<Longrightarrow> owner s n = None \<Longrightarrow>
      \<exists>s'. push_front s t n = Some s' \<and> rep s' (kids(t := n # kids t))"
    and push_back_ok: "rep s kids \<Longrightarrow> owner s n = None \<Longrightarrow>
      \<exists>s'. push_back s t n = Some s' \<and> rep s' (kids(t := kids t @ [n]))"
    and remove_ok: "rep s kids \<Longrightarrow> owner s n = Some t \<Longrightarrow>
      \<exists>s'. remove_node s n = Some s' \<and> owner s' n = None \<and> rep s' (kids(t := remove1 n (kids t)))"
    and rotate_front_ok: "rep s kids \<Longrightarrow> \<exists>s'. rotate_front s t = Some s'
      \<and> rep s' (kids(t := (if kids t = [] then [] else last (kids t) # butlast (kids t))))"
    and rotate_back_ok: "rep s kids \<Longrightarrow> \<exists>s'. rotate_back s t = Some s'
      \<and> rep s' (kids(t := rotate1 (kids t)))"
begin

text \<open>Bringing a child to the front, and moving it to another parent.\<close>

lemma move_to_front:
  assumes "rep s kids" "owner s n = Some t"
  shows "\<exists>s1 s2. remove_node s n = Some s1 \<and> push_front s1 t n = Some s2
     \<and> rep s2 (kids(t := n # remove1 n (kids t)))"
proof -
  obtain s1 where s1: "remove_node s n = Some s1" "owner s1 n = None"
    "rep s1 (kids(t := remove1 n (kids t)))"
    using remove_ok [OF assms] by blast
  then show ?thesis using push_front_ok [OF s1(3,2), of t] by auto
qed

lemma reparent:
  assumes "rep s kids" "owner s n = Some t" "t \<noteq> u"
  shows "\<exists>s1 s2. remove_node s n = Some s1 \<and> push_back s1 u n = Some s2 \<and> owner s2 n = Some u
     \<and> rep s2 (kids(t := remove1 n (kids t), u := kids u @ [n]))"
proof -
  obtain s1 where s1: "remove_node s n = Some s1" "owner s1 n = None"
    "rep s1 (kids(t := remove1 n (kids t)))"
    using remove_ok [OF assms(1,2)] by blast
  obtain s2 where s2: "push_back s1 u n = Some s2"
    "rep s2 ((kids(t := remove1 n (kids t)))(u := (kids(t := remove1 n (kids t))) u @ [n]))"
    using push_back_ok [OF s1(3,2), of u] by blast
  moreover have "owner s2 n = Some u"
    using owner_iff [OF s2(2)] by simp
  ultimately show ?thesis using s1 assms(3) by auto
qed

text \<open>A child that is added and taken out again leaves the children as they were.\<close>

lemma push_back_remove:
  assumes "rep s kids" "owner s n = None"
  shows "\<exists>s1 s2. push_back s t n = Some s1 \<and> remove_node s1 n = Some s2 \<and> rep s2 kids"
proof -
  have n: "n \<notin> set (kids t)" using owner_iff [OF assms(1), of n t] assms(2) by simp
  obtain s1 where s1: "push_back s t n = Some s1" "rep s1 (kids(t := kids t @ [n]))"
    using push_back_ok [OF assms] by blast
  moreover have "owner s1 n = Some t" using owner_iff [OF s1(2)] by simp
  ultimately show ?thesis
    using remove_ok [of s1 "kids(t := kids t @ [n])" n t] n
    by (auto simp: remove1_append)
qed

text \<open>The two rotations undo each other.\<close>

lemma rotate_front_back:
  assumes "rep s kids"
  shows "\<exists>s1 s2. rotate_front s t = Some s1 \<and> rotate_back s1 t = Some s2 \<and> rep s2 kids"
proof -
  let ?r = "if kids t = [] then [] else last (kids t) # butlast (kids t)"
  obtain s1 where s1: "rotate_front s t = Some s1" "rep s1 (kids(t := ?r))"
    using rotate_front_ok [OF assms] by blast
  have "rotate1 ?r = kids t" by simp
  then show ?thesis
    using rotate_back_ok [OF s1(2), of t] s1(1) by auto
qed

end

interpretation tree: ordered_children represents parent "\<lambda>h t n. Some (itcTreePushFront h t n)"
  itcTreePushBack itcTreeRemove itcTreeRotateFront itcTreeRotateBack
proof
  fix h kids n t
  assume r: "represents h kids"
  show "parent h n = Some t \<longleftrightarrow> n \<in> set (kids t)" "distinct (kids t)"
    using representsD [OF r] by simp_all
  show "\<exists>h'. Some (itcTreePushFront h t n) = Some h' \<and> represents h' (kids(t := n # kids t))"
    if "parent h n = None"
    using itcTreePushFront_represents [OF r that] by simp
  show "\<exists>h'. itcTreePushBack h t n = Some h' \<and> represents h' (kids(t := kids t @ [n]))"
    if "parent h n = None"
    using itcTreePushBack_represents [OF r that] .
  show "\<exists>h'. itcTreeRemove h n = Some h' \<and> parent h' n = None
      \<and> represents h' (kids(t := remove1 n (kids t)))" if "parent h n = Some t"
    using itcTreeRemove_represents [OF r that] by blast
  show "\<exists>h'. itcTreeRotateFront h t = Some h'
      \<and> represents h' (kids(t := (if kids t = [] then [] else last (kids t) # butlast (kids t))))"
    using itcTreeRotateFront_represents [OF r] by blast
  show "\<exists>h'. itcTreeRotateBack h t = Some h' \<and> represents h' (kids(t := rotate1 (kids t)))"
    using itcTreeRotateBack_represents [OF r] by blast
qed

end
