(* ===== verification/Ug_Package.thy ===== *)
theory Ug_Package
  imports Ug_RawData "HOL-Library.Signed_Division"
begin

text \<open>
  \<open>sdk/share/upgrade/ug_package.c\<close>: the loop over the tagged blocks of a package. The state of the
  loop is the variables \<open>disk\<close>, \<open>partition\<close> and \<open>drive\<close> (\<open>None\<close> while uninitialised) and the progress.
  \<open>partition\<close> and \<open>drive\<close> are declared inside the loop, so each round has new ones; the code relies on
  finding in them what the round before left there, which C does not promise: \<open>kept_locals\<close> of the
  configuration says what they hold when a round begins.
\<close>

record pkg_state =
  pk_disk :: ITPDisk
  pk_part :: "int option"
  pk_drive :: "string option"
  ugProgressPercentage :: int

text \<open>The outside of a package upgrade: the file system, the FAT and drive services, the flash.\<close>

record ('d, 'e) pkg_env =
  en_vol :: volume
  en_dev :: 'd
  en_raw :: 'e

definition FLAG_PARTITION :: "32 word" where "FLAG_PARTITION = push_bit 1 1"
definition FLAG_NO_PARTITION :: "32 word" where "FLAG_NO_PARTITION = push_bit 2 1"
definition FLAG_FORMAT_PARTITION :: "32 word" where "FLAG_FORMAT_PARTITION = push_bit 3 1"

text \<open>
  The switch over the tag. The first component is \<open>Some ret\<close> when the code goes to \<open>end\<close> with
  \<open>ret\<close>, \<open>None\<close> when it goes on.
\<close>

definition package_step ::
  "ug_cfg \<Rightarrow> 's ITCStreamOps \<Rightarrow> 'd itp_services \<Rightarrow> 'e raw_services \<Rightarrow> 32 word \<Rightarrow> 32 word
     \<Rightarrow> pkg_state \<Rightarrow> 's \<Rightarrow> ('d, 'e) pkg_env \<Rightarrow> (int option \<times> pkg_state \<times> 's \<times> ('d, 'e) pkg_env) option" where
  "package_step cfg ops srv raw flags tag st f e =
     (let done = (\<lambda>ret. if ret \<noteq> 0 then Some ret else None) in
      if tag = 0 then do { (ret, f) \<leftarrow> ugUpgradeEnd ops f; Some (Some ret, st, f, e) }
      else if tag = 1 then
        do { (ret, disk, f, d) \<leftarrow> ugUpgradeDevice ops srv f (en_dev e) (pk_disk st)
                                   (flags AND FLAG_PARTITION \<noteq> 0) (flags AND FLAG_NO_PARTITION \<noteq> 0);
             Some (done ret,
                   st\<lparr>pk_disk := disk, pk_part := if ret \<noteq> 0 then pk_part st else Some 0\<rparr>,
                   f, e\<lparr>en_dev := d\<rparr>) }
      else if tag = 2 then do { (ret, f) \<leftarrow> ugUpgradeUnformatted ops f; Some (done ret, st, f, e) }
      else if tag = 3 then
        do { (ret, f, d) \<leftarrow> ugUpgradeRawData cfg ops raw f (en_raw e) (pk_disk st);
             Some (done ret, st, f, e\<lparr>en_raw := d\<rparr>) }
      else if tag = 4 then
        do { part \<leftarrow> pk_part st;
             (ret, drive, f, d) \<leftarrow> ugUpgradePartition ops srv f (en_dev e) (pk_disk st) part
                                    (pk_drive st) (flags AND FLAG_FORMAT_PARTITION \<noteq> 0);
             Some (done ret,
                   st\<lparr>pk_drive := drive, pk_part := Some (if ret \<noteq> 0 then part else part + 1)\<rparr>,
                   f, e\<lparr>en_dev := d\<rparr>) }
      else if tag = 5 then
        do { drive \<leftarrow> pk_drive st;
             (ret, f, d) \<leftarrow> ugUpgradeDirectory cfg ops srv f (en_dev e) drive;
             Some (done ret, st, f, e\<lparr>en_dev := d\<rparr>) }
      else if tag = 6 then
        do { drive \<leftarrow> pk_drive st;
             (ret, f, v) \<leftarrow> ugUpgradeFile cfg ops f (en_vol e) drive;
             Some (done ret, st, f, e\<lparr>en_vol := v\<rparr>) }
      else Some (Some 135, st, f, e))"

text \<open>
  \<open>(file->size - file->Available(file)) * 100 / file->size\<close>, in the 32-bit arithmetic of the target.
\<close>

definition package_progress :: "'s ITCStreamOps \<Rightarrow> 's \<Rightarrow> (int \<times> 's) option" where
  "package_progress ops f =
     (let sz = stream_size (Base ops f)
      in do { (av, f) \<leftarrow> Available ops f;
              if sz = 0 then None
              else Some (signed_take_bit 31 ((sz - av) * 100) sdiv sz, f) })"

partial_function (option) package_loop ::
  "ug_cfg \<Rightarrow> 's ITCStreamOps \<Rightarrow> 'd itp_services \<Rightarrow> 'e raw_services \<Rightarrow> 32 word
     \<Rightarrow> pkg_state \<Rightarrow> 's \<Rightarrow> ('d, 'e) pkg_env \<Rightarrow> (int \<times> pkg_state \<times> 's \<times> ('d, 'e) pkg_env) option" where
  "package_loop cfg ops srv raw flags st f e =
     do { (readsize, tag, f) \<leftarrow> Read ops f (replicate 4 0) 4;
          if (word_of_int readsize :: 32 word) \<noteq> 4 then Some (0, st, f, e)
          else do {
            (r, st, f, e) \<leftarrow> package_step cfg ops srv raw flags (itpLetoh32 tag) st f e;
            case r of Some ret \<Rightarrow> Some (ret, st, f, e)
            | None \<Rightarrow>
                do { (p, f) \<leftarrow> package_progress ops f;
                     let (part, drive) = kept_locals cfg (pk_part st, pk_drive st) in
                     package_loop cfg ops srv raw flags
                       (st\<lparr>pk_part := part, pk_drive := drive, ugProgressPercentage := p\<rparr>) f e } } }"

definition ugUpgradePackage ::
  "ug_cfg \<Rightarrow> 's ITCStreamOps \<Rightarrow> 'd itp_services \<Rightarrow> 'e raw_services \<Rightarrow> 's \<Rightarrow> ('d, 'e) pkg_env
     \<Rightarrow> (int \<times> int \<times> 's \<times> ('d, 'e) pkg_env) option" where
  "ugUpgradePackage cfg ops srv raw file e =
     (let st = \<lparr>pk_disk = ITP_DISK_SD0, pk_part = None, pk_drive = None, ugProgressPercentage = 0\<rparr>
      in do { (readsize, pkg, file) \<leftarrow> Read ops file (replicate 24 0) 24;
              (ret, st, file, e) \<leftarrow>
                (if (word_of_int readsize :: 32 word) \<noteq> 24 then Some (0, st, file, e)
                 else package_loop cfg ops srv raw (itpLetoh32 (take 4 (drop 20 pkg))) st file e);
              (_, file) \<leftarrow> Close ops file;
              Some (ret, ugProgressPercentage st, file, e) })"

subsection \<open>Packages as lists of items\<close>

text \<open>The items that fill a drive, and what each does to the volume and to the services.\<close>

datatype pkg_item = PkgFile string block | PkgDir string

fun item_bytes :: "pkg_item \<Rightarrow> block" where
  "item_bytes (PkgFile name data) = le_of_word 4 (6 :: 32 word) @ file_block name data"
| "item_bytes (PkgDir name) = le_of_word 4 (5 :: 32 word)
     @ le_of_word 4 (of_nat (length name + 1) :: 32 word) @ c_string name"

definition file_written :: "volume \<Rightarrow> string \<Rightarrow> block \<Rightarrow> volume" where
  "file_written v p d = v\<lparr>files := (files v)(p \<mapsto> d),
                          capacity := capacity v + length (file_data v p) - length d\<rparr>"

fun item_effect ::
  "32 word \<Rightarrow> 'd itp_services \<Rightarrow> string \<Rightarrow> pkg_item \<Rightarrow> ('d, 'e) pkg_env \<Rightarrow> ('d, 'e) pkg_env" where
  "item_effect key srv drive (PkgFile name data) e =
     e\<lparr>en_vol := file_written (en_vol e) (take 2 drive @ name) (decrypted key data)\<rparr>"
| "item_effect key srv drive (PkgDir name) e =
     e\<lparr>en_dev := snd (mkdir_dir srv (the (cut_slash (take 2 drive @ name)))
                        (snd (chdir_dir srv drive (en_dev e))))\<rparr>"

text \<open>What the outside must provide for an item.\<close>

fun item_ok :: "ug_cfg \<Rightarrow> 'd itp_services \<Rightarrow> string \<Rightarrow> pkg_item \<Rightarrow> ('d, 'e) pkg_env \<Rightarrow> bool" where
  "item_ok cfg srv drive (PkgFile name data) e \<longleftrightarrow>
     (let p = take 2 drive @ name; v = en_vol e
      in names_ok cfg drive name \<and> \<not> denied v p \<and> sound_medium v p
         \<and> space_ok cfg v drive p (of_nat (length data))
         \<and> length data \<le> capacity v + length (file_data v p))"
| "item_ok cfg srv drive (PkgDir name) e \<longleftrightarrow>
     names_ok cfg drive name \<and> fst (chdir_dir srv drive (en_dev e)) = 0"

fun items_ok :: "ug_cfg \<Rightarrow> 'd itp_services \<Rightarrow> string \<Rightarrow> pkg_item list \<Rightarrow> ('d, 'e) pkg_env \<Rightarrow> bool" where
  "items_ok cfg srv drive [] e \<longleftrightarrow> True"
| "items_ok cfg srv drive (it # its) e \<longleftrightarrow>
     item_ok cfg srv drive it e \<and> items_ok cfg srv drive its (item_effect (enckey cfg) srv drive it e)"

definition items_effect ::
  "32 word \<Rightarrow> 'd itp_services \<Rightarrow> string \<Rightarrow> pkg_item list \<Rightarrow> ('d, 'e) pkg_env \<Rightarrow> ('d, 'e) pkg_env" where
  "items_effect key srv drive its e = foldl (\<lambda>e it. item_effect key srv drive it e) e its"

text \<open>A package: header, device block, partition block, items, end block.\<close>

definition package_bytes ::
  "block \<Rightarrow> 32 word \<Rightarrow> 32 word \<Rightarrow> 32 word \<Rightarrow> 64 word list \<Rightarrow> pkg_item list \<Rightarrow> 32 word \<Rightarrow> block" where
  "package_bytes hdr flags t u sizes its crc =
     hdr @ le_of_word 4 flags @ le_of_word 4 (1 :: 32 word) @ device_block t u sizes
     @ le_of_word 4 (4 :: 32 word) @ le_of_word 8 (hd sizes) @ concat (map item_bytes its)
     @ le_of_word 4 (0 :: 32 word) @ le_of_word 4 crc"

context itc_reader
begin

text \<open>One round of the loop over a block that does not end it.\<close>

lemma package_loop_round:
  assumes "valid s" "drop (posn s) (content s) = le_of_word 4 tag @ rest"
    and keep: "\<And>x. kept_locals cfg x = x"
    and step: "\<And>s1. valid s1 \<Longrightarrow> content s1 = content s \<Longrightarrow> posn s1 = posn s + 4 \<Longrightarrow>
        drop (posn s1) (content s1) = rest \<Longrightarrow>
        \<exists>s2. package_step cfg ops srv raw flags tag st s1 e = Some (None, st', s2, e')
          \<and> valid s2 \<and> content s2 = content s \<and> posn s2 = q"
  shows "\<exists>p s2. package_loop cfg ops srv raw flags st s e
        = package_loop cfg ops srv raw flags (st'\<lparr>ugProgressPercentage := p\<rparr>) s2 e'
    \<and> valid s2 \<and> content s2 = content s \<and> posn s2 = q"
proof -
  obtain s1 where s1: "Read ops s (replicate 4 0) 4 = Some (4, le_of_word 4 tag, s1)"
    "valid s1" "content s1 = content s" "posn s1 = posn s + 4" "drop (posn s1) (content s1) = rest"
    using read_header_word [OF assms(1,2)] by blast
  obtain s2 where s2: "package_step cfg ops srv raw flags tag st s1 e = Some (None, st', s2, e')"
    "valid s2" "content s2 = content s" "posn s2 = q"
    using step [OF s1(2-5)] by blast
  obtain s3 where s3: "Available ops s2 = Some (int (length (content s2) - posn s2), s3)"
    "valid s3" "content s3 = content s2" "posn s3 = posn s2"
    using avail_ok [OF s2(2)] by blast
  have "length (drop (posn s) (content s)) = 4 + length rest" by (simp add: assms(2))
  then have "content s \<noteq> []" by auto
  then have "stream_size (Base ops s2) \<noteq> 0"
    using size_content [OF s2(2)] s2(3) by simp
  with s3 obtain p where "package_progress ops s2 = Some (p, s3)"
    by (simp add: package_progress_def Let_def)
  then have "package_loop cfg ops srv raw flags st s e
      = package_loop cfg ops srv raw flags (st'\<lparr>ugProgressPercentage := p\<rparr>) s3 e'"
    using s1 s2 keep by (subst package_loop.simps) (simp add: itpLetoh32_le_of_word)
  then show ?thesis
    using s2 s3 by auto
qed

lemma package_loop_item:
  assumes cfg: "cfg_ok cfg" and s: "valid s" "drop (posn s) (content s) = item_bytes it @ rest"
      "rest \<noteq> []" "length (content s) < 2 ^ 31"
    and keep: "\<And>x. kept_locals cfg x = x"
    and st: "pk_drive st = Some drive" and ok: "item_ok cfg srv drive it e"
  shows "\<exists>p s2. package_loop cfg ops srv raw flags st s e
        = package_loop cfg ops srv raw flags (st\<lparr>ugProgressPercentage := p\<rparr>) s2
            (item_effect (enckey cfg) srv drive it e)
    \<and> valid s2 \<and> content s2 = content s \<and> posn s2 = posn s + length (item_bytes it)"
proof (cases it)
  case (PkgFile name data)
  let ?p = "take 2 drive @ name"
  from s(2) PkgFile have "drop (posn s) (content s) = le_of_word 4 (6 :: 32 word) @ file_block name data @ rest"
    by simp
  then show ?thesis
  proof (rule package_loop_round [OF s(1) _ keep])
    fix s1
    assume s1: "valid s1" "content s1 = content s" "posn s1 = posn s + 4"
      "drop (posn s1) (content s1) = file_block name data @ rest"
    from ok PkgFile s(4) s1(2) obtain s2 where "ugUpgradeFile cfg ops s1 (en_vol e) drive
        = Some (0, s2, file_written (en_vol e) ?p (decrypted (enckey cfg) data))"
      "valid s2" "content s2 = content s1" "posn s2 = posn s1 + length (file_block name data)"
      using ugUpgradeFile_sound [OF cfg _ s1(1,4) s(3), of drive ?p "en_vol e"]
      by (auto simp: Let_def file_written_def)
    then show "\<exists>s2. package_step cfg ops srv raw flags 6 st s1 e
        = Some (None, st, s2, item_effect (enckey cfg) srv drive it e)
      \<and> valid s2 \<and> content s2 = content s \<and> posn s2 = posn s + length (item_bytes it)"
      using s1 st PkgFile by (auto simp: package_step_def Let_def)
  qed
next
  case (PkgDir name)
  let ?n = "le_of_word 4 (of_nat (length name + 1) :: 32 word)"
  from s(2) PkgDir have "drop (posn s) (content s) = le_of_word 4 (5 :: 32 word) @ ?n @ c_string name @ rest"
    by simp
  then show ?thesis
  proof (rule package_loop_round [OF s(1) _ keep])
    fix s1
    assume s1: "valid s1" "content s1 = content s" "posn s1 = posn s + 4"
      "drop (posn s1) (content s1) = ?n @ c_string name @ rest"
    have names: "names_ok cfg drive name" and chdir: "fst (chdir_dir srv drive (en_dev e)) = 0"
      using ok PkgDir by simp_all
    obtain s2 tl where s2: "read_name cfg ops drive 25 38 s1
        = Some (Inr (map byte_of_char (take 2 drive) @ c_string name @ tl), s2)"
      "valid s2" "content s2 = content s1" "posn s2 = posn s1 + 4 + (length name + 1)"
      using read_name_ok [OF s1(1) names s1(4)] by blast
    have good: "good_name (take 2 drive)" "good_name name" "take 2 drive @ name \<noteq> []"
      using names by (auto simp: names_ok_def good_name_def dest: in_set_takeD)
    have "cstr (map byte_of_char (take 2 drive) @ c_string name @ tl) 0 = Some (take 2 drive @ name)"
      by (rule cstr_c_string [OF good(1,2)])
    moreover obtain dir where "cut_slash (take 2 drive @ name) = Some dir"
      using good(3) by (simp add: cut_slash_def)
    ultimately have "ugUpgradeDirectory cfg ops srv s1 (en_dev e) drive
      = Some (0, s2, snd (mkdir_dir srv (the (cut_slash (take 2 drive @ name)))
                        (snd (chdir_dir srv drive (en_dev e)))))"
      using s2(1) chdir by (simp add: ugUpgradeDirectory_def split_beta Let_def)
    then show "\<exists>s2. package_step cfg ops srv raw flags 5 st s1 e
        = Some (None, st, s2, item_effect (enckey cfg) srv drive it e)
      \<and> valid s2 \<and> content s2 = content s \<and> posn s2 = posn s + length (item_bytes it)"
      using s1 s2 st PkgDir by (auto simp: package_step_def Let_def)
  qed
qed

lemma package_loop_items:
  assumes "cfg_ok cfg" "valid s" "drop (posn s) (content s) = concat (map item_bytes its) @ rest"
    "rest \<noteq> []" "length (content s) < 2 ^ 31" "pk_drive st = Some drive" "items_ok cfg srv drive its e"
    and keep: "\<And>x. kept_locals cfg x = x"
  shows "\<exists>p s2. package_loop cfg ops srv raw flags st s e
        = package_loop cfg ops srv raw flags (st\<lparr>ugProgressPercentage := p\<rparr>) s2
            (items_effect (enckey cfg) srv drive its e)
    \<and> valid s2 \<and> content s2 = content s
    \<and> drop (posn s2) (content s2) = rest"
  using assms(2,3,5-7)
proof (induction its arbitrary: s st e)
  case Nil
  then show ?case
    by (auto simp: items_effect_def intro!: exI [of _ "ugProgressPercentage st"] exI [of _ s])
next
  case (Cons it its)
  have "drop (posn s) (content s) = item_bytes it @ concat (map item_bytes its) @ rest"
    using Cons.prems(2) by simp
  then obtain p s2 where r: "package_loop cfg ops srv raw flags st s e
        = package_loop cfg ops srv raw flags (st\<lparr>ugProgressPercentage := p\<rparr>) s2
            (item_effect (enckey cfg) srv drive it e)"
    "valid s2" "content s2 = content s" "posn s2 = posn s + length (item_bytes it)"
    using package_loop_item [OF assms(1) Cons.prems(1), where it = it
        and rest = "concat (map item_bytes its) @ rest" and st = st and drive = drive and srv = srv
        and e = e and raw = raw and flags = flags]
      Cons.prems assms(4) keep by auto
  have "drop (posn s2) (content s2) = concat (map item_bytes its) @ rest"
    using arg_cong [OF Cons.prems(2), of "drop (length (item_bytes it))"] r by (simp add: add.commute)
  then show ?case
    using Cons.IH [of s2 "st\<lparr>ugProgressPercentage := p\<rparr>" "item_effect (enckey cfg) srv drive it e"]
      r Cons.prems by (auto simp: items_effect_def)
qed

end

text \<open>
  A disk that is laid out as the package asks, and whose first drive is \<open>drive\<close>: what the device
  and the partition block find.
\<close>

definition disk_as_asked ::
  "'d itp_services \<Rightarrow> 'd \<Rightarrow> 32 word \<Rightarrow> ITPDisk \<Rightarrow> 64 word list \<Rightarrow> string \<Rightarrow> bool" where
  "disk_as_asked srv d t dk sizes drive \<longleftrightarrow>
     device_disk t = Some dk \<and> sizes \<noteq> [] \<and> length sizes \<le> ITP_MAX_PARTITION
     \<and> (\<exists>par. fat_get_partition srv dk d = (0, par, d) \<and> par_count par = int (length sizes)
          \<and> length (par_size par) = ITP_MAX_PARTITION
          \<and> (\<forall>i < length sizes. sizes ! i = 0 \<or> par_size par ! i = sizes ! i))
     \<and> ITP_MAX_DRIVE \<le> length (drive_table srv d) \<and> length drive < 4
     \<and> map (\<lambda>(i, st). dr_name st) (take 1 (disk_drives dk (take ITP_MAX_DRIVE (drive_table srv d)))) = [drive]"

context itc_reader
begin

lemma ugUpgradePartition_first:
  assumes s: "valid s" "drop (posn s) (content s) = le_of_word 8 (w :: 64 word) @ rest"
    and d: "disk_as_asked srv d t dk sizes drive"
  shows "\<exists>s'. ugUpgradePartition ops srv s d dk 0 old False = Some (0, Some drive, s', d)
    \<and> valid s' \<and> content s' = content s \<and> posn s' = posn s + 8"
proof -
  have "length (drop (posn s) (content s)) = 8 + length rest" by (simp add: s(2))
  then have "posn s + 8 \<le> length (content s)" by simp
  then obtain s' where "Read ops s (replicate 8 0) 8 = Some (8, le_of_word 8 w, s')"
    "valid s'" "content s' = content s" "posn s' = posn s + 8"
    using read_all [OF s(1), of 8 "replicate 8 0"] by (auto simp: s(2))
  moreover from d obtain i stt fs where
    "disk_drives dk (take ITP_MAX_DRIVE (drive_table srv d)) = (i, stt) # fs" "dr_name stt = drive"
    by (cases "disk_drives dk (take ITP_MAX_DRIVE (drive_table srv d))") (auto simp: disk_as_asked_def)
  ultimately show ?thesis
    using d by (simp add: ugUpgradePartition_def find_drive_nth disk_as_asked_def)
qed

lemma package_loop_device:
  assumes s: "valid s" "drop (posn s) (content s) = le_of_word 4 (1 :: 32 word) @ device_block t u sizes @ rest"
    and keep: "\<And>x. kept_locals cfg x = x"
    and flags: "flags AND FLAG_PARTITION = 0" and disk: "disk_as_asked srv (en_dev e) t dk sizes drive"
  shows "\<exists>p s2. package_loop cfg ops srv raw flags st s e
        = package_loop cfg ops srv raw flags
            (st\<lparr>pk_disk := dk, pk_part := Some 0, ugProgressPercentage := p\<rparr>) s2 e
    \<and> valid s2 \<and> content s2 = content s \<and> posn s2 = posn s + 4 + length (device_block t u sizes)"
  using s keep
proof (rule package_loop_round)
  fix s1
  assume s1: "valid s1" "content s1 = content s" "posn s1 = posn s + 4"
    "drop (posn s1) (content s1) = device_block t u sizes @ rest"
  from disk obtain par where par: "device_disk t = Some dk" "length sizes \<le> ITP_MAX_PARTITION"
    "fat_get_partition srv dk (en_dev e) = (0, par, en_dev e)" "par_count par = int (length sizes)"
    "length (par_size par) = ITP_MAX_PARTITION"
    "\<forall>i < length sizes. sizes ! i = 0 \<or> par_size par ! i = sizes ! i"
    by (auto simp: disk_as_asked_def)
  obtain s2 where
    "ugUpgradeDevice ops srv s1 (en_dev e) (pk_disk st) False (flags AND FLAG_NO_PARTITION \<noteq> 0)
      = Some (0, dk, s2, en_dev e)"
    "valid s2" "content s2 = content s1" "posn s2 = posn s1 + length (device_block t u sizes)"
    using ugUpgradeDevice_keeps [OF s1(1,4) par(2,1,3-6)] by blast
  then show "\<exists>s2. package_step cfg ops srv raw flags 1 st s1 e
      = Some (None, st\<lparr>pk_disk := dk, pk_part := Some 0\<rparr>, s2, e)
    \<and> valid s2 \<and> content s2 = content s \<and> posn s2 = posn s + 4 + length (device_block t u sizes)"
    using s1 by (auto simp: package_step_def flags Let_def)
qed

lemma package_loop_partition:
  assumes s: "valid s" "drop (posn s) (content s) = le_of_word 4 (4 :: 32 word) @ le_of_word 8 (w :: 64 word) @ rest"
    and keep: "\<And>x. kept_locals cfg x = x"
    and flags: "flags AND FLAG_FORMAT_PARTITION = 0"
    and disk: "disk_as_asked srv (en_dev e) t dk sizes drive"
    and st: "pk_disk st = dk" "pk_part st = Some 0"
  shows "\<exists>p s2. package_loop cfg ops srv raw flags st s e
        = package_loop cfg ops srv raw flags
            (st\<lparr>pk_drive := Some drive, pk_part := Some 1, ugProgressPercentage := p\<rparr>) s2 e
    \<and> valid s2 \<and> content s2 = content s \<and> posn s2 = posn s + 12"
  using s keep
proof (rule package_loop_round)
  fix s1
  assume s1: "valid s1" "content s1 = content s" "posn s1 = posn s + 4"
    "drop (posn s1) (content s1) = le_of_word 8 w @ rest"
  obtain s2 where
    "ugUpgradePartition ops srv s1 (en_dev e) dk 0 (pk_drive st) False = Some (0, Some drive, s2, en_dev e)"
    "valid s2" "content s2 = content s1" "posn s2 = posn s1 + 8"
    using ugUpgradePartition_first [OF s1(1,4) disk] by blast
  then show "\<exists>s2. package_step cfg ops srv raw flags 4 st s1 e
      = Some (None, st\<lparr>pk_drive := Some drive, pk_part := Some 1\<rparr>, s2, e)
    \<and> valid s2 \<and> content s2 = content s \<and> posn s2 = posn s + 12"
    using s1 st by (auto simp: package_step_def flags Let_def)
qed

lemma package_loop_end:
  assumes "valid s" "drop (posn s) (content s) = le_of_word 4 (0 :: 32 word) @ le_of_word 4 (crc :: 32 word)"
  shows "\<exists>s'. package_loop cfg ops srv raw flags st s e = Some (0, st, s', e) \<and> valid s'"
proof -
  obtain s1 where s1: "Read ops s (replicate 4 0) 4 = Some (4, le_of_word 4 (0 :: 32 word), s1)"
    "valid s1" "content s1 = content s" "drop (posn s1) (content s1) = le_of_word 4 crc @ []"
    using read_header_word [OF assms(1,2)] by auto
  obtain s2 where "Read ops s1 (replicate 4 0) 4 = Some (4, le_of_word 4 crc, s2)" "valid s2"
    using read_header_word [OF s1(2,4)] by auto
  then show ?thesis
    using s1 by (subst package_loop.simps)
      (simp add: itpLetoh32_le_of_word package_step_def ugUpgradeEnd_def)
qed

lemma ugUpgradePackage_items:
  assumes cfg: "cfg_ok cfg"
    and s: "valid s" "posn s = 0" "content s = package_bytes hdr flags t u sizes its crc"
      "length (content s) < 2 ^ 31" "length hdr = 20"
    and flags: "flags AND FLAG_PARTITION = 0" "flags AND FLAG_FORMAT_PARTITION = 0"
    and disk: "disk_as_asked srv (en_dev e) t dk sizes drive"
    and its: "items_ok cfg srv drive its e"
    and keep: "\<And>x. kept_locals cfg x = x"
  shows "\<exists>p s'. ugUpgradePackage cfg ops srv raw s e
      = Some (0, p, s', items_effect (enckey cfg) srv drive its e)"
proof -
  define tl where "tl = le_of_word 4 (0 :: 32 word) @ le_of_word 4 crc"
  define rest where "rest = le_of_word 8 (hd sizes) @ concat (map item_bytes its) @ tl"
  define st where
    "st = \<lparr>pk_disk = ITP_DISK_SD0, pk_part = None, pk_drive = None, ugProgressPercentage = 0\<rparr>"
  have content: "content s = (hdr @ le_of_word 4 flags) @ le_of_word 4 (1 :: 32 word)
      @ device_block t u sizes @ le_of_word 4 (4 :: 32 word) @ rest"
    by (simp add: s(3) package_bytes_def rest_def tl_def)
  have "24 \<le> length (content s)" by (simp add: content s(5))
  then obtain s1 where s1: "Read ops s (replicate 24 0) 24 = Some (24, hdr @ le_of_word 4 flags, s1)"
    "valid s1" "content s1 = content s" "posn s1 = 24"
    using read_all [OF s(1), of 24 "replicate 24 0"] s(2,5) by (auto simp: content)
  have fl: "itpLetoh32 (take 4 (drop 20 (hdr @ le_of_word 4 flags))) = flags"
    using s(5) by (simp add: itpLetoh32_le_of_word)
  have d1: "drop (posn s1) (content s1) = le_of_word 4 (1 :: 32 word)
      @ device_block t u sizes @ le_of_word 4 (4 :: 32 word) @ rest"
    using s(5) s1 by (simp add: content)
  let ?st2 = "st\<lparr>pk_disk := dk, pk_part := Some 0\<rparr>"
  obtain p2 s2 where s2: "package_loop cfg ops srv raw flags st s1 e
      = package_loop cfg ops srv raw flags (?st2\<lparr>ugProgressPercentage := p2\<rparr>) s2 e"
    "valid s2" "content s2 = content s1" "posn s2 = posn s1 + 4 + length (device_block t u sizes)"
    using package_loop_device [OF s1(2) d1 keep flags(1) disk, of raw st] by auto
  have d2: "drop (posn s2) (content s2) = le_of_word 4 (4 :: 32 word) @ le_of_word 8 (hd sizes)
      @ concat (map item_bytes its) @ tl"
    using arg_cong [OF d1, of "drop (4 + length (device_block t u sizes))"] s2
    by (simp add: add.commute add.left_commute rest_def)
  let ?st3 = "?st2\<lparr>pk_drive := Some drive, pk_part := Some 1\<rparr>"
  obtain p3 s3 where s3: "package_loop cfg ops srv raw flags (?st2\<lparr>ugProgressPercentage := p2\<rparr>) s2 e
      = package_loop cfg ops srv raw flags (?st3\<lparr>ugProgressPercentage := p3\<rparr>) s3 e"
    "valid s3" "content s3 = content s2" "posn s3 = posn s2 + 12"
    using package_loop_partition [OF s2(2) d2 keep flags(2) disk, of "?st2\<lparr>ugProgressPercentage := p2\<rparr>" raw]
    by auto
  have d3: "drop (posn s3) (content s3) = concat (map item_bytes its) @ tl"
    using arg_cong [OF d2, of "drop 12"] s3 by (simp add: add.commute)
  have "tl \<noteq> []" by (simp add: tl_def le_of_word_4)
  then obtain p4 s4 where s4:
    "package_loop cfg ops srv raw flags (?st3\<lparr>ugProgressPercentage := p3\<rparr>) s3 e
      = package_loop cfg ops srv raw flags (?st3\<lparr>ugProgressPercentage := p4\<rparr>) s4
          (items_effect (enckey cfg) srv drive its e)"
    "valid s4" "drop (posn s4) (content s4) = tl"
    using package_loop_items [OF cfg s3(2) d3, where st = "?st3\<lparr>ugProgressPercentage := p3\<rparr>"
        and drive = drive and srv = srv and e = e and raw = raw and flags = flags]
      s(4) s1(3) s2(3) s3(3) its keep by auto
  obtain s5 where s5: "package_loop cfg ops srv raw flags (?st3\<lparr>ugProgressPercentage := p4\<rparr>) s4
      (items_effect (enckey cfg) srv drive its e)
    = Some (0, ?st3\<lparr>ugProgressPercentage := p4\<rparr>, s5, items_effect (enckey cfg) srv drive its e)" "valid s5"
    using package_loop_end [OF s4(2)] s4(3) by (metis tl_def)
  obtain r s6 where "Close ops s5 = Some (r, s6)" using close_ok [OF s5(2)] by blast
  then show ?thesis
    using s1(1) fl s2(1) s3(1) s4(1) s5(1)
    by (simp add: ugUpgradePackage_def st_def [symmetric] Let_def)
qed

text \<open>
  A package that is cut off behind its header, or shorter than a header, upgrades nothing and
  is reported as a success.
\<close>

lemma ugUpgradePackage_cut_off:
  assumes "valid s" "posn s = 0" "length (content s) \<le> 24"
  shows "\<exists>s'. ugUpgradePackage cfg ops srv raw s e = Some (0, 0, s', e)"
proof -
  obtain s1 where s1: "Read ops s (replicate 24 0) 24
      = Some (int (min 24 (length (content s))), take 24 (content s)
          @ drop (min 24 (length (content s))) (replicate 24 0), s1)"
    "valid s1" "content s1 = content s" "posn s1 = min 24 (length (content s))"
    using read_ok [OF assms(1), of 24 "replicate 24 0"] assms(2) by auto
  obtain buf s2 where s2: "Read ops s1 (replicate 4 0) 4 = Some (0, buf, s2)" "valid s2"
    using read_ok [OF s1(2), of 4 "replicate 4 0"] s1 assms(3) by auto
  obtain r1 s3 r2 s4 where "Close ops s1 = Some (r1, s3)" "Close ops s2 = Some (r2, s4)"
    using close_ok [OF s1(2)] close_ok [OF s2(2)] by blast
  moreover have "package_loop cfg ops srv raw flags st s1 e = Some (0, st, s2, e)" for flags st
    using s2 by (subst package_loop.simps) simp
  ultimately show ?thesis
    using s1(1) by (auto simp: ugUpgradePackage_def Let_def)
qed

end

end
