(* ===== verification/Fs_Tree.thy ===== *)
theory Fs_Tree
  imports CB_Prelude "HOL-Library.AList"
begin

text \<open>
  The file system calls that the directory functions use, on a tree of directories and files. The
  root holds the drives (\<open>''A:''\<close>). A path is a C string; the file system reads it as the
  components between the slashes. A directory lists its entries in order, after the two entries
  \<open>.\<close> and \<open>..\<close>; \<open>opendir\<close> takes the listing, so entries that appear later are not seen. What a
  drive refuses is part of the state: paths that cannot be written, how many bytes of a file can
  be read, how many it accepts. A failing call sets \<open>errno\<close>.
\<close>

datatype fnode = FileN block | DirN "(string \<times> fnode) list"

record fsys =
  root :: fnode
  protected_path :: "string list \<Rightarrow> bool"
  readable_to :: "string list \<Rightarrow> nat option"
  accepts :: "string list \<Rightarrow> nat option"
  errno :: int

abbreviation (input) ENOENT :: int where "ENOENT \<equiv> 2"
abbreviation (input) EIO :: int where "EIO \<equiv> 5"
abbreviation (input) EACCES :: int where "EACCES \<equiv> 13"
abbreviation (input) EEXIST :: int where "EEXIST \<equiv> 17"
abbreviation (input) ENOTDIR :: int where "ENOTDIR \<equiv> 20"
abbreviation (input) EISDIR :: int where "EISDIR \<equiv> 21"
abbreviation (input) ENOSPC :: int where "ENOSPC \<equiv> 28"
abbreviation (input) ENOTEMPTY :: int where "ENOTEMPTY \<equiv> 39"

subsection \<open>Paths\<close>

fun split_slash :: "string \<Rightarrow> string list" where
  "split_slash [] = [[]]"
| "split_slash (c # cs) =
     (if c = CHR ''/'' then [] # split_slash cs
      else (c # hd (split_slash cs)) # tl (split_slash cs))"

definition path_of :: "string \<Rightarrow> string list" where
  "path_of s = List.filter (\<lambda>c. c \<noteq> []) (split_slash s)"

definition file_name :: "string \<Rightarrow> bool" where
  "file_name n \<longleftrightarrow> n \<noteq> [] \<and> CHR ''/'' \<notin> set n \<and> n \<noteq> ''.'' \<and> n \<noteq> ''..''"

lemma split_slash_not_Nil [simp]: "split_slash s \<noteq> []"
  by (cases s) auto

lemma split_slash_append: "split_slash (a @ CHR ''/'' # b) = split_slash a @ split_slash b"
  by (induction a) (auto simp: hd_append tl_append split: list.splits)

lemma split_slash_name: "CHR ''/'' \<notin> set n \<Longrightarrow> split_slash n = [n]"
  by (induction n) auto

lemma path_of_slash [simp]:
  "file_name n \<Longrightarrow> path_of (d @ CHR ''/'' # n) = path_of d @ [n]"
  by (simp add: path_of_def split_slash_append split_slash_name file_name_def)

lemma path_of_name [simp]: "file_name n \<Longrightarrow> path_of n = [n]"
  by (simp add: path_of_def split_slash_name file_name_def)

subsection \<open>Trees\<close>

fun entries :: "fnode \<Rightarrow> (string \<times> fnode) list" where
  "entries (FileN b) = []"
| "entries (DirN es) = es"

fun is_dir :: "fnode \<Rightarrow> bool" where
  "is_dir (FileN b) = False"
| "is_dir (DirN es) = True"

text \<open>The node at a path, and the change of the node at a path.\<close>

fun walk :: "fnode \<Rightarrow> string list \<Rightarrow> fnode option" where
  "walk n [] = Some n"
| "walk n (p # ps) = (case map_of (entries n) p of None \<Rightarrow> None | Some m \<Rightarrow> walk m ps)"

fun upd :: "string list \<Rightarrow> (fnode \<Rightarrow> fnode) \<Rightarrow> fnode \<Rightarrow> fnode" where
  "upd [] g n = g n"
| "upd (p # ps) g n =
     (case n of FileN b \<Rightarrow> n
      | DirN es \<Rightarrow> (case map_of es p of None \<Rightarrow> n | Some m \<Rightarrow> DirN (AList.update p (upd ps g m) es)))"

text \<open>Entering and removing an entry of the directory at a path.\<close>

definition enter :: "string list \<Rightarrow> fnode \<Rightarrow> fnode \<Rightarrow> fnode" where
  "enter p x = upd (butlast p) (\<lambda>n. DirN (AList.update (last p) x (entries n)))"

definition unlink :: "string list \<Rightarrow> fnode \<Rightarrow> fnode" where
  "unlink p = upd (butlast p) (\<lambda>n. DirN (AList.delete (last p) (entries n)))"

lemma walk_append: "walk n (a @ b) = (case walk n a of None \<Rightarrow> None | Some m \<Rightarrow> walk m b)"
  by (induction a arbitrary: n) (auto split: option.splits)

lemma walk_upd_same: "walk n p = Some m \<Longrightarrow> walk (upd p g n) p = Some (g m)"
proof (induction p arbitrary: n)
  case (Cons a p)
  then show ?case by (cases n) (auto simp: AList.update_conv' split: option.splits)
qed simp

lemma upd_upd: "upd p h (upd p g n) = upd p (h \<circ> g) n"
proof (induction p arbitrary: n)
  case (Cons a p)
  then show ?case
    by (cases n) (auto simp: AList.update_conv' split: option.splits)
qed simp

lemma upd_append: "upd (a @ b) g n = upd a (upd b g) n"
proof (induction a arbitrary: n)
  case (Cons x a)
  then show ?case by (cases n) (auto split: option.splits)
qed simp

lemma upd_cong: "walk n p = Some m \<Longrightarrow> g m = h m \<Longrightarrow> upd p g n = upd p h n"
proof (induction p arbitrary: n)
  case (Cons a p)
  then show ?case by (cases n) (auto split: option.splits)
qed simp

text \<open>A change at a path is not seen along a path that leaves it.\<close>

fun diverge :: "string list \<Rightarrow> string list \<Rightarrow> bool" where
  "diverge (p # ps) (q # qs) = (p \<noteq> q \<or> diverge ps qs)"
| "diverge _ _ = False"

lemma walk_upd_diverge: "diverge p q \<Longrightarrow> walk (upd p g n) q = walk n q"
proof (induction p q arbitrary: n rule: diverge.induct)
  case (1 p ps q qs)
  then show ?case by (cases n) (auto simp: AList.update_conv' split: option.splits)
qed auto

lemma diverge_append: "diverge p q \<Longrightarrow> diverge (p @ a) (q @ b)"
  by (induction p q rule: diverge.induct) auto

subsection \<open>The calls\<close>

datatype d_type = DT_DIR | DT_REG

definition kind :: "string \<times> fnode \<Rightarrow> string \<times> d_type" where
  "kind e = (fst e, if is_dir (snd e) then DT_DIR else DT_REG)"

definition listing :: "(string \<times> fnode) list \<Rightarrow> (string \<times> d_type) list" where
  "listing es = (''.'', DT_DIR) # (''..'', DT_DIR) # map kind es"

definition fs_opendir :: "fsys \<Rightarrow> string \<Rightarrow> (string \<times> d_type) list option \<times> fsys" where
  "fs_opendir s p =
     (case walk (root s) (path_of p) of
        Some (DirN es) \<Rightarrow> (Some (listing es), s)
      | Some (FileN b) \<Rightarrow> (None, s\<lparr>errno := ENOTDIR\<rparr>)
      | None \<Rightarrow> (None, s\<lparr>errno := ENOENT\<rparr>))"

text \<open>Whether a new entry can be made at a path: its directory exists and it is not protected.\<close>

definition can_create :: "fsys \<Rightarrow> string list \<Rightarrow> bool" where
  "can_create s p \<longleftrightarrow> p \<noteq> [] \<and> \<not> protected_path s p
     \<and> (case walk (root s) (butlast p) of Some (DirN es) \<Rightarrow> True | _ \<Rightarrow> False)"

definition fs_mkdir :: "fsys \<Rightarrow> string \<Rightarrow> int \<times> fsys" where
  "fs_mkdir s p =
     (let c = path_of p in
      if walk (root s) c \<noteq> None then (-1, s\<lparr>errno := EEXIST\<rparr>)
      else if can_create s c then (0, s\<lparr>root := enter c (DirN []) (root s)\<rparr>)
      else (-1, s\<lparr>errno := (if protected_path s c then EACCES else ENOENT)\<rparr>))"

definition fs_access_W :: "fsys \<Rightarrow> string \<Rightarrow> int \<times> fsys" where
  "fs_access_W s p =
     (let c = path_of p in
      if walk (root s) c = None then (-1, s\<lparr>errno := ENOENT\<rparr>)
      else if protected_path s c then (-1, s\<lparr>errno := EACCES\<rparr>) else (0, s))"

definition fs_rmdir :: "fsys \<Rightarrow> string \<Rightarrow> int \<times> fsys" where
  "fs_rmdir s p =
     (let c = path_of p in
      case walk (root s) c of
        None \<Rightarrow> (-1, s\<lparr>errno := ENOENT\<rparr>)
      | Some (FileN b) \<Rightarrow> (-1, s\<lparr>errno := ENOTDIR\<rparr>)
      | Some (DirN es) \<Rightarrow>
          if es \<noteq> [] then (-1, s\<lparr>errno := ENOTEMPTY\<rparr>)
          else if c = [] \<or> protected_path s c then (-1, s\<lparr>errno := EACCES\<rparr>)
          else (0, s\<lparr>root := unlink c (root s)\<rparr>))"

definition fs_remove :: "fsys \<Rightarrow> string \<Rightarrow> int \<times> fsys" where
  "fs_remove s p =
     (let c = path_of p in
      case walk (root s) c of
        Some (FileN b) \<Rightarrow>
          if protected_path s c then (-1, s\<lparr>errno := EACCES\<rparr>)
          else (0, s\<lparr>root := unlink c (root s)\<rparr>)
      | _ \<Rightarrow> fs_rmdir s p)"

text \<open>\<open>stat\<close>: the size it stores, or \<open>None\<close> when it fails.\<close>

definition fs_stat_size :: "fsys \<Rightarrow> string \<Rightarrow> nat option \<times> fsys" where
  "fs_stat_size s p =
     (case walk (root s) (path_of p) of
        None \<Rightarrow> (None, s\<lparr>errno := ENOENT\<rparr>)
      | Some (FileN b) \<Rightarrow> (Some (length b), s)
      | Some (DirN es) \<Rightarrow> (Some 0, s))"

text \<open>\<open>fopen\<close> for reading and for writing; the result says whether a \<open>FILE\<close> was returned.\<close>

definition fs_fopen_rb :: "fsys \<Rightarrow> string \<Rightarrow> bool \<times> fsys" where
  "fs_fopen_rb s p =
     (case walk (root s) (path_of p) of
        None \<Rightarrow> (False, s\<lparr>errno := ENOENT\<rparr>)
      | Some (FileN b) \<Rightarrow> (True, s)
      | Some (DirN es) \<Rightarrow> (False, s\<lparr>errno := EISDIR\<rparr>))"

definition fs_fopen_wb :: "fsys \<Rightarrow> string \<Rightarrow> bool \<times> fsys" where
  "fs_fopen_wb s p =
     (let c = path_of p in
      case walk (root s) c of
        Some (DirN es) \<Rightarrow> (False, s\<lparr>errno := EISDIR\<rparr>)
      | _ \<Rightarrow> if can_create s c then (True, s\<lparr>root := enter c (FileN []) (root s)\<rparr>)
             else (False, s\<lparr>errno := (if protected_path s c then EACCES else ENOENT)\<rparr>))"

text \<open>\<open>fread\<close> of \<open>n\<close> bytes from the start of an open file: the bytes delivered.\<close>

definition fs_fread :: "fsys \<Rightarrow> string \<Rightarrow> nat \<Rightarrow> block \<times> fsys" where
  "fs_fread s p n =
     (let c = path_of p; b = (case walk (root s) c of Some (FileN b) \<Rightarrow> b | _ \<Rightarrow> []) in
      case readable_to s c of
        None \<Rightarrow> (take n b, s)
      | Some m \<Rightarrow> (take n (take m b), if m < min n (length b) then s\<lparr>errno := EIO\<rparr> else s))"

text \<open>\<open>fwrite\<close> to a file that was just truncated: how many bytes it took.\<close>

definition fs_fwrite :: "fsys \<Rightarrow> string \<Rightarrow> block \<Rightarrow> nat \<times> fsys" where
  "fs_fwrite s p b =
     (let c = path_of p;
          n = (case accepts s c of None \<Rightarrow> length b | Some m \<Rightarrow> min m (length b));
          s1 = s\<lparr>root := enter c (FileN (take n b)) (root s)\<rparr>
      in (n, if n < length b then s1\<lparr>errno := ENOSPC\<rparr> else s1))"

end
