(* ===== verification/Ug_Reset.thy ===== *)
theory Ug_Reset
  imports Fs_Tree
begin

text \<open>
  Copying, deleting and restoring directory trees: \<open>ugCopyDirectory\<close> and \<open>ugDeleteDirectory\<close> of
  \<open>sdk/share/upgrade/ug_directory.c\<close>, and \<open>sdk/share/upgrade/ug_reset.c\<close>, the factory reset, which
  restores the backup that the private drive holds. \<open>PATH_MAX\<close> is the size of the path buffers on
  the stack; a longer path overflows them (\<open>None\<close>), which is also what bounds the recursion.
\<close>

text \<open>A stack buffer of \<open>PATH_MAX\<close> characters that \<open>strcpy\<close> and \<open>strcat\<close> fill with a string.\<close>

definition path_fits :: "nat \<Rightarrow> string \<Rightarrow> string option" where
  "path_fits PATH_MAX p = (if length p < PATH_MAX then Some p else None)"

lemma path_fits_eq [simp]: "path_fits m p = Some q \<longleftrightarrow> q = p \<and> length p < m"
  by (auto simp: path_fits_def)

text \<open>The first error of a loop is kept.\<close>

definition keep_error :: "int \<Rightarrow> int \<Rightarrow> int" where
  "keep_error ret ret1 = (if ret1 \<noteq> 0 then (if ret = 0 then ret1 else ret) else ret)"

subsection \<open>Files\<close>

definition GetFileSize :: "fsys \<Rightarrow> string \<Rightarrow> nat \<times> fsys" where
  "GetFileSize s input =
     (let (st, s) = fs_stat_size s input in (case st of None \<Rightarrow> 0 | Some n \<Rightarrow> n, s))"

definition ugCopyFile ::
  "(int \<Rightarrow> block option) \<Rightarrow> fsys \<Rightarrow> string \<Rightarrow> string \<Rightarrow> int \<times> fsys" where
  "ugCopyFile malloc s destPath srcPath =
     (let (filesize, s) = GetFileSize s srcPath; (rf, s) = fs_fopen_rb s srcPath in
      if \<not> rf then (errno s, s)
      else if malloc (int filesize) = None then (41, s)
      else let (buf, s) = fs_fread s srcPath filesize in
        if length buf \<noteq> filesize then (errno s, s)
        else let (wf, s) = fs_fopen_wb s destPath in
          if \<not> wf then (errno s, s)
          else let (n, s) = fs_fwrite s destPath buf in
            if n \<noteq> filesize then (errno s, s) else (0, s))"

subsection \<open>Directories\<close>

text \<open>
  \<open>delete_loop\<close> is the loop of \<open>ugDeleteDirectory\<close> over the entries that \<open>readdir\<close> still has.
  The \<open>char path[PATH_MAX]\<close> of every level is longer than the one above it.
\<close>

function ugDeleteDirectory :: "nat \<Rightarrow> fsys \<Rightarrow> string \<Rightarrow> fsys option"
  and delete_loop :: "nat \<Rightarrow> fsys \<Rightarrow> string \<Rightarrow> (string \<times> d_type) list \<Rightarrow> fsys option" where
  "ugDeleteDirectory PATH_MAX s dirname =
     (let (dir, s) = fs_opendir s dirname in
      case dir of None \<Rightarrow> Some s
      | Some ents \<Rightarrow> do { s \<leftarrow> delete_loop PATH_MAX s dirname ents; Some (snd (fs_rmdir s dirname)) })"
| "delete_loop PATH_MAX s dirname [] = Some s"
| "delete_loop PATH_MAX s dirname (ent # ents) =
     (if fst ent = ''.'' then delete_loop PATH_MAX s dirname ents
      else if fst ent = ''..'' then delete_loop PATH_MAX s dirname ents
      else let p = dirname @ ''/'' @ fst ent in
        if \<not> length p < PATH_MAX then None
        else if snd ent = DT_DIR
        then do { s \<leftarrow> ugDeleteDirectory PATH_MAX s p; delete_loop PATH_MAX s dirname ents }
        else delete_loop PATH_MAX (snd (fs_remove s p)) dirname ents)"
  by pat_completeness auto
termination
  by (relation "measures [\<lambda>x. case x of Inl (m, s, d) \<Rightarrow> m - length d | Inr (m, s, d, es) \<Rightarrow> m - length d,
       \<lambda>x. case x of Inl _ \<Rightarrow> Suc 0 | Inr _ \<Rightarrow> 0,
       \<lambda>x. case x of Inl _ \<Rightarrow> 0 | Inr (m, s, d, es) \<Rightarrow> length es]") auto

text \<open>
  \<open>ugCopyDirectory\<close> and its loop; the loop carries \<open>ret\<close>. The recursive call is for the entry of
  the source, whose path is longer.
\<close>

definition make_dest :: "fsys \<Rightarrow> string \<Rightarrow> int \<Rightarrow> int \<times> fsys" where
  "make_dest s dest ret =
     (let (r, s) = fs_access_W s dest in
      if r \<noteq> 0 then let (ret1, s) = fs_mkdir s dest in (keep_error ret ret1, s) else (ret, s))"

function ugCopyDirectory ::
    "nat \<Rightarrow> (int \<Rightarrow> block option) \<Rightarrow> fsys \<Rightarrow> string \<Rightarrow> string \<Rightarrow> (int \<times> fsys) option"
  and copy_loop ::
    "nat \<Rightarrow> (int \<Rightarrow> block option) \<Rightarrow> fsys \<Rightarrow> string \<Rightarrow> string \<Rightarrow> (string \<times> d_type) list \<Rightarrow> int
       \<Rightarrow> (int \<times> fsys) option" where
  "ugCopyDirectory PATH_MAX malloc s dest src =
     (let (dir, s) = fs_opendir s src in
      case dir of None \<Rightarrow> Some (75, s)
      | Some ents \<Rightarrow> copy_loop PATH_MAX malloc s dest src ents 0)"
| "copy_loop PATH_MAX malloc s dest src [] ret = Some (ret, s)"
| "copy_loop PATH_MAX malloc s dest src (ent # ents) ret =
     (if fst ent = ''.'' then copy_loop PATH_MAX malloc s dest src ents ret
      else if fst ent = ''..'' then copy_loop PATH_MAX malloc s dest src ents ret
      else
        let destPath = dest @ ''/'' @ fst ent; srcPath = src @ ''/'' @ fst ent;
            (ret, s) = make_dest s dest ret in
        if \<not> length destPath < PATH_MAX then None
        else if snd ent = DT_DIR then
          let (ret1, s) = fs_mkdir s destPath in
          if ret1 \<noteq> 0 then copy_loop PATH_MAX malloc s dest src ents (keep_error ret ret1)
          else if \<not> length srcPath < PATH_MAX then None
          else do { (ret1, s) \<leftarrow> ugCopyDirectory PATH_MAX malloc s destPath srcPath;
                    copy_loop PATH_MAX malloc s dest src ents (keep_error ret ret1) }
        else if \<not> length srcPath < PATH_MAX then None
        else let (ret1, s) = ugCopyFile malloc s destPath srcPath in
             copy_loop PATH_MAX malloc s dest src ents (keep_error ret ret1))"
  by pat_completeness auto
termination
  by (relation "measures [\<lambda>x. case x of Inl (m, a, s, d, p) \<Rightarrow> m - length p | Inr (m, a, s, d, p, es, r) \<Rightarrow> m - length p,
       \<lambda>x. case x of Inl _ \<Rightarrow> Suc 0 | Inr _ \<Rightarrow> 0,
       \<lambda>x. case x of Inl _ \<Rightarrow> 0 | Inr (m, a, s, d, p, es, r) \<Rightarrow> length es]") auto

subsection \<open>Factory reset\<close>

text \<open>
  \<open>ugRestoreDir\<close>: an entry of the backup whose name starts with a tilde removes its namesake, any
  other is restored.
\<close>

function ugRestoreDir ::
    "nat \<Rightarrow> (int \<Rightarrow> block option) \<Rightarrow> fsys \<Rightarrow> string \<Rightarrow> string \<Rightarrow> (int \<times> fsys) option"
  and restore_loop ::
    "nat \<Rightarrow> (int \<Rightarrow> block option) \<Rightarrow> fsys \<Rightarrow> string \<Rightarrow> string \<Rightarrow> (string \<times> d_type) list \<Rightarrow> int
       \<Rightarrow> (int \<times> fsys) option" where
  "ugRestoreDir PATH_MAX malloc s dest src =
     (let (dir, s) = fs_opendir s src in
      case dir of None \<Rightarrow> Some (90, s)
      | Some ents \<Rightarrow> restore_loop PATH_MAX malloc s dest src ents 0)"
| "restore_loop PATH_MAX malloc s dest src [] ret = Some (ret, s)"
| "restore_loop PATH_MAX malloc s dest src (ent # ents) ret =
     (if fst ent = ''.'' then restore_loop PATH_MAX malloc s dest src ents ret
      else if fst ent = ''..'' then restore_loop PATH_MAX malloc s dest src ents ret
      else
        let tilde = take 1 (fst ent) = ''~'';
            destPath = dest @ ''/'' @ (if tilde then drop 1 (fst ent) else fst ent);
            srcPath = src @ ''/'' @ fst ent in
        if \<not> length destPath < PATH_MAX then None
        else if snd ent = DT_DIR then
          (if tilde
           then do { s \<leftarrow> ugDeleteDirectory PATH_MAX s destPath;
                     restore_loop PATH_MAX malloc s dest src ents ret }
           else let (ret1, s) = fs_mkdir s destPath in
             if ret1 \<noteq> 0 then restore_loop PATH_MAX malloc s dest src ents (keep_error ret ret1)
             else if \<not> length srcPath < PATH_MAX then None
             else do { (ret1, s) \<leftarrow> ugRestoreDir PATH_MAX malloc s destPath srcPath;
                       restore_loop PATH_MAX malloc s dest src ents (keep_error ret ret1) })
        else if tilde
        then restore_loop PATH_MAX malloc (snd (fs_remove s destPath)) dest src ents ret
        else if \<not> length srcPath < PATH_MAX then None
        else let (ret1, s) = ugCopyFile malloc s destPath srcPath in
             restore_loop PATH_MAX malloc s dest src ents (keep_error ret ret1))"
  by pat_completeness auto
termination
  by (relation "measures [\<lambda>x. case x of Inl (m, a, s, d, p) \<Rightarrow> m - length p | Inr (m, a, s, d, p, es, r) \<Rightarrow> m - length p,
       \<lambda>x. case x of Inl _ \<Rightarrow> Suc 0 | Inr _ \<Rightarrow> 0,
       \<lambda>x. case x of Inl _ \<Rightarrow> 0 | Inr (m, a, s, d, p, es, r) \<Rightarrow> length es]") auto

text \<open>\<open>ugResetFactory\<close>: \<open>drive\<close> is \<open>CFG_PRIVATE_DRIVE\<close>. Files at the top of the backup are skipped.\<close>

fun reset_loop ::
  "nat \<Rightarrow> (int \<Rightarrow> block option) \<Rightarrow> fsys \<Rightarrow> string \<Rightarrow> (string \<times> d_type) list \<Rightarrow> int \<Rightarrow> (int \<times> fsys) option" where
  "reset_loop PATH_MAX malloc s drive [] ret = Some (ret, s)"
| "reset_loop PATH_MAX malloc s drive (ent # ents) ret =
     (if fst ent = ''.'' then reset_loop PATH_MAX malloc s drive ents ret
      else if fst ent = ''..'' then reset_loop PATH_MAX malloc s drive ents ret
      else if snd ent = DT_DIR then
        do { destPath \<leftarrow> path_fits PATH_MAX (fst ent @ '':'');
             srcPath \<leftarrow> path_fits PATH_MAX (drive @ '':/backup/'' @ fst ent);
             (ret1, s) \<leftarrow> ugRestoreDir PATH_MAX malloc s destPath srcPath;
             reset_loop PATH_MAX malloc s drive ents (keep_error ret ret1) }
      else reset_loop PATH_MAX malloc s drive ents ret)"

definition ugResetFactory ::
  "nat \<Rightarrow> (int \<Rightarrow> block option) \<Rightarrow> fsys \<Rightarrow> string \<Rightarrow> (int \<times> fsys) option" where
  "ugResetFactory PATH_MAX malloc s drive =
     (let (dir, s) = fs_opendir s (drive @ '':/backup'') in
      case dir of None \<Rightarrow> Some (196, s)
      | Some ents \<Rightarrow> reset_loop PATH_MAX malloc s drive ents 0)"

end
