(* ===== verification/Ug_ResetProps.thy ===== *)
theory Ug_ResetProps
  imports Ug_Reset
begin

text \<open>
  What the directory functions of \<open>Ug_Reset\<close> do on drives that neither refuse nor fail: deleting
  removes the whole directory, copying appends the tree of the source, and the factory reset meets
  the specification \<open>restored\<close> on the entries of a directory. All three go by induction on the
  tree of the source, for the string paths that the code builds.
\<close>

subsection \<open>Trees that the functions can handle\<close>

lemma size_entry: "e \<in> set es \<Longrightarrow> size (snd e) < Suc (size_list (size_prod (\<lambda>x. 0) size) es)"
  by (induction es) auto

text \<open>Names are file names and differ within a directory.\<close>

function wf_tree :: "fnode \<Rightarrow> bool" where
  "wf_tree (FileN b) = True"
| "wf_tree (DirN es) =
     (distinct (map fst es) \<and> (\<forall>e \<in> set es. file_name (fst e) \<and> wf_tree (snd e)))"
  by pat_completeness auto
termination by (relation "measure size") (use size_entry in fastforce)+

text \<open>Every path below a path of length \<open>l\<close> fits a buffer of \<open>m\<close> characters.\<close>

function paths_fit :: "nat \<Rightarrow> nat \<Rightarrow> fnode \<Rightarrow> bool" where
  "paths_fit m l (FileN b) = True"
| "paths_fit m l (DirN es) =
     (\<forall>e \<in> set es. l + 1 + length (fst e) < m \<and> paths_fit m (l + 1 + length (fst e)) (snd e))"
  by pat_completeness auto
termination by (relation "measure (\<lambda>(m, l, n). size n)") (use size_entry in fastforce)+

text \<open>The allocator can serve the sizes of all files.\<close>

function allocatable :: "(int \<Rightarrow> block option) \<Rightarrow> fnode \<Rightarrow> bool" where
  "allocatable malloc (FileN b) = (malloc (int (length b)) \<noteq> None)"
| "allocatable malloc (DirN es) = (\<forall>e \<in> set es. allocatable malloc (snd e))"
  by pat_completeness auto
termination by (relation "measure (\<lambda>(m, n). size n)") (use size_entry in fastforce)+

text \<open>Drives that neither refuse nor fail.\<close>

definition healthy :: "fsys \<Rightarrow> bool" where
  "healthy s \<longleftrightarrow> (\<forall>p. \<not> protected_path s p \<and> readable_to s p = None \<and> accepts s p = None)"

lemma healthy_update [simp]:
  "healthy (s\<lparr>root := r\<rparr>) = healthy s" "healthy (s\<lparr>errno := e\<rparr>) = healthy s"
  by (simp_all add: healthy_def)

subsection \<open>The calls on a directory\<close>

text \<open>What the calls do in the directory \<open>d\<close> with the entries \<open>es\<close>.\<close>

lemma opendir_dir: "walk (root s) (path_of d) = Some (DirN es) \<Longrightarrow> fs_opendir s d = (Some (listing es), s)"
  by (simp add: fs_opendir_def)

lemma walk_child:
  "walk r d = Some (DirN es) \<Longrightarrow> walk r (d @ [n]) = map_of es n"
  by (simp add: walk_append split: option.splits)

lemma enter_child: "walk r d = Some (DirN es) \<Longrightarrow> enter (d @ [n]) x r = upd d (\<lambda>_. DirN (AList.update n x es)) r"
  by (auto simp: enter_def intro: upd_cong)

lemma unlink_child: "walk r d = Some (DirN es) \<Longrightarrow> unlink (d @ [n]) r = upd d (\<lambda>_. DirN (AList.delete n es)) r"
  by (auto simp: unlink_def intro: upd_cong)

lemma upd_child:
  "walk r d = Some (DirN es) \<Longrightarrow> map_of es n = Some x
   \<Longrightarrow> upd (d @ [n]) g r = upd d (\<lambda>_. DirN (AList.update n (g x) es)) r"
  by (auto simp: upd_append intro: upd_cong)

lemma update_append_new: "map_of es n = None \<Longrightarrow> AList.update n x es = es @ [(n, x)]"
  by (induction es) (auto split: if_splits)

lemma delete_head: "n \<notin> fst ` set es \<Longrightarrow> AList.delete n ((n, x) # es) = es"
  by simp

lemma mkdir_child:
  assumes "healthy s" "walk (root s) (path_of d) = Some (DirN es)" "file_name n"
  shows "fs_mkdir s (d @ CHR ''/'' # n) =
    (if map_of es n = None
     then (0, s\<lparr>root := upd (path_of d) (\<lambda>_. DirN (es @ [(n, DirN [])])) (root s)\<rparr>)
     else (-1, s\<lparr>errno := EEXIST\<rparr>))"
  using assms by (auto simp: fs_mkdir_def walk_child can_create_def healthy_def enter_child Let_def
      update_append_new simp del: map_of_eq_None_iff)

lemma remove_child:
  assumes "healthy s" "walk (root s) (path_of d) = Some (DirN es)" "file_name n"
    "map_of es n = Some (FileN b)"
  shows "fs_remove s (d @ CHR ''/'' # n) =
     (0, s\<lparr>root := upd (path_of d) (\<lambda>_. DirN (AList.delete n es)) (root s)\<rparr>)"
  using assms by (auto simp: fs_remove_def walk_child healthy_def unlink_child Let_def)

lemma rmdir_child:
  assumes "healthy s" "walk (root s) (path_of d) = Some (DirN es)" "file_name n"
    "map_of es n = Some (DirN [])"
  shows "fs_rmdir s (d @ CHR ''/'' # n) =
     (0, s\<lparr>root := upd (path_of d) (\<lambda>_. DirN (AList.delete n es)) (root s)\<rparr>)"
  using assms by (auto simp: fs_rmdir_def walk_child healthy_def unlink_child Let_def)

subsection \<open>Copying a file\<close>

lemma ugCopyFile_copies:
  assumes "healthy s" "walk (root s) (path_of d) = Some (DirN es)" "file_name n"
    "walk (root s) (path_of src) = Some (FileN b)" "malloc (int (length b)) \<noteq> None"
    "\<forall>es'. map_of es n \<noteq> Some (DirN es')"
  shows "ugCopyFile malloc s (d @ CHR ''/'' # n) src =
    (0, s\<lparr>root := upd (path_of d) (\<lambda>_. DirN (AList.update n (FileN b) es)) (root s)\<rparr>)"
proof -
  have wb: "fs_fopen_wb s (d @ CHR ''/'' # n)
      = (True, s\<lparr>root := upd (path_of d) (\<lambda>_. DirN (AList.update n (FileN []) es)) (root s)\<rparr>)"
    using assms by (auto simp: fs_fopen_wb_def walk_child can_create_def healthy_def enter_child Let_def
        split: option.splits fnode.splits)
  show ?thesis
    using assms wb by (auto simp: ugCopyFile_def GetFileSize_def fs_stat_size_def fs_fopen_rb_def
        fs_fread_def fs_fwrite_def healthy_def Let_def enter_child walk_upd_same upd_upd comp_def)
qed

lemma ugCopyFile_onto_dir:
  assumes "healthy s" "walk (root s) (path_of d) = Some (DirN es)" "file_name n"
    "walk (root s) (path_of src) = Some (FileN b)" "malloc (int (length b)) \<noteq> None"
    "map_of es n = Some (DirN es')"
  shows "ugCopyFile malloc s (d @ CHR ''/'' # n) src = (EISDIR, s\<lparr>errno := EISDIR\<rparr>)"
  using assms by (auto simp: ugCopyFile_def GetFileSize_def fs_stat_size_def fs_fopen_rb_def
      fs_fread_def fs_fopen_wb_def healthy_def Let_def walk_child)

subsection \<open>Deleting a directory\<close>

lemma skip_dots [simp]:
  "delete_loop m s d ((''.'', t) # (''..'', u) # es) = delete_loop m s d es"
  "copy_loop m malloc s c d ((''.'', t) # (''..'', u) # es) ret = copy_loop m malloc s c d es ret"
  "restore_loop m malloc s c d ((''.'', t) # (''..'', u) # es) ret = restore_loop m malloc s c d es ret"
  by simp_all

lemma kind_simps [simp]: "kind (n, FileN b) = (n, DT_REG)" "kind (n, DirN es) = (n, DT_DIR)"
  by (simp_all add: kind_def)

lemma file_name_not_dots: "file_name n \<Longrightarrow> n \<noteq> ''.'' \<and> n \<noteq> ''..''"
  by (simp add: file_name_def)

declare ugDeleteDirectory.simps [simp del] delete_loop.simps(2) [simp del]
  ugCopyDirectory.simps [simp del] copy_loop.simps(2) [simp del]
  ugRestoreDir.simps [simp del] restore_loop.simps(2) [simp del]

lemma delete_subdir:
  assumes "healthy s" "walk (root s) (path_of d) = Some (DirN es)" "file_name n"
    "map_of es n = Some (DirN sub)"
    "delete_loop m s (d @ CHR ''/'' # n) (map kind sub)
       = Some (s\<lparr>root := upd (path_of d @ [n]) (\<lambda>_. DirN []) (root s)\<rparr>)"
  shows "ugDeleteDirectory m s (d @ CHR ''/'' # n)
     = Some (s\<lparr>root := upd (path_of d) (\<lambda>_. DirN (AList.delete n es)) (root s)\<rparr>)"
proof -
  let ?s = "s\<lparr>root := upd (path_of d) (\<lambda>_. DirN (AList.update n (DirN []) es)) (root s)\<rparr>"
  have loop: "delete_loop m s (d @ CHR ''/'' # n) (listing sub) = Some ?s"
    using assms(2,4,5) by (simp add: listing_def upd_child)
  have "fs_rmdir ?s (d @ CHR ''/'' # n)
      = (0, s\<lparr>root := upd (path_of d) (\<lambda>_. DirN (AList.delete n es)) (root s)\<rparr>)"
    using rmdir_child [of ?s d "AList.update n (DirN []) es" n] assms(1,2,3)
    by (simp add: walk_upd_same upd_upd comp_def update_conv' delete_update_same)
  then show ?thesis
    using assms(2,3,4) loop
    by (simp add: ugDeleteDirectory.simps opendir_dir [of s "d @ CHR ''/'' # n" sub] walk_child)
qed

lemma upd_same: "walk r d = Some m \<Longrightarrow> upd d (\<lambda>_. m) r = r"
proof (induction d arbitrary: r)
  case (Cons a d)
  then show ?case by (cases r) (auto simp: AList.update_triv split: option.splits)
qed simp

lemma state_same [simp]: "walk (root s) d = Some m \<Longrightarrow> s\<lparr>root := upd d (\<lambda>_. m) (root s)\<rparr> = s"
  by (simp add: upd_same)

text \<open>The loop empties the directory, for the directories on which its own calls do.\<close>

definition deletes :: "nat \<Rightarrow> fnode \<Rightarrow> bool" where
  "deletes m n \<longleftrightarrow> (\<forall>s d es. n = DirN es \<longrightarrow> healthy s \<longrightarrow> walk (root s) (path_of d) = Some n
     \<longrightarrow> paths_fit m (length d) n
     \<longrightarrow> delete_loop m s d (map kind es) = Some (s\<lparr>root := upd (path_of d) (\<lambda>_. DirN []) (root s)\<rparr>))"

lemma delete_loop_all:
  assumes "\<forall>e \<in> set es. deletes m (snd e)" "wf_tree (DirN es)" "healthy s"
    "walk (root s) (path_of d) = Some (DirN es)" "paths_fit m (length d) (DirN es)"
  shows "delete_loop m s d (map kind es) = Some (s\<lparr>root := upd (path_of d) (\<lambda>_. DirN []) (root s)\<rparr>)"
  using assms
proof (induction es arbitrary: s)
  case (Cons e es)
  obtain n x where e: "e = (n, x)" by (cases e)
  let ?s = "s\<lparr>root := upd (path_of d) (\<lambda>_. DirN es) (root s)\<rparr>"
  have n: "file_name n" "length (d @ CHR ''/'' # n) < m" "AList.delete n es = es"
    using Cons.prems e by auto
  have "delete_loop m ?s d (map kind es) = Some (s\<lparr>root := upd (path_of d) (\<lambda>_. DirN []) (root s)\<rparr>)"
    using Cons by (simp add: walk_upd_same upd_upd comp_def)
  moreover have "fs_remove s (d @ CHR ''/'' # n) = (0, ?s)" if "x = FileN b" for b
    using remove_child [of s d "e # es" n b] Cons.prems n e that by simp
  moreover have "ugDeleteDirectory m s (d @ CHR ''/'' # n) = Some ?s" if x: "x = DirN sub" for sub
  proof -
    have "walk (root s) (path_of (d @ CHR ''/'' # n)) = Some x"
      using Cons.prems(4) n(1) e by (simp add: walk_child)
    then have "delete_loop m s (d @ CHR ''/'' # n) (map kind sub)
        = Some (s\<lparr>root := upd (path_of d @ [n]) (\<lambda>_. DirN []) (root s)\<rparr>)"
      using Cons.prems(1,3,5) n(1) x e by (simp add: deletes_def)
    then show ?thesis using delete_subdir [of s d "e # es" n sub m] Cons.prems n e x by simp
  qed
  ultimately show ?case
    using n e by (cases x) (simp_all add: delete_loop.simps(2) file_name_not_dots)
qed simp

lemma deletes_tree: "wf_tree n \<Longrightarrow> deletes m n"
proof (induction n rule: wf_tree.induct)
  case (2 es)
  then show ?case using delete_loop_all by (auto simp: deletes_def)
qed (simp add: deletes_def)

lemma ugDeleteDirectory_removes:
  assumes "healthy s" "walk (root s) (path_of d) = Some (DirN es)" "file_name n"
    "map_of es n = Some (DirN sub)" "wf_tree (DirN sub)" "paths_fit m (length d + 1 + length n) (DirN sub)"
  shows "ugDeleteDirectory m s (d @ CHR ''/'' # n)
     = Some (s\<lparr>root := upd (path_of d) (\<lambda>_. DirN (AList.delete n es)) (root s)\<rparr>)"
proof -
  have "walk (root s) (path_of (d @ CHR ''/'' # n)) = Some (DirN sub)"
    using assms by (simp add: walk_child)
  then have "delete_loop m s (d @ CHR ''/'' # n) (map kind sub)
      = Some (s\<lparr>root := upd (path_of d @ [n]) (\<lambda>_. DirN []) (root s)\<rparr>)"
    using deletes_tree [OF assms(5), of m] assms(1,3,6) by (simp add: deletes_def)
  then show ?thesis using delete_subdir assms by blast
qed

subsection \<open>Copying a directory\<close>

text \<open>
  The loop over the entries \<open>ss\<close> of a source directory whose listing is \<open>all\<close> appends them to the
  destination, whose entries are \<open>ds\<close>.
\<close>

definition copies :: "nat \<Rightarrow> (int \<Rightarrow> block option) \<Rightarrow> fnode \<Rightarrow> bool" where
  "copies m malloc n \<longleftrightarrow> (\<forall>s d c ss. n = DirN ss \<longrightarrow> healthy s
     \<longrightarrow> walk (root s) (path_of d) = Some (DirN []) \<longrightarrow> walk (root s) (path_of c) = Some n
     \<longrightarrow> diverge (path_of d) (path_of c)
     \<longrightarrow> paths_fit m (length d) n \<longrightarrow> paths_fit m (length c) n \<longrightarrow> allocatable malloc n
     \<longrightarrow> copy_loop m malloc s d c (map kind ss) 0 = Some (0, s\<lparr>root := upd (path_of d) (\<lambda>_. n) (root s)\<rparr>))"

lemma make_dest_exists:
  "healthy s \<Longrightarrow> walk (root s) (path_of d) = Some n \<Longrightarrow> make_dest s d ret = (ret, s)"
  by (simp add: make_dest_def fs_access_W_def healthy_def)

lemma copy_subdir:
  assumes "copies m malloc (DirN sub)" "healthy s" "walk (root s) (path_of d) = Some (DirN ds)" "file_name n"
    "walk (root s) (path_of c) = Some (DirN cs)" "map_of ds n = None" "map_of cs n = Some (DirN sub)"
    "diverge (path_of d) (path_of c)" "paths_fit m (length d + 1 + length n) (DirN sub)"
    "paths_fit m (length c + 1 + length n) (DirN sub)" "allocatable malloc (DirN sub)"
  shows "fs_mkdir s (d @ CHR ''/'' # n) = (0, s\<lparr>root := upd (path_of d) (\<lambda>_. DirN (ds @ [(n, DirN [])])) (root s)\<rparr>)"
    and "ugCopyDirectory m malloc (s\<lparr>root := upd (path_of d) (\<lambda>_. DirN (ds @ [(n, DirN [])])) (root s)\<rparr>)
           (d @ CHR ''/'' # n) (c @ CHR ''/'' # n)
         = Some (0, s\<lparr>root := upd (path_of d) (\<lambda>_. DirN (ds @ [(n, DirN sub)])) (root s)\<rparr>)"
proof -
  let ?r = "upd (path_of d) (\<lambda>_. DirN (ds @ [(n, DirN [])])) (root s)"
  let ?s = "s\<lparr>root := ?r\<rparr>"
  show "fs_mkdir s (d @ CHR ''/'' # n) = (0, ?s)"
    using mkdir_child assms by simp
  have up: "AList.update n x (ds @ [(n, y)]) = ds @ [(n, x)]" for x y
    using assms(6) by (induction ds) (auto split: if_splits)
  have wd: "walk ?r (path_of d) = Some (DirN (ds @ [(n, DirN [])]))"
    using assms(3) by (simp add: walk_upd_same)
  have wc: "walk ?r (path_of c) = Some (DirN cs)"
    using assms(5,8) by (simp add: walk_upd_diverge)
  have mo: "map_of (ds @ [(n, DirN [])]) n = Some (DirN [])"
    using assms(6) by (simp add: map_add_def split: option.splits)
  have sub: "walk ?r (path_of (c @ CHR ''/'' # n)) = Some (DirN sub)"
    using assms(4,7) wc by (simp add: walk_child)
  have dest: "walk ?r (path_of (d @ CHR ''/'' # n)) = Some (DirN [])"
    using assms(4) wd mo by (simp add: walk_child)
  have "copy_loop m malloc ?s (d @ CHR ''/'' # n) (c @ CHR ''/'' # n) (map kind sub) 0
      = Some (0, ?s\<lparr>root := upd (path_of d @ [n]) (\<lambda>_. DirN sub) ?r\<rparr>)"
    using assms sub dest diverge_append by (simp add: copies_def)
  then show "ugCopyDirectory m malloc ?s (d @ CHR ''/'' # n) (c @ CHR ''/'' # n)
         = Some (0, s\<lparr>root := upd (path_of d) (\<lambda>_. DirN (ds @ [(n, DirN sub)])) (root s)\<rparr>)"
    using sub wd mo up
    by (simp add: ugCopyDirectory.simps opendir_dir [of ?s "c @ CHR ''/'' # n" sub] listing_def upd_child
        upd_upd comp_def)
qed

lemma copy_loop_all:
  assumes "\<forall>e \<in> set ss. copies m malloc (snd e)" "wf_tree (DirN ss)" "healthy s"
    "walk (root s) (path_of d) = Some (DirN ds)" "walk (root s) (path_of c) = Some (DirN cs)"
    "\<forall>e \<in> set ss. map_of cs (fst e) = Some (snd e)" "\<forall>e \<in> set ss. map_of ds (fst e) = None"
    "diverge (path_of d) (path_of c)" "paths_fit m (length d) (DirN ss)" "paths_fit m (length c) (DirN ss)"
    "allocatable malloc (DirN ss)"
  shows "copy_loop m malloc s d c (map kind ss) 0
     = Some (0, s\<lparr>root := upd (path_of d) (\<lambda>_. DirN (ds @ ss)) (root s)\<rparr>)"
  using assms
proof (induction ss arbitrary: s ds)
  case (Cons e ss)
  obtain n x where e: "e = (n, x)" by (cases e)
  let ?s = "s\<lparr>root := upd (path_of d) (\<lambda>_. DirN (ds @ [e])) (root s)\<rparr>"
  have n: "file_name n" "length (d @ CHR ''/'' # n) < m" "length (c @ CHR ''/'' # n) < m"
    "map_of cs n = Some x" "map_of ds n = None"
    using Cons.prems e by auto
  have "copy_loop m malloc ?s d c (map kind ss) 0
      = Some (0, ?s\<lparr>root := upd (path_of d) (\<lambda>_. DirN ((ds @ [e]) @ ss)) (root ?s)\<rparr>)"
    using Cons.prems e
    by (intro Cons.IH) (auto simp: walk_upd_same walk_upd_diverge map_add_def image_iff)
  then have "copy_loop m malloc ?s d c (map kind ss) 0
      = Some (0, s\<lparr>root := upd (path_of d) (\<lambda>_. DirN (ds @ e # ss)) (root s)\<rparr>)"
    by (simp add: upd_upd comp_def)
  moreover have "ugCopyFile malloc s (d @ CHR ''/'' # n) (c @ CHR ''/'' # n) = (0, ?s)" if "x = FileN b" for b
    using ugCopyFile_copies [of s d ds n "c @ CHR ''/'' # n" b malloc] Cons.prems n e that
    by (simp add: walk_child update_append_new)
  moreover have "fs_mkdir s (d @ CHR ''/'' # n)
        = (0, s\<lparr>root := upd (path_of d) (\<lambda>_. DirN (ds @ [(n, DirN [])])) (root s)\<rparr>)"
      "ugCopyDirectory m malloc (s\<lparr>root := upd (path_of d) (\<lambda>_. DirN (ds @ [(n, DirN [])])) (root s)\<rparr>)
         (d @ CHR ''/'' # n) (c @ CHR ''/'' # n) = Some (0, ?s)" if "x = DirN sub" for sub
    using copy_subdir [of m malloc sub s d ds n c cs] Cons.prems n e that by simp_all
  moreover have "make_dest s d 0 = (0, s)"
    using make_dest_exists Cons.prems by blast
  ultimately show ?case
    using n e by (cases x) (simp_all add: copy_loop.simps(2) keep_error_def Let_def file_name_not_dots)
qed simp

lemma copies_tree: "wf_tree n \<Longrightarrow> copies m malloc n"
proof (induction n rule: wf_tree.induct)
  case (2 es)
  show ?case
    unfolding copies_def
  proof (intro allI impI)
    fix s d c ss
    assume a: "DirN es = DirN ss" "healthy s" "walk (root s) (path_of d) = Some (DirN [])"
      "walk (root s) (path_of c) = Some (DirN es)" "diverge (path_of d) (path_of c)"
      "paths_fit m (length d) (DirN es)" "paths_fit m (length c) (DirN es)" "allocatable malloc (DirN es)"
    have "\<forall>e \<in> set es. copies m malloc (snd e)" using 2 by auto
    moreover have "\<forall>e \<in> set es. map_of es (fst e) = Some (snd e)"
      using 2(2) by (auto intro: map_of_is_SomeI)
    ultimately show "copy_loop m malloc s d c (map kind ss) 0
        = Some (0, s\<lparr>root := upd (path_of d) (\<lambda>_. DirN es) (root s)\<rparr>)"
      using copy_loop_all [of es m malloc s d "[]" c es] a 2(2) by simp
  qed
qed (simp add: copies_def)

lemma ugCopyDirectory_copies:
  assumes "healthy s" "walk (root s) (path_of d) = Some (DirN ds)" "walk (root s) (path_of c) = Some (DirN ss)"
    "fst ` set ds \<inter> fst ` set ss = {}" "diverge (path_of d) (path_of c)" "wf_tree (DirN ss)"
    "paths_fit m (length d) (DirN ss)" "paths_fit m (length c) (DirN ss)" "allocatable malloc (DirN ss)"
  shows "ugCopyDirectory m malloc s d c = Some (0, s\<lparr>root := upd (path_of d) (\<lambda>_. DirN (ds @ ss)) (root s)\<rparr>)"
proof -
  have "\<forall>e \<in> set ss. copies m malloc (snd e)" using assms(6) copies_tree by auto
  moreover have "\<forall>e \<in> set ss. map_of ss (fst e) = Some (snd e)"
    using assms(6) by (auto intro: map_of_is_SomeI)
  moreover have "\<forall>e \<in> set ss. map_of ds (fst e) = None"
    using assms(4) by (auto simp: map_of_eq_None_iff)
  ultimately show ?thesis
    using copy_loop_all [of ss m malloc s d ds c ss] assms
    by (simp add: ugCopyDirectory.simps opendir_dir listing_def)
qed

subsection \<open>What a factory reset restores\<close>

text \<open>
  The specification: the entries of the destination after the backup \<open>ss\<close> was restored into a
  directory with the entries \<open>ds\<close>, and the first error. A directory of the backup whose namesake
  exists is skipped with an error.
\<close>

definition without :: "string \<Rightarrow> bool \<Rightarrow> (string \<times> fnode) list \<Rightarrow> (string \<times> fnode) list" where
  "without n dir ds =
     (case map_of ds n of
        None \<Rightarrow> ds
      | Some (FileN b) \<Rightarrow> if dir then ds else AList.delete n ds
      | Some (DirN es) \<Rightarrow> if dir \<or> es = [] then AList.delete n ds else ds)"

function restored ::
  "(string \<times> fnode) list \<Rightarrow> (string \<times> fnode) list \<Rightarrow> int \<Rightarrow> (string \<times> fnode) list \<times> int" where
  "restored ds [] ret = (ds, ret)"
| "restored ds ((n, x) # ss) ret =
     (if take 1 n = ''~'' then restored (without (drop 1 n) (is_dir x) ds) ss ret
      else if is_dir x then
        (if map_of ds n = None
         then restored (ds @ [(n, DirN (fst (restored [] (entries x) 0)))]) ss
                (keep_error ret (snd (restored [] (entries x) 0)))
         else restored ds ss (keep_error ret (-1)))
      else (case map_of ds n of
              Some (DirN es) \<Rightarrow> restored ds ss (keep_error ret EISDIR)
            | _ \<Rightarrow> restored (AList.update n x ds) ss ret))"
  by pat_completeness auto
termination
proof (relation "measure (\<lambda>(ds, ss, ret). size_list (size_prod (\<lambda>x. 0) size) ss)", goal_cases)
  case (3 ds n x ss ret)
  then show ?case by (cases x) simp_all
next
  case (4 ds n x ss ret)
  then show ?case by (cases x) simp_all
qed auto

text \<open>A tilde stands before a file name.\<close>

function backup_names :: "fnode \<Rightarrow> bool" where
  "backup_names (FileN b) = True"
| "backup_names (DirN es) =
     (\<forall>e \<in> set es. (take 1 (fst e) = ''~'' \<longrightarrow> file_name (drop 1 (fst e))) \<and> backup_names (snd e))"
  by pat_completeness auto
termination by (relation "measure size") (use size_entry in fastforce)+

lemma ball_update: "\<forall>e \<in> set ds. Q e \<Longrightarrow> Q (n, x) \<Longrightarrow> \<forall>e \<in> set (AList.update n x ds). Q e"
  by (induction ds) auto

lemma ball_without: "\<forall>e \<in> set ds. Q e \<Longrightarrow> \<forall>e \<in> set (without n b ds). Q e"
  by (auto simp: without_def AList.delete_eq split: option.splits fnode.splits)

lemma distinct_without: "distinct (map fst ds) \<Longrightarrow> distinct (map fst (without n b ds))"
  by (auto simp: without_def distinct_delete split: option.splits fnode.splits)

lemma wf_tree_append: "wf_tree (DirN ds) \<Longrightarrow> map_of ds n = None \<Longrightarrow> file_name n \<Longrightarrow> wf_tree x
   \<Longrightarrow> wf_tree (DirN (ds @ [(n, x)]))"
  by (auto simp: map_of_eq_None_iff)

lemma wf_tree_update: "wf_tree (DirN ds) \<Longrightarrow> file_name n \<Longrightarrow> wf_tree x \<Longrightarrow> wf_tree (DirN (AList.update n x ds))"
  unfolding wf_tree.simps by (intro conjI ball_update distinct_update) auto

lemma wf_tree_without: "wf_tree (DirN ds) \<Longrightarrow> wf_tree (DirN (without n b ds))"
  unfolding wf_tree.simps using ball_without distinct_without by blast

lemma paths_fit_update:
  "paths_fit m l (DirN ds) \<Longrightarrow> l + 1 + length n < m \<Longrightarrow> paths_fit m (l + 1 + length n) x
   \<Longrightarrow> paths_fit m l (DirN (AList.update n x ds))"
  unfolding paths_fit.simps by (intro ball_update) auto

lemma paths_fit_without: "paths_fit m l (DirN ds) \<Longrightarrow> paths_fit m l (DirN (without n b ds))"
  unfolding paths_fit.simps by (rule ball_without)

text \<open>What the steps keep is kept.\<close>

lemma restored_keeps:
  assumes "\<And>ds n sub. P ds \<Longrightarrow> map_of ds n = None \<Longrightarrow> (n, DirN sub) \<in> set ss
       \<Longrightarrow> P (ds @ [(n, DirN (fst (restored [] sub 0)))])"
    "\<And>ds n b. P ds \<Longrightarrow> (n, FileN b) \<in> set ss \<Longrightarrow> P (AList.update n (FileN b) ds)"
    "\<And>ds n b. P ds \<Longrightarrow> P (without n b ds)"
  shows "P ds \<Longrightarrow> P (fst (restored ds ss ret))"
  using assms(1,2)
proof (induction ss arbitrary: ds ret)
  case (Cons e ss)
  obtain n x where e: "e = (n, x)" by (cases e)
  have ih: "P (fst (restored ds' ss ret'))" if "P ds'" for ds' ret'
    using Cons.IH [OF that] Cons.prems(2,3) by simp
  have w: "P (without k b ds)" for k b
    using assms(3) Cons.prems by blast
  have u: "P (AList.update n x ds)" if "x = FileN b" for b
    using Cons.prems e that by simp
  have new: "P (ds @ [(n, DirN (fst (restored [] sub 0)))])" if "map_of ds n = None" "x = DirN sub" for sub
    using Cons.prems e that by simp
  show ?case
  proof (cases x)
    case (FileN b)
    show ?thesis
      unfolding e restored.simps FileN is_dir.simps if_False
      using ih w u [OF FileN] Cons.prems(1) FileN
      by (auto split: option.split fnode.split simp del: restored.simps map_of_eq_None_iff)
  next
    case (DirN sub)
    show ?thesis
      unfolding e restored.simps DirN is_dir.simps if_True entries.simps
      using ih w new [OF _ DirN] Cons.prems(1)
      by (auto simp del: restored.simps map_of_eq_None_iff)
  qed
qed simp

lemma restored_sub_fits:
  "paths_fit m l n \<Longrightarrow> paths_fit m l (DirN ds) \<Longrightarrow> paths_fit m l (DirN (fst (restored ds (entries n) ret)))"
proof (induction n arbitrary: l ds ret)
  case (DirN es)
  show ?case
    unfolding entries.simps
  proof (rule restored_keeps [where P = "\<lambda>ds. paths_fit m l (DirN ds)"])
    fix ds n sub
    assume a: "paths_fit m l (DirN ds)" "(n, DirN sub) \<in> set es"
    have "paths_fit m (l + 1 + length n) (DirN (fst (restored [] sub 0)))"
      using DirN(1) [of "(n, DirN sub)" "DirN sub" "l + 1 + length n" "[]" 0] DirN(2) a(2) by fastforce
    then show "paths_fit m l (DirN (ds @ [(n, DirN (fst (restored [] sub 0)))]))"
      using a DirN(2) by auto
  next
    fix ds n b
    assume a: "paths_fit m l (DirN ds)" "(n, FileN b) \<in> set es"
    then show "paths_fit m l (DirN (AList.update n (FileN b) ds))"
      using DirN(2) unfolding paths_fit.simps by (intro ball_update) auto
  next
    fix ds n b
    assume "paths_fit m l (DirN ds)"
    then show "paths_fit m l (DirN (without n b ds))"
      unfolding paths_fit.simps by (rule ball_without)
  qed (fact DirN(3))
qed simp

lemma restored_sub_wf:
  "wf_tree n \<Longrightarrow> wf_tree (DirN ds) \<Longrightarrow> wf_tree (DirN (fst (restored ds (entries n) ret)))"
proof (induction n arbitrary: ds ret)
  case (DirN es)
  show ?case
    unfolding entries.simps
  proof (rule restored_keeps [where P = "\<lambda>ds. wf_tree (DirN ds)"])
    fix ds n sub
    assume a: "wf_tree (DirN ds)" "map_of ds n = None" "(n, DirN sub) \<in> set es"
    have "wf_tree (DirN (fst (restored [] sub 0)))"
      using DirN(1) [of "(n, DirN sub)" "DirN sub" "[]" 0] DirN(2) a(3) by fastforce
    then show "wf_tree (DirN (ds @ [(n, DirN (fst (restored [] sub 0)))]))"
      using a DirN(2) by (auto simp: map_of_eq_None_iff)
  next
    fix ds n b
    assume a: "wf_tree (DirN ds)" "(n, FileN b) \<in> set es"
    then show "wf_tree (DirN (AList.update n (FileN b) ds))"
      using DirN(2) unfolding wf_tree.simps by (intro conjI ball_update distinct_update) auto
  next
    fix ds n b
    assume "wf_tree (DirN ds)"
    then show "wf_tree (DirN (without n b ds))"
      unfolding wf_tree.simps using ball_without distinct_without by blast
  qed (fact DirN(3))
qed simp

subsection \<open>The factory reset meets its specification\<close>

text \<open>A state in which the directory \<open>d\<close> has the entries \<open>ds\<close>, up to \<open>errno\<close>.\<close>

definition with_dir :: "fsys \<Rightarrow> string \<Rightarrow> (string \<times> fnode) list \<Rightarrow> int \<Rightarrow> fsys" where
  "with_dir s d ds e = s\<lparr>root := upd (path_of d) (\<lambda>_. DirN ds) (root s), errno := e\<rparr>"

lemma with_dir_simps [simp]:
  "healthy (with_dir s d ds e) = healthy s"
  "with_dir (with_dir s d ds e) d ds' e' = with_dir s d ds' e'"
  by (simp_all add: with_dir_def upd_upd comp_def)

lemma to_with_dir:
  "s\<lparr>root := upd (path_of d) (\<lambda>_. DirN ds) (root s)\<rparr> = with_dir s d ds (errno s)"
  by (simp add: with_dir_def)

lemma with_dir_walk:
  "walk (root s) (path_of d) = Some n \<Longrightarrow> walk (root (with_dir s d ds e)) (path_of d) = Some (DirN ds)"
  "diverge (path_of d) c \<Longrightarrow> walk (root (with_dir s d ds e)) c = walk (root s) c"
  by (simp_all add: with_dir_def walk_upd_same walk_upd_diverge)

lemma with_dir_errno:
  "walk (root s) (path_of d) = Some (DirN ds) \<Longrightarrow> s\<lparr>errno := e\<rparr> = with_dir s d ds e"
  "walk (root s) (path_of d) = Some (DirN ds) \<Longrightarrow> with_dir s d ds (errno s) = s"
  by (simp_all add: with_dir_def upd_same)

lemma with_dir_child:
  assumes "walk (root s) (path_of d) = Some n" "file_name k" "map_of ds k = Some x"
  shows "with_dir (with_dir s d ds e) (d @ CHR ''/'' # k) es e' = with_dir s d (AList.update k (DirN es) ds) e'"
  using assms upd_child [of "root (with_dir s d ds e)" "path_of d" ds k x "\<lambda>_. DirN es"]
  by (simp add: with_dir_walk) (simp add: with_dir_def upd_upd comp_def)

lemma remove_without:
  assumes "healthy s" "walk (root s) (path_of d) = Some (DirN ds)" "file_name k"
  shows "\<exists>e. snd (fs_remove s (d @ CHR ''/'' # k)) = with_dir s d (without k False ds) e"
proof (cases "map_of ds k")
  case None
  then show ?thesis using assms
    by (auto simp: fs_remove_def fs_rmdir_def walk_child without_def Let_def with_dir_errno)
next
  case (Some x)
  show ?thesis
  proof (cases x)
    case (FileN b)
    then show ?thesis using remove_child [OF assms] Some by (auto simp: without_def to_with_dir)
  next
    case (DirN es)
    have r: "fs_remove s (d @ CHR ''/'' # k) = fs_rmdir s (d @ CHR ''/'' # k)"
      using Some DirN assms by (simp add: fs_remove_def walk_child)
    show ?thesis
    proof (cases "es = []")
      case True
      then show ?thesis using r rmdir_child [OF assms] Some DirN by (auto simp: without_def to_with_dir)
    next
      case False
      then show ?thesis using r Some DirN assms
        by (auto simp: fs_rmdir_def walk_child without_def Let_def with_dir_errno)
    qed
  qed
qed

lemma delete_without:
  assumes "healthy s" "walk (root s) (path_of d) = Some (DirN ds)" "file_name k"
    "wf_tree (DirN ds)" "paths_fit m (length d) (DirN ds)"
  shows "\<exists>e. ugDeleteDirectory m s (d @ CHR ''/'' # k) = Some (with_dir s d (without k True ds) e)"
proof (cases "map_of ds k")
  case None
  then show ?thesis using assms
    by (auto simp: ugDeleteDirectory.simps fs_opendir_def walk_child without_def with_dir_errno)
next
  case (Some x)
  show ?thesis
  proof (cases x)
    case (FileN b)
    then show ?thesis using assms Some
      by (auto simp: ugDeleteDirectory.simps fs_opendir_def walk_child without_def with_dir_errno)
  next
    case (DirN es)
    have "(k, DirN es) \<in> set ds" using Some DirN map_of_SomeD by fast
    then have "wf_tree (DirN es)" "paths_fit m (length d + 1 + length k) (DirN es)"
      using assms(4,5) by fastforce+
    then show ?thesis
      using ugDeleteDirectory_removes [OF assms(1-3)] Some DirN by (auto simp: without_def to_with_dir)
  qed
qed

lemma copy_updates:
  assumes "healthy s" "walk (root s) (path_of d) = Some (DirN ds)" "file_name n"
    "walk (root s) (path_of c) = Some (FileN b)" "malloc (int (length b)) \<noteq> None"
  shows "\<exists>e. ugCopyFile malloc s (d @ CHR ''/'' # n) c =
     (case map_of ds n of Some (DirN es) \<Rightarrow> (EISDIR, with_dir s d ds e)
      | _ \<Rightarrow> (0, with_dir s d (AList.update n (FileN b) ds) e))"
proof (cases "map_of ds n")
  case None
  then show ?thesis
    using ugCopyFile_copies [where malloc = malloc and src = c, OF assms(1-4)] assms(5)
    by (auto simp: to_with_dir)
next
  case (Some x)
  then show ?thesis
    using ugCopyFile_copies [where malloc = malloc and src = c, OF assms(1-4)] assms(2,5)
      ugCopyFile_onto_dir [where malloc = malloc and src = c, OF assms(1-4)]
    by (cases x) (auto simp: to_with_dir with_dir_errno)
qed

definition restores :: "nat \<Rightarrow> (int \<Rightarrow> block option) \<Rightarrow> fnode \<Rightarrow> bool" where
  "restores m malloc n \<longleftrightarrow> (\<forall>s d c ss. n = DirN ss \<longrightarrow> healthy s
     \<longrightarrow> walk (root s) (path_of d) = Some (DirN []) \<longrightarrow> walk (root s) (path_of c) = Some n
     \<longrightarrow> diverge (path_of d) (path_of c) \<longrightarrow> backup_names n
     \<longrightarrow> paths_fit m (length d) n \<longrightarrow> paths_fit m (length c) n \<longrightarrow> allocatable malloc n
     \<longrightarrow> (\<exists>e. restore_loop m malloc s d c (map kind ss) 0
                = Some (snd (restored [] ss 0), with_dir s d (fst (restored [] ss 0)) e)))"

lemma restoresD:
  "restores m malloc (DirN ss) \<Longrightarrow> healthy s \<Longrightarrow> walk (root s) (path_of d) = Some (DirN [])
   \<Longrightarrow> walk (root s) (path_of c) = Some (DirN ss) \<Longrightarrow> diverge (path_of d) (path_of c) \<Longrightarrow> backup_names (DirN ss)
   \<Longrightarrow> paths_fit m (length d) (DirN ss) \<Longrightarrow> paths_fit m (length c) (DirN ss) \<Longrightarrow> allocatable malloc (DirN ss)
   \<Longrightarrow> \<exists>e. restore_loop m malloc s d c (map kind ss) 0
          = Some (snd (restored [] ss 0), with_dir s d (fst (restored [] ss 0)) e)"
  unfolding restores_def by blast

lemma restore_subdir:
  assumes "restores m malloc (DirN sub)" "healthy s" "walk (root s) (path_of d) = Some (DirN ds)" "file_name n"
    "walk (root s) (path_of c) = Some (DirN cs)" "map_of ds n = None" "map_of cs n = Some (DirN sub)"
    "diverge (path_of d) (path_of c)" "backup_names (DirN sub)" "paths_fit m (length d + 1 + length n) (DirN sub)"
    "paths_fit m (length c + 1 + length n) (DirN sub)" "allocatable malloc (DirN sub)"
  shows "\<exists>e s'. fs_mkdir s (d @ CHR ''/'' # n) = (0, s')
    \<and> ugRestoreDir m malloc s' (d @ CHR ''/'' # n) (c @ CHR ''/'' # n)
       = Some (snd (restored [] sub 0), with_dir s d (ds @ [(n, DirN (fst (restored [] sub 0)))]) e)"
proof -
  let ?s = "with_dir s d (ds @ [(n, DirN [])]) (errno s)"
  have mk: "fs_mkdir s (d @ CHR ''/'' # n) = (0, ?s)"
    using mkdir_child assms by (simp add: to_with_dir)
  have up: "AList.update n x (ds @ [(n, y)]) = ds @ [(n, x)]" for x y
    using assms(6) by (induction ds) (auto split: if_splits)
  have mo: "map_of (ds @ [(n, DirN [])]) n = Some (DirN [])"
    using assms(6) by (simp add: map_add_def split: option.splits)
  have sub: "walk (root ?s) (path_of (c @ CHR ''/'' # n)) = Some (DirN sub)"
    using assms with_dir_walk(2) by (simp add: walk_child)
  have dest: "walk (root ?s) (path_of (d @ CHR ''/'' # n)) = Some (DirN [])"
    using assms with_dir_walk(1) mo by (simp add: walk_child)
  have "diverge (path_of (d @ CHR ''/'' # n)) (path_of (c @ CHR ''/'' # n))"
    using assms(4,8) diverge_append by simp
  then obtain e where "restore_loop m malloc ?s (d @ CHR ''/'' # n) (c @ CHR ''/'' # n) (map kind sub) 0
      = Some (snd (restored [] sub 0), with_dir ?s (d @ CHR ''/'' # n) (fst (restored [] sub 0)) e)"
    using restoresD [of m malloc sub ?s "d @ CHR ''/'' # n" "c @ CHR ''/'' # n"] assms(1,2,9-12) sub dest
    by (auto simp del: paths_fit.simps backup_names.simps allocatable.simps)
  then have "ugRestoreDir m malloc ?s (d @ CHR ''/'' # n) (c @ CHR ''/'' # n)
      = Some (snd (restored [] sub 0), with_dir s d (ds @ [(n, DirN (fst (restored [] sub 0)))]) e)"
    using sub mo up with_dir_child [OF assms(3,4), of "ds @ [(n, DirN [])]"]
    by (simp add: ugRestoreDir.simps opendir_dir [of ?s "c @ CHR ''/'' # n" sub] listing_def)
  then show ?thesis using mk by blast
qed

lemma restore_loop_all:
  assumes "\<forall>e \<in> set ss. restores m malloc (snd e)" "wf_tree (DirN ss)" "healthy s"
    "walk (root s) (path_of d) = Some (DirN ds)" "walk (root s) (path_of c) = Some (DirN cs)"
    "\<forall>e \<in> set ss. map_of cs (fst e) = Some (snd e)" "diverge (path_of d) (path_of c)"
    "backup_names (DirN ss)" "wf_tree (DirN ds)" "paths_fit m (length d) (DirN ds)"
    "paths_fit m (length d) (DirN ss)" "paths_fit m (length c) (DirN ss)" "allocatable malloc (DirN ss)"
  shows "\<exists>e. restore_loop m malloc s d c (map kind ss) ret
     = Some (snd (restored ds ss ret), with_dir s d (fst (restored ds ss ret)) e)"
  using assms
proof (induction ss arbitrary: s ds ret)
  case Nil
  then show ?case using with_dir_errno(2) by (metis restore_loop.simps(1) list.simps(8) restored.simps(1) fst_conv snd_conv)
next
  case (Cons e ss)
  obtain n x where e: "e = (n, x)" by (cases e)
  have n: "file_name n" "length (d @ CHR ''/'' # n) < m" "length (c @ CHR ''/'' # n) < m"
    "length (d @ CHR ''/'' # drop 1 n) < m" "map_of cs n = Some x"
    "take 1 n = ''~'' \<Longrightarrow> file_name (drop 1 n)"
    using Cons.prems e by auto
  have sub: "restores m malloc x" "backup_names x" "paths_fit m (length d + 1 + length n) x" "wf_tree x"
    "paths_fit m (length c + 1 + length n) x" "allocatable malloc x"
    using Cons.prems e by auto
  have ih: "\<exists>e. restore_loop m malloc (with_dir s d ds' e') d c (map kind ss) ret'
     = Some (snd (restored ds' ss ret'), with_dir s d (fst (restored ds' ss ret')) e)"
    if "wf_tree (DirN ds')" "paths_fit m (length d) (DirN ds')" for ds' e' ret'
    using Cons.IH [of "with_dir s d ds' e'" ds' ret'] Cons.prems that
    by (auto simp: with_dir_walk)
  have step: "restore_loop m malloc s d c (map kind (e # ss)) ret
     = restore_loop m malloc s d c (kind (n, x) # map kind ss) ret" by (simp add: e)
  note loop = step restore_loop.simps(2) Let_def file_name_not_dots
  show ?case
  proof (cases "take 1 n = ''~''")
    case True
    show ?thesis
    proof (cases x)
      case (FileN b)
      obtain e' where "snd (fs_remove s (d @ CHR ''/'' # drop 1 n)) = with_dir s d (without (drop 1 n) False ds) e'"
        using remove_without Cons.prems(3,4) n(6) True by blast
      then show ?thesis
        using True FileN n ih [OF wf_tree_without [OF Cons.prems(9)] paths_fit_without [OF Cons.prems(10)]] e
        by (simp add: loop)
    next
      case (DirN sb)
      obtain e' where "ugDeleteDirectory m s (d @ CHR ''/'' # drop 1 n) = Some (with_dir s d (without (drop 1 n) True ds) e')"
        using delete_without Cons.prems(3,4,9,10) n(6) True by blast
      then show ?thesis
        using True DirN n ih [OF wf_tree_without [OF Cons.prems(9)] paths_fit_without [OF Cons.prems(10)]] e
        by (simp add: loop)
    qed
  next
    case False
    show ?thesis
    proof (cases x)
      case (FileN b)
      have src: "walk (root s) (path_of (c @ CHR ''/'' # n)) = Some (FileN b)"
        using Cons.prems(5) n(1,5) FileN by (simp add: walk_child)
      obtain e' where "ugCopyFile malloc s (d @ CHR ''/'' # n) (c @ CHR ''/'' # n)
         = (case map_of ds n of Some (DirN es) \<Rightarrow> (EISDIR, with_dir s d ds e')
            | _ \<Rightarrow> (0, with_dir s d (AList.update n (FileN b) ds) e'))"
        using copy_updates [OF Cons.prems(3,4) n(1) src] sub(6) FileN by auto
      then show ?thesis
        using False FileN n ih [OF Cons.prems(9,10)] e sub
          ih [OF wf_tree_update [OF Cons.prems(9) n(1) sub(4)] paths_fit_update [OF Cons.prems(10) _ sub(3)]]
        by (auto simp: loop keep_error_def split: option.splits fnode.splits)
    next
      case (DirN sb)
      show ?thesis
      proof (cases "map_of ds n")
        case None
        obtain e' s' where "fs_mkdir s (d @ CHR ''/'' # n) = (0, s')"
          "ugRestoreDir m malloc s' (d @ CHR ''/'' # n) (c @ CHR ''/'' # n)
             = Some (snd (restored [] sb 0), with_dir s d (ds @ [(n, DirN (fst (restored [] sb 0)))]) e')"
          using restore_subdir [OF _ Cons.prems(3,4) n(1) Cons.prems(5) None _ Cons.prems(7)] sub n(5) DirN
          by blast
        moreover have "wf_tree (DirN (fst (restored [] (entries x) 0)))"
          by (rule restored_sub_wf [OF sub(4)]) simp
        then have "wf_tree (DirN (ds @ [(n, DirN (fst (restored [] sb 0)))]))"
          using wf_tree_append [OF Cons.prems(9) None n(1)] DirN by (simp only: entries.simps)
        moreover have "paths_fit m (length d + 1 + length n) (DirN (fst (restored [] (entries x) 0)))"
          by (rule restored_sub_fits [OF sub(3)]) simp
        then have "paths_fit m (length d) (DirN (ds @ [(n, DirN (fst (restored [] sb 0)))]))"
          using Cons.prems(10) n(2) DirN by simp
        ultimately show ?thesis
          using False None n ih e DirN by (simp add: loop)
      next
        case (Some y)
        have "fs_mkdir s (d @ CHR ''/'' # n) = (-1, with_dir s d ds EEXIST)"
          using mkdir_child [OF Cons.prems(3,4) n(1)] Some with_dir_errno(1) [OF Cons.prems(4)] by simp
        then show ?thesis
          using False Some n ih [OF Cons.prems(9,10)] e DirN by (simp add: loop)
      qed
    qed
  qed
qed


lemma restores_tree: "wf_tree n \<Longrightarrow> restores m malloc n"
proof (induction n)
  case (DirN es)
  have ch: "\<forall>e \<in> set es. restores m malloc (snd e)"
    using DirN by fastforce
  have self: "\<forall>e \<in> set es. map_of es (fst e) = Some (snd e)"
    using DirN(2) by (auto intro: map_of_is_SomeI)
  show ?case
    unfolding restores_def
    using restore_loop_all [OF ch DirN(2) _ _ _ self] by auto
qed (simp add: restores_def)

lemma ugRestoreDir_restores:
  assumes "healthy s" "walk (root s) (path_of d) = Some (DirN ds)" "walk (root s) (path_of c) = Some (DirN ss)"
    "diverge (path_of d) (path_of c)" "backup_names (DirN ss)" "wf_tree (DirN ss)" "wf_tree (DirN ds)"
    "paths_fit m (length d) (DirN ds)" "paths_fit m (length d) (DirN ss)" "paths_fit m (length c) (DirN ss)"
    "allocatable malloc (DirN ss)"
  shows "\<exists>e. ugRestoreDir m malloc s d c
     = Some (snd (restored ds ss 0), with_dir s d (fst (restored ds ss 0)) e)"
proof -
  have ch: "\<forall>e \<in> set ss. restores m malloc (snd e)"
    using restores_tree assms(6) by simp
  have self: "\<forall>e \<in> set ss. map_of ss (fst e) = Some (snd e)"
    using assms(6) by (auto intro: map_of_is_SomeI)
  show ?thesis
    using restore_loop_all [OF ch assms(6,1,2,3) self assms(4,5,7,8,9,10,11)] assms(3)
    by (simp add: ugRestoreDir.simps opendir_dir listing_def)
qed

subsection \<open>All drives\<close>

text \<open>What the backup \<open>ss\<close> of a drive must be for the restoration to meet its specification.\<close>

definition backup_ok :: "nat \<Rightarrow> (int \<Rightarrow> block option) \<Rightarrow> string \<Rightarrow> (string \<times> fnode) list \<Rightarrow> string
    \<Rightarrow> (string \<times> fnode) list \<Rightarrow> bool" where
  "backup_ok m malloc drive ds n ss \<longleftrightarrow> n \<noteq> drive \<and> wf_tree (DirN ds)
     \<and> length (n @ '':'') < m \<and> length (drive @ '':/backup/'' @ n) < m
     \<and> paths_fit m (length (n @ '':'')) (DirN ds) \<and> paths_fit m (length (n @ '':'')) (DirN ss)
     \<and> paths_fit m (length (drive @ '':/backup/'' @ n)) (DirN ss)
     \<and> backup_names (DirN ss) \<and> allocatable malloc (DirN ss)"

lemma backup_path:
  assumes "file_name (drive @ '':'')" "file_name n"
  shows "path_of (drive @ '':/backup'') = [drive @ '':'', ''backup'']"
    "path_of (drive @ '':/backup/'' @ n) = [drive @ '':'', ''backup'', n]"
proof -
  have b: "file_name ''backup''" by (simp add: file_name_def)
  show p: "path_of (drive @ '':/backup'') = [drive @ '':'', ''backup'']"
    using path_of_slash [OF b, of "drive @ '':''"] assms(1) by simp
  show "path_of (drive @ '':/backup/'' @ n) = [drive @ '':'', ''backup'', n]"
    using path_of_slash [OF assms(2), of "drive @ '':/backup''"] p by simp
qed

text \<open>The drives named by the entries \<open>es\<close> are restored, the others are as they were.\<close>

definition drives_restored ::
  "(string \<times> fnode) list \<Rightarrow> int \<Rightarrow> fsys \<Rightarrow> int \<Rightarrow> fsys \<Rightarrow> bool" where
  "drives_restored es ret s ret' s' \<longleftrightarrow>
     (\<forall>n ss ds. (n, DirN ss) \<in> set es \<longrightarrow> walk (root s) [n @ '':''] = Some (DirN ds)
        \<longrightarrow> walk (root s') [n @ '':''] = Some (DirN (fst (restored ds ss 0))))
   \<and> (\<forall>k. k \<notin> fst ` set es \<longrightarrow> walk (root s') [k @ '':''] = walk (root s) [k @ '':''])
   \<and> (ret' = 0 \<longleftrightarrow> ret = 0 \<and> (\<forall>n ss ds. (n, DirN ss) \<in> set es
        \<longrightarrow> walk (root s) [n @ '':''] = Some (DirN ds) \<longrightarrow> snd (restored ds ss 0) = 0))"

lemma reset_loop_all:
  assumes "file_name (drive @ '':'')" "healthy s"
    "\<forall>e \<in> set es. file_name (fst e) \<and> file_name (fst e @ '':'') \<and> wf_tree (snd e)" "distinct (map fst es)"
    "\<forall>n ss. (n, DirN ss) \<in> set es \<longrightarrow> walk (root s) [drive @ '':'', ''backup'', n] = Some (DirN ss)
       \<and> (\<exists>ds. walk (root s) [n @ '':''] = Some (DirN ds) \<and> backup_ok m malloc drive ds n ss)"
  shows "\<exists>ret' s'. reset_loop m malloc s drive (map kind es) ret = Some (ret', s')
    \<and> drives_restored es ret s ret' s'"
  using assms(2-)
proof (induction es arbitrary: s ret)
  case Nil
  then show ?case by (simp add: drives_restored_def)
next
  case (Cons e es)
  obtain n x where e: "e = (n, x)" by (cases e)
  have n: "file_name n" "file_name (n @ '':'')" "n \<notin> fst ` set es" "wf_tree x" using Cons.prems e by auto
  show ?case
  proof (cases x)
    case (FileN b)
    obtain ret' s' where "reset_loop m malloc s drive (map kind es) ret = Some (ret', s')"
      "drives_restored es ret s ret' s'"
      using Cons.IH [of s ret] Cons.prems by auto
    then show ?thesis
      using n e FileN by (intro exI [of _ ret'] exI [of _ s']) (auto simp: drives_restored_def)
  next
    case (DirN ss)
    obtain ds where ds: "walk (root s) [n @ '':''] = Some (DirN ds)" "backup_ok m malloc drive ds n ss"
      "walk (root s) [drive @ '':'', ''backup'', n] = Some (DirN ss)"
      using Cons.prems(4) e DirN by auto
    define R where "R = restored ds ss 0"
    have nd: "n \<noteq> drive" using ds(2) by (simp add: backup_ok_def)
    obtain e' where r: "ugRestoreDir m malloc s (n @ '':'') (drive @ '':/backup/'' @ n)
        = Some (snd R, with_dir s (n @ '':'') (fst R) e')"
    proof -
      have "path_of (n @ '':'') = [n @ '':'']" using n(2) by simp
      then show ?thesis
        using ugRestoreDir_restores [of s "n @ '':''" ds "drive @ '':/backup/'' @ n" ss m malloc]
          ds Cons.prems(1) n(4) DirN nd that backup_path(2) [OF assms(1) n(1)]
        unfolding R_def backup_ok_def by fastforce
    qed
    let ?s = "with_dir s (n @ '':'') (fst R) e'"
    have same: "walk (root ?s) (k @ ks) = walk (root s) (k @ ks)" if "diverge [n @ '':''] k" for k ks
      using with_dir_walk(2) [of "n @ '':''" "k @ ks"] diverge_append [OF that, of "[]" ks] n by simp
    have other: "walk (root ?s) [k @ '':''] = walk (root s) [k @ '':'']" if "k \<noteq> n" for k
      using same [of "[k @ '':'']" "[]"] that by simp
    have kept: "walk (root ?s) [drive @ '':'', ''backup'', k] = walk (root s) [drive @ '':'', ''backup'', k]" for k
      using same [of "[drive @ '':'']" "[''backup'', k]"] nd by simp
    have here: "walk (root ?s) [n @ '':''] = Some (DirN (fst R))"
      using with_dir_walk(1) [of s "n @ '':''"] ds(1) n by simp
    have ne: "k \<noteq> n" if "(k, z) \<in> set es" for k z
      using n(3) that by force
    have "\<forall>k ss. (k, DirN ss) \<in> set es \<longrightarrow> walk (root ?s) [drive @ '':'', ''backup'', k] = Some (DirN ss)
       \<and> (\<exists>ds. walk (root ?s) [k @ '':''] = Some (DirN ds) \<and> backup_ok m malloc drive ds k ss)"
    proof (intro allI impI)
      fix k ss assume k: "(k, DirN ss) \<in> set es"
      then have "(k, DirN ss) \<in> set (e # es)" by simp
      then show "walk (root ?s) [drive @ '':'', ''backup'', k] = Some (DirN ss)
         \<and> (\<exists>ds. walk (root ?s) [k @ '':''] = Some (DirN ds) \<and> backup_ok m malloc drive ds k ss)"
        using Cons.prems(4) other [OF ne [OF k]] unfolding kept by metis
    qed
    then obtain ret' s' where ih: "reset_loop m malloc ?s drive (map kind es) (keep_error ret (snd R)) = Some (ret', s')"
      "drives_restored es (keep_error ret (snd R)) ?s ret' s'"
      using Cons.IH [of ?s "keep_error ret (snd R)"] Cons.prems(1-3) by auto
    have "length (n @ '':'') < m \<and> length (drive @ '':/backup/'' @ n) < m"
      using ds(2) by (simp add: backup_ok_def)
    then have "reset_loop m malloc s drive (map kind (e # es)) ret = Some (ret', s')"
      using r ih n e DirN by (simp add: path_fits_def file_name_not_dots)
    moreover have "drives_restored (e # es) ret s ret' s'"
    proof -
      have "walk (root s') [n @ '':''] = Some (DirN (fst R))"
        using ih(2) n(3) here unfolding drives_restored_def by metis
      moreover have "walk (root ?s) [k @ '':''] = Some (DirN ds') \<longleftrightarrow> walk (root s) [k @ '':''] = Some (DirN ds')"
        if "(k, z) \<in> set es" for k z ds'
        using other [OF ne [OF that]] by simp
      moreover have "keep_error ret (snd R) = 0 \<longleftrightarrow> ret = 0 \<and> snd R = 0"
        by (simp add: keep_error_def)
      ultimately show ?thesis
        using ih(2) other ds(1) e DirN unfolding drives_restored_def R_def
        by (simp add: all_conj_distrib imp_conjR del: walk.simps)
    qed
    ultimately show ?thesis by blast
  qed
qed

lemma ugResetFactory_restores:
  assumes "file_name (drive @ '':'')" "healthy s"
    "walk (root s) [drive @ '':'', ''backup''] = Some (DirN es)" "wf_tree (DirN es)"
    "\<forall>e \<in> set es. file_name (fst e @ '':'')"
    "\<forall>n ss. (n, DirN ss) \<in> set es
       \<longrightarrow> (\<exists>ds. walk (root s) [n @ '':''] = Some (DirN ds) \<and> backup_ok m malloc drive ds n ss)"
  shows "\<exists>ret s'. ugResetFactory m malloc s drive = Some (ret, s') \<and> drives_restored es 0 s ret s'"
proof -
  have "walk (root s) [drive @ '':'', ''backup'', n] = Some x" if "(n, x) \<in> set es" for n x
    using that assms(3,4) walk_child [of "root s" "[drive @ '':'', ''backup'']" es n]
    by (simp add: map_of_is_SomeI del: walk.simps)
  then have "\<forall>n ss. (n, DirN ss) \<in> set es \<longrightarrow> walk (root s) [drive @ '':'', ''backup'', n] = Some (DirN ss)
       \<and> (\<exists>ds. walk (root s) [n @ '':''] = Some (DirN ds) \<and> backup_ok m malloc drive ds n ss)"
    using assms(6) by blast
  moreover have "\<forall>e \<in> set es. file_name (fst e) \<and> file_name (fst e @ '':'') \<and> wf_tree (snd e)" "distinct (map fst es)"
    using assms(4,5) by simp_all
  ultimately have "\<exists>ret s'. reset_loop m malloc s drive (map kind es) 0 = Some (ret, s') \<and> drives_restored es 0 s ret s'"
    using reset_loop_all [OF assms(1,2)] by blast
  moreover have "fs_opendir s (drive @ '':/backup'') = (Some (listing es), s)"
  proof -
    have "file_name ''backup''" by (simp add: file_name_def)
    then show ?thesis
      using opendir_dir backup_path(1) [OF assms(1)] assms(3) by metis
  qed
  ultimately show ?thesis by (simp add: ugResetFactory_def listing_def)
qed

end
