(* ===== verification/Itu_Effect.thy ===== *)
theory Itu_Effect
  imports CB_Prelude
begin

text \<open>
  The animations of \<open>sdk/share/itu\<close>: \<open>itu_effect.c\<close>, \<open>itu_fadeeffect.c\<close>, \<open>itu_scrolleffect.c\<close>,
  \<open>itu_scrollfadeeffect.c\<close>, \<open>itu_scaleeffect.c\<close>, \<open>itu_scalefadeeffect.c\<close> and \<open>itu_wipeeffect.c\<close>.
  An effect structure embeds the one it is based on as its first member, and is a record that
  extends it here, so the base functions apply to it as they do after the casts of the code. The
  geometry is unbounded integers (screen coordinates are far below overflow). A division by a
  total of zero steps is undefined (\<open>None\<close>).
\<close>

record ITURectangle =
  xpos :: int
  ypos :: int
  width :: int
  height :: int

text \<open>The part of a widget that effects use.\<close>

record ITUWidgetBase =
  flags :: "32 word"
  visible :: bool
  active :: bool
  dirty :: bool
  alpha :: "8 word"
  rect :: ITURectangle
  bound :: ITURectangle

definition ituWidgetSetBoundImpl ::
  "'a ITUWidgetBase_scheme \<Rightarrow> int \<Rightarrow> int \<Rightarrow> int \<Rightarrow> int \<Rightarrow> 'a ITUWidgetBase_scheme" where
  "ituWidgetSetBoundImpl w x y wd ht =
     w\<lparr>bound := \<lparr>xpos = x, ypos = y, width = wd, height = ht\<rparr>, dirty := True\<rparr>"

text \<open>The division of C, which truncates.\<close>

definition cdiv :: "int \<Rightarrow> int \<Rightarrow> int option" where
  "cdiv a b = (if b = 0 then None else Some (a sdiv b))"

subsection \<open>The base effect\<close>

record ITUEffect =
  totalStep :: int
  currStep :: int
  playing :: bool

definition ituEffectUpdateImpl :: "'e ITUEffect_scheme \<Rightarrow> 'e ITUEffect_scheme" where
  "ituEffectUpdateImpl e =
     (if currStep e = totalStep e then e\<lparr>playing := False\<rparr> else e\<lparr>currStep := currStep e + 1\<rparr>)"

definition ituEffectStartImpl :: "'e ITUEffect_scheme \<Rightarrow> 'e ITUEffect_scheme" where
  "ituEffectStartImpl e = e\<lparr>currStep := 0, playing := True\<rparr>"

definition ituEffectStopImpl :: "'e ITUEffect_scheme \<Rightarrow> 'e ITUEffect_scheme" where
  "ituEffectStopImpl e = e\<lparr>currStep := totalStep e, playing := False\<rparr>"

definition ITU_EFFECT_STEP_COUNT :: int where
  "ITU_EFFECT_STEP_COUNT = 10"

definition ituEffectInit :: ITUEffect where
  "ituEffectInit = \<lparr>totalStep = ITU_EFFECT_STEP_COUNT, currStep = 0, playing = False\<rparr>"

text \<open>The alpha value of the fading effects at the current step.\<close>

definition fade_alpha :: "'e ITUEffect_scheme \<Rightarrow> bool \<Rightarrow> 8 word \<Rightarrow> 8 word option" where
  "fade_alpha e fade_in org =
     map_option word_of_int
       (cdiv (uint org * (if fade_in then currStep e else totalStep e - currStep e)) (totalStep e))"

subsection \<open>Fading\<close>

record ITUFadeEffect = ITUEffect +
  fade_in :: bool
  fade_orgAlpha :: "8 word"

definition FadeEffectUpdate ::
  "ITUFadeEffect \<Rightarrow> 'w ITUWidgetBase_scheme \<Rightarrow> (ITUFadeEffect \<times> 'w ITUWidgetBase_scheme) option" where
  "FadeEffectUpdate fe w =
     do { a \<leftarrow> fade_alpha fe (fade_in fe) (fade_orgAlpha fe);
          Some (ituEffectUpdateImpl fe, w\<lparr>alpha := a\<rparr>) }"

definition FadeEffectStart ::
  "ITUFadeEffect \<Rightarrow> 'w ITUWidgetBase_scheme \<Rightarrow> ITUFadeEffect \<times> 'w ITUWidgetBase_scheme" where
  "FadeEffectStart fe w = ((ituEffectStartImpl fe)\<lparr>fade_orgAlpha := alpha w\<rparr>, w)"

definition FadeEffectStop ::
  "ITUFadeEffect \<Rightarrow> 'w ITUWidgetBase_scheme \<Rightarrow> ITUFadeEffect \<times> 'w ITUWidgetBase_scheme" where
  "FadeEffectStop fe w = (ituEffectStopImpl fe, w\<lparr>alpha := fade_orgAlpha fe\<rparr>)"

definition ituFadeEffectInit :: "bool \<Rightarrow> ITUFadeEffect" where
  "ituFadeEffectInit fadeIn = ITUEffect.extend ituEffectInit (ITUFadeEffect.fields fadeIn 0)"

subsection \<open>Scrolling\<close>

datatype ITUScrollType = ITU_SCROLL_IN_LEFT | ITU_SCROLL_IN_UP | ITU_SCROLL_IN_RIGHT
  | ITU_SCROLL_IN_DOWN | ITU_SCROLL_OUT_LEFT | ITU_SCROLL_OUT_UP | ITU_SCROLL_OUT_RIGHT
  | ITU_SCROLL_OUT_DOWN

record ITUScrollEffect = ITUEffect +
  scroll_type :: ITUScrollType
  scroll_orgX :: int
  scroll_orgY :: int

definition set_x :: "int \<Rightarrow> 'w ITUWidgetBase_scheme \<Rightarrow> 'w ITUWidgetBase_scheme" where
  "set_x x w = w\<lparr>rect := (rect w)\<lparr>xpos := x\<rparr>\<rparr>"

definition set_y :: "int \<Rightarrow> 'w ITUWidgetBase_scheme \<Rightarrow> 'w ITUWidgetBase_scheme" where
  "set_y y w = w\<lparr>rect := (rect w)\<lparr>ypos := y\<rparr>\<rparr>"

definition ituScrollEffectUpdate ::
  "'e ITUScrollEffect_scheme \<Rightarrow> 'w ITUWidgetBase_scheme
     \<Rightarrow> ('e ITUScrollEffect_scheme \<times> 'w ITUWidgetBase_scheme) option" where
  "ituScrollEffectUpdate se w =
     do { dx \<leftarrow> cdiv (width (rect w) * currStep se) (totalStep se);
          dy \<leftarrow> cdiv (height (rect w) * currStep se) (totalStep se);
          let wd = width (rect w); ht = height (rect w); ox = scroll_orgX se; oy = scroll_orgY se;
              w = (case scroll_type se of
                     ITU_SCROLL_IN_LEFT \<Rightarrow> set_x (ox + wd - dx) w
                   | ITU_SCROLL_IN_UP \<Rightarrow> set_y (oy + ht - dy) w
                   | ITU_SCROLL_IN_RIGHT \<Rightarrow> set_x (ox - (wd - dx)) w
                   | ITU_SCROLL_IN_DOWN \<Rightarrow> set_y (oy - (ht - dy)) w
                   | ITU_SCROLL_OUT_LEFT \<Rightarrow> set_x (ox - dx) w
                   | ITU_SCROLL_OUT_UP \<Rightarrow> set_y (oy - dy) w
                   | ITU_SCROLL_OUT_RIGHT \<Rightarrow> set_x (ox + dx) w
                   | ITU_SCROLL_OUT_DOWN \<Rightarrow> set_y (oy + dy) w)
          in Some (ituEffectUpdateImpl se, w) }"

definition set_bound_to_rect :: "'w ITUWidgetBase_scheme \<Rightarrow> 'w ITUWidgetBase_scheme" where
  "set_bound_to_rect w =
     ituWidgetSetBoundImpl w (xpos (rect w)) (ypos (rect w)) (width (rect w)) (height (rect w))"

definition ituScrollEffectStart ::
  "'e ITUScrollEffect_scheme \<Rightarrow> 'w ITUWidgetBase_scheme
     \<Rightarrow> 'e ITUScrollEffect_scheme \<times> 'w ITUWidgetBase_scheme" where
  "ituScrollEffectStart se w =
     ((ituEffectStartImpl se)\<lparr>scroll_orgX := xpos (rect w), scroll_orgY := ypos (rect w)\<rparr>,
      set_bound_to_rect w)"

definition ituScrollEffectStop ::
  "'e ITUScrollEffect_scheme \<Rightarrow> 'w ITUWidgetBase_scheme
     \<Rightarrow> 'e ITUScrollEffect_scheme \<times> 'w ITUWidgetBase_scheme" where
  "ituScrollEffectStop se w =
     (ituEffectStopImpl se,
      ituWidgetSetBoundImpl (set_y (scroll_orgY se) (set_x (scroll_orgX se) w)) 0 0 0 0)"

definition ituScrollEffectInit :: "ITUScrollType \<Rightarrow> ITUScrollEffect" where
  "ituScrollEffectInit type = ITUEffect.extend ituEffectInit (ITUScrollEffect.fields type 0 0)"

subsection \<open>Scrolling with fading\<close>

record ITUScrollFadeEffect = ITUScrollEffect +
  scrollfade_in :: bool
  scrollfade_orgAlpha :: "8 word"

definition ScrollFadeEffectUpdate ::
  "ITUScrollFadeEffect \<Rightarrow> 'w ITUWidgetBase_scheme
     \<Rightarrow> (ITUScrollFadeEffect \<times> 'w ITUWidgetBase_scheme) option" where
  "ScrollFadeEffectUpdate e w =
     do { a \<leftarrow> fade_alpha e (scrollfade_in e) (scrollfade_orgAlpha e);
          ituScrollEffectUpdate e (w\<lparr>alpha := a\<rparr>) }"

definition ScrollFadeEffectStart ::
  "ITUScrollFadeEffect \<Rightarrow> 'w ITUWidgetBase_scheme \<Rightarrow> ITUScrollFadeEffect \<times> 'w ITUWidgetBase_scheme" where
  "ScrollFadeEffectStart e w =
     (let (e, w) = ituScrollEffectStart e w in (e\<lparr>scrollfade_orgAlpha := alpha w\<rparr>, w))"

definition ScrollFadeEffectStop ::
  "ITUScrollFadeEffect \<Rightarrow> 'w ITUWidgetBase_scheme \<Rightarrow> ITUScrollFadeEffect \<times> 'w ITUWidgetBase_scheme" where
  "ScrollFadeEffectStop e w =
     (let (e, w) = ituScrollEffectStop e w in (e, w\<lparr>alpha := scrollfade_orgAlpha e\<rparr>))"

definition ituScrollFadeEffectInit :: "ITUScrollType \<Rightarrow> bool \<Rightarrow> ITUScrollFadeEffect" where
  "ituScrollFadeEffectInit type fadeIn =
     ITUScrollEffect.extend (ituScrollEffectInit type) (ITUScrollFadeEffect.fields fadeIn 0)"

subsection \<open>Scaling\<close>

record ITUScaleEffect = ITUEffect +
  enlarge :: bool
  scale_orgX :: int
  scale_orgY :: int
  scale_orgWidth :: int
  scale_orgHeight :: int

definition ituScaleEffectUpdate ::
  "'e ITUScaleEffect_scheme \<Rightarrow> 'w ITUWidgetBase_scheme
     \<Rightarrow> ('e ITUScaleEffect_scheme \<times> 'w ITUWidgetBase_scheme) option" where
  "ituScaleEffectUpdate se w =
     (let centerX = scale_orgX se + scale_orgWidth se sdiv 2;
          centerY = scale_orgY se + scale_orgHeight se sdiv 2;
          k = (if enlarge se then currStep se else totalStep se - currStep se)
      in do { dx \<leftarrow> cdiv (scale_orgWidth se sdiv 2 * k) (totalStep se);
              dy \<leftarrow> cdiv (scale_orgHeight se sdiv 2 * k) (totalStep se);
              wd \<leftarrow> cdiv (scale_orgWidth se * k) (totalStep se);
              ht \<leftarrow> cdiv (scale_orgHeight se * k) (totalStep se);
              let w = w\<lparr>rect := \<lparr>xpos = centerX - dx, ypos = centerY - dy, width = wd, height = ht\<rparr>\<rparr>
              in Some (ituEffectUpdateImpl se, set_bound_to_rect w) })"

definition ituScaleEffectStart ::
  "'e ITUScaleEffect_scheme \<Rightarrow> 'w ITUWidgetBase_scheme
     \<Rightarrow> 'e ITUScaleEffect_scheme \<times> 'w ITUWidgetBase_scheme" where
  "ituScaleEffectStart se w =
     ((ituEffectStartImpl se)\<lparr>scale_orgX := xpos (rect w), scale_orgY := ypos (rect w),
        scale_orgWidth := width (rect w), scale_orgHeight := height (rect w)\<rparr>,
      set_bound_to_rect w)"

definition ituScaleEffectStop ::
  "'e ITUScaleEffect_scheme \<Rightarrow> 'w ITUWidgetBase_scheme
     \<Rightarrow> 'e ITUScaleEffect_scheme \<times> 'w ITUWidgetBase_scheme" where
  "ituScaleEffectStop se w =
     (ituEffectStopImpl se,
      ituWidgetSetBoundImpl
        (w\<lparr>rect := \<lparr>xpos = scale_orgX se, ypos = scale_orgY se, width = scale_orgWidth se,
                   height = scale_orgHeight se\<rparr>\<rparr>) 0 0 0 0)"

definition ituScaleEffectInit :: "bool \<Rightarrow> ITUScaleEffect" where
  "ituScaleEffectInit enl = ITUEffect.extend ituEffectInit (ITUScaleEffect.fields enl 0 0 0 0)"

record ITUScaleFadeEffect = ITUScaleEffect +
  scalefade_in :: bool
  scalefade_orgAlpha :: "8 word"

definition ScaleFadeEffectUpdate ::
  "ITUScaleFadeEffect \<Rightarrow> 'w ITUWidgetBase_scheme
     \<Rightarrow> (ITUScaleFadeEffect \<times> 'w ITUWidgetBase_scheme) option" where
  "ScaleFadeEffectUpdate e w =
     do { a \<leftarrow> fade_alpha e (scalefade_in e) (scalefade_orgAlpha e);
          ituScaleEffectUpdate e (w\<lparr>alpha := a\<rparr>) }"

definition ScaleFadeEffectStart ::
  "ITUScaleFadeEffect \<Rightarrow> 'w ITUWidgetBase_scheme \<Rightarrow> ITUScaleFadeEffect \<times> 'w ITUWidgetBase_scheme" where
  "ScaleFadeEffectStart e w =
     (let (e, w) = ituScaleEffectStart e w in (e\<lparr>scalefade_orgAlpha := alpha w\<rparr>, w))"

definition ScaleFadeEffectStop ::
  "ITUScaleFadeEffect \<Rightarrow> 'w ITUWidgetBase_scheme \<Rightarrow> ITUScaleFadeEffect \<times> 'w ITUWidgetBase_scheme" where
  "ScaleFadeEffectStop e w =
     (let (e, w) = ituScaleEffectStop e w in (e, w\<lparr>alpha := scalefade_orgAlpha e\<rparr>))"

definition ituScaleFadeEffectInit :: "bool \<Rightarrow> ITUScaleFadeEffect" where
  "ituScaleFadeEffectInit fadeIn =
     ITUScaleEffect.extend (ituScaleEffectInit fadeIn) (ITUScaleFadeEffect.fields fadeIn 0)"

subsection \<open>Wiping\<close>

datatype ITUWipeType = ITU_WIPE_IN_LEFT | ITU_WIPE_IN_UP | ITU_WIPE_IN_RIGHT | ITU_WIPE_IN_DOWN
  | ITU_WIPE_OUT_LEFT | ITU_WIPE_OUT_UP | ITU_WIPE_OUT_RIGHT | ITU_WIPE_OUT_DOWN

record ITUWipeEffect = ITUEffect +
  wipe_type :: ITUWipeType

definition ituWipeEffectUpdate ::
  "'e ITUWipeEffect_scheme \<Rightarrow> 'w ITUWidgetBase_scheme
     \<Rightarrow> ('e ITUWipeEffect_scheme \<times> 'w ITUWidgetBase_scheme) option" where
  "ituWipeEffectUpdate we w =
     do { dx \<leftarrow> cdiv (width (rect w) * currStep we) (totalStep we);
          dy \<leftarrow> cdiv (height (rect w) * currStep we) (totalStep we);
          let x = xpos (rect w); y = ypos (rect w); wd = width (rect w); ht = height (rect w);
              w = (case wipe_type we of
                     ITU_WIPE_IN_LEFT \<Rightarrow> ituWidgetSetBoundImpl w (x + (wd - dx)) y (wd - (wd - dx)) ht
                   | ITU_WIPE_IN_UP \<Rightarrow> ituWidgetSetBoundImpl w x (y + (ht - dy)) wd (ht - (ht - dy))
                   | ITU_WIPE_IN_RIGHT \<Rightarrow> ituWidgetSetBoundImpl w x y (wd - (wd - dx)) ht
                   | ITU_WIPE_IN_DOWN \<Rightarrow> ituWidgetSetBoundImpl w x y wd (ht - (ht - dy))
                   | ITU_WIPE_OUT_LEFT \<Rightarrow> ituWidgetSetBoundImpl w x y (wd - dx) ht
                   | ITU_WIPE_OUT_UP \<Rightarrow> ituWidgetSetBoundImpl w x y wd (ht - dy)
                   | ITU_WIPE_OUT_RIGHT \<Rightarrow> ituWidgetSetBoundImpl w (x + dx) y (wd - dx) ht
                   | ITU_WIPE_OUT_DOWN \<Rightarrow> ituWidgetSetBoundImpl w x (y + dy) wd (ht - dy))
          in Some (ituEffectUpdateImpl we, w) }"

definition ituWipeEffectStart ::
  "'e ITUWipeEffect_scheme \<Rightarrow> 'w ITUWidgetBase_scheme
     \<Rightarrow> 'e ITUWipeEffect_scheme \<times> 'w ITUWidgetBase_scheme" where
  "ituWipeEffectStart we w = (ituEffectStartImpl we, set_bound_to_rect w)"

definition ituWipeEffectStop ::
  "'e ITUWipeEffect_scheme \<Rightarrow> 'w ITUWidgetBase_scheme
     \<Rightarrow> 'e ITUWipeEffect_scheme \<times> 'w ITUWidgetBase_scheme" where
  "ituWipeEffectStop we w = (ituEffectStopImpl we, ituWidgetSetBoundImpl w 0 0 0 0)"

definition ituWipeEffectInit :: "ITUWipeType \<Rightarrow> ITUWipeEffect" where
  "ituWipeEffectInit type = ITUEffect.extend ituEffectInit (ITUWipeEffect.fields type)"

subsection \<open>The function pointers\<close>

text \<open>
  The object that \<open>widget->effect\<close> points to. Its \<open>Start\<close>, \<open>Stop\<close> and \<open>Update\<close> pointers are those
  its \<open>Init\<close> function installed, so they follow from what it is.
\<close>

datatype effect_object = Fade ITUFadeEffect | Scroll ITUScrollEffect | ScrollFade ITUScrollFadeEffect
  | Scale ITUScaleEffect | ScaleFade ITUScaleFadeEffect | Wipe ITUWipeEffect

fun ituEffectUpdate ::
  "effect_object \<Rightarrow> 'w ITUWidgetBase_scheme \<Rightarrow> (effect_object \<times> 'w ITUWidgetBase_scheme) option" where
  "ituEffectUpdate (Fade e) w = map_option (map_prod Fade id) (FadeEffectUpdate e w)"
| "ituEffectUpdate (Scroll e) w = map_option (map_prod Scroll id) (ituScrollEffectUpdate e w)"
| "ituEffectUpdate (ScrollFade e) w = map_option (map_prod ScrollFade id) (ScrollFadeEffectUpdate e w)"
| "ituEffectUpdate (Scale e) w = map_option (map_prod Scale id) (ituScaleEffectUpdate e w)"
| "ituEffectUpdate (ScaleFade e) w = map_option (map_prod ScaleFade id) (ScaleFadeEffectUpdate e w)"
| "ituEffectUpdate (Wipe e) w = map_option (map_prod Wipe id) (ituWipeEffectUpdate e w)"

fun ituEffectStart ::
  "effect_object \<Rightarrow> 'w ITUWidgetBase_scheme \<Rightarrow> effect_object \<times> 'w ITUWidgetBase_scheme" where
  "ituEffectStart (Fade e) w = map_prod Fade id (FadeEffectStart e w)"
| "ituEffectStart (Scroll e) w = map_prod Scroll id (ituScrollEffectStart e w)"
| "ituEffectStart (ScrollFade e) w = map_prod ScrollFade id (ScrollFadeEffectStart e w)"
| "ituEffectStart (Scale e) w = map_prod Scale id (ituScaleEffectStart e w)"
| "ituEffectStart (ScaleFade e) w = map_prod ScaleFade id (ScaleFadeEffectStart e w)"
| "ituEffectStart (Wipe e) w = map_prod Wipe id (ituWipeEffectStart e w)"

fun ituEffectStop ::
  "effect_object \<Rightarrow> 'w ITUWidgetBase_scheme \<Rightarrow> effect_object \<times> 'w ITUWidgetBase_scheme" where
  "ituEffectStop (Fade e) w = map_prod Fade id (FadeEffectStop e w)"
| "ituEffectStop (Scroll e) w = map_prod Scroll id (ituScrollEffectStop e w)"
| "ituEffectStop (ScrollFade e) w = map_prod ScrollFade id (ScrollFadeEffectStop e w)"
| "ituEffectStop (Scale e) w = map_prod Scale id (ituScaleEffectStop e w)"
| "ituEffectStop (ScaleFade e) w = map_prod ScaleFade id (ScaleFadeEffectStop e w)"
| "ituEffectStop (Wipe e) w = map_prod Wipe id (ituWipeEffectStop e w)"

text \<open>The members of the base structure, which the macros read and write through a cast.\<close>

fun ituEffectIsPlaying :: "effect_object \<Rightarrow> bool" where
  "ituEffectIsPlaying (Fade e) = playing e"
| "ituEffectIsPlaying (Scroll e) = playing e"
| "ituEffectIsPlaying (ScrollFade e) = playing e"
| "ituEffectIsPlaying (Scale e) = playing e"
| "ituEffectIsPlaying (ScaleFade e) = playing e"
| "ituEffectIsPlaying (Wipe e) = playing e"

fun ituEffectSetTotalStep :: "int \<Rightarrow> effect_object \<Rightarrow> effect_object" where
  "ituEffectSetTotalStep n (Fade e) = Fade (e\<lparr>totalStep := n\<rparr>)"
| "ituEffectSetTotalStep n (Scroll e) = Scroll (e\<lparr>totalStep := n\<rparr>)"
| "ituEffectSetTotalStep n (ScrollFade e) = ScrollFade (e\<lparr>totalStep := n\<rparr>)"
| "ituEffectSetTotalStep n (Scale e) = Scale (e\<lparr>totalStep := n\<rparr>)"
| "ituEffectSetTotalStep n (ScaleFade e) = ScaleFade (e\<lparr>totalStep := n\<rparr>)"
| "ituEffectSetTotalStep n (Wipe e) = Wipe (e\<lparr>totalStep := n\<rparr>)"

subsection \<open>Animations\<close>

text \<open>
  What an animation promises to the widget that runs it. \<open>midway e w0 w\<close> says that \<open>e\<close> was started
  on the widget \<open>w0\<close> and has brought it to \<open>w\<close>; \<open>same w0 w\<close> that it did not touch what is not its
  business. An animation steps on, one step at a time, stops playing after the last one, and hands
  back the widget it was given.
\<close>

locale animation =
  fixes start :: "'e \<Rightarrow> 'w \<Rightarrow> 'e \<times> 'w" and update :: "'e \<Rightarrow> 'w \<Rightarrow> ('e \<times> 'w) option"
    and stop :: "'e \<Rightarrow> 'w \<Rightarrow> 'e \<times> 'w" and total :: "'e \<Rightarrow> int" and curr :: "'e \<Rightarrow> int"
    and plays :: "'e \<Rightarrow> bool" and midway :: "'e \<Rightarrow> 'w \<Rightarrow> 'w \<Rightarrow> bool" and given_back :: "'w \<Rightarrow> 'w \<Rightarrow> bool"
  assumes start: "midway (fst (start e w)) w (snd (start e w))" "total (fst (start e w)) = total e"
      "curr (fst (start e w)) = 0" "plays (fst (start e w))"
    and update: "midway e w0 w \<Longrightarrow> total e \<noteq> 0 \<Longrightarrow> \<exists>e' w'. update e w = Some (e', w') \<and> midway e' w0 w'
      \<and> total e' = total e
      \<and> (if curr e = total e then curr e' = curr e \<and> \<not> plays e' else curr e' = curr e + 1 \<and> plays e' = plays e)"
    and stop: "midway e w0 w \<Longrightarrow> given_back w0 (snd (stop e w))"
begin

fun updates :: "nat \<Rightarrow> 'e \<Rightarrow> 'w \<Rightarrow> ('e \<times> 'w) option" where
  "updates 0 e w = Some (e, w)"
| "updates (Suc n) e w = Option.bind (update e w) (\<lambda>(e, w). updates n e w)"

lemma updates_run:
  assumes "midway e w0 w" "plays e" "curr e + int n \<le> total e" "total e \<noteq> 0"
  shows "\<exists>e' w'. updates n e w = Some (e', w') \<and> midway e' w0 w' \<and> total e' = total e
    \<and> curr e' = curr e + int n \<and> plays e'"
  using assms
proof (induction n arbitrary: e w)
  case (Suc n)
  obtain e1 w1 where "update e w = Some (e1, w1)" "midway e1 w0 w1" "total e1 = total e"
    "curr e1 = curr e + 1" "plays e1"
    using update [OF Suc.prems(1,4)] Suc.prems(2,3) by auto
  then show ?case using Suc.IH [of e1 w1] Suc.prems(3,4) by fastforce
qed simp

lemma updates_add: "updates (m + n) e w = Option.bind (updates m e w) (\<lambda>(e, w). updates n e w)"
proof (induction m arbitrary: e w)
  case (Suc m)
  then show ?case by (cases "update e w") auto
qed simp

text \<open>A started animation plays for exactly its number of steps and one more, and then can be stopped.\<close>

lemma runs_to_the_end:
  assumes "0 < total e"
  shows "\<exists>e' w'. updates (nat (total e) + 1) (fst (start e w)) (snd (start e w)) = Some (e', w')
      \<and> \<not> plays e' \<and> given_back w (snd (stop e' w'))"
proof -
  obtain e1 w1 where r: "updates (nat (total e)) (fst (start e w)) (snd (start e w)) = Some (e1, w1)"
    "midway e1 w w1" "total e1 = total e" "curr e1 = total e"
    using updates_run [of "fst (start e w)" w "snd (start e w)" "nat (total e)"] start [of e w] assms
    by auto
  obtain e2 w2 where "update e1 w1 = Some (e2, w2)" "midway e2 w w2" "\<not> plays e2"
    using update [OF r(2)] r(3,4) assms by auto
  then have "updates 1 e1 w1 = Some (e2, w2)" "\<not> plays e2" "given_back w (snd (stop e2 w2))"
    using stop by auto
  then show ?thesis
    using updates_add [of "nat (total e)" 1 "fst (start e w)" "snd (start e w)"] r(1) by auto
qed

end

subsection \<open>The effects are animations\<close>

fun effect_base :: "effect_object \<Rightarrow> ITUEffect" where
  "effect_base (Fade e) = ITUEffect.truncate e"
| "effect_base (Scroll e) = ITUEffect.truncate e"
| "effect_base (ScrollFade e) = ITUEffect.truncate e"
| "effect_base (Scale e) = ITUEffect.truncate e"
| "effect_base (ScaleFade e) = ITUEffect.truncate e"
| "effect_base (Wipe e) = ITUEffect.truncate e"

definition same_widget :: "'w ITUWidgetBase_scheme \<Rightarrow> 'w ITUWidgetBase_scheme \<Rightarrow> bool" where
  "same_widget w0 w \<longleftrightarrow> w\<lparr>alpha := alpha w0, rect := rect w0, bound := bound w0, dirty := dirty w0\<rparr> = w0"

definition handed_back :: "'w ITUWidgetBase_scheme \<Rightarrow> 'w ITUWidgetBase_scheme \<Rightarrow> bool" where
  "handed_back w0 w \<longleftrightarrow> same_widget w0 w \<and> rect w = rect w0 \<and> alpha w = alpha w0"

definition scrolled :: "'e ITUScrollEffect_scheme \<Rightarrow> 'w ITUWidgetBase_scheme \<Rightarrow> 'w ITUWidgetBase_scheme \<Rightarrow> bool" where
  "scrolled e w0 w \<longleftrightarrow> scroll_orgX e = xpos (rect w0) \<and> scroll_orgY e = ypos (rect w0)
     \<and> width (rect w) = width (rect w0) \<and> height (rect w) = height (rect w0)"

definition scaled :: "'e ITUScaleEffect_scheme \<Rightarrow> 'w ITUWidgetBase_scheme \<Rightarrow> bool" where
  "scaled e w0 \<longleftrightarrow> rect w0 = \<lparr>xpos = scale_orgX e, ypos = scale_orgY e, width = scale_orgWidth e,
     height = scale_orgHeight e\<rparr>"

fun midway :: "effect_object \<Rightarrow> 'w ITUWidgetBase_scheme \<Rightarrow> 'w ITUWidgetBase_scheme \<Rightarrow> bool" where
  "midway (Fade e) w0 w = (same_widget w0 w \<and> rect w = rect w0 \<and> fade_orgAlpha e = alpha w0)"
| "midway (Scroll e) w0 w = (same_widget w0 w \<and> alpha w = alpha w0 \<and> scrolled e w0 w)"
| "midway (ScrollFade e) w0 w = (same_widget w0 w \<and> scrollfade_orgAlpha e = alpha w0 \<and> scrolled e w0 w)"
| "midway (Scale e) w0 w = (same_widget w0 w \<and> alpha w = alpha w0 \<and> scaled e w0)"
| "midway (ScaleFade e) w0 w = (same_widget w0 w \<and> scalefade_orgAlpha e = alpha w0 \<and> scaled e w0)"
| "midway (Wipe e) w0 w = (same_widget w0 w \<and> alpha w = alpha w0 \<and> rect w = rect w0)"

lemmas effect_defs = ituEffectUpdateImpl_def ituEffectStartImpl_def ituEffectStopImpl_def
  FadeEffectUpdate_def FadeEffectStart_def FadeEffectStop_def
  ituScrollEffectUpdate_def ituScrollEffectStart_def ituScrollEffectStop_def
  ScrollFadeEffectUpdate_def ScrollFadeEffectStart_def ScrollFadeEffectStop_def
  ituScaleEffectUpdate_def ituScaleEffectStart_def ituScaleEffectStop_def
  ScaleFadeEffectUpdate_def ScaleFadeEffectStart_def ScaleFadeEffectStop_def
  ituWipeEffectUpdate_def ituWipeEffectStart_def ituWipeEffectStop_def
  fade_alpha_def cdiv_def set_bound_to_rect_def ituWidgetSetBoundImpl_def set_x_def set_y_def
  ITUEffect.truncate_def

lemma start_midway: "midway (fst (ituEffectStart e w)) w (snd (ituEffectStart e w))"
  by (cases e; cases w) (auto simp: effect_defs same_widget_def scrolled_def scaled_def)

lemma start_base:
  "effect_base (fst (ituEffectStart e w)) = (effect_base e)\<lparr>currStep := 0, playing := True\<rparr>"
  by (cases e) (auto simp: effect_defs)

lemma update_base:
  assumes "totalStep (effect_base e) \<noteq> 0"
  shows "\<exists>e' w'. ituEffectUpdate e w = Some (e', w') \<and> effect_base e' = ituEffectUpdateImpl (effect_base e)"
  using assms by (cases e) (auto simp: effect_defs Let_def)

lemma update_midway:
  assumes "midway e w0 w" "ituEffectUpdate e w = Some (e', w')"
  shows "midway e' w0 w'"
  using assms
  by (cases e; cases w; cases w0)
    (auto simp: effect_defs same_widget_def scrolled_def scaled_def Let_def split: if_splits
      ITUScrollType.splits ITUWipeType.splits)

lemma stop_back: "midway e w0 w \<Longrightarrow> handed_back w0 (snd (ituEffectStop e w))"
  by (cases e; cases w; cases w0)
    (auto simp: effect_defs same_widget_def scrolled_def scaled_def handed_back_def)

text \<open>The contract of animations holds of the effects of the code.\<close>

interpretation anim: animation ituEffectStart ituEffectUpdate ituEffectStop
  "\<lambda>e. totalStep (effect_base e)" "\<lambda>e. currStep (effect_base e)" "\<lambda>e. playing (effect_base e)"
  midway handed_back
proof
  fix e w0 w
  assume a: "midway e w0 w" "totalStep (effect_base e) \<noteq> 0"
  obtain e' w' where u: "ituEffectUpdate e w = Some (e', w')"
    "effect_base e' = ituEffectUpdateImpl (effect_base e)"
    using update_base [OF a(2)] by blast
  then show "\<exists>e' w'. ituEffectUpdate e w = Some (e', w') \<and> midway e' w0 w'
      \<and> totalStep (effect_base e') = totalStep (effect_base e)
      \<and> (if currStep (effect_base e) = totalStep (effect_base e)
         then currStep (effect_base e') = currStep (effect_base e) \<and> \<not> playing (effect_base e')
         else currStep (effect_base e') = currStep (effect_base e) + 1
           \<and> playing (effect_base e') = playing (effect_base e))"
    using update_midway [OF a(1)] by (auto simp: ituEffectUpdateImpl_def)
qed (simp_all add: start_midway start_base stop_back)

lemma playing_base [simp]: "ituEffectIsPlaying e = playing (effect_base e)"
  by (cases e) (auto simp: ITUEffect.truncate_def)

lemma set_total_base [simp]:
  "effect_base (ituEffectSetTotalStep n e) = (effect_base e)\<lparr>totalStep := n\<rparr>"
  by (cases e) (auto simp: ITUEffect.truncate_def)

subsection \<open>The pictures stay within bounds\<close>

text \<open>A part \<open>k\<close> of \<open>n\<close> steps of a length.\<close>

lemma step_bounds:
  fixes a k n :: int
  assumes "0 \<le> a" "0 \<le> k" "k \<le> n" "0 < n"
  shows "0 \<le> a * k sdiv n" "a * k sdiv n \<le> a"
proof -
  have "a * k \<le> a * n" using assms by (intro mult_left_mono) auto
  then have "a * k div n \<le> a * n div n" using assms by (intro zdiv_mono1) auto
  then show "a * k sdiv n \<le> a" using assms by (simp add: sdiv_nonneg)
  show "0 \<le> a * k sdiv n" using assms by (simp add: sdiv_nonneg pos_imp_zdiv_nonneg_iff)
qed

lemma step_full: "0 \<le> a \<Longrightarrow> 0 < n \<Longrightarrow> a * n sdiv n = (a::int)"
  by (simp add: sdiv_nonneg)

lemma fade_alpha_bounds:
  assumes "0 < totalStep e" "0 \<le> currStep e" "currStep e \<le> totalStep e"
  shows "\<exists>a. fade_alpha e b org = Some a \<and> a \<le> org
    \<and> (currStep e = totalStep e \<longrightarrow> a = (if b then org else 0))"
proof -
  define k where "k = (if b then currStep e else totalStep e - currStep e)"
  have k: "0 \<le> uint org * k sdiv totalStep e" "uint org * k sdiv totalStep e \<le> uint org"
    using step_bounds [of "uint org" k "totalStep e"] assms by (auto simp: k_def)
  then have u: "uint (word_of_int (uint org * k sdiv totalStep e) :: 8 word) = uint org * k sdiv totalStep e"
    using uint_lt2p [of org] by (simp add: unsigned_of_int take_bit_int_eq_self)
  moreover have "word_of_int (uint org * k sdiv totalStep e) \<le> org"
    using k u by (simp add: word_le_def)
  moreover have "currStep e = totalStep e \<Longrightarrow> word_of_int (uint org * k sdiv totalStep e) = (if b then org else 0)"
    using assms step_full [of "uint org" "totalStep e"] by (auto simp: k_def sdiv_nonneg)
  ultimately show ?thesis using assms by (auto simp: fade_alpha_def cdiv_def k_def)
qed

definition inside :: "ITURectangle \<Rightarrow> ITURectangle \<Rightarrow> bool" where
  "inside r s \<longleftrightarrow> xpos s \<le> xpos r \<and> ypos s \<le> ypos r \<and> 0 \<le> width r \<and> 0 \<le> height r
     \<and> xpos r + width r \<le> xpos s + width s \<and> ypos r + height r \<le> ypos s + height s"

lemma wipe_bound_inside:
  assumes "0 < totalStep e" "0 \<le> currStep e" "currStep e \<le> totalStep e"
    "0 \<le> width (rect w)" "0 \<le> height (rect w)"
  shows "\<exists>e' w'. ituWipeEffectUpdate e w = Some (e', w') \<and> rect w' = rect w \<and> inside (bound w') (rect w)"
  using step_bounds [of "width (rect w)" "currStep e" "totalStep e"]
    step_bounds [of "height (rect w)" "currStep e" "totalStep e"] assms
  by (cases "wipe_type e")
    (auto simp: ituWipeEffectUpdate_def cdiv_def Let_def ituWidgetSetBoundImpl_def inside_def)

text \<open>The centre of the scaled rectangle is kept, so halves must not be cut off twice.\<close>

lemma half_part:
  fixes a k n :: int
  assumes "0 \<le> a" "0 \<le> k" "k \<le> n" "0 < n"
  shows "a * k div n \<le> a div 2 * k div n + (a - a div 2)"
proof (cases "k = n")
  case False
  define h r where "h = a div 2" and "r = a - 2 * h"
  have hr: "a = 2 * h + r" "0 \<le> h" "r = 0 \<or> r = 1"
    using assms(1) by (auto simp: h_def r_def)
  have "a * k = h * k + (h + r) * k" by (simp add: hr(1) algebra_simps)
  also have "(h + r) * k \<le> (h + r) * (n - 1)"
    using hr assms False by (intro mult_left_mono) auto
  finally have "a * k \<le> h * k + (h + r) * n - (h + r)" by (simp add: algebra_simps)
  then have "a * k \<le> h * k + (h + r) * n" using hr by auto
  then have "a * k div n \<le> (h * k + (h + r) * n) div n"
    using assms by (intro zdiv_mono1) auto
  also have "\<dots> = h * k div n + (h + r)" using assms by simp
  finally show ?thesis by (simp add: h_def r_def)
qed (use assms in simp)

lemma scale_rect_inside:
  assumes "0 < totalStep e" "0 \<le> currStep e" "currStep e \<le> totalStep e" "scaled e w0"
    "0 \<le> width (rect w0)" "0 \<le> height (rect w0)"
  shows "\<exists>e' w'. ituScaleEffectUpdate e w = Some (e', w') \<and> inside (rect w') (rect w0) \<and> bound w' = rect w'"
proof -
  define k where "k = (if enlarge e then currStep e else totalStep e - currStep e)"
  have k: "0 \<le> k" "k \<le> totalStep e" using assms by (auto simp: k_def)
  have b: "0 \<le> a * k sdiv totalStep e" "a sdiv 2 * k sdiv totalStep e \<le> a sdiv 2"
    "a sdiv 2 - a sdiv 2 * k sdiv totalStep e + a * k sdiv totalStep e \<le> a" if "0 \<le> a" for a
    using step_bounds [of a k "totalStep e"] step_bounds [of "a div 2" k "totalStep e"]
      half_part [of a k "totalStep e"] that k assms(1)
    by (auto simp: sdiv_nonneg)
  show ?thesis
    using b [of "scale_orgWidth e"] b [of "scale_orgHeight e"] assms
    by (auto simp: ituScaleEffectUpdate_def cdiv_def Let_def set_bound_to_rect_def ituWidgetSetBoundImpl_def
        inside_def scaled_def k_def)
qed

end
