(* ===== verification/Itu_Widget.thy ===== *)
theory Itu_Widget
  imports Itu_Effect
begin

text \<open>
  The base widgets of \<open>sdk/share/itu/itu_widget.c\<close> and the command queue of \<open>itu_scene.c\<close>: a tree of
  widgets, events that go down the tree, and showing and hiding with animations. The tree of a
  widget is a term; the pointer to the parent is used only to mark it dirty, which the functions
  report as a result. \<open>wid\<close> stands for the address of a widget, which the queued commands carry.
  Trees are built of base widgets: the pointers of a widget are those \<open>ituWidgetInit\<close> installs,
  except \<open>OnPress\<close>, which is a parameter. A widget has at most \<open>ITU_WIDGET_CHILD_MAX\<close> children;
  with more of them the code overruns an array on its stack.
\<close>

subsection \<open>Delayed commands\<close>

datatype ITUCommandFunc = WidgetShow | WidgetHide

record ITUCommand =
  cmd_delay :: int
  cmd_func :: "ITUCommandFunc option"
  cmd_arg :: nat

definition ITU_COMMAND_SIZE :: nat where
  "ITU_COMMAND_SIZE = 8"

text \<open>The two loops of \<open>ituSceneExecuteCommand\<close>: the first replaces, the second takes a free slot.\<close>

fun replace_command :: "int \<Rightarrow> ITUCommandFunc \<Rightarrow> nat \<Rightarrow> ITUCommand list \<Rightarrow> ITUCommand list option" where
  "replace_command d func arg [] = None"
| "replace_command d func arg (c # cs) =
     (if cmd_func c = Some func \<and> cmd_arg c = arg then Some (c\<lparr>cmd_delay := d\<rparr> # cs)
      else map_option ((#) c) (replace_command d func arg cs))"

fun add_command :: "int \<Rightarrow> ITUCommandFunc \<Rightarrow> nat \<Rightarrow> ITUCommand list \<Rightarrow> ITUCommand list" where
  "add_command d func arg [] = []"
| "add_command d func arg (c # cs) =
     (if cmd_delay c = 0 then \<lparr>cmd_delay = d, cmd_func = Some func, cmd_arg = arg\<rparr> # cs
      else c # add_command d func arg cs)"

definition ituSceneExecuteCommand ::
  "ITUCommand list \<Rightarrow> int \<Rightarrow> ITUCommandFunc \<Rightarrow> nat \<Rightarrow> ITUCommand list" where
  "ituSceneExecuteCommand q d func arg =
     (case replace_command d func arg q of Some q \<Rightarrow> q | None \<Rightarrow> add_command d func arg q)"

subsection \<open>Widgets\<close>

datatype ITUState = ITU_STATE_NORMAL | ITU_STATE_SHOWING | ITU_STATE_HIDING

datatype ITUEvent = ITU_EVENT_TIMER | ITU_EVENT_PRESS | ITU_EVENT_LAYOUT | ITU_EVENT_LANGUAGE
  | ITU_EVENT_KEYDOWN | ITU_EVENT_KEYUP | ITU_EVENT_MOUSEDOWN | ITU_EVENT_MOUSEUP
  | ITU_EVENT_MOUSEDOUBLECLICK | ITU_EVENT_MOUSEMOVE | ITU_EVENT_TOUCHSLIDELEFT
  | ITU_EVENT_TOUCHSLIDEUP | ITU_EVENT_TOUCHSLIDERIGHT | ITU_EVENT_TOUCHSLIDEDOWN
  | ITU_EVENT_LOAD | ITU_EVENT_RELEASE | ITU_EVENT_MOUSELONGPRESS | ITU_EVENT_TOUCHPINCH
  | ITU_EVENT_LOAD_EXTERNAL | ITU_EVENT_LOAD_IMAGE | ITU_EVENT_OTHER int

text \<open>
  The array \<open>effects\<close> holds the effect of each state; its entry for the normal state is used for the
  number of steps of the next animation.
\<close>

record ITUWidget = ITUWidgetBase +
  wid :: nat
  state :: ITUState
  showDelay :: int
  hideDelay :: int
  effectSteps :: int
  effects :: "ITUState \<Rightarrow> int"
  effect :: "effect_object option"

datatype wtree = Widget ITUWidget "wtree list"

fun wdata :: "wtree \<Rightarrow> ITUWidget" where "wdata (Widget w cs) = w"
fun kids :: "wtree \<Rightarrow> wtree list" where "kids (Widget w cs) = cs"

definition ITU_ENABLED :: "32 word" where "ITU_ENABLED = 0x2"
definition ITU_ALWAYS_VISIBLE :: "32 word" where "ITU_ALWAYS_VISIBLE = 0x2000"

unbundle bit_operations_syntax

definition ituWidgetIsEnabled :: "'w ITUWidgetBase_scheme \<Rightarrow> bool" where
  "ituWidgetIsEnabled w \<longleftrightarrow> flags w AND ITU_ENABLED \<noteq> 0"

subsection \<open>Events that go to all children\<close>

text \<open>The last branch of \<open>ituWidgetUpdateImpl\<close>, for events other than the timer.\<close>

definition reaches_hidden :: "ITUEvent \<Rightarrow> bool" where
  "reaches_hidden ev \<longleftrightarrow> ev \<in> {ITU_EVENT_RELEASE, ITU_EVENT_LANGUAGE, ITU_EVENT_LOAD_IMAGE}"

fun notify :: "ITUEvent \<Rightarrow> wtree \<Rightarrow> bool \<times> wtree" where
  "notify ev (Widget w cs) =
     (let rs = map (\<lambda>c. if visible (wdata c) \<or> reaches_hidden ev then notify ev c else (False, c)) cs;
          w = w\<lparr>dirty := dirty w \<or> (\<exists>r \<in> set rs. fst r)\<rparr>
      in (visible w \<and> dirty w, Widget w (map snd rs)))"

lemma size_notify [simp]: "size (snd (notify ev t)) = size t"
proof (induction t)
  case (Widget w cs)
  then have "size_list size (map (\<lambda>c. snd (if visible (wdata c) \<or> reaches_hidden ev then notify ev c else (False, c))) cs)
      = size_list size cs"
    by (induction cs) auto
  then show ?case by (simp add: Let_def comp_def)
qed

subsection \<open>Ending an animation\<close>

text \<open>\<open>ituEffectStop\<close>, \<open>ituEffectExit\<close>, \<open>free\<close>, and back to the normal state.\<close>

definition finish_effect :: "effect_object \<Rightarrow> ITUWidget \<Rightarrow> ITUWidget" where
  "finish_effect e w =
     (let w = snd (ituEffectStop e w)
      in w\<lparr>effect := None, state := ITU_STATE_NORMAL, effects := (effects w)(ITU_STATE_NORMAL := 0)\<rparr>)"

text \<open>A widget that was hidden becomes invisible and its resources are released.\<close>

definition release_hidden :: "ITUWidget \<Rightarrow> wtree list \<Rightarrow> ITUWidget \<times> wtree list" where
  "release_hidden w cs =
     (let t = snd (notify ITU_EVENT_RELEASE (Widget (w\<lparr>visible := False\<rparr>) cs)) in (wdata t, kids t))"

text \<open>The part of the timer branch of \<open>ituWidgetUpdateImpl\<close> that runs the animation of the widget.\<close>

definition effect_tick ::
  "ITUWidget \<Rightarrow> wtree list \<Rightarrow> ITUCommand list \<Rightarrow> (ITUWidget \<times> wtree list \<times> ITUCommand list) option" where
  "effect_tick w cs q =
     (case effect w of None \<Rightarrow> Some (w, cs, q)
      | Some e \<Rightarrow>
          do { (w, cs, q) \<leftarrow>
                 (if ituEffectIsPlaying e
                  then do { (e, w) \<leftarrow> ituEffectUpdate e w; Some (w\<lparr>effect := Some e\<rparr>, cs, q) }
                  else let (w, cs, q) =
                             (case state w of
                                ITU_STATE_SHOWING \<Rightarrow>
                                  (w, cs, if hideDelay w \<noteq> -1
                                          then ituSceneExecuteCommand q (hideDelay w) WidgetHide (wid w) else q)
                              | ITU_STATE_HIDING \<Rightarrow> let (w, cs) = release_hidden w cs in (w, cs, q)
                              | ITU_STATE_NORMAL \<Rightarrow> (w, cs, q))
                       in Some (finish_effect e w, cs, q));
               Some (w\<lparr>dirty := True\<rparr>, cs, q) })"

lemma effect_tick_size:
  "effect_tick w cs q = Some (w', cs', q') \<Longrightarrow> size_list size cs' = size_list size cs"
proof -
  have "size_list size (snd (release_hidden w cs)) = size_list size cs"
    using size_notify [of ITU_EVENT_RELEASE "Widget (w\<lparr>visible := False\<rparr>) cs"]
    by (cases "snd (notify ITU_EVENT_RELEASE (Widget (w\<lparr>visible := False\<rparr>) cs))")
      (simp add: release_hidden_def Let_def)
  moreover assume "effect_tick w cs q = Some (w', cs', q')"
  ultimately show ?thesis
    by (auto simp: effect_tick_def Let_def bind_eq_Some_conv split: option.splits if_splits prod.splits ITUState.splits)
qed

text \<open>The timer event: the animation of the widget, then the visible children in order.\<close>

function ituTimer :: "wtree \<Rightarrow> ITUCommand list \<Rightarrow> (bool \<times> wtree \<times> ITUCommand list) option"
  and timers :: "wtree list \<Rightarrow> ITUCommand list \<Rightarrow> (bool \<times> wtree list \<times> ITUCommand list) option" where
  "ituTimer (Widget w cs) q =
     do { (w, cs, q) \<leftarrow> effect_tick w cs q;
          (d, cs, q) \<leftarrow> timers cs q;
          let w = w\<lparr>dirty := dirty w \<or> d\<rparr>
          in Some (visible w \<and> dirty w, Widget w cs, q) }"
| "timers [] q = Some (False, [], q)"
| "timers (c # cs) q =
     do { (d, c, q) \<leftarrow> (if visible (wdata c) then ituTimer c q else Some (False, c, q));
          (d', cs, q) \<leftarrow> timers cs q;
          Some (d \<or> d', c # cs, q) }"
  by pat_completeness auto
termination
  by (relation "measure (\<lambda>x. case x of Inl (t, q) \<Rightarrow> size t | Inr (ts, q) \<Rightarrow> size_list size ts)")
    (auto dest: effect_tick_size)

subsection \<open>Input events\<close>

definition ituWidgetIsInsideImpl :: "'w ITUWidgetBase_scheme \<Rightarrow> int \<Rightarrow> int \<Rightarrow> bool" where
  "ituWidgetIsInsideImpl w x y \<longleftrightarrow>
     visible w
     \<and> (let bw = (if width (bound w) \<noteq> 0 then width (bound w) else width (rect w));
            bh = (if height (bound w) \<noteq> 0 then height (bound w) else height (rect w))
        in x \<ge> 0 \<and> y \<ge> 0 \<and> x \<le> bw \<and> y \<le> bh)"

text \<open>
  \<open>press\<close> is the \<open>OnPress\<close> pointer of the widgets. The children are asked from the last, which is on
  top, to the first; \<open>input_until\<close> is the loop that ends at the first child that handles the event,
  \<open>input_all\<close> the one that does not.
\<close>

type_synonym on_press = "ITUWidget \<Rightarrow> ITUEvent \<Rightarrow> int \<Rightarrow> int \<Rightarrow> int \<Rightarrow> bool \<times> ITUWidget"

fun input_until :: "(wtree \<Rightarrow> bool \<times> wtree) \<Rightarrow> wtree list \<Rightarrow> bool \<times> wtree list" where
  "input_until upd [] = (False, [])"
| "input_until upd (c # cs) =
     (let (r, cs) = input_until upd cs in
      if r then (True, c # cs)
      else if visible (wdata c) then let (r, c) = upd c in (r, c # cs)
      else (False, c # cs))"

fun input_all :: "(wtree \<Rightarrow> bool \<times> wtree) \<Rightarrow> bool \<Rightarrow> wtree list \<Rightarrow> bool \<times> wtree list" where
  "input_all upd hidden_too [] = (False, [])"
| "input_all upd hidden_too (c # cs) =
     (let (r, cs) = input_all upd hidden_too cs in
      if visible (wdata c) \<or> hidden_too then let (r', c) = upd c in (r \<or> r', c # cs)
      else (r, c # cs))"

lemma input_until_cong [fundef_cong]:
  assumes "cs = ds" "\<And>c. c \<in> set ds \<Longrightarrow> upd c = upd' c"
  shows "input_until upd cs = input_until upd' ds"
  unfolding assms(1) using assms(2) by (induction ds) (auto split: prod.splits)

lemma input_all_cong [fundef_cong]:
  assumes "cs = ds" "h = h'" "\<And>c. c \<in> set ds \<Longrightarrow> upd c = upd' c"
  shows "input_all upd h cs = input_all upd' h' ds"
  unfolding assms(1,2) using assms(3) by (induction ds) (auto split: prod.splits)

text \<open>The branches of \<open>ituWidgetUpdateImpl\<close> for key, mouse and touch events.\<close>

fun ituInput :: "on_press \<Rightarrow> ITUEvent \<Rightarrow> int \<Rightarrow> int \<Rightarrow> int \<Rightarrow> wtree \<Rightarrow> bool \<times> wtree" where
  "ituInput press ev a1 a2 a3 (Widget w cs) =
     (let x = a2 - xpos (rect w); y = a3 - ypos (rect w);
          (r, w, cs) =
            (if ev = ITU_EVENT_KEYDOWN \<or> ev = ITU_EVENT_KEYUP then
               (if ituWidgetIsEnabled w then
                  let (r, cs) = input_until (ituInput press ev a1 a2 a3) cs;
                      (r, w) = (if active w \<and> \<not> r then press w ev a1 a2 a3 else (r, w))
                  in (r, w, cs)
                else (False, w, cs))
             else if ev = ITU_EVENT_MOUSEDOWN then
               (if ituWidgetIsEnabled w then
                  let (r, cs) = input_all (ituInput press ev a1 x y) False cs;
                      (r, w) = (if \<not> r \<and> ituWidgetIsInsideImpl w x y then press w ev a1 x y else (r, w))
                  in (r, w, cs)
                else (False, w, cs))
             else if ev = ITU_EVENT_MOUSEUP then
               let (r, cs) = input_all (ituInput press ev a1 x y) True cs in (r, w, cs)
             else if ev = ITU_EVENT_MOUSEMOVE then
               (if ituWidgetIsEnabled w
                then let (r, cs) = input_all (ituInput press ev a1 x y) False cs in (r, w, cs)
                else (False, w, cs))
             else
               (if ituWidgetIsEnabled w
                then let (r, cs) = input_until (ituInput press ev a1 x y) cs in (r, w, cs)
                else (False, w, cs)))
      in (visible w \<and> r, Widget w cs))"

definition input_event :: "ITUEvent \<Rightarrow> bool" where
  "input_event ev \<longleftrightarrow> ev \<in> {ITU_EVENT_KEYDOWN, ITU_EVENT_KEYUP, ITU_EVENT_MOUSEDOWN, ITU_EVENT_MOUSEUP,
     ITU_EVENT_MOUSEMOVE, ITU_EVENT_MOUSEDOUBLECLICK, ITU_EVENT_MOUSELONGPRESS, ITU_EVENT_TOUCHSLIDELEFT,
     ITU_EVENT_TOUCHSLIDEUP, ITU_EVENT_TOUCHSLIDERIGHT, ITU_EVENT_TOUCHSLIDEDOWN, ITU_EVENT_TOUCHPINCH}"

definition ituWidgetUpdateImpl ::
  "on_press \<Rightarrow> wtree \<Rightarrow> ITUEvent \<Rightarrow> int \<Rightarrow> int \<Rightarrow> int \<Rightarrow> ITUCommand list
     \<Rightarrow> (bool \<times> wtree \<times> ITUCommand list) option" where
  "ituWidgetUpdateImpl press t ev a1 a2 a3 q =
     (if input_event ev then let (r, t) = ituInput press ev a1 a2 a3 t in Some (r, t, q)
      else if ev = ITU_EVENT_TIMER then ituTimer t q
      else let (r, t) = notify ev t in Some (r, t, q))"

subsection \<open>Showing and hiding\<close>

text \<open>
  The effects that \<open>ituWidgetSetVisibleImpl\<close> allocates, by the number of the effect type: scrolling
  (2 to 5), scrolling with fading (6 to 9), scaling (10, 11) and wiping (12 to 15), to show and to hide.
\<close>

definition show_scroll :: "int \<Rightarrow> ITUScrollType option" where
  "show_scroll n = (if n = 2 then Some ITU_SCROLL_IN_LEFT else if n = 3 then Some ITU_SCROLL_IN_UP
     else if n = 4 then Some ITU_SCROLL_IN_RIGHT else if n = 5 then Some ITU_SCROLL_IN_DOWN else None)"

definition show_scrollfade :: "int \<Rightarrow> ITUScrollType option" where
  "show_scrollfade n = (if n = 6 then Some ITU_SCROLL_IN_LEFT else if n = 7 then Some ITU_SCROLL_IN_UP
     else if n = 8 then Some ITU_SCROLL_IN_RIGHT else if n = 9 then Some ITU_SCROLL_IN_DOWN else None)"

definition show_wipe :: "int \<Rightarrow> ITUWipeType option" where
  "show_wipe n = (if n = 12 then Some ITU_WIPE_IN_LEFT else if n = 13 then Some ITU_WIPE_IN_UP
     else if n = 14 then Some ITU_WIPE_IN_RIGHT else if n = 15 then Some ITU_WIPE_IN_DOWN else None)"

definition show_effect :: "int \<Rightarrow> effect_object option" where
  "show_effect n =
     (if n = 1 then Some (Fade (ituFadeEffectInit True))
      else case show_scroll n of Some t \<Rightarrow> Some (Scroll (ituScrollEffectInit t))
      | None \<Rightarrow> case show_scrollfade n of Some t \<Rightarrow> Some (ScrollFade (ituScrollFadeEffectInit t True))
      | None \<Rightarrow> if n = 10 then Some (Scale (ituScaleEffectInit True))
      else if n = 11 then Some (ScaleFade (ituScaleFadeEffectInit True))
      else map_option (\<lambda>t. Wipe (ituWipeEffectInit t)) (show_wipe n))"

definition hide_scroll :: "int \<Rightarrow> ITUScrollType option" where
  "hide_scroll n = (if n = 2 then Some ITU_SCROLL_OUT_LEFT else if n = 3 then Some ITU_SCROLL_OUT_UP
     else if n = 4 then Some ITU_SCROLL_OUT_RIGHT else if n = 5 then Some ITU_SCROLL_OUT_DOWN else None)"

definition hide_scrollfade :: "int \<Rightarrow> ITUScrollType option" where
  "hide_scrollfade n = (if n = 6 then Some ITU_SCROLL_OUT_LEFT else if n = 7 then Some ITU_SCROLL_OUT_UP
     else if n = 8 then Some ITU_SCROLL_OUT_RIGHT else if n = 9 then Some ITU_SCROLL_OUT_DOWN else None)"

definition hide_wipe :: "int \<Rightarrow> ITUWipeType option" where
  "hide_wipe n = (if n = 12 then Some ITU_WIPE_OUT_LEFT else if n = 13 then Some ITU_WIPE_OUT_UP
     else if n = 14 then Some ITU_WIPE_OUT_RIGHT else if n = 15 then Some ITU_WIPE_OUT_DOWN else None)"

definition hide_effect :: "int \<Rightarrow> effect_object option" where
  "hide_effect n =
     (if n = 1 then Some (Fade (ituFadeEffectInit False))
      else case hide_scroll n of Some t \<Rightarrow> Some (Scroll (ituScrollEffectInit t))
      | None \<Rightarrow> case hide_scrollfade n of Some t \<Rightarrow> Some (ScrollFade (ituScrollFadeEffectInit t False))
      | None \<Rightarrow> if n = 10 then Some (Scale (ituScaleEffectInit False))
      else if n = 11 then Some (ScaleFade (ituScaleFadeEffectInit False))
      else map_option (\<lambda>t. Wipe (ituWipeEffectInit t)) (hide_wipe n))"

text \<open>
  What each case does with the effect: nothing when \<open>malloc\<close> failed, else it sets the number of steps,
  starts the effect and shows its first picture. The case that shows by scaling with fading lacks the
  fallback to \<open>effectSteps\<close>.
\<close>

definition begin_effect ::
  "bool \<Rightarrow> effect_object \<Rightarrow> ITUState \<Rightarrow> bool \<Rightarrow> ITUWidget \<Rightarrow> ITUWidget option" where
  "begin_effect mem_ok e st fallback w =
     (if \<not> mem_ok then Some w
      else
        let step = effects w ITU_STATE_NORMAL;
            e = (if step > 0 then ituEffectSetTotalStep step e
                 else if fallback then ituEffectSetTotalStep (effectSteps w) e else e);
            (e, w) = ituEffectStart e w
        in do { (e, w) \<leftarrow> ituEffectUpdate e w;
                Some (w\<lparr>effect := Some e, state := st\<rparr>) })"

text \<open>The result says whether the parent was marked dirty.\<close>

definition ituWidgetSetVisibleImpl ::
  "bool \<Rightarrow> wtree \<Rightarrow> bool \<Rightarrow> ITUCommand list \<Rightarrow> (wtree \<times> ITUCommand list \<times> bool) option" where
  "ituWidgetSetVisibleImpl mem_ok t vis q =
     (let w = wdata t; cs = kids t in
      if \<not> vis \<and> flags w AND ITU_ALWAYS_VISIBLE \<noteq> 0 then Some (t, q, False)
      else if effect w = None \<and> visible w = vis then Some (t, q, False)
      else
        let (w, cs) =
              (case effect w of
                 None \<Rightarrow> (w, cs)
               | Some e \<Rightarrow>
                   let (w, cs) = (if state w = ITU_STATE_HIDING then release_hidden w cs else (w, cs))
                   in (finish_effect e w, cs))
        in if vis then
             do { w \<leftarrow> (case show_effect (effects w ITU_STATE_SHOWING) of
                         Some e \<Rightarrow> begin_effect mem_ok e ITU_STATE_SHOWING (effects w ITU_STATE_SHOWING \<noteq> 11) w
                       | None \<Rightarrow> Some w);
                  let t = Widget (w\<lparr>visible := True\<rparr>) cs;
                      t = snd (notify ITU_EVENT_LAYOUT t);
                      t = snd (notify ITU_EVENT_LOAD t);
                      t = snd (notify ITU_EVENT_LOAD_EXTERNAL t);
                      w = wdata t;
                      q = (if state w \<noteq> ITU_STATE_SHOWING \<and> hideDelay w \<noteq> -1
                           then ituSceneExecuteCommand q (hideDelay w) WidgetHide (wid w) else q)
                  in Some (Widget (w\<lparr>dirty := True\<rparr>) (kids t), q, False) }
           else
             (case hide_effect (effects w ITU_STATE_HIDING) of
                Some e \<Rightarrow> do { w \<leftarrow> begin_effect mem_ok e ITU_STATE_HIDING True w;
                              Some (Widget (w\<lparr>dirty := True\<rparr>) cs, q, False) }
              | None \<Rightarrow> let (w, cs) = release_hidden w cs in Some (Widget (w\<lparr>dirty := True\<rparr>) cs, q, True)))"

text \<open>\<open>ituWidgetShowImpl\<close> and \<open>ituWidgetHideImpl\<close>: one showing or hiding with another effect.\<close>

definition ituWidgetShowImpl ::
  "bool \<Rightarrow> wtree \<Rightarrow> int \<Rightarrow> int \<Rightarrow> ITUCommand list \<Rightarrow> (wtree \<times> ITUCommand list \<times> bool) option" where
  "ituWidgetShowImpl mem_ok t eff step q =
     (let old = effects (wdata t);
          w = (wdata t)\<lparr>effects := old(ITU_STATE_NORMAL := step, ITU_STATE_SHOWING := eff)\<rparr>
      in do { (t, q, d) \<leftarrow> ituWidgetSetVisibleImpl mem_ok (Widget w (kids t)) True q;
              let w = (wdata t)\<lparr>effects := (effects (wdata t))(ITU_STATE_SHOWING := old ITU_STATE_SHOWING,
                                   ITU_STATE_NORMAL := old ITU_STATE_NORMAL)\<rparr>
              in Some (Widget w (kids t), q, d) })"

definition ituWidgetHideImpl ::
  "bool \<Rightarrow> wtree \<Rightarrow> int \<Rightarrow> int \<Rightarrow> ITUCommand list \<Rightarrow> (wtree \<times> ITUCommand list \<times> bool) option" where
  "ituWidgetHideImpl mem_ok t eff step q =
     (let old = effects (wdata t);
          w = (wdata t)\<lparr>effects := old(ITU_STATE_NORMAL := step, ITU_STATE_HIDING := eff)\<rparr>
      in do { (t, q, d) \<leftarrow> ituWidgetSetVisibleImpl mem_ok (Widget w (kids t)) False q;
              let w = (wdata t)\<lparr>effects := (effects (wdata t))(ITU_STATE_HIDING := old ITU_STATE_HIDING,
                                   ITU_STATE_NORMAL := old ITU_STATE_NORMAL)\<rparr>
              in Some (Widget w (kids t), q, d) })"

end
