(* ===== verification/Itu_Clip.thy ===== *)
theory Itu_Clip
  imports Itu_Widget
begin

text \<open>
  The geometry of \<open>itu_widget.c\<close>: the setters of a widget, clipping (with \<open>ituSurfaceSetClipping\<close> of
  \<open>itu_surface.c\<close>), the overlap test, and the traversal that draws a tree. What a widget paints is
  left out: the pointer \<open>Draw\<close> of a base widget only descends. The trace of a drawing is the list of
  widgets visited, each with the clipping of the surface, its position and its alpha value.
\<close>

subsection \<open>Setters\<close>

definition ituWidgetSetActiveImpl :: "bool \<Rightarrow> 'w ITUWidgetBase_scheme \<Rightarrow> 'w ITUWidgetBase_scheme" where
  "ituWidgetSetActiveImpl a w = w\<lparr>active := a, dirty := True\<rparr>"

definition ituWidgetSetAlphaImpl :: "8 word \<Rightarrow> 'w ITUWidgetBase_scheme \<Rightarrow> 'w ITUWidgetBase_scheme" where
  "ituWidgetSetAlphaImpl a w = w\<lparr>alpha := a, dirty := True\<rparr>"

definition ituWidgetSetXImpl :: "int \<Rightarrow> 'w ITUWidgetBase_scheme \<Rightarrow> 'w ITUWidgetBase_scheme" where
  "ituWidgetSetXImpl x w = w\<lparr>rect := (rect w)\<lparr>xpos := x\<rparr>, dirty := True\<rparr>"

definition ituWidgetSetYImpl :: "int \<Rightarrow> 'w ITUWidgetBase_scheme \<Rightarrow> 'w ITUWidgetBase_scheme" where
  "ituWidgetSetYImpl y w = w\<lparr>rect := (rect w)\<lparr>ypos := y\<rparr>, dirty := True\<rparr>"

definition ituWidgetSetPositionImpl ::
  "int \<Rightarrow> int \<Rightarrow> 'w ITUWidgetBase_scheme \<Rightarrow> 'w ITUWidgetBase_scheme" where
  "ituWidgetSetPositionImpl x y w = w\<lparr>rect := (rect w)\<lparr>xpos := x, ypos := y\<rparr>, dirty := True\<rparr>"

definition ituWidgetSetWidthImpl :: "int \<Rightarrow> wtree \<Rightarrow> wtree" where
  "ituWidgetSetWidthImpl n t =
     (let w = wdata t; w = w\<lparr>rect := (rect w)\<lparr>width := n\<rparr>, dirty := True\<rparr>
      in snd (notify ITU_EVENT_LAYOUT (Widget w (kids t))))"

definition ituWidgetSetHeightImpl :: "int \<Rightarrow> wtree \<Rightarrow> wtree" where
  "ituWidgetSetHeightImpl n t =
     (let w = wdata t; w = w\<lparr>rect := (rect w)\<lparr>height := n\<rparr>, dirty := True\<rparr>
      in snd (notify ITU_EVENT_LAYOUT (Widget w (kids t))))"

definition ituWidgetSetDimensionImpl :: "int \<Rightarrow> int \<Rightarrow> wtree \<Rightarrow> wtree" where
  "ituWidgetSetDimensionImpl n m t =
     (let w = wdata t; w = w\<lparr>rect := (rect w)\<lparr>width := n, height := m\<rparr>, dirty := True\<rparr>
      in snd (notify ITU_EVENT_LAYOUT (Widget w (kids t))))"

text \<open>\<open>ituWidgetGetGlobalPositionImpl\<close>: \<open>ws\<close> are the widget and its ancestors, up to the root.\<close>

fun ituWidgetGetGlobalPositionImpl :: "'w ITUWidgetBase_scheme list \<Rightarrow> int \<times> int" where
  "ituWidgetGetGlobalPositionImpl [] = (0, 0)"
| "ituWidgetGetGlobalPositionImpl (w # ws) =
     (let (cx, cy) = ituWidgetGetGlobalPositionImpl ws in (xpos (rect w) + cx, ypos (rect w) + cy))"

subsection \<open>Surfaces and clipping\<close>

record ITUSurface =
  swidth :: int
  sheight :: int
  sflags :: "32 word"
  clipping :: ITURectangle

definition ITU_CLIPPING :: "32 word" where "ITU_CLIPPING = 0x2"

definition is_clipping :: "ITUSurface \<Rightarrow> bool" where
  "is_clipping s \<longleftrightarrow> sflags s AND ITU_CLIPPING \<noteq> 0"

definition ituSurfaceSetClipping :: "ITUSurface \<Rightarrow> int \<Rightarrow> int \<Rightarrow> int \<Rightarrow> int \<Rightarrow> ITUSurface" where
  "ituSurfaceSetClipping s x y w h =
     s\<lparr>sflags := (if x = 0 \<and> y = 0 \<and> w = 0 \<and> h = 0 then sflags s AND NOT ITU_CLIPPING
                 else sflags s OR ITU_CLIPPING),
       clipping := \<lparr>xpos = x, ypos = y, width = (if w \<le> swidth s then w else swidth s),
                    height = (if h \<le> sheight s then h else sheight s)\<rparr>\<rparr>"

text \<open>The rectangle a widget is clipped to: its bound, when that is set, else its own.\<close>

definition clip_rect :: "'w ITUWidgetBase_scheme \<Rightarrow> ITURectangle" where
  "clip_rect w = (if width (bound w) > 0 \<or> height (bound w) > 0 then bound w else rect w)"

definition ituWidgetSetClipping ::
  "'w ITUWidgetBase_scheme \<Rightarrow> ITUSurface \<Rightarrow> int \<Rightarrow> int \<Rightarrow> ITURectangle \<times> ITUSurface" where
  "ituWidgetSetClipping w dest x y =
     (let prev = clipping dest; r = clip_rect w; x = x + xpos r; y = y + ypos r in
      if is_clipping dest then
        let left = (if x > xpos prev then x else xpos prev);
            r1 = x + width r; r2 = xpos prev + width prev;
            right = (if r1 < r2 then r1 else r2);
            r1 = y + height r; r2 = ypos prev + height prev;
            bottom = (if r1 < r2 then r1 else r2);
            top = (if y > ypos prev then y else ypos prev);
            cw = right - left; ch = bottom - top;
            cw = (if cw < 0 then 0 else cw); ch = (if ch < 0 then 0 else ch)
        in (prev, ituSurfaceSetClipping dest left top cw ch)
      else (prev, ituSurfaceSetClipping dest x y (width r) (height r)))"

definition ValueInRange :: "int \<Rightarrow> int \<Rightarrow> int \<Rightarrow> bool" where
  "ValueInRange v mn mx \<longleftrightarrow> v \<ge> mn \<and> v \<le> mx"

definition RectOverlap :: "ITURectangle \<Rightarrow> ITURectangle \<Rightarrow> bool" where
  "RectOverlap A B \<longleftrightarrow>
     (ValueInRange (xpos A) (xpos B) (xpos B + width B) \<or> ValueInRange (xpos B) (xpos A) (xpos A + width A))
   \<and> (ValueInRange (ypos A) (ypos B) (ypos B + height B) \<or> ValueInRange (ypos B) (ypos A) (ypos A + height A))"

definition ituWidgetIsOverlapClipping :: "'w ITUWidgetBase_scheme \<Rightarrow> ITUSurface \<Rightarrow> int \<Rightarrow> int \<Rightarrow> bool" where
  "ituWidgetIsOverlapClipping w dest x y =
     (let r = (if width (bound w) > 0 then bound w else rect w);
          A = r\<lparr>xpos := x + xpos r, ypos := y + ypos r\<rparr>;
          B = (if is_clipping dest then clipping dest
               else \<lparr>xpos = 0, ypos = 0, width = swidth dest, height = sheight dest\<rparr>)
      in RectOverlap A B)"

subsection \<open>Drawing\<close>

text \<open>
  \<open>ituWidgetDrawImpl\<close>: the trace, the tree with the dirty flags of the children cleared, the surface.
  \<open>alpha * widget->alpha / 255\<close> fits eight bits.
\<close>

type_synonym trace = "(nat \<times> ITURectangle \<times> int \<times> int \<times> 8 word) list"

definition blend :: "8 word \<Rightarrow> 8 word \<Rightarrow> 8 word" where
  "blend a b = word_of_int (uint a * uint b div 255)"

fun clean :: "wtree \<Rightarrow> wtree" where
  "clean (Widget w cs) = Widget (w\<lparr>dirty := False\<rparr>) cs"

fun ituWidgetDrawImpl ::
    "wtree \<Rightarrow> ITUSurface \<Rightarrow> int \<Rightarrow> int \<Rightarrow> 8 word \<Rightarrow> trace \<times> wtree \<times> ITUSurface"
  and draw_children ::
    "wtree list \<Rightarrow> ITUSurface \<Rightarrow> int \<Rightarrow> int \<Rightarrow> 8 word \<Rightarrow> trace \<times> wtree list \<times> ITUSurface" where
  "ituWidgetDrawImpl (Widget w cs) dest x y a =
     (if \<not> visible w then ([], Widget w cs, dest)
      else
        let (prev, dest) = ituWidgetSetClipping w dest x y;
            x = x + xpos (rect w); y = y + ypos (rect w); a = blend a (alpha w);
            here = (wid w, clipping dest, x, y, a);
            (tr, cs, dest) = draw_children cs dest x y a
        in (here # tr, Widget w cs,
            ituSurfaceSetClipping dest (xpos prev) (ypos prev) (width prev) (height prev)))"
| "draw_children [] dest x y a = ([], [], dest)"
| "draw_children (c # cs) dest x y a =
     (let (tr, c, dest) =
            (if visible (wdata c) \<and> ituWidgetIsOverlapClipping (wdata c) dest x y
             then ituWidgetDrawImpl c dest x y a else ([], c, dest));
          (tr', cs, dest) = draw_children cs dest x y a
      in (tr @ tr', clean c # cs, dest))"

subsection \<open>Clipping\<close>

text \<open>Points of a rectangle, and what a surface lets through.\<close>

definition in_rect :: "ITURectangle \<Rightarrow> int \<Rightarrow> int \<Rightarrow> bool" where
  "in_rect r px py \<longleftrightarrow> xpos r \<le> px \<and> px < xpos r + width r \<and> ypos r \<le> py \<and> py < ypos r + height r"

definition clip_allows :: "ITUSurface \<Rightarrow> int \<Rightarrow> int \<Rightarrow> bool" where
  "clip_allows s px py \<longleftrightarrow> is_clipping s \<longrightarrow> in_rect (clipping s) px py"

text \<open>Surfaces as \<open>ituSurfaceSetClipping\<close> leaves them: the flag is off exactly with the null rectangle.\<close>

definition surface_ok :: "ITUSurface \<Rightarrow> bool" where
  "surface_ok s \<longleftrightarrow> 0 < swidth s \<and> 0 < sheight s \<and> width (clipping s) \<le> swidth s
     \<and> height (clipping s) \<le> sheight s
     \<and> (is_clipping s \<longleftrightarrow> clipping s \<noteq> \<lparr>xpos = 0, ypos = 0, width = 0, height = 0\<rparr>)"

lemma clipping_bit: "(f AND ITU_CLIPPING \<noteq> 0) = bit f 1"
  using bit_iff_and_push_bit_not_eq_0 [of f 1] by (simp add: ITU_CLIPPING_def)

lemma bit_clipping: "bit ITU_CLIPPING n = (n = 1)"
proof -
  have "bit (push_bit 1 (1 :: 32 word)) n = (n = 1)" by (auto simp: bit_simps)
  then show ?thesis by (simp add: ITU_CLIPPING_def)
qed

lemma clipping_not_zero [simp]: "ITU_CLIPPING \<noteq> 0"
  by (simp add: ITU_CLIPPING_def)

lemma flag_updates:
  "(f OR ITU_CLIPPING) AND ITU_CLIPPING \<noteq> 0" "(f AND NOT ITU_CLIPPING) AND ITU_CLIPPING = 0"
  "(f OR ITU_CLIPPING) AND NOT ITU_CLIPPING = f AND NOT ITU_CLIPPING"
  "(f AND NOT ITU_CLIPPING) OR ITU_CLIPPING = f OR ITU_CLIPPING"
  "(f OR ITU_CLIPPING) OR ITU_CLIPPING = f OR ITU_CLIPPING"
  "(f AND NOT ITU_CLIPPING) AND NOT ITU_CLIPPING = f AND NOT ITU_CLIPPING"
  by (auto simp: clipping_bit bit_simps bit_clipping intro!: bit_eqI)

lemma flag_same:
  "f AND ITU_CLIPPING \<noteq> 0 \<Longrightarrow> f OR ITU_CLIPPING = f" "f AND ITU_CLIPPING = 0 \<Longrightarrow> f AND NOT ITU_CLIPPING = f"
  using clipping_bit [of f] by (auto simp: bit_simps bit_clipping intro!: bit_eqI)

lemma set_clipping_on:
  "is_clipping (ituSurfaceSetClipping s x y w h) \<longleftrightarrow> \<not> (x = 0 \<and> y = 0 \<and> w = 0 \<and> h = 0)"
  by (simp add: is_clipping_def ituSurfaceSetClipping_def flag_updates)

lemma set_clipping_ok:
  "0 < swidth s \<Longrightarrow> 0 < sheight s \<Longrightarrow> surface_ok (ituSurfaceSetClipping s x y w h)"
  by (auto simp: surface_ok_def set_clipping_on) (simp_all add: ituSurfaceSetClipping_def split: if_splits)

lemma set_clipping_size [simp]:
  "swidth (ituSurfaceSetClipping s x y w h) = swidth s" "sheight (ituSurfaceSetClipping s x y w h) = sheight s"
  by (simp_all add: ituSurfaceSetClipping_def)

lemma set_clipping_clipping:
  "clipping (ituSurfaceSetClipping s x y w h) = \<lparr>xpos = x, ypos = y, width = (if w \<le> swidth s then w else swidth s),
     height = (if h \<le> sheight s then h else sheight s)\<rparr>"
  by (simp add: ituSurfaceSetClipping_def)

text \<open>Setting the clipping back.\<close>

lemma set_clipping_restores:
  assumes "surface_ok s"
  shows "ituSurfaceSetClipping (ituSurfaceSetClipping s x y w h) (xpos (clipping s)) (ypos (clipping s))
     (width (clipping s)) (height (clipping s)) = s"
  using assms flag_same [of "sflags s"]
  by (cases s; cases "clipping s")
    (auto simp: surface_ok_def is_clipping_def ituSurfaceSetClipping_def flag_updates)

text \<open>A widget narrows the clipping to its own rectangle.\<close>

lemma if_max_min:
  "(if b < a then a else b) = max a (b :: int)" "(if a < b then a else b) = min a (b :: int)"
  by auto

lemma widget_clipping_eq:
  assumes "is_clipping dest"
  shows "snd (ituWidgetSetClipping w dest x y) =
    (let p = clipping dest; r = clip_rect w; l = max (x + xpos r) (xpos p); t = max (y + ypos r) (ypos p) in
     ituSurfaceSetClipping dest l t
       (max 0 (min (x + xpos r + width r) (xpos p + width p) - l))
       (max 0 (min (y + ypos r + height r) (ypos p + height p) - t)))"
  using assms by (simp add: ituWidgetSetClipping_def Let_def if_max_min max.commute)

text \<open>In one dimension: from \<open>l\<close> on for the length up to \<open>r\<close>, cut at \<open>s\<close>, which is large enough.\<close>

lemma cut_range:
  fixes l r s p :: int
  assumes "r - l \<le> s" "0 < s"
  shows "l \<le> p \<and> p < l + (if max 0 (r - l) \<le> s then max 0 (r - l) else s) \<longleftrightarrow> l \<le> p \<and> p < r"
  using assms by auto

lemma widget_clipping_points:
  assumes "surface_ok dest" "is_clipping dest" "is_clipping (snd (ituWidgetSetClipping w dest x y))"
  shows "clip_allows (snd (ituWidgetSetClipping w dest x y)) px py
    \<longleftrightarrow> clip_allows dest px py \<and> in_rect (clip_rect w) (px - x) (py - y)"
proof -
  define p r where "p = clipping dest" and "r = clip_rect w"
  define l t where "l = max (x + xpos r) (xpos p)" and "t = max (y + ypos r) (ypos p)"
  define rt bt where "rt = min (x + xpos r + width r) (xpos p + width p)"
    and "bt = min (y + ypos r + height r) (ypos p + height p)"
  have sz: "rt - l \<le> swidth dest" "bt - t \<le> sheight dest" "0 < swidth dest" "0 < sheight dest"
    using assms(1) unfolding surface_ok_def rt_def bt_def l_def t_def p_def by linarith+
  have e: "clipping (snd (ituWidgetSetClipping w dest x y)) = \<lparr>xpos = l, ypos = t,
      width = (if max 0 (rt - l) \<le> swidth dest then max 0 (rt - l) else swidth dest),
      height = (if max 0 (bt - t) \<le> sheight dest then max 0 (bt - t) else sheight dest)\<rparr>"
    unfolding widget_clipping_eq [OF assms(2)] Let_def p_def r_def l_def t_def rt_def bt_def
    by (rule set_clipping_clipping)
  have "in_rect (clipping (snd (ituWidgetSetClipping w dest x y))) px py
      \<longleftrightarrow> (l \<le> px \<and> px < rt) \<and> (t \<le> py \<and> py < bt)"
    unfolding in_rect_def e ITURectangle.select_convs
    using cut_range [OF sz(1,3), of px] cut_range [OF sz(2,4), of py] by blast
  also have "\<dots> \<longleftrightarrow> in_rect p px py \<and> in_rect r (px - x) (py - y)"
    unfolding in_rect_def l_def t_def rt_def bt_def by auto
  finally show ?thesis using assms(2,3) by (simp add: clip_allows_def p_def r_def)
qed

lemma overlap_points:
  assumes "0 \<le> width A" "0 \<le> height A" "0 \<le> width B" "0 \<le> height B"
  shows "RectOverlap A B \<longleftrightarrow>
     (\<exists>px py. xpos A \<le> px \<and> px \<le> xpos A + width A \<and> ypos A \<le> py \<and> py \<le> ypos A + height A
        \<and> xpos B \<le> px \<and> px \<le> xpos B + width B \<and> ypos B \<le> py \<and> py \<le> ypos B + height B)"
    (is "_ \<longleftrightarrow> ?r")
proof
  assume "RectOverlap A B"
  then show ?r
    using assms
    by (intro exI [of _ "max (xpos A) (xpos B)"] exI [of _ "max (ypos A) (ypos B)"])
      (auto simp: RectOverlap_def ValueInRange_def)
qed (auto simp: RectOverlap_def ValueInRange_def)

text \<open>Drawing a tree leaves the clipping of the surface as it was.\<close>

lemma draw_surface:
  "surface_ok dest \<Longrightarrow> snd (snd (ituWidgetDrawImpl t dest x y a)) = dest"
  "surface_ok dest \<Longrightarrow> snd (snd (draw_children ts dest x y a)) = dest"
proof (induction t dest x y a and ts dest x y a rule: ituWidgetDrawImpl_draw_children.induct)
  case (1 w cs dest x y a)
  obtain p d where c: "ituWidgetSetClipping w dest x y = (p, d)" by (cases "ituWidgetSetClipping w dest x y")
  have p: "p = clipping dest" "\<exists>u v wd ht. d = ituSurfaceSetClipping dest u v wd ht"
    using c by (auto simp: ituWidgetSetClipping_def Let_def split: if_splits)
  then have "surface_ok d"
    using 1(2) set_clipping_ok by (auto simp: surface_ok_def)
  then have "snd (snd (draw_children cs d (x + xpos (rect w)) (y + ypos (rect w)) (blend a (alpha w)))) = d"
    if "visible w"
    using 1(1) c that by simp
  then show ?case
    using c p set_clipping_restores [OF 1(2)] by (auto simp: Let_def split: prod.splits)
next
  case (3 c cs dest x y a)
  then show ?case by (auto simp: Let_def split: prod.splits)
qed simp

end
