(* ===== verification/Itu_WidgetProps.thy ===== *)
theory Itu_WidgetProps
  imports Itu_Widget
begin

text \<open>
  What the widgets of \<open>Itu_Widget\<close> promise: showing and hiding with an animation ends after as many
  frames as the animation has steps and one more, with the geometry handed back, and a press reaches
  exactly the visible and enabled widgets under the point.
\<close>

subsection \<open>Trees without animations\<close>

fun quiet :: "wtree \<Rightarrow> bool" where
  "quiet (Widget w cs) = (effect w = None \<and> (\<forall>c \<in> set cs. quiet c))"

lemma wdata_notify: "\<exists>d. wdata (snd (notify ev t)) = (wdata t)\<lparr>dirty := d\<rparr>"
  by (cases t) (auto simp: Let_def)

lemma quiet_notify: "quiet (snd (notify ev t)) = quiet t"
proof (induction t)
  case (Widget w cs)
  then show ?case by (auto simp: Let_def)
qed

lemma quiet_timer:
  "quiet t \<Longrightarrow> \<exists>d t' x. ituTimer t q = Some (d, t', q) \<and> quiet t' \<and> wdata t' = (wdata t)\<lparr>dirty := x\<rparr>"
  "\<forall>t \<in> set ts. quiet t \<Longrightarrow> \<exists>d ts'. timers ts q = Some (d, ts', q) \<and> (\<forall>t \<in> set ts'. quiet t)"
proof (induction t q and ts q rule: ituTimer_timers.induct)
  case (1 w cs q)
  have e: "effect_tick w cs q = Some (w, cs, q)"
    using 1(2) by (simp add: effect_tick_def)
  obtain d cs' where "timers cs q = Some (d, cs', q)" "\<forall>t \<in> set cs'. quiet t"
    using 1(1) [OF e refl refl] 1(2) by auto
  then show ?case using e 1(2) by auto
next
  case (3 c cs q)
  obtain d c' where c: "(if visible (wdata c) then ituTimer c q else Some (False, c, q)) = Some (d, c', q)" "quiet c'"
  proof (cases "visible (wdata c)")
    case True
    then show ?thesis using 3(1) [OF True] 3(3) that by auto
  next
    case False
    then show ?thesis using 3(3) that by auto
  qed
  obtain d' cs' where "timers cs q = Some (d', cs', q)" "\<forall>t \<in> set cs'. quiet t"
    using 3(2) [OF c(1) refl refl] 3(3) by auto
  then show ?case using c by auto
qed auto

subsection \<open>Frames of an animation\<close>

text \<open>The timer event \<open>n\<close> times.\<close>

fun frames :: "nat \<Rightarrow> wtree \<Rightarrow> ITUCommand list \<Rightarrow> (wtree \<times> ITUCommand list) option" where
  "frames 0 t q = Some (t, q)"
| "frames (Suc n) t q = do { (d, t, q) \<leftarrow> ituTimer t q; frames n t q }"

lemma frames_add: "frames (m + n) t q = do { (t, q) \<leftarrow> frames m t q; frames n t q }"
proof (induction m arbitrary: t q)
  case (Suc m)
  then show ?case by (cases "ituTimer t q") auto
qed simp

lemma midway_same: "midway e w0 w \<Longrightarrow> same_widget w0 w"
  by (cases e) auto

lemma same_widget_more:
  fixes w0 w :: ITUWidget
  assumes "same_widget w0 w"
  shows "same_widget (w0\<lparr>effect := x, state := s\<rparr>) (w\<lparr>effect := x, state := s\<rparr>)"
    "state w = state w0" "effects w = effects w0" "visible w = visible w0" "effect w = effect w0"
    "hideDelay w = hideDelay w0" "wid w = wid w0" "flags w = flags w0"
  using assms by (cases w0; cases w; simp add: same_widget_def)+

lemma midway_carry:
  fixes w0 w :: ITUWidget
  shows "midway e w0 w \<Longrightarrow> midway e (w0\<lparr>effect := x, state := s\<rparr>) (w\<lparr>effect := x, state := s\<rparr>)"
  using same_widget_more(1) [of w0 w, where x = x and s = s] by (cases e) (auto simp: scrolled_def scaled_def)

lemma midway_dirty [simp]: "midway e w0 (w\<lparr>dirty := d\<rparr>) = midway e w0 w"
  by (cases e) (auto simp: same_widget_def scrolled_def scaled_def)

text \<open>
  \<open>w\<close> runs an animation of \<open>n\<close> steps that was started on \<open>w0\<close> and is at step \<open>k\<close>; it plays as long as
  \<open>p\<close> holds.
\<close>

definition animating :: "ITUState \<Rightarrow> int \<Rightarrow> int \<Rightarrow> bool \<Rightarrow> ITUWidget \<Rightarrow> ITUWidget \<Rightarrow> bool" where
  "animating s n k p w0 w \<longleftrightarrow>
     (\<exists>e. effect w = Some e \<and> state w = s \<and> totalStep (effect_base e) = n \<and> currStep (effect_base e) = k
        \<and> playing (effect_base e) = p \<and> midway e (w0\<lparr>effect := effect w, state := s\<rparr>) w)"

lemma animating_dirty [simp]: "animating s n k p w0 (w\<lparr>dirty := d\<rparr>) = animating s n k p w0 w"
  by (simp add: animating_def)

lemma begin_effect_animates:
  assumes "0 < n" "n = (if effects w ITU_STATE_NORMAL > 0 then effects w ITU_STATE_NORMAL else effectSteps w)"
  shows "\<exists>w'. begin_effect True e s True w = Some w' \<and> animating s n 1 True w w'"
proof -
  let ?e = "ituEffectSetTotalStep n e"
  obtain e1 w1 where s: "ituEffectStart ?e w = (e1, w1)" by (cases "ituEffectStart ?e w")
  have m: "midway e1 w w1" "totalStep (effect_base e1) = n" "currStep (effect_base e1) = 0" "playing (effect_base e1)"
    using anim.start [of ?e w] s by simp_all
  obtain e2 w2 where u: "ituEffectUpdate e1 w1 = Some (e2, w2)" "midway e2 w w2"
    "totalStep (effect_base e2) = n" "currStep (effect_base e2) = 1" "playing (effect_base e2)"
    using anim.update [OF m(1)] m(2-4) assms(1) by auto
  have "begin_effect True e s True w = Some (w2\<lparr>effect := Some e2, state := s\<rparr>)"
    using s u(1) assms(2) by (auto simp: begin_effect_def Let_def)
  moreover have "animating s n 1 True w (w2\<lparr>effect := Some e2, state := s\<rparr>)"
    using midway_carry [OF u(2), where x = "Some e2" and s = s] u(3-5) by (simp add: animating_def)
  ultimately show ?thesis by blast
qed

lemma animating_step:
  assumes "animating s n k True w0 w" "n \<noteq> 0"
  shows "\<exists>w'. effect_tick w cs q = Some (w', cs, q)
    \<and> (if k = n then animating s n n False w0 w' else animating s n (k + 1) True w0 w')"
proof -
  obtain e where e: "effect w = Some e" "state w = s" "totalStep (effect_base e) = n" "currStep (effect_base e) = k"
    "playing (effect_base e)" "midway e (w0\<lparr>effect := effect w, state := s\<rparr>) w"
    using assms(1) by (auto simp: animating_def)
  obtain e' w' where u: "ituEffectUpdate e w = Some (e', w')" "midway e' (w0\<lparr>effect := effect w, state := s\<rparr>) w'"
    "totalStep (effect_base e') = n"
    "if k = n then currStep (effect_base e') = k \<and> \<not> playing (effect_base e')
     else currStep (effect_base e') = k + 1 \<and> playing (effect_base e')"
    using anim.update [OF e(6)] e(3-5) assms(2) by auto
  have "effect_tick w cs q = Some (w'\<lparr>effect := Some e', dirty := True\<rparr>, cs, q)"
    using e u(1) by (simp add: effect_tick_def)
  moreover have st: "state w' = s"
    using same_widget_more(2) [OF midway_same [OF u(2)]] by simp
  moreover have "midway e' (w0\<lparr>effect := Some e', state := s\<rparr>) (w'\<lparr>effect := Some e', dirty := True\<rparr>)"
  proof -
    have "w'\<lparr>effect := Some e', state := s\<rparr> = w'\<lparr>effect := Some e'\<rparr>"
      using st by (cases w') simp
    then show ?thesis using midway_carry [OF u(2), where x = "Some e'" and s = s] by simp
  qed
  ultimately show ?thesis using u(3,4) by (auto simp: animating_def)
qed


lemma tick_timer:
  assumes "effect_tick w cs q = Some (w', cs', q')" "\<forall>c \<in> set cs'. quiet c"
  shows "\<exists>d x cs''. ituTimer (Widget w cs) q = Some (d, Widget (w'\<lparr>dirty := x\<rparr>) cs'', q') \<and> (\<forall>c \<in> set cs''. quiet c)"
  using quiet_timer(2) [OF assms(2), of q'] assms(1) by auto

lemma animating_frames:
  assumes "animating s n k True w0 w" "k + int m = n + 1" "k \<le> n" "n \<noteq> 0" "\<forall>c \<in> set cs. quiet c"
  shows "\<exists>w' cs'. frames m (Widget w cs) q = Some (Widget w' cs', q) \<and> animating s n n False w0 w'
    \<and> (\<forall>c \<in> set cs'. quiet c)"
  using assms
proof (induction m arbitrary: k w cs)
  case (Suc m)
  obtain w' where w': "effect_tick w cs q = Some (w', cs, q)"
    "if k = n then animating s n n False w0 w' else animating s n (k + 1) True w0 w'"
    using animating_step [OF Suc.prems(1,4)] by blast
  obtain d x cs' where t: "ituTimer (Widget w cs) q = Some (d, Widget (w'\<lparr>dirty := x\<rparr>) cs', q)" "\<forall>c \<in> set cs'. quiet c"
    using tick_timer [OF w'(1) Suc.prems(5)] by blast
  show ?case
  proof (cases "k = n")
    case True
    then have "m = 0" using Suc.prems(2) by simp
    then show ?thesis using True t w'(2) by simp
  next
    case False
    then show ?thesis
      using Suc.IH [of "k + 1" "w'\<lparr>dirty := x\<rparr>" cs'] Suc.prems(2-4) t w'(2) by simp
  qed
qed simp

text \<open>What is left when the animation has been stopped.\<close>

definition settled :: "ITUWidget \<Rightarrow> bool \<Rightarrow> ITUWidget \<Rightarrow> bool" where
  "settled w0 vis w \<longleftrightarrow> effect w = None \<and> state w = ITU_STATE_NORMAL \<and> visible w = vis
     \<and> rect w = rect w0 \<and> alpha w = alpha w0 \<and> wid w = wid w0"

lemma handed_back_facts:
  fixes w0 w :: ITUWidget
  assumes "handed_back w0 w"
  shows "rect w = rect w0" "alpha w = alpha w0" "visible w = visible w0" "wid w = wid w0"
  using assms same_widget_more(4,7) [of w0 w] by (auto simp: handed_back_def)

lemma midway_visible:
  fixes w0 w :: ITUWidget
  shows "midway e w0 w \<Longrightarrow> midway e (w0\<lparr>visible := v\<rparr>) (w\<lparr>visible := v\<rparr>)"
proof -
  have "same_widget w0 w \<Longrightarrow> same_widget (w0\<lparr>visible := v\<rparr>) (w\<lparr>visible := v\<rparr>)"
    by (cases w0; cases w) (simp add: same_widget_def)
  then show "midway e w0 w \<Longrightarrow> midway e (w0\<lparr>visible := v\<rparr>) (w\<lparr>visible := v\<rparr>)"
    by (cases e) (auto simp: scrolled_def scaled_def)
qed

lemma finish_settles:
  assumes "midway e (w0\<lparr>effect := x, state := s\<rparr>) w"
  shows "settled w0 (visible w) (finish_effect e w)"
  using handed_back_facts [OF stop_back [OF assms]] same_widget_more(4) [OF midway_same [OF assms]]
  by (simp add: settled_def finish_effect_def Let_def)


lemma settled_dirty [simp]: "settled w0 v (w\<lparr>dirty := d\<rparr>) = settled w0 v w"
  by (simp add: settled_def)

lemma release_hidden_quiet:
  assumes "\<forall>c \<in> set cs. quiet c"
  shows "\<exists>d cs'. release_hidden w cs = (w\<lparr>visible := False, dirty := d\<rparr>, cs') \<and> (\<forall>c \<in> set cs'. quiet c)"
  using assms quiet_notify by (auto simp: release_hidden_def Let_def)

lemma hidden_at_last:
  assumes "animating ITU_STATE_HIDING n n False w0 w" "\<forall>c \<in> set cs. quiet c"
  shows "\<exists>w' cs'. frames 1 (Widget w cs) q = Some (Widget w' cs', q) \<and> settled w0 False w'"
proof -
  obtain e where e: "effect w = Some e" "state w = ITU_STATE_HIDING" "\<not> playing (effect_base e)"
    "midway e (w0\<lparr>effect := effect w, state := ITU_STATE_HIDING\<rparr>) w"
    using assms(1) by (auto simp: animating_def)
  obtain d cs' where r: "release_hidden w cs = (w\<lparr>visible := False, dirty := d\<rparr>, cs')" "\<forall>c \<in> set cs'. quiet c"
    using release_hidden_quiet [OF assms(2)] by blast
  let ?w = "(finish_effect e (w\<lparr>visible := False, dirty := d\<rparr>))\<lparr>dirty := True\<rparr>"
  have "effect_tick w cs q = Some (?w, cs', q)"
    using e(1-3) r(1) by (simp add: effect_tick_def)
  moreover have "midway e ((w0\<lparr>visible := False\<rparr>)\<lparr>effect := effect w, state := ITU_STATE_HIDING\<rparr>)
      (w\<lparr>visible := False, dirty := d\<rparr>)"
    using midway_visible [OF e(4), of False] by (cases w0) simp
  then have "settled (w0\<lparr>visible := False\<rparr>) False ?w"
    using finish_settles by fastforce
  then have "settled w0 False ?w" by (simp add: settled_def)
  ultimately show ?thesis using tick_timer [of w cs q ?w cs' q] r(2) by (auto simp del: ituTimer.simps)
qed

lemma shown_at_last:
  assumes "animating ITU_STATE_SHOWING n n False w0 w" "\<forall>c \<in> set cs. quiet c"
  shows "\<exists>w' cs'. frames 1 (Widget w cs) q = Some (Widget w' cs',
       if hideDelay w0 \<noteq> -1 then ituSceneExecuteCommand q (hideDelay w0) WidgetHide (wid w0) else q)
     \<and> settled w0 (visible w0) w'"
proof -
  obtain e where e: "effect w = Some e" "state w = ITU_STATE_SHOWING" "\<not> playing (effect_base e)"
    "midway e (w0\<lparr>effect := effect w, state := ITU_STATE_SHOWING\<rparr>) w"
    using assms(1) by (auto simp: animating_def)
  have s: "visible w = visible w0" "hideDelay w = hideDelay w0" "wid w = wid w0"
    using same_widget_more(4,6,7) [OF midway_same [OF e(4)]] by simp_all
  let ?w = "(finish_effect e w)\<lparr>dirty := True\<rparr>"
  let ?q = "if hideDelay w0 \<noteq> -1 then ituSceneExecuteCommand q (hideDelay w0) WidgetHide (wid w0) else q"
  have "effect_tick w cs q = Some (?w, cs, ?q)"
    using e(1-3) s by (simp add: effect_tick_def)
  then obtain d x cs' where "ituTimer (Widget w cs) q = Some (d, Widget (?w\<lparr>dirty := x\<rparr>) cs', ?q)"
    using tick_timer assms(2) by blast
  then have "frames 1 (Widget w cs) q = Some (Widget (?w\<lparr>dirty := x\<rparr>) cs', ?q)"
    by (simp del: ituTimer.simps)
  moreover have "settled w0 (visible w0) (?w\<lparr>dirty := x\<rparr>)"
    using finish_settles [OF e(4)] s(1) by simp
  ultimately show ?thesis by blast
qed

subsection \<open>Showing and hiding end\<close>

lemma SetVisible_hides:
  assumes "effect w = None" "visible w" "flags w AND ITU_ALWAYS_VISIBLE = 0"
    "hide_effect (effects w ITU_STATE_HIDING) = Some e"
    "n = (if effects w ITU_STATE_NORMAL > 0 then effects w ITU_STATE_NORMAL else effectSteps w)" "0 < n"
    "\<forall>c \<in> set cs. quiet c"
  shows "\<exists>t t1 t2. ituWidgetSetVisibleImpl True (Widget w cs) False q = Some (t, q, False)
    \<and> frames (nat n) t q = Some (t1, q) \<and> effect (wdata t1) \<noteq> None \<and> visible (wdata t1)
    \<and> frames (nat n + 1) t q = Some (t2, q) \<and> settled w False (wdata t2)"
proof -
  obtain w1 where b: "begin_effect True e ITU_STATE_HIDING True w = Some w1" "animating ITU_STATE_HIDING n 1 True w w1"
    using begin_effect_animates assms(5,6) by blast
  let ?w = "w1\<lparr>dirty := True\<rparr>"
  have v: "ituWidgetSetVisibleImpl True (Widget w cs) False q = Some (Widget ?w cs, q, False)"
    using assms(1-4) b(1) by (simp add: ituWidgetSetVisibleImpl_def)
  obtain w2 cs2 where f: "frames (nat n) (Widget ?w cs) q = Some (Widget w2 cs2, q)"
    "animating ITU_STATE_HIDING n n False w w2" "\<forall>c \<in> set cs2. quiet c"
    using animating_frames [of ITU_STATE_HIDING n 1 w ?w "nat n" cs q] b(2) assms(6,7) by auto
  obtain w3 cs3 where l: "frames 1 (Widget w2 cs2) q = Some (Widget w3 cs3, q)" "settled w False w3"
    using hidden_at_last [OF f(2,3)] by blast
  have "frames (nat n + 1) (Widget ?w cs) q = Some (Widget w3 cs3, q)"
    using frames_add [of "nat n" 1] f(1) l(1) by (simp del: frames.simps One_nat_def)
  moreover have "effect w2 \<noteq> None" "visible w2"
    using f(2) assms(2) same_widget_more(4) [OF midway_same] by (fastforce simp: animating_def)+
  ultimately show ?thesis using v f(1) l(2) by (metis wdata.simps)
qed


lemma animating_visible:
  assumes "animating s n k p w0 w"
  shows "animating s n k p (w0\<lparr>visible := v\<rparr>) (w\<lparr>visible := v\<rparr>)"
proof -
  obtain e where e: "effect w = Some e" "state w = s" "totalStep (effect_base e) = n" "currStep (effect_base e) = k"
    "playing (effect_base e) = p" "midway e (w0\<lparr>effect := effect w, state := s\<rparr>) w"
    using assms by (auto simp: animating_def)
  have "midway e ((w0\<lparr>visible := v\<rparr>)\<lparr>effect := effect w, state := s\<rparr>) (w\<lparr>visible := v\<rparr>)"
    using midway_visible [OF e(6), of v] by (cases w0) simp
  then show ?thesis using e(1-5) by (simp add: animating_def)
qed

lemma notify_parts:
  assumes "\<forall>c \<in> set cs. quiet c"
  shows "\<exists>d cs'. snd (notify ev (Widget w cs)) = Widget (w\<lparr>dirty := d\<rparr>) cs' \<and> (\<forall>c \<in> set cs'. quiet c)"
  using assms quiet_notify by (auto simp: Let_def)

lemma SetVisible_shows:
  assumes "effect w = None" "\<not> visible w"
    "show_effect (effects w ITU_STATE_SHOWING) = Some e" "effects w ITU_STATE_SHOWING \<noteq> 11"
    "n = (if effects w ITU_STATE_NORMAL > 0 then effects w ITU_STATE_NORMAL else effectSteps w)" "0 < n"
    "\<forall>c \<in> set cs. quiet c"
  shows "\<exists>t t1 t2. ituWidgetSetVisibleImpl True (Widget w cs) True q = Some (t, q, False)
    \<and> frames (nat n) t q = Some (t1, q) \<and> effect (wdata t1) \<noteq> None
    \<and> frames (nat n + 1) t q = Some (t2, if hideDelay w \<noteq> -1
         then ituSceneExecuteCommand q (hideDelay w) WidgetHide (wid w) else q)
    \<and> settled w True (wdata t2)"
proof -
  obtain w1 where b: "begin_effect True e ITU_STATE_SHOWING True w = Some w1" "animating ITU_STATE_SHOWING n 1 True w w1"
    using begin_effect_animates assms(5,6) by blast
  obtain d1 cs1 where n1: "snd (notify ITU_EVENT_LAYOUT (Widget (w1\<lparr>visible := True\<rparr>) cs))
      = Widget (w1\<lparr>visible := True, dirty := d1\<rparr>) cs1" "\<forall>c \<in> set cs1. quiet c"
    using notify_parts [OF assms(7)] by blast
  obtain d2 cs2 where n2: "snd (notify ITU_EVENT_LOAD (Widget (w1\<lparr>visible := True, dirty := d1\<rparr>) cs1))
      = Widget (w1\<lparr>visible := True, dirty := d1, dirty := d2\<rparr>) cs2" "\<forall>c \<in> set cs2. quiet c"
    using notify_parts [OF n1(2)] by blast
  obtain d3 cs3 where n3: "snd (notify ITU_EVENT_LOAD_EXTERNAL (Widget (w1\<lparr>visible := True, dirty := d2\<rparr>) cs2))
      = Widget (w1\<lparr>visible := True, dirty := d2, dirty := d3\<rparr>) cs3" "\<forall>c \<in> set cs3. quiet c"
    using notify_parts [OF n2(2)] by blast
  let ?w = "w1\<lparr>visible := True, dirty := True\<rparr>"
  let ?q = "if hideDelay w \<noteq> -1 then ituSceneExecuteCommand q (hideDelay w) WidgetHide (wid w) else q"
  have st: "state w1 = ITU_STATE_SHOWING" using b(2) by (auto simp: animating_def)
  have v: "ituWidgetSetVisibleImpl True (Widget w cs) True q = Some (Widget ?w cs3, q, False)"
    using assms(1-4) b(1) n1(1) n2(1) n3(1) st
    by (simp add: ituWidgetSetVisibleImpl_def Let_def del: notify.simps)
  have a: "animating ITU_STATE_SHOWING n 1 True (w\<lparr>visible := True\<rparr>) ?w"
    using animating_visible [OF b(2), of True] by simp
  obtain w2 cs4 where f: "frames (nat n) (Widget ?w cs3) q = Some (Widget w2 cs4, q)"
    "animating ITU_STATE_SHOWING n n False (w\<lparr>visible := True\<rparr>) w2" "\<forall>c \<in> set cs4. quiet c"
    using animating_frames [OF a, of "nat n" cs3 q] assms(6) n3(2) by auto
  obtain w3 cs5 where l: "frames 1 (Widget w2 cs4) q = Some (Widget w3 cs5, ?q)"
    "settled (w\<lparr>visible := True\<rparr>) True w3"
    using shown_at_last [OF f(2,3), of q] by auto
  have "frames (nat n + 1) (Widget ?w cs3) q = Some (Widget w3 cs5, ?q)"
    using frames_add [of "nat n" 1] f(1) l(1) by (simp del: frames.simps One_nat_def)
  moreover have "effect w2 \<noteq> None" using f(2) by (auto simp: animating_def)
  moreover have "settled w True w3" using l(2) by (simp add: settled_def)
  ultimately show ?thesis using v f(1) by (metis wdata.simps)
qed

lemma SetVisible_shows_plain:
  assumes "quiet (Widget w cs)" "\<not> visible w" "show_effect (effects w ITU_STATE_SHOWING) = None"
    "state w = ITU_STATE_NORMAL"
  shows "\<exists>cs'. ituWidgetSetVisibleImpl m (Widget w cs) True q
      = Some (Widget (w\<lparr>visible := True, dirty := True\<rparr>) cs', if hideDelay w \<noteq> -1
         then ituSceneExecuteCommand q (hideDelay w) WidgetHide (wid w) else q, False)
    \<and> (\<forall>c \<in> set cs'. quiet c)"
proof -
  have q: "effect w = None" "\<forall>c \<in> set cs. quiet c" using assms(1) by simp_all
  obtain d1 cs1 where n1: "snd (notify ITU_EVENT_LAYOUT (Widget (w\<lparr>visible := True\<rparr>) cs))
      = Widget (w\<lparr>visible := True, dirty := d1\<rparr>) cs1" "\<forall>c \<in> set cs1. quiet c"
    using notify_parts [OF q(2)] by blast
  obtain d2 cs2 where n2: "snd (notify ITU_EVENT_LOAD (Widget (w\<lparr>visible := True, dirty := d1\<rparr>) cs1))
      = Widget (w\<lparr>visible := True, dirty := d1, dirty := d2\<rparr>) cs2" "\<forall>c \<in> set cs2. quiet c"
    using notify_parts [OF n1(2)] by blast
  obtain d3 cs3 where n3: "snd (notify ITU_EVENT_LOAD_EXTERNAL (Widget (w\<lparr>visible := True, dirty := d2\<rparr>) cs2))
      = Widget (w\<lparr>visible := True, dirty := d2, dirty := d3\<rparr>) cs3" "\<forall>c \<in> set cs3. quiet c"
    using notify_parts [OF n2(2)] by blast
  show ?thesis
    using assms(2-4) q(1) n1(1) n2(1) n3 by (simp add: ituWidgetSetVisibleImpl_def Let_def del: notify.simps)
qed

subsection \<open>Hit testing\<close>

text \<open>
  The widgets under a point, with the point in their own coordinates: those inside whose outline
  the point lies, below visible and enabled ones only.
\<close>

fun hits :: "int \<Rightarrow> int \<Rightarrow> wtree \<Rightarrow> (ITUWidget \<times> int \<times> int) list" where
  "hits x y (Widget w cs) =
     (if \<not> ituWidgetIsEnabled w \<or> \<not> visible w then []
      else concat (map (hits (x - xpos (rect w)) (y - ypos (rect w))) cs)
        @ (if ituWidgetIsInsideImpl w (x - xpos (rect w)) (y - ypos (rect w))
           then [(w, x - xpos (rect w), y - ypos (rect w))] else []))"

lemma input_all_result:
  "fst (input_all upd h cs) \<longleftrightarrow> (\<exists>c \<in> set cs. (visible (wdata c) \<or> h) \<and> fst (upd c))"
  by (induction cs) (auto split: prod.splits simp: Let_def)

lemma hits_hidden: "\<not> visible (wdata t) \<Longrightarrow> hits x y t = []"
  by (cases t) simp

lemma mouse_down_hits_any:
  assumes keeps: "\<And>w a b c. visible (snd (press w ITU_EVENT_MOUSEDOWN a b c)) = visible w"
  shows "fst (ituInput press ITU_EVENT_MOUSEDOWN k x y t)
    \<longleftrightarrow> (\<exists>(w, u, v) \<in> set (hits x y t). fst (press w ITU_EVENT_MOUSEDOWN k u v))"
proof (induction t arbitrary: x y)
  case (Widget w cs)
  let ?x = "x - xpos (rect w)" and ?y = "y - ypos (rect w)"
  have ch: "fst (input_all (ituInput press ITU_EVENT_MOUSEDOWN k ?x ?y) False cs)
      \<longleftrightarrow> (\<exists>c \<in> set cs. \<exists>(w, u, v) \<in> set (hits ?x ?y c). fst (press w ITU_EVENT_MOUSEDOWN k u v))"
    using Widget.IH hits_hidden by (fastforce simp: input_all_result)
  show ?case
    using ch keeps [of w k ?x ?y]
    by (cases "input_all (ituInput press ITU_EVENT_MOUSEDOWN k ?x ?y) False cs")
      (auto simp: Let_def split: prod.splits)
qed

end
