(* ===== verification/Itu_Scene.thy ===== *)
theory Itu_Scene
  imports Itu_WidgetProps
begin

text \<open>
  The frame loop of a scene, from \<open>ituSceneUpdate\<close> of \<open>sdk/share/itu/itu_scene.c\<close> for the timer
  event: the visible top-level widgets, then the delayed commands. Gestures, the focus, the action
  queue and the delay queue of that function are not modelled, nor are the other events.
\<close>

record ITUScene =
  roots :: "wtree list"
  commands :: "ITUCommand list"

text \<open>
  Calling \<open>ituWidgetSetVisible\<close> through the pointer that a command carries: the widget with that
  address, wherever it is in the tree.
\<close>

fun visible_at ::
    "bool \<Rightarrow> bool \<Rightarrow> nat \<Rightarrow> wtree \<Rightarrow> ITUCommand list \<Rightarrow> (wtree \<times> ITUCommand list \<times> bool) option"
  and visible_below ::
    "bool \<Rightarrow> bool \<Rightarrow> nat \<Rightarrow> wtree list \<Rightarrow> ITUCommand list \<Rightarrow> (wtree list \<times> ITUCommand list \<times> bool) option" where
  "visible_at mem_ok vis i (Widget w cs) q =
     (if wid w = i then ituWidgetSetVisibleImpl mem_ok (Widget w cs) vis q
      else do { (cs, q, d) \<leftarrow> visible_below mem_ok vis i cs q;
                Some (Widget (w\<lparr>dirty := dirty w \<or> d\<rparr>) cs, q, False) })"
| "visible_below mem_ok vis i [] q = Some ([], q, False)"
| "visible_below mem_ok vis i (c # cs) q =
     do { (c, q, d) \<leftarrow> visible_at mem_ok vis i c q;
          (cs, q, d') \<leftarrow> visible_below mem_ok vis i cs q;
          Some (c # cs, q, d \<or> d') }"

text \<open>The static functions \<open>WidgetShow\<close> and \<open>WidgetHide\<close> of \<open>itu_widget.c\<close>.\<close>

definition call_command :: "bool \<Rightarrow> ITUCommandFunc \<Rightarrow> nat \<Rightarrow> ITUScene \<Rightarrow> ITUScene option" where
  "call_command mem_ok f arg s =
     do { (ts, q, d) \<leftarrow> visible_below mem_ok (f = WidgetShow) arg (roots s) (commands s);
          Some (s\<lparr>roots := ts, commands := q\<rparr>) }"

text \<open>The loop over the commands from slot \<open>i\<close> on; calling a null function is undefined.\<close>

fun command_loop :: "bool \<Rightarrow> nat list \<Rightarrow> ITUScene \<Rightarrow> (bool \<times> ITUScene) option" where
  "command_loop mem_ok [] s = Some (False, s)"
| "command_loop mem_ok (i # is) s =
     (if i < length (commands s) \<and> cmd_delay (commands s ! i) > 0 then
        let c = commands s ! i; c = c\<lparr>cmd_delay := cmd_delay c - 1\<rparr>;
            s = s\<lparr>commands := (commands s)[i := c]\<rparr>
        in if cmd_delay c = 0
           then do { f \<leftarrow> cmd_func c; s \<leftarrow> call_command mem_ok f (cmd_arg c) s;
                     (r, s) \<leftarrow> command_loop mem_ok is s; Some (True, s) }
           else command_loop mem_ok is s
      else command_loop mem_ok is s)"

definition ituSceneUpdate_timer :: "bool \<Rightarrow> ITUScene \<Rightarrow> (bool \<times> ITUScene) option" where
  "ituSceneUpdate_timer mem_ok s =
     do { (d, ts, q) \<leftarrow> timers (roots s) (commands s);
          (r, s) \<leftarrow> command_loop mem_ok [0..<ITU_COMMAND_SIZE] (s\<lparr>roots := ts, commands := q\<rparr>);
          Some (d \<or> r, s) }"

fun scene_frames :: "bool \<Rightarrow> nat \<Rightarrow> ITUScene \<Rightarrow> ITUScene option" where
  "scene_frames mem_ok 0 s = Some s"
| "scene_frames mem_ok (Suc n) s = do { (d, s) \<leftarrow> ituSceneUpdate_timer mem_ok s; scene_frames mem_ok n s }"

subsection \<open>Widgets that hide by themselves\<close>

text \<open>The queue of a new scene, and with one command in its first slot.\<close>

definition no_commands :: "ITUCommand list" where
  "no_commands = replicate ITU_COMMAND_SIZE \<lparr>cmd_delay = 0, cmd_func = None, cmd_arg = 0\<rparr>"

definition one_command :: "int \<Rightarrow> ITUCommandFunc \<Rightarrow> nat \<Rightarrow> ITUCommand list" where
  "one_command d f arg = no_commands[0 := \<lparr>cmd_delay = d, cmd_func = Some f, cmd_arg = arg\<rparr>]"

lemma execute_first: "ituSceneExecuteCommand no_commands d f arg = one_command d f arg"
  by (simp add: ituSceneExecuteCommand_def no_commands_def one_command_def ITU_COMMAND_SIZE_def eval_nat_numeral)

lemma idle_slots:
  assumes "\<forall>i \<in> set is. i < length (commands s) \<longrightarrow> cmd_delay (commands s ! i) \<le> 0"
  shows "command_loop m is s = Some (False, s)"
  using assms by (induction "is") auto

lemma one_command_slots:
  "one_command d f arg ! 0 = \<lparr>cmd_delay = d, cmd_func = Some f, cmd_arg = arg\<rparr>"
  "0 < i \<Longrightarrow> i < length (one_command d f arg) \<Longrightarrow> cmd_delay (one_command d f arg ! i) = 0"
  "length (one_command d f arg) = 8"
  "(one_command d f arg)[0 := \<lparr>cmd_delay = d', cmd_func = Some f, cmd_arg = arg\<rparr>] = one_command d' f arg"
  by (auto simp: one_command_def no_commands_def ITU_COMMAND_SIZE_def nth_list_update)

lemma command_counts_down:
  assumes "commands s = one_command d f arg" "1 < d"
  shows "command_loop m [0..<ITU_COMMAND_SIZE] s = Some (False, s\<lparr>commands := one_command (d - 1) f arg\<rparr>)"
proof -
  have u: "[0..<ITU_COMMAND_SIZE] = 0 # [1..<8]"
    by (simp add: ITU_COMMAND_SIZE_def upt_rec)
  show ?thesis
    unfolding u using assms
    by (subst command_loop.simps)
      (simp add: one_command_slots Let_def idle_slots del: upt_Suc)
qed

lemma quiet_frame:
  assumes "quiet (Widget w cs)" "commands s = one_command d f arg" "roots s = [Widget w cs]" "1 < d" "visible w"
  shows "\<exists>w' cs' r. ituSceneUpdate_timer m s
      = Some (r, s\<lparr>roots := [Widget w' cs'], commands := one_command (d - 1) f arg\<rparr>)
    \<and> quiet (Widget w' cs') \<and> (\<exists>x. w' = w\<lparr>dirty := x\<rparr>)"
proof -
  obtain b t' x where t: "ituTimer (Widget w cs) (commands s) = Some (b, t', commands s)" "quiet t'"
    "wdata t' = w\<lparr>dirty := x\<rparr>"
    using quiet_timer(1) [OF assms(1)] by fastforce
  obtain w' cs' where t': "t' = Widget w' cs'" by (cases t')
  have "timers (roots s) (commands s) = Some (b, [t'], commands s)"
    using t(1) assms(3,5) by (simp del: ituTimer.simps)
  moreover have "command_loop m [0..<ITU_COMMAND_SIZE] (s\<lparr>roots := [t'], commands := commands s\<rparr>)
      = Some (False, s\<lparr>roots := [t'], commands := one_command (d - 1) f arg\<rparr>)"
    using command_counts_down [of "s\<lparr>roots := [t'], commands := commands s\<rparr>" d f arg m] assms(2,4) by simp
  ultimately show ?thesis
    using t(2,3) t' by (intro exI [of _ w'] exI [of _ cs'] exI [of _ b]) (auto simp: ituSceneUpdate_timer_def)
qed

lemma hiding_frame:
  assumes "quiet (Widget w cs)" "commands s = one_command 1 WidgetHide (wid w)" "roots s = [Widget w cs]"
    "visible w" "flags w AND ITU_ALWAYS_VISIBLE = 0" "hide_effect (effects w ITU_STATE_HIDING) = None"
  shows "\<exists>w' cs'. ituSceneUpdate_timer m s
      = Some (True, s\<lparr>roots := [Widget w' cs'], commands := one_command 0 WidgetHide (wid w)\<rparr>)
    \<and> quiet (Widget w' cs') \<and> \<not> visible w' \<and> rect w' = rect w"
proof -
  obtain b t' x where t: "ituTimer (Widget w cs) (commands s) = Some (b, t', commands s)" "quiet t'"
    "wdata t' = w\<lparr>dirty := x\<rparr>"
    using quiet_timer(1) [OF assms(1)] by fastforce
  obtain cs' where t': "t' = Widget (w\<lparr>dirty := x\<rparr>) cs'" using t(3) by (cases t') simp
  have q: "\<forall>c \<in> set cs'. quiet c" using t(2) t' by simp
  obtain d cs2 where r: "release_hidden (w\<lparr>dirty := x\<rparr>) cs' = (w\<lparr>dirty := x, visible := False, dirty := d\<rparr>, cs2)"
    "\<forall>c \<in> set cs2. quiet c"
    using release_hidden_quiet [OF q] by blast
  let ?w = "w\<lparr>visible := False, dirty := True\<rparr>"
  let ?q = "one_command 0 WidgetHide (wid w)"
  have v: "ituWidgetSetVisibleImpl m t' False qu = Some (Widget ?w cs2, qu, True)" for qu
    using assms(1,4-6) r(1) t' by (simp add: ituWidgetSetVisibleImpl_def Let_def)
  have "timers (roots s) (commands s) = Some (b, [t'], commands s)"
    using t(1) assms(3,4) by (simp del: ituTimer.simps)
  moreover have u: "[0..<ITU_COMMAND_SIZE] = 0 # [1..<8]"
    by (simp add: ITU_COMMAND_SIZE_def upt_rec)
  have "call_command m WidgetHide (wid w) (s\<lparr>roots := [t'], commands := ?q\<rparr>)
      = Some (s\<lparr>roots := [Widget ?w cs2], commands := ?q\<rparr>)"
    using v t' by (simp add: call_command_def)
  then have "command_loop m [0..<ITU_COMMAND_SIZE] (s\<lparr>roots := [t'], commands := commands s\<rparr>)
      = Some (True, s\<lparr>roots := [Widget ?w cs2], commands := ?q\<rparr>)"
    unfolding u using assms(2)
    by (subst command_loop.simps) (simp add: one_command_slots Let_def idle_slots del: upt_Suc)
  ultimately show ?thesis
    using r(2) assms(1) by (intro exI [of _ ?w] exI [of _ cs2]) (simp add: ituSceneUpdate_timer_def)
qed

lemma hides_after:
  assumes "quiet (Widget w cs)" "commands s = one_command (int (Suc n)) WidgetHide (wid w)" "roots s = [Widget w cs]"
    "visible w" "flags w AND ITU_ALWAYS_VISIBLE = 0" "hide_effect (effects w ITU_STATE_HIDING) = None"
  shows "\<exists>s1 s2 w1 cs1 w2 cs2. scene_frames m n s = Some s1 \<and> roots s1 = [Widget w1 cs1] \<and> visible w1
    \<and> scene_frames m (Suc n) s = Some s2 \<and> roots s2 = [Widget w2 cs2] \<and> \<not> visible w2 \<and> rect w2 = rect w"
  using assms
proof (induction n arbitrary: w cs s)
  case 0
  have "commands s = one_command 1 WidgetHide (wid w)" using 0(2) by simp
  then obtain w' cs' where "ituSceneUpdate_timer m s
      = Some (True, s\<lparr>roots := [Widget w' cs'], commands := one_command 0 WidgetHide (wid w)\<rparr>)"
    "\<not> visible w'" "rect w' = rect w"
    using hiding_frame [OF 0(1)] 0(3-6) by blast
  then show ?case using 0(3,4) by simp
next
  case (Suc n)
  have c: "commands s = one_command (int (Suc (Suc n))) WidgetHide (wid w)" "1 < int (Suc (Suc n))"
    using Suc.prems(2) by simp_all
  obtain w' cs' r x where f: "ituSceneUpdate_timer m s
      = Some (r, s\<lparr>roots := [Widget w' cs'], commands := one_command (int (Suc (Suc n)) - 1) WidgetHide (wid w)\<rparr>)"
    "quiet (Widget w' cs')" "w' = w\<lparr>dirty := x\<rparr>"
    using quiet_frame [OF Suc.prems(1) c(1) Suc.prems(3) c(2) Suc.prems(4)] by blast
  let ?s = "s\<lparr>roots := [Widget w' cs'], commands := one_command (int (Suc (Suc n)) - 1) WidgetHide (wid w)\<rparr>"
  have "\<exists>s1 s2 w1 cs1 w2 cs2. scene_frames m n ?s = Some s1 \<and> roots s1 = [Widget w1 cs1] \<and> visible w1
    \<and> scene_frames m (Suc n) ?s = Some s2 \<and> roots s2 = [Widget w2 cs2] \<and> \<not> visible w2 \<and> rect w2 = rect w'"
    using Suc.prems f(2,3) by (intro Suc.IH) simp_all
  then show ?case using f(1,3) by simp
qed

end
