(* ===== verification/Itp_Fat.thy ===== *)
theory Itp_Fat
  imports Ug_Device
begin

text \<open>
  Drives and partitions: mounting, unmounting and partitioning of \<open>sdk/driver/itp/itp_fat.c\<close> and the
  drive table and queue of \<open>itp_drive_openrtos.c\<close>. The FAT library (\<open>f_*\<close>) is a parameter. Only FAT is
  configured, so every mounted drive is a FAT drive.
\<close>

record F_PHY =
  number_of_sectors :: "32 word"
  bytes_per_sector :: "16 word"

record F_PARTITION =
  secnum :: "32 word"
  system_indicator :: nat

text \<open>The calls into the FAT library: each returns 0 or an error. Drivers are named by their disks.\<close>

record 'd fat_lib =
  f_createdriver :: "ITPDisk \<Rightarrow> 'd \<Rightarrow> int \<times> 'd"
  f_releasedriver :: "ITPDisk \<Rightarrow> 'd \<Rightarrow> int \<times> 'd"
  f_getpartition :: "ITPDisk \<Rightarrow> 'd \<Rightarrow> int \<times> F_PARTITION list \<times> 'd"
  f_createpartition :: "ITPDisk \<Rightarrow> F_PARTITION list \<Rightarrow> 'd \<Rightarrow> int \<times> 'd"
  getphy :: "ITPDisk \<Rightarrow> 'd \<Rightarrow> int \<times> F_PHY \<times> 'd"
  f_initvolumepartition :: "nat \<Rightarrow> ITPDisk \<Rightarrow> nat \<Rightarrow> 'd \<Rightarrow> int \<times> 'd"
  f_delvolume :: "nat \<Rightarrow> 'd \<Rightarrow> int \<times> 'd"
  f_format :: "nat \<Rightarrow> nat \<Rightarrow> 'd \<Rightarrow> int \<times> 'd"

text \<open>
  The state: the drive table, whether \<open>driverTable[disk].driver\<close> is set, the queue of drive changes, and
  the state of the library.
\<close>

record 'd fat =
  drives :: "ITPDriveStatus list"
  driver :: "ITPDisk \<Rightarrow> bool"
  drive_queue :: "ITPDriveStatus list"
  lib :: 'd

abbreviation F_ERR_NOTFORMATTED :: int where "F_ERR_NOTFORMATTED \<equiv> 2"

definition DriveInit :: "'d fat \<Rightarrow> 'd fat" where
  "DriveInit s = s\<lparr>drive_queue := [],
     drives := map (\<lambda>st. st\<lparr>dr_disk := ITP_DISK_NONE, dr_device := ITP_DEVICE_NONE, avail := False\<rparr>) (drives s)\<rparr>"

text \<open>A change is lost when 16 of them wait in the queue.\<close>

definition DriveWrite :: "ITPDriveStatus \<Rightarrow> 'd fat \<Rightarrow> 'd fat" where
  "DriveWrite st s = (if length (drive_queue s) < 16 then s\<lparr>drive_queue := drive_queue s @ [st]\<rparr> else s)"

text \<open>Reading waits for ever when no change is there, unless the device was opened with \<open>O_NONBLOCK\<close>.\<close>

definition DriveRead :: "bool \<Rightarrow> 'd fat \<Rightarrow> (ITPDriveStatus option \<times> 'd fat) option" where
  "DriveRead nonblock s =
     (case drive_queue s of [] \<Rightarrow> if nonblock then Some (None, s) else None
      | st # q \<Rightarrow> Some (Some st, s\<lparr>drive_queue := q\<rparr>))"

definition need_driver :: "'d fat_lib \<Rightarrow> ITPDisk \<Rightarrow> 'd fat \<Rightarrow> int \<times> 'd fat" where
  "need_driver fl disk s =
     (if driver s disk then (0, s)
      else let (ret, d) = f_createdriver fl disk (lib s)
        in (ret, if ret = 0 then s\<lparr>lib := d, driver := (driver s)(disk := True)\<rparr> else s\<lparr>lib := d\<rparr>))"

subsection \<open>Mounting\<close>

definition FatFormat :: "'d fat_lib \<Rightarrow> nat \<Rightarrow> 'd \<Rightarrow> int \<times> 'd" where
  "FatFormat fl volume d =
     (let (ret, d) = f_format fl volume 1 d
      in if ret = 0 then (0, d)
         else let (ret, d) = f_format fl volume 2 d
           in if ret = 0 then (0, d)
              else let (ret, d) = f_format fl volume 3 d in if ret \<noteq> 0 then (ret, d) else (0, d))"

text \<open>
  The loop that looks for an empty drive from \<open>j\<close> on: the drive, and the entry that \<open>driveStatus\<close> points
  to, which is the last one looked at.
\<close>

function find_empty :: "ITPDriveStatus list \<Rightarrow> nat \<Rightarrow> nat option \<Rightarrow> nat \<times> nat option" where
  "find_empty ds j p =
     (if j < ITP_MAX_DRIVE then if \<not> avail (ds ! j) then (j, Some j) else find_empty ds (Suc j) (Some j)
      else (j, p))"
  by pat_completeness auto
termination by (relation "measure (\<lambda>(ds, j, p). ITP_MAX_DRIVE - j)") auto

declare find_empty.simps [simp del]

definition drive_name :: "nat \<Rightarrow> string" where
  "drive_name j = [char_of (65 + j), CHR '':'', CHR ''/'']"

definition mark_mounted :: "ITPDisk \<Rightarrow> nat \<Rightarrow> nat \<Rightarrow> 'd fat \<Rightarrow> 'd fat" where
  "mark_mounted disk j p s =
     (let st = (drives s ! p)\<lparr>dr_disk := disk, dr_device := ITP_DEVICE_FAT, avail := True, dr_name := drive_name j\<rparr>
      in DriveWrite st (s\<lparr>drives := (drives s)[p := st]\<rparr>))"

text \<open>The loop over the partitions, from number \<open>i\<close> on.\<close>

fun mount_loop ::
  "'d fat_lib \<Rightarrow> ITPDisk \<Rightarrow> bool \<Rightarrow> nat \<Rightarrow> F_PARTITION list \<Rightarrow> nat \<times> nat option \<Rightarrow> 'd fat \<Rightarrow> (int \<times> 'd fat) option" where
  "mount_loop fl disk force i [] st s = Some (0, s)"
| "mount_loop fl disk force i (pt # pts) (j, p) s =
     (if secnum pt > 0 then
        (let (j, p) = find_empty (drives s) j p;
             (ret, d) = f_initvolumepartition fl j disk i (lib s)
         in if ret \<noteq> 0 \<and> ret \<noteq> F_ERR_NOTFORMATTED then Some (ret, s\<lparr>lib := snd (f_delvolume fl j d)\<rparr>)
            else let (ret, d) = (if disk = ITP_DISK_NAND \<and> ret = F_ERR_NOTFORMATTED then FatFormat fl j d else (ret, d))
              in if ret = F_ERR_NOTFORMATTED \<and> \<not> force
                 then mount_loop fl disk force (Suc i) pts (j, p) (s\<lparr>lib := snd (f_delvolume fl j d)\<rparr>)
                 else (case p of None \<Rightarrow> None
                       | Some p \<Rightarrow> mount_loop fl disk force (Suc i) pts (j, Some p) (mark_mounted disk j p (s\<lparr>lib := d\<rparr>))))
      else mount_loop fl disk force (Suc i) pts (j, p) s)"

definition FatMount :: "'d fat_lib \<Rightarrow> ITPDisk \<Rightarrow> bool \<Rightarrow> 'd fat \<Rightarrow> (int \<times> 'd fat) option" where
  "FatMount fl disk force s =
     (let (ret, s) = need_driver fl disk s
      in if ret \<noteq> 0 then Some (ret, s)
         else let (ret, pts, d) = f_getpartition fl disk (lib s); s = s\<lparr>lib := d\<rparr>
           in if ret \<noteq> 0 then Some (ret, s)
              else if length pts < ITP_MAX_PARTITION then None
              else mount_loop fl disk force 0 (take ITP_MAX_PARTITION pts) (0, None) s)"

text \<open>The loop over the drives; \<open>ret1\<close> begins with -1.\<close>

fun unmount_loop :: "'d fat_lib \<Rightarrow> ITPDisk \<Rightarrow> nat \<Rightarrow> nat \<Rightarrow> int \<Rightarrow> 'd fat \<Rightarrow> int \<times> 'd fat" where
  "unmount_loop fl disk i 0 ret1 s = (ret1, s)"
| "unmount_loop fl disk i (Suc n) ret1 s =
     (let st = drives s ! i
      in if avail st \<and> dr_disk st = disk \<and> dr_device st = ITP_DEVICE_FAT
         then let (ret2, d) = f_delvolume fl i (lib s);
                  ret1 = (if ret2 = 0 then 0 else if ret1 \<le> 0 then ret2 else ret1);
                  st = st\<lparr>avail := False\<rparr>
           in unmount_loop fl disk (Suc i) n ret1 (DriveWrite st (s\<lparr>lib := d, drives := (drives s)[i := st]\<rparr>))
         else unmount_loop fl disk (Suc i) n ret1 s)"

definition FatUnmount :: "'d fat_lib \<Rightarrow> ITPDisk \<Rightarrow> 'd fat \<Rightarrow> int \<times> 'd fat" where
  "FatUnmount fl disk s =
     (let (ret1, s) = unmount_loop fl disk 0 ITP_MAX_DRIVE (-1) s;
          (ret2, d) = f_releasedriver fl disk (lib s);
          s = s\<lparr>lib := d, driver := (driver s)(disk := False)\<rparr>
      in (if ret2 > 0 \<and> ret1 \<le> 0 then ret2 else ret1, s))"

subsection \<open>Partitions\<close>

definition sector_bytes :: "F_PHY \<Rightarrow> 16 word" where
  "sector_bytes phy = (if bytes_per_sector phy = 0 then 512 else bytes_per_sector phy)"

text \<open>The loop over the partitions found; it ends at the first one without sectors.\<close>

fun get_sizes :: "16 word \<Rightarrow> nat \<Rightarrow> F_PARTITION list \<Rightarrow> ITPPartition \<Rightarrow> ITPPartition option" where
  "get_sizes bps i [] par = Some par"
| "get_sizes bps i (pt # pts) par =
     (if secnum pt > 0
      then if i < length (par_size par)
        then get_sizes bps (Suc i) pts
               (par\<lparr>par_count := par_count par + 1, par_size := (par_size par)[i := ucast (secnum pt) * ucast bps]\<rparr>)
        else None
      else Some par)"

definition FatGetPartition :: "'d fat_lib \<Rightarrow> ITPPartition \<Rightarrow> 'd fat \<Rightarrow> (int \<times> ITPPartition \<times> 'd fat) option" where
  "FatGetPartition fl par s =
     (let (ret, s) = need_driver fl (par_disk par) s
      in if ret \<noteq> 0 then Some (ret, par, s)
         else let (ret, pts, d) = f_getpartition fl (par_disk par) (lib s); s = s\<lparr>lib := d\<rparr>
           in if ret \<noteq> 0 then Some (ret, par, s)
              else let (ret, phy, d) = getphy fl (par_disk par) (lib s); s = s\<lparr>lib := d\<rparr>
                in if ret \<noteq> 0 then Some (ret, par, s)
                   else if length pts < ITP_MAX_PARTITION then None
                   else do { par \<leftarrow> get_sizes (sector_bytes phy) 0 (take ITP_MAX_PARTITION pts) (par\<lparr>par_count := 0\<rparr>);
                             Some (0, par, s) })"

text \<open>\<open>F_SYSIND_DOSFAT16UPTO32MB\<close>, \<open>F_SYSIND_DOSFAT16OVER32MB\<close> and \<open>F_SYSIND_DOSFAT32\<close>; the size is a product of 32 bits.\<close>

definition fat_type :: "16 word \<Rightarrow> 32 word \<Rightarrow> nat" where
  "fat_type bps n =
     (let size = n * ucast bps :: 32 word
      in if size < 32 * 1024 * 1024 then 4 else if size < 128 * 1024 * 1024 then 6 else 11)"

text \<open>The loop over the partitions asked for; \<open>used\<close> sectors are taken by those before.\<close>

function plan_partitions ::
  "F_PHY \<Rightarrow> ITPPartition \<Rightarrow> nat \<Rightarrow> 32 word \<Rightarrow> F_PARTITION list \<Rightarrow> (int + F_PARTITION list) option" where
  "plan_partitions phy par i used acc =
     (if int i < par_count par then
        if i < length (par_size par) \<and> i < ITP_MAX_PARTITION then
          (let sz = par_size par ! i; bps = sector_bytes phy;
               n = (if sz > 0 then ucast (sz div ucast bps) else number_of_sectors phy - used - 63);
               used = (if sz > 0 then used + n else used)
           in if sz = 0 \<and> int i \<noteq> par_count par - 1 then Some (Inl 1090)
              else plan_partitions phy par (Suc i) used (acc @ [\<lparr>secnum = n, system_indicator = fat_type bps n\<rparr>]))
        else None
      else Some (Inr acc))"
  by pat_completeness auto
termination by (relation "measure (\<lambda>(phy, par, i, used, acc). nat (par_count par) - i)") auto

declare plan_partitions.simps [simp del]

text \<open>The reserved sizes that are set before a driver is created go to the driver, behind \<open>f_createdriver\<close>.\<close>

definition FatCreatePartition :: "'d fat_lib \<Rightarrow> ITPPartition \<Rightarrow> 'd fat \<Rightarrow> (int \<times> 'd fat) option" where
  "FatCreatePartition fl par s =
     (let (ret, s) = need_driver fl (par_disk par) s
      in if ret \<noteq> 0 then Some (ret, s)
         else let (ret, phy, d) = getphy fl (par_disk par) (lib s); s = s\<lparr>lib := d\<rparr>
           in if ret \<noteq> 0 then Some (ret, s)
              else do { r \<leftarrow> plan_partitions phy par 0 0 [];
                        case r of
                          Inl e \<Rightarrow> Some (e, s)
                        | Inr pts \<Rightarrow> let (ret, d) = f_createpartition fl (par_disk par) pts (lib s)
                            in Some (ret, s\<lparr>lib := d\<rparr>) })"

end
