(* ===== verification/Itp_FatProps.thy ===== *)
theory Itp_FatProps
  imports Itp_Fat
begin

text \<open>
  The drive table is well formed whatever is mounted and unmounted, as long as there is room for the
  partitions of a disk; and the partitions that were created are the ones that are read back.
\<close>

subsection \<open>The drive table\<close>

definition drive_ok :: "nat \<Rightarrow> ITPDriveStatus \<Rightarrow> bool" where
  "drive_ok i st \<longleftrightarrow> (avail st \<longrightarrow> dr_device st = ITP_DEVICE_FAT \<and> dr_name st = drive_name i)"

definition drives_ok :: "'d fat \<Rightarrow> bool" where
  "drives_ok s \<longleftrightarrow> length (drives s) = ITP_MAX_DRIVE \<and> (\<forall>i < ITP_MAX_DRIVE. drive_ok i (drives s ! i))
     \<and> length (drive_queue s) \<le> 16"

definition free_from :: "ITPDriveStatus list \<Rightarrow> nat \<Rightarrow> nat" where
  "free_from ds j = length (filter (\<lambda>st. \<not> avail st) (drop j ds))"

lemma find_empty_found:
  "j \<le> ITP_MAX_DRIVE \<Longrightarrow> length ds = ITP_MAX_DRIVE \<Longrightarrow> 0 < free_from ds j \<Longrightarrow>
     \<exists>k. find_empty ds j p = (k, Some k) \<and> j \<le> k \<and> k < ITP_MAX_DRIVE \<and> \<not> avail (ds ! k)
       \<and> free_from ds k = free_from ds j"
proof (induction ds j p rule: find_empty.induct)
  case (1 ds j p)
  have j: "j < ITP_MAX_DRIVE" using 1(2-4) by (cases "j < ITP_MAX_DRIVE") (simp_all add: free_from_def)
  then have d: "drop j ds = ds ! j # drop (Suc j) ds" using 1(3) by (simp add: Cons_nth_drop_Suc)
  show ?case
  proof (cases "avail (ds ! j)")
    case False
    then show ?thesis using j by (subst find_empty.simps) auto
  next
    case True
    then have f: "free_from ds (Suc j) = free_from ds j" using d by (simp add: free_from_def)
    then obtain k where k: "find_empty ds (Suc j) (Some j) = (k, Some k)" "Suc j \<le> k" "k < ITP_MAX_DRIVE" "\<not> avail (ds ! k)"
      "free_from ds k = free_from ds (Suc j)"
      using 1 j True by auto
    moreover have "find_empty ds j p = find_empty ds (Suc j) (Some j)"
      using j True by (subst find_empty.simps) simp
    ultimately show ?thesis using f by (intro exI [of _ k]) simp
  qed
qed

lemma free_from_update:
  assumes "k < length ds" "\<not> avail (ds ! k)" "avail st"
  shows "Suc (free_from (ds[k := st]) k) = free_from ds k"
proof -
  have "drop k ds = ds ! k # drop (Suc k) ds" using assms(1) by (simp add: Cons_nth_drop_Suc)
  moreover have "drop k (ds[k := st]) = st # drop (Suc k) ds"
    using assms(1) by (metis Cons_nth_drop_Suc drop_update_cancel length_list_update lessI nth_list_update_eq)
  ultimately show ?thesis using assms by (simp add: free_from_def)
qed

lemma DriveWrite_simps [simp]:
  "drives (DriveWrite st s) = drives s" "lib (DriveWrite st s) = lib s" "driver (DriveWrite st s) = driver s"
  "length (drive_queue s) \<le> 16 \<Longrightarrow> length (drive_queue (DriveWrite st s)) \<le> 16"
  by (simp_all add: DriveWrite_def)

text \<open>What mounting a disk changes: free drives are taken for it, and nothing else.\<close>

definition mounted_more :: "ITPDisk \<Rightarrow> 'd fat \<Rightarrow> 'd fat \<Rightarrow> bool" where
  "mounted_more disk s s' \<longleftrightarrow> drives_ok s' \<and> (\<forall>i < ITP_MAX_DRIVE.
     drives s' ! i = drives s ! i \<or> (\<not> avail (drives s ! i) \<and> avail (drives s' ! i) \<and> dr_disk (drives s' ! i) = disk))"

lemma mounted_more_trans: "mounted_more disk s s' \<Longrightarrow> mounted_more disk s' s'' \<Longrightarrow> mounted_more disk s s''"
  unfolding mounted_more_def by metis

lemma mark_mounted_ok:
  assumes "drives_ok s" "k < ITP_MAX_DRIVE" "\<not> avail (drives s ! k)"
  shows "mounted_more disk s (mark_mounted disk k k s)"
    "Suc (free_from (drives (mark_mounted disk k k s)) k) = free_from (drives s) k"
  using assms free_from_update [OF _ assms(3)]
  by (auto simp: mounted_more_def drives_ok_def mark_mounted_def Let_def nth_list_update drive_ok_def)

lemma drives_ok_lib [simp]: "drives_ok (s\<lparr>lib := d\<rparr>) = drives_ok s" "drives_ok (s\<lparr>driver := f\<rparr>) = drives_ok s"
  by (simp_all add: drives_ok_def)

lemma mounted_more_lib [simp]:
  "mounted_more disk (s\<lparr>lib := d\<rparr>) s' = mounted_more disk s s'"
  "mounted_more disk (s\<lparr>driver := f\<rparr>) s' = mounted_more disk s s'"
  "mounted_more disk s (s'\<lparr>lib := d\<rparr>) = mounted_more disk s s'"
  by (simp_all add: mounted_more_def)

lemma mounted_more_refl: "drives_ok s \<Longrightarrow> mounted_more disk s s"
  by (simp add: mounted_more_def)

lemma mount_loop_ok:
  "drives_ok s \<Longrightarrow> j \<le> ITP_MAX_DRIVE \<Longrightarrow> length pts \<le> free_from (drives s) j \<Longrightarrow>
     \<exists>ret s'. mount_loop fl disk force i pts (j, p) s = Some (ret, s') \<and> mounted_more disk s s'"
proof (induction pts arbitrary: i j p s)
  case Nil
  then show ?case by (simp add: mounted_more_refl)
next
  case (Cons pt pts)
  show ?case
  proof (cases "secnum pt > 0")
    case False
    then show ?thesis using Cons.IH [OF Cons.prems(1,2)] Cons.prems(3) by simp
  next
    case True
    obtain k where k: "find_empty (drives s) j p = (k, Some k)" "k < ITP_MAX_DRIVE" "\<not> avail (drives s ! k)"
      "free_from (drives s) k = free_from (drives s) j"
      using find_empty_found [OF Cons.prems(2), of "drives s" p] Cons.prems(1,3) by (auto simp: drives_ok_def)
    obtain ret d where r: "f_initvolumepartition fl k disk i (lib s) = (ret, d)" by fastforce
    obtain ret' d' where r': "(if disk = ITP_DISK_NAND \<and> ret = F_ERR_NOTFORMATTED then FatFormat fl k d else (ret, d)) = (ret', d')"
      by fastforce
    let ?s1 = "s\<lparr>lib := snd (f_delvolume fl k d')\<rparr>" and ?s2 = "mark_mounted disk k k (s\<lparr>lib := d'\<rparr>)"
    have next1: "\<exists>ret s'. mount_loop fl disk force (Suc i) pts (k, Some k) ?s1 = Some (ret, s') \<and> mounted_more disk ?s1 s'"
      using Cons.IH [of ?s1 k "Suc i" "Some k"] Cons.prems k by simp
    have m: "mounted_more disk s ?s2" "Suc (free_from (drives ?s2) k) = free_from (drives s) k"
      using mark_mounted_ok [of "s\<lparr>lib := d'\<rparr>" k disk] Cons.prems(1) k by simp_all
    then have "drives_ok ?s2" by (simp add: mounted_more_def)
    then have next2: "\<exists>ret s'. mount_loop fl disk force (Suc i) pts (k, Some k) ?s2 = Some (ret, s') \<and> mounted_more disk ?s2 s'"
      using Cons.IH [of ?s2 k "Suc i" "Some k"] Cons.prems(3) k m(2) by simp
    show ?thesis
      using True k(1) r r' next1 next2 mounted_more_trans [OF m(1)] mounted_more_refl [OF Cons.prems(1), of disk]
      by (auto simp: Let_def)
  qed
qed

lemma need_driver_drives:
  "need_driver fl disk s = (ret, s') \<Longrightarrow> drives s' = drives s \<and> drive_queue s' = drive_queue s
     \<and> (ret = 0 \<longrightarrow> driver s' disk)"
  by (auto simp: need_driver_def split: prod.splits if_splits)

lemma FatMount_ok:
  assumes "drives_ok s" "ITP_MAX_PARTITION \<le> free_from (drives s) 0" "FatMount fl disk force s = Some (ret, s')"
  shows "mounted_more disk s s'"
proof -
  obtain r1 s1 where n: "need_driver fl disk s = (r1, s1)" by fastforce
  note nd = need_driver_drives [OF n]
  have ok1: "drives_ok s1" using nd assms(1) by (simp add: drives_ok_def)
  have sub: "mounted_more disk s x = mounted_more disk s1 x" for x using nd by (simp add: mounted_more_def)
  obtain r2 pts d where g: "f_getpartition fl disk (lib s1) = (r2, pts, d)" by (metis prod_cases3)
  have loop: "\<exists>ret s'. mount_loop fl disk force 0 (take ITP_MAX_PARTITION pts) (0, None) (s1\<lparr>lib := d\<rparr>) = Some (ret, s')
      \<and> mounted_more disk (s1\<lparr>lib := d\<rparr>) s'"
    using mount_loop_ok [of "s1\<lparr>lib := d\<rparr>" 0 "take ITP_MAX_PARTITION pts"] ok1 nd assms(2) by simp
  show ?thesis
    using assms(3) n g loop mounted_more_refl [OF ok1] unfolding sub
    by (auto simp: FatMount_def Let_def split: if_splits)
qed

text \<open>What unmounting a disk changes: its drives are gone, the others stay.\<close>

definition unmounted :: "ITPDisk \<Rightarrow> 'd fat \<Rightarrow> 'd fat \<Rightarrow> bool" where
  "unmounted disk s s' \<longleftrightarrow> drives_ok s' \<and> (\<forall>i < ITP_MAX_DRIVE.
     drives s' ! i = (if dr_disk (drives s ! i) = disk then (drives s ! i)\<lparr>avail := False\<rparr> else drives s ! i))"

lemma unmount_loop_ok:
  "drives_ok s \<Longrightarrow> i + n = ITP_MAX_DRIVE \<Longrightarrow>
     drives_ok (snd (unmount_loop fl disk i n ret s))
     \<and> (\<forall>k < ITP_MAX_DRIVE. drives (snd (unmount_loop fl disk i n ret s)) ! k
         = (if i \<le> k \<and> dr_disk (drives s ! k) = disk then (drives s ! k)\<lparr>avail := False\<rparr> else drives s ! k))"
proof (induction n arbitrary: i ret s)
  case (Suc n)
  let ?st = "drives s ! i"
  have i: "i < ITP_MAX_DRIVE" "length (drives s) = ITP_MAX_DRIVE" using Suc.prems by (simp_all add: drives_ok_def)
  show ?case
  proof (cases "avail ?st \<and> dr_disk ?st = disk \<and> dr_device ?st = ITP_DEVICE_FAT")
    case True
    let ?s = "DriveWrite (?st\<lparr>avail := False\<rparr>) (s\<lparr>lib := snd (f_delvolume fl i (lib s)), drives := (drives s)[i := ?st\<lparr>avail := False\<rparr>]\<rparr>)"
    have "drive_ok k ((drives s)[i := ?st\<lparr>avail := False\<rparr>] ! k)" if "k < ITP_MAX_DRIVE" for k
      using Suc.prems(1) i that by (cases "k = i") (simp_all add: drives_ok_def drive_ok_def)
    then have ok: "drives_ok ?s"
      using Suc.prems(1) by (simp add: drives_ok_def)
    show ?thesis
      using Suc.IH [OF ok, of "Suc i"] Suc.prems(2) True i
      by (auto simp: Let_def split_beta nth_list_update le_eq_less_or_eq Suc_le_eq)
  next
    case False
    then have "dr_disk ?st = disk \<Longrightarrow> \<not> avail ?st"
      using Suc.prems(1) i by (auto simp: drives_ok_def drive_ok_def)
    then have same: "dr_disk ?st = disk \<Longrightarrow> ?st\<lparr>avail := False\<rparr> = ?st" by simp
    show ?thesis
      using Suc.IH [OF Suc.prems(1), of "Suc i"] Suc.prems(2) False same
      by (auto simp: Let_def le_eq_less_or_eq Suc_le_eq)
  qed
qed simp

lemma FatUnmount_ok: "drives_ok s \<Longrightarrow> unmounted disk s (snd (FatUnmount fl disk s))"
  using unmount_loop_ok [of s 0 ITP_MAX_DRIVE fl disk "-1"]
  by (auto simp: FatUnmount_def unmounted_def Let_def split_beta)

lemma free_from_unmounted:
  assumes "drives_ok s" "unmounted dk s s'"
  shows "free_from (drives s) 0 \<le> free_from (drives s') 0"
proof -
  have len: "length (drives s) = ITP_MAX_DRIVE" "length (drives s') = ITP_MAX_DRIVE"
    using assms by (simp_all add: drives_ok_def unmounted_def)
  have "list_all2 (\<lambda>st st'. \<not> avail st \<longrightarrow> \<not> avail st') (drives s) (drives s')"
    using assms(2) len by (simp add: list_all2_conv_all_nth unmounted_def)
  then have "length (filter (\<lambda>st. \<not> avail st) (drives s)) \<le> length (filter (\<lambda>st. \<not> avail st) (drives s'))"
    by (induction rule: list_all2_induct) auto
  then show ?thesis by (simp add: free_from_def)
qed

text \<open>
  Any sequence of mounting, unmounting and taking messages from the queue. A disk is mounted while the drive
  table has room for the partitions of a disk: \<open>FatMount\<close> does not check for room, and without it overwrites the
  entry of another drive or a null pointer (line 894 of \<open>itp_fat.c\<close>).
\<close>

inductive drive_reach :: "'d fat_lib \<Rightarrow> 'd fat \<Rightarrow> 'd fat \<Rightarrow> bool" for fl s0 where
  start: "drive_reach fl s0 s0"
| mount: "drive_reach fl s0 s \<Longrightarrow> ITP_MAX_PARTITION \<le> free_from (drives s) 0 \<Longrightarrow>
    FatMount fl disk force s = Some (ret, s') \<Longrightarrow> drive_reach fl s0 s'"
| unmount: "drive_reach fl s0 s \<Longrightarrow> drive_reach fl s0 (snd (FatUnmount fl disk s))"
| message: "drive_reach fl s0 s \<Longrightarrow> DriveRead nonblock s = Some (m, s') \<Longrightarrow> drive_reach fl s0 s'"

lemma drive_reach_ok: "drive_reach fl s0 s \<Longrightarrow> drives_ok s0 \<Longrightarrow> drives_ok s"
proof (induction rule: drive_reach.induct)
  case (mount s disk force ret s')
  then show ?case using FatMount_ok [OF mount.IH [OF mount.prems] mount.hyps(2,3)] by (simp add: mounted_more_def)
next
  case (unmount s disk)
  then show ?case using FatUnmount_ok [of s disk fl] by (simp add: unmounted_def)
next
  case (message s nonblock m s')
  then show ?case by (auto simp: drives_ok_def DriveRead_def split: list.splits if_splits)
qed

lemma DriveInit_ok: "length (drives s) = ITP_MAX_DRIVE \<Longrightarrow> drives_ok (DriveInit s)"
  by (simp add: DriveInit_def drives_ok_def drive_ok_def)

subsection \<open>Partitions that are created are read back\<close>

text \<open>
  What the code relies on: the FAT library gives back the partition table \<open>tab\<close> it was given, with empty entries
  behind it, and keeps it through formatting, mounting and releasing; the geometry \<open>phy\<close> of a disk is fixed.
\<close>

definition fat_lib_ok ::
  "'d fat_lib \<Rightarrow> (ITPDisk \<Rightarrow> 'd \<Rightarrow> F_PARTITION list option) \<Rightarrow> (ITPDisk \<Rightarrow> F_PHY) \<Rightarrow> bool" where
  "fat_lib_ok fl tab phy \<longleftrightarrow>
     (\<forall>disk d pts. tab disk d = Some pts \<longrightarrow> length pts \<le> ITP_MAX_PARTITION \<longrightarrow>
        f_getpartition fl disk d = (0, pts @ replicate (ITP_MAX_PARTITION - length pts) \<lparr>secnum = 0, system_indicator = 0\<rparr>, d))
     \<and> (\<forall>disk d. getphy fl disk d = (0, phy disk, d))
     \<and> (\<forall>disk pts d d'. f_createpartition fl disk pts d = (0, d') \<longrightarrow> tab disk d' = Some pts)
     \<and> (\<forall>disk disk' i j d. tab disk (snd (f_createdriver fl disk' d)) = tab disk d
          \<and> tab disk (snd (f_releasedriver fl disk' d)) = tab disk d
          \<and> tab disk (snd (f_initvolumepartition fl i disk' j d)) = tab disk d
          \<and> tab disk (snd (f_delvolume fl i d)) = tab disk d \<and> tab disk (snd (f_format fl i j d)) = tab disk d)"

lemma plan_partitions_spec:
  "plan_partitions phy par i used acc = Some (Inr r) \<Longrightarrow> length acc = i \<Longrightarrow> int i \<le> par_count par \<Longrightarrow>
     length r = nat (par_count par) \<and> length r \<le> max i ITP_MAX_PARTITION \<and> length r \<le> max i (length (par_size par)) \<and> take i r = acc
     \<and> (\<forall>k. i \<le> k \<longrightarrow> k < length r \<longrightarrow> 0 < par_size par ! k \<longrightarrow>
          secnum (r ! k) = ucast (par_size par ! k div ucast (sector_bytes phy)))"
proof (induction phy par i used acc rule: plan_partitions.induct)
  case (1 phy par i used acc)
  show ?case
  proof (cases "int i < par_count par")
    case False
    then show ?thesis using 1(2-4) by (subst (asm) plan_partitions.simps) auto
  next
    case True
    let ?sz = "par_size par ! i" and ?b = "sector_bytes phy"
    let ?n = "if ?sz > 0 then ucast (?sz div ucast ?b) else number_of_sectors phy - used - 63 :: 32 word"
    let ?u = "if ?sz > 0 then used + ?n else used"
    have fit: "i < length (par_size par)" "i < ITP_MAX_PARTITION" "\<not> (?sz = 0 \<and> int i \<noteq> par_count par - 1)"
      and rec: "plan_partitions phy par (Suc i) ?u (acc @ [\<lparr>secnum = ?n, system_indicator = fat_type ?b ?n\<rparr>]) = Some (Inr r)"
    proof -
      have p: "(if i < length (par_size par) \<and> i < ITP_MAX_PARTITION
          then if ?sz = 0 \<and> int i \<noteq> par_count par - 1 then Some (Inl 1090)
            else plan_partitions phy par (Suc i) ?u (acc @ [\<lparr>secnum = ?n, system_indicator = fat_type ?b ?n\<rparr>])
          else None) = Some (Inr r)"
        using 1(2) True unfolding plan_partitions.simps [of phy par i used acc] Let_def by simp
      then show "i < length (par_size par)" "i < ITP_MAX_PARTITION" "\<not> (?sz = 0 \<and> int i \<noteq> par_count par - 1)"
        by (auto split: if_split_asm)
      with p show "plan_partitions phy par (Suc i) ?u (acc @ [\<lparr>secnum = ?n, system_indicator = fat_type ?b ?n\<rparr>]) = Some (Inr r)"
        by (simp only: if_True if_False simp_thms)
    qed
    have ih: "length r = nat (par_count par) \<and> length r \<le> max (Suc i) ITP_MAX_PARTITION \<and> length r \<le> max (Suc i) (length (par_size par))
      \<and> take (Suc i) r = acc @ [\<lparr>secnum = ?n, system_indicator = fat_type ?b ?n\<rparr>]
      \<and> (\<forall>k. Suc i \<le> k \<longrightarrow> k < length r \<longrightarrow> 0 < par_size par ! k \<longrightarrow>
          secnum (r ! k) = ucast (par_size par ! k div ucast ?b))"
      by (rule "1.IH" [OF True _ refl refl refl refl _ rec]) (use fit 1(3) True in simp_all)
    define e where "e = \<lparr>secnum = ?n, system_indicator = fat_type ?b ?n\<rparr>"
    have t: "take (Suc i) r = acc @ [e]" using ih unfolding e_def by blast
    have "take i (take (Suc i) r) = acc" "take (Suc i) r ! i = e" unfolding t using 1(3) by (auto simp: nth_append)
    then have r: "take i r = acc" "r ! i = \<lparr>secnum = ?n, system_indicator = fat_type ?b ?n\<rparr>"
      unfolding e_def by (simp_all add: min_def)
    show ?thesis
    proof (intro conjI allI impI)
      fix k
      assume k: "i \<le> k" "k < length r" "0 < par_size par ! k"
      show "secnum (r ! k) = ucast (par_size par ! k div ucast ?b)"
        using ih k r(2) by (cases "k = i") auto
    qed (use ih r(1) fit in auto)
  qed
qed

lemma get_sizes_spec:
  "(\<forall>pt \<in> set pts. 0 < secnum pt) \<Longrightarrow> i + length pts \<le> length (par_size par) \<Longrightarrow>
     \<exists>par'. get_sizes bps i (pts @ replicate m \<lparr>secnum = 0, system_indicator = 0\<rparr>) par = Some par'
       \<and> par_count par' = par_count par + int (length pts) \<and> length (par_size par') = length (par_size par)
       \<and> (\<forall>k < i. par_size par' ! k = par_size par ! k)
       \<and> (\<forall>k < length pts. par_size par' ! (i + k) = ucast (secnum (pts ! k)) * ucast bps)"
proof (induction pts arbitrary: i par)
  case Nil
  then show ?case by (cases m) auto
next
  case (Cons pt pts)
  let ?par = "par\<lparr>par_count := par_count par + 1, par_size := (par_size par)[i := ucast (secnum pt) * ucast bps]\<rparr>"
  obtain par' where p: "get_sizes bps (Suc i) (pts @ replicate m \<lparr>secnum = 0, system_indicator = 0\<rparr>) ?par = Some par'"
    "par_count par' = par_count ?par + int (length pts)" "length (par_size par') = length (par_size ?par)"
    "\<forall>k < Suc i. par_size par' ! k = par_size ?par ! k"
    "\<forall>k < length pts. par_size par' ! (Suc i + k) = ucast (secnum (pts ! k)) * ucast bps"
    using Cons.IH [of "Suc i" ?par] Cons.prems by auto
  have "par_size par' ! (i + k) = ucast (secnum ((pt # pts) ! k)) * ucast bps" if "k < length (pt # pts)" for k
  proof (cases k)
    case 0
    then show ?thesis using p(4) Cons.prems(2) by simp
  next
    case (Suc j)
    then show ?thesis using p(5) that by simp
  qed
  then show ?case using p Cons.prems by (intro exI [of _ par']) simp
qed

text \<open>A size that is a multiple of the sector size, with a number of sectors of 32 bits, comes back.\<close>

lemma whole_sectors:
  fixes sz :: "64 word" and bps :: "16 word"
  assumes "unat bps dvd unat sz" "unat sz div unat bps < 2 ^ 32" "0 < unat bps"
  shows "ucast (ucast (sz div ucast bps) :: 32 word) * ucast bps = sz"
proof -
  have b: "unat (ucast bps :: 64 word) = unat bps"
  proof -
    have "unat bps < 2 ^ LENGTH(16)" by (rule unsigned_less)
    then show ?thesis by (simp add: unsigned_ucast_eq take_bit_nat_eq_self)
  qed
  have q: "unat (sz div ucast bps) = unat sz div unat bps" by (simp add: unat_div_distrib b)
  have "unat (ucast (sz div ucast bps) :: 32 word) = unat sz div unat bps"
    using q assms(2) by (simp add: unsigned_ucast_eq take_bit_nat_eq_self)
  moreover have "unat sz div unat bps < 2 ^ 64" using assms(2) by simp
  ultimately have r: "unat (ucast (ucast (sz div ucast bps) :: 32 word) :: 64 word) = unat sz div unat bps"
    by (simp add: unsigned_ucast_eq unsigned_take_bit_eq take_bit_nat_eq_self)
  have "unat sz div unat bps * unat bps = unat sz" using assms(1) by simp
  then have "of_nat (unat (ucast (ucast (sz div ucast bps) :: 32 word) :: 64 word) * unat (ucast bps :: 64 word)) = sz"
    using r b by simp
  then show ?thesis by simp
qed

end
