(* ===== verification/Ug_Drives.thy ===== *)
theory Ug_Drives
  imports Itp_FatProps
begin

text \<open>
  The FAT and drive services behind \<open>ioctl\<close> (\<open>FatIoctl\<close> of \<open>itp_fat.c\<close>, \<open>DriveIoctl\<close> of
  \<open>itp_drive_openrtos.c\<close>) as the upgrade uses them, and the upgrade of a device on top of them: once it has
  partitioned a disk, the same package leaves the disk alone.
\<close>

text \<open>
  An error of the FAT device is -1 for the caller of \<open>ioctl\<close>. Where the model of the operation is
  undefined, the operation of \<open>srv\<close> stands in. The partition to fill is a variable on the stack of
  \<open>ugUpgradeDevice\<close> with \<open>junk\<close> in it.
\<close>

definition ioctl_ret :: "int \<Rightarrow> int" where
  "ioctl_ret ret = (if ret \<noteq> 0 then -1 else 0)"

definition fat_services ::
  "'d fat_lib \<Rightarrow> 64 word list \<Rightarrow> 'd fat itp_services \<Rightarrow> 'd fat itp_services" where
  "fat_services fl junk srv = srv\<lparr>
     fat_get_partition := (\<lambda>disk s. case FatGetPartition fl \<lparr>par_disk = disk, par_count = 0, par_size = junk, par_start = junk\<rparr> s of
         Some (ret, par, s) \<Rightarrow> (ioctl_ret ret, par, s) | None \<Rightarrow> fat_get_partition srv disk s),
     fat_unmount := (\<lambda>disk s. let (ret, s) = FatUnmount fl disk s in (ioctl_ret ret, s)),
     fat_create_partition := (\<lambda>par s. case FatCreatePartition fl par s of
         Some (ret, s) \<Rightarrow> (ioctl_ret ret, s) | None \<Rightarrow> fat_create_partition srv par s),
     fat_force_mount := (\<lambda>disk s. case FatMount fl disk True s of
         Some (ret, s) \<Rightarrow> (ioctl_ret ret, s) | None \<Rightarrow> fat_force_mount srv disk s),
     fat_format := (\<lambda>i s. let (ret, d) = FatFormat fl i (lib s) in (ioctl_ret ret, s\<lparr>lib := d\<rparr>)),
     drive_table := drives\<rparr>"

lemma fat_lib_okD:
  assumes "fat_lib_ok fl tab phy"
  shows "tab disk d = Some pts \<Longrightarrow> length pts \<le> ITP_MAX_PARTITION \<Longrightarrow>
      f_getpartition fl disk d = (0, pts @ replicate (ITP_MAX_PARTITION - length pts) \<lparr>secnum = 0, system_indicator = 0\<rparr>, d)"
    "getphy fl disk d = (0, phy disk, d)"
    "f_createpartition fl disk pts d = (0, d') \<Longrightarrow> tab disk d' = Some pts"
    "tab disk (snd (f_createdriver fl disk' d)) = tab disk d" "tab disk (snd (f_releasedriver fl disk' d)) = tab disk d"
    "tab disk (snd (f_initvolumepartition fl i disk' j d)) = tab disk d" "tab disk (snd (f_delvolume fl i d)) = tab disk d"
    "tab disk (snd (f_format fl i j d)) = tab disk d"
  using assms unfolding fat_lib_ok_def by metis+

subsection \<open>What the operations keep of the partition table\<close>

lemma FatFormat_tab: "fat_lib_ok fl tab phy \<Longrightarrow> tab disk (snd (FatFormat fl i d)) = tab disk d"
  using fat_lib_okD(8) [of fl tab phy disk] by (simp add: FatFormat_def Let_def split_beta)

lemma need_driver_tab:
  "fat_lib_ok fl tab phy \<Longrightarrow> tab disk (lib (snd (need_driver fl dk s))) = tab disk (lib s)"
  using fat_lib_okD(4) [of fl tab phy disk dk "lib s"] by (simp add: need_driver_def Let_def split_beta)

lemma mark_mounted_simps [simp]:
  "lib (mark_mounted dk j p s) = lib s" "driver (mark_mounted dk j p s) = driver s"
  by (simp_all add: mark_mounted_def Let_def)

lemma mount_loop_tab:
  "fat_lib_ok fl tab phy \<Longrightarrow> mount_loop fl dk force i pts st s = Some (ret, s') \<Longrightarrow>
     tab disk (lib s') = tab disk (lib s) \<and> driver s' = driver s"
proof (induction pts arbitrary: i st s)
  case (Cons pt pts)
  note L = fat_lib_okD(6,7) [OF Cons.prems(1), of disk] and F = FatFormat_tab [OF Cons.prems(1), of disk]
  obtain j p where st: "st = (j, p)" by (cases st)
  show ?case
  proof (cases "secnum pt > 0")
    case False
    then show ?thesis using Cons.prems(2) Cons.IH [OF Cons.prems(1)] by (simp add: st)
  next
    case True
    obtain j' p' where e: "find_empty (drives s) j p = (j', p')" by fastforce
    obtain r d where r: "f_initvolumepartition fl j' dk i (lib s) = (r, d)" by fastforce
    have d: "tab disk d = tab disk (lib s)" using L(1) [of j' dk i "lib s"] r by simp
    obtain r' d' where r': "(if dk = ITP_DISK_NAND \<and> r = F_ERR_NOTFORMATTED then FatFormat fl j' d else (r, d)) = (r', d')"
      by fastforce
    have d': "tab disk d' = tab disk (lib s)" using d r' F [of j' d] by (auto split: if_splits)
    show ?thesis
      using Cons.prems(2) True e r r' L(2) d d' Cons.IH [OF Cons.prems(1)]
      by (fastforce simp: st Let_def split: if_split_asm option.splits)
  qed
qed simp

lemma unmount_loop_tab:
  "fat_lib_ok fl tab phy \<Longrightarrow> tab disk (lib (snd (unmount_loop fl dk i n ret s))) = tab disk (lib s)"
proof (induction n arbitrary: i ret s)
  case (Suc n)
  show ?case
    using fat_lib_okD(7) [OF Suc.prems, of disk] Suc.IH [OF Suc.prems] by (simp add: Let_def split_beta)
qed simp

lemma FatUnmount_tab: "fat_lib_ok fl tab phy \<Longrightarrow> tab disk (lib (snd (FatUnmount fl dk s))) = tab disk (lib s)"
  using unmount_loop_tab [of fl tab phy disk] fat_lib_okD(5) [of fl tab phy disk]
  by (simp add: FatUnmount_def Let_def split_beta)

lemma FatMount_tab:
  assumes "fat_lib_ok fl tab phy" "FatMount fl dk force s = Some (ret, s')" "tab dk (lib s) = Some pts" "length pts \<le> ITP_MAX_PARTITION"
  shows "tab disk (lib s') = tab disk (lib s) \<and> (ret = 0 \<longrightarrow> driver s' dk)"
proof -
  obtain r1 s1 where n: "need_driver fl dk s = (r1, s1)" by fastforce
  have t1: "tab disk' (lib s1) = tab disk' (lib s)" for disk' using need_driver_tab [OF assms(1), of disk' dk s] n by simp
  have g: "f_getpartition fl dk (lib s1) = (0, pts @ replicate (ITP_MAX_PARTITION - length pts) \<lparr>secnum = 0, system_indicator = 0\<rparr>, lib s1)"
    using fat_lib_okD(1) [OF assms(1)] assms(3,4) t1 by simp
  show ?thesis
  proof (cases "r1 = 0")
    case False
    then show ?thesis using assms(2) n t1 by (auto simp: FatMount_def)
  next
    case True
    then have "mount_loop fl dk force 0 (pts @ replicate (ITP_MAX_PARTITION - length pts) \<lparr>secnum = 0, system_indicator = 0\<rparr>) (0, None) s1 = Some (ret, s')"
      using assms(2,4) n g by (simp add: FatMount_def Let_def split: if_splits)
    from mount_loop_tab [OF assms(1) this, of disk] show ?thesis
      using t1 need_driver_drives [OF n] True by simp
  qed
qed

lemma format_drives_tab:
  assumes "fat_lib_ok fl tab phy" "format_drives (fat_services fl junk srv) dk i sts s = (ret, s')"
  shows "tab disk (lib s') = tab disk (lib s) \<and> driver s' = driver s"
  using assms(2)
proof (induction sts arbitrary: i s)
  case (Cons st sts)
  have f: "fat_format (fat_services fl junk srv) i s = (ioctl_ret (fst (FatFormat fl i (lib s))), s\<lparr>lib := snd (FatFormat fl i (lib s))\<rparr>)"
    by (simp add: fat_services_def Let_def split_beta)
  have t: "tab disk (snd (FatFormat fl i (lib s))) = tab disk (lib s)" using FatFormat_tab [OF assms(1)] .
  show ?case
    using Cons.prems Cons.IH [of "Suc i" s] Cons.IH [of "Suc i" "s\<lparr>lib := snd (FatFormat fl i (lib s))\<rparr>"] t
    by (auto simp: f Let_def split: if_split_asm)
qed simp

subsection \<open>Created and read back\<close>

lemma plan_partitions_error: "plan_partitions phy par i used acc = Some (Inl e) \<Longrightarrow> e = 1090"
proof (induction phy par i used acc rule: plan_partitions.induct)
  case (1 phy par i used acc)
  let ?sz = "par_size par ! i" and ?b = "sector_bytes phy"
  let ?n = "if ?sz > 0 then ucast (?sz div ucast ?b) else number_of_sectors phy - used - 63 :: 32 word"
  let ?u = "if ?sz > 0 then used + ?n else used"
  have c: "int i < par_count par" using 1(2) by (subst (asm) plan_partitions.simps) (simp split: if_split_asm)
  have p: "(if i < length (par_size par) \<and> i < ITP_MAX_PARTITION
      then if ?sz = 0 \<and> int i \<noteq> par_count par - 1 then Some (Inl 1090)
        else plan_partitions phy par (Suc i) ?u (acc @ [\<lparr>secnum = ?n, system_indicator = fat_type ?b ?n\<rparr>])
      else None) = Some (Inl e)"
    using 1(2) c unfolding plan_partitions.simps [of phy par i used acc] Let_def by simp
  then have fit: "i < length (par_size par) \<and> i < ITP_MAX_PARTITION" by (simp split: if_split_asm)
  show ?case
  proof (cases "?sz = 0 \<and> int i \<noteq> par_count par - 1")
    case True
    then show ?thesis using p fit by simp
  next
    case False
    then have rec: "plan_partitions phy par (Suc i) ?u (acc @ [\<lparr>secnum = ?n, system_indicator = fat_type ?b ?n\<rparr>]) = Some (Inl e)"
      using p fit by (simp only: if_True if_False simp_thms)
    show ?thesis by (rule "1.IH" [OF c fit refl refl refl refl False rec])
  qed
qed

lemma FatCreatePartition_tab:
  assumes "fat_lib_ok fl tab phy" "FatCreatePartition fl par s = Some (0, s')" "0 \<le> par_count par"
  shows "\<exists>pts. plan_partitions (phy (par_disk par)) par 0 0 [] = Some (Inr pts) \<and> tab (par_disk par) (lib s') = Some pts
    \<and> length pts = nat (par_count par) \<and> length pts \<le> ITP_MAX_PARTITION \<and> driver s' (par_disk par)"
proof -
  obtain r1 s1 where n: "need_driver fl (par_disk par) s = (r1, s1)" by fastforce
  have r1: "r1 = 0" using assms(2) n by (auto simp: FatCreatePartition_def split: if_splits)
  then have drv: "driver s1 (par_disk par)" using need_driver_drives [OF n] by simp
  obtain r where r: "plan_partitions (phy (par_disk par)) par 0 0 [] = Some r"
    "(case r of Inl e \<Rightarrow> Some (e, s1)
      | Inr pts \<Rightarrow> (case f_createpartition fl (par_disk par) pts (lib s1) of (ret, d) \<Rightarrow> Some (ret, s1\<lparr>lib := d\<rparr>))) = Some (0, s')"
    using assms(2) n r1 fat_lib_okD(2) [OF assms(1)]
    by (cases "plan_partitions (phy (par_disk par)) par 0 0 []")
      (simp_all add: FatCreatePartition_def Let_def cong: sum.case_cong)
  obtain pts where pts: "r = Inr pts" using r plan_partitions_error [of "phy (par_disk par)" par 0 0 "[]" 0]
    by (cases r) auto
  then obtain d where d: "f_createpartition fl (par_disk par) pts (lib s1) = (0, d)" "s' = s1\<lparr>lib := d\<rparr>"
    using r(2) by (auto simp: Let_def split: prod.splits)
  have "length pts = nat (par_count par) \<and> length pts \<le> max 0 ITP_MAX_PARTITION"
    using plan_partitions_spec [OF r(1) [unfolded pts]] assms(3) by simp
  then show ?thesis using r(1) pts fat_lib_okD(3) [OF assms(1) d(1)] d(2) drv by simp
qed

text \<open>Sizes in whole sectors whose number fits into 32 bits.\<close>

definition whole_sizes :: "F_PHY \<Rightarrow> 64 word list \<Rightarrow> bool" where
  "whole_sizes ph sizes \<longleftrightarrow> (\<forall>sz \<in> set sizes. sz = 0 \<or>
     (unat (sector_bytes ph) dvd unat sz \<and> unat sz div unat (sector_bytes ph) < 2 ^ 32))"

lemma sector_bytes_pos: "0 < unat (sector_bytes ph)"
  by (simp add: sector_bytes_def unat_gt_0)

lemma partitions_read:
  assumes "fat_lib_ok fl tab phy" "plan_partitions (phy (par_disk par)) par 0 0 [] = Some (Inr pts)"
    "par_count par = int (length (par_size par))" "\<forall>pt \<in> set pts. 0 < secnum pt"
    "tab (par_disk par) (lib s) = Some pts" "driver s (par_disk par)"
    "par_disk par' = par_disk par" "length (par_size par') = ITP_MAX_PARTITION"
  shows "\<exists>par''. FatGetPartition fl par' s = Some (0, par'', s) \<and> par_count par'' = par_count par
    \<and> length (par_size par'') = ITP_MAX_PARTITION \<and> length pts = length (par_size par)
    \<and> (\<forall>i < length pts. par_size par'' ! i = ucast (secnum (pts ! i)) * ucast (sector_bytes (phy (par_disk par))))"
proof -
  let ?ph = "phy (par_disk par)" and ?pad = "replicate (ITP_MAX_PARTITION - length pts) \<lparr>secnum = 0, system_indicator = 0\<rparr>"
  have len: "length pts = length (par_size par)" "length pts \<le> ITP_MAX_PARTITION"
    using plan_partitions_spec [OF assms(2), simplified] assms(3) by simp_all
  obtain par'' where g: "get_sizes (sector_bytes ?ph) 0 (pts @ ?pad) (par'\<lparr>par_count := 0\<rparr>) = Some par''"
    "par_count par'' = int (length pts)" "length (par_size par'') = ITP_MAX_PARTITION"
    "\<forall>k < length pts. par_size par'' ! k = ucast (secnum (pts ! k)) * ucast (sector_bytes ?ph)"
    using get_sizes_spec [of pts 0 "par'\<lparr>par_count := 0\<rparr>" "sector_bytes ?ph" "ITP_MAX_PARTITION - length pts"] assms(4,8) len by auto
  have "FatGetPartition fl par' s = Some (0, par'', s)"
    using fat_lib_okD(1) [OF assms(1,5) len(2)] fat_lib_okD(2) [OF assms(1)] g(1) assms(6,7) len(2)
    by (simp add: FatGetPartition_def need_driver_def Let_def)
  then show ?thesis using g(2-4) len(1) assms(3) by simp
qed

lemma partitions_read_back:
  assumes "fat_lib_ok fl tab phy" "plan_partitions (phy (par_disk par)) par 0 0 [] = Some (Inr pts)"
    "par_count par = int (length (par_size par))" "whole_sizes (phy (par_disk par)) (par_size par)"
    "\<forall>pt \<in> set pts. 0 < secnum pt"
    "tab (par_disk par) (lib s) = Some pts" "driver s (par_disk par)"
    "par_disk par' = par_disk par" "length (par_size par') = ITP_MAX_PARTITION"
  shows "\<exists>par''. FatGetPartition fl par' s = Some (0, par'', s) \<and> par_count par'' = par_count par
    \<and> length (par_size par'') = ITP_MAX_PARTITION
    \<and> (\<forall>i < length (par_size par). par_size par ! i = 0 \<or> par_size par'' ! i = par_size par ! i)"
proof -
  let ?ph = "phy (par_disk par)"
  obtain par'' where g: "FatGetPartition fl par' s = Some (0, par'', s)" "par_count par'' = par_count par"
    "length (par_size par'') = ITP_MAX_PARTITION" "length pts = length (par_size par)"
    "\<forall>i < length pts. par_size par'' ! i = ucast (secnum (pts ! i)) * ucast (sector_bytes ?ph)"
    using partitions_read [OF assms(1-3,5-9)] by blast
  have "par_size par'' ! i = par_size par ! i" if i: "i < length (par_size par)" "par_size par ! i \<noteq> 0" for i
  proof -
    have sec: "secnum (pts ! i) = ucast (par_size par ! i div ucast (sector_bytes ?ph))"
      using plan_partitions_spec [OF assms(2), simplified] i assms(3) by (simp add: word_neq_0_conv)
    have "unat (sector_bytes ?ph) dvd unat (par_size par ! i)" "unat (par_size par ! i) div unat (sector_bytes ?ph) < 2 ^ 32"
      using assms(4) i by (auto simp: whole_sizes_def)
    from whole_sectors [OF this sector_bytes_pos] show ?thesis using g(4,5) sec i by simp
  qed
  then show ?thesis using g(1-3) by auto
qed

text \<open>The product of a number of sectors and their size is a multiple of that size.\<close>

lemma sector_product:
  fixes n :: "32 word" and b :: "16 word"
  shows "unat (ucast n * ucast b :: 64 word) = unat n * unat b"
proof -
  have "unat n * unat b < 2 ^ 32 * 2 ^ 16"
    using unsigned_less [of n, where 'a = nat] unsigned_less [of b, where 'a = nat] by (intro mult_strict_mono') simp_all
  then show ?thesis
    by (simp add: unat_word_ariths(2) unsigned_ucast_eq take_bit_nat_eq_self
        less_trans [OF unsigned_less [of n, where 'a = nat]] less_trans [OF unsigned_less [of b, where 'a = nat]])
qed

subsection \<open>The upgrade of a device\<close>

text \<open>The partition that \<open>ugUpgradeDevice\<close> asks for.\<close>

definition asked_partition :: "ITPDisk \<Rightarrow> 32 word \<Rightarrow> 64 word list \<Rightarrow> ITPPartition" where
  "asked_partition dk u sizes = \<lparr>par_disk = dk, par_count = sint (of_nat (length sizes) :: 32 word), par_size = sizes,
     par_start = partition_starts (ucast u) sizes\<rparr>"

lemma plan_partitions_total:
  "par_count par = int (length (par_size par)) \<Longrightarrow> length (par_size par) \<le> ITP_MAX_PARTITION \<Longrightarrow>
     plan_partitions phy par i used acc \<noteq> None"
proof (induction phy par i used acc rule: plan_partitions.induct)
  case (1 phy par i used acc)
  show ?case
  proof (cases "int i < par_count par")
    case True
    then have "i < length (par_size par) \<and> i < ITP_MAX_PARTITION" using 1(2,3) by simp
    then show ?thesis
      using "1.IH" [OF True] 1(2,3) True unfolding plan_partitions.simps [of phy par i used acc] Let_def by simp
  qed (subst plan_partitions.simps, simp)
qed

lemma FatCreatePartition_total:
  assumes "fat_lib_ok fl tab phy" "par_count par = int (length (par_size par))" "length (par_size par) \<le> ITP_MAX_PARTITION"
  shows "\<exists>r s'. FatCreatePartition fl par s = Some (r, s') \<and> drives s' = drives s \<and> drive_queue s' = drive_queue s"
proof -
  obtain r1 s1 where n: "need_driver fl (par_disk par) s = (r1, s1)" by fastforce
  obtain r where r: "plan_partitions (phy (par_disk par)) par 0 0 [] = Some r"
    using plan_partitions_total [OF assms(2,3)] by blast
  show ?thesis
    using n need_driver_drives [OF n] r fat_lib_okD(2) [OF assms(1)]
    by (cases r) (auto simp: FatCreatePartition_def Let_def split_beta)
qed

lemma FatMount_total:
  assumes "fat_lib_ok fl tab phy" "tab dk (lib s) = Some pts" "length pts \<le> ITP_MAX_PARTITION"
    "drives_ok s" "ITP_MAX_PARTITION \<le> free_from (drives s) 0"
  shows "\<exists>r s'. FatMount fl dk force s = Some (r, s') \<and> drives_ok s'"
proof -
  obtain r1 s1 where n: "need_driver fl dk s = (r1, s1)" by fastforce
  note nd = need_driver_drives [OF n]
  have g: "f_getpartition fl dk (lib s1) = (0, pts @ replicate (ITP_MAX_PARTITION - length pts) \<lparr>secnum = 0, system_indicator = 0\<rparr>, lib s1)"
    using fat_lib_okD(1) [OF assms(1) _ assms(3)] need_driver_tab [OF assms(1), of dk dk s] n assms(2) by simp
  have ok1: "drives_ok s1" using nd assms(4) by (simp add: drives_ok_def)
  have "\<exists>r s'. mount_loop fl dk force 0 (pts @ replicate (ITP_MAX_PARTITION - length pts) \<lparr>secnum = 0, system_indicator = 0\<rparr>) (0, None) s1 = Some (r, s')"
    using mount_loop_ok [OF ok1, of 0 "pts @ replicate (ITP_MAX_PARTITION - length pts) \<lparr>secnum = 0, system_indicator = 0\<rparr>" fl dk force 0 None]
      nd assms(3,5) by auto
  then obtain r s' where m: "FatMount fl dk force s = Some (r, s')"
    using n g assms(3) by (cases "r1 = 0") (auto simp: FatMount_def Let_def)
  then show ?thesis using FatMount_ok [OF assms(4,5) m] by (auto simp: mounted_more_def)
qed

lemma ioctl_ret_0 [simp]: "ioctl_ret r = 0 \<longleftrightarrow> r = 0"
  by (simp add: ioctl_ret_def)

lemma repartition_result:
  assumes "fat_lib_ok fl tab phy" "drives_ok d" "ITP_MAX_PARTITION \<le> free_from (drives d) 0"
    "length sizes \<le> ITP_MAX_PARTITION"
    "repartition (fat_services fl junk srv) dk u (of_nat (length sizes)) sizes d = Some (0, d')"
  shows "\<exists>pts. plan_partitions (phy dk) (asked_partition dk u sizes) 0 0 [] = Some (Inr pts) \<and> tab dk (lib d') = Some pts
    \<and> driver d' dk"
proof -
  let ?srv = "fat_services fl junk srv" and ?par = "asked_partition dk u sizes"
  have count: "par_count ?par = int (length sizes)"
    using u32_of_nat(3) [of "length sizes"] assms(4) by (simp add: asked_partition_def ITP_MAX_PARTITION_def)
  have dk: "par_disk ?par = dk" "par_size ?par = sizes" by (simp_all add: asked_partition_def)
  obtain r1 d1 where un: "FatUnmount fl dk d = (r1, d1)" by fastforce
  have um: "unmounted dk d d1" using FatUnmount_ok [OF assms(2), of dk fl] un by simp
  have free: "ITP_MAX_PARTITION \<le> free_from (drives d1) 0" and ok1: "drives_ok d1"
    using free_from_unmounted [OF assms(2) um] assms(3) um by (simp_all add: unmounted_def)
  obtain r2 d2 where cr: "FatCreatePartition fl ?par d1 = Some (r2, d2)" "drives d2 = drives d1" "drive_queue d2 = drive_queue d1"
    using FatCreatePartition_total [OF assms(1), of ?par d1] count dk assms(4) by auto
  note rep = assms(5) [unfolded repartition_def, folded asked_partition_def]
  have srv: "fat_unmount ?srv dk d = (ioctl_ret r1, d1)" "fat_create_partition ?srv ?par d1 = (ioctl_ret r2, d2)"
    using un cr(1) by (simp_all add: fat_services_def)
  have r2: "r2 = 0"
    using rep srv by (simp add: Let_def split: if_split_asm)
  obtain pts where pts: "plan_partitions (phy dk) ?par 0 0 [] = Some (Inr pts)" "tab dk (lib d2) = Some pts"
    "length pts \<le> ITP_MAX_PARTITION" "driver d2 dk"
    using FatCreatePartition_tab [OF assms(1) cr(1) [unfolded r2]] count dk by auto
  have ok2: "drives_ok d2" "ITP_MAX_PARTITION \<le> free_from (drives d2) 0"
    using ok1 cr free by (simp_all add: drives_ok_def)
  obtain r3 d3 where mo: "FatMount fl dk True d2 = Some (r3, d3)" "drives_ok d3"
    using FatMount_total [OF assms(1) pts(2,3) ok2] by blast
  have srv3: "fat_force_mount ?srv dk d2 = (ioctl_ret r3, d3)" using mo(1) by (simp add: fat_services_def)
  have r3: "r3 = 0" "format_drives ?srv dk 0 (take ITP_MAX_DRIVE (drive_table ?srv d3)) d3 = (0, d')"
    using rep srv r2 srv3 by (simp_all add: Let_def split: if_split_asm)
  have "tab dk (lib d') = tab dk (lib d3) \<and> driver d' = driver d3"
    using format_drives_tab [OF assms(1) r3(2), of dk] .
  moreover have "tab dk (lib d3) = tab dk (lib d2) \<and> driver d3 dk"
    using FatMount_tab [OF assms(1) mo(1) pts(2,3), of dk] r3(1) by simp
  ultimately show ?thesis using pts(1,2) by auto
qed


text \<open>Read back, the partitions that were made are the ones that are asked for.\<close>

lemma repartition_read_back:
  assumes "fat_lib_ok fl tab phy" "drives_ok d" "ITP_MAX_PARTITION \<le> free_from (drives d) 0"
    "length sizes \<le> ITP_MAX_PARTITION" "whole_sizes (phy dk) sizes" "length junk = ITP_MAX_PARTITION"
    "\<forall>pts. plan_partitions (phy dk) (asked_partition dk u sizes) 0 0 [] = Some (Inr pts) \<longrightarrow> (\<forall>pt \<in> set pts. 0 < secnum pt)"
    "repartition (fat_services fl junk srv) dk u (of_nat (length sizes)) sizes d = Some (0, d')"
  shows "\<exists>par. fat_get_partition (fat_services fl junk srv) dk d' = (0, par, d') \<and> par_count par = int (length sizes)
    \<and> length (par_size par) = ITP_MAX_PARTITION \<and> (\<forall>i < length sizes. sizes ! i = 0 \<or> par_size par ! i = sizes ! i)"
proof -
  let ?par = "asked_partition dk u sizes"
  let ?par' = "\<lparr>par_disk = dk, par_count = 0, par_size = junk, par_start = junk\<rparr>"
  have par: "par_disk ?par = dk" "par_size ?par = sizes" "par_count ?par = int (length sizes)"
    using u32_of_nat(3) [of "length sizes"] assms(4) by (simp_all add: asked_partition_def ITP_MAX_PARTITION_def)
  obtain pts where pts: "plan_partitions (phy dk) ?par 0 0 [] = Some (Inr pts)" "tab dk (lib d') = Some pts" "driver d' dk"
    using repartition_result [OF assms(1-4,8)] by blast
  obtain par'' where "FatGetPartition fl ?par' d' = Some (0, par'', d')" "par_count par'' = int (length sizes)"
    "length (par_size par'') = ITP_MAX_PARTITION" "\<forall>i < length sizes. sizes ! i = 0 \<or> par_size par'' ! i = sizes ! i"
    using partitions_read_back [OF assms(1), of ?par pts d' ?par'] pts par assms(5-7) by auto
  then show ?thesis by (auto simp: fat_services_def ioctl_ret_def)
qed

text \<open>A size that is no multiple of the sector is never read back.\<close>

lemma repartition_differs:
  assumes "fat_lib_ok fl tab phy" "drives_ok d" "ITP_MAX_PARTITION \<le> free_from (drives d) 0"
    "length sizes \<le> ITP_MAX_PARTITION" "sz \<in> set sizes" "\<not> unat (sector_bytes (phy dk)) dvd unat sz" "length junk = ITP_MAX_PARTITION"
    "\<forall>pts. plan_partitions (phy dk) (asked_partition dk u sizes) 0 0 [] = Some (Inr pts) \<longrightarrow> (\<forall>pt \<in> set pts. 0 < secnum pt)"
    "repartition (fat_services fl junk srv) dk u (of_nat (length sizes)) sizes d = Some (0, d')"
  shows "\<exists>par. fat_get_partition (fat_services fl junk srv) dk d' = (0, par, d')
    \<and> partition_differs (of_nat (length sizes)) sizes par = Some True"
proof -
  let ?par = "asked_partition dk u sizes"
  let ?par' = "\<lparr>par_disk = dk, par_count = 0, par_size = junk, par_start = junk\<rparr>"
  have par: "par_disk ?par = dk" "par_size ?par = sizes" "par_count ?par = int (length sizes)"
    using u32_of_nat(3) [of "length sizes"] assms(4) by (simp_all add: asked_partition_def ITP_MAX_PARTITION_def)
  obtain pts where pts: "plan_partitions (phy dk) ?par 0 0 [] = Some (Inr pts)" "tab dk (lib d') = Some pts" "driver d' dk"
    using repartition_result [OF assms(1-4,9)] by blast
  obtain par'' where g: "FatGetPartition fl ?par' d' = Some (0, par'', d')" "par_count par'' = int (length sizes)"
    "length (par_size par'') = ITP_MAX_PARTITION" "length pts = length sizes"
    "\<forall>i < length pts. par_size par'' ! i = ucast (secnum (pts ! i)) * ucast (sector_bytes (phy dk))"
    using partitions_read [OF assms(1), of ?par pts d' ?par'] pts par assms(7,8) by auto
  obtain i where i: "i < length sizes" "sizes ! i = sz" using assms(5) by (auto simp: in_set_conv_nth)
  have "unat (par_size par'' ! i) = unat (secnum (pts ! i)) * unat (sector_bytes (phy dk))"
    using g(4,5) i(1) sector_product by simp
  then have "par_size par'' ! i \<noteq> sizes ! i" using assms(6) i(2) by (metis dvd_triv_right)
  moreover have "sizes ! i \<noteq> 0" using assms(6) i(2) by auto
  ultimately have "partition_differs (of_nat (length sizes)) sizes par'' = Some True"
    using g(2,3) assms(4) i(1) by (auto simp: partition_differs_def)
  then show ?thesis using g(1) by (auto simp: fat_services_def ioctl_ret_def)
qed

context itc_reader
begin

lemma ugUpgradeDevice_settles:
  assumes "fat_lib_ok fl tab phy" "drives_ok d" "ITP_MAX_PARTITION \<le> free_from (drives d) 0"
    and n: "length sizes \<le> ITP_MAX_PARTITION" "sizes \<noteq> []" "whole_sizes (phy dk) sizes" "length junk = ITP_MAX_PARTITION"
    and ne: "\<forall>pts. plan_partitions (phy dk) (asked_partition dk u sizes) 0 0 [] = Some (Inr pts) \<longrightarrow> (\<forall>pt \<in> set pts. 0 < secnum pt)"
    and t: "device_disk t = Some dk"
    and s1: "valid s1" "drop (posn s1) (content s1) = device_block t u sizes @ rest1"
    and s2: "valid s2" "drop (posn s2) (content s2) = device_block t u sizes @ rest2"
    and up: "ugUpgradeDevice ops (fat_services fl junk srv) s1 d old True nopart = Some (0, dk', s1', d')"
  shows "\<exists>s2'. ugUpgradeDevice ops (fat_services fl junk srv) s2 d' old' False nopart' = Some (0, dk, s2', d')
    \<and> drop (posn s2') (content s2') = rest2"
proof -
  have "repartition (fat_services fl junk srv) dk u (of_nat (length sizes)) sizes d = Some (0, d')"
    using ugUpgradeDevice_repartitions [OF s1 n(1,2) t, of "fat_services fl junk srv" d old nopart] up
    by (auto simp: map_option_case split: option.splits prod.splits)
  from repartition_read_back [OF assms(1-3) n(1,3,4) ne this]
  obtain par where par: "fat_get_partition (fat_services fl junk srv) dk d' = (0, par, d')" "par_count par = int (length sizes)"
    "length (par_size par) = ITP_MAX_PARTITION" "\<forall>i < length sizes. sizes ! i = 0 \<or> par_size par ! i = sizes ! i" by blast
  show ?thesis using ugUpgradeDevice_keeps [OF s2 n(1) t par] by blast
qed

lemma ugUpgradeDevice_differs:
  assumes s: "valid s" "drop (posn s) (content s) = device_block t u sizes @ rest"
    and n: "length sizes \<le> ITP_MAX_PARTITION" "sizes \<noteq> []" and t: "device_disk t = Some dk"
    and par: "fat_get_partition srv dk d = (0, par, d)" "partition_differs (of_nat (length sizes)) sizes par = Some True"
  shows "\<exists>s'. ugUpgradeDevice ops srv s d old False False
    = map_option (\<lambda>(ret, d). (ret, dk, s', d)) (repartition srv dk u (of_nat (length sizes)) sizes d)"
proof -
  have "(of_nat (length sizes) :: 32 word) \<noteq> 0"
    using u32_eq [of "length sizes" 0] n by (simp add: ITP_MAX_PARTITION_def)
  then show ?thesis
    using device_header_ok [OF s n(1)] t par by (auto simp: ugUpgradeDevice_def Let_def split: bind_splits)
qed

lemma ugUpgradeDevice_again:
  assumes "fat_lib_ok fl tab phy" "drives_ok d" "ITP_MAX_PARTITION \<le> free_from (drives d) 0"
    and n: "length sizes \<le> ITP_MAX_PARTITION" "sz \<in> set sizes" "\<not> unat (sector_bytes (phy dk)) dvd unat sz" "length junk = ITP_MAX_PARTITION"
    and ne: "\<forall>pts. plan_partitions (phy dk) (asked_partition dk u sizes) 0 0 [] = Some (Inr pts) \<longrightarrow> (\<forall>pt \<in> set pts. 0 < secnum pt)"
    and t: "device_disk t = Some dk"
    and s1: "valid s1" "drop (posn s1) (content s1) = device_block t u sizes @ rest1"
    and s2: "valid s2" "drop (posn s2) (content s2) = device_block t u sizes @ rest2"
    and up: "ugUpgradeDevice ops (fat_services fl junk srv) s1 d old True nopart = Some (0, dk', s1', d')"
  shows "\<exists>s2'. ugUpgradeDevice ops (fat_services fl junk srv) s2 d' old' False False
    = map_option (\<lambda>(ret, d). (ret, dk, s2', d))
        (repartition (fat_services fl junk srv) dk u (of_nat (length sizes)) sizes d')"
proof -
  have ne': "sizes \<noteq> []" using n(2) by auto
  have "repartition (fat_services fl junk srv) dk u (of_nat (length sizes)) sizes d = Some (0, d')"
    using ugUpgradeDevice_repartitions [OF s1 n(1) ne' t, of "fat_services fl junk srv" d old nopart] up
    by (auto simp: map_option_case split: option.splits prod.splits)
  from repartition_differs [OF assms(1-3) n(1-4) ne this]
  obtain par where par: "fat_get_partition (fat_services fl junk srv) dk d' = (0, par, d')"
    "partition_differs (of_nat (length sizes)) sizes par = Some True" by blast
  show ?thesis by (rule ugUpgradeDevice_differs [OF s2 n(1) ne' t par])
qed

end

end
