(* ===== verification/Cb_Storage.thy ===== *)
theory Cb_Storage
  imports Itp_FatProps
begin

text \<open>
  The storage of the control board (\<open>project/ctrlboard/storage.c\<close>): which drive is the USB stick, the SD card
  and the internal memory, found by looking at the drive table now and then. The table of the storage holds
  pointers into the drive table, here the numbers of the drives.
\<close>

datatype StorageType = STORAGE_NONE | STORAGE_USB | STORAGE_SD | STORAGE_INTERNAL

datatype StorageAction = STORAGE_UNKNOWN | STORAGE_SD_INSERTED | STORAGE_SD_REMOVED | STORAGE_USB_INSERTED
  | STORAGE_USB_REMOVED | STORAGE_USB_DEVICE_INSERTED | STORAGE_USB_DEVICE_REMOVED

record storage =
  storageTable :: "StorageType \<Rightarrow> nat option"
  storageCurrType :: StorageType
  storageInUsbDeviceMode :: bool

text \<open>The loop of \<open>StorageInit\<close>; \<open>pub\<close> is \<open>CFG_PUBLIC_DRIVE\<close>, of which one character counts.\<close>

fun find_internal :: "string \<Rightarrow> nat \<Rightarrow> ITPDriveStatus list \<Rightarrow> nat option" where
  "find_internal pub i [] = None"
| "find_internal pub i (st # sts) =
     (if dr_disk st = ITP_DISK_NOR \<and> take 1 (dr_name st) = take 1 pub
      then if avail st then Some i else find_internal pub (Suc i) sts
      else find_internal pub (Suc i) sts)"

definition StorageInit :: "string \<Rightarrow> ITPDriveStatus list \<Rightarrow> storage" where
  "StorageInit pub ds =
     (let s = \<lparr>storageTable = (\<lambda>_. None), storageCurrType = STORAGE_NONE, storageInUsbDeviceMode = False\<rparr>
      in case find_internal pub 0 (take ITP_MAX_DRIVE ds) of
           None \<Rightarrow> s
         | Some i \<Rightarrow> s\<lparr>storageTable := (storageTable s)(STORAGE_INTERNAL := Some i), storageCurrType := STORAGE_INTERNAL\<rparr>)"

definition sd_disk :: "ITPDisk \<Rightarrow> bool" where
  "sd_disk dk \<longleftrightarrow> dk = ITP_DISK_SD0 \<or> dk = ITP_DISK_SD1"

definition usb_disk :: "ITPDisk \<Rightarrow> bool" where
  "usb_disk dk \<longleftrightarrow> (case dk of ITP_DISK_MSC n \<Rightarrow> n < 16 | _ \<Rightarrow> False)"

text \<open>An insertion, and a removal after which \<open>other\<close> takes over when there is one.\<close>

definition insert_drive :: "StorageType \<Rightarrow> nat \<Rightarrow> storage \<Rightarrow> storage" where
  "insert_drive t i s =
     (let s = s\<lparr>storageTable := (storageTable s)(t := Some i)\<rparr>
      in if storageCurrType s = STORAGE_NONE \<or> storageCurrType s = STORAGE_INTERNAL
         then s\<lparr>storageCurrType := t\<rparr> else s)"

definition remove_drive :: "StorageType \<Rightarrow> StorageType \<Rightarrow> storage \<Rightarrow> storage" where
  "remove_drive t other s =
     (let s = s\<lparr>storageTable := (storageTable s)(t := None)\<rparr>
      in if storageCurrType s = t
         then s\<lparr>storageCurrType := (if storageTable s other \<noteq> None then other else STORAGE_INTERNAL)\<rparr> else s)"

text \<open>The loop over the drives, from number \<open>i\<close> on.\<close>

fun check_loop :: "nat \<Rightarrow> ITPDriveStatus list \<Rightarrow> storage \<Rightarrow> StorageAction \<times> storage" where
  "check_loop i [] s = (STORAGE_UNKNOWN, s)"
| "check_loop i (st # sts) s =
     (if sd_disk (dr_disk st) then
        if avail st \<and> storageTable s STORAGE_SD = None then (STORAGE_SD_INSERTED, insert_drive STORAGE_SD i s)
        else if \<not> avail st \<and> storageTable s STORAGE_SD = Some i
        then (STORAGE_SD_REMOVED, remove_drive STORAGE_SD STORAGE_USB s)
        else check_loop (Suc i) sts s
      else if usb_disk (dr_disk st) then
        if avail st \<and> storageTable s STORAGE_USB = None then (STORAGE_USB_INSERTED, insert_drive STORAGE_USB i s)
        else if \<not> avail st \<and> storageTable s STORAGE_USB = Some i
        then (STORAGE_USB_REMOVED, remove_drive STORAGE_USB STORAGE_SD s)
        else check_loop (Suc i) sts s
      else check_loop (Suc i) sts s)"

text \<open>\<open>cfg\<close> is \<open>CFG_USB_DEVICE\<close>, \<open>connected\<close> what the USB device controller reports.\<close>

definition StorageCheck :: "bool \<Rightarrow> bool \<Rightarrow> ITPDriveStatus list \<Rightarrow> storage \<Rightarrow> StorageAction \<times> storage" where
  "StorageCheck cfg connected ds s =
     (if storageInUsbDeviceMode s then
        if \<not> connected then (STORAGE_USB_DEVICE_REMOVED, s\<lparr>storageInUsbDeviceMode := False\<rparr>)
        else (STORAGE_UNKNOWN, s)
      else if cfg \<and> connected then (STORAGE_USB_DEVICE_INSERTED, s\<lparr>storageInUsbDeviceMode := True\<rparr>)
      else check_loop 0 (take ITP_MAX_DRIVE ds) s)"

definition StorageSetCurrType :: "StorageType \<Rightarrow> storage \<Rightarrow> storage" where
  "StorageSetCurrType t s = s\<lparr>storageCurrType := t\<rparr>"

definition StorageGetDrivePath :: "ITPDriveStatus list \<Rightarrow> storage \<Rightarrow> StorageType \<Rightarrow> string option" where
  "StorageGetDrivePath ds s t =
     (if t = STORAGE_NONE then None else map_option (\<lambda>i. dr_name (ds ! i)) (storageTable s t))"

subsection \<open>What a check finds\<close>

text \<open>The disks of a kind of storage, and when the entry of a kind agrees with the drives.\<close>

definition disk_of :: "StorageType \<Rightarrow> ITPDisk \<Rightarrow> bool" where
  "disk_of t dk = (case t of STORAGE_SD \<Rightarrow> sd_disk dk | STORAGE_USB \<Rightarrow> usb_disk dk | _ \<Rightarrow> False)"

definition wants :: "StorageType \<Rightarrow> nat option \<Rightarrow> nat \<Rightarrow> ITPDriveStatus \<Rightarrow> bool" where
  "wants t e i st \<longleftrightarrow> disk_of t (dr_disk st) \<and> (case e of None \<Rightarrow> avail st | Some k \<Rightarrow> \<not> avail st \<and> k = i)"

definition update_entry_of :: "StorageType \<Rightarrow> StorageType \<Rightarrow> nat \<Rightarrow> storage \<Rightarrow> storage" where
  "update_entry_of t other i s =
     (case storageTable s t of None \<Rightarrow> insert_drive t i s | Some _ \<Rightarrow> remove_drive t other s)"

definition action_of :: "StorageType \<Rightarrow> nat option \<Rightarrow> StorageAction" where
  "action_of t e = (if t = STORAGE_SD then if e = None then STORAGE_SD_INSERTED else STORAGE_SD_REMOVED
     else if e = None then STORAGE_USB_INSERTED else STORAGE_USB_REMOVED)"

lemma action_of_known [simp]: "action_of t e \<noteq> STORAGE_UNKNOWN"
  by (simp add: action_of_def)

lemma disk_of_disjoint: "sd_disk dk \<Longrightarrow> \<not> usb_disk dk"
  by (auto simp: sd_disk_def usb_disk_def)

lemma check_loop_cases:
  obtains (unknown) "check_loop i ds s = (STORAGE_UNKNOWN, s)"
      "\<forall>k < length ds. \<forall>t. \<not> wants t (storageTable s t) (i + k) (ds ! k)"
  | (change) k t other where "k < length ds" "wants t (storageTable s t) (i + k) (ds ! k)"
      "(t, other) = (STORAGE_SD, STORAGE_USB) \<or> (t, other) = (STORAGE_USB, STORAGE_SD)"
      "fst (check_loop i ds s) = action_of t (storageTable s t)" "snd (check_loop i ds s) = update_entry_of t other (i + k) s"
proof -
  have "check_loop i ds s = (STORAGE_UNKNOWN, s) \<and> (\<forall>k < length ds. \<forall>t. \<not> wants t (storageTable s t) (i + k) (ds ! k))
    \<or> (\<exists>k t other. k < length ds \<and> wants t (storageTable s t) (i + k) (ds ! k)
      \<and> ((t, other) = (STORAGE_SD, STORAGE_USB) \<or> (t, other) = (STORAGE_USB, STORAGE_SD))
      \<and> fst (check_loop i ds s) = action_of t (storageTable s t) \<and> snd (check_loop i ds s) = update_entry_of t other (i + k) s)"
    (is "?P i ds")
  proof (induction ds arbitrary: i)
    case (Cons st ds)
    show ?case
    proof (cases "wants STORAGE_SD (storageTable s STORAGE_SD) i st \<or> wants STORAGE_USB (storageTable s STORAGE_USB) i st")
      case True
      then show ?thesis
      proof
        assume w: "wants STORAGE_SD (storageTable s STORAGE_SD) i st"
        have "fst (check_loop i (st # ds) s) = action_of STORAGE_SD (storageTable s STORAGE_SD)
            \<and> snd (check_loop i (st # ds) s) = update_entry_of STORAGE_SD STORAGE_USB i s"
          using w by (auto simp: wants_def disk_of_def update_entry_of_def action_of_def split: option.splits)
        then show ?thesis using w by (intro disjI2 exI [of _ 0] exI [of _ STORAGE_SD] exI [of _ STORAGE_USB]) simp
      next
        assume w: "wants STORAGE_USB (storageTable s STORAGE_USB) i st"
        then have "\<not> sd_disk (dr_disk st)" using disk_of_disjoint [of "dr_disk st"] by (auto simp: wants_def disk_of_def)
        with w have "fst (check_loop i (st # ds) s) = action_of STORAGE_USB (storageTable s STORAGE_USB)
            \<and> snd (check_loop i (st # ds) s) = update_entry_of STORAGE_USB STORAGE_SD i s"
          by (auto simp: wants_def disk_of_def update_entry_of_def action_of_def split: option.splits)
        then show ?thesis using w by (intro disjI2 exI [of _ 0] exI [of _ STORAGE_USB] exI [of _ STORAGE_SD]) simp
      qed
    next
      case False
      then have skip: "check_loop i (st # ds) s = check_loop (Suc i) ds s"
        by (auto simp: wants_def disk_of_def split: option.splits)
      have none: "\<not> wants t (storageTable s t) i st" for t
        using False by (cases t) (simp_all add: wants_def disk_of_def)
      from Cons.IH [of "Suc i"] show ?thesis
      proof (elim disjE)
        assume "check_loop (Suc i) ds s = (STORAGE_UNKNOWN, s)
          \<and> (\<forall>k < length ds. \<forall>t. \<not> wants t (storageTable s t) (Suc i + k) (ds ! k))"
        then show ?thesis using skip none by (auto simp: less_Suc_eq_0_disj)
      next
        assume "\<exists>k t other. k < length ds \<and> wants t (storageTable s t) (Suc i + k) (ds ! k)
          \<and> ((t, other) = (STORAGE_SD, STORAGE_USB) \<or> (t, other) = (STORAGE_USB, STORAGE_SD))
          \<and> fst (check_loop (Suc i) ds s) = action_of t (storageTable s t)
          \<and> snd (check_loop (Suc i) ds s) = update_entry_of t other (Suc i + k) s"
        then obtain k t other where k: "k < length ds" "wants t (storageTable s t) (Suc i + k) (ds ! k)"
          "(t, other) = (STORAGE_SD, STORAGE_USB) \<or> (t, other) = (STORAGE_USB, STORAGE_SD)"
          "fst (check_loop (Suc i) ds s) = action_of t (storageTable s t)"
          "snd (check_loop (Suc i) ds s) = update_entry_of t other (Suc i + k) s" by blast
        then show ?thesis
          unfolding skip by (intro disjI2 exI [of _ "Suc k"] exI [of _ t] exI [of _ other]) simp
      qed
    qed
  qed simp
  then show thesis using unknown change by blast
qed

end
