(* ===== verification/Cb_StorageProps.thy ===== *)
theory Cb_StorageProps
  imports Cb_Storage
begin

text \<open>
  The storage together with the drives: its entries keep their kind as long as nothing is mounted over a
  removal that was not looked at, and with the drives at rest a few checks bring the entries up to date.
\<close>

subsection \<open>Checks come to rest\<close>

definition storage_settled :: "ITPDriveStatus list \<Rightarrow> storage \<Rightarrow> bool" where
  "storage_settled ds s \<longleftrightarrow> fst (check_loop 0 (take ITP_MAX_DRIVE ds) s) = STORAGE_UNKNOWN"

text \<open>The entry of a kind is a drive of that kind.\<close>

definition entry_typed :: "ITPDriveStatus list \<Rightarrow> storage \<Rightarrow> StorageType \<Rightarrow> bool" where
  "entry_typed ds s t \<longleftrightarrow> (\<forall>i. storageTable s t = Some i \<longrightarrow> i < ITP_MAX_DRIVE \<and> disk_of t (dr_disk (ds ! i)))"

abbreviation entries_typed :: "ITPDriveStatus list \<Rightarrow> storage \<Rightarrow> bool" where
  "entries_typed ds s \<equiv> entry_typed ds s STORAGE_SD \<and> entry_typed ds s STORAGE_USB"

text \<open>The entry of a kind says whether there is a drive of that kind, and which.\<close>

definition entry_current :: "ITPDriveStatus list \<Rightarrow> storage \<Rightarrow> StorageType \<Rightarrow> bool" where
  "entry_current ds s t \<longleftrightarrow> (case storageTable s t of
     None \<Rightarrow> \<forall>i < ITP_MAX_DRIVE. disk_of t (dr_disk (ds ! i)) \<longrightarrow> \<not> avail (ds ! i)
   | Some i \<Rightarrow> i < ITP_MAX_DRIVE \<and> disk_of t (dr_disk (ds ! i)) \<and> avail (ds ! i))"

lemma insert_drive_simps [simp]:
  "storageTable (insert_drive t i s) = (storageTable s)(t := Some i)"
  "storageInUsbDeviceMode (insert_drive t i s) = storageInUsbDeviceMode s"
  by (simp_all add: insert_drive_def Let_def)

lemma remove_drive_simps [simp]:
  "storageTable (remove_drive t other s) = (storageTable s)(t := None)"
  "storageInUsbDeviceMode (remove_drive t other s) = storageInUsbDeviceMode s"
  by (simp_all add: remove_drive_def Let_def)

lemma update_entry_of_simps:
  "storageTable (update_entry_of t other i s) = (storageTable s)(t := (if storageTable s t = None then Some i else None))"
  "storageInUsbDeviceMode (update_entry_of t other i s) = storageInUsbDeviceMode s"
  by (simp_all add: update_entry_of_def split: option.splits)

lemma settled_iff:
  assumes "length ds = ITP_MAX_DRIVE"
  shows "storage_settled ds s \<longleftrightarrow> (\<forall>i < ITP_MAX_DRIVE. \<forall>t. \<not> wants t (storageTable s t) i (ds ! i))"
  by (cases rule: check_loop_cases [of 0 ds s]) (use assms in \<open>auto simp: storage_settled_def\<close>)

lemma settled_current:
  assumes "length ds = ITP_MAX_DRIVE" "storage_settled ds s" "entry_typed ds s t" "t = STORAGE_SD \<or> t = STORAGE_USB"
  shows "entry_current ds s t"
proof -
  have "\<not> wants t (storageTable s t) i (ds ! i)" if "i < ITP_MAX_DRIVE" for i
    using assms(2) that settled_iff [OF assms(1)] by blast
  then show ?thesis
    using assms(3) by (cases "storageTable s t") (auto simp: entry_current_def entry_typed_def wants_def)
qed

text \<open>How many changes a kind can still take with these drives.\<close>

definition pending :: "ITPDriveStatus list \<Rightarrow> storage \<Rightarrow> StorageType \<Rightarrow> nat" where
  "pending ds s t = (case storageTable s t of
     None \<Rightarrow> if \<exists>i < length ds. disk_of t (dr_disk (ds ! i)) \<and> avail (ds ! i) then 1 else 0
   | Some i \<Rightarrow> if i < length ds \<and> disk_of t (dr_disk (ds ! i)) \<and> \<not> avail (ds ! i) then 2 else 0)"

lemma pending_le: "pending ds s t \<le> 2"
  by (simp add: pending_def split: option.splits)

lemma pending_update:
  assumes "i < length ds" "wants t (storageTable s t) i (ds ! i)"
  shows "pending ds (update_entry_of t other i s) t < pending ds s t"
  using assms by (auto simp: pending_def wants_def update_entry_of_simps split: option.splits)

lemma pending_other: "t' \<noteq> t \<Longrightarrow> pending ds (update_entry_of t other i s) t' = pending ds s t'"
  by (simp add: pending_def update_entry_of_simps)

definition quiet_check :: "ITPDriveStatus list \<Rightarrow> storage \<Rightarrow> storage" where
  "quiet_check ds s = snd (check_loop 0 (take ITP_MAX_DRIVE ds) s)"

lemma quiet_check_settled: "storage_settled ds s \<Longrightarrow> quiet_check ds s = s"
  by (cases rule: check_loop_cases [of 0 "take ITP_MAX_DRIVE ds" s]) (auto simp: storage_settled_def quiet_check_def)

lemma quiet_check_typed:
  assumes "length ds = ITP_MAX_DRIVE" "entries_typed ds s"
  shows "entries_typed ds (quiet_check ds s)"
  by (cases rule: check_loop_cases [of 0 ds s])
    (use assms in \<open>auto simp: quiet_check_def entry_typed_def update_entry_of_simps wants_def\<close>)

lemma quiet_check_pending:
  assumes "length ds = ITP_MAX_DRIVE" "\<not> storage_settled ds s"
  shows "pending ds (quiet_check ds s) STORAGE_SD + pending ds (quiet_check ds s) STORAGE_USB
    < pending ds s STORAGE_SD + pending ds s STORAGE_USB"
proof (cases rule: check_loop_cases [of 0 ds s])
  case unknown
  then show ?thesis using assms by (simp add: storage_settled_def)
next
  case (change k t other)
  have q: "quiet_check ds s = update_entry_of t other k s" using change(5) assms(1) by (simp add: quiet_check_def)
  have "pending ds (update_entry_of t other k s) t < pending ds s t" using pending_update change(1,2) by simp
  then show ?thesis using change(3) pending_other [of _ t ds other k s] unfolding q by auto
qed

lemma settles:
  assumes "length ds = ITP_MAX_DRIVE" "entries_typed ds s"
  shows "\<exists>n \<le> pending ds s STORAGE_SD + pending ds s STORAGE_USB.
    storage_settled ds ((quiet_check ds ^^ n) s) \<and> entries_typed ds ((quiet_check ds ^^ n) s)"
  using assms(2)
proof (induction "pending ds s STORAGE_SD + pending ds s STORAGE_USB" arbitrary: s rule: less_induct)
  case less
  show ?case
  proof (cases "storage_settled ds s")
    case True
    then show ?thesis using less.prems by (intro exI [of _ 0]) simp
  next
    case False
    note p = quiet_check_pending [OF assms(1) False]
    obtain n where n: "n \<le> pending ds (quiet_check ds s) STORAGE_SD + pending ds (quiet_check ds s) STORAGE_USB"
      "storage_settled ds ((quiet_check ds ^^ n) (quiet_check ds s))" "entries_typed ds ((quiet_check ds ^^ n) (quiet_check ds s))"
      using less.hyps [OF p quiet_check_typed [OF assms(1) less.prems]] by blast
    then show ?thesis using p by (intro exI [of _ "Suc n"]) (simp add: funpow_swap1)
  qed
qed

lemma StorageCheck_quiet:
  assumes "\<not> storageInUsbDeviceMode s" "\<not> (cfg \<and> connected)"
  shows "StorageCheck cfg connected ds s = (if storage_settled ds s then (STORAGE_UNKNOWN, s)
      else (fst (check_loop 0 (take ITP_MAX_DRIVE ds) s), quiet_check ds s))"
    "\<not> storageInUsbDeviceMode (snd (StorageCheck cfg connected ds s))"
proof -
  show eq: "StorageCheck cfg connected ds s = (if storage_settled ds s then (STORAGE_UNKNOWN, s)
      else (fst (check_loop 0 (take ITP_MAX_DRIVE ds) s), quiet_check ds s))"
    using assms quiet_check_settled [of ds s]
    by (auto simp: StorageCheck_def storage_settled_def quiet_check_def prod_eq_iff)
  show "\<not> storageInUsbDeviceMode (snd (StorageCheck cfg connected ds s))"
    unfolding eq by (cases rule: check_loop_cases [of 0 "take ITP_MAX_DRIVE ds" s])
      (use assms in \<open>auto simp: quiet_check_def update_entry_of_simps\<close>)
qed

lemma checks_quiet:
  assumes "\<not> storageInUsbDeviceMode s" "\<not> (cfg \<and> connected)"
  shows "((\<lambda>s. snd (StorageCheck cfg connected ds s)) ^^ n) s = (quiet_check ds ^^ n) s
    \<and> \<not> storageInUsbDeviceMode ((quiet_check ds ^^ n) s)"
proof (induction n)
  case (Suc n)
  then have "\<not> storageInUsbDeviceMode ((quiet_check ds ^^ n) s)" by simp
  note S = StorageCheck_quiet [OF this assms(2), of ds]
  have "snd (StorageCheck cfg connected ds ((quiet_check ds ^^ n) s)) = quiet_check ds ((quiet_check ds ^^ n) s)"
    using S(1) quiet_check_settled [of ds] by simp
  then show ?case using Suc S(2) by simp
qed (use assms in simp)

subsection \<open>The storage beside the drives\<close>

text \<open>
  What can happen: disks are mounted when the storage has seen all that happened before and the drive table has
  room for the partitions of a disk (as in \<open>drive_reach\<close>), disks are unmounted, the storage is checked, a page
  takes a message or chooses a storage. Neither condition is checked by the code: what a mount does
  without the first is in the last part of this theory, without the second it overwrites other drives.
\<close>

inductive storage_reach :: "string \<Rightarrow> 'd fat_lib \<Rightarrow> 'd fat \<Rightarrow> 'd fat \<Rightarrow> storage \<Rightarrow> bool" for pub fl s0 where
  start: "drive_reach fl (DriveInit s0) s \<Longrightarrow> storage_reach pub fl s0 s (StorageInit pub (drives s))"
| mount: "storage_reach pub fl s0 s st \<Longrightarrow> storage_settled (drives s) st \<Longrightarrow> ITP_MAX_PARTITION \<le> free_from (drives s) 0 \<Longrightarrow>
    FatMount fl disk force s = Some (ret, s') \<Longrightarrow> storage_reach pub fl s0 s' st"
| unmount: "storage_reach pub fl s0 s st \<Longrightarrow> storage_reach pub fl s0 (snd (FatUnmount fl disk s)) st"
| message: "storage_reach pub fl s0 s st \<Longrightarrow> DriveRead nonblock s = Some (m, s') \<Longrightarrow> storage_reach pub fl s0 s' st"
| check: "storage_reach pub fl s0 s st \<Longrightarrow>
    storage_reach pub fl s0 s (snd (StorageCheck cfg connected (drives s) st))"
| choose: "storage_reach pub fl s0 s st \<Longrightarrow> storage_reach pub fl s0 s (StorageSetCurrType t st)"

lemma StorageCheck_typed:
  assumes "length ds = ITP_MAX_DRIVE" "entries_typed ds s"
  shows "entries_typed ds (snd (StorageCheck cfg connected ds s))"
proof (cases "storageInUsbDeviceMode s \<or> (cfg \<and> connected)")
  case True
  then have "storageTable (snd (StorageCheck cfg connected ds s)) = storageTable s" by (auto simp: StorageCheck_def)
  then show ?thesis using assms(2) by (simp add: entry_typed_def)
next
  case False
  then show ?thesis
    using StorageCheck_quiet(1) [of s cfg connected ds] quiet_check_typed [OF assms] assms(2) by auto
qed

lemma typed_mounted:
  assumes "mounted_more disk s s'" "length (drives s) = ITP_MAX_DRIVE" "storage_settled (drives s) st"
    "entry_typed (drives s) st t" "t = STORAGE_SD \<or> t = STORAGE_USB"
  shows "entry_typed (drives s') st t"
  using settled_current [OF assms(2,3,4,5)] assms(1,4)
  unfolding entry_typed_def entry_current_def mounted_more_def by (metis option.simps(5))

lemma typed_unmounted: "unmounted disk s s' \<Longrightarrow> entry_typed (drives s) st t \<Longrightarrow> entry_typed (drives s') st t"
  by (auto simp: entry_typed_def unmounted_def)

lemma storage_reach_ok:
  assumes "storage_reach pub fl s0 s st" "length (drives s0) = ITP_MAX_DRIVE"
  shows "drives_ok s \<and> entries_typed (drives s) st"
  using assms(1)
proof (induction rule: storage_reach.induct)
  case (start s)
  then show ?case
    using drive_reach_ok [OF start DriveInit_ok [OF assms(2)]]
    by (auto simp: StorageInit_def entry_typed_def Let_def split: option.splits)
next
  case (mount s st disk force ret s')
  have m: "mounted_more disk s s'" using FatMount_ok mount.IH mount.hyps(3,4) by blast
  have len: "length (drives s) = ITP_MAX_DRIVE" using mount.IH by (simp add: drives_ok_def)
  show ?case
    using m mount.IH typed_mounted [OF m len mount.hyps(2)] by (simp add: mounted_more_def)
next
  case (unmount s st disk)
  then have u: "unmounted disk s (snd (FatUnmount fl disk s))" by (simp add: FatUnmount_ok)
  then show ?case using unmount.IH typed_unmounted [OF u] by (simp add: unmounted_def)
next
  case (message s st nonblock m s')
  then show ?case by (auto simp: drives_ok_def DriveRead_def entry_typed_def split: list.splits if_splits)
next
  case (check s st cfg connected)
  then show ?case using StorageCheck_typed [of "drives s" st] by (simp add: drives_ok_def)
next
  case (choose s st t)
  then show ?case by (simp add: StorageSetCurrType_def entry_typed_def)
qed


subsection \<open>A drive that is reused before the storage looks\<close>

text \<open>The storage is checked again and again, each time with the drives and the USB device as they then are.\<close>

fun storage_checks :: "(bool \<times> bool \<times> ITPDriveStatus list) list \<Rightarrow> storage \<Rightarrow> StorageAction list \<times> storage" where
  "storage_checks [] st = ([], st)"
| "storage_checks ((cfg, connected, ds) # rs) st =
     (let (a, st) = StorageCheck cfg connected ds st; (as, st) = storage_checks rs st in (a # as, st))"

lemma StorageCheck_stale:
  assumes "length ds = ITP_MAX_DRIVE" "storageTable s STORAGE_SD = Some i" "\<not> sd_disk (dr_disk (ds ! i))"
  shows "storageTable (snd (StorageCheck cfg connected ds s)) STORAGE_SD = Some i"
    "fst (StorageCheck cfg connected ds s) \<notin> {STORAGE_SD_INSERTED, STORAGE_SD_REMOVED}"
proof -
  have "storageTable (snd (check_loop 0 ds s)) STORAGE_SD = Some i
    \<and> fst (check_loop 0 ds s) \<notin> {STORAGE_SD_INSERTED, STORAGE_SD_REMOVED}"
  proof (cases rule: check_loop_cases [of 0 ds s])
    case (change k t other)
    have "t \<noteq> STORAGE_SD" using change(2) assms(2,3) by (auto simp: wants_def disk_of_def)
    then show ?thesis using change(3-5) assms(2) by (auto simp: update_entry_of_simps action_of_def)
  qed (use assms in simp)
  then show "storageTable (snd (StorageCheck cfg connected ds s)) STORAGE_SD = Some i"
    "fst (StorageCheck cfg connected ds s) \<notin> {STORAGE_SD_INSERTED, STORAGE_SD_REMOVED}"
    using assms(1,2) by (auto simp: StorageCheck_def)
qed

lemma storage_checks_stale:
  assumes "storageTable st STORAGE_SD = Some i"
    "\<forall>(cfg, connected, ds) \<in> set rs. length ds = ITP_MAX_DRIVE \<and> \<not> sd_disk (dr_disk (ds ! i))"
  shows "storageTable (snd (storage_checks rs st)) STORAGE_SD = Some i
    \<and> set (fst (storage_checks rs st)) \<inter> {STORAGE_SD_INSERTED, STORAGE_SD_REMOVED} = {}"
  using assms
proof (induction rs st rule: storage_checks.induct)
  case (2 cfg connected ds rs st)
  note S = StorageCheck_stale [of ds st i cfg connected]
  obtain a st1 where a: "StorageCheck cfg connected ds st = (a, st1)" by fastforce
  show ?case
    using 2(1) [OF a [symmetric] refl] 2(2,3) S a by (auto simp: Let_def split_beta)
qed simp

lemma find_empty_first:
  "j \<le> k \<Longrightarrow> k < ITP_MAX_DRIVE \<Longrightarrow> \<not> avail (ds ! k) \<Longrightarrow> \<forall>i < k. avail (ds ! i) \<Longrightarrow> find_empty ds j p = (k, Some k)"
proof (induction ds j p rule: find_empty.induct)
  case (1 ds j p)
  show ?case
  proof (cases "j = k")
    case True
    then show ?thesis using 1(3,4) by (subst find_empty.simps) simp
  next
    case False
    then show ?thesis using 1 by (subst find_empty.simps) auto
  qed
qed

text \<open>Mounting takes the first free drive first.\<close>

lemma mount_loop_first:
  assumes "drives_ok s" "length pts \<le> free_from (drives s) j" "j \<le> k" "k < ITP_MAX_DRIVE"
    "\<not> avail (drives s ! k)" "\<forall>i < k. avail (drives s ! i)"
    "mount_loop fl disk force n pts (j, p) s = Some (ret, s')"
  shows "drives s' = drives s \<or> (dr_disk (drives s' ! k) = disk \<and> avail (drives s' ! k) \<and> dr_name (drives s' ! k) = drive_name k)"
  using assms
proof (induction pts arbitrary: n j p s)
  case (Cons pt pts)
  show ?case
  proof (cases "secnum pt > 0")
    case False
    then show ?thesis using Cons.IH [of s j "Suc n" p] Cons.prems by simp
  next
    case True
    note f = find_empty_first [OF Cons.prems(3,4,5,6), of p]
    have fr: "free_from (drives s) k = free_from (drives s) j"
      using find_empty_found [of j "drives s" p] f Cons.prems(1-4) by (auto simp: drives_ok_def)
    obtain r d where r: "f_initvolumepartition fl k disk n (lib s) = (r, d)" by fastforce
    obtain r' d' where r': "(if disk = ITP_DISK_NAND \<and> r = F_ERR_NOTFORMATTED then FatFormat fl k d else (r, d)) = (r', d')"
      by fastforce
    let ?s1 = "s\<lparr>lib := snd (f_delvolume fl k d')\<rparr>" and ?s2 = "mark_mounted disk k k (s\<lparr>lib := d'\<rparr>)"
    have m: "mounted_more disk s ?s2" "Suc (free_from (drives ?s2) k) = free_from (drives s) k"
      using mark_mounted_ok [of "s\<lparr>lib := d'\<rparr>" k disk] Cons.prems(1,4,5) by simp_all
    have ok2: "drives_ok ?s2" using m(1) by (simp add: mounted_more_def)
    consider (fail) "s' = s\<lparr>lib := snd (f_delvolume fl k d)\<rparr>"
      | (skip) "mount_loop fl disk force (Suc n) pts (k, Some k) ?s1 = Some (ret, s')"
      | (mark) "mount_loop fl disk force (Suc n) pts (k, Some k) ?s2 = Some (ret, s')"
      using Cons.prems(7) True f r r' by (auto simp: Let_def split: if_split_asm)
    then show ?thesis
    proof cases
      case skip
      then show ?thesis using Cons.IH [of ?s1 k "Suc n" "Some k"] Cons.prems fr by simp
    next
      case mark
      have "mounted_more disk ?s2 s'"
        using mount_loop_ok [OF ok2, of k pts fl disk force "Suc n" "Some k"] mark m(2) Cons.prems(2,4) fr by auto
      moreover have "avail (drives ?s2 ! k)" "dr_disk (drives ?s2 ! k) = disk" "dr_name (drives ?s2 ! k) = drive_name k"
        using Cons.prems(1,4) by (simp_all add: mark_mounted_def Let_def drives_ok_def)
      ultimately show ?thesis using Cons.prems(4) by (auto simp: mounted_more_def)
    qed simp
  qed
qed simp

lemma FatMount_first:
  assumes "drives_ok s" "ITP_MAX_PARTITION \<le> free_from (drives s) 0" "k < ITP_MAX_DRIVE"
    "\<not> avail (drives s ! k)" "\<forall>i < k. avail (drives s ! i)"
    "FatMount fl disk force s = Some (ret, s')" "drives s' \<noteq> drives s"
  shows "dr_disk (drives s' ! k) = disk \<and> avail (drives s' ! k) \<and> dr_name (drives s' ! k) = drive_name k"
proof -
  obtain r1 s1 where n: "need_driver fl disk s = (r1, s1)" by fastforce
  note nd = need_driver_drives [OF n]
  obtain r2 pts d where g: "f_getpartition fl disk (lib s1) = (r2, pts, d)" by (metis prod_cases3)
  have "mount_loop fl disk force 0 (take ITP_MAX_PARTITION pts) (0, None) (s1\<lparr>lib := d\<rparr>) = Some (ret, s')"
    using assms(6,7) n g nd by (auto simp: FatMount_def Let_def split: if_split_asm)
  from mount_loop_first [OF _ _ _ assms(3) _ _ this] show ?thesis
    using assms nd by (simp add: drives_ok_def)
qed

end
