(* ===== verification/CB_Examples.thy ===== *)
theory CB_Examples
  imports Itp_NorProps Net_DhcpsProps Cb_External Itc_BufferRun Itp_Cond Itu_Calendar Fat_NorChip Itc_Tree Ug_Package Ug_ResetProps Ug_RawProps Itu_Clip Itu_Scene
    Ug_Drives Cb_StorageProps
begin

text \<open>
  Concrete inputs for the witnesses of the properties: a ring buffer, a volume, an allocator, a
  tree, a package with the outside it is upgraded in.
\<close>

text \<open>A ring of four bytes with an idle mutex, at the given positions: for the witnesses.\<close>

definition idle_mutex :: pthread_mutex where
  "idle_mutex = Mutex \<lparr>mtype = PTHREAD_MUTEX_RECURSIVE, holder = None, call_count = 0\<rparr>"

definition ring :: "block \<Rightarrow> bool \<Rightarrow> int \<Rightarrow> int \<Rightarrow> ITCBufferStream" where
  "ring b e r w = \<lparr>eof = e, stream_size = 0, buf = Some b, bsize = int (length b), readpos = r,
                   writepos = w, mutex = idle_mutex\<rparr>"

lemma lockable_idle [simp]: "lockable t idle_mutex"
  by (simp add: lockable_def idle_mutex_def sem_ok_def)

lemmas ring_defs = ring_def bs_ok_def bs_bounds_def bs_content_def bs_room_def bs_collided_def bs_unsplit_def

text \<open>Two tasks with a condition and an idle mutex, and how they come to a count of -1.\<close>

definition two_tasks :: "pthread_cond \<Rightarrow> cond_sys" where
  "two_tasks c = \<lparr>ccond = c, cmutex = idle_mutex, phases = [Returned 0, Returned 0]\<rparr>"

lemma two_tasks_start:
  "cond_start 2 (two_tasks COND_INITIALIZER)" "cond_start 2 (two_tasks (Cond \<lparr>ccount = 0, tokens = 0\<rparr>))"
  by (simp_all add: cond_start_def two_tasks_def idle_mutex_def numeral_2_eq_2)

lemmas cond_defs = wait_enter_def wait_unlock_def wait_take_def wait_timeout_def wait_expire_def wait_relock_def
  signal_enter_def cond_give_def broadcast_enter_def enter_cond_def cond_handle_def pthread_cond_init_def
  on_cond_def goto_def

lemma race_reached:
  "cond_reach True True (two_tasks COND_INITIALIZER) \<lparr>ccond = Cond \<lparr>ccount = -1, tokens = 1\<rparr>,
     cmutex = cmutex (two_tasks COND_INITIALIZER), phases = [Broadcasting, Returned ETIMEDOUT]\<rparr>"
proof -
  let ?m = "cmutex (two_tasks COND_INITIALIZER)"
  let ?st = "\<lambda>c n p. \<lparr>ccond = Cond \<lparr>ccount = c, tokens = n\<rparr>, cmutex = ?m, phases = p\<rparr>"
  let ?r = "cond_reach True True (two_tasks COND_INITIALIZER)"
  have m: "pthread_mutex_unlock (Suc 0) ?m = Some (0, ?m)"
    by (simp add: two_tasks_def idle_mutex_def pthread_mutex_unlock_def give_semaphore_def)
  have "?r (?st 1 0 [Returned 0, Counted True])"
    by (rule cond_reach.step [OF cond_reach.start], rule cond_step.wait [where t = 1 and r = 0 and timed = True])
      (simp_all add: two_tasks_def cond_defs)
  then have "?r (?st 1 0 [Returned 0, Blocked True])"
    by (rule cond_reach.step, intro cond_step.release [where t = 1 and timed = True]) (simp_all add: cond_defs m)
  then have "?r (?st 1 0 [Returned 0, TimedOut])"
    by (rule cond_reach.step, intro cond_step.timeout [where t = 1]) (simp_all add: cond_defs)
  then have "?r (?st 0 0 [Signalling, TimedOut])"
    by (rule cond_reach.step, intro cond_step.signal [where t = 0 and r = 0]) (simp_all add: cond_defs)
  then have "?r (?st 0 1 [Returned 0, TimedOut])"
    by (rule cond_reach.step, intro cond_step.give [where t = 0]) (simp_all add: cond_defs)
  then have "?r (?st (-1) 1 [Returned 0, Returned ETIMEDOUT])"
    by (rule cond_reach.step, intro cond_step.expire [where t = 1]) (simp_all add: cond_defs)
  then show "?r (?st (-1) 1 [Broadcasting, Returned ETIMEDOUT])"
    by (rule cond_reach.step, intro cond_step.broadcast [where t = 0 and r = 0]) (simp_all add: cond_defs)
qed

text \<open>A volume with the given files, sound and with room, for the witnesses.\<close>

definition disk :: "(string \<times> block) list \<Rightarrow> volume" where
  "disk fs = \<lparr>files = map_of fs, denied = (\<lambda>_. False), bad_from = (\<lambda>_. None), capacity = 1000,
              medium = (\<lambda>_ _ b. b)\<rparr>"

lemma disk_simps [simp]:
  "files (disk fs) = map_of fs" "\<not> denied (disk fs) p" "bad_from (disk fs) p = None"
  "capacity (disk fs) = 1000" "sound_medium (disk fs) p"
  by (simp_all add: disk_def sound_medium_def)

text \<open>Node 0 with the children 1 and 2, node 3 with none.\<close>

definition family :: tree_heap where
  "family = \<lparr>parent = (\<lambda>x. None)(1 := Some 0, 2 := Some 0), sibling = (\<lambda>x. None)(1 := Some 2),
             child = (\<lambda>x. None)(0 := Some 1)\<rparr>"

definition family_kids :: "node \<Rightarrow> node list" where
  "family_kids = (\<lambda>x. [])(0 := [1, 2])"

lemma family_represents: "represents family family_kids"
  by (auto simp: represents_def family_def family_kids_def)

text \<open>An allocator with four kilobytes, for the witnesses.\<close>

definition small_heap :: "int \<Rightarrow> block option" where
  "small_heap n = (if n \<le> 4096 then Some (replicate (nat n) 0) else None)"

lemma small_heap_sized [simp]: "malloc_sized small_heap"
  by (simp add: malloc_sized_def small_heap_def)

lemma small_heap_Some [simp]: "n \<le> 4096 \<Longrightarrow> \<exists>b. small_heap n = Some b"
  by (simp add: small_heap_def)

definition crc_disk :: "32 word \<Rightarrow> volume" where
  "crc_disk c = disk [(''A/f'', [1, 2]), (''A/crc'', crc_file [(''f'', c)])]"

lemma crc_disk_simps [simp]:
  "files (crc_disk c) ''A/crc'' = Some (crc_file [(''f'', c)])" "files (crc_disk c) ''A/f'' = Some [1, 2]"
  "files (crc_disk c) (CHR ''A'' # CHR ''/'' # ''f'') = Some [1, 2]"
  "\<not> denied (crc_disk c) q" "bad_from (crc_disk c) q = None" "sound_medium (crc_disk c) q"
  "length (crc_file [(''f'', c)]) = 10" "capacity (crc_disk c) = 1000"
  by (simp_all add: crc_disk_def crc_file_def)

lemma good_name_f [simp]: "good_name ''f''"
  by (simp add: good_name_def byte_of_char_def)

text \<open>An outside for the witnesses: one partition on the NOR, drive \<open>A:/\<close>, a log of \<open>mkdir\<close>.\<close>

definition log_services :: "string list itp_services" where
  "log_services = \<lparr>
     fat_get_partition = (\<lambda>dk d. (0, \<lparr>par_disk = dk, par_count = 1, par_size = replicate 10 0,
                                     par_start = replicate 10 0\<rparr>, d)),
     fat_unmount = (\<lambda>dk d. (0, d)), fat_create_partition = (\<lambda>par d. (0, d @ [''create''])),
     fat_force_mount = (\<lambda>dk d. (0, d)), fat_format = (\<lambda>i d. (0, d @ [''format''])),
     drive_table = (\<lambda>d. \<lparr>dr_disk = ITP_DISK_NOR, dr_device = ITP_DEVICE_FAT, avail = True, dr_name = ''A:/''\<rparr>
                         # replicate 25 \<lparr>dr_disk = ITP_DISK_NONE, dr_device = ITP_DEVICE_NONE, avail = False, dr_name = ''''\<rparr>),
     chdir_dir = (\<lambda>p d. (0, d)), mkdir_dir = (\<lambda>p d. (0, d @ [p]))\<rparr>"

definition small_cfg :: ug_cfg where
  "small_cfg = \<lparr>buf_size = 2, enckey = 0x5A, ug_malloc = small_heap, stack = replicate 32 0,
                statvfs = (\<lambda>v dr. Some (8, 512)), kept_locals = id\<rparr>"

text \<open>A flash of blocks of four bytes; its state is the position and the content.\<close>

definition ram_flash :: "(nat \<times> block) raw_services" where
  "ram_flash = \<lparr>raw_open = (\<lambda>_ d. Some (3, d)), raw_block_size = (\<lambda>_ d. Some (0, 4, d)),
     raw_gap_size = (\<lambda>_ d. Some (0, 0, d)),
     raw_lseek = (\<lambda>_ p d. Some (uint p, (unat p, snd d))),
     raw_write = (\<lambda>_ b n d. do { bs \<leftarrow> peek b 0 (4 * uint n);
                               m \<leftarrow> poke (snd d) (4 * int (fst d)) bs;
                               Some (uint n, (fst d + unat n, m)) }),
     raw_read = (\<lambda>_ b n d. do { bs \<leftarrow> peek (snd d) (4 * int (fst d)) (4 * uint n);
                              b \<leftarrow> poke b 0 bs;
                              Some (uint n, b, (fst d + unat n, snd d)) }),
     raw_close = (\<lambda>_ d. Some d)\<rparr>"

lemma ram_flash_ok: "flash_ok (\<lambda>_. True) ram_flash 3 4 fst snd"
proof -
  have a: "uint (of_nat n :: 32 word) = int n" "unat (of_nat n :: 32 word) = n" if "n < 2 ^ 31" for n
    using u32_of_nat [OF that] by simp_all
  have l: "(c + n) * 4 \<le> length m \<Longrightarrow> length (take (4 * n) (drop (4 * c) m)) = 4 * n" for c n and m :: block
    by simp
  show ?thesis
    unfolding flash_ok_def
    by (auto simp: ram_flash_def a peek_def poke_def nat_mult_distrib algebra_simps
        nat_add_distrib)
qed

lemma ram_flash_stores: "flash_stores (\<lambda>_. True) ram_flash 3 4 fst snd"
  unfolding flash_stores_def
proof (clarsimp simp: ram_flash_def bind_Some_iff)
  fix b n c and m bs m' :: block
  assume n: "n < 2147483648" and pk: "peek b 0 (4 * uint (of_nat n :: 32 word)) = Some bs"
    and po: "poke m (4 * int c) bs = Some m'"
  have "bs = take (4 * n) b" "length bs = 4 * n"
    using pk u32_of_nat(2) [of n] n by (auto simp: peek_def nat_mult_distrib split: if_splits)
  moreover have "take (length bs) (drop (c * 4) m') = bs"
    using po by (auto simp: poke_def nat_mult_distrib mult.commute split: if_splits)
  ultimately show "take (n * 4) (drop (c * 4) m') = take (n * 4) b"
    by (simp add: mult.commute)
qed

lemma ram_flash_opens: "flash_opens (\<lambda>_. True) ram_flash dk 3 4 snd"
  by (simp add: flash_opens_def ram_flash_def)

text \<open>Buffers that are large enough for its blocks.\<close>

definition raw_cfg :: ug_cfg where
  "raw_cfg = small_cfg\<lparr>buf_size := 8, ug_malloc := (\<lambda>n. if n \<le> 8 then Some (replicate (nat n) 0) else None)\<rparr>"

definition small_env :: "(string list, nat \<times> block) pkg_env" where
  "small_env = \<lparr>en_vol = disk [], en_dev = [], en_raw = (0, replicate 8 0xFF)\<rparr>"

definition small_items :: "pkg_item list" where
  "small_items = [PkgFile ''/f'' [1, 2, 3], PkgDir ''/d/'']"

definition small_package :: block where
  "small_package = package_bytes (replicate 20 0) 0 1 0 [0] small_items 0"

lemma small_cfg_ok [simp]: "cfg_ok small_cfg"
proof -
  have "\<exists>k :: byte. (0x5A :: 32 word) = ucast k" by (rule exI [of _ "0x5A"]) simp
  then show ?thesis
    by (simp add: cfg_ok_def small_cfg_def)
qed

lemma raw_cfg_ok: "cfg_ok raw_cfg"
  using small_cfg_ok by (auto simp: cfg_ok_def raw_cfg_def malloc_sized_def)

lemma small_names:
  "names_ok small_cfg ''A:/'' ''/f''" "names_ok small_cfg ''A:/'' ''/d/''"
  by (simp_all add: names_ok_def good_name_def byte_of_char_def small_cfg_def)

lemma small_disk: "disk_as_asked log_services [] 1 ITP_DISK_NOR [0] ''A:/''"
  by (simp add: disk_as_asked_def device_disk_def log_services_def ITP_MAX_PARTITION_def ITP_MAX_DRIVE_def
      disk_drives_def)

lemma small_items_ok: "items_ok small_cfg log_services ''A:/'' small_items small_env"
  by (simp add: small_items_def small_names space_ok_def small_env_def Let_def log_services_def
      file_data_def) (simp add: small_cfg_def)

text \<open>A medium that clears the lowest bit of every byte.\<close>

definition worn_disk :: volume where
  "worn_disk = (disk [])\<lparr>medium := (\<lambda>_ _ b. b AND 0xFE)\<rparr>"

text \<open>A drive \<open>A:\<close> with a directory, and a drive \<open>D:\<close> with a backup of \<open>A:\<close> that replaces it.\<close>

definition old_files :: "(string \<times> fnode) list" where
  "old_files = [(''old'', DirN [(''x'', FileN [1])])]"

definition backup_files :: "(string \<times> fnode) list" where
  "backup_files = [(''~old'', DirN []), (''cfg'', DirN [(''f'', FileN [7, 8])])]"

definition two_drives :: fsys where
  "two_drives = \<lparr>root = DirN [(''A:'', DirN old_files), (''D:'', DirN [(''backup'', DirN [(''A'', DirN backup_files)])])],
     protected_path = (\<lambda>_. False), readable_to = (\<lambda>_. None), accepts = (\<lambda>_. None), errno = 0\<rparr>"

lemma two_drives_healthy [simp]: "healthy two_drives"
  by (simp add: healthy_def two_drives_def)

lemmas two_drives_defs = two_drives_def old_files_def backup_files_def path_of_def file_name_def

text \<open>A button that hides by wiping down in two steps, in a panel, and a surface to draw them on.\<close>

definition button :: ITUWidget where
  "button = \<lparr>flags = 0x2, visible = True, active = False, dirty = False, alpha = 255,
     rect = \<lparr>xpos = 10, ypos = 20, width = 100, height = 50\<rparr>, bound = \<lparr>xpos = 0, ypos = 0, width = 0, height = 0\<rparr>,
     wid = 7, state = ITU_STATE_NORMAL, showDelay = 0, hideDelay = -1, effectSteps = 2,
     effects = (\<lambda>s. if s = ITU_STATE_HIDING then 15 else 0), effect = None\<rparr>"

definition panel :: ITUWidget where
  "panel = button\<lparr>wid := 1, rect := \<lparr>xpos = 5, ypos = 5, width = 300, height = 200\<rparr>, effects := (\<lambda>_. 0)\<rparr>"

definition screen :: ITUSurface where
  "screen = \<lparr>swidth = 480, sheight = 272, sflags = 0, clipping = \<lparr>xpos = 0, ypos = 0, width = 0, height = 0\<rparr>\<rparr>"

lemmas button_defs = button_def panel_def ITU_ALWAYS_VISIBLE_def ITU_ENABLED_def hide_effect_def show_effect_def
  show_scroll_def show_scrollfade_def show_wipe_def hide_scroll_def hide_scrollfade_def hide_wipe_def

text \<open>NOR chips with blocks of \<open>eb\<close> bytes, and one with two blocks of 256 bytes; a chip is busy for three status reads after it was erased or programmed.\<close>

record sim_chip =
  cbusy :: nat
  cwel :: bool
  cprot :: bool
  cmem :: "nat \<Rightarrow> byte"

definition sim_addr :: "byte \<Rightarrow> byte \<Rightarrow> byte \<Rightarrow> nat" where
  "sim_addr b2 b1 b0 = unat b2 * 2 ^ 16 + unat b1 * 2 ^ 8 + unat b0"

definition sim_bus_of :: "nat \<Rightarrow> sim_chip spi_bus" where
  "sim_bus_of eb = \<lparr>spi_write = (\<lambda>cs bs c. case cs of
       [opc] \<Rightarrow> if opc = 0x06 then (True, c\<lparr>cwel := True\<rparr>) else if opc = 0x04 then (True, c\<lparr>cwel := False\<rparr>) else (False, c)
     | [opc, _] \<Rightarrow> if opc = 0x01 then (True, c\<lparr>cprot := False, cwel := False, cbusy := 3\<rparr>) else (False, c)
     | [opc, b2, b1, b0] \<Rightarrow>
         if opc = 0xD8 then (True, c\<lparr>cmem := erased eb (sim_addr b2 b1 b0) (cmem c), cwel := False, cbusy := 3\<rparr>)
         else if opc = 0x02 then (True, c\<lparr>cmem := programmed (sim_addr b2 b1 b0) bs (cmem c), cwel := False, cbusy := 3\<rparr>)
         else (False, c)
     | _ \<Rightarrow> (False, c)),
   spi_read = (\<lambda>cs n c. case cs of
       [opc] \<Rightarrow> if opc = 0x05
           then (True, [(if 0 < cbusy c then 1 else 0) OR (if cprot c then 0x1C else 0)], c\<lparr>cbusy := min (cbusy c) 3 - 1\<rparr>)
           else (False, [], c)
     | [opc, b2, b1, b0] \<Rightarrow>
         if opc = 0x03 then (True, map (cmem c) [sim_addr b2 b1 b0..<sim_addr b2 b1 b0 + n], c) else (False, [], c)
     | _ \<Rightarrow> (False, [], c))\<rparr>"

definition sim_bus :: "sim_chip spi_bus" where
  "sim_bus = sim_bus_of 256"

abbreviation sim_context_of :: "nat \<Rightarrow> nat \<Rightarrow> nat \<Rightarrow> NOR_ADDR_CONTEXT" where
  "sim_context_of b p n \<equiv> \<lparr>bytesPerPage = b, pagesPerSector_N = p, bytesPerSector = b * p, sectorsPerBlock_N = 1,
     totalBlocks = n, use4BytesAddress = False\<rparr>"

definition sim_context :: NOR_ADDR_CONTEXT where
  "sim_context = \<lparr>bytesPerPage = 16, pagesPerSector_N = 16, bytesPerSector = 256, sectorsPerBlock_N = 1, totalBlocks = 2,
     use4BytesAddress = False\<rparr>"

definition sim_view :: "sim_chip chip_view" where
  "sim_view = \<lparr>busy = (\<lambda>c. min (cbusy c) 3), wel = cwel, prot = cprot, mem = cmem\<rparr>"

definition sim_start :: sim_chip where
  "sim_start = \<lparr>cbusy = 0, cwel = False, cprot = True, cmem = (\<lambda>i. of_nat i)\<rparr>"

lemma sim_addr: "a < 2 ^ 24 \<Longrightarrow> sim_addr (of_nat (a div 2 ^ 16)) (of_nat (a div 2 ^ 8)) (of_nat a) = a"
proof -
  assume a: "a < 2 ^ 24"
  have "a div 65536 * 65536 + a div 256 mod 256 * 256 + a mod 256 = a"
  proof -
    have "a div 65536 * 256 + a div 256 mod 256 = a div 256"
      using div_mult_mod_eq [of "a div 256" 256] by (simp add: div_mult2_eq [symmetric])
    then show ?thesis using div_mult_mod_eq [of a 256] by linarith
  qed
  then show ?thesis using a by (simp add: sim_addr_def unat_of_nat take_bit_eq_mod)
qed

lemma sim_command:
  "a < 2 ^ 24 \<Longrightarrow> \<exists>b2 b1 b0. address_command (sim_context_of b p n) opc opc4 a = [opc, b2, b1, b0] \<and> sim_addr b2 b1 b0 = a"
  using sim_addr [of a] by (simp add: address_command_def)

lemma sim_flash_chip_of:
  assumes "b * p * k < 2 ^ 24"
  shows "flash_chip (sim_bus_of eb) (sim_context_of b p k) eb sim_view"
proof -
  note defs = sim_bus_of_def sim_view_def
  let ?bus = "sim_bus_of eb" and ?ctx = "sim_context_of b p k"
  have cap: "NorGetCapacity ?ctx < 2 ^ 24" using assms by (simp add: NorGetCapacity_def mod_mult_left_eq)
  have st: "\<exists>s c'. spi_read ?bus [0x05] 1 c = (True, [s], c') \<and> (s AND 1 \<noteq> 0 \<longleftrightarrow> 0 < busy sim_view c)
      \<and> (\<not> prot sim_view c \<longrightarrow> s AND 0x1C = 0) \<and> busy sim_view c' = busy sim_view c - 1 \<and> wel sim_view c' = wel sim_view c
      \<and> prot sim_view c' = prot sim_view c \<and> mem sim_view c' = mem sim_view c" for c
    by (auto simp: defs)
  have er: "\<exists>c'. spi_write ?bus (address_command ?ctx 0xD8 0xDC a) [] c = (True, c') \<and> \<not> prot sim_view c'
      \<and> mem sim_view c' = erased eb a (mem sim_view c)" if "\<not> prot sim_view c" "a < NorGetCapacity ?ctx" for a c
    using sim_command [of a b p k "0xD8" "0xDC"] that cap by (auto simp: defs)
  have wr: "\<exists>c'. spi_write ?bus (address_command ?ctx 0x02 0x12 a) bs c = (True, c') \<and> \<not> prot sim_view c'
      \<and> mem sim_view c' = programmed a bs (mem sim_view c)" if "\<not> prot sim_view c" "a + length bs \<le> NorGetCapacity ?ctx" for a bs c
    using sim_command [of a b p k "0x02" "0x12"] that cap by (auto simp: defs)
  have rd: "\<exists>c'. spi_read ?bus (address_command ?ctx 0x03 0x13 a) n c = (True, map (mem sim_view c) [a..<a + n], c')
      \<and> busy sim_view c' = 0 \<and> prot sim_view c' = prot sim_view c \<and> mem sim_view c' = mem sim_view c"
    if "busy sim_view c = 0" "a + n \<le> NorGetCapacity ?ctx" for a n c
    using sim_command [of a b p k "0x03" "0x13"] that cap by (auto simp: defs)
  have ctl: "\<exists>c'. spi_write ?bus [0x06] [] c = (True, c') \<and> busy sim_view c' = busy sim_view c \<and> wel sim_view c'
      \<and> prot sim_view c' = prot sim_view c \<and> mem sim_view c' = mem sim_view c"
    "\<exists>c'. spi_write ?bus [0x04] [] c = (True, c') \<and> busy sim_view c' = busy sim_view c
      \<and> prot sim_view c' = prot sim_view c \<and> mem sim_view c' = mem sim_view c"
    "\<exists>c'. spi_write ?bus [0x01, 0] [] c = (True, c') \<and> \<not> prot sim_view c' \<and> mem sim_view c' = mem sim_view c"
    "busy sim_view c \<le> SSP_POLLING_COUNT" for c
    by (simp_all add: defs SSP_POLLING_COUNT_def)
  show ?thesis
    unfolding flash_chip_def
    apply (intro conjI)
           apply (use ctl(4) in blast)
          apply (use st in blast)
         apply (use ctl(1) in metis)
        apply (use ctl(2) in metis)
       apply (use ctl(3) in blast)
      apply (use er in blast)
     apply (use wr in blast)
    apply (use rd in blast)
    done
qed

lemma sim_flash_chip: "flash_chip sim_bus sim_context 256 sim_view"
  using sim_flash_chip_of [of 16 16 2 256] by (simp add: sim_bus_def sim_context_def)

lemma sim_capacity [simp]: "NorGetCapacity sim_context = 512"
  by (simp add: NorGetCapacity_def sim_context_def)

lemma sim_geometry: "plain_geometry sim_context 256" "gives_buffers (\<lambda>n. Some (replicate n 0)) n" "totalBlocks sim_context = 2"
  by (simp_all add: plain_geometry_def gives_buffers_def sim_context_def)

text \<open>A flash with FAT sectors: three blocks of 32 sectors, the first reserved; sector \<open>k\<close> is filled with \<open>32 + k\<close>.\<close>

definition fat_chip :: "sim_chip nor_chip" where
  "fat_chip = nor_chip_of (\<lambda>n. Some (replicate n 0)) (sim_bus_of 16384) (sim_context_of 256 64 3)"

definition fat_context :: NOR_CONTEXT where
  "fat_context = \<lparr>reservrdFatSectors = 32, pageSize = 256, pagesPerSector = 64, sectorsPerBlock = 1, blockSize = 3,
     fatSectorSize = 512, blockSizeInBytes = 16384, fatSectorsPerBlock = 32\<rparr>"

definition fat_start :: "sim_chip nor" where
  "fat_start = \<lparr>norCache = CacheNull, accessCounter = 0, CacheValidFlush = False, flushMutex = MutexNull,
     disc = sim_start\<lparr>cmem := (\<lambda>i. of_nat (i div 512))\<rparr>\<rparr>"

lemma fat_geometry:
  "nor_context fat_chip 16384 = Some fat_context" "nor_sectors fat_context = 64"
  "fat_flash (\<lambda>n. Some (replicate n 0)) (sim_bus_of 16384) (sim_context_of 256 64 3) 16384 sim_view 16384 fat_context"
proof -
  show c: "nor_context fat_chip 16384 = Some fat_context" "nor_sectors fat_context = 64"
    by (simp_all add: nor_context_def fat_chip_def nor_chip_of_def fat_context_def Let_def nor_sectors_def nor_getphy_def u32_minus_def)
  show "fat_flash (\<lambda>n. Some (replicate n 0)) (sim_bus_of 16384) (sim_context_of 256 64 3) 16384 sim_view 16384 fat_context"
    using c(1) sim_flash_chip_of [of 256 64 3 16384] sim_geometry(2)
    by (simp add: fat_flash_def fat_chip_def fat_context_def plain_geometry_def)
qed

definition fat_nor :: "sim_chip nor" where
  "fat_nor = (case nor_initfunc fat_chip True True (\<lambda>i. replicate 16384 0) 16384 65536 1 fat_start of
     Some (_, s) \<Rightarrow> s | None \<Rightarrow> fat_start)"

lemma fat_started: "nor_initfunc fat_chip True True (\<lambda>i. replicate 16384 0) 16384 65536 1 fat_start = Some (Some fat_context, fat_nor)"
  using nor_init_total [OF fat_geometry(1), of True "\<lambda>i. replicate 16384 0" 65536 1 fat_start] by (auto simp: fat_nor_def)

lemma fat_nor:
  "fat_store (\<lambda>n. Some (replicate n 0)) (sim_bus_of 16384) (sim_context_of 256 64 3) sim_view fat_context 1 fat_nor"
  "k < 63 \<Longrightarrow> contents (fat_sector sim_view fat_context) fat_nor k = replicate 512 (of_nat (32 + k))"
proof -
  note s = fat_init_ok [OF fat_geometry(3) _ _ _ fat_started [unfolded fat_chip_def]]
  show "fat_store (\<lambda>n. Some (replicate n 0)) (sim_bus_of 16384) (sim_context_of 256 64 3) sim_view fat_context 1 fat_nor"
    by (rule s(1)) (simp_all add: sim_view_def fat_start_def sim_start_def)
  have "contents (fat_sector sim_view fat_context) fat_nor = fat_sector sim_view fat_context (disc fat_start)"
    by (rule s(2)) (simp_all add: sim_view_def fat_start_def sim_start_def)
  moreover have "map (\<lambda>i. of_nat (i div 512) :: byte) [(32 + k) * 512..<(32 + Suc k) * 512] = replicate 512 (of_nat (32 + k))"
  proof -
    have "(16384 + k * 512 + i) div 512 = 32 + k" if "i < 512" for i using that by (intro div_nat_eqI) simp_all
    then show ?thesis by (intro nth_equalityI) (simp_all)
  qed
  moreover have "mem sim_view (disc fat_start) = (\<lambda>i. of_nat (i div 512))" "reservrdFatSectors fat_context = 32"
    "fatSectorSize fat_context = 512"
    by (simp_all add: sim_view_def fat_start_def fat_context_def)
  moreover assume "k < 63"
  then have "k < nor_sectors fat_context - 1" by (simp add: fat_geometry(2))
  ultimately show "contents (fat_sector sim_view fat_context) fat_nor k = replicate 512 (of_nat (32 + k))"
    by (simp only: fat_sector_def if_True)
qed

definition sim_table :: "sim_chip ITPNor device_table" where
  "sim_table = (\<lambda>_. None)(ITP_DEVICE_NOR \<mapsto> itpDeviceNor id id (\<lambda>n. Some (replicate n 0)) sim_bus sim_context)"

definition sim_nor :: "sim_chip ITPNor" where
  "sim_nor = \<lparr>initCount = 1, seekPos = 0, norBlockSizeInBytes = 256, flash = sim_start\<rparr>"

definition sim_cfg :: ug_cfg where
  "sim_cfg = small_cfg\<lparr>buf_size := 256, ug_malloc := (\<lambda>n. if n \<le> 256 then Some (replicate (nat n) 0) else None)\<rparr>"

lemma sim_nor:
  "nor_works (\<lambda>n. Some (replicate n 0)) sim_bus sim_context 256 sim_view"
  "nor_registered sim_table id id (\<lambda>n. Some (replicate n 0)) sim_bus sim_context"
  "busy sim_view (flash sim_nor) = 0" "norBlockSizeInBytes sim_nor = of_nat 256" "256 dvd unat (seekPos sim_nor)"
  "cfg_ok sim_cfg" "int 256 \<le> buf_size sim_cfg"
  using sim_flash_chip sim_geometry small_cfg_ok
  by (auto simp: malloc_sized_def nor_works_def nor_registered_def sim_table_def posix_names_def sim_nor_def sim_view_def sim_start_def
      sim_cfg_def cfg_ok_def)

text \<open>Two SD slots whose cards have no sectors.\<close>

definition sim_cards :: "unit sd_driver" where
  "sim_cards = \<lparr>iteSdInitializeEx = (\<lambda>_ c. (0, c)), iteSdTerminateEx = (\<lambda>_ c. c), iteSdGetCapacityEx = (\<lambda>_ c. (0, 0, 512, c)),
     iteSdReadMultipleSectorEx = (\<lambda>_ _ _ b c. Some (0, b, c)), iteSdWriteMultipleSectorEx = (\<lambda>_ _ _ _ c. Some (0, c))\<rparr>"

definition sim_slots :: "(unit ITPSd \<times> unit ITPSd) device_table" where
  "sim_slots = (\<lambda>_. None)(ITP_DEVICE_SD0 \<mapsto> dev_part fst (\<lambda>s w. (s, snd w)) (itpDeviceSd '':sd:0'' sim_cards),
     ITP_DEVICE_SD1 \<mapsto> dev_part snd (\<lambda>s w. (fst w, s)) (itpDeviceSd '':sd:1'' sim_cards))"

text \<open>A message to the DHCP server.\<close>

definition dhcp_client :: block where "dhcp_client = [1, 2, 3, 4, 5, 6] @ replicate 10 0"

definition dhcp_request :: "(byte \<times> block) list \<Rightarrow> nat \<Rightarrow> dhcp_msg" where
  "dhcp_request opts k = \<lparr>bop = 1, htype = 1, hlen = 6, hops = 0, xid = [1, 2, 3, 4], secs = [0, 0], bflags = [0, 0],
     ciaddr = replicate 4 0, yiaddr = replicate 4 0, siaddr = replicate 4 0, giaddr = replicate 4 0, chaddr = dhcp_client,
     sname = replicate 64 0, bfile = replicate 128 0,
     options = magic_cookie @ enc_options opts @ DHCP_OPTION_END # replicate k 0\<rparr>"

lemma dhcp_clients:
  "dhcp_client \<noteq> replicate 16 9" "dhcp_client \<noteq> null_chaddr" "replicate 16 9 \<noteq> null_chaddr"
  "map_option fst (take_lease dhcp_client (dhcps_init 3 [10, 0, 0, 1])) = Some 0"
  by code_simp+

definition test3_event :: ExternalEvent where
  "test3_event = \<lparr>etype = EXTERNAL_TEST3, arg1 = 1, arg2 = 2, arg3 = 255, buf1 = replicate 64 0\<rparr>"

text \<open>A FAT library that keeps the partition tables, on disks of 4096 sectors of 512 bytes, and drives that were never mounted.\<close>

definition empty_drive :: ITPDriveStatus where
  "empty_drive = \<lparr>dr_disk = ITP_DISK_NONE, dr_device = ITP_DEVICE_NONE, avail = False, dr_name = ''''\<rparr>"

definition toy_fat :: "(ITPDisk \<Rightarrow> F_PARTITION list) fat_lib" where
  "toy_fat = \<lparr>f_createdriver = (\<lambda>dk d. (0, d)), f_releasedriver = (\<lambda>dk d. (0, d)),
     f_getpartition = (\<lambda>dk d. (0, d dk @ replicate (ITP_MAX_PARTITION - length (d dk)) \<lparr>secnum = 0, system_indicator = 0\<rparr>, d)),
     f_createpartition = (\<lambda>dk pts d. (0, d(dk := pts))),
     getphy = (\<lambda>dk d. (0, \<lparr>number_of_sectors = 4096, bytes_per_sector = 512\<rparr>, d)),
     f_initvolumepartition = (\<lambda>i dk j d. (0, d)), f_delvolume = (\<lambda>i d. (0, d)), f_format = (\<lambda>i j d. (0, d))\<rparr>"

lemma toy_fat_ok: "fat_lib_ok toy_fat (\<lambda>dk d. Some (d dk)) (\<lambda>_. \<lparr>number_of_sectors = 4096, bytes_per_sector = 512\<rparr>)"
  by (simp add: fat_lib_ok_def toy_fat_def)

definition blank_fat :: "(ITPDisk \<Rightarrow> F_PARTITION list) fat" where
  "blank_fat = \<lparr>drives = replicate ITP_MAX_DRIVE empty_drive, driver = (\<lambda>_. False), drive_queue = [], lib = (\<lambda>_. [])\<rparr>"

definition toy_fat_services :: "(ITPDisk \<Rightarrow> F_PARTITION list) fat itp_services" where
  "toy_fat_services = fat_services toy_fat (replicate 10 7) \<lparr>
     fat_get_partition = (\<lambda>dk d. (1, \<lparr>par_disk = dk, par_count = 0, par_size = [], par_start = []\<rparr>, d)),
     fat_unmount = (\<lambda>dk d. (1, d)), fat_create_partition = (\<lambda>par d. (1, d)),
     fat_force_mount = (\<lambda>dk d. (1, d)), fat_format = (\<lambda>i d. (1, d)), drive_table = drives,
     chdir_dir = (\<lambda>p d. (0, d)), mkdir_dir = (\<lambda>p d. (0, d))\<rparr>"

lemma toy_repartition:
  "map_option fst (repartition toy_fat_services ITP_DISK_NOR 0 2 [524288, 0] blank_fat) = Some 0"
  "map_option fst (repartition toy_fat_services ITP_DISK_NOR 0 2 [524289, 0] blank_fat) = Some 0"
  by code_simp+

lemma blank_fat_ok: "drives_ok blank_fat" "ITP_MAX_PARTITION \<le> free_from (drives blank_fat) 0" "length (drives blank_fat) = ITP_MAX_DRIVE"
  by (simp_all add: drives_ok_def blank_fat_def drive_ok_def empty_drive_def free_from_def ITP_MAX_PARTITION_def ITP_MAX_DRIVE_def)

text \<open>A USB stick with one partition that is mounted, and checked for.\<close>

definition stick_fat :: "(ITPDisk \<Rightarrow> F_PARTITION list) fat" where
  "stick_fat = blank_fat\<lparr>lib := (\<lambda>dk. if dk = ITP_DISK_MSC 3 then [\<lparr>secnum = 100, system_indicator = 4\<rparr>] else [])\<rparr>"

lemma stick_drives: "length (drives stick_fat) = ITP_MAX_DRIVE"
  by (simp add: stick_fat_def blank_fat_def)

lemma stick_mounted:
  "map_option (\<lambda>(r, s). (r, drives s)) (FatMount toy_fat (ITP_DISK_MSC 3) False (DriveInit stick_fat))
     = Some (0, \<lparr>dr_disk = ITP_DISK_MSC 3, dr_device = ITP_DEVICE_FAT, avail = True, dr_name = ''A:/''\<rparr> # replicate 25 empty_drive)"
  by code_simp

lemma stick_reached:
  "\<exists>s st. storage_reach ''B'' toy_fat stick_fat s st \<and> storageTable st STORAGE_USB = Some 0 \<and> \<not> storageInUsbDeviceMode st"
proof -
  let ?st = "StorageInit ''B'' (drives (DriveInit stick_fat))"
  obtain s where s: "FatMount toy_fat (ITP_DISK_MSC 3) False (DriveInit stick_fat) = Some (0, s)"
    "drives s = \<lparr>dr_disk = ITP_DISK_MSC 3, dr_device = ITP_DEVICE_FAT, avail = True, dr_name = ''A:/''\<rparr> # replicate 25 empty_drive"
    using stick_mounted by (auto simp: map_option_case split: option.splits)
  have "storage_reach ''B'' toy_fat stick_fat (DriveInit stick_fat) ?st" by (intro storage_reach.start drive_reach.start)
  then have "storage_reach ''B'' toy_fat stick_fat s ?st"
  proof (rule storage_reach.mount [OF _ _ _ s(1)])
    show "storage_settled (drives (DriveInit stick_fat)) ?st" by code_simp
    show "ITP_MAX_PARTITION \<le> free_from (drives (DriveInit stick_fat)) 0" by code_simp
  qed
  then have "storage_reach ''B'' toy_fat stick_fat s (snd (StorageCheck False False (drives s) ?st))"
    by (rule storage_reach.check)
  moreover have "storageTable (snd (StorageCheck False False (drives s) ?st)) STORAGE_USB = Some 0"
    "\<not> storageInUsbDeviceMode (snd (StorageCheck False False (drives s) ?st))"
    unfolding s(2) by code_simp+
  ultimately show ?thesis by blast
qed

text \<open>An SD card in drive \<open>A:\<close> that the storage has seen, and a USB stick.\<close>

definition card_fat :: "(ITPDisk \<Rightarrow> F_PARTITION list) fat" where
  "card_fat = stick_fat\<lparr>drives := \<lparr>dr_disk = ITP_DISK_SD0, dr_device = ITP_DEVICE_FAT, avail = True, dr_name = ''A:/''\<rparr> # replicate 25 empty_drive\<rparr>"

definition card_storage :: storage where
  "card_storage = insert_drive STORAGE_SD 0 (StorageInit ''B'' (drives card_fat))"

lemma drive_name_0: "drive_name 0 = ''A:/''"
  by code_simp

lemma card_fat_ok:
  "drives_ok card_fat" "ITP_MAX_PARTITION \<le> free_from (drives card_fat) 0"
  "avail (drives card_fat ! 0)" "dr_disk (drives card_fat ! 0) = ITP_DISK_SD0" "(0 :: nat) < ITP_MAX_DRIVE"
  "storageTable card_storage STORAGE_SD = Some 0"
  by (simp_all add: card_fat_def stick_fat_def blank_fat_def drives_ok_def drive_ok_def free_from_def empty_drive_def
      ITP_MAX_DRIVE_def ITP_MAX_PARTITION_def card_storage_def drive_name_0 nth_Cons split: nat.splits)

lemma card_replaced:
  "\<exists>s2. FatMount toy_fat (ITP_DISK_MSC 3) False (snd (FatUnmount toy_fat ITP_DISK_SD0 card_fat)) = Some (0, s2)
    \<and> drives s2 \<noteq> drives (snd (FatUnmount toy_fat ITP_DISK_SD0 card_fat)) \<and> length (drives s2) = ITP_MAX_DRIVE"
proof -
  have "map_option (\<lambda>(r, s). (r, drives s ! 0, length (drives s))) (FatMount toy_fat (ITP_DISK_MSC 3) False (snd (FatUnmount toy_fat ITP_DISK_SD0 card_fat)))
      = Some (0, \<lparr>dr_disk = ITP_DISK_MSC 3, dr_device = ITP_DEVICE_FAT, avail = True, dr_name = ''A:/''\<rparr>, 26)"
    by code_simp
  moreover have "\<not> avail (drives (snd (FatUnmount toy_fat ITP_DISK_SD0 card_fat)) ! 0)" by code_simp
  ultimately show ?thesis by (auto simp: map_option_case ITP_MAX_DRIVE_def split: option.splits)
qed

end
