(* ===== verification/Cb_BackupList.thy ===== *)
theory Cb_BackupList
  imports Ug_ResetProps Ug_Drives
begin

text \<open>
  The rest of \<open>project/ctrlboard/backup.c\<close>: the list of the files to back up, which are those that the default drive
  keeps for a factory reset, and formatting a volume with the other disks taken away in the meantime.
\<close>

definition MAX_BACKUP_COUNT :: nat where "MAX_BACKUP_COUNT = 64"

text \<open>
  \<open>_TraverseFileList\<close> with its loop; \<open>lst\<close> is \<open>gtBackupList\<close> and \<open>k\<close> the length of the name of the directory that
  the paths are relative to. An entry beyond the list, a name beyond its 256 characters and a path
  beyond \<open>PATH_MAX\<close> are written past their arrays. The memory for a path is taken to be there.
\<close>

definition add_path :: "nat \<Rightarrow> string \<Rightarrow> string list \<Rightarrow> string list option" where
  "add_path k filePath lst =
     (if length lst < MAX_BACKUP_COUNT \<and> k \<le> length filePath \<and> length (drop k filePath) < 256
      then Some (lst @ [drop k filePath]) else None)"

function TraverseFileList :: "nat \<Rightarrow> nat \<Rightarrow> fsys \<Rightarrow> string \<Rightarrow> string list \<Rightarrow> (string list \<times> fsys) option"
  and traverse_loop :: "nat \<Rightarrow> nat \<Rightarrow> fsys \<Rightarrow> string \<Rightarrow> (string \<times> d_type) list \<Rightarrow> string list \<Rightarrow> (string list \<times> fsys) option" where
  "TraverseFileList PATH_MAX k s path lst =
     (let (dir, s) = fs_opendir s path
      in case dir of None \<Rightarrow> Some (lst, s) | Some ents \<Rightarrow> traverse_loop PATH_MAX k s path ents lst)"
| "traverse_loop PATH_MAX k s path [] lst = Some (lst, s)"
| "traverse_loop PATH_MAX k s path (ent # ents) lst =
     (if fst ent = ''.'' then traverse_loop PATH_MAX k s path ents lst
      else if fst ent = ''..'' then traverse_loop PATH_MAX k s path ents lst
      else if snd ent = DT_DIR
      then let dirPath = path @ fst ent @ ''/'' in
        if \<not> length dirPath < PATH_MAX then None
        else do { (lst, s) \<leftarrow> TraverseFileList PATH_MAX k s dirPath lst;
                  traverse_loop PATH_MAX k s path ents lst }
      else if take 1 (fst ent) \<noteq> ''~''
      then let filePath = path @ fst ent in
        if \<not> length filePath < PATH_MAX then None
        else do { lst \<leftarrow> add_path k filePath lst; traverse_loop PATH_MAX k s path ents lst }
      else traverse_loop PATH_MAX k s path ents lst)"
  by pat_completeness auto
termination
  by (relation "measures [\<lambda>x. case x of Inl (m, k, s, p, l) \<Rightarrow> m - length p | Inr (m, k, s, p, es, l) \<Rightarrow> m - length p,
       \<lambda>x. case x of Inl _ \<Rightarrow> Suc 0 | Inr _ \<Rightarrow> 0,
       \<lambda>x. case x of Inl _ \<Rightarrow> 0 | Inr (m, k, s, p, es, l) \<Rightarrow> length es]") auto

declare TraverseFileList.simps [simp del] traverse_loop.simps [simp del]

subsection \<open>The list is that of the files\<close>

text \<open>The files below a directory, in the order of its entries, without those whose names begin with a tilde.\<close>

function file_paths :: "string \<Rightarrow> (string \<times> fnode) list \<Rightarrow> string list" where
  "file_paths pre [] = []"
| "file_paths pre ((n, x) # es) =
     (if is_dir x then file_paths (pre @ n @ ''/'') (entries x)
      else if take 1 n = ''~'' then [] else [pre @ n]) @ file_paths pre es"
  by pat_completeness auto
termination
proof (relation "measure (\<lambda>(pre, es). size_list (size_prod (\<lambda>x. 0) size) es)", goal_cases)
  case (2 pre n x es)
  then show ?case by (cases x) simp_all
qed auto

lemma path_of_append: "path_of (a @ CHR ''/'' # b) = path_of a @ path_of b"
  by (simp add: path_of_def split_slash_append)

lemma path_of_dir: "file_name n \<Longrightarrow> path_of (d @ CHR ''/'' # n @ ''/'') = path_of d @ [n]"
  using path_of_append [of n "[]"] path_of_append [of d "n @ ''/''"] path_of_name [of n] by (simp add: path_of_def)

text \<open>What the buffers hold: \<open>l\<close> is the length of the path of the directory with its slash.\<close>

function dirs_fit :: "nat \<Rightarrow> nat \<Rightarrow> (string \<times> fnode) list \<Rightarrow> bool" where
  "dirs_fit m l [] = True"
| "dirs_fit m l ((n, x) # es) =
     (l + length n + 1 < m \<and> (is_dir x \<longrightarrow> dirs_fit m (l + length n + 1) (entries x)) \<and> dirs_fit m l es)"
  by pat_completeness auto
termination
proof (relation "measure (\<lambda>(m, l, es). size_list (size_prod (\<lambda>x. 0) size) es)", goal_cases)
  case (2 m l n x es)
  then show ?case by (cases x) simp_all
qed auto

lemma traverse_loop_files:
  assumes "walk (root s) (path_of d) = Some (DirN cs)" "\<forall>e\<in>set ss. map_of cs (fst e) = Some (snd e)" "wf_tree (DirN ss)"
    "dirs_fit m (length d + 1) ss" "k \<le> length d + 1" "length lst + length (file_paths pre ss) \<le> MAX_BACKUP_COUNT"
    "pre = drop k (d @ ''/'')" "\<forall>p\<in>set (file_paths pre ss). length p < 256"
  shows "traverse_loop m k s (d @ ''/'') (map kind ss) lst = Some (lst @ file_paths pre ss, s)"
  using assms
proof (induction pre ss arbitrary: d cs lst rule: file_paths.induct)
  case (1 pre)
  then show ?case by (simp add: traverse_loop.simps)
next
  case (2 pre n x es)
  have n: "file_name n" "map_of cs n = Some x" "wf_tree x" "length d + 1 + length n + 1 < m" "dirs_fit m (length d + 1) es"
    using 2(5,6) 2(4) by auto
  note nd = file_name_not_dots [OF n(1)]
  have pre: "drop k (d @ ''/'' @ n') = pre @ n'" and le: "k \<le> length (d @ ''/'' @ n')" for n'
    using 2(7,9) drop_append [of k "d @ ''/''" n'] by simp_all
  have rest: "traverse_loop m k s (d @ ''/'') (map kind es) l = Some (l @ file_paths pre es, s)"
    if "length l + length (file_paths pre es) \<le> MAX_BACKUP_COUNT" for l
    using 2(2) [of d cs l] 2(3-10) that by simp
  show ?case
  proof (cases x)
    case (FileN b)
    show ?thesis
    proof (cases "take 1 n = ''~''")
      case True
      then show ?thesis
        using rest [of lst] 2(8) FileN nd by (simp add: traverse_loop.simps(2))
    next
      case False
      have "add_path k (d @ ''/'' @ n) lst = Some (lst @ [pre @ n])"
        using 2(8,10) FileN False pre le [of n] by (simp add: add_path_def)
      then show ?thesis
        using rest [of "lst @ [pre @ n]"] 2(8) FileN nd False n(4) by (simp add: traverse_loop.simps(2) Let_def)
    qed
  next
    case (DirN ns)
    let ?d = "d @ CHR ''/'' # n"
    have w: "walk (root s) (path_of ?d) = Some (DirN ns)"
      using 2(3) n(1,2) DirN by (simp add: walk_child)
    have "path_of (?d @ ''/'') = path_of ?d" using n(1) path_of_dir by simp
    then have o: "fs_opendir s (?d @ ''/'') = (Some (listing ns), s)"
      using opendir_dir [of s "?d @ ''/''" ns] w by simp
    have all: "\<forall>e\<in>set ns. map_of ns (fst e) = Some (snd e)" using n(3) DirN by (auto intro: map_of_is_SomeI)
    have "traverse_loop m k s (?d @ ''/'') (map kind ns) lst = Some (lst @ file_paths (pre @ n @ ''/'') ns, s)"
    proof (rule 2(1) [of ?d ns lst, unfolded DirN is_dir.simps entries.simps])
      show "wf_tree (DirN ns)" "walk (root s) (path_of ?d) = Some (DirN ns)" "\<forall>e\<in>set ns. map_of ns (fst e) = Some (snd e)"
        using n(3) w all DirN by simp_all
      show "dirs_fit m (length ?d + 1) ns" "k \<le> length ?d + 1" using 2(6,7) DirN by simp_all
      show "length lst + length (file_paths (pre @ n @ ''/'') ns) \<le> MAX_BACKUP_COUNT" using 2(8) DirN by simp
      show "pre @ n @ ''/'' = drop k (?d @ ''/'')" using pre [of "n @ ''/''"] by simp
      show "\<forall>p\<in>set (file_paths (pre @ n @ ''/'') ns). length p < 256" using 2(10) DirN by simp
    qed simp
    then have "TraverseFileList m k s (d @ ''/'' @ n @ ''/'') lst = Some (lst @ file_paths (pre @ n @ ''/'') ns, s)"
      using o by (simp add: TraverseFileList.simps listing_def traverse_loop.simps(2))
    then show ?thesis
      using rest [of "lst @ file_paths (pre @ n @ ''/'') ns"] 2(8) DirN nd n(4) by (simp add: traverse_loop.simps(2) Let_def)
  qed
qed

lemma TraverseFileList_files:
  assumes "walk (root s) (path_of d) = Some (DirN ss)" "wf_tree (DirN ss)" "dirs_fit m (length d + 1) ss"
    "length (file_paths [] ss) \<le> MAX_BACKUP_COUNT" "\<forall>p\<in>set (file_paths [] ss). length p < 256"
  shows "TraverseFileList m (length d + 1) s (d @ ''/'') [] = Some (file_paths [] ss, s)"
proof -
  have "path_of (d @ ''/'') = path_of d" using path_of_append [of d "[]"] by (simp add: path_of_def)
  then have "fs_opendir s (d @ ''/'') = (Some (listing ss), s)"
    using opendir_dir [of s "d @ ''/''" ss] assms(1) by simp
  moreover have "\<forall>e\<in>set ss. map_of ss (fst e) = Some (snd e)" using assms(2) by (auto intro: map_of_is_SomeI)
  ultimately show ?thesis
    using traverse_loop_files [OF assms(1) _ assms(2,3), of "length d + 1" "[]" "[]"] assms(4,5)
    by (simp add: TraverseFileList.simps listing_def traverse_loop.simps(2))
qed

subsection \<open>Formatting a volume\<close>

text \<open>The disk of the first drive, which holds the partitions of the board.\<close>

definition GetDriveDiskMode :: "ITPDriveStatus list \<Rightarrow> ITPDisk" where
  "GetDriveDiskMode ds =
     (case List.find (\<lambda>st. dr_device st = ITP_DEVICE_FAT \<and> avail st) (take ITP_MAX_DRIVE ds) of
        None \<Rightarrow> ITP_DISK_NOR | Some st \<Rightarrow> dr_disk st)"

text \<open>The disks of the other drives, each once.\<close>

fun remount_disks :: "ITPDisk \<Rightarrow> ITPDriveStatus list \<Rightarrow> ITPDisk list \<Rightarrow> ITPDisk list" where
  "remount_disks diskMode [] dks = dks"
| "remount_disks diskMode (st # ds) dks =
     (if dr_disk st \<noteq> diskMode \<and> dr_device st = ITP_DEVICE_FAT \<and> avail st \<and> dr_disk st \<notin> set dks
      then remount_disks diskMode ds (dks @ [dr_disk st]) else remount_disks diskMode ds dks)"

fun mount_disks :: "'d fat_lib \<Rightarrow> ITPDisk list \<Rightarrow> 'd fat \<Rightarrow> 'd fat option" where
  "mount_disks fl [] s = Some s"
| "mount_disks fl (dk # dks) s = do { (_, s) \<leftarrow> FatMount fl dk False s; mount_disks fl dks s }"

text \<open>
  \<open>_ReinitFatVolume\<close>; the driver of the drives, which looks for cards, is stopped in the meantime. No
  result is looked at.
\<close>

definition ReinitFatVolume :: "'d fat_lib \<Rightarrow> nat \<Rightarrow> 'd fat \<Rightarrow> 'd fat option" where
  "ReinitFatVolume fl volume s =
     (let diskMode = GetDriveDiskMode (drives s);
          dks = remount_disks diskMode (take ITP_MAX_DRIVE (drives s)) [];
          s = fold (\<lambda>dk s. snd (FatUnmount fl dk s)) dks s;
          s = snd (FatUnmount fl diskMode s)
      in do { (_, s) \<leftarrow> FatMount fl diskMode True s;
              let s = s\<lparr>lib := snd (FatFormat fl volume (lib s))\<rparr> in mount_disks fl dks s })"

text \<open>Mounting takes as many drives as the disk has partitions with sectors.\<close>

definition used :: "F_PARTITION list \<Rightarrow> nat" where
  "used pts = length (filter (\<lambda>pt. secnum pt > 0) pts)"

lemma used_simps [simp]:
  "used [] = 0" "used (pt # pts) = (if secnum pt > 0 then Suc (used pts) else used pts)"
  "used (pts @ qs) = used pts + used qs" "used (replicate n \<lparr>secnum = 0, system_indicator = t\<rparr>) = 0"
  by (simp_all add: used_def)

lemma free_from_mounted:
  assumes "drives_ok s" "k < ITP_MAX_DRIVE" "\<not> avail (drives s ! k)"
  shows "Suc (free_from (drives (mark_mounted dk k k s)) 0) = free_from (drives s) 0"
proof -
  have "k < length (drives s)" using assms(1,2) by (simp add: drives_ok_def)
  then have "drives s = take k (drives s) @ drives s ! k # drop (Suc k) (drives s)" "length (take k (drives s)) = k"
    by (simp_all add: id_take_nth_drop)
  then obtain xs y ys where d: "drives s = xs @ y # ys" "length xs = k" by metis
  then show ?thesis using assms(3) by (auto simp: free_from_def mark_mounted_def Let_def)
qed

lemma mount_loop_room:
  "drives_ok s \<Longrightarrow> j \<le> ITP_MAX_DRIVE \<Longrightarrow> used pts \<le> free_from (drives s) j \<Longrightarrow>
     \<exists>ret s'. mount_loop fl disk force i pts (j, p) s = Some (ret, s') \<and> mounted_more disk s s'
       \<and> free_from (drives s) 0 \<le> free_from (drives s') 0 + used pts"
proof (induction pts arbitrary: i j p s)
  case Nil
  then show ?case by (simp add: mounted_more_refl)
next
  case (Cons pt pts)
  show ?case
  proof (cases "secnum pt > 0")
    case False
    then show ?thesis using Cons.IH [OF Cons.prems(1,2)] Cons.prems(3) by simp
  next
    case True
    obtain k where k: "find_empty (drives s) j p = (k, Some k)" "k < ITP_MAX_DRIVE" "\<not> avail (drives s ! k)"
      "free_from (drives s) k = free_from (drives s) j"
      using find_empty_found [OF Cons.prems(2), of "drives s" p] Cons.prems(1,3) True by (auto simp: drives_ok_def)
    obtain ret d where r: "f_initvolumepartition fl k disk i (lib s) = (ret, d)" by fastforce
    obtain ret' d' where r': "(if disk = ITP_DISK_NAND \<and> ret = F_ERR_NOTFORMATTED then FatFormat fl k d else (ret, d)) = (ret', d')"
      by fastforce
    let ?s1 = "s\<lparr>lib := snd (f_delvolume fl k d')\<rparr>" and ?s2 = "mark_mounted disk k k (s\<lparr>lib := d'\<rparr>)"
    have next1: "\<exists>ret s'. mount_loop fl disk force (Suc i) pts (k, Some k) ?s1 = Some (ret, s') \<and> mounted_more disk ?s1 s'
        \<and> free_from (drives ?s1) 0 \<le> free_from (drives s') 0 + used pts"
      using Cons.IH [of ?s1 k "Suc i" "Some k"] Cons.prems k True by simp
    have m: "mounted_more disk s ?s2" "Suc (free_from (drives ?s2) k) = free_from (drives s) k"
      "Suc (free_from (drives ?s2) 0) = free_from (drives s) 0"
      using mark_mounted_ok [of "s\<lparr>lib := d'\<rparr>" k disk] free_from_mounted [of "s\<lparr>lib := d'\<rparr>" k disk] Cons.prems(1) k by simp_all
    then have "drives_ok ?s2" by (simp add: mounted_more_def)
    then have next2: "\<exists>ret s'. mount_loop fl disk force (Suc i) pts (k, Some k) ?s2 = Some (ret, s') \<and> mounted_more disk ?s2 s'
        \<and> free_from (drives ?s2) 0 \<le> free_from (drives s') 0 + used pts"
      using Cons.IH [of ?s2 k "Suc i" "Some k"] Cons.prems(3) k m(2) True by simp
    show ?thesis
      using True k(1) r r' next1 next2 mounted_more_trans [OF m(1)] mounted_more_refl [OF Cons.prems(1), of disk] m(3)
      by (fastforce simp: Let_def)
  qed
qed

lemma FatMount_room:
  assumes "fat_lib_ok fl tab phy" "drives_ok s" "tab dk (lib s) = Some pts" "length pts \<le> ITP_MAX_PARTITION"
    "used pts \<le> free_from (drives s) 0"
  shows "\<exists>ret s'. FatMount fl dk force s = Some (ret, s') \<and> mounted_more dk s s'
    \<and> free_from (drives s) 0 \<le> free_from (drives s') 0 + used pts"
proof -
  let ?zs = "replicate (ITP_MAX_PARTITION - length pts) \<lparr>secnum = 0, system_indicator = 0\<rparr>"
  obtain r1 s1 where n: "need_driver fl dk s = (r1, s1)" by fastforce
  note nd = need_driver_drives [OF n]
  have ok1: "drives_ok s1" using nd assms(2) by (simp add: drives_ok_def)
  have sub: "mounted_more dk s x = mounted_more dk s1 x" for x using nd by (simp add: mounted_more_def)
  have "tab dk (lib s1) = Some pts" using need_driver_tab [OF assms(1), of dk dk s] n assms(3) by simp
  then have g: "f_getpartition fl dk (lib s1) = (0, pts @ ?zs, lib s1)" using fat_lib_okD(1) [OF assms(1)] assms(4) by blast
  have loop: "\<exists>ret s'. mount_loop fl dk force 0 (pts @ ?zs) (0, None) s1 = Some (ret, s')
      \<and> mounted_more dk s1 s' \<and> free_from (drives s1) 0 \<le> free_from (drives s') 0 + used (pts @ ?zs)"
    using mount_loop_room [of s1 0 "pts @ ?zs" fl dk force 0 None] ok1 nd assms(5) by simp
  show ?thesis
  proof (cases "r1 = 0")
    case True
    then show ?thesis
      using n g loop assms(4) nd unfolding sub by (auto simp: FatMount_def Let_def)
  next
    case False
    then show ?thesis
      using n mounted_more_refl [OF ok1] nd unfolding sub by (auto simp: FatMount_def)
  qed
qed

text \<open>
  What the code relies on: initialising a volume binds its number \<open>i\<close>, which is that of the drive, to a partition
  of a disk, also when the partition has no file system yet; the other calls leave the other volumes bound. \<open>vol\<close>
  are the bindings.
\<close>

definition fat_volumes :: "'d fat_lib \<Rightarrow> ('d \<Rightarrow> nat \<Rightarrow> (ITPDisk \<times> nat) option) \<Rightarrow> bool" where
  "fat_volumes fl vol \<longleftrightarrow>
     (\<forall>i dk j d r d'. f_initvolumepartition fl i dk j d = (r, d') \<longrightarrow>
        (r = 0 \<or> r = F_ERR_NOTFORMATTED \<longrightarrow> vol d' i = Some (dk, j)) \<and> (\<forall>k. k \<noteq> i \<longrightarrow> vol d' k = vol d k))
     \<and> (\<forall>i d k. k \<noteq> i \<longrightarrow> vol (snd (f_delvolume fl i d)) k = vol d k)
     \<and> (\<forall>dk d. vol (snd (f_createdriver fl dk d)) = vol d) \<and> (\<forall>i t d. vol (snd (f_format fl i t d)) = vol d)"

definition volumes_kept :: "('d \<Rightarrow> nat \<Rightarrow> (ITPDisk \<times> nat) option) \<Rightarrow> 'd fat \<Rightarrow> 'd fat \<Rightarrow> bool" where
  "volumes_kept vol s s' \<longleftrightarrow> (\<forall>i < ITP_MAX_DRIVE. avail (drives s ! i) \<longrightarrow> vol (lib s') i = vol (lib s) i)"

text \<open>A drive for partition \<open>j\<close> of a disk, and a disk whose calls succeed.\<close>

definition has_drive :: "('d \<Rightarrow> nat \<Rightarrow> (ITPDisk \<times> nat) option) \<Rightarrow> 'd fat \<Rightarrow> ITPDisk \<Rightarrow> nat \<Rightarrow> bool" where
  "has_drive vol s dk j \<longleftrightarrow>
     (\<exists>i < ITP_MAX_DRIVE. avail (drives s ! i) \<and> dr_disk (drives s ! i) = dk \<and> vol (lib s) i = Some (dk, j))"

definition mountable :: "'d fat_lib \<Rightarrow> ITPDisk \<Rightarrow> bool" where
  "mountable fl dk \<longleftrightarrow> (\<forall>d. fst (f_createdriver fl dk d) = 0) \<and> (\<forall>i j d. fst (f_initvolumepartition fl i dk j d) = 0)"

lemma fat_volumesD:
  assumes "fat_volumes fl vol"
  shows "f_initvolumepartition fl i dk j d = (r, d') \<Longrightarrow> r = 0 \<or> r = F_ERR_NOTFORMATTED \<Longrightarrow> vol d' i = Some (dk, j)"
    "f_initvolumepartition fl i dk j d = (r, d') \<Longrightarrow> k \<noteq> i \<Longrightarrow> vol d' k = vol d k"
    "k \<noteq> i \<Longrightarrow> vol (snd (f_delvolume fl i d)) k = vol d k"
    "vol (snd (f_createdriver fl dk d)) = vol d" "vol (snd (FatFormat fl i d)) = vol d"
proof -
  note V = assms [unfolded fat_volumes_def]
  show "f_initvolumepartition fl i dk j d = (r, d') \<Longrightarrow> r = 0 \<or> r = F_ERR_NOTFORMATTED \<Longrightarrow> vol d' i = Some (dk, j)"
    "f_initvolumepartition fl i dk j d = (r, d') \<Longrightarrow> k \<noteq> i \<Longrightarrow> vol d' k = vol d k"
    "k \<noteq> i \<Longrightarrow> vol (snd (f_delvolume fl i d)) k = vol d k" "vol (snd (f_createdriver fl dk d)) = vol d"
    using V by blast+
  have "vol (snd (f_format fl i t d)) = vol d" for t d using V by blast
  then have "f_format fl i t d = (r, d') \<Longrightarrow> vol d' = vol d" for t r d d' by (metis snd_conv)
  then show "vol (snd (FatFormat fl i d)) = vol d" by (auto simp: FatFormat_def split: prod.splits)
qed

lemma need_driver_vol: "fat_volumes fl vol \<Longrightarrow> vol (lib (snd (need_driver fl dk s))) = vol (lib s)"
  using fat_volumesD(4) [of fl vol dk "lib s"] by (auto simp: need_driver_def split: prod.splits)

lemma volumes_kept_trans:
  "mounted_more dk s s' \<Longrightarrow> volumes_kept vol s s' \<Longrightarrow> volumes_kept vol s' s'' \<Longrightarrow> volumes_kept vol s s''"
  unfolding mounted_more_def volumes_kept_def by metis

lemma has_drive_kept:
  "mounted_more dk' s s' \<Longrightarrow> volumes_kept vol s s' \<Longrightarrow> has_drive vol s dk j \<Longrightarrow> has_drive vol s' dk j"
  unfolding mounted_more_def volumes_kept_def has_drive_def by metis

lemma mount_loop_volumes:
  assumes V: "fat_volumes fl vol"
  shows "mount_loop fl disk force n pts (j, p) s = Some (ret, s') \<Longrightarrow> drives_ok s \<Longrightarrow> j \<le> ITP_MAX_DRIVE
    \<Longrightarrow> used pts \<le> free_from (drives s) j \<Longrightarrow> volumes_kept vol s s'
      \<and> (mountable fl disk \<longrightarrow> (\<forall>x < length pts. 0 < secnum (pts ! x) \<longrightarrow> has_drive vol s' disk (n + x)))"
proof (induction pts arbitrary: n j p s)
  case Nil
  then show ?case by (simp add: volumes_kept_def)
next
  case (Cons pt pts)
  show ?case
  proof (cases "secnum pt > 0")
    case False
    then have "volumes_kept vol s s'
      \<and> (mountable fl disk \<longrightarrow> (\<forall>x < length pts. 0 < secnum (pts ! x) \<longrightarrow> has_drive vol s' disk (Suc n + x)))"
      using Cons.IH [of "Suc n" j p s] Cons.prems by simp
    then show ?thesis using False by (auto simp: nth_Cons' less_Suc_eq_0_disj)
  next
    case True
    obtain k where k: "find_empty (drives s) j p = (k, Some k)" "k < ITP_MAX_DRIVE" "\<not> avail (drives s ! k)"
      "free_from (drives s) k = free_from (drives s) j"
      using find_empty_found [OF Cons.prems(3), of "drives s" p] Cons.prems(2,4) True by (auto simp: drives_ok_def)
    obtain r d where r: "f_initvolumepartition fl k disk n (lib s) = (r, d)" by fastforce
    obtain r' d' where r': "(if disk = ITP_DISK_NAND \<and> r = F_ERR_NOTFORMATTED then FatFormat fl k d else (r, d)) = (r', d')"
      by fastforce
    have d': "vol d' = vol d" using r' fat_volumesD(5) [OF V, of k d] by (metis snd_conv)
    let ?s1 = "s\<lparr>lib := snd (f_delvolume fl k d')\<rparr>" and ?s2 = "mark_mounted disk k k (s\<lparr>lib := d'\<rparr>)"
    have other: "vol d i = vol (lib s) i" "vol (snd (f_delvolume fl k d')) i = vol (lib s) i" "vol (snd (f_delvolume fl k d)) i = vol (lib s) i"
      if "i \<noteq> k" for i
      using fat_volumesD(2) [OF V r that] fat_volumesD(3) [OF V that] d' by simp_all
    have l2: "lib ?s2 = d'" by (simp add: mark_mounted_def Let_def)
    have m: "mounted_more disk s ?s2" "Suc (free_from (drives ?s2) k) = free_from (drives s) k"
      using mark_mounted_ok [of "s\<lparr>lib := d'\<rparr>" k disk] Cons.prems(2) k by simp_all
    then have ok2: "drives_ok ?s2" by (simp add: mounted_more_def)
    have k2: "volumes_kept vol s ?s2" unfolding volumes_kept_def l2 d' using other(1) k(3) by metis
    have room: "used pts \<le> free_from (drives ?s2) k" using Cons.prems(4) k(4) m(2) True by simp
    have fit: "r \<noteq> 0 \<Longrightarrow> \<not> mountable fl disk" using r unfolding mountable_def by (metis fst_conv)
    consider (fail) "s' = s\<lparr>lib := snd (f_delvolume fl k d)\<rparr>" "r \<noteq> 0"
      | (skip) "mount_loop fl disk force (Suc n) pts (k, Some k) ?s1 = Some (ret, s')" "r \<noteq> 0"
      | (mark) "mount_loop fl disk force (Suc n) pts (k, Some k) ?s2 = Some (ret, s')" "r = 0 \<or> r = F_ERR_NOTFORMATTED"
      using Cons.prems(1) True k(1) r r' by (auto simp: Let_def split: if_split_asm)
    then show ?thesis
    proof cases
      case fail
      then have "volumes_kept vol s s'" using other(3) k(3) by (simp add: volumes_kept_def) metis
      then show ?thesis using fit fail(2) by blast
    next
      case skip
      have "volumes_kept vol ?s1 s'"
        using Cons.IH [OF skip(1)] Cons.prems(2,4) k True by simp
      then have "volumes_kept vol s s'" using other(2) k(3) unfolding volumes_kept_def by auto metis
      then show ?thesis using fit skip(2) by blast
    next
      case mark
      have IH: "volumes_kept vol ?s2 s'"
        "mountable fl disk \<longrightarrow> (\<forall>x < length pts. 0 < secnum (pts ! x) \<longrightarrow> has_drive vol s' disk (Suc n + x))"
        using Cons.IH [OF mark(1) ok2 _ room] k(2) by simp_all
      have more: "mounted_more disk ?s2 s'"
        using mount_loop_room [OF ok2 _ room, of fl disk force "Suc n" "Some k"] k(2) mark(1) by auto
      have "avail (drives ?s2 ! k)" "dr_disk (drives ?s2 ! k) = disk"
        using Cons.prems(2) k(2) by (simp_all add: mark_mounted_def Let_def drives_ok_def)
      moreover have "vol (lib ?s2) k = Some (disk, n)" using fat_volumesD(1) [OF V r mark(2)] d' l2 by simp
      ultimately have "has_drive vol ?s2 disk n" using k(2) unfolding has_drive_def by blast
      then have "has_drive vol s' disk n" by (rule has_drive_kept [OF more IH(1)])
      moreover have "volumes_kept vol s s'" by (rule volumes_kept_trans [OF m(1) k2 IH(1)])
      ultimately show ?thesis using IH(2) by (auto simp: nth_Cons' less_Suc_eq_0_disj)
    qed
  qed
qed

lemma FatMount_volumes:
  assumes "fat_lib_ok fl tab phy" "fat_volumes fl vol" "drives_ok s" "tab dk (lib s) = Some pts" "length pts \<le> ITP_MAX_PARTITION"
    "used pts \<le> free_from (drives s) 0" "FatMount fl dk force s = Some (ret, s')"
  shows "volumes_kept vol s s' \<and> (mountable fl dk \<longrightarrow> (\<forall>x < length pts. 0 < secnum (pts ! x) \<longrightarrow> has_drive vol s' dk x))"
proof -
  let ?zs = "replicate (ITP_MAX_PARTITION - length pts) \<lparr>secnum = 0, system_indicator = 0\<rparr>"
  obtain r1 s1 where n: "need_driver fl dk s = (r1, s1)" by fastforce
  note nd = need_driver_drives [OF n]
  have ok1: "drives_ok s1" using nd assms(3) by (simp add: drives_ok_def)
  have v1: "vol (lib s1) = vol (lib s)" using need_driver_vol [OF assms(2), of dk s] n by simp
  then have sub: "volumes_kept vol s x = volumes_kept vol s1 x" for x using nd by (simp add: volumes_kept_def)
  have "tab dk (lib s1) = Some pts" using need_driver_tab [OF assms(1), of dk dk s] n assms(4) by simp
  then have g: "f_getpartition fl dk (lib s1) = (0, pts @ ?zs, lib s1)" using fat_lib_okD(1) [OF assms(1)] assms(5) by blast
  have r1: "mountable fl dk \<Longrightarrow> r1 = 0"
    using n by (auto simp: need_driver_def mountable_def split: if_splits prod.splits) (metis fst_conv)+
  show ?thesis
  proof (cases "r1 = 0")
    case True
    then have "mount_loop fl dk force 0 (pts @ ?zs) (0, None) s1 = Some (ret, s')"
      using assms(5,7) n g by (auto simp: FatMount_def Let_def)
    from mount_loop_volumes [OF assms(2) this ok1] assms(6) nd show ?thesis
      unfolding sub by (auto simp: nth_append)
  next
    case False
    then show ?thesis using assms(7) n r1 unfolding sub by (auto simp: FatMount_def volumes_kept_def)
  qed
qed

text \<open>With the first \<open>j\<close> drives taken the partitions of a disk get the next letters.\<close>

lemma find_empty_next:
  "j0 \<le> j \<Longrightarrow> j < ITP_MAX_DRIVE \<Longrightarrow> (\<forall>i < ITP_MAX_DRIVE. avail (ds ! i) \<longleftrightarrow> i < j) \<Longrightarrow> find_empty ds j0 p = (j, Some j)"
proof (induction "j - j0" arbitrary: j0 p)
  case 0
  then show ?case by (subst find_empty.simps) simp
next
  case (Suc n)
  then show ?case using Suc.hyps(1) [of "Suc j0" "Some j0"] by (subst find_empty.simps) auto
qed

lemma mount_loop_empty: "mount_loop fl disk force i (replicate m \<lparr>secnum = 0, system_indicator = t\<rparr>) (j, p) s = Some (0, s)"
  by (induction m arbitrary: i) simp_all

definition board_drive :: "ITPDisk \<Rightarrow> nat \<Rightarrow> ITPDriveStatus \<Rightarrow> bool" where
  "board_drive disk i st \<longleftrightarrow> avail st \<and> dr_disk st = disk \<and> dr_name st = drive_name i"

definition answers :: "'d fat_lib \<Rightarrow> ITPDisk \<Rightarrow> bool" where
  "answers fl disk \<longleftrightarrow> (\<forall>d. fst (f_createdriver fl disk d) = 0)
     \<and> (\<forall>vol i d. fst (f_initvolumepartition fl vol disk i d) = 0 \<or> fst (f_initvolumepartition fl vol disk i d) = F_ERR_NOTFORMATTED)"

lemma mount_loop_letters:
  assumes "answers fl disk" "disk \<noteq> ITP_DISK_NAND" "fat_volumes fl vol"
  shows "\<forall>pt\<in>set pts. 0 < secnum pt \<Longrightarrow> length (drives s) = ITP_MAX_DRIVE \<Longrightarrow> \<forall>i < ITP_MAX_DRIVE. avail (drives s ! i) \<longleftrightarrow> i < j
    \<Longrightarrow> j0 \<le> j \<Longrightarrow> j + length pts \<le> ITP_MAX_DRIVE
    \<Longrightarrow> \<exists>s'. mount_loop fl disk True i (pts @ replicate m \<lparr>secnum = 0, system_indicator = 0\<rparr>) (j0, p) s = Some (0, s')
      \<and> (\<forall>k < j. drives s' ! k = drives s ! k \<and> vol (lib s') k = vol (lib s) k)
      \<and> (\<forall>k < length pts. board_drive disk (j + k) (drives s' ! (j + k)) \<and> vol (lib s') (j + k) = Some (disk, i + k))"
proof (induction pts arbitrary: s i j j0 p)
  case Nil
  then show ?case by (simp add: mount_loop_empty)
next
  case (Cons pt pts)
  have e: "find_empty (drives s) j0 p = (j, Some j)" using find_empty_next Cons.prems by simp
  obtain r d where r: "f_initvolumepartition fl j disk i (lib s) = (r, d)" by fastforce
  then have r0: "r = 0 \<or> r = F_ERR_NOTFORMATTED" using assms(1) unfolding answers_def by (metis fst_conv)
  let ?s = "mark_mounted disk j j (s\<lparr>lib := d\<rparr>)"
  let ?st = "(drives s ! j)\<lparr>dr_disk := disk, dr_device := ITP_DEVICE_FAT, avail := True, dr_name := drive_name j\<rparr>"
  have dr: "drives ?s = (drives s)[j := ?st]" by (simp add: mark_mounted_def Let_def)
  have av: "\<forall>i < ITP_MAX_DRIVE. avail (drives ?s ! i) \<longleftrightarrow> i < Suc j"
    using Cons.prems(2,3,5) unfolding dr by (auto simp: nth_list_update less_Suc_eq)
  have len: "length (drives ?s) = ITP_MAX_DRIVE" using Cons.prems(2) dr by simp
  obtain s' where s': "mount_loop fl disk True (Suc i) (pts @ replicate m \<lparr>secnum = 0, system_indicator = 0\<rparr>) (j, Some j) ?s = Some (0, s')"
    "\<forall>k < Suc j. drives s' ! k = drives ?s ! k \<and> vol (lib s') k = vol (lib ?s) k"
    "\<forall>k < length pts. board_drive disk (Suc j + k) (drives s' ! (Suc j + k)) \<and> vol (lib s') (Suc j + k) = Some (disk, Suc i + k)"
    using Cons.IH [of ?s "Suc j" j "Suc i" "Some j"] Cons.prems av len by auto
  have l: "lib ?s = d" by (simp add: mark_mounted_def Let_def)
  have v: "vol d j = Some (disk, i)" "\<forall>k < j. vol d k = vol (lib s) k"
    using fat_volumesD(1) [OF assms(3) r r0] fat_volumesD(2) [OF assms(3) r] by auto
  have "board_drive disk (j + k) (drives s' ! (j + k)) \<and> vol (lib s') (j + k) = Some (disk, i + k)" if "k < length (pt # pts)" for k
  proof (cases k)
    case 0
    then show ?thesis using s'(2) dr Cons.prems(2,5) v(1) l by (simp add: board_drive_def)
  next
    case (Suc k')
    then show ?thesis using s'(3) that by simp
  qed
  moreover have "\<forall>k < j. drives s' ! k = drives s ! k \<and> vol (lib s') k = vol (lib s) k" using s'(2) dr v(2) l by simp
  moreover have "mount_loop fl disk True i ((pt # pts) @ replicate m \<lparr>secnum = 0, system_indicator = 0\<rparr>) (j0, p) s = Some (0, s')"
    using s'(1) e r r0 assms(2) Cons.prems(1) by (auto simp: Let_def)
  ultimately show ?case by blast
qed

lemma FatMount_letters:
  assumes "fat_lib_ok fl tab phy" "fat_volumes fl vol" "answers fl dk" "dk \<noteq> ITP_DISK_NAND" "drives_ok s"
    "\<forall>i < ITP_MAX_DRIVE. \<not> avail (drives s ! i)"
    "tab dk (lib s) = Some pts" "length pts \<le> ITP_MAX_PARTITION" "\<forall>pt\<in>set pts. 0 < secnum pt"
  shows "\<exists>s'. FatMount fl dk True s = Some (0, s')
    \<and> (\<forall>k < length pts. board_drive dk k (drives s' ! k) \<and> vol (lib s') k = Some (dk, k))"
proof -
  let ?zs = "replicate (ITP_MAX_PARTITION - length pts) \<lparr>secnum = 0, system_indicator = 0\<rparr>"
  obtain r1 s1 where n: "need_driver fl dk s = (r1, s1)" by fastforce
  have r1: "r1 = 0" using n assms(3) by (auto simp: need_driver_def answers_def split: if_splits prod.splits) (metis fst_conv)+
  note nd = need_driver_drives [OF n]
  have "tab dk (lib s1) = Some pts" using need_driver_tab [OF assms(1), of dk dk s] n assms(7) by simp
  then have g: "f_getpartition fl dk (lib s1) = (0, pts @ ?zs, lib s1)" using fat_lib_okD(1) [OF assms(1)] assms(8) by blast
  have "length (drives s1) = ITP_MAX_DRIVE" "length pts \<le> ITP_MAX_DRIVE"
    using nd assms(5,8) by (simp_all add: drives_ok_def ITP_MAX_PARTITION_def ITP_MAX_DRIVE_def)
  then show ?thesis
    using mount_loop_letters [OF assms(3,4,2,9), of s1 0 0 0 "ITP_MAX_PARTITION - length pts" None] n r1 g nd assms(6,8)
    by (auto simp: FatMount_def Let_def)
qed

subsection \<open>Formatting gives the partitions of the board their letters\<close>

lemma remount_disks_set:
  "set (remount_disks dm ds dks) = set dks \<union> {dr_disk st | st. st \<in> set ds \<and> dr_disk st \<noteq> dm \<and> dr_device st = ITP_DEVICE_FAT \<and> avail st}"
  by (induction ds arbitrary: dks) auto

lemma unmount_disks:
  "drives_ok s \<Longrightarrow> drives_ok (fold (\<lambda>dk s. snd (FatUnmount fl dk s)) dks s)
     \<and> (\<forall>i < ITP_MAX_DRIVE. drives (fold (\<lambda>dk s. snd (FatUnmount fl dk s)) dks s) ! i
          = (if dr_disk (drives s ! i) \<in> set dks then (drives s ! i)\<lparr>avail := False\<rparr> else drives s ! i))"
proof (induction dks arbitrary: s)
  case (Cons dk dks)
  have u: "unmounted dk s (snd (FatUnmount fl dk s))" using FatUnmount_ok [OF Cons.prems] .
  then show ?case using Cons.IH [of "snd (FatUnmount fl dk s)"] by (auto simp: unmounted_def)
qed simp

lemma unmount_disks_tab:
  "fat_lib_ok fl tab phy \<Longrightarrow> tab disk (lib (fold (\<lambda>dk s. snd (FatUnmount fl dk s)) dks s)) = tab disk (lib s)"
  by (induction dks arbitrary: s) (simp_all add: FatUnmount_tab)

lemma mount_disks_room:
  assumes "fat_lib_ok fl tab phy" "fat_volumes fl vol"
  shows "drives_ok s \<Longrightarrow> \<forall>dk\<in>set dks. tab dk (lib s) = Some (pt dk) \<and> length (pt dk) \<le> ITP_MAX_PARTITION
    \<Longrightarrow> sum_list (map (\<lambda>dk. used (pt dk)) dks) \<le> free_from (drives s) 0
    \<Longrightarrow> \<exists>s'. mount_disks fl dks s = Some s' \<and> drives_ok s'
      \<and> (\<forall>i < ITP_MAX_DRIVE. avail (drives s ! i) \<longrightarrow> drives s' ! i = drives s ! i \<and> vol (lib s') i = vol (lib s) i)
      \<and> (\<forall>dk\<in>set dks. mountable fl dk \<longrightarrow> (\<forall>j < length (pt dk). 0 < secnum (pt dk ! j) \<longrightarrow> has_drive vol s' dk j))"
proof (induction dks arbitrary: s)
  case (Cons dk dks)
  have room: "used (pt dk) \<le> free_from (drives s) 0" and t: "tab dk (lib s) = Some (pt dk)" "length (pt dk) \<le> ITP_MAX_PARTITION"
    using Cons.prems(2,3) by simp_all
  obtain ret s1 where s1: "FatMount fl dk False s = Some (ret, s1)" "mounted_more dk s s1"
    "free_from (drives s) 0 \<le> free_from (drives s1) 0 + used (pt dk)"
    using FatMount_room [OF assms(1) Cons.prems(1) t room, of False] by blast
  note v = FatMount_volumes [OF assms Cons.prems(1) t room s1(1)]
  have "tab d (lib s1) = tab d (lib s)" for d
    using FatMount_tab [OF assms(1) s1(1) t, of d] by simp
  then obtain s2 where s2: "mount_disks fl dks s1 = Some s2" "drives_ok s2"
    "\<forall>i < ITP_MAX_DRIVE. avail (drives s1 ! i) \<longrightarrow> drives s2 ! i = drives s1 ! i \<and> vol (lib s2) i = vol (lib s1) i"
    "\<forall>dk\<in>set dks. mountable fl dk \<longrightarrow> (\<forall>j < length (pt dk). 0 < secnum (pt dk ! j) \<longrightarrow> has_drive vol s2 dk j)"
    using Cons.IH [of s1] Cons.prems(2,3) s1(2,3) by (auto simp: mounted_more_def)
  have keep: "drives s2 ! i = drives s ! i \<and> vol (lib s2) i = vol (lib s) i" if "i < ITP_MAX_DRIVE" "avail (drives s ! i)" for i
    using s1(2) s2(3) v that unfolding mounted_more_def volumes_kept_def by metis
  have "has_drive vol s2 dk j" if "has_drive vol s1 dk j" for j
    using that s2(3) unfolding has_drive_def by metis
  then show ?case using s1(1) s2 keep v by (intro exI [of _ s2]) simp
qed simp

lemma ReinitFatVolume_letters:
  assumes "fat_lib_ok fl tab phy" "drives_ok s" "bd = GetDriveDiskMode (drives s)" "answers fl bd" "bd \<noteq> ITP_DISK_NAND"
    "dks = remount_disks bd (drives s) []" "\<forall>dk\<in>set (bd # dks). tab dk (lib s) = Some (pt dk) \<and> length (pt dk) \<le> ITP_MAX_PARTITION"
    "\<forall>p\<in>set (pt bd). 0 < secnum p" "sum_list (map (\<lambda>dk. used (pt dk)) (bd # dks)) \<le> ITP_MAX_DRIVE"
    "fat_volumes fl vol"
  shows "\<exists>s'. ReinitFatVolume fl volume s = Some s' \<and> drives_ok s' \<and> (\<forall>k < length (pt bd). board_drive bd k (drives s' ! k) \<and> vol (lib s') k = Some (bd, k))
    \<and> (\<forall>dk\<in>set dks. mountable fl dk \<longrightarrow> (\<forall>j < length (pt dk). 0 < secnum (pt dk ! j) \<longrightarrow> has_drive vol s' dk j))"
proof -
  have len: "length (drives s) = ITP_MAX_DRIVE" using assms(2) by (simp add: drives_ok_def)
  let ?u = "fold (\<lambda>dk s. snd (FatUnmount fl dk s)) dks s"
  let ?w = "snd (FatUnmount fl bd ?u)"
  have w: "?w = fold (\<lambda>dk s. snd (FatUnmount fl dk s)) (dks @ [bd]) s" by simp
  have ok: "drives_ok ?w" using unmount_disks [OF assms(2), of fl "dks @ [bd]"] unfolding w by blast
  have gone: "\<not> avail (drives ?w ! i)" if i: "i < ITP_MAX_DRIVE" for i
  proof -
    have "avail (drives s ! i) \<Longrightarrow> dr_disk (drives s ! i) \<in> set (dks @ [bd])"
      using assms(2) i len nth_mem [of i "drives s"]
      by (auto simp: assms(6) remount_disks_set drives_ok_def drive_ok_def)
    then show ?thesis using unmount_disks [OF assms(2), of fl "dks @ [bd]"] i unfolding w by auto
  qed
  have tab: "tab dk (lib ?w) = tab dk (lib s)" for dk using unmount_disks_tab [OF assms(1), of dk "dks @ [bd]" s] unfolding w .
  have free: "free_from (drives ?w) 0 = ITP_MAX_DRIVE"
  proof -
    have "length (drives ?w) = ITP_MAX_DRIVE" using ok by (simp add: drives_ok_def)
    then have "\<forall>st\<in>set (drives ?w). \<not> avail st" using gone by (metis in_set_conv_nth)
    then have "filter (\<lambda>st. \<not> avail st) (drives ?w) = drives ?w" by (rule filter_True)
    then show ?thesis using \<open>length (drives ?w) = ITP_MAX_DRIVE\<close> by (simp add: free_from_def)
  qed
  have bd: "tab bd (lib ?w) = Some (pt bd)" "length (pt bd) \<le> ITP_MAX_PARTITION" using assms(7) tab by simp_all
  obtain s1 where s1: "FatMount fl bd True ?w = Some (0, s1)" "\<forall>k < length (pt bd). board_drive bd k (drives s1 ! k) \<and> vol (lib s1) k = Some (bd, k)"
    using FatMount_letters [OF assms(1,10,4,5) ok _ bd assms(8)] gone by blast
  have "used (pt bd) \<le> free_from (drives ?w) 0" using free assms(9) by simp
  then have s1r: "mounted_more bd ?w s1" "free_from (drives ?w) 0 \<le> free_from (drives s1) 0 + used (pt bd)"
    using FatMount_room [OF assms(1) ok bd, of True] s1(1) by auto
  let ?s2 = "s1\<lparr>lib := snd (FatFormat fl volume (lib s1))\<rparr>"
  have "tab dk (lib ?s2) = tab dk (lib s)" for dk
    using FatMount_tab [OF assms(1) s1(1) bd, of dk] FatFormat_tab [OF assms(1), of dk volume "lib s1"] tab by simp
  then obtain s3 where s3: "mount_disks fl dks ?s2 = Some s3" "drives_ok s3"
    "\<forall>i < ITP_MAX_DRIVE. avail (drives ?s2 ! i) \<longrightarrow> drives s3 ! i = drives ?s2 ! i \<and> vol (lib s3) i = vol (lib ?s2) i"
    "\<forall>dk\<in>set dks. mountable fl dk \<longrightarrow> (\<forall>j < length (pt dk). 0 < secnum (pt dk ! j) \<longrightarrow> has_drive vol s3 dk j)"
    using mount_disks_room [OF assms(1,10), of ?s2 dks pt] assms(7,9) s1r free by (auto simp: mounted_more_def)
  have vl: "vol (snd (FatFormat fl volume (lib s1))) = vol (lib s1)" using fat_volumesD(5) [OF assms(10)] .
  have "board_drive bd k (drives s3 ! k) \<and> vol (lib s3) k = Some (bd, k)" if "k < length (pt bd)" for k
  proof -
    have "k < ITP_MAX_DRIVE" using that bd(2) by (simp add: ITP_MAX_PARTITION_def ITP_MAX_DRIVE_def)
    then show ?thesis using s1(2) s3(3) that vl by (simp add: board_drive_def)
  qed
  moreover have "ReinitFatVolume fl volume s = Some s3"
    using s1(1) s3(1) len unfolding ReinitFatVolume_def assms(3,6) by (simp add: Let_def)
  ultimately show ?thesis using s3(2,4) by blast
qed

end
