(* ===== verification/Cb_Backup.thy ===== *)
theory Cb_Backup
  imports Ug_FileCrc
begin

text \<open>
  The backup of the settings, \<open>project/ctrlboard/backup.c\<close>, and the start of the application that relies on
  it (\<open>main.c\<close>, \<open>UpgradeInit\<close> of \<open>upgrade.c\<close>): the files of a list are kept on the public drive and on a backup drive, and
  are copied back when the checksums of the public drive are wrong. \<open>lst\<close> is \<open>gtBackupList\<close> up to
  \<open>gBackupFileCount\<close>, \<open>pub\<close> is \<open>CFG_PUBLIC_DRIVE\<close>, \<open>stat_ok\<close> says where \<open>fstat\<close> works. Flushing the cache of the NOR
  flash does not change what the files hold. A stream that was not opened has no file, and reading it is undefined.
\<close>

definition BACKUP_DRIVE :: string where "BACKUP_DRIVE = ''C''"
definition NEED_RESTORE_FROM_BACKUP :: int where "NEED_RESTORE_FROM_BACKUP = 1"
definition NEED_RESTORE_DEFAULT :: int where "NEED_RESTORE_DEFAULT = 2"

text \<open>\<open>sprintf(filePath, "%s:/%s", drive, path)\<close> into 256 characters.\<close>

definition drive_path :: "string \<Rightarrow> string \<Rightarrow> string option" where
  "drive_path drive path =
     (let p = drive @ '':/'' @ path in if length p < 256 then Some p else None)"

text \<open>A buffer of the size \<open>n\<close> filled from a stream; a null pointer can only take nothing.\<close>

definition malloc_read :: "(int \<Rightarrow> block option) \<Rightarrow> file_stream \<Rightarrow> int \<Rightarrow> (block \<times> file_stream) option" where
  "malloc_read malloc f n =
     do { buf \<leftarrow> (case malloc n of None \<Rightarrow> if n = 0 then Some [] else None | Some buf \<Rightarrow> Some buf);
          (_, buf, f) \<leftarrow> Read file_ops f buf n;
          Some (buf, f) }"

subsection \<open>Copying all files\<close>

fun FileSyncFile ::
  "(string \<Rightarrow> bool) \<Rightarrow> (int \<Rightarrow> block option) \<Rightarrow> string \<Rightarrow> string \<Rightarrow> string list \<Rightarrow> volume \<Rightarrow> volume option" where
  "FileSyncFile stat_ok malloc src dst [] v = Some v"
| "FileSyncFile stat_ok malloc src dst (p # ps) v =
     do { filePath \<leftarrow> drive_path src p;
          let (_, f) = itcFileStreamOpen (stat_ok filePath) v filePath False; n = stream_size (fst f) in do {
            (pFileBuffer, f) \<leftarrow> malloc_read malloc f n;
            (_, f) \<leftarrow> Close file_ops f;
            filePath \<leftarrow> drive_path dst p;
            let (_, g) = itcFileStreamOpen (stat_ok filePath) (snd f) filePath True in do {
              (_, g) \<leftarrow> Write file_ops g pFileBuffer n;
              (_, g) \<leftarrow> Close file_ops g;
              FileSyncFile stat_ok malloc src dst ps (snd g) } } }"

definition BackupRestore ::
  "(string \<Rightarrow> bool) \<Rightarrow> (int \<Rightarrow> block option) \<Rightarrow> string \<Rightarrow> string list \<Rightarrow> volume \<Rightarrow> volume option" where
  "BackupRestore stat_ok malloc pub lst v = FileSyncFile stat_ok malloc BACKUP_DRIVE pub lst v"

definition BackupSave ::
  "(string \<Rightarrow> bool) \<Rightarrow> (int \<Rightarrow> block option) \<Rightarrow> string \<Rightarrow> string list \<Rightarrow> volume \<Rightarrow> volume option" where
  "BackupSave stat_ok malloc pub lst v = FileSyncFile stat_ok malloc pub BACKUP_DRIVE lst v"

definition BackupDestroy :: "string list \<Rightarrow> string list" where
  "BackupDestroy lst = []"

subsection \<open>What is missing\<close>

text \<open>Whether \<open>itcFileStreamOpen\<close> for reading fails; the stream is closed again.\<close>

definition open_fails :: "(string \<Rightarrow> bool) \<Rightarrow> volume \<Rightarrow> string \<Rightarrow> bool" where
  "open_fails stat_ok v p \<longleftrightarrow> fst (itcFileStreamOpen (stat_ok p) v p False) \<noteq> 0"

text \<open>The loop over the files; the check of the backup comes last and wins.\<close>

fun status_loop :: "(string \<Rightarrow> bool) \<Rightarrow> string \<Rightarrow> string list \<Rightarrow> volume \<Rightarrow> int option" where
  "status_loop stat_ok pub [] v = Some 0"
| "status_loop stat_ok pub (p # ps) v =
     do { pp \<leftarrow> drive_path pub p;
          bp \<leftarrow> drive_path BACKUP_DRIVE p;
          let result = (if open_fails stat_ok v bp then NEED_RESTORE_DEFAULT
                        else if open_fails stat_ok v pp then NEED_RESTORE_FROM_BACKUP else 0)
          in if result \<noteq> 0 then Some result else status_loop stat_ok pub ps v }"

definition CheckBackupStatus :: "(string \<Rightarrow> bool) \<Rightarrow> string \<Rightarrow> string list \<Rightarrow> volume \<Rightarrow> int option" where
  "CheckBackupStatus stat_ok pub lst v =
     (if open_fails stat_ok v (pub @ '':/backup_special_file'') then status_loop stat_ok pub lst v
      else Some NEED_RESTORE_FROM_BACKUP)"

subsection \<open>Copying what has changed\<close>

text \<open>
  The backup is emptied and written again. The source may have been read for the comparison (\<open>buf\<close>); \<open>s\<close> is
  its stream.
\<close>

definition write_backup ::
  "(string \<Rightarrow> bool) \<Rightarrow> (int \<Rightarrow> block option) \<Rightarrow> string \<Rightarrow> ITCFileStream \<Rightarrow> block option \<Rightarrow> volume \<Rightarrow> volume option" where
  "write_backup stat_ok malloc bp s pSrcDataBuf v =
     (let (_, b, v) = itcFileStreamOpen (stat_ok bp) v bp True; n = stream_size s
      in do { (buf, s) \<leftarrow> (case pSrcDataBuf of Some buf \<Rightarrow> Some (buf, s, v) | None \<Rightarrow> malloc_read malloc (s, v) n);
              (_, g) \<leftarrow> Write file_ops (b, snd s) buf n;
              (_, g) \<leftarrow> Close file_ops g;
              Some (snd g) })"

fun BackupSyncFile ::
  "(string \<Rightarrow> bool) \<Rightarrow> (int \<Rightarrow> block option) \<Rightarrow> string \<Rightarrow> string list \<Rightarrow> volume \<Rightarrow> volume option" where
  "BackupSyncFile stat_ok malloc pub [] v = Some v"
| "BackupSyncFile stat_ok malloc pub (p # ps) v =
     do { sp \<leftarrow> drive_path pub p;
          bp \<leftarrow> drive_path BACKUP_DRIVE p;
          let (_, s) = itcFileStreamOpen (stat_ok sp) v sp False; (_, b) = itcFileStreamOpen (stat_ok bp) v bp False;
              n = stream_size (fst s) in do {
            v \<leftarrow> (if n \<noteq> stream_size (fst b) then write_backup stat_ok malloc bp (fst s) None v
                  else do { (sbuf, s) \<leftarrow> malloc_read malloc s n;
                            (bbuf, b) \<leftarrow> malloc_read malloc b n;
                            sdata \<leftarrow> peek sbuf 0 n;
                            bdata \<leftarrow> peek bbuf 0 n;
                            if sdata \<noteq> bdata then write_backup stat_ok malloc bp (fst s) (Some sbuf) v else Some v });
            BackupSyncFile stat_ok malloc pub ps v } }"

subsection \<open>Starting the application\<close>

definition QUIT_RESET_FACTORY :: int where "QUIT_RESET_FACTORY = 2"

definition UpgradeInit ::
  "int \<Rightarrow> (int \<Rightarrow> block option) \<Rightarrow> (string \<Rightarrow> bool) \<Rightarrow> nat \<Rightarrow> string \<Rightarrow> volume \<Rightarrow> (int \<times> volume) option" where
  "UpgradeInit cfg malloc stat_ok PATH_MAX pub v =
     do { (ret, v) \<leftarrow> ugCheckFilesCrc cfg malloc stat_ok PATH_MAX v (pub @ '':'') (pub @ '':/ite_crc.dat'');
          Some (if ret \<noteq> 0 then QUIT_RESET_FACTORY else 0, v) }"

text \<open>
  \<open>SDL_main\<close> from \<open>retry_backup\<close> to the end of the check: after the second restore that does not help the
  application ends with \<open>QUIT_RESET_FACTORY\<close>.
\<close>

function boot_check ::
  "int \<Rightarrow> (int \<Rightarrow> block option) \<Rightarrow> (string \<Rightarrow> bool) \<Rightarrow> nat \<Rightarrow> string \<Rightarrow> string list \<Rightarrow> nat \<Rightarrow> volume \<Rightarrow> (int \<times> volume) option" where
  "boot_check cfg malloc stat_ok PATH_MAX pub lst restryCount v =
     do { (ret, v) \<leftarrow> UpgradeInit cfg malloc stat_ok PATH_MAX pub v;
          if ret \<noteq> 0
          then if Suc restryCount > 2 then Some (ret, v)
               else do { v \<leftarrow> BackupRestore stat_ok malloc pub lst v;
                         boot_check cfg malloc stat_ok PATH_MAX pub lst (Suc restryCount) v }
          else do { v \<leftarrow> BackupSyncFile stat_ok malloc pub lst v; Some (ret, v) } }"
  by pat_completeness auto
termination by (relation "measure (\<lambda>(cfg, malloc, stat_ok, PATH_MAX, pub, lst, restryCount, v). 2 - restryCount)") auto

declare boot_check.simps [simp del]

end
