(* ===== verification/Cb_BackupProps.thy ===== *)
theory Cb_BackupProps
  imports Cb_Backup
begin

text \<open>
  What the backup does to the files of the two drives: copying all files and copying the changed ones come to
  the same, and an application start that finds wrong checksums gets the files of the backup.
\<close>

definition on_drive :: "string \<Rightarrow> string \<Rightarrow> string" where
  "on_drive drive p = drive @ '':/'' @ p"

text \<open>The names of the drives differ and are of one length, so no path is on both.\<close>

definition two_names :: "string \<Rightarrow> string \<Rightarrow> bool" where
  "two_names a b \<longleftrightarrow> length a = length b \<and> a \<noteq> b"

lemma on_drive_eq [simp]: "on_drive d p = on_drive d q \<longleftrightarrow> p = q"
  by (simp add: on_drive_def)

lemma on_drive_differs [simp]:
  "two_names a b \<Longrightarrow> on_drive a p \<noteq> on_drive b q" "two_names a b \<Longrightarrow> on_drive b q \<noteq> on_drive a p"
  by (auto simp: on_drive_def two_names_def append_eq_append_conv)

lemma two_names_sym: "two_names a b \<Longrightarrow> two_names b a"
  by (auto simp: two_names_def)

text \<open>A file that can be read whole, and a place where a file can be written.\<close>

definition file_here :: "(int \<Rightarrow> block option) \<Rightarrow> volume \<Rightarrow> string \<Rightarrow> bool" where
  "file_here malloc v p \<longleftrightarrow> \<not> denied v p \<and> bad_from v p = None
     \<and> (\<exists>d. files v p = Some d \<and> length d < 2 ^ 31 \<and> malloc (int (length d)) \<noteq> None)"

definition place_here :: "volume \<Rightarrow> string \<Rightarrow> bool" where
  "place_here v p \<longleftrightarrow> \<not> denied v p \<and> sound_medium v p"

definition can_copy :: "(int \<Rightarrow> block option) \<Rightarrow> string \<Rightarrow> string \<Rightarrow> string list \<Rightarrow> volume \<Rightarrow> bool" where
  "can_copy malloc src dst lst v \<longleftrightarrow> two_names src dst \<and> malloc_sized malloc
     \<and> sum_list (map (\<lambda>p. length (file_data v (on_drive src p))) lst) \<le> capacity v
     \<and> (\<forall>p\<in>set lst. length (on_drive src p) < 256 \<and> file_here malloc v (on_drive src p) \<and> place_here v (on_drive dst p))"

text \<open>The volume after one file, and after all.\<close>

definition copy1 :: "string \<Rightarrow> string \<Rightarrow> string \<Rightarrow> volume \<Rightarrow> volume" where
  "copy1 src dst p v = v\<lparr>files := (files v)(on_drive dst p := files v (on_drive src p)),
     capacity := capacity v + length (file_data v (on_drive dst p)) - length (file_data v (on_drive src p))\<rparr>"

fun copied :: "string \<Rightarrow> string \<Rightarrow> string list \<Rightarrow> volume \<Rightarrow> volume" where
  "copied src dst [] v = v"
| "copied src dst (p # ps) v = copied src dst ps (copy1 src dst p v)"

lemma copy1_simps [simp]:
  "files (copy1 src dst p v) = (files v)(on_drive dst p := files v (on_drive src p))"
  "denied (copy1 src dst p v) = denied v" "bad_from (copy1 src dst p v) = bad_from v"
  "medium (copy1 src dst p v) = medium v"
  "sound_medium (copy1 src dst p v) = sound_medium v" "place_here (copy1 src dst p v) = place_here v"
  by (simp_all add: copy1_def sound_medium_def place_here_def fun_eq_iff)

lemma copy1_src:
  "two_names src dst \<Longrightarrow> file_data (copy1 src dst p v) (on_drive src q) = file_data v (on_drive src q)"
  "two_names src dst \<Longrightarrow> file_here malloc (copy1 src dst p v) (on_drive src q) = file_here malloc v (on_drive src q)"
  by (simp_all add: file_data_def file_here_def)

lemma can_copy_step:
  assumes "can_copy malloc src dst (p # ps) v"
  shows "can_copy malloc src dst ps (copy1 src dst p v)"
  using assms copy1_src unfolding can_copy_def by (auto simp: copy1_def place_here_def sound_medium_def)

text \<open>What the files are afterwards.\<close>

lemma copied_same [simp]:
  "denied (copied src dst lst v) = denied v" "bad_from (copied src dst lst v) = bad_from v"
  "medium (copied src dst lst v) = medium v" "sound_medium (copied src dst lst v) = sound_medium v"
  "place_here (copied src dst lst v) = place_here v"
  by (induction lst arbitrary: v) simp_all

lemma copied_other: "q \<notin> on_drive dst ` set lst \<Longrightarrow> files (copied src dst lst v) q = files v q"
  by (induction lst arbitrary: v) auto

lemma copied_src: "two_names src dst \<Longrightarrow> files (copied src dst lst v) (on_drive src q) = files v (on_drive src q)"
  by (rule copied_other) auto

lemma copied_dst:
  "two_names src dst \<Longrightarrow> p \<in> set lst \<Longrightarrow> files (copied src dst lst v) (on_drive dst p) = files v (on_drive src p)"
proof (induction lst arbitrary: v)
  case (Cons q ps)
  show ?case
  proof (cases "p \<in> set ps")
    case True
    then show ?thesis using Cons.IH [OF Cons.prems(1)] Cons.prems(1) by simp
  next
    case False
    then have "on_drive dst p \<notin> on_drive dst ` set ps" by auto
    then show ?thesis using Cons.prems False copied_other by auto
  qed
qed simp

subsection \<open>Copying all files\<close>

lemma drive_path_on: "length (on_drive d p) < 256 \<Longrightarrow> drive_path d p = Some (on_drive d p)"
  by (simp add: drive_path_def on_drive_def)

lemma malloc_read_all:
  assumes "malloc_sized malloc" "file_here malloc v p" "files v p = Some d"
  shows "malloc_read malloc (snd (itcFileStreamOpen True v p False)) (int (length d))
    = Some (d, \<lparr>eof = False, stream_size = int (length d), fs_file = Some \<lparr>fname = p, fpos = length d\<rparr>\<rparr>, v)"
proof -
  have d: "length d < 2 ^ 31" "\<not> denied v p" "bad_from v p = None" "malloc (int (length d)) \<noteq> None"
    using assms(2,3) by (auto simp: file_here_def)
  then obtain buf where buf: "malloc (int (length d)) = Some buf" by blast
  then have "int (length buf) = int (length d)" using assms(1) unfolding malloc_sized_def by (metis of_nat_0_le_iff)
  then show ?thesis
    using d buf assms(3)
    by (simp add: malloc_read_def itcFileStreamOpen_read FileStreamRead_def fread_def readable_def file_data_def size_t_nat
        poke_def Let_def)
qed

lemma FileSyncFile_step:
  assumes "can_copy malloc src dst (p # ps) v"
  shows "FileSyncFile (\<lambda>_. True) malloc src dst (p # ps) v = FileSyncFile (\<lambda>_. True) malloc src dst ps (copy1 src dst p v)"
proof -
  let ?s = "on_drive src p" and ?d = "on_drive dst p"
  have c: "malloc_sized malloc" "file_here malloc v ?s" "place_here v ?d" "two_names src dst"
    "length (file_data v ?s) \<le> capacity v" "length ?s < 256"
    using assms by (auto simp: can_copy_def)
  then obtain d where d: "files v ?s = Some d" "length d < 2 ^ 31" "\<not> denied v ?s" by (auto simp: file_here_def)
  have l: "length ?d < 256" using c(4,6) by (simp add: on_drive_def two_names_def)
  have fd: "file_data v ?s = d" using d(1) by (simp add: file_data_def)
  have size: "stream_size (fst (snd (itcFileStreamOpen True v ?s False))) = int (length d)"
    using itcFileStreamOpen_read [OF d(1,3)] by simp
  obtain g v' where w: "itcFileStreamOpen True v ?d True = (0, g, v')"
    "FileStreamWrite (g, v') d (int (length d)) = Some (int (length d), g\<lparr>fs_file := Some \<lparr>fname = ?d, fpos = length d\<rparr>\<rparr>,
       v\<lparr>files := (files v)(?d \<mapsto> d), capacity := capacity v + length (file_data v ?d) - length d\<rparr>)"
    using write_file_ok [of v ?d d d] c(3,5) fd d(2) by (auto simp: place_here_def)
  show ?thesis
    using malloc_read_all [OF c(1,2) d(1)] size w c(6) l
    by (simp add: drive_path_on Let_def split_beta itcFileStreamClose_def copy1_def d(1) fd)
qed

lemma FileSyncFile_copies:
  "can_copy malloc src dst lst v \<Longrightarrow> FileSyncFile (\<lambda>_. True) malloc src dst lst v = Some (copied src dst lst v)"
  by (induction lst arbitrary: v) (simp_all only: FileSyncFile_step can_copy_step FileSyncFile.simps(1) copied.simps)

subsection \<open>Copying what has changed\<close>

text \<open>Every file of the list is on both drives.\<close>

definition in_sync_ready :: "(int \<Rightarrow> block option) \<Rightarrow> string \<Rightarrow> string list \<Rightarrow> volume \<Rightarrow> bool" where
  "in_sync_ready malloc pub lst v \<longleftrightarrow> can_copy malloc pub BACKUP_DRIVE lst v
     \<and> (\<forall>p\<in>set lst. file_here malloc v (on_drive BACKUP_DRIVE p))"

definition sync1 :: "string \<Rightarrow> string \<Rightarrow> volume \<Rightarrow> volume" where
  "sync1 pub p v = (if files v (on_drive BACKUP_DRIVE p) = files v (on_drive pub p) then v else copy1 pub BACKUP_DRIVE p v)"

lemma files_sync1 [simp]: "files (sync1 pub p v) = files (copy1 pub BACKUP_DRIVE p v)"
  by (auto simp: sync1_def)

lemma files_copied_cong: "files v1 = files v2 \<Longrightarrow> files (copied src dst lst v1) = files (copied src dst lst v2)"
  by (induction lst arbitrary: v1 v2) simp_all

lemma write_backup_ok:
  assumes "two_names pub BACKUP_DRIVE" "malloc_sized malloc" "file_here malloc v (on_drive pub p)" "place_here v (on_drive BACKUP_DRIVE p)"
    "length (file_data v (on_drive pub p)) \<le> capacity v" "files v (on_drive pub p) = Some d"
    "src = None \<and> s = fst (snd (itcFileStreamOpen True v (on_drive pub p) False)) \<or> src = Some d \<and> stream_size s = int (length d)"
  shows "write_backup (\<lambda>_. True) malloc (on_drive BACKUP_DRIVE p) s src v = Some (copy1 pub BACKUP_DRIVE p v)"
proof -
  let ?s = "on_drive pub p" and ?d = "on_drive BACKUP_DRIVE p"
  let ?v = "v\<lparr>files := (files v)(?d := Some []), capacity := capacity v + length (file_data v ?d)\<rparr>"
  have d: "length d < 2 ^ 31" "\<not> denied v ?s" "\<not> denied v ?d" using assms(3,4,6) by (auto simp: file_here_def place_here_def)
  have fd: "file_data v ?s = d" using assms(6) by (simp add: file_data_def)
  obtain g v' where w: "itcFileStreamOpen True v ?d True = (0, g, v')"
    "FileStreamWrite (g, v') d (int (length d)) = Some (int (length d), g\<lparr>fs_file := Some \<lparr>fname = ?d, fpos = length d\<rparr>\<rparr>,
       v\<lparr>files := (files v)(?d \<mapsto> d), capacity := capacity v + length (file_data v ?d) - length d\<rparr>)"
    using write_file_ok [of v ?d d d] assms(4,5) fd d(1) by (auto simp: place_here_def)
  have v': "v' = ?v"
    using w(1) d(3) by (auto simp: itcFileStreamOpen_def fopen_wb_def Let_def)
  have same: "files ?v ?s = Some d" "file_here malloc ?v ?s"
    using assms(1,3,6) by (simp_all add: file_here_def)
  have "stream_size s = int (length d)"
    using assms(7) itcFileStreamOpen_read [OF assms(6) d(2)] by auto
  moreover have "(case src of Some buf \<Rightarrow> Some (buf, s, v') | None \<Rightarrow> malloc_read malloc (s, v') (int (length d)))
      = Some (d, s', v')" if "s' = (case src of Some _ \<Rightarrow> s | None \<Rightarrow> \<lparr>eof = False, stream_size = int (length d), fs_file = Some \<lparr>fname = ?s, fpos = length d\<rparr>\<rparr>)" for s'
    using assms(7) malloc_read_all [OF assms(2) same(2,1)] itcFileStreamOpen_read [OF same(1)] itcFileStreamOpen_read [OF assms(6) d(2)] d(2) that
    by (auto simp: v')
  ultimately show ?thesis
    using w by (simp add: write_backup_def Let_def itcFileStreamClose_def copy1_def assms(6) fd)
qed

lemma BackupSyncFile_step:
  assumes "in_sync_ready malloc pub (p # ps) v"
  shows "BackupSyncFile (\<lambda>_. True) malloc pub (p # ps) v = BackupSyncFile (\<lambda>_. True) malloc pub ps (sync1 pub p v)"
proof -
  let ?s = "on_drive pub p" and ?d = "on_drive BACKUP_DRIVE p"
  have c: "two_names pub BACKUP_DRIVE" "malloc_sized malloc" "file_here malloc v ?s" "place_here v ?d"
    "length (file_data v ?s) \<le> capacity v" "file_here malloc v ?d" "length ?s < 256"
    using assms by (auto simp: can_copy_def in_sync_ready_def)
  then obtain d e where d: "files v ?s = Some d" "\<not> denied v ?s" "files v ?d = Some e" "\<not> denied v ?d" by (auto simp: file_here_def)
  have l: "length ?d < 256" using c(1,7) by (simp add: on_drive_def two_names_def)
  note o = itcFileStreamOpen_read [OF d(1,2)] itcFileStreamOpen_read [OF d(3,4)]
  note m = malloc_read_all [OF c(2,3) d(1), unfolded o(1)] malloc_read_all [OF c(2,6) d(3), unfolded o(2)]
  note w = write_backup_ok [OF c(1-5) d(1)]
  have "write_backup (\<lambda>_. True) malloc ?d (fst (snd (itcFileStreamOpen True v ?s False))) None v = Some (copy1 pub BACKUP_DRIVE p v)"
    by (rule w) simp
  moreover have "write_backup (\<lambda>_. True) malloc ?d \<lparr>eof = False, stream_size = int (length d), fs_file = Some \<lparr>fname = ?s, fpos = length d\<rparr>\<rparr> (Some d) v
      = Some (copy1 pub BACKUP_DRIVE p v)"
    by (rule w) simp
  moreover have "length d \<noteq> length e \<Longrightarrow> e \<noteq> d" by auto
  ultimately show ?thesis
    using m c(7) l d(1,3) by (cases "length d = length e") (simp_all add: drive_path_on o Let_def sync1_def peek_def)
qed

lemma in_sync_ready_step:
  assumes "in_sync_ready malloc pub (p # ps) v"
  shows "in_sync_ready malloc pub ps (sync1 pub p v)"
proof -
  have c: "can_copy malloc pub BACKUP_DRIVE (p # ps) v" "two_names pub BACKUP_DRIVE" "file_here malloc v (on_drive pub p)"
    "\<forall>q\<in>set (p # ps). file_here malloc v (on_drive BACKUP_DRIVE q)"
    using assms by (auto simp: in_sync_ready_def can_copy_def)
  have "file_here malloc (copy1 pub BACKUP_DRIVE p v) (on_drive BACKUP_DRIVE q)" if "q \<in> set ps" for q
    using that c(2-4) by (auto simp: file_here_def)
  then show ?thesis
    using can_copy_step [OF c(1)] c(1,4) by (auto simp: in_sync_ready_def sync1_def can_copy_def)
qed

lemma BackupSyncFile_files:
  "in_sync_ready malloc pub lst v \<Longrightarrow> \<exists>v'. BackupSyncFile (\<lambda>_. True) malloc pub lst v = Some v'
     \<and> files v' = files (copied pub BACKUP_DRIVE lst v)
     \<and> ((\<forall>p\<in>set lst. files v (on_drive BACKUP_DRIVE p) = files v (on_drive pub p)) \<longrightarrow> v' = v)"
proof (induction lst arbitrary: v)
  case (Cons p ps)
  obtain v' where v': "BackupSyncFile (\<lambda>_. True) malloc pub ps (sync1 pub p v) = Some v'"
    "files v' = files (copied pub BACKUP_DRIVE ps (sync1 pub p v))"
    "(\<forall>q\<in>set ps. files (sync1 pub p v) (on_drive BACKUP_DRIVE q) = files (sync1 pub p v) (on_drive pub q)) \<longrightarrow> v' = sync1 pub p v"
    using Cons.IH [OF in_sync_ready_step [OF Cons.prems]] by blast
  have "files v' = files (copied pub BACKUP_DRIVE (p # ps) v)"
    using v'(2) files_copied_cong [OF files_sync1] by simp
  moreover have "v' = v" if "\<forall>q\<in>set (p # ps). files v (on_drive BACKUP_DRIVE q) = files v (on_drive pub q)"
    using that v'(3) by (simp add: sync1_def)
  ultimately show ?case using v'(1) unfolding BackupSyncFile_step [OF Cons.prems] by blast
qed simp

subsection \<open>Starting the application\<close>

text \<open>
  The backup has the checksum file with the entries \<open>es\<close>, and each entry is of a file of the list whose copy in
  the backup has this checksum.
\<close>

definition good_backup ::
  "int \<Rightarrow> (int \<Rightarrow> block option) \<Rightarrow> nat \<Rightarrow> string \<Rightarrow> string list \<Rightarrow> crc_entry list \<Rightarrow> volume \<Rightarrow> bool" where
  "good_backup cfg malloc PATH_MAX pub lst es v \<longleftrightarrow>
     ''ite_crc.dat'' \<in> set lst \<and> files v (on_drive BACKUP_DRIVE ''ite_crc.dat'') = Some (crc_file es)
     \<and> (\<forall>e\<in>set es. \<exists>p\<in>set lst. \<exists>d. fst e = CHR ''/'' # p \<and> good_name (fst e) \<and> length pub + 2 + length p < PATH_MAX
          \<and> files v (on_drive BACKUP_DRIVE p) = Some d \<and> crc_buffer_ok cfg malloc None (length d) \<and> snd e = crc_of d)"

lemma restored_passes:
  assumes "can_copy malloc BACKUP_DRIVE pub lst v" "good_backup cfg malloc PATH_MAX pub lst es v"
  shows "UpgradeInit cfg malloc (\<lambda>_. True) PATH_MAX pub (copied BACKUP_DRIVE pub lst v) = Some (0, copied BACKUP_DRIVE pub lst v)"
proof -
  let ?v = "copied BACKUP_DRIVE pub lst v"
  have two: "two_names BACKUP_DRIVE pub" "malloc_sized malloc" using assms(1) by (auto simp: can_copy_def)
  have there: "\<not> denied ?v (on_drive pub p) \<and> bad_from ?v (on_drive pub p) = None \<and> files ?v (on_drive pub p) = files v (on_drive BACKUP_DRIVE p)
      \<and> (\<exists>d. files v (on_drive BACKUP_DRIVE p) = Some d \<and> length d < 2 ^ 31 \<and> malloc (int (length d)) \<noteq> None)"
    if "p \<in> set lst" for p
    using assms(1) that copied_dst [OF two(1) that] by (auto simp: can_copy_def place_here_def file_here_def sound_medium_def)
  note g = assms(2) [unfolded good_backup_def]
  define f where "f = on_drive pub ''ite_crc.dat''"
  have b: "files v (on_drive BACKUP_DRIVE ''ite_crc.dat'') = Some (crc_file es)" using g by blast
  have t: "\<not> denied ?v f \<and> bad_from ?v f = None \<and> files ?v f = Some (crc_file es)
      \<and> length (crc_file es) < 2 ^ 31 \<and> malloc (int (length (crc_file es))) \<noteq> None"
    using there [OF conjunct1 [OF g]] unfolding b f_def [symmetric] option.inject by blast
  note crc = t [THEN conjunct2, THEN conjunct2, THEN conjunct1] t [THEN conjunct1] t [THEN conjunct2, THEN conjunct1]
    t [THEN conjunct2, THEN conjunct2, THEN conjunct2, THEN conjunct1] t [THEN conjunct2, THEN conjunct2, THEN conjunct2, THEN conjunct2]
  have e: "entry_ok cfg malloc PATH_MAX ?v (pub @ '':'') e \<and> entry_matches ?v (pub @ '':'') e" if ein: "e \<in> set es" for e
  proof -
    obtain p d where p: "p \<in> set lst" "fst e = CHR ''/'' # p" "good_name (fst e)" "length pub + 2 + length p < PATH_MAX"
      "files v (on_drive BACKUP_DRIVE p) = Some d" "crc_buffer_ok cfg malloc None (length d)" "snd e = crc_of d"
      using g ein by blast
    have path: "(pub @ '':'') @ fst e = on_drive pub p" using p(2) by (simp add: on_drive_def)
    note th = there [OF p(1), unfolded p(5) option.inject]
    have "crc_readable cfg malloc ?v (on_drive pub p) d" using th p(6) unfolding crc_readable_def by blast
    moreover have "file_data ?v (on_drive pub p) = d"
      using th [THEN conjunct2, THEN conjunct2, THEN conjunct1] by (simp only: file_data_def option.case)
    ultimately show ?thesis using p(2-4,7) unfolding entry_ok_def entry_matches_def path by (simp, blast)
  qed
  have path: "f = pub @ '':/ite_crc.dat''" by (simp add: f_def on_drive_def)
  have all: "\<forall>e\<in>set es. entry_ok cfg malloc PATH_MAX ?v (pub @ '':'') e" "\<forall>e\<in>set es. entry_matches ?v (pub @ '':'') e"
    using e by blast+
  have "ugCheckFilesCrc cfg malloc (\<lambda>_. True) PATH_MAX ?v (pub @ '':'') (pub @ '':/ite_crc.dat'') = Some (0, ?v)"
    using ugCheckFilesCrc_entries [OF crc(1-4) two(2) crc(5) all(1)] all(2) unfolding path by (simp only: if_P)
  then show ?thesis by (simp add: UpgradeInit_def)
qed

lemma boot_check_restores:
  assumes "ugCheckFilesCrc cfg malloc (\<lambda>_. True) PATH_MAX v (pub @ '':'') (pub @ '':/ite_crc.dat'') = Some (ret, v)" "ret \<noteq> 0"
    "can_copy malloc BACKUP_DRIVE pub lst v" "can_copy malloc pub BACKUP_DRIVE lst (copied BACKUP_DRIVE pub lst v)"
    "good_backup cfg malloc PATH_MAX pub lst es v"
  shows "boot_check cfg malloc (\<lambda>_. True) PATH_MAX pub lst 0 v = Some (0, copied BACKUP_DRIVE pub lst v)"
proof -
  let ?v = "copied BACKUP_DRIVE pub lst v"
  have two: "two_names BACKUP_DRIVE pub" using assms(3) by (simp add: can_copy_def)
  have same: "\<forall>p\<in>set lst. files ?v (on_drive BACKUP_DRIVE p) = files ?v (on_drive pub p)"
    using copied_dst [OF two] copied_src [OF two] by simp
  have "in_sync_ready malloc pub lst ?v"
    using assms(3,4) copied_src [OF two] by (auto simp: in_sync_ready_def can_copy_def file_here_def)
  then have "BackupSyncFile (\<lambda>_. True) malloc pub lst ?v = Some ?v"
    using BackupSyncFile_files same by metis
  then show ?thesis
    using assms(1,2) FileSyncFile_copies [OF assms(3)] restored_passes [OF assms(3,5)]
    by (simp add: boot_check.simps [of _ _ _ _ _ _ 0] boot_check.simps [of _ _ _ _ _ _ "Suc 0"] UpgradeInit_def
        QUIT_RESET_FACTORY_def BackupRestore_def)
qed

text \<open>A backup that does not help: the application gives up after two restores.\<close>

lemma boot_check_gives_up:
  assumes "\<And>u. u = v \<or> u = copied BACKUP_DRIVE pub lst v \<or> u = copied BACKUP_DRIVE pub lst (copied BACKUP_DRIVE pub lst v) \<Longrightarrow>
      \<exists>ret. ret \<noteq> 0 \<and> ugCheckFilesCrc cfg malloc (\<lambda>_. True) PATH_MAX u (pub @ '':'') (pub @ '':/ite_crc.dat'') = Some (ret, u)"
    "can_copy malloc BACKUP_DRIVE pub lst v" "can_copy malloc BACKUP_DRIVE pub lst (copied BACKUP_DRIVE pub lst v)"
  shows "boot_check cfg malloc (\<lambda>_. True) PATH_MAX pub lst 0 v
    = Some (QUIT_RESET_FACTORY, copied BACKUP_DRIVE pub lst (copied BACKUP_DRIVE pub lst v))"
  using assms(1) [of v] assms(1) [of "copied BACKUP_DRIVE pub lst v"] assms(1) [of "copied BACKUP_DRIVE pub lst (copied BACKUP_DRIVE pub lst v)"]
    FileSyncFile_copies [OF assms(2)] FileSyncFile_copies [OF assms(3)]
  by (auto simp: boot_check.simps [of _ _ _ _ _ _ 0] boot_check.simps [of _ _ _ _ _ _ "Suc 0"]
      boot_check.simps [of _ _ _ _ _ _ "Suc (Suc 0)"] UpgradeInit_def QUIT_RESET_FACTORY_def BackupRestore_def)

end
