(* ===== verification/Cb_Config.thy ===== *)
theory Cb_Config
  imports Cb_BackupProps
begin

text \<open>
  Saving the settings, \<open>project/ctrlboard/config.c\<close>: every save starts a task that writes the file, unless one is
  running, which is meant to write once more then; the task also sets the checksum of the file and copies the
  files to the backup drive. \<open>dump\<close> is what \<open>iniparser_dump_ini\<close> writes for the settings. Writing the file and
  what is done under the mutex are one step each.
\<close>

definition ini_path :: "string \<Rightarrow> string" where
  "ini_path pub = pub @ '':/ctrlboard.ini''"

text \<open>The part of \<open>ConfigSavePublic\<close> that writes the file.\<close>

definition ConfigSavePublic :: "('c \<Rightarrow> block) \<Rightarrow> string \<Rightarrow> 'c \<Rightarrow> volume \<Rightarrow> volume" where
  "ConfigSavePublic dump pub c v =
     (let (f, v) = fopen_wb v (ini_path pub)
      in case f of None \<Rightarrow> v | Some f \<Rightarrow> let (_, _, v) = fwrite v f (dump c) in v)"

text \<open>\<open>UpgradeSetFileCrc\<close> of \<open>upgrade.c\<close>; the path behind the drive and its colon is the name of the entry.\<close>

definition UpgradeSetFileCrc ::
  "int \<Rightarrow> (int \<Rightarrow> block option) \<Rightarrow> (string \<Rightarrow> bool) \<Rightarrow> nat \<Rightarrow> string \<Rightarrow> string \<Rightarrow> volume \<Rightarrow> volume option" where
  "UpgradeSetFileCrc cfg malloc stat_ok PATH_MAX pub filepath v =
     (if take 1 filepath = take 1 pub
      then do { (_, v) \<leftarrow> ugSetFileCrc cfg malloc stat_ok PATH_MAX v (drop 2 filepath) (pub @ '':'') (pub @ '':/ite_crc.dat'');
                Some v }
      else Some v)"

text \<open>What the task does under the mutex.\<close>

definition config_commit ::
  "int \<Rightarrow> (int \<Rightarrow> block option) \<Rightarrow> (string \<Rightarrow> bool) \<Rightarrow> nat \<Rightarrow> string \<Rightarrow> string list \<Rightarrow> volume \<Rightarrow> volume option" where
  "config_commit cfg malloc stat_ok PATH_MAX pub lst v =
     do { v \<leftarrow> UpgradeSetFileCrc cfg malloc stat_ok PATH_MAX pub (ini_path pub) v;
          BackupSave stat_ok malloc pub lst v }"

definition ConfigUpdateCrc ::
  "int \<Rightarrow> (int \<Rightarrow> block option) \<Rightarrow> (string \<Rightarrow> bool) \<Rightarrow> nat \<Rightarrow> string \<Rightarrow> string option \<Rightarrow> volume \<Rightarrow> volume option" where
  "ConfigUpdateCrc cfg malloc stat_ok PATH_MAX pub filepath v =
     UpgradeSetFileCrc cfg malloc stat_ok PATH_MAX pub (case filepath of Some p \<Rightarrow> p | None \<Rightarrow> ini_path pub) v"

subsection \<open>The tasks\<close>

text \<open>Where a save task is; \<open>savingCount\<close> is a local variable. The counter of the saves is a \<open>bool\<close>.\<close>

datatype save_task = T_begin | T_count | T_write bool | T_commit bool | T_check bool

record 'c config =
  theConfig :: 'c
  cfgIsSaving :: bool
  cfgSavingCount :: bool
  cfgTasks :: "save_task list"
  cfgDisk :: volume

text \<open>\<open>cfgSavingCount++\<close> makes a \<open>bool\<close> true, whatever it was.\<close>

definition ConfigSave :: "'c config \<Rightarrow> 'c config" where
  "ConfigSave s =
     (let s = s\<lparr>cfgSavingCount := True\<rparr>
      in if cfgIsSaving s then s else s\<lparr>cfgTasks := cfgTasks s @ [T_begin]\<rparr>)"

definition ConfigSaveTask_step ::
  "('c \<Rightarrow> block) \<Rightarrow> string \<Rightarrow> (volume \<Rightarrow> volume option) \<Rightarrow> nat \<Rightarrow> 'c config \<Rightarrow> 'c config option" where
  "ConfigSaveTask_step dump pub commit i s =
     (if i < length (cfgTasks s)
      then let goto = (\<lambda>t s. s\<lparr>cfgTasks := (cfgTasks s)[i := t]\<rparr>)
        in case cfgTasks s ! i of
             T_begin \<Rightarrow> Some (goto T_count (s\<lparr>cfgIsSaving := True\<rparr>))
           | T_count \<Rightarrow> Some (goto (T_write (cfgSavingCount s)) s)
           | T_write n \<Rightarrow> Some (goto (T_commit n) (s\<lparr>cfgDisk := ConfigSavePublic dump pub (theConfig s) (cfgDisk s)\<rparr>))
           | T_commit n \<Rightarrow> do { v \<leftarrow> commit (cfgDisk s); Some (goto (T_check n) (s\<lparr>cfgDisk := v\<rparr>)) }
           | T_check n \<Rightarrow>
               Some (if n \<noteq> cfgSavingCount s then goto T_count s
                     else s\<lparr>cfgIsSaving := False, cfgTasks := take i (cfgTasks s) @ drop (Suc i) (cfgTasks s)\<rparr>)
      else Some s)"

text \<open>The application and the tasks in any order.\<close>

inductive config_reach ::
  "('c \<Rightarrow> block) \<Rightarrow> string \<Rightarrow> (volume \<Rightarrow> volume option) \<Rightarrow> 'c config \<Rightarrow> 'c config \<Rightarrow> bool"
  for dump pub commit s0 where
  start: "config_reach dump pub commit s0 s0"
| change: "config_reach dump pub commit s0 s \<Longrightarrow> config_reach dump pub commit s0 (s\<lparr>theConfig := c\<rparr>)"
| save: "config_reach dump pub commit s0 s \<Longrightarrow> config_reach dump pub commit s0 (ConfigSave s)"
| step: "config_reach dump pub commit s0 s \<Longrightarrow> ConfigSaveTask_step dump pub commit i s = Some s' \<Longrightarrow> config_reach dump pub commit s0 s'"

subsection \<open>A task writes once\<close>

text \<open>Since the counter is true from the first save on, no task finds it changed.\<close>

fun counted :: "save_task \<Rightarrow> bool" where
  "counted (T_write n) = n"
| "counted (T_commit n) = n"
| "counted (T_check n) = n"
| "counted _ = True"

definition config_idle :: "'c config \<Rightarrow> bool" where
  "config_idle s \<longleftrightarrow> \<not> cfgIsSaving s \<and> cfgTasks s = []"

lemma config_reach_counted:
  assumes "config_reach dump pub commit s0 s" "config_idle s0"
  shows "(cfgTasks s \<noteq> [] \<longrightarrow> cfgSavingCount s) \<and> (\<forall>t\<in>set (cfgTasks s). counted t)"
  using assms
proof (induction rule: config_reach.induct)
  case start
  then show ?case by (simp add: config_idle_def)
next
  case (change s c)
  then show ?case by simp
next
  case (save s)
  then show ?case by (auto simp: ConfigSave_def Let_def)
next
  case (step s i s')
  show ?case
  proof (cases "i < length (cfgTasks s)")
    case True
    then have "counted (cfgTasks s ! i)" "cfgSavingCount s" using step.IH [OF step.prems] by auto
    then show ?thesis
      using step.hyps(2) step.IH [OF step.prems] True
      by (cases "cfgTasks s ! i")
        (auto simp: ConfigSaveTask_step_def Let_def bind_eq_Some_conv dest!: set_update_subset_insert [THEN subsetD] in_set_takeD in_set_dropD)
  next
    case False
    then show ?thesis using step.hyps(2) step.IH [OF step.prems] by (simp add: ConfigSaveTask_step_def)
  qed
qed

lemma config_check_ends:
  assumes "config_reach dump pub commit s0 s" "config_idle s0" "i < length (cfgTasks s)" "cfgTasks s ! i = T_check n"
  shows "ConfigSaveTask_step dump pub commit i s
    = Some (s\<lparr>cfgIsSaving := False, cfgTasks := take i (cfgTasks s) @ drop (Suc i) (cfgTasks s)\<rparr>)"
proof -
  have "counted (cfgTasks s ! i)" "cfgSavingCount s"
    using config_reach_counted [OF assms(1,2)] assms(3) by auto
  then show ?thesis using assms(3,4) by (simp add: ConfigSaveTask_step_def Let_def)
qed

subsection \<open>What a save leaves on the drives\<close>

text \<open>
  A public drive in order: the files of the list are there and can be written on both drives, and the checksum
  file has an entry for none but them; the checksums are right, except perhaps the one of the settings.
\<close>

definition config_disk ::
  "int \<Rightarrow> (int \<Rightarrow> block option) \<Rightarrow> nat \<Rightarrow> string \<Rightarrow> string list \<Rightarrow> crc_entry list \<Rightarrow> volume \<Rightarrow> bool" where
  "config_disk cfg malloc PATH_MAX pub lst es v \<longleftrightarrow>
     two_names pub BACKUP_DRIVE \<and> malloc_sized malloc \<and> ''ctrlboard.ini'' \<in> set lst \<and> ''ite_crc.dat'' \<in> set lst
     \<and> (\<forall>p\<in>set lst. length (on_drive pub p) < 256 \<and> place_here v (on_drive pub p) \<and> place_here v (on_drive BACKUP_DRIVE p)
          \<and> file_here malloc v (on_drive pub p))
     \<and> files v (on_drive pub ''ite_crc.dat'') = Some (crc_file es) \<and> distinct (map fst es)
     \<and> (\<forall>e\<in>set es. \<exists>p\<in>set lst. fst e = CHR ''/'' # p \<and> p \<noteq> ''ite_crc.dat'' \<and> good_name (fst e)
          \<and> length pub + 2 + length p < PATH_MAX \<and> crc_buffer_ok cfg malloc None (length (file_data v (on_drive pub p)))
          \<and> (p \<noteq> ''ctrlboard.ini'' \<longrightarrow> snd e = crc_of (file_data v (on_drive pub p))))"

definition put_file :: "volume \<Rightarrow> string \<Rightarrow> block \<Rightarrow> volume" where
  "put_file v p d = v\<lparr>files := (files v)(p \<mapsto> d), capacity := capacity v + length (file_data v p) - length d\<rparr>"

lemma put_file_simps [simp]:
  "files (put_file v p d) = (files v)(p \<mapsto> d)" "denied (put_file v p d) = denied v" "bad_from (put_file v p d) = bad_from v"
  "medium (put_file v p d) = medium v" "sound_medium (put_file v p d) = sound_medium v" "place_here (put_file v p d) = place_here v"
  "capacity (put_file v p d) = capacity v + length (file_data v p) - length d"
  "file_data (put_file v p d) q = (if q = p then d else file_data v q)"
  by (simp_all add: put_file_def sound_medium_def place_here_def fun_eq_iff file_data_def)

lemma ConfigSavePublic_writes:
  assumes "place_here v (ini_path pub)" "length (dump c) \<le> capacity v + length (file_data v (ini_path pub))"
  shows "ConfigSavePublic dump pub c v = put_file v (ini_path pub) (dump c)"
proof -
  let ?v = "v\<lparr>files := (files v)(ini_path pub := Some []), capacity := capacity v + length (file_data v (ini_path pub))\<rparr>"
  have "stored ?v (ini_path pub) 0 (dump c) = dump c"
    using assms(1) by (intro stored_sound) (simp add: place_here_def sound_medium_def)
  moreover have "file_data ?v (ini_path pub) = []" by (simp add: file_data_def)
  ultimately show ?thesis
    using assms by (simp add: ConfigSavePublic_def fopen_wb_def fwrite_def place_here_def put_file_def Let_def min_absorb1)
qed

lemma set_entry_set: "distinct (map fst es) \<Longrightarrow> set (set_entry f c es) = insert (f, c) {e \<in> set es. fst e \<noteq> f}"
  by (induction f c es rule: set_entry.induct) (auto simp: image_iff)

lemma set_entry_distinct: "distinct (map fst es) \<Longrightarrow> distinct (map fst (set_entry f c es))"
proof (induction f c es rule: set_entry.induct)
  case (2 f c e es)
  then show ?case using set_entry_set [of es f c] by (auto simp: image_iff)
qed simp

lemma config_diskD:
  assumes "config_disk cfg malloc PATH_MAX pub lst es v"
  shows "two_names pub BACKUP_DRIVE" "malloc_sized malloc" "''ctrlboard.ini'' \<in> set lst" "''ite_crc.dat'' \<in> set lst"
    "p \<in> set lst \<Longrightarrow> length (on_drive pub p) < 256 \<and> place_here v (on_drive pub p) \<and> place_here v (on_drive BACKUP_DRIVE p)
       \<and> file_here malloc v (on_drive pub p)"
    "files v (on_drive pub ''ite_crc.dat'') = Some (crc_file es)" "distinct (map fst es)"
    "e \<in> set es \<Longrightarrow> \<exists>p\<in>set lst. fst e = CHR ''/'' # p \<and> p \<noteq> ''ite_crc.dat'' \<and> good_name (fst e)
          \<and> length pub + 2 + length p < PATH_MAX \<and> crc_buffer_ok cfg malloc None (length (file_data v (on_drive pub p)))
          \<and> (p \<noteq> ''ctrlboard.ini'' \<longrightarrow> snd e = crc_of (file_data v (on_drive pub p)))"
  using assms unfolding config_disk_def by blast+

lemma entry_path: "(pub @ '':'') @ CHR ''/'' # p = on_drive pub p"
  by (simp add: on_drive_def)

lemma crc_path: "pub @ '':/ite_crc.dat'' = on_drive pub ''ite_crc.dat''" "ini_path pub = on_drive pub ''ctrlboard.ini''"
  by (simp_all add: on_drive_def ini_path_def)

lemma file_here_readable:
  "file_here malloc v p \<Longrightarrow> crc_buffer_ok cfg malloc None (length (file_data v p)) \<Longrightarrow> crc_readable cfg malloc v p (file_data v p)"
  by (auto simp: file_here_def crc_readable_def file_data_def)

text \<open>A drive in order passes the check at the start when the checksum of the settings is right, too.\<close>

lemma config_disk_passes:
  assumes "config_disk cfg malloc PATH_MAX pub lst es v"
    "\<forall>e\<in>set es. fst e = ''/ctrlboard.ini'' \<longrightarrow> snd e = crc_of (file_data v (on_drive pub ''ctrlboard.ini''))"
  shows "UpgradeInit cfg malloc (\<lambda>_. True) PATH_MAX pub v = Some (0, v)"
proof -
  note c = config_diskD [OF assms(1)]
  have crc: "\<not> denied v (on_drive pub ''ite_crc.dat'')" "bad_from v (on_drive pub ''ite_crc.dat'') = None"
    "length (crc_file es) < 2 ^ 31" "malloc (int (length (crc_file es))) \<noteq> None"
    using c(5) [OF c(4)] c(6) by (auto simp: file_here_def)
  have e: "entry_ok cfg malloc PATH_MAX v (pub @ '':'') e \<and> entry_matches v (pub @ '':'') e" if ein: "e \<in> set es" for e
  proof -
    obtain p where p: "p \<in> set lst" "fst e = CHR ''/'' # p" "good_name (fst e)" "length pub + 2 + length p < PATH_MAX"
      "crc_buffer_ok cfg malloc None (length (file_data v (on_drive pub p)))"
      "p \<noteq> ''ctrlboard.ini'' \<longrightarrow> snd e = crc_of (file_data v (on_drive pub p))"
      using c(8) [OF ein] by blast
    have path: "(pub @ '':'') @ fst e = on_drive pub p" unfolding p(2) by (rule entry_path)
    have "crc_readable cfg malloc v (on_drive pub p) (file_data v (on_drive pub p))"
      using file_here_readable c(5) [OF p(1)] p(5) by blast
    moreover have "snd e = crc_of (file_data v (on_drive pub p))" using p(2,6) assms(2) ein by auto
    ultimately show ?thesis using p(2-4) unfolding entry_ok_def entry_matches_def path by (simp, blast)
  qed
  then have all: "\<forall>e\<in>set es. entry_ok cfg malloc PATH_MAX v (pub @ '':'') e" "\<forall>e\<in>set es. entry_matches v (pub @ '':'') e"
    by blast+
  have "ugCheckFilesCrc cfg malloc (\<lambda>_. True) PATH_MAX v (pub @ '':'') (pub @ '':/ite_crc.dat'') = Some (0, v)"
    using ugCheckFilesCrc_entries [OF c(6) crc(1-3) c(2) crc(4) all(1)] all(2) unfolding crc_path by (simp only: if_P)
  then show ?thesis by (simp add: UpgradeInit_def)
qed

lemma config_disk_commit:
  assumes d_def: "d = file_data v (on_drive pub ''ctrlboard.ini'')"
    and new_def: "new = crc_file (set_entry ''/ctrlboard.ini'' (crc_of d) es)"
    and v2_def: "v2 = put_file v (on_drive pub ''ite_crc.dat'') new"
    and "config_disk cfg malloc PATH_MAX pub lst es v" "crc_buffer_ok cfg malloc None (length d)" "length pub + 15 < PATH_MAX"
    "malloc (int (length (crc_file es)) + 19) \<noteq> None" "length new < 2 ^ 31" "malloc (int (length new)) \<noteq> None"
    "length new + sum_list (map (\<lambda>p. length (file_data v2 (on_drive pub p))) lst) \<le> capacity v"
  shows "config_commit cfg malloc (\<lambda>_. True) PATH_MAX pub lst v = Some (copied pub BACKUP_DRIVE lst v2)"
    "config_disk cfg malloc PATH_MAX pub lst (set_entry ''/ctrlboard.ini'' (crc_of d) es) (copied pub BACKUP_DRIVE lst v2)"
proof -
  note c = config_diskD [OF assms(4)]
  let ?i = "on_drive pub ''ctrlboard.ini''" and ?c = "on_drive pub ''ite_crc.dat''"
  have len: "length pub = 1" using c(1) by (simp add: two_names_def BACKUP_DRIVE_def)
  have crc: "\<not> denied v ?c" "sound_medium v ?c" "length (crc_file es) < 2 ^ 31"
    using c(5) [OF c(4)] c(6) by (auto simp: file_here_def place_here_def)
  have names: "\<forall>e\<in>set es. good_name (fst e)" using c(8) by blast
  have rd: "crc_readable cfg malloc v ((pub @ '':'') @ ''/ctrlboard.ini'') d"
    using file_here_readable c(5) [OF c(3)] assms(5) unfolding d_def entry_path by blast
  have m: "malloc (int (length (crc_file es)) + (int (length ''/ctrlboard.ini'') + 1 + 4)) \<noteq> None" using assms(7) by simp
  have "ugSetFileCrc cfg malloc (\<lambda>_. True) PATH_MAX v ''/ctrlboard.ini'' (pub @ '':'') ?c = Some (0, v2)"
    using ugSetFileCrc_sets [OF c(6) crc names rd _ c(2) m, of PATH_MAX new] assms(6,8,10) len
    by (simp add: new_def v2_def put_file_def file_data_def c(6))
  moreover have "drop 2 (ini_path pub) = ''/ctrlboard.ini''" "take 1 (ini_path pub) = take 1 pub"
    using len by (auto simp: ini_path_def length_Suc_conv)
  ultimately have set: "UpgradeSetFileCrc cfg malloc (\<lambda>_. True) PATH_MAX pub (ini_path pub) v = Some v2"
    by (simp add: UpgradeSetFileCrc_def crc_path(1))
  have here: "file_here malloc v2 (on_drive pub p)" if "p \<in> set lst" for p
    using c(5) [OF that] assms(8,9) by (auto simp: file_here_def v2_def)
  have room: "sum_list (map (\<lambda>p. length (file_data v2 (on_drive pub p))) lst) \<le> capacity v2"
    using assms(10) by (simp add: v2_def)
  have place: "place_here v2 = place_here v" by (simp add: v2_def)
  have "can_copy malloc pub BACKUP_DRIVE lst v2" using c(1,2,5) here room unfolding can_copy_def place by blast
  then show "config_commit cfg malloc (\<lambda>_. True) PATH_MAX pub lst v = Some (copied pub BACKUP_DRIVE lst v2)"
    using set FileSyncFile_copies by (simp add: config_commit_def BackupSave_def)
  let ?v = "copied pub BACKUP_DRIVE lst v2" and ?es = "set_entry ''/ctrlboard.ini'' (crc_of d) es"
  have same: "files ?v (on_drive pub p) = files v2 (on_drive pub p)" for p using copied_src [OF c(1)] .
  then have fd: "file_data ?v (on_drive pub p) = (if p = ''ite_crc.dat'' then new else file_data v (on_drive pub p))" for p
    by (simp add: file_data_def v2_def)
  have fh: "file_here malloc ?v (on_drive pub p)" if "p \<in> set lst" for p
    using here [OF that] same by (auto simp: file_here_def)
  have entries: "\<exists>p\<in>set lst. fst e = CHR ''/'' # p \<and> p \<noteq> ''ite_crc.dat'' \<and> good_name (fst e)
          \<and> length pub + 2 + length p < PATH_MAX \<and> crc_buffer_ok cfg malloc None (length (file_data ?v (on_drive pub p)))
          \<and> (p \<noteq> ''ctrlboard.ini'' \<longrightarrow> snd e = crc_of (file_data ?v (on_drive pub p)))" if e: "e \<in> set ?es" for e
  proof (cases "e = (''/ctrlboard.ini'', crc_of d)")
    case True
    have "good_name ''/ctrlboard.ini''" by (simp add: good_name_def byte_of_char_def)
    then show ?thesis using True c(3) assms(5,6) fd by (intro bexI [of _ "''ctrlboard.ini''"]) (simp_all add: d_def)
  next
    case False
    then have "e \<in> set es" using e set_entry_set [OF c(7)] by blast
    then obtain p where p: "p \<in> set lst" "fst e = CHR ''/'' # p" "p \<noteq> ''ite_crc.dat''" "good_name (fst e)" "length pub + 2 + length p < PATH_MAX"
      "crc_buffer_ok cfg malloc None (length (file_data v (on_drive pub p)))"
      "p \<noteq> ''ctrlboard.ini'' \<longrightarrow> snd e = crc_of (file_data v (on_drive pub p))"
      using c(8) [of e] by blast
    moreover have "file_data ?v (on_drive pub p) = file_data v (on_drive pub p)" using fd p(3) by simp
    ultimately show ?thesis by (intro bexI [of _ p]) simp_all
  qed
  show "config_disk cfg malloc PATH_MAX pub lst ?es ?v"
    unfolding config_disk_def
  proof (intro conjI ballI)
    show "files ?v ?c = Some (crc_file ?es)" using same by (simp add: v2_def new_def)
    show "place_here ?v (on_drive pub p)" "place_here ?v (on_drive BACKUP_DRIVE p)" "length (on_drive pub p) < 256" if "p \<in> set lst" for p
      using c(5) [OF that] place by simp_all
  qed (rule c(1-4) fh entries set_entry_distinct [OF c(7)]; assumption?)+
qed

text \<open>Writing the settings keeps the drive in order.\<close>

lemma config_disk_write:
  assumes "config_disk cfg malloc PATH_MAX pub lst es v" "length d < 2 ^ 31" "malloc (int (length d)) \<noteq> None"
    "crc_buffer_ok cfg malloc None (length d)"
  shows "config_disk cfg malloc PATH_MAX pub lst es (put_file v (on_drive pub ''ctrlboard.ini'') d)"
proof -
  note c = config_diskD [OF assms(1)]
  let ?v = "put_file v (on_drive pub ''ctrlboard.ini'') d"
  have here: "file_here malloc ?v (on_drive pub p)" if "p \<in> set lst" for p
    using c(5) [OF that] assms(2,3) by (auto simp: file_here_def)
  have entries: "\<exists>p\<in>set lst. fst e = CHR ''/'' # p \<and> p \<noteq> ''ite_crc.dat'' \<and> good_name (fst e)
          \<and> length pub + 2 + length p < PATH_MAX \<and> crc_buffer_ok cfg malloc None (length (file_data ?v (on_drive pub p)))
          \<and> (p \<noteq> ''ctrlboard.ini'' \<longrightarrow> snd e = crc_of (file_data ?v (on_drive pub p)))" if e: "e \<in> set es" for e
  proof -
    obtain p where p: "p \<in> set lst" "fst e = CHR ''/'' # p" "p \<noteq> ''ite_crc.dat''" "good_name (fst e)" "length pub + 2 + length p < PATH_MAX"
      "crc_buffer_ok cfg malloc None (length (file_data v (on_drive pub p)))"
      "p \<noteq> ''ctrlboard.ini'' \<longrightarrow> snd e = crc_of (file_data v (on_drive pub p))"
      using c(8) [OF e] by blast
    then show ?thesis using assms(4) by (intro bexI [of _ p]) simp_all
  qed
  show ?thesis
    unfolding config_disk_def
  proof (intro conjI ballI)
    show "files ?v (on_drive pub ''ite_crc.dat'') = Some (crc_file es)" using c(6) by simp
    show "place_here ?v (on_drive pub p)" "place_here ?v (on_drive BACKUP_DRIVE p)" "length (on_drive pub p) < 256" if "p \<in> set lst" for p
      using c(5) [OF that] by simp_all
  qed (rule c(1-4,7) here entries; assumption?)+
qed

subsection \<open>One save\<close>

primrec run_task ::
  "('c \<Rightarrow> block) \<Rightarrow> string \<Rightarrow> (volume \<Rightarrow> volume option) \<Rightarrow> nat \<Rightarrow> 'c config \<Rightarrow> 'c config option" where
  "run_task dump pub commit 0 s = Some s"
| "run_task dump pub commit (Suc n) s =
     do { s \<leftarrow> ConfigSaveTask_step dump pub commit 0 s; run_task dump pub commit n s }"

lemma run_task_saves:
  assumes "config_idle s" "commit (ConfigSavePublic dump pub (theConfig s) (cfgDisk s)) = Some v"
  shows "run_task dump pub commit 5 (ConfigSave s) = Some (s\<lparr>cfgSavingCount := True, cfgDisk := v\<rparr>)"
  using assms by (simp add: config_idle_def ConfigSave_def ConfigSaveTask_step_def Let_def numeral_eq_Suc)

lemma run_task_reach:
  "config_reach dump pub commit s0 s \<Longrightarrow> run_task dump pub commit n s = Some s' \<Longrightarrow> config_reach dump pub commit s0 s'"
  by (induction n arbitrary: s) (auto simp: bind_eq_Some_conv intro: config_reach.step)

text \<open>The memory and the room that a save of the settings \<open>d\<close> needs.\<close>

definition save_fits ::
  "int \<Rightarrow> (int \<Rightarrow> block option) \<Rightarrow> nat \<Rightarrow> string \<Rightarrow> string list \<Rightarrow> crc_entry list \<Rightarrow> block \<Rightarrow> volume \<Rightarrow> bool" where
  "save_fits cfg malloc PATH_MAX pub lst es d v \<longleftrightarrow>
     (let new = crc_file (set_entry ''/ctrlboard.ini'' (crc_of d) es);
          v2 = put_file (put_file v (on_drive pub ''ctrlboard.ini'') d) (on_drive pub ''ite_crc.dat'') new
      in length d < 2 ^ 31 \<and> malloc (int (length d)) \<noteq> None \<and> crc_buffer_ok cfg malloc None (length d) \<and> length pub + 15 < PATH_MAX
         \<and> malloc (int (length (crc_file es)) + 19) \<noteq> None \<and> length new < 2 ^ 31 \<and> malloc (int (length new)) \<noteq> None
         \<and> length d + length new + sum_list (map (\<lambda>p. length (file_data v2 (on_drive pub p))) lst) \<le> capacity v)"

lemma save_commits:
  assumes "config_disk cfg malloc PATH_MAX pub lst es v" "save_fits cfg malloc PATH_MAX pub lst es d v"
  shows "\<exists>v'. config_commit cfg malloc (\<lambda>_. True) PATH_MAX pub lst (put_file v (on_drive pub ''ctrlboard.ini'') d) = Some v'
    \<and> config_disk cfg malloc PATH_MAX pub lst (set_entry ''/ctrlboard.ini'' (crc_of d) es) v'
    \<and> files v' (on_drive pub ''ctrlboard.ini'') = Some d
    \<and> (\<forall>p\<in>set lst. files v' (on_drive BACKUP_DRIVE p) = files v' (on_drive pub p))"
proof -
  let ?v1 = "put_file v (on_drive pub ''ctrlboard.ini'') d"
  let ?new = "crc_file (set_entry ''/ctrlboard.ini'' (crc_of d) es)"
  let ?v2 = "put_file ?v1 (on_drive pub ''ite_crc.dat'') ?new"
  note f = assms(2) [unfolded save_fits_def Let_def]
  have v1: "config_disk cfg malloc PATH_MAX pub lst es ?v1"
    using config_disk_write [OF assms(1)] f by blast
  have two: "two_names pub BACKUP_DRIVE" using config_diskD(1) [OF assms(1)] .
  have d: "d = file_data ?v1 (on_drive pub ''ctrlboard.ini'')" by simp
  have room: "length ?new + sum_list (map (\<lambda>p. length (file_data ?v2 (on_drive pub p))) lst) \<le> capacity ?v1"
  proof -
    have "capacity v \<le> capacity ?v1 + length d" by simp
    moreover have "length d + length ?new + sum_list (map (\<lambda>p. length (file_data ?v2 (on_drive pub p))) lst) \<le> capacity v" using f by blast
    ultimately show ?thesis by linarith
  qed
  have "config_commit cfg malloc (\<lambda>_. True) PATH_MAX pub lst ?v1 = Some (copied pub BACKUP_DRIVE lst ?v2)"
    "config_disk cfg malloc PATH_MAX pub lst (set_entry ''/ctrlboard.ini'' (crc_of d) es) (copied pub BACKUP_DRIVE lst ?v2)"
    using config_disk_commit [OF d refl refl v1] f room by blast+
  moreover have "files (copied pub BACKUP_DRIVE lst ?v2) (on_drive pub ''ctrlboard.ini'') = Some d"
    using copied_src [OF two] by simp
  moreover have "\<forall>p\<in>set lst. files (copied pub BACKUP_DRIVE lst ?v2) (on_drive BACKUP_DRIVE p) = files (copied pub BACKUP_DRIVE lst ?v2) (on_drive pub p)"
    using copied_dst [OF two] copied_src [OF two] by simp
  ultimately show ?thesis by blast
qed

lemma set_entry_right:
  "distinct (map fst es) \<Longrightarrow> \<forall>e\<in>set (set_entry f c es). fst e = f \<longrightarrow> snd e = c"
  using set_entry_set [of es f c] by auto

lemma save_passes:
  assumes "config_disk cfg malloc PATH_MAX pub lst es v" "distinct (map fst es0)" "es = set_entry ''/ctrlboard.ini'' (crc_of d) es0"
    "files v (on_drive pub ''ctrlboard.ini'') = Some d"
  shows "UpgradeInit cfg malloc (\<lambda>_. True) PATH_MAX pub v = Some (0, v)"
proof (rule config_disk_passes [OF assms(1)])
  have "file_data v (on_drive pub ''ctrlboard.ini'') = d" using assms(4) by (simp add: file_data_def)
  then show "\<forall>e\<in>set es. fst e = ''/ctrlboard.ini'' \<longrightarrow> snd e = crc_of (file_data v (on_drive pub ''ctrlboard.ini''))"
    unfolding assms(3) using set_entry_right [OF assms(2)] by simp
qed

text \<open>The copies of a drive in order are a good backup, on whatever volume they are found later.\<close>

lemma config_good_backup:
  assumes "config_disk cfg malloc PATH_MAX pub lst es v" "\<forall>p\<in>set lst. files u (on_drive BACKUP_DRIVE p) = files v (on_drive pub p)"
    "\<forall>e\<in>set es. fst e = ''/ctrlboard.ini'' \<longrightarrow> snd e = crc_of (file_data v (on_drive pub ''ctrlboard.ini''))"
  shows "good_backup cfg malloc PATH_MAX pub lst es u"
proof -
  note c = config_diskD [OF assms(1)]
  have "\<exists>p\<in>set lst. \<exists>d. fst e = CHR ''/'' # p \<and> good_name (fst e) \<and> length pub + 2 + length p < PATH_MAX
          \<and> files u (on_drive BACKUP_DRIVE p) = Some d \<and> crc_buffer_ok cfg malloc None (length d) \<and> snd e = crc_of d"
    if e: "e \<in> set es" for e
  proof -
    obtain p where p: "p \<in> set lst" "fst e = CHR ''/'' # p" "good_name (fst e)" "length pub + 2 + length p < PATH_MAX"
      "crc_buffer_ok cfg malloc None (length (file_data v (on_drive pub p)))"
      "p \<noteq> ''ctrlboard.ini'' \<longrightarrow> snd e = crc_of (file_data v (on_drive pub p))"
      using c(8) [OF e] by blast
    moreover have "files u (on_drive BACKUP_DRIVE p) = Some (file_data v (on_drive pub p))"
      using assms(2) p(1) c(5) [OF p(1)] by (auto simp: file_here_def file_data_def)
    moreover have "snd e = crc_of (file_data v (on_drive pub p))" using p(2,6) assms(3) e by auto
    ultimately show ?thesis by blast
  qed
  moreover have "files u (on_drive BACKUP_DRIVE ''ite_crc.dat'') = Some (crc_file es)" using assms(2) c(4,6) by simp
  ultimately show ?thesis using c(4) unfolding good_backup_def by blast
qed

subsection \<open>A save, and the start after it\<close>

definition saved_disk ::
  "int \<Rightarrow> (int \<Rightarrow> block option) \<Rightarrow> nat \<Rightarrow> string \<Rightarrow> string list \<Rightarrow> crc_entry list \<Rightarrow> block \<Rightarrow> volume \<Rightarrow> bool" where
  "saved_disk cfg malloc PATH_MAX pub lst es d v \<longleftrightarrow>
     config_disk cfg malloc PATH_MAX pub lst (set_entry ''/ctrlboard.ini'' (crc_of d) es) v \<and> distinct (map fst es)
     \<and> files v (ini_path pub) = Some d \<and> (\<forall>p. p \<in> set lst \<longrightarrow> files v (on_drive BACKUP_DRIVE p) = files v (on_drive pub p))"

lemma save_writes:
  assumes "config_disk cfg malloc PATH_MAX pub lst es v" "save_fits cfg malloc PATH_MAX pub lst es (dump c) v"
  shows "\<exists>v'. config_commit cfg malloc (\<lambda>_. True) PATH_MAX pub lst (ConfigSavePublic dump pub c v) = Some v'
    \<and> saved_disk cfg malloc PATH_MAX pub lst es (dump c) v'"
proof -
  note c = config_diskD [OF assms(1)]
  have "length (dump c) \<le> capacity v" using assms(2) unfolding save_fits_def Let_def by linarith
  then have "ConfigSavePublic dump pub c v = put_file v (on_drive pub ''ctrlboard.ini'') (dump c)"
    using ConfigSavePublic_writes [of v pub dump c] c(5) [OF c(3)] by (simp add: crc_path(2))
  then show ?thesis
    using save_commits [OF assms] c(7) unfolding saved_disk_def crc_path(2) by auto
qed

lemma save_runs:
  assumes "config_idle s" "config_disk cfg malloc PATH_MAX pub lst es (cfgDisk s)"
    "save_fits cfg malloc PATH_MAX pub lst es (dump (theConfig s)) (cfgDisk s)"
  shows "\<exists>v. run_task dump pub (config_commit cfg malloc (\<lambda>_. True) PATH_MAX pub lst) 5 (ConfigSave s)
      = Some (s\<lparr>cfgSavingCount := True, cfgDisk := v\<rparr>)
    \<and> saved_disk cfg malloc PATH_MAX pub lst es (dump (theConfig s)) v"
  using save_writes [where dump = dump, OF assms(2,3)]
    run_task_saves [where dump = dump and commit = "config_commit cfg malloc (\<lambda>_. True) PATH_MAX pub lst", OF assms(1)] by blast

lemma saved_passes:
  "saved_disk cfg malloc PATH_MAX pub lst es d v \<Longrightarrow> UpgradeInit cfg malloc (\<lambda>_. True) PATH_MAX pub v = Some (0, v)"
  unfolding saved_disk_def crc_path(2) by (blast intro: save_passes)

lemma boot_after_save:
  assumes "saved_disk cfg malloc PATH_MAX pub lst es d v"
    "\<forall>p\<in>set lst. files u (on_drive BACKUP_DRIVE p) = files v (on_drive BACKUP_DRIVE p)"
    "ugCheckFilesCrc cfg malloc (\<lambda>_. True) PATH_MAX u (pub @ '':'') (pub @ '':/ite_crc.dat'') = Some (ret, u)" "ret \<noteq> 0"
    "can_copy malloc BACKUP_DRIVE pub lst u" "can_copy malloc pub BACKUP_DRIVE lst (copied BACKUP_DRIVE pub lst u)"
  shows "\<exists>w. boot_check cfg malloc (\<lambda>_. True) PATH_MAX pub lst 0 u = Some (0, w) \<and> files w (ini_path pub) = Some d
    \<and> (\<forall>p\<in>set lst. files w (on_drive pub p) = files v (on_drive pub p))"
proof -
  let ?es = "set_entry ''/ctrlboard.ini'' (crc_of d) es"
  have s: "config_disk cfg malloc PATH_MAX pub lst ?es v" "distinct (map fst es)" "files v (on_drive pub ''ctrlboard.ini'') = Some d"
    "\<forall>p\<in>set lst. files u (on_drive BACKUP_DRIVE p) = files v (on_drive pub p)"
    using assms(1,2) unfolding saved_disk_def crc_path(2) by auto
  have "file_data v (on_drive pub ''ctrlboard.ini'') = d" using s(3) by (simp add: file_data_def)
  then have "good_backup cfg malloc PATH_MAX pub lst ?es u"
    using config_good_backup [OF s(1,4)] set_entry_right [OF s(2)] by simp
  then have boot: "boot_check cfg malloc (\<lambda>_. True) PATH_MAX pub lst 0 u = Some (0, copied BACKUP_DRIVE pub lst u)"
    by (rule boot_check_restores [OF assms(3-6)])
  have two: "two_names BACKUP_DRIVE pub" using assms(5) by (simp add: can_copy_def)
  have same: "\<forall>p\<in>set lst. files (copied BACKUP_DRIVE pub lst u) (on_drive pub p) = files v (on_drive pub p)"
    using copied_dst [OF two] s(4) by simp
  then have "files (copied BACKUP_DRIVE pub lst u) (ini_path pub) = Some d"
    using config_diskD(3) [OF s(1)] s(3) unfolding crc_path(2) by simp
  then show ?thesis using boot same by blast
qed

end
