(* ===== verification/Cb_BoardExamples.thy ===== *)
theory Cb_BoardExamples
  imports CB_Examples Cb_BackupList Cb_Config
begin

text \<open>Concrete inputs for the witnesses about the settings of the board, their backup and its drives.\<close>

text \<open>A board with settings of one byte on \<open>A:\<close> and a backup on \<open>C:\<close> that was never written.\<close>

definition board_list :: "string list" where
  "board_list = [''ctrlboard.ini'', ''ite_crc.dat'']"

definition board_entries :: "crc_entry list" where
  "board_entries = [(''/ctrlboard.ini'', 5)]"

definition board_disk :: volume where
  "board_disk = disk [(''A:/ctrlboard.ini'', [1]), (''A:/ite_crc.dat'', crc_file board_entries)]"

definition board :: "byte config" where
  "board = \<lparr>theConfig = 7, cfgIsSaving = False, cfgSavingCount = False, cfgTasks = [], cfgDisk = board_disk\<rparr>"

lemma crc_file_length: "length (crc_file [(''/ctrlboard.ini'', c)]) = 23"
  by (simp add: crc_file_def)

lemma board_names [simp]:
  "two_names ''A'' BACKUP_DRIVE" "two_names BACKUP_DRIVE ''A''" "on_drive ''A'' ''ctrlboard.ini'' = ''A:/ctrlboard.ini''" "on_drive ''A'' ''ite_crc.dat'' = ''A:/ite_crc.dat''"
  "on_drive BACKUP_DRIVE ''ctrlboard.ini'' = ''C:/ctrlboard.ini''" "on_drive BACKUP_DRIVE ''ite_crc.dat'' = ''C:/ite_crc.dat''"
  "good_name ''/ctrlboard.ini''"
  by (simp_all add: two_names_def BACKUP_DRIVE_def on_drive_def good_name_def byte_of_char_def)

lemma board_idle: "config_idle board"
  by (simp add: config_idle_def board_def)

lemma board_config_disk: "config_disk 4 small_heap 64 ''A'' board_list board_entries board_disk"
proof -
  have "place_here board_disk p" for p by (simp add: place_here_def board_disk_def)
  then show ?thesis
    using crc_file_length [of 5]
    by (simp add: config_disk_def board_list_def board_entries_def file_here_def board_disk_def crc_buffer_ok_def file_data_def)
qed

lemma board_save_fits: "save_fits 4 small_heap 64 ''A'' board_list board_entries [7] board_disk"
  by (simp add: save_fits_def Let_def board_list_def board_entries_def board_disk_def crc_buffer_ok_def file_data_def crc_file_length)

text \<open>The public drive of this board is empty; its backup is the one of a save of \<open>d\<close>.\<close>

definition lost_disk :: "block \<Rightarrow> volume" where
  "lost_disk d = disk [(''C:/ctrlboard.ini'', d), (''C:/ite_crc.dat'', crc_file [(''/ctrlboard.ini'', crc_of d)])]"

lemma lost_check:
  "ugCheckFilesCrc 4 small_heap (\<lambda>_. True) 64 (lost_disk d) ''A:'' ''A:/ite_crc.dat'' = Some (81, lost_disk d)"
  by (simp add: ugCheckFilesCrc_def load_crc_file_def itcFileStreamOpen_def lost_disk_def Let_def fopen_rb_def)

lemma lost_can_copy:
  "can_copy small_heap BACKUP_DRIVE ''A'' board_list (lost_disk [7])"
  "can_copy small_heap ''A'' BACKUP_DRIVE board_list (copied BACKUP_DRIVE ''A'' board_list (lost_disk [7]))"
proof -
  note d = can_copy_def board_list_def lost_disk_def file_here_def place_here_def file_data_def crc_file_length
  show "can_copy small_heap BACKUP_DRIVE ''A'' board_list (lost_disk [7])" by (simp add: d)
  show "can_copy small_heap ''A'' BACKUP_DRIVE board_list (copied BACKUP_DRIVE ''A'' board_list (lost_disk [7]))"
    by (simp add: d copy1_def sound_medium_def disk_def)
qed

lemma lost_backup:
  assumes "saved_disk 4 small_heap 64 ''A'' board_list board_entries [7] v"
  shows "\<forall>p\<in>set board_list. files (lost_disk [7]) (on_drive BACKUP_DRIVE p) = files v (on_drive BACKUP_DRIVE p)"
  using assms by (simp add: saved_disk_def config_disk_def board_list_def board_entries_def lost_disk_def ini_path_def)

text \<open>The board while the task of a save copies the backup.\<close>

lemma board_saving:
  "\<exists>s. config_reach (\<lambda>c. [c]) ''A'' Some board s \<and> cfgTasks s = [T_commit True] \<and> cfgIsSaving s \<and> theConfig s = 7
    \<and> files (cfgDisk s) ''A:/ctrlboard.ini'' = Some [7]"
proof -
  let ?s = "board\<lparr>cfgSavingCount := True, cfgIsSaving := True, cfgTasks := [T_commit True],
    cfgDisk := ConfigSavePublic (\<lambda>c. [c]) ''A'' 7 board_disk\<rparr>"
  have "run_task (\<lambda>c. [c]) ''A'' Some 3 (ConfigSave board) = Some ?s"
    by (simp add: numeral_3_eq_3 ConfigSaveTask_step_def ConfigSave_def board_def Let_def)
  then have "config_reach (\<lambda>c. [c]) ''A'' Some board ?s"
    by (rule run_task_reach [OF config_reach.save [OF config_reach.start]])
  moreover have "ConfigSavePublic (\<lambda>c. [c]) ''A'' 7 board_disk = put_file board_disk ''A:/ctrlboard.ini'' [7]"
    using ConfigSavePublic_writes [of board_disk "''A''" "\<lambda>c. [c]" 7] by (simp add: ini_path_def place_here_def board_disk_def)
  ultimately show ?thesis by (intro exI [of _ ?s]) (simp add: board_def)
qed

text \<open>Both drives have the files, one of them changed.\<close>

definition twin_disk :: volume where
  "twin_disk = disk [(''A:/ctrlboard.ini'', [1]), (''A:/ite_crc.dat'', [2, 3]), (''C:/ctrlboard.ini'', [4]), (''C:/ite_crc.dat'', [2, 3])]"

lemma twin_disk_ok:
  "can_copy small_heap ''A'' BACKUP_DRIVE board_list twin_disk" "\<forall>p\<in>set board_list. file_here small_heap twin_disk (on_drive BACKUP_DRIVE p)"
  by (simp_all add: can_copy_def board_list_def twin_disk_def file_here_def place_here_def file_data_def)

text \<open>A FAT library that keeps the partition tables and the bindings of the volumes.\<close>

definition vol_fat :: "((ITPDisk \<Rightarrow> F_PARTITION list) \<times> (nat \<Rightarrow> (ITPDisk \<times> nat) option)) fat_lib" where
  "vol_fat = \<lparr>f_createdriver = (\<lambda>dk d. (0, d)), f_releasedriver = (\<lambda>dk d. (0, d)),
     f_getpartition = (\<lambda>dk d. (0, fst d dk @ replicate (ITP_MAX_PARTITION - length (fst d dk)) \<lparr>secnum = 0, system_indicator = 0\<rparr>, d)),
     f_createpartition = (\<lambda>dk pts d. (0, ((fst d)(dk := pts), snd d))),
     getphy = (\<lambda>dk d. (0, \<lparr>number_of_sectors = 4096, bytes_per_sector = 512\<rparr>, d)),
     f_initvolumepartition = (\<lambda>i dk j d. (0, (fst d, (snd d)(i \<mapsto> (dk, j))))),
     f_delvolume = (\<lambda>i d. (0, (fst d, (snd d)(i := None)))), f_format = (\<lambda>i j d. (0, d))\<rparr>"

lemma vol_fat_ok:
  "fat_lib_ok vol_fat (\<lambda>dk d. Some (fst d dk)) (\<lambda>_. \<lparr>number_of_sectors = 4096, bytes_per_sector = 512\<rparr>)"
  "fat_volumes vol_fat snd" "answers vol_fat dk" "mountable vol_fat dk"
  by (simp_all add: fat_lib_ok_def fat_volumes_def vol_fat_def answers_def mountable_def)

text \<open>A board with three partitions in the drives \<open>A:\<close>, \<open>B:\<close> and \<open>D:\<close> and a stick in \<open>C:\<close>.\<close>

definition board_tables :: "ITPDisk \<Rightarrow> F_PARTITION list" where
  "board_tables = (\<lambda>dk. if dk = ITP_DISK_NOR then replicate 3 \<lparr>secnum = 100, system_indicator = 4\<rparr>
     else if dk = ITP_DISK_MSC 3 then [\<lparr>secnum = 100, system_indicator = 4\<rparr>] else [])"

definition board_fat :: "((ITPDisk \<Rightarrow> F_PARTITION list) \<times> (nat \<Rightarrow> (ITPDisk \<times> nat) option)) fat" where
  "board_fat = \<lparr>drives = map (\<lambda>(i, dk). \<lparr>dr_disk = dk, dr_device = ITP_DEVICE_FAT, avail = True, dr_name = drive_name i\<rparr>)
       [(0, ITP_DISK_NOR), (1, ITP_DISK_NOR), (2, ITP_DISK_MSC 3), (3, ITP_DISK_NOR)] @ replicate 22 empty_drive,
     driver = (\<lambda>_. False), drive_queue = [],
     lib = (board_tables, [0 \<mapsto> (ITP_DISK_NOR, 0), 1 \<mapsto> (ITP_DISK_NOR, 1), 2 \<mapsto> (ITP_DISK_MSC 3, 0), 3 \<mapsto> (ITP_DISK_NOR, 2)])\<rparr>"

lemma board_fat_ok:
  "drives_ok board_fat" "GetDriveDiskMode (drives board_fat) = ITP_DISK_NOR"
  "remount_disks ITP_DISK_NOR (drives board_fat) [] = [ITP_DISK_MSC 3]" "fst (lib board_fat) = board_tables"
  "length (board_tables ITP_DISK_NOR) = 3" "length (board_tables (ITP_DISK_MSC 3)) = 1"
  "\<forall>p\<in>set (board_tables ITP_DISK_NOR). 0 < secnum p" "used (board_tables ITP_DISK_NOR) = 3" "used (board_tables (ITP_DISK_MSC 3)) = 1"
  "0 < secnum (board_tables (ITP_DISK_MSC 3) ! 0)"
proof -
  have "\<forall>x\<in>set (enumerate 0 (drives board_fat)). drive_ok (fst x) (snd x)" by code_simp
  moreover have "length (drives board_fat) = ITP_MAX_DRIVE" "drive_queue board_fat = []" by code_simp+
  moreover have "i < length (drives board_fat) \<Longrightarrow> (i, drives board_fat ! i) \<in> set (enumerate 0 (drives board_fat))" for i
    by (simp add: in_set_enumerate_eq)
  ultimately show "drives_ok board_fat" unfolding drives_ok_def by fastforce
  show "fst (lib board_fat) = board_tables" by (simp add: board_fat_def)
qed (code_simp)+

end
