(* ===== verification/Spec2Isabelle.thy ===== *)
theory Spec2Isabelle
  imports Cb_BoardExamples
begin

text \<open>
  A verification library for the control board firmware: its data paths from a package on a USB
  stick or in memory to the flash and the file system of the board, and the widgets on its screen. It
  models the C code of \<open>sdk/share/itc\<close> (streams and trees), \<open>sdk/share/upgrade\<close> (firmware packages,
  factory reset), \<open>sdk/share/fat/nor\<close> (the cache of the internal flash), \<open>sdk/driver/itp/itp_fat.c\<close>
  (disks, partitions and drives), the device layer of \<open>sdk/driver/itp\<close> with the NOR and SD devices, the
  driver of the flash chip (\<open>sdk/driver/nor/it9850/nor.c\<close>), the widget core and the calendar of
  \<open>sdk/share/itu\<close>, the mutexes and condition variables of \<open>sdk/driver/itp/itp_posix_openrtos.c\<close>, the DHCP
  server (\<open>sdk/share/dhcps\<close>), and of the application the storage, the settings with their backup and the start
  that checks them, and the link to a second board (\<open>project/ctrlboard/storage.c\<close>, \<open>config.c\<close>, \<open>backup.c\<close>, \<open>main.c\<close>,
  \<open>external.c\<close>).

  How the parts interact. A package is read from a stream (array, ring buffer, file); its device
  blocks partition and mount disks through the FAT device, its files go to the drives of these disks,
  those of the internal flash through the cache of the NOR driver, and its directory and reset
  functions copy trees of files. Raw data goes past the file system: through the device layer and the NOR
  device to the commands that the chip gets on its bus. The application watches the same drive table to tell which drive is
  the card and which the stick; it saves its settings to the public drive, with the checksum that the next start
  checks, and to a backup drive, from which that start takes them when the check fails. The ring buffer takes the mutexes of the POSIX layer, scenes and
  calendar are built from the widgets and their animations.

  How the program is modelled. A C function is a function into \<open>option\<close>; \<open>None\<close> stands for an
  execution that C does not define (an access outside a block, a null function pointer) or that
  waits for ever. Errors are values; where the code returns \<open>__LINE__\<close> the model returns the number
  of the line. Memory that is passed to \<open>memcpy\<close> is a list of bytes with checked bounds. Loops that
  end for a reason outside their own text (a stream that delivers no bytes) are
  \<open>partial_function (option)\<close>, and what they return is proved as an equation \<open>= Some\<close>, so no
  theorem holds because a loop does not end. Machine integers are words of their width. Log messages
  are left out, and \<open>assert\<close> is compiled out as in the release build.

  Theories, in the order of their imports:
  \<^item> \<open>CB_Prelude\<close>: blocks of bytes, \<open>memcpy\<close>, little-endian words.
  \<^item> \<open>Itc_Stream\<close>: \<open>itc_stream.c\<close>, the table of function pointers, and the locale \<open>itc_reader\<close>: what
    the clients of a stream rely on. \<open>Itc_ArrayStream\<close> and \<open>Itc_FileStream\<close> model
    \<open>itc_arraystream.c\<close> and \<open>itc_filestream.c\<close> and interpret the locale.
  \<^item> \<open>Itp_Mutex\<close>: \<open>pthread_mutex_*\<close>, with the locale \<open>recursive_lock\<close>.
  \<^item> \<open>Itp_Cond\<close>: \<open>pthread_cond_*\<close>; each call is cut into the steps at which tasks can interleave, a
    step relation runs any number of tasks, and its invariant balances the count of waiting tasks with
    the tokens of the semaphore.
  \<^item> \<open>Itc_BufferStream\<close>: \<open>itc_bufferstream.c\<close>; \<open>Itc_BufferQueue\<close>, \<open>Itc_BufferDequeue\<close> and
    \<open>Itc_BufferProps\<close> show that the ring refines a first-in first-out queue (locale \<open>byte_fifo\<close>),
    outside the two states in which it does not. \<open>Itc_BufferRun\<close>: any sequence of calls of any tasks
    keeps the positions inside the ring.
  \<^item> \<open>Itc_Tree\<close>: \<open>itc_tree.c\<close>, on a heap of parent, sibling and child pointers; the abstraction of a
    node is the list of its children (locale \<open>ordered_children\<close>).
  \<^item> \<open>Stdio\<close>: what the code uses of the C library's files, with media that fail.
  \<^item> \<open>Ug_Crc32\<close> and \<open>Ug_Crc\<close>: \<open>ug_crc.c\<close>; the table is the reference one, the update is injective,
    the streamed checksum is the checksum of the whole content.
  \<^item> \<open>Ug_FileCrc\<close>: \<open>ug_filecrc.c\<close>; a checksum file is the encoding of a list of entries.
  \<^item> \<open>Ug_File\<close>, \<open>Ug_Device\<close>, \<open>Ug_RawData\<close>, \<open>Ug_Package\<close>: \<open>ug_file.c\<close>, then \<open>ug_device.c\<close>,
    \<open>ug_partition.c\<close>, \<open>ug_unformatted.c\<close>, \<open>ug_end.c\<close> and \<open>ug_directory.c\<close>, \<open>ug_rawdata.c\<close>, and the
    loop of \<open>ug_package.c\<close> that calls them. \<open>Ug_RawProps\<close>: raw data on a flash device, which is described
    by what the code relies on (\<open>flash_ok\<close>) and may store wrongly what it is given. The variables that
    \<open>ug_package.c\<close> declares in the body of its loop hold at the start of a round what \<open>kept_locals\<close> makes of them.
  \<^item> \<open>Nor_Chip\<close>: the driver of the flash chip \<open>nor.c\<close> down to the bytes on the SPI bus; \<open>Nor_ChipProps\<close>: what a
    chip does with these commands (\<open>flash_chip\<close>: programming clears bits, erasing sets a block, both take a while) and
    that the driver then reads and writes as it should, apart from the bytes behind the data in a block. This is
    for chips with one sector to the block (\<open>plain_geometry\<close>); with more of them \<open>NorWrite\<close> overruns its buffer.
  \<^item> \<open>Itp_Posix\<close>: the device table of \<open>itp_base.c\<close> and \<open>open\<close>, \<open>read\<close>, \<open>write\<close>, \<open>lseek\<close>, \<open>ioctl\<close> and \<open>close\<close> of
    \<open>itp_posix_openrtos.c\<close>; \<open>Itp_Nor\<close>: the devices \<open>itp_nor.c\<close> and \<open>itp_sd.c\<close>; \<open>Itp_NorProps\<close>: the registered
    NOR device is a flash in the sense of \<open>flash_ok\<close>, up to its last block.
  \<^item> \<open>Fs_Tree\<close>: the directory calls of the C library on a tree of directories and files with a table
    of open files; \<open>Ug_Reset\<close>: copying and removing directories (\<open>ug_directory.c\<close>) and the factory
    reset (\<open>ug_reset.c\<close>); \<open>Ug_ResetProps\<close> specifies them as functions of trees (\<open>restored\<close>) and
    proves that the code computes these functions, given names that fit their buffers and memory.
  \<^item> \<open>Fat_NorCache\<close>: the write-back cache of the NOR flash (\<open>sdk/share/fat/nor/cache2.c\<close>); \<open>Fat_NorProps\<close>
    gives the view of its clients, the disc with the pages laid over it, \<open>Fat_NorStore\<close> and
    \<open>Fat_NorRw\<close> prove that the operations keep or change this view as a disc would, and that the
    sector behind the last page is never found; \<open>Fat_NorDrv\<close>: the driver \<open>nordrv_f.c\<close>, which provides
    the locale \<open>sector_store\<close> with its cache. The cache is proved for a disc that takes whole pages
    (\<open>disc_works\<close>): a write of a run of sectors that begins and ends on page borders changes these sectors and no others.
    \<open>Fat_NorChip\<close> puts the cache and its driver on \<open>NorRead\<close> and \<open>NorWrite\<close> of \<open>Nor_Chip\<close> and proves that of
    them, for pages that are the blocks that the chip erases; a write of less than a block erases the rest of
    it, so the driver without its cache is no sector store.
  \<^item> \<open>Itp_Fat\<close>: mounting, unmounting and partitioning of \<open>itp_fat.c\<close> with the drive table and queue of
    \<open>itp_drive_openrtos.c\<close>; the FAT library is a parameter. \<open>Itp_FatProps\<close>: the drive table stays well
    formed, and partitions that were created are read back. \<open>Ug_Drives\<close>: the services of \<open>ugUpgradeDevice\<close>
    built from these operations, and when its second run leaves a disk alone.
  \<^item> \<open>Cb_Storage\<close>: \<open>storage.c\<close>; \<open>Cb_StorageProps\<close>: a step relation of the storage beside the drives, its
    invariant, and a measure of the changes that are still to be reported. In this relation a disk is mounted only when
    every removal was seen and the drive table has room; the code checks neither.
  \<^item> \<open>Cb_Backup\<close>: the copying functions of \<open>backup.c\<close> and the check at the start (\<open>main.c\<close>, \<open>UpgradeInit\<close>);
    \<open>Cb_BackupProps\<close>: what they do to the files of the two drives, and that a start restores a good backup.
    \<open>Cb_BackupList\<close>: the list of the files and formatting a volume of \<open>backup.c\<close>, with the drive letters and the
    partitions behind them afterwards (\<open>fat_volumes\<close> says what mounting in the FAT library does).
  \<^item> \<open>Cb_Config\<close>: saving the settings (\<open>config.c\<close>) as steps of the save tasks beside the application; \<open>config_disk\<close> says
    when a public drive is in order, which every save keeps. Writing the file is one step, and so is what the task
    does under the mutex.
  \<^item> \<open>Net_Dhcps\<close>: the DHCP server \<open>dhcps.c\<close>; \<open>Net_DhcpsProps\<close>: its table is the list of the clients in the order of their
    first message, and the loop over the options computes a function of the list of options that they encode.
  \<^item> \<open>Cb_External\<close>: the events and the wire of \<open>external.c\<close>.
  \<^item> \<open>Itu_Effect\<close>: the seven animations (\<open>itu_effect.c\<close> and \<open>itu_*effect.c\<close>); the locale \<open>animation\<close>
    counts the steps of any of them.
  \<^item> \<open>Itu_Widget\<close>: the tree of base widgets of \<open>itu_widget.c\<close>, its events, and showing and hiding with
    animations and delayed commands; \<open>Itu_WidgetProps\<close>: a widget settles after the frames of its
    animation, and a press reaches the widgets under the pointer.
  \<^item> \<open>Itu_Scene\<close>: frames of a scene with its delayed commands (\<open>itu_scene.c\<close>).
  \<^item> \<open>Itu_Clip\<close>: geometry, clipping and drawing order (\<open>itu_widget.c\<close>, \<open>itu_surface.c\<close>).
  \<^item> \<open>Itu_Calendar\<close>: the grid of days and the lunar days of \<open>itu_calendar.c\<close>, compared with Zeller's
    congruence and a day count.
  \<^item> \<open>CB_Examples\<close> and \<open>Cb_BoardExamples\<close>: concrete inputs at which the properties below are applied.
  The facts of the last section hold of the code as the properties do.

  Parameters. \<open>malloc\<close>, \<open>statvfs\<close>, the FAT library, the services behind \<open>ioctl\<close> (FAT volumes, drive
  table, raw flash), the SPI bus with the chip, the card driver, the text that iniparser dumps (\<open>dump\<close>) and lwIP are arguments of the definitions or data
  of the model (\<open>pbuf\<close>); the cache of the FAT driver takes the flash as an argument, which \<open>Fat_NorChip\<close> makes of the chip's driver. The buffer size \<open>CFG_UG_BUF_SIZE\<close> and the key
  \<open>CFG_UPGRADE_ENC_KEY\<close> are build options and arguments as well. Sizes of packages are below
  \<open>2^31\<close>, the range of the \<open>int\<close> positions of a stream.

  Not modelled: register access, finding out which flash chip is present, the calls of the device layer on paths, the
  file operations of the FAT device, probing of cards, and NTFS; of \<open>sdk/share/itu\<close> the drawing of pixels, loading and
  freeing of scenes, actions, focus and gestures, and the widgets derived from the base widget; \<open>BackupInit\<close>, which composes parts that are
  modelled over different views of the drives, and finding firmware packages on sticks and servers; the
  application's screens and network glue, and the third-party libraries (FreeRTOS, SQLite, libxml2 and others).
\<close>

unbundle bit_operations_syntax

section \<open>Package upgrade\<close>

text \<open>
  C1: a package with one drive that fits the disk and asks for no repartitioning or formatting is upgraded
  completely: the upgrade succeeds, each file of the package is on the drive with its decrypted content, for each
  directory its drive is entered and \<open>mkdir\<close> is called with its path, in the order of the package (a
  \<open>mkdir\<close> that fails is only logged), and the partitions are left as they are. The variables
  \<open>partition\<close> and \<open>drive\<close>, which are declared inside the loop, must keep their storage from one round to the
  next, which C does not promise (finding \<open>ug_package.c:67\<close>).
\<close>
theorem package_upgrade:
  assumes "cfg_ok cfg" "length hdr = 20"
    "fl AND FLAG_PARTITION = 0" "fl AND FLAG_FORMAT_PARTITION = 0"
    "disk_as_asked srv (en_dev e) t dk sizes drive"
    "items_ok cfg srv drive its e"
    "pkg = package_bytes hdr fl t u sizes its crc" "length pkg < 2 ^ 31" "kept_locals cfg = id"
  shows "\<exists>p s'. ugUpgradePackage cfg array_ops srv raw (snd (itcArrayStreamOpen pkg (int (length pkg)))) e
      = Some (0, p, s', items_effect (enckey cfg) srv drive its e)"
  using arr.ugUpgradePackage_items [OF assms(1) array_stream_inv_open, of pkg hdr fl t u sizes its crc
      srv e dk drive raw] assms(2-9)
  by (simp add: itcArrayStreamOpen_eq)

theorem package_upgrade_witness:
  "\<exists>p s' e'. ugUpgradePackage small_cfg array_ops log_services ram_flash
        (snd (itcArrayStreamOpen small_package (int (length small_package)))) small_env = Some (0, p, s', e')
    \<and> files (en_vol e') ''A:/f'' = Some [0x5B, 0x58, 0x59] \<and> en_dev e' = [''A:/d'']"
proof -
  have "length small_package < 2 ^ 31"
    by (simp add: small_package_def package_bytes_def small_items_def device_block_def file_block_def)
  moreover have "disk_as_asked log_services (en_dev small_env) 1 ITP_DISK_NOR [0] ''A:/''"
    using small_disk by (simp add: small_env_def)
  moreover have "kept_locals small_cfg = id" by (simp add: small_cfg_def)
  ultimately have "\<exists>p s'. ugUpgradePackage small_cfg array_ops log_services ram_flash
        (snd (itcArrayStreamOpen small_package (int (length small_package)))) small_env
      = Some (0, p, s', items_effect (enckey small_cfg) log_services ''A:/'' small_items small_env)"
    using package_upgrade [OF small_cfg_ok _ _ _ _ small_items_ok, of "replicate 20 0" 0 1 ITP_DISK_NOR "[0]"
        small_package 0 0 ram_flash]
    by (simp add: small_package_def)
  moreover have
    "files (en_vol (items_effect (enckey small_cfg) log_services ''A:/'' small_items small_env)) ''A:/f''
       = Some [0x5B, 0x58, 0x59]"
    "en_dev (items_effect (enckey small_cfg) log_services ''A:/'' small_items small_env) = [''A:/d'']"
    by (simp_all add: items_effect_def small_items_def small_env_def log_services_def small_cfg_def
        cut_slash_def file_written_def decrypted_def)
  ultimately show ?thesis by blast
qed

text \<open>
  C2: the upgrade of a file is verified: whatever the medium does with the bytes written, the
  function returns 0 exactly when the file reads back as the decrypted data of the package, and
  one of the errors of lines 213 and 220 otherwise.
\<close>
theorem file_upgrade_verifies:
  assumes "cfg_ok cfg" "names_ok cfg drive name" "array_stream_inv s"
    "drop (nat (pos s)) (arr s) = file_block name data @ rest" "rest \<noteq> []" "length (arr s) < 2 ^ 31"
    "p = take 2 drive @ name" "\<not> denied v p" "space_ok cfg v drive p (of_nat (length data))"
    "length data \<le> capacity v + length (file_data v p)"
  shows "\<exists>ret s' v'. ugUpgradeFile cfg array_ops s v drive = Some (ret, s', v')
    \<and> (ret = 0 \<longleftrightarrow> take (length data) (readable v' p) = decrypted (enckey cfg) data)
    \<and> ret \<in> {0, 213, 220} \<and> files v' p = Some (stored v p 0 (decrypted (enckey cfg) data))
    \<and> (\<forall>q. q \<noteq> p \<longrightarrow> files v' q = files v q)"
  using arr.ugUpgradeFile_block [OF assms(1-10)] by auto

theorem file_upgrade_verifies_witness:
  "\<exists>ret s' v'. ugUpgradeFile small_cfg array_ops
        (snd (itcArrayStreamOpen (file_block ''/f'' [1, 2, 3] @ [0]) 15)) worn_disk ''A:/'' = Some (ret, s', v')
    \<and> ret \<in> {213, 220}"
proof -
  let ?s = "snd (itcArrayStreamOpen (file_block ''/f'' [1, 2, 3] @ [0]) 15)"
  have inv: "array_stream_inv ?s" "drop (nat (pos ?s)) (arr ?s) = file_block ''/f'' [1, 2, 3] @ [0]"
    "length (arr ?s) < 2 ^ 31"
    by (simp_all add: itcArrayStreamOpen_eq array_stream_inv_def file_block_def)
  have p: "''A:/f'' = take 2 ''A:/'' @ ''/f''" by simp
  have env: "\<not> denied worn_disk ''A:/f''" "space_ok small_cfg worn_disk ''A:/'' ''A:/f'' (of_nat (length [1, 2, 3 :: byte]))"
    "length [1, 2, 3 :: byte] \<le> capacity worn_disk + length (file_data worn_disk ''A:/f'')"
    by (simp_all add: worn_disk_def space_ok_def small_cfg_def)
  have st: "stored worn_disk ''A:/f'' 0 (decrypted (enckey small_cfg) [1, 2, 3]) = [0x5A, 0x58, 0x58]"
    by (simp add: stored_def worn_disk_def decrypted_def small_cfg_def)
  obtain ret s' v' where r: "ugUpgradeFile small_cfg array_ops ?s worn_disk ''A:/'' = Some (ret, s', v')"
    "ret = 0 \<longleftrightarrow> take (length [1, 2, 3 :: byte]) (readable v' ''A:/f'') = decrypted (enckey small_cfg) [1, 2, 3]"
    "ret \<in> {0, 213, 220}"
    "files v' ''A:/f'' = Some (stored worn_disk ''A:/f'' 0 (decrypted (enckey small_cfg) [1, 2, 3]))"
    using file_upgrade_verifies [OF small_cfg_ok small_names(1) inv(1,2) list.distinct(2) inv(3) p env]
    by blast
  have "\<exists>n. readable v' ''A:/f'' = take n [0x5A, 0x58, 0x58]"
    using r(4) st by (auto simp: readable_def file_data_def intro: exI [of _ 3] split: option.splits)
  then have "take (length [1, 2, 3 :: byte]) (readable v' ''A:/f'') \<noteq> decrypted (enckey small_cfg) [1, 2, 3]"
    by (auto simp: decrypted_def small_cfg_def take_Cons' split: if_splits)
  then show ?thesis using r by auto
qed

text \<open>
  C3: a package in memory passes the check exactly when the four bytes at its end are the
  checksum of the bytes before; a package that passes is rewound to its start.
\<close>
theorem check_crc_accepts_iff:
  assumes "length trailer = 4" "length (payload @ trailer) < 2 ^ 31"
    "crc_buffer_ok cfg malloc buffer (length payload)"
  shows "\<exists>s'. ugCheckCrc cfg malloc array_ops
        (snd (itcArrayStreamOpen (payload @ trailer) (int (length (payload @ trailer))))) buffer
      = Some (if trailer = le_of_word 4 (crc_of payload) then 0 else 143,
              map_option (\<lambda>bf. payload @ drop (length payload) bf) buffer, s')
    \<and> (trailer = le_of_word 4 (crc_of payload) \<longrightarrow> array_stream_inv s' \<and> arr s' = payload @ trailer \<and> pos s' = 0)"
proof -
  let ?s = "snd (itcArrayStreamOpen (payload @ trailer) (int (length (payload @ trailer))))"
  have "itpLetoh32 trailer = crc_of payload \<longleftrightarrow> trailer = le_of_word 4 (crc_of payload)"
    using le_of_word_itpLetoh32 [OF assms(1)] itpLetoh32_le_of_word by metis
  moreover have "arr ?s = payload @ trailer" by (simp add: itcArrayStreamOpen_eq)
  moreover have "pos s' = 0" if "array_stream_inv s'" "nat (pos s') = 0" for s'
    using that by (simp add: array_stream_inv_def)
  ultimately show ?thesis
    using arr.ugCheckCrc_package [OF array_stream_inv_open, of "payload @ trailer" payload trailer cfg malloc buffer]
      assms by auto
qed

theorem check_crc_accepts_iff_witness:
  "\<exists>s'. ugCheckCrc 4 small_heap array_ops
        (snd (itcArrayStreamOpen ([1, 2, 3, 4, 5] @ le_of_word 4 (crc_of [1, 2, 3, 4, 5])) 9)) None
      = Some (0, None, s') \<and> arr s' = [1, 2, 3, 4, 5] @ le_of_word 4 (crc_of [1, 2, 3, 4, 5])"
  using check_crc_accepts_iff [of "le_of_word 4 (crc_of [1, 2, 3, 4, 5])" "[1, 2, 3, 4, 5]" 4 small_heap None]
  by (auto simp: crc_buffer_ok_def)

text \<open>
  C4: a package in which one byte of the payload was changed after its checksum was computed is
  refused with the error of line 143.
\<close>
theorem check_crc_rejects_corruption:
  assumes "i < length payload" "v \<noteq> payload ! i" "length payload + 4 < 2 ^ 31"
    "crc_buffer_ok cfg malloc None (length payload)"
    "pkg = payload[i := v] @ le_of_word 4 (crc_of payload)"
  shows "\<exists>s'. ugCheckCrc cfg malloc array_ops (snd (itcArrayStreamOpen pkg (int (length pkg)))) None
      = Some (143, None, s')"
proof -
  have "crc_of (payload[i := v]) \<noteq> crc_of payload" by (rule crc_of_change [OF assms(1,2)])
  then show ?thesis
    using arr.ugCheckCrc_package [OF array_stream_inv_open, of pkg "payload[i := v]"
        "le_of_word 4 (crc_of payload)" cfg malloc None] assms(3-5)
    by (auto simp: itcArrayStreamOpen_eq itpLetoh32_le_of_word)
qed

theorem check_crc_rejects_corruption_witness:
  "\<exists>s'. ugCheckCrc 4 small_heap array_ops
      (snd (itcArrayStreamOpen ([1, 0, 3] @ le_of_word 4 (crc_of [1, 2, 3])) 7)) None = Some (143, None, s')"
  using check_crc_rejects_corruption [of 1 "[1, 2, 3]" 0 4 small_heap "[1, 0, 3] @ le_of_word 4 (crc_of [1, 2, 3])"]
  by (simp add: crc_buffer_ok_def)

section \<open>Streams\<close>

text \<open>
  C5: a write to a ring that is empty, or whose positions do not meet, appends to the queue as many bytes as there
  is room for and reports that number. (A ring that holds bytes and whose positions meet is full; a write
  to it overwrites bytes that were not read, see \<open>buffer_full_write_overwrites\<close>.)
\<close>
theorem buffer_write_appends:
  assumes "bs_ok s" "\<not> bs_collided s" "lockable t (mutex s)"
  shows "\<exists>s'. BufferStreamWrite mem_ok t s d (int (length d))
            = Some (int (min (length d) (bs_room s)), s')
     \<and> bs_content s' = bs_content s @ take (bs_room s) d
     \<and> bs_ok s' \<and> mutex s' = mutex s \<and> bsize s' = bsize s"
  using assms by (rule BufferStreamWrite_ok)

theorem buffer_write_appends_witness:
  "\<exists>s'. BufferStreamWrite True 1 (ring [1, 2, 3, 4] False 2 4) [7, 8, 9] 3 = Some (2, s')
     \<and> bs_content s' = [3, 4, 7, 8] \<and> bs_ok s'"
  using buffer_write_appends [of "ring [1, 2, 3, 4] False 2 4" 1 True "[7, 8, 9]"]
  by (auto simp: ring_defs)

text \<open>
  C6: a read removes from the front of the queue and hands out exactly these bytes, except a read of a wrapped ring
  that does not go past the end of its memory, where the code copies the wrong way
  (see \<open>buffer_unsplit_read_reversed\<close>).
\<close>
theorem buffer_read_removes:
  assumes "bs_ok s" "\<not> bs_unsplit s (int n)" "n \<le> length out" "lockable t (mutex s)"
  shows "\<exists>s'. BufferStreamRead mem_ok t s out (int n)
            = Some (int (min n (length (bs_content s))),
                    take n (bs_content s) @ drop (min n (length (bs_content s))) out, s')
     \<and> bs_content s' = drop n (bs_content s)
     \<and> bs_ok s' \<and> mutex s' = mutex s \<and> bsize s' = bsize s"
  using assms by (rule BufferStreamRead_ok)

theorem buffer_read_removes_witness:
  "\<exists>s'. BufferStreamRead True 1 (ring [1, 2, 3, 4] False 1 3) [0, 0, 0, 0] 4 = Some (2, [2, 3, 0, 0], s')
     \<and> bs_content s' = [] \<and> bs_ok s'"
  using buffer_read_removes [of "ring [1, 2, 3, 4] False 1 3" 4 "[0, 0, 0, 0]" 1 True]
  by (auto simp: ring_defs)

text \<open>
  C7: whatever calls any tasks make to an opened buffer stream, in whatever order, with buffers as long as
  they say and no negative absolute position: the positions stay inside the ring, and every further
  such call is defined, that is, all its copies stay inside the ring and the buffer of the caller,
  unless it waits for a task that holds the mutex.
\<close>
theorem buffer_memory_safe:
  assumes "itcBufferStreamOpen (Some block0) ok s0 (int (length block0)) = (0, s1)" "block0 \<noteq> []"
    "bs_reach s1 s" "fits c"
  shows "bs_bounds s \<and> (run_call m t c s = None \<longrightarrow> pthread_mutex_lock m t (mutex s) = None)"
  using bs_reach_inv [OF assms(3) open_inv [OF assms(1,2)]] run_call_inv [OF _ assms(4), of s m t]
  by (auto simp: bs_inv_def)

theorem buffer_memory_safe_witness:
  "\<exists>s1 s. itcBufferStreamOpen (Some [0, 0, 0, 0]) True (ring [] True 0 0) 4 = (0, s1)
    \<and> run_call True 1 (CallWrite [1, 2, 3, 4] 4) s1 = Some s \<and> bs_bounds s
    \<and> run_call True 2 (CallReadLock 9) s \<noteq> None"
proof -
  let ?s1 = "snd (itcBufferStreamOpen (Some [0, 0, 0, 0]) True (ring [] True 0 0) 4)"
  have opn: "itcBufferStreamOpen (Some [0, 0, 0, 0]) True (ring [] True 0 0) (int (length [0, 0, 0, 0 :: byte])) = (0, ?s1)"
    by (simp add: itcBufferStreamOpen_def pthread_mutex_init_def)
  obtain s where s: "run_call True 1 (CallWrite [1, 2, 3, 4] 4) ?s1 = Some s" "pthread_mutex_lock True 2 (mutex s) \<noteq> None"
    by (simp add: itcBufferStreamOpen_def mutex_defs BufferStreamWrite_def critical_def bs_write_body_def memcpy_def
        peek_def poke_def Let_def)
  have r: "bs_reach ?s1 s"
    by (rule bs_reach.call [OF bs_reach.start _ s(1)]) simp
  have "bs_bounds s \<and> (run_call True 2 (CallReadLock 9) s = None \<longrightarrow> pthread_mutex_lock True 2 (mutex s) = None)"
    using buffer_memory_safe [OF opn _ r, of "CallReadLock 9" True 2] by simp
  then show ?thesis using opn s by auto
qed

section \<open>Checksum files\<close>

text \<open>
  C8: setting the checksum of a file rewrites the checksum file: the entry of that name is
  replaced, or added at the end, and the checksum file has its own checksum again.
\<close>
theorem set_file_crc:
  assumes "files v p = Some (crc_file es)" "\<not> denied v p" "sound_medium v p"
    "length (crc_file es) < 2 ^ 31" "\<forall>e \<in> set es. good_name (fst e)"
    "crc_readable cfg malloc v (dir @ f) d" "length dir + length f < PATH_MAX"
    "malloc_sized malloc" "malloc (int (length (crc_file es)) + (int (length f) + 1 + 4)) \<noteq> None"
    "new = crc_file (set_entry f (crc_of d) es)" "length new < 2 ^ 31"
    "length new \<le> capacity v + length (crc_file es)"
  shows "ugSetFileCrc cfg malloc (\<lambda>_. True) PATH_MAX v f dir p
     = Some (0, v\<lparr>files := (files v)(p \<mapsto> new),
                 capacity := capacity v + length (crc_file es) - length new\<rparr>)"
  using assms by (rule ugSetFileCrc_sets)

theorem set_file_crc_witness:
  "\<exists>v'. ugSetFileCrc 4 small_heap (\<lambda>_. True) 64 (crc_disk 0) ''f'' ''A/'' ''A/crc'' = Some (0, v')
    \<and> files v' ''A/crc'' = Some (crc_file [(''f'', crc_of [1, 2])])"
  using set_file_crc [of "crc_disk 0" "''A/crc''" "[(''f'', 0)]" 4 small_heap "''A/''" "''f''" "[1, 2]" 64
      "crc_file [(''f'', crc_of [1, 2])]"]
  by (simp add: crc_readable_def crc_buffer_ok_def)

section \<open>Devices\<close>



section \<open>Drives and storage\<close>

text \<open>
  C10: once a device block has partitioned its disk, the same block leaves the disk alone: what was
  created on it through the FAT library is read back as asked. This needs sizes in whole sectors and
  partitions that are not empty, and room in the drive table for mounting the disk.
\<close>
theorem device_block_settles:
  assumes "fat_lib_ok fl tab phy" "drives_ok d" "ITP_MAX_PARTITION \<le> free_from (drives d) 0"
    "length sizes \<le> ITP_MAX_PARTITION" "sizes \<noteq> []" "whole_sizes (phy dk) sizes" "length junk = ITP_MAX_PARTITION"
    "\<forall>pts. plan_partitions (phy dk) (asked_partition dk u sizes) 0 0 [] = Some (Inr pts) \<longrightarrow> (\<forall>pt \<in> set pts. 0 < secnum pt)"
    "device_disk t = Some dk"
    "array_stream_inv s1" "drop (nat (pos s1)) (arr s1) = device_block t u sizes @ rest1"
    "array_stream_inv s2" "drop (nat (pos s2)) (arr s2) = device_block t u sizes @ rest2"
    "ugUpgradeDevice array_ops (fat_services fl junk srv) s1 d old True nopart = Some (0, dk', s1', d')"
  shows "\<exists>s2'. ugUpgradeDevice array_ops (fat_services fl junk srv) s2 d' old' False nopart' = Some (0, dk, s2', d')
    \<and> drop (nat (pos s2')) (arr s2') = rest2"
  by (rule arr.ugUpgradeDevice_settles [OF assms])

theorem device_block_settles_witness:
  "\<exists>dk s1 d. ugUpgradeDevice array_ops toy_fat_services (snd (itcArrayStreamOpen (device_block 1 0 [524288, 0]) 28))
        blank_fat ITP_DISK_SD0 True False = Some (0, dk, s1, d)
    \<and> (\<exists>s2. ugUpgradeDevice array_ops toy_fat_services (snd (itcArrayStreamOpen (device_block 1 0 [524288, 0]) 28))
        d ITP_DISK_SD0 False False = Some (0, ITP_DISK_NOR, s2, d))"
proof -
  let ?s = "snd (itcArrayStreamOpen (device_block 1 0 [524288, 0]) 28)"
  have s: "array_stream_inv ?s" "drop (nat (pos ?s)) (arr ?s) = device_block 1 0 [524288, 0] @ []" "device_disk 1 = Some ITP_DISK_NOR"
    by (simp_all add: itcArrayStreamOpen_eq array_stream_inv_def device_block_def device_disk_def)
  have n: "length [524288, 0 :: 64 word] \<le> ITP_MAX_PARTITION" "[524288, 0 :: 64 word] \<noteq> []" by (simp_all add: ITP_MAX_PARTITION_def)
  obtain d where d: "repartition toy_fat_services ITP_DISK_NOR 0 2 [524288, 0] blank_fat = Some (0, d)"
    using toy_repartition(1) by (auto simp: map_option_case split: option.splits)
  obtain s1 where up: "ugUpgradeDevice array_ops toy_fat_services ?s blank_fat ITP_DISK_SD0 True False = Some (0, ITP_DISK_NOR, s1, d)"
    using arr.ugUpgradeDevice_repartitions [OF s(1,2) n s(3), of toy_fat_services blank_fat ITP_DISK_SD0 False] d by auto
  have w: "whole_sizes \<lparr>number_of_sectors = 4096, bytes_per_sector = 512\<rparr> [524288, 0]"
    by (simp add: whole_sizes_def sector_bytes_def)
  have p: "plan_partitions \<lparr>number_of_sectors = 4096, bytes_per_sector = 512\<rparr> (asked_partition ITP_DISK_NOR 0 [524288, 0]) 0 0 []
      = Some (Inr [\<lparr>secnum = 1024, system_indicator = 4\<rparr>, \<lparr>secnum = 3009, system_indicator = 4\<rparr>])"
    by code_simp
  show ?thesis
    using device_block_settles [OF toy_fat_ok blank_fat_ok(1,2) n w _ _ s(3) s(1,2) s(1,2) up [unfolded toy_fat_services_def],
        of ITP_DISK_SD0 False] up p
    by (auto simp: toy_fat_services_def [symmetric] ITP_MAX_PARTITION_def)
qed

text \<open>
  C11: with disks mounted and unmounted beside it in any order, the storage of the control board stays
  typed: its SD entry is a drive of an SD disk and its USB entry one of a USB disk, and every drive
  that is present is a FAT drive with the name of its letter. Two conditions, which the code does not check:
  a disk is mounted only when the storage has seen what happened before (else an entry goes stale, see
  \<open>storage_slot_reused\<close>), and only while the drive table has room for the partitions of a disk,
  \<open>ITP_MAX_PARTITION\<close> free entries (else \<open>FatMount\<close> overwrites other drives, finding \<open>itp_fat.c:894\<close>).
\<close>
theorem storage_entries_typed:
  assumes "storage_reach pub fl s0 s st" "length (drives s0) = ITP_MAX_DRIVE"
  shows "length (drives s) = ITP_MAX_DRIVE
    \<and> (\<forall>i < ITP_MAX_DRIVE. avail (drives s ! i) \<longrightarrow> dr_device (drives s ! i) = ITP_DEVICE_FAT \<and> dr_name (drives s ! i) = drive_name i)
    \<and> (\<forall>i. storageTable st STORAGE_SD = Some i \<longrightarrow> i < ITP_MAX_DRIVE \<and> dr_disk (drives s ! i) \<in> {ITP_DISK_SD0, ITP_DISK_SD1})
    \<and> (\<forall>i. storageTable st STORAGE_USB = Some i \<longrightarrow> i < ITP_MAX_DRIVE \<and> (\<exists>n < 16. dr_disk (drives s ! i) = ITP_DISK_MSC n))"
proof -
  have "usb_disk dk \<Longrightarrow> \<exists>n < 16. dk = ITP_DISK_MSC n" for dk by (cases dk) (simp_all add: usb_disk_def)
  then show ?thesis
    using storage_reach_ok [OF assms] by (auto simp: drives_ok_def drive_ok_def entry_typed_def disk_of_def sd_disk_def)
qed

theorem storage_entries_typed_witness:
  "\<exists>s st. storage_reach ''B'' toy_fat stick_fat s st \<and> storageTable st STORAGE_USB = Some 0
    \<and> (\<exists>n < 16. dr_disk (drives s ! 0) = ITP_DISK_MSC n)"
proof -
  obtain s st where r: "storage_reach ''B'' toy_fat stick_fat s st" "storageTable st STORAGE_USB = Some 0"
    using stick_reached by blast
  then show ?thesis using storage_entries_typed [OF r(1) stick_drives] by blast
qed

text \<open>
  C12: with the drives at rest and no USB host connected, at most four checks, five when the board is still in
  the USB device mode, bring the storage up to date: from then on a check reports nothing and changes
  nothing, an SD or USB entry is a drive that is present, under its letter, and without an entry no drive of
  that kind is present. Two conditions on what happened before, which the code does not check: a disk was
  mounted only when the storage had seen all that happened before (else entries go stale, see
  \<open>storage_slot_reused\<close>) and when the drive table had room for the partitions of a disk (else \<open>FatMount\<close>
  overwrites other drives, finding \<open>itp_fat.c:894\<close>).
\<close>
theorem storage_settles:
  assumes "storage_reach pub fl s0 s st" "length (drives s0) = ITP_MAX_DRIVE"
    "connected \<longrightarrow> \<not> cfg \<and> \<not> storageInUsbDeviceMode st"
  shows "\<exists>n \<le> 4 + (if storageInUsbDeviceMode st then 1 else 0). let st' = ((\<lambda>st. snd (StorageCheck cfg connected (drives s) st)) ^^ n) st in
    StorageCheck cfg connected (drives s) st' = (STORAGE_UNKNOWN, st')
    \<and> (\<forall>t \<in> {STORAGE_SD, STORAGE_USB}. case storageTable st' t of
         None \<Rightarrow> \<forall>i < ITP_MAX_DRIVE. disk_of t (dr_disk (drives s ! i)) \<longrightarrow> \<not> avail (drives s ! i)
       | Some i \<Rightarrow> i < ITP_MAX_DRIVE \<and> disk_of t (dr_disk (drives s ! i)) \<and> avail (drives s ! i)
           \<and> StorageGetDrivePath (drives s) st' t = Some (drive_name i))"
proof -
  define chk where "chk = (\<lambda>st. snd (StorageCheck cfg connected (drives s) st))"
  define k where "k = (if storageInUsbDeviceMode st then 1 else 0 :: nat)"
  define st0 where "st0 = (chk ^^ k) st"
  have reach: "storage_reach pub fl s0 s st0"
    using assms(1) storage_reach.check [OF assms(1)] by (simp add: st0_def k_def chk_def)
  have quiet: "\<not> storageInUsbDeviceMode st0" "\<not> (cfg \<and> connected)"
    using assms(3) by (auto simp: st0_def k_def chk_def StorageCheck_def)
  note ok = storage_reach_ok [OF reach assms(2)]
  have len: "length (drives s) = ITP_MAX_DRIVE" using ok by (simp add: drives_ok_def)
  obtain n where n: "n \<le> pending (drives s) st0 STORAGE_SD + pending (drives s) st0 STORAGE_USB"
    "storage_settled (drives s) ((quiet_check (drives s) ^^ n) st0)" "entries_typed (drives s) ((quiet_check (drives s) ^^ n) st0)"
    using settles [OF len] ok by blast
  have "n \<le> 4" using n(1) pending_le [of "drives s" st0 STORAGE_SD] pending_le [of "drives s" st0 STORAGE_USB] by linarith
  then have le: "n + k \<le> 4 + (if storageInUsbDeviceMode st then 1 else 0)" by (simp add: k_def)
  note c = checks_quiet [OF quiet, where n = n and ds = "drives s", folded chk_def]
  have st': "(chk ^^ (n + k)) st = (quiet_check (drives s) ^^ n) st0"
    using c by (simp add: funpow_add st0_def)
  have "case storageTable ((quiet_check (drives s) ^^ n) st0) t of
         None \<Rightarrow> \<forall>i < ITP_MAX_DRIVE. disk_of t (dr_disk (drives s ! i)) \<longrightarrow> \<not> avail (drives s ! i)
       | Some i \<Rightarrow> i < ITP_MAX_DRIVE \<and> disk_of t (dr_disk (drives s ! i)) \<and> avail (drives s ! i)
           \<and> StorageGetDrivePath (drives s) ((quiet_check (drives s) ^^ n) st0) t = Some (drive_name i)"
    if t: "t \<in> {STORAGE_SD, STORAGE_USB}" for t
  proof -
    have "entry_current (drives s) ((quiet_check (drives s) ^^ n) st0) t" using settled_current [OF len n(2)] n(3) t by blast
    moreover have "t \<noteq> STORAGE_NONE" using t by auto
    ultimately show ?thesis
      using ok by (auto simp: entry_current_def drives_ok_def drive_ok_def StorageGetDrivePath_def split: option.splits)
  qed
  then show ?thesis
    using StorageCheck_quiet(1) [OF _ quiet(2), of "(quiet_check (drives s) ^^ n) st0" "drives s"] n(2) c le st'
    unfolding chk_def [symmetric] by (intro exI [of _ "n + k"]) (simp add: Let_def)
qed

theorem storage_settles_witness:
  "\<exists>s st. storage_reach ''B'' toy_fat stick_fat s st \<and> storageTable st STORAGE_USB = Some 0 \<and> (\<exists>n \<le> 4.
    let st' = ((\<lambda>st. snd (StorageCheck True False (drives s) st)) ^^ n) st
    in StorageCheck True False (drives s) st' = (STORAGE_UNKNOWN, st'))"
proof -
  obtain s st where r: "storage_reach ''B'' toy_fat stick_fat s st" "storageTable st STORAGE_USB = Some 0"
    "\<not> storageInUsbDeviceMode st" using stick_reached by blast
  then show ?thesis using storage_settles [OF r(1) stick_drives, of False True] r(3) by (auto simp: Let_def)
qed

section \<open>NOR flash cache\<close>

text \<open>
  C13: the driver of the NOR flash with its write-back cache, on the driver of the flash itself, behaves as
  the bare sectors, on chips whose erase blocks are one sector of the flash driver and hold at least 32 FAT
  sectors: a start establishes the driver's invariant; then reading any sectors but the last one of the device
  returns them and changes nothing, writing replaces the sectors it is given and no others of these, whichever
  pages this evicts; and a flush leaves the same sectors in the chip. The last sector of the device is not
  among them: the cache ends before it (finding \<open>nordrv_f.c:286\<close>).
\<close>
theorem nor_cache_refines:
  assumes "fat_flash alloc bus nx eb v reserved x" "a + n \<le> nor_sectors x - 1" "length bs = n * fatSectorSize x"
  shows "(\<forall>fresh cacheSize s0 s1. eb \<le> cacheSize \<and> (\<forall>i. length (fresh i) = eb) \<and> busy v (disc s0) = 0
        \<and> nor_initfunc (nor_chip_of alloc bus nx) True True fresh reserved cacheSize t s0 = Some (Some x, s1)
        \<longrightarrow> fat_store alloc bus nx v x t s1 \<and> contents (fat_sector v x) s1 = fat_sector v x (disc s0))
    \<and> (\<forall>s. fat_store alloc bus nx v x t s \<longrightarrow>
        (\<exists>s'. nor_readmultiplesector (nor_chip_of alloc bus nx) x m t a n s
            = Some (0, concat (map (contents (fat_sector v x) s) [a..<a + n]), s')
          \<and> fat_store alloc bus nx v x t s' \<and> contents (fat_sector v x) s' = contents (fat_sector v x) s)
        \<and> (\<exists>s'. nor_writemultiplesector (nor_chip_of alloc bus nx) x m t bs a n s = Some (0, s')
          \<and> fat_store alloc bus nx v x t s'
          \<and> contents (fat_sector v x) s' = overlay (fatSectorSize x) a n bs (contents (fat_sector v x) s))
        \<and> (\<exists>s'. iteFatNorFlush (nor_chip_of alloc bus nx) x m t s = Some s' \<and> fat_store alloc bus nx v x t s'
          \<and> contents (fat_sector v x) s' = contents (fat_sector v x) s
          \<and> fat_sector v x (disc s') = contents (fat_sector v x) s))"
proof (intro conjI allI impI)
  fix s
  assume s: "fat_store alloc bus nx v x t s"
  show "\<exists>s'. nor_readmultiplesector (nor_chip_of alloc bus nx) x m t a n s
        = Some (0, concat (map (contents (fat_sector v x) s) [a..<a + n]), s')
      \<and> fat_store alloc bus nx v x t s' \<and> contents (fat_sector v x) s' = contents (fat_sector v x) s"
    by (rule cached.rd_ok [OF s assms(2)])
  show "\<exists>s'. nor_writemultiplesector (nor_chip_of alloc bus nx) x m t bs a n s = Some (0, s')
      \<and> fat_store alloc bus nx v x t s'
      \<and> contents (fat_sector v x) s' = overlay (fatSectorSize x) a n bs (contents (fat_sector v x) s)"
    by (rule cached.wr_ok [OF s assms(2,3)])
  show "\<exists>s'. iteFatNorFlush (nor_chip_of alloc bus nx) x m t s = Some s' \<and> fat_store alloc bus nx v x t s'
      \<and> contents (fat_sector v x) s' = contents (fat_sector v x) s \<and> fat_sector v x (disc s') = contents (fat_sector v x) s"
    by (rule nor_flush_ok [OF s])
qed (use fat_init_ok [OF assms(1)] in blast)+

theorem nor_cache_refines_witness:
  "\<exists>s'. nor_readmultiplesector fat_chip fat_context True 1 3 2 fat_nor = Some (0, replicate 512 35 @ replicate 512 36, s')"
proof -
  have "map (contents (fat_sector sim_view fat_context) fat_nor) [3..<3 + 2] = [replicate 512 35, replicate 512 36]"
    using fat_nor(2) [of 3] fat_nor(2) [of 4] by (simp add: upt_rec)
  then have c: "concat (map (contents (fat_sector sim_view fat_context) fat_nor) [3..<3 + 2]) = replicate 512 35 @ replicate 512 36"
    by (simp only: concat.simps append_Nil2)
  have l: "3 + 2 \<le> nor_sectors fat_context - 1" "length (replicate (2 * 512) (0 :: byte)) = 2 * fatSectorSize fat_context"
    by (simp add: fat_geometry(2)) (simp only: length_replicate fat_context_def NOR_CONTEXT.simps)
  show ?thesis
    using nor_cache_refines [OF fat_geometry(3) l, of 1 True, THEN conjunct2, THEN spec, THEN mp, OF fat_nor(1), THEN conjunct1]
    unfolding c fat_chip_def [symmetric] by blast
qed

text \<open>
  C14: data survive unmounting, on chips whose erase blocks are one sector of the flash driver and hold at
  least 32 FAT sectors: sectors that were written through the cache of the NOR driver, any but the last one of
  the device, are read back unchanged after the driver has been released, which destroys the cache and its
  mutex, and started again, by another task and with other memory. (The last sector is not in the cache:
  finding \<open>nordrv_f.c:286\<close>.)
\<close>
theorem nor_power_cycle:
  assumes "fat_flash alloc bus nx eb v reserved x"
    "nor_initfunc (nor_chip_of alloc bus nx) True True fresh reserved cacheSize t s0 = Some (Some x, s1)"
    "eb \<le> cacheSize" "\<And>i. length (fresh i) = eb" "\<And>i. length (fresh' i) = eb" "busy v (disc s0) = 0"
    "a + n < nor_sectors x" "length bs = n * fatSectorSize x"
  shows "\<exists>s2 s3 s4 s5. nor_writemultiplesector (nor_chip_of alloc bus nx) x m t bs a n s1 = Some (0, s2)
    \<and> nor_release (nor_chip_of alloc bus nx) x m t s2 = Some s3
    \<and> nor_initfunc (nor_chip_of alloc bus nx) True True fresh' reserved cacheSize t' s3 = Some (Some x, s4)
    \<and> nor_readmultiplesector (nor_chip_of alloc bus nx) x m t' a n s4 = Some (0, bs, s5)"
proof -
  have an: "a + n \<le> nor_sectors x - 1" using assms(7) by simp
  note start = fat_init_ok [OF assms(1,3,4,6,2)]
  obtain s2 where s2: "nor_writemultiplesector (nor_chip_of alloc bus nx) x m t bs a n s1 = Some (0, s2)"
    "fat_store alloc bus nx v x t s2"
    "contents (fat_sector v x) s2 = overlay (fatSectorSize x) a n bs (contents (fat_sector v x) s1)"
    using cached.wr_ok [OF start(1) an assms(8)] by blast
  obtain s3 where s3: "nor_release (nor_chip_of alloc bus nx) x m t s2 = Some s3" "busy v (disc s3) = 0"
    "fat_sector v x (disc s3) = contents (fat_sector v x) s2"
    using nor_release_ok [OF s2(2)] by blast
  obtain s4 where s4: "nor_initfunc (nor_chip_of alloc bus nx) True True fresh' reserved cacheSize t' s3 = Some (Some x, s4)"
    using nor_init_total [OF fat_flashD(5) [OF assms(1)]] by blast
  note again = fat_init_ok [OF assms(1,3,5) s3(2) s4]
  have "map (contents (fat_sector v x) s4) [a..<a + n] = map (sect (fatSectorSize x) bs) [0..<n]"
    by (intro nth_equalityI) (simp_all add: again(2) s3(3) s2(3) overlay_def)
  then have "concat (map (contents (fat_sector v x) s4) [a..<a + n]) = bs" using concat_sects [OF assms(8)] by simp
  then obtain s5 where "nor_readmultiplesector (nor_chip_of alloc bus nx) x m t' a n s4 = Some (0, bs, s5)"
    using cached.rd_ok [OF again(1) an, of m] by auto
  then show ?thesis using s2(1) s3(1) s4 by blast
qed

theorem nor_power_cycle_witness:
  "\<exists>s2 s3 s4 s5. nor_initfunc fat_chip True True (\<lambda>i. replicate 16384 0) 16384 65536 1 fat_start = Some (Some fat_context, fat_nor)
    \<and> nor_writemultiplesector fat_chip fat_context True 1 (replicate 512 7) 5 1 fat_nor = Some (0, s2)
    \<and> nor_release fat_chip fat_context True 1 s2 = Some s3
    \<and> nor_initfunc fat_chip True True (\<lambda>i. replicate 16384 1) 16384 65536 2 s3 = Some (Some fat_context, s4)
    \<and> nor_readmultiplesector fat_chip fat_context True 2 5 1 s4 = Some (0, replicate 512 7, s5)"
proof -
  have l: "5 + 1 < nor_sectors fat_context" "length (replicate 512 (7 :: byte)) = 1 * fatSectorSize fat_context"
    "busy sim_view (disc fat_start) = 0"
    by (simp add: fat_geometry(2)) (simp_all add: fat_context_def fat_start_def sim_start_def sim_view_def)
  have f: "length (replicate 16384 (0 :: byte)) = 16384" "length (replicate 16384 (1 :: byte)) = 16384" "16384 \<le> (65536 :: nat)"
    by simp_all
  show ?thesis
    using nor_power_cycle [OF fat_geometry(3) fat_started [unfolded fat_chip_def] f(3,1,2) l(3,1,2), of True 2] fat_started
    unfolding fat_chip_def by blast
qed

section \<open>From the package to the flash chip\<close>

text \<open>
  C15: a raw data block for the NOR flash, through \<open>open(":nor")\<close>, \<open>lseek\<close> and \<open>write\<close> of the device layer,
  \<open>itp_nor.c\<close> and the driver down to the commands on the bus, is stored at its position when its blocks end before
  the last block of the flash: the upgrade returns 0, the flash holds the data there, and no byte of the flash
  outside these blocks is changed. This is for chips with one sector to the block, whose sectors are the blocks
  that are erased, a power of two of bytes (with more sectors the driver overruns its buffer, finding
  \<open>nor.c:1074\<close>), and for a buffer of at least a block.
\<close>
theorem nor_raw_upgrade:
  assumes "nor_works alloc bus x eb v" "nor_registered table init fl alloc bus x" "eb = 2 ^ k" "k < 31"
    "busy v (flash d) = 0" "norBlockSizeInBytes d = of_nat eb" "eb dvd unat (seekPos d)"
    "cfg_ok cfg" "int eb \<le> buf_size cfg" "array_stream_inv s" "data \<noteq> []" "length data < 2 ^ 31"
    "drop (nat (pos s)) (arr s)
      = le_of_word 4 (position :: 32 word) @ le_of_word 4 (of_nat (length data) :: 32 word) @ data @ tl_bs"
    "p = unat position div eb" "p + blocks_for eb (length data) < totalBlocks x"
  shows "\<exists>s' d'. ugUpgradeRawData cfg array_ops (posix_raw table drvs vol) s d ITP_DISK_NOR = Some (0, s', d')
    \<and> (\<forall>i < length data. mem v (flash d') (p * eb + i) = data ! i)
    \<and> (\<forall>i. i < p * eb \<or> (p + blocks_for eb (length data)) * eb \<le> i
         \<longrightarrow> mem v (flash d') i = mem v (flash d) i)"
proof -
  note w = nor_worksD [OF assms(1)]
  let ?n = "blocks_for eb (length data)"
  have cap: "NorGetCapacity x - eb = (totalBlocks x - 1) * eb"
    using plain_geometryD(5) [OF w(2,5)] by (simp add: algebra_simps diff_mult_distrib2)
  have fit: "(p + ?n) * eb \<le> (totalBlocks x - 1) * eb" using assms(15) by (intro mult_le_mono1) simp
  have p: "p < 2 ^ 31"
  proof -
    have "p * 1 \<le> p * eb" using w(6) by (intro mult_le_mono2) simp
    also have "\<dots> \<le> NorGetCapacity x" using fit cap by (simp add: algebra_simps)
    finally show ?thesis using w(4) by simp
  qed
  have d: "nor_device x eb v (mem v (flash d)) d" using assms(5-7) by (simp add: nor_device_def)
  obtain ret s' d' d1 where r: "ugUpgradeRawData cfg array_ops (posix_raw table drvs vol) s d ITP_DISK_NOR = Some (ret, s', d')"
    "raw_outcome (nor_cells x eb v) eb p data True d ret d'"
    "nor_device x eb v (mem v (flash d)) d1" "raw_close (posix_raw table drvs vol) nor_fd d1 = Some d'"
    using arr.ugUpgradeRawData_block [OF nor_flash_ok [OF assms(1,2)] nor_flash_opens [OF assms(1,2)] assms(3,4) _ assms(8-10,12,11,13,14) p _ d,
        of drvs vol] nor_flash_stores [OF assms(1,2)] fit unfolding cap [symmetric] by auto
  let ?C = "(totalBlocks x - 1) * eb"
  have "take (length data) (drop (p * eb) (map (mem v (flash d')) [0..<?C])) = data" "ret = 0"
    "take (p * eb) (map (mem v (flash d')) [0..<?C]) = take (p * eb) (map (mem v (flash d)) [0..<?C])"
    "drop ((p + ?n) * eb) (map (mem v (flash d')) [0..<?C]) = drop ((p + ?n) * eb) (map (mem v (flash d)) [0..<?C])"
    using r(2) unfolding raw_outcome_def nor_cells_def cap by blast+
  note o = this
  have len: "p * eb + length data \<le> ?C" using fit blocks_for_ge [OF w(6), of "length data"] by (simp add: algebra_simps)
  then have pC: "p * eb \<le> ?C" by (rule add_leD1)
  have "mem v (flash d') (p * eb + i) = data ! i" if "i < length data" for i
    using arg_cong [OF o(1), of "\<lambda>l. l ! i"] that len pC by (simp add: nth_append)
  moreover have "mem v (flash d') i = mem v (flash d) i" if "i < p * eb" for i
    using arg_cong [OF o(3), of "\<lambda>l. l ! i"] that len by simp
  moreover have "mem v (flash d') i = mem v (flash d) i" if "(p + ?n) * eb \<le> i" "i < ?C" for i
    using arg_cong [OF o(4), of "\<lambda>l. l ! (i - (p + ?n) * eb)"] that fit
    by (simp only: nth_drop length_map length_upt diff_zero) (simp del: mult_le_cancel2)
  moreover have "mem v (flash d') i = mem v (flash d) i" if "?C \<le> i" for i
  proof -
    have "flash d' = flash d1" using r(4) unfolding nor_calls [OF assms(2)] by auto
    then show ?thesis using r(3) that unfolding cap [symmetric] by (simp add: nor_device_def)
  qed
  ultimately show ?thesis using r(1) o(2) by (auto simp: not_less) (meson not_le)
qed

theorem nor_raw_upgrade_witness:
  "\<exists>s' d'. ugUpgradeRawData sim_cfg array_ops (posix_raw sim_table (\<lambda>_. []) 0)
        (snd (itcArrayStreamOpen (le_of_word 4 (0 :: 32 word) @ le_of_word 4 (of_nat (length [1, 2, 3 :: byte]) :: 32 word)
          @ [1, 2, 3] @ []) 11)) sim_nor ITP_DISK_NOR = Some (0, s', d')
     \<and> (\<forall>i < 3. cmem (flash d') i = [1, 2, 3] ! i)"
proof -
  let ?data = "[1, 2, 3 :: byte]"
  let ?arr = "le_of_word 4 (0 :: 32 word) @ le_of_word 4 (of_nat (length ?data) :: 32 word) @ ?data @ []"
  let ?s = "snd (itcArrayStreamOpen ?arr 11)"
  have s: "array_stream_inv ?s" "drop (nat (pos ?s)) (arr ?s) = ?arr"
    by (simp_all add: itcArrayStreamOpen_eq array_stream_inv_def)
  have b: "0 + blocks_for 256 (length ?data) < totalBlocks sim_context" "0 = unat (0 :: 32 word) div 256" "(256 :: nat) = 2 ^ 8"
    by (simp_all add: blocks_for_def sim_context_def)
  obtain s' d' where "ugUpgradeRawData sim_cfg array_ops (posix_raw sim_table (\<lambda>_. []) 0) ?s sim_nor ITP_DISK_NOR = Some (0, s', d')"
    "\<forall>i < length ?data. mem sim_view (flash d') (0 * 256 + i) = ?data ! i"
    using nor_raw_upgrade [OF sim_nor(1,2) b(3) _ sim_nor(3-6,7) s(1) _ _ s(2) b(2,1), of "\<lambda>_. []" 0] by auto
  then show ?thesis by (auto simp: sim_view_def)
qed

text \<open>
  C16: \<open>NorWrite\<close> within the flash of a chip with one sector to the block that behaves as its data sheet says succeeds,
  however long the chip is busy within the driver's patience; reading the place back gives the data; the bytes
  behind the data in a block that begins within it are erased, even when they were in use, and every other byte
  of the flash is kept. (On chips with several sectors to the block \<open>NorWrite\<close> overruns its buffer, finding
  \<open>nor.c:1074\<close>.)
\<close>
theorem nor_write_stores:
  assumes "flash_chip bus x eb v" "plain_geometry x eb" "gives_buffers alloc eb" "busy v c = 0"
    "data \<noteq> []" "a + length data \<le> NorGetCapacity x"
  shows "\<exists>c' c''. NorWrite alloc bus x a data c = Some (0, c') \<and> NorRead bus x a (length data) c' = Some (0, data, c'')
    \<and> (\<forall>i. mem v c'' i = (if a \<le> i \<and> i < a + length data then data ! (i - a)
         else if a \<le> i div eb * eb \<and> i div eb * eb < a + length data then 0xFF else mem v c i))"
proof -
  have t: "0 < totalBlocks x" using assms(5,6) by (cases "totalBlocks x") (auto simp: NorGetCapacity_def)
  obtain c' where c': "NorWrite alloc bus x a data c = Some (0, c')" "busy v c' = 0" "mem v c' = written eb a data (mem v c)"
    using NorWrite_ok [OF assms] by blast
  obtain c'' where c'': "NorRead bus x a (length data) c' = Some (0, map (mem v c') [a..<a + length data], c'')"
    "mem v c'' = mem v c'"
    using NorRead_ok [OF assms(1,2) c'(2) assms(6) t] by blast
  have "map (mem v c') [a..<a + length data] = data"
    using c'(3) by (intro nth_equalityI) (auto simp: written_def)
  then show ?thesis using c'(1,3) c'' by (auto simp: written_def)
qed

theorem nor_write_stores_witness:
  "\<exists>c' c''. NorWrite (\<lambda>n. Some (replicate n 0)) sim_bus sim_context 254 [1, 2, 3] sim_start = Some (0, c')
     \<and> NorRead sim_bus sim_context 254 3 c' = Some (0, [1, 2, 3], c'')
     \<and> cmem c'' 253 = 253 \<and> cmem c'' 255 = 2 \<and> cmem c'' 257 = 0xFF"
proof -
  obtain c' c'' where c: "NorWrite (\<lambda>n. Some (replicate n 0)) sim_bus sim_context 254 [1, 2, 3] sim_start = Some (0, c')"
    "NorRead sim_bus sim_context 254 (length [1, 2, 3 :: byte]) c' = Some (0, [1, 2, 3], c'')"
    "\<forall>i. mem sim_view c'' i = (if 254 \<le> i \<and> i < 254 + length [1, 2, 3 :: byte] then [1, 2, 3] ! (i - 254)
       else if 254 \<le> i div 256 * 256 \<and> i div 256 * 256 < 254 + length [1, 2, 3 :: byte] then 0xFF else mem sim_view sim_start i)"
    using nor_write_stores [OF sim_flash_chip sim_geometry(1,2), of sim_start "[1, 2, 3]" 254] by (auto simp: sim_view_def sim_start_def)
  have "cmem c'' 253 = 253" "cmem c'' 255 = 2" "cmem c'' 257 = 0xFF"
    using c(3) [rule_format, of 253] c(3) [rule_format, of 255] c(3) [rule_format, of 257] by (simp_all add: sim_view_def sim_start_def)
  then show ?thesis using c(1,2) by (auto simp: eval_nat_numeral)
qed

section \<open>Trees\<close>

text \<open>
  C17: moving a node to another parent: it is taken out of the one list of children, appended to
  the other, and no other list changes.
\<close>
theorem tree_reparent:
  assumes "represents h kd" "parent h n = Some t" "t \<noteq> u"
  shows "\<exists>h1 h2. itcTreeRemove h n = Some h1 \<and> itcTreePushBack h1 u n = Some h2 \<and> parent h2 n = Some u
    \<and> represents h2 (kd(t := remove1 n (kd t), u := kd u @ [n]))"
  using assms by (rule tree.reparent)

theorem tree_reparent_witness:
  "\<exists>h1 h2. itcTreeRemove family 1 = Some h1 \<and> itcTreePushBack h1 3 1 = Some h2 \<and> parent h2 1 = Some 3
    \<and> represents h2 (family_kids(0 := [2], 3 := [1]))"
  using tree_reparent [OF family_represents, of 1 0 3] by (simp add: family_def family_kids_def)

section \<open>Tasks: condition variables and mutexes\<close>

text \<open>
  C18: whatever tasks do with a condition variable and however their calls interleave: each waiting task is
  in the count, or there is a token for it, or another task is about to give it one; and as long as
  nobody waits with a time limit the count is not negative and there are never more tokens than
  waiting tasks.
\<close>
theorem cond_counts:
  assumes "cond_start n s0" "cond_reach tm m s0 s" "ccond s = Cond k"
  shows "ccount k + int (tokens k) + int (giving s) = int (waiting s) \<and> tokens k \<le> 32
    \<and> (\<not> tm \<longrightarrow> 0 \<le> ccount k \<and> tokens k \<le> waiting s)"
  using cond_invD [OF cond_reach_inv [OF assms(2,1)] assms(3)] by auto

theorem cond_counts_witness:
  "\<exists>s k. cond_reach False True (two_tasks COND_INITIALIZER) s \<and> ccond s = Cond k \<and> waiting s = 1 \<and> ccount k = 1"
proof -
  let ?k = "\<lparr>ccount = 1, tokens = 0\<rparr>"
  let ?s = "goto 1 (Counted False) ((two_tasks COND_INITIALIZER)\<lparr>ccond := Cond ?k\<rparr>)"
  have r: "cond_reach False True (two_tasks COND_INITIALIZER) ?s"
    by (rule cond_reach.step [OF cond_reach.start], rule cond_step.wait [where t = 1 and r = 0 and timed = False])
      (simp_all add: two_tasks_def wait_enter_def enter_cond_def cond_handle_def pthread_cond_init_def on_cond_def)
  have "ccount ?k + int (tokens ?k) + int (giving ?s) = int (waiting ?s)"
    using cond_counts [OF two_tasks_start(1) r, of ?k] by simp
  moreover have "giving ?s = 0" by (simp add: giving_def goto_def two_tasks_def)
  ultimately show ?thesis using r by (intro exI [of _ ?s] exI [of _ ?k]) simp
qed



text \<open>
  C20: the endless loop of a broadcast ends, whatever the count is and without help of other tasks: in every
  reachable state its 33rd pass is the last one at the latest, and the call returns 0 or an error.
\<close>
theorem broadcast_terminates:
  assumes "cond_start n s0" "cond_reach tm m s0 s" "ccond s = Cond k" "t < length (phases s)"
  shows "\<exists>s'. broadcast_loop 33 t s = Some s' \<and> phases s' ! t \<in> {Returned 0, Returned EINVAL}"
proof -
  have "tokens k + (32 - tokens k) = 32" "Suc (32 - tokens k) \<le> 33"
    using cond_invD(2) [OF cond_reach_inv [OF assms(2,1)] assms(3)] by simp_all
  note n = this
  obtain s' where "broadcast_loop (Suc (32 - tokens k)) t s = Some s'" "phases s' ! t \<in> {Returned 0, Returned EINVAL}"
    using broadcast_result [OF assms(3) n(1) assms(4)] assms(4)
    by (cases "0 \<le> ccount k \<and> ccount k \<le> int (32 - tokens k)") (simp_all only: if_True if_False, auto simp: goto_def)
  with broadcast_loop_mono n(2) show ?thesis by blast
qed

theorem broadcast_terminates_witness:
  "\<exists>s'. broadcast_loop 33 1 (two_tasks (Cond \<lparr>ccount = 0, tokens = 0\<rparr>)) = Some s'
    \<and> phases s' ! 1 \<in> {Returned 0, Returned EINVAL}"
  by (rule broadcast_terminates [OF two_tasks_start(2) cond_reach.start]) (simp_all add: two_tasks_def)

section \<open>Directories\<close>

text \<open>
  C21: restoring a backup into a directory gives exactly the entries and the error of the
  specification \<open>restored\<close>: entries named with a tilde remove their namesakes, files replace,
  directories are created, and everything outside the directory stays as it is.
\<close>
theorem restore_directory:
  assumes "healthy s" "walk (root s) (path_of dest) = Some (DirN ds)" "walk (root s) (path_of src) = Some (DirN ss)"
    "diverge (path_of dest) (path_of src)" "backup_names (DirN ss)" "wf_tree (DirN ss)" "wf_tree (DirN ds)"
    "paths_fit PATH_MAX (length dest) (DirN ds)" "paths_fit PATH_MAX (length dest) (DirN ss)"
    "paths_fit PATH_MAX (length src) (DirN ss)" "allocatable malloc (DirN ss)"
  shows "\<exists>e. ugRestoreDir PATH_MAX malloc s dest src
     = Some (snd (restored ds ss 0),
             s\<lparr>root := upd (path_of dest) (\<lambda>_. DirN (fst (restored ds ss 0))) (root s), errno := e\<rparr>)"
  using ugRestoreDir_restores [OF assms] by (simp add: with_dir_def)

theorem restore_directory_witness:
  "\<exists>e. ugRestoreDir 64 small_heap two_drives ''A:'' ''D:/backup/A''
     = Some (0, two_drives\<lparr>root := DirN [(''A:'', DirN [(''cfg'', DirN [(''f'', FileN [7, 8])])]),
                                       (''D:'', DirN [(''backup'', DirN [(''A'', DirN backup_files)])])], errno := e\<rparr>)"
  using restore_directory [of two_drives "''A:''" old_files "''D:/backup/A''" backup_files 64 small_heap]
  by (simp add: two_drives_defs healthy_def without_def keep_error_def)

text \<open>
  C22: the factory reset restores every drive that the private drive holds a backup of, leaves the
  other drives as they are, and returns 0 exactly when all of them were restored without an error.
\<close>
theorem reset_factory:
  assumes "file_name (drive @ '':'')" "healthy s"
    "walk (root s) [drive @ '':'', ''backup''] = Some (DirN es)" "wf_tree (DirN es)"
    "\<forall>e \<in> set es. file_name (fst e @ '':'')"
    "\<forall>n ss. (n, DirN ss) \<in> set es
       \<longrightarrow> (\<exists>ds. walk (root s) [n @ '':''] = Some (DirN ds) \<and> backup_ok PATH_MAX malloc drive ds n ss)"
  shows "\<exists>ret s'. ugResetFactory PATH_MAX malloc s drive = Some (ret, s')
    \<and> (\<forall>n ss ds. (n, DirN ss) \<in> set es \<longrightarrow> walk (root s) [n @ '':''] = Some (DirN ds)
         \<longrightarrow> walk (root s') [n @ '':''] = Some (DirN (fst (restored ds ss 0))))
    \<and> (\<forall>k. k \<notin> fst ` set es \<longrightarrow> walk (root s') [k @ '':''] = walk (root s) [k @ '':''])
    \<and> (ret = 0 \<longleftrightarrow> (\<forall>n ss ds. (n, DirN ss) \<in> set es \<longrightarrow> walk (root s) [n @ '':''] = Some (DirN ds)
         \<longrightarrow> snd (restored ds ss 0) = 0))"
  using ugResetFactory_restores [OF assms] unfolding drives_restored_def by blast

theorem reset_factory_witness:
  "\<exists>s'. ugResetFactory 64 small_heap two_drives ''D'' = Some (0, s')
    \<and> walk (root s') [''A:''] = Some (DirN [(''cfg'', DirN [(''f'', FileN [7, 8])])])"
proof -
  have "\<exists>ret s'. ugResetFactory 64 small_heap two_drives ''D'' = Some (ret, s')
      \<and> (ret = 0 \<longleftrightarrow> snd (restored old_files backup_files 0) = 0)
      \<and> walk (root s') [''A:''] = Some (DirN (fst (restored old_files backup_files 0)))"
    using reset_factory [of "''D''" two_drives "[(''A'', DirN backup_files)]" 64 small_heap]
    by (auto simp: two_drives_defs healthy_def backup_ok_def)
  moreover have "restored old_files backup_files 0 = ([(''cfg'', DirN [(''f'', FileN [7, 8])])], 0)"
    by (simp add: two_drives_defs without_def keep_error_def)
  ultimately show ?thesis by auto
qed

section \<open>Settings and their backup\<close>

text \<open>
  C23: settings that were saved survive the loss of the public drive: whatever a later start finds there, when the
  checksums fail and the files of the backup drive are still those of the save, the application starts with
  the files of the save on the public drive again, the settings among them.
\<close>
theorem settings_survive:
  assumes "config_idle s" "config_disk cfg malloc PATH_MAX pub lst es (cfgDisk s)"
    "save_fits cfg malloc PATH_MAX pub lst es (dump (theConfig s)) (cfgDisk s)"
    "run_task dump pub (config_commit cfg malloc (\<lambda>_. True) PATH_MAX pub lst) 5 (ConfigSave s) = Some s'"
    "\<forall>p\<in>set lst. files u (on_drive BACKUP_DRIVE p) = files (cfgDisk s') (on_drive BACKUP_DRIVE p)"
    "ugCheckFilesCrc cfg malloc (\<lambda>_. True) PATH_MAX u (pub @ '':'') (pub @ '':/ite_crc.dat'') = Some (ret, u)" "ret \<noteq> 0"
    "can_copy malloc BACKUP_DRIVE pub lst u" "can_copy malloc pub BACKUP_DRIVE lst (copied BACKUP_DRIVE pub lst u)"
  shows "\<exists>w. boot_check cfg malloc (\<lambda>_. True) PATH_MAX pub lst 0 u = Some (0, w)
    \<and> files w (ini_path pub) = Some (dump (theConfig s))
    \<and> (\<forall>p\<in>set lst. files w (on_drive pub p) = files (cfgDisk s') (on_drive pub p))"
proof -
  obtain v where v: "run_task dump pub (config_commit cfg malloc (\<lambda>_. True) PATH_MAX pub lst) 5 (ConfigSave s)
      = Some (s\<lparr>cfgSavingCount := True, cfgDisk := v\<rparr>)"
    "saved_disk cfg malloc PATH_MAX pub lst es (dump (theConfig s)) v"
    using save_runs [where dump = dump, OF assms(1-3)] by blast
  have s': "cfgDisk s' = v" using v(1) assms(4) by auto
  show ?thesis
    using boot_after_save [OF v(2) _ assms(6-9)] assms(5) unfolding s' by blast
qed

theorem settings_survive_witness:
  "\<exists>w. boot_check 4 small_heap (\<lambda>_. True) 64 ''A'' board_list 0 (lost_disk [7]) = Some (0, w)
    \<and> files w ''A:/ctrlboard.ini'' = Some [7]"
proof -
  obtain v where v: "run_task (\<lambda>c. [c]) ''A'' (config_commit 4 small_heap (\<lambda>_. True) 64 ''A'' board_list) 5 (ConfigSave board)
      = Some (board\<lparr>cfgSavingCount := True, cfgDisk := v\<rparr>)"
    "saved_disk 4 small_heap 64 ''A'' board_list board_entries [7] v"
    using save_runs [OF board_idle, of 4 small_heap 64 "''A''" board_list board_entries "\<lambda>c. [c]"] board_config_disk board_save_fits
    by (auto simp: board_def)
  have "\<forall>p\<in>set board_list. files (lost_disk [7]) (on_drive BACKUP_DRIVE p)
      = files (cfgDisk (board\<lparr>cfgSavingCount := True, cfgDisk := v\<rparr>)) (on_drive BACKUP_DRIVE p)"
    using lost_backup [OF v(2)] by simp
  then show ?thesis
    using settings_survive [OF board_idle _ _ v(1), of board_entries "lost_disk [7]" 81]
      board_config_disk board_save_fits lost_check [of "[7]"] lost_can_copy
    by (simp add: ini_path_def board_def) blast
qed

text \<open>
  C24: saving the settings of an idle board with its public drive in order leaves the board idle again with the
  settings written: the file holds what is dumped for them, the checksums of the drive pass the check that the
  next start makes, the backup drive holds the same files, and the drive is in order for the next save.
\<close>
theorem config_saved:
  assumes "config_idle s" "config_disk cfg malloc PATH_MAX pub lst es (cfgDisk s)"
    "save_fits cfg malloc PATH_MAX pub lst es (dump (theConfig s)) (cfgDisk s)"
  shows "\<exists>v es'. run_task dump pub (config_commit cfg malloc (\<lambda>_. True) PATH_MAX pub lst) 5 (ConfigSave s)
      = Some (s\<lparr>cfgSavingCount := True, cfgDisk := v\<rparr>)
    \<and> files v (ini_path pub) = Some (dump (theConfig s)) \<and> UpgradeInit cfg malloc (\<lambda>_. True) PATH_MAX pub v = Some (0, v)
    \<and> (\<forall>p. p \<in> set lst \<longrightarrow> files v (on_drive BACKUP_DRIVE p) = files v (on_drive pub p))
    \<and> config_disk cfg malloc PATH_MAX pub lst es' v"
proof -
  obtain v where v: "run_task dump pub (config_commit cfg malloc (\<lambda>_. True) PATH_MAX pub lst) 5 (ConfigSave s)
      = Some (s\<lparr>cfgSavingCount := True, cfgDisk := v\<rparr>)"
    "saved_disk cfg malloc PATH_MAX pub lst es (dump (theConfig s)) v"
    using save_runs [where dump = dump, OF assms] by blast
  then have "UpgradeInit cfg malloc (\<lambda>_. True) PATH_MAX pub v = Some (0, v)" by (blast intro: saved_passes)
  then show ?thesis using v unfolding saved_disk_def by blast
qed

theorem config_saved_witness:
  "\<exists>v. run_task (\<lambda>c. [c]) ''A'' (config_commit 4 small_heap (\<lambda>_. True) 64 ''A'' board_list) 5 (ConfigSave board)
      = Some (board\<lparr>cfgSavingCount := True, cfgDisk := v\<rparr>)
    \<and> files v ''A:/ctrlboard.ini'' = Some [7] \<and> UpgradeInit 4 small_heap (\<lambda>_. True) 64 ''A'' v = Some (0, v)"
  using config_saved [OF board_idle, of 4 small_heap 64 "''A''" board_list board_entries "\<lambda>c. [c]"]
    board_config_disk board_save_fits
  by (simp add: ini_path_def board_def) blast

text \<open>
  C25: copying the changed files at the start comes to the same as copying all of them: both leave the same files
  on both drives, and when nothing has changed nothing is written.
\<close>
theorem backup_sync:
  assumes "can_copy malloc pub BACKUP_DRIVE lst v" "\<forall>p\<in>set lst. file_here malloc v (on_drive BACKUP_DRIVE p)"
  shows "map_option files (BackupSyncFile (\<lambda>_. True) malloc pub lst v) = map_option files (BackupSave (\<lambda>_. True) malloc pub lst v)
    \<and> BackupSave (\<lambda>_. True) malloc pub lst v \<noteq> None
    \<and> ((\<forall>p\<in>set lst. files v (on_drive BACKUP_DRIVE p) = files v (on_drive pub p))
       \<longrightarrow> BackupSyncFile (\<lambda>_. True) malloc pub lst v = Some v)"
proof -
  have "in_sync_ready malloc pub lst v" using assms by (simp add: in_sync_ready_def)
  then show ?thesis
    using BackupSyncFile_files FileSyncFile_copies [OF assms(1)] unfolding BackupSave_def by fastforce
qed

theorem backup_sync_witness:
  "map_option files (BackupSyncFile (\<lambda>_. True) small_heap ''A'' board_list twin_disk)
     = map_option files (BackupSave (\<lambda>_. True) small_heap ''A'' board_list twin_disk)"
  using backup_sync [of small_heap "''A''" board_list twin_disk] twin_disk_ok by simp

text \<open>
  C26: the list of the files to back up holds the path of every file below the directory of the default drive
  exactly once in the order of the directory entries, relative to that directory, without the files whose own
  names begin with a tilde. (Files inside a directory whose name begins with a tilde are in the list, although a
  factory reset removes them: finding \<open>backup.c:56\<close>.)
\<close>
theorem backup_list:
  assumes "walk (root s) (path_of d) = Some (DirN ss)" "wf_tree (DirN ss)" "dirs_fit PATH_MAX (length d + 1) ss"
    "length (file_paths [] ss) \<le> MAX_BACKUP_COUNT" "\<forall>p\<in>set (file_paths [] ss). length p < 256"
  shows "TraverseFileList PATH_MAX (length d + 1) s (d @ ''/'') [] = Some (file_paths [] ss, s)"
  using assms by (rule TraverseFileList_files)

theorem backup_list_witness:
  "TraverseFileList 64 12 two_drives ''D:/backup/A/'' [] = Some ([''cfg/f''], two_drives)"
proof -
  have "walk (root two_drives) (path_of ''D:/backup/A'') = Some (DirN backup_files)" by code_simp
  moreover have "wf_tree (DirN backup_files)" "dirs_fit 64 12 backup_files" "file_paths [] backup_files = [''cfg/f'']"
    "length [''cfg/f''] \<le> MAX_BACKUP_COUNT"
    by (simp_all add: two_drives_defs MAX_BACKUP_COUNT_def)
  moreover have len: "length ''D:/backup/A'' + 1 = 12" by simp
  ultimately show ?thesis using backup_list [of two_drives "''D:/backup/A''" backup_files 64, unfolded len] by simp
qed

text \<open>
  C27: formatting a volume with cards and sticks mounted gives the partitions of the board the first drive letters
  in their order, partition \<open>k\<close> the letter \<open>k\<close>, whatever drives the other disks had; and every other disk that had a
  drive and whose calls into the FAT library succeed is mounted again afterwards: each of its partitions has a
  drive. The disk of the first drive in use is taken for the board's; it is no NAND, and all partitions
  together have room in the drive table.
\<close>
theorem reinit_letters:
  assumes "fat_lib_ok fl tab phy" "drives_ok s" "bd = GetDriveDiskMode (drives s)" "answers fl bd" "bd \<noteq> ITP_DISK_NAND"
    "dks = remount_disks bd (drives s) []" "\<forall>dk\<in>set (bd # dks). tab dk (lib s) = Some (pt dk) \<and> length (pt dk) \<le> ITP_MAX_PARTITION"
    "\<forall>p\<in>set (pt bd). 0 < secnum p" "sum_list (map (\<lambda>dk. used (pt dk)) (bd # dks)) \<le> ITP_MAX_DRIVE"
    "fat_volumes fl vol"
  shows "\<exists>s'. ReinitFatVolume fl volume s = Some s' \<and> drives_ok s'
    \<and> (\<forall>k < length (pt bd). avail (drives s' ! k) \<and> dr_disk (drives s' ! k) = bd \<and> dr_name (drives s' ! k) = drive_name k
         \<and> vol (lib s') k = Some (bd, k))
    \<and> (\<forall>i < ITP_MAX_DRIVE. avail (drives s ! i) \<and> dr_disk (drives s ! i) \<noteq> bd \<longrightarrow> dr_disk (drives s ! i) \<in> set dks)
    \<and> (\<forall>dk\<in>set dks. mountable fl dk \<longrightarrow> (\<forall>j < length (pt dk). 0 < secnum (pt dk ! j) \<longrightarrow>
         (\<exists>i < ITP_MAX_DRIVE. avail (drives s' ! i) \<and> dr_disk (drives s' ! i) = dk \<and> dr_name (drives s' ! i) = drive_name i
            \<and> vol (lib s') i = Some (dk, j))))"
proof -
  obtain s' where s': "ReinitFatVolume fl volume s = Some s'" "drives_ok s'"
    "\<forall>k < length (pt bd). board_drive bd k (drives s' ! k) \<and> vol (lib s') k = Some (bd, k)"
    "\<forall>dk\<in>set dks. mountable fl dk \<longrightarrow> (\<forall>j < length (pt dk). 0 < secnum (pt dk ! j) \<longrightarrow> has_drive vol s' dk j)"
    using ReinitFatVolume_letters [OF assms] by blast
  have name: "dr_name (drives s' ! i) = drive_name i" if "i < ITP_MAX_DRIVE" "avail (drives s' ! i)" for i
    using s'(2) that by (simp add: drives_ok_def drive_ok_def)
  have "dr_disk (drives s ! i) \<in> set dks" if "i < ITP_MAX_DRIVE" "avail (drives s ! i)" "dr_disk (drives s ! i) \<noteq> bd" for i
    using assms(2) that nth_mem [of i "drives s"] unfolding assms(6) remount_disks_set by (auto simp: drives_ok_def drive_ok_def)
  then show ?thesis
    using s' name unfolding board_drive_def has_drive_def by (intro exI [of _ s']) metis
qed

theorem reinit_letters_witness:
  "\<exists>s'. ReinitFatVolume vol_fat 2 board_fat = Some s' \<and> drives_ok s'
    \<and> snd (lib s') 0 = Some (ITP_DISK_NOR, 0) \<and> snd (lib s') 1 = Some (ITP_DISK_NOR, 1) \<and> snd (lib s') 2 = Some (ITP_DISK_NOR, 2)
    \<and> dr_name (drives s' ! 2) = drive_name 2
    \<and> (\<exists>i < ITP_MAX_DRIVE. avail (drives s' ! i) \<and> dr_disk (drives s' ! i) = ITP_DISK_MSC 3 \<and> snd (lib s') i = Some (ITP_DISK_MSC 3, 0))"
proof -
  obtain s' where s': "ReinitFatVolume vol_fat 2 board_fat = Some s'" "drives_ok s'"
    "\<forall>k < 3. avail (drives s' ! k) \<and> dr_disk (drives s' ! k) = ITP_DISK_NOR \<and> dr_name (drives s' ! k) = drive_name k
      \<and> snd (lib s') k = Some (ITP_DISK_NOR, k)"
    "\<exists>i < ITP_MAX_DRIVE. avail (drives s' ! i) \<and> dr_disk (drives s' ! i) = ITP_DISK_MSC 3
       \<and> dr_name (drives s' ! i) = drive_name i \<and> snd (lib s') i = Some (ITP_DISK_MSC 3, 0)"
    using reinit_letters [OF vol_fat_ok(1), of board_fat ITP_DISK_NOR "[ITP_DISK_MSC 3]" board_tables snd 2] board_fat_ok vol_fat_ok(2-4)
    by (auto simp: ITP_MAX_PARTITION_def ITP_MAX_DRIVE_def)
  then show ?thesis using s'(3) [rule_format, of 0] s'(3) [rule_format, of 1] s'(3) [rule_format, of 2] by auto
qed

section \<open>Widgets\<close>

text \<open>
  C28: hiding a widget with an animation ends: for as many frames as the animation has steps it is still
  shown and animated, with the next frame it is invisible, its effect is freed, it is back in the
  normal state, and its position, size and alpha are those it had before.
\<close>
theorem hide_animation_ends:
  assumes "effect w = None" "visible w" "flags w AND ITU_ALWAYS_VISIBLE = 0"
    "hide_effect (effects w ITU_STATE_HIDING) = Some e"
    "n = (if effects w ITU_STATE_NORMAL > 0 then effects w ITU_STATE_NORMAL else effectSteps w)" "0 < n"
    "\<forall>c \<in> set cs. quiet c"
  shows "\<exists>t t1 t2. ituWidgetSetVisibleImpl True (Widget w cs) False q = Some (t, q, False)
    \<and> frames (nat n) t q = Some (t1, q) \<and> effect (wdata t1) \<noteq> None \<and> visible (wdata t1)
    \<and> frames (nat n + 1) t q = Some (t2, q) \<and> \<not> visible (wdata t2) \<and> effect (wdata t2) = None
    \<and> state (wdata t2) = ITU_STATE_NORMAL \<and> rect (wdata t2) = rect w \<and> alpha (wdata t2) = alpha w"
  using SetVisible_hides [OF assms] unfolding settled_def by blast

theorem hide_animation_ends_witness:
  "\<exists>t t1 t2. ituWidgetSetVisibleImpl True (Widget button []) False no_commands = Some (t, no_commands, False)
    \<and> frames (nat 2) t no_commands = Some (t1, no_commands) \<and> effect (wdata t1) \<noteq> None \<and> visible (wdata t1)
    \<and> frames (nat 2 + 1) t no_commands = Some (t2, no_commands) \<and> \<not> visible (wdata t2) \<and> effect (wdata t2) = None
    \<and> state (wdata t2) = ITU_STATE_NORMAL \<and> rect (wdata t2) = rect button \<and> alpha (wdata t2) = alpha button"
  by (rule hide_animation_ends [where e = "Wipe (ituWipeEffectInit ITU_WIPE_OUT_DOWN)"]) (simp_all add: button_defs)

text \<open>
  C29: a mouse press is handled exactly when one of the widgets under the pointer handles it: those whose
  outline contains the point, seen from their own corner, below visible and enabled widgets only.
\<close>
theorem mouse_press_hits:
  assumes "\<And>w a b c. visible (snd (press w ITU_EVENT_MOUSEDOWN a b c)) = visible w"
  shows "(\<exists>t' q'. ituWidgetUpdateImpl press t ITU_EVENT_MOUSEDOWN key x y q = Some (True, t', q'))
    \<longleftrightarrow> (\<exists>(w, u, v) \<in> set (hits x y t). fst (press w ITU_EVENT_MOUSEDOWN key u v))"
  using mouse_down_hits_any [of press key x y t, OF assms]
  by (cases "ituInput press ITU_EVENT_MOUSEDOWN key x y t") (auto simp: ituWidgetUpdateImpl_def input_event_def)

theorem mouse_press_hits_witness:
  "\<exists>t' q'. ituWidgetUpdateImpl (\<lambda>w ev a x y. (wid w = 7, w)) (Widget panel [Widget button []]) ITU_EVENT_MOUSEDOWN 1 20 30
     no_commands = Some (True, t', q')"
proof -
  have "(\<exists>t' q'. ituWidgetUpdateImpl (\<lambda>w ev a x y. (wid w = 7, w)) (Widget panel [Widget button []]) ITU_EVENT_MOUSEDOWN
      1 20 30 no_commands = Some (True, t', q'))
    \<longleftrightarrow> (\<exists>(w, u, v) \<in> set (hits 20 30 (Widget panel [Widget button []])). wid w = 7)"
    using mouse_press_hits [of "\<lambda>w ev a x y. (wid w = 7, w)" "Widget panel [Widget button []]" 1 20 30 no_commands]
    by simp
  then show ?thesis
    by (simp add: button_defs ituWidgetIsEnabled_def ituWidgetIsInsideImpl_def)
qed

text \<open>
  C30: every picture of a scaling animation, growing or shrinking, lies within the rectangle the widget
  had at the start, and is clipped to itself; no step divides by zero.
\<close>
theorem scale_stays_inside:
  assumes "0 < totalStep e" "0 \<le> currStep e" "currStep e \<le> totalStep e"
    "rect w0 = \<lparr>xpos = scale_orgX e, ypos = scale_orgY e, width = scale_orgWidth e, height = scale_orgHeight e\<rparr>"
    "0 \<le> width (rect w0)" "0 \<le> height (rect w0)"
  shows "\<exists>e' w'. ituScaleEffectUpdate e w = Some (e', w') \<and> bound w' = rect w'
    \<and> xpos (rect w0) \<le> xpos (rect w') \<and> xpos (rect w') + width (rect w') \<le> xpos (rect w0) + width (rect w0)
    \<and> ypos (rect w0) \<le> ypos (rect w') \<and> ypos (rect w') + height (rect w') \<le> ypos (rect w0) + height (rect w0)
    \<and> 0 \<le> width (rect w') \<and> 0 \<le> height (rect w')"
  using scale_rect_inside [of e w0 w] assms unfolding scaled_def inside_def by blast

theorem scale_stays_inside_witness:
  "\<exists>e' w'. ituScaleEffectUpdate \<lparr>totalStep = 3, currStep = 2, playing = True, enlarge = True, scale_orgX = 10,
       scale_orgY = 20, scale_orgWidth = 100, scale_orgHeight = 50\<rparr> button = Some (e', w') \<and> 10 \<le> xpos (rect w')"
  using scale_stays_inside [of "\<lparr>totalStep = 3, currStep = 2, playing = True, enlarge = True, scale_orgX = 10,
       scale_orgY = 20, scale_orgWidth = 100, scale_orgHeight = 50\<rparr>" button button]
  by (auto simp: button_def)

section \<open>Network and second board\<close>

text \<open>
  C31: a DHCP message in one piece, with options in their encoding, the end mark and zeros as far as the server looks, is
  answered by its last message type and its last requested address: an offer to a discover, a decline or a release; else an
  acknowledgement exactly when the address asked for is one of the server's, a refusal when it is another or
  a request names none, and no answer to anything else. The answer keeps the transaction and the hardware address,
  carries the address of the client's entry, and its options are those of its type, followed by zeros.
\<close>
theorem dhcp_answers:
  assumes "\<not> chained p" "options (pmsg p) = magic_cookie @ enc_options opts @ DHCP_OPTION_END # replicate k 0"
    "\<forall>tv\<in>set opts. plain_option tv" "int (length (enc_options opts)) < sint (plen p)"
    "sint (plen p) \<le> int (length (enc_options opts) + k)" "312 \<le> length (options (pmsg p))" "chaddres s \<noteq> []"
  shows "case dhcp_answer (client_addresses s) opts of
      None \<Rightarrow> \<exists>s'. handle_dhcp c p s = Some (None, s')
    | Some ty \<Rightarrow> \<exists>i s1 m s'. take_lease (chaddr (pmsg p)) s = Some (i, s1) \<and> handle_dhcp c p s = Some (Some m, s')
        \<and> bop m = DHCP_REPLY \<and> xid m = xid (pmsg p) \<and> chaddr m = chaddr (pmsg p) \<and> yiaddr m = client_addresses s ! i
        \<and> chaddres s' = chaddres s1
        \<and> take 312 (options m) = magic_cookie @ dhcp_options ty (server_address s)
             @ replicate (308 - length (dhcp_options ty (server_address s))) 0"
  by (rule handle_dhcp_ok [OF assms])

theorem dhcp_answers_witness:
  "\<exists>m s'. handle_dhcp False \<lparr>pmsg = dhcp_request [(53, [3]), (50, [10, 0, 0, 2])] 400, plen = 300, chained = False\<rparr>
      (dhcps_init 3 [10, 0, 0, 1]) = Some (Some m, s') \<and> yiaddr m = [10, 0, 0, 2] \<and> options m ! 6 = DHCPACK"
proof -
  let ?opts = "[(53, [3]), (50, [10, 0, 0, 2])] :: (byte \<times> block) list"
  let ?p = "\<lparr>pmsg = dhcp_request ?opts 400, plen = 300, chained = False\<rparr>"
  let ?s = "dhcps_init 3 [10, 0, 0, 1]"
  have a: "client_addresses ?s = [[10, 0, 0, 2], [10, 0, 0, 3], [0, 0, 0, 0]]" "server_address ?s = [10, 0, 0, 1]"
    by code_simp+
  have ans: "dhcp_answer (client_addresses ?s) ?opts = Some DHCPACK"
    unfolding a by code_simp
  have len: "length (enc_options ?opts) = 9" by (simp add: enc_options_def)
  have l: "map_option fst (take_lease (chaddr (pmsg ?p)) ?s) = Some 0" using dhcp_clients(4) by (simp add: dhcp_request_def)
  have "case dhcp_answer (client_addresses ?s) ?opts of
      None \<Rightarrow> \<exists>s'. handle_dhcp False ?p ?s = Some (None, s')
    | Some ty \<Rightarrow> \<exists>i s1 m s'. take_lease (chaddr (pmsg ?p)) ?s = Some (i, s1) \<and> handle_dhcp False ?p ?s = Some (Some m, s')
        \<and> bop m = DHCP_REPLY \<and> xid m = xid (pmsg ?p) \<and> chaddr m = chaddr (pmsg ?p) \<and> yiaddr m = client_addresses ?s ! i
        \<and> chaddres s' = chaddres s1
        \<and> take 312 (options m) = magic_cookie @ dhcp_options ty (server_address ?s)
             @ replicate (308 - length (dhcp_options ty (server_address ?s))) 0"
    by (rule dhcp_answers [where k = 400])
      (simp_all add: len dhcp_request_def plain_option_def DHCP_OPTION_MSG_TYPE_def DHCP_OPTION_REQ_IPADDR_def magic_cookie_def dhcps_init_def)
  then obtain m s' where m: "handle_dhcp False ?p ?s = Some (Some m, s')" "yiaddr m = client_addresses ?s ! 0"
    "take 312 (options m) = magic_cookie @ dhcp_options DHCPACK (server_address ?s)
       @ replicate (308 - length (dhcp_options DHCPACK (server_address ?s))) 0"
    using l unfolding ans by auto
  have "options m ! 6 = take 312 (options m) ! 6" by simp
  also have "\<dots> = DHCPACK" unfolding m(3) by (simp add: magic_cookie_def dhcp_options_def add_msg_type_def)
  finally show ?thesis using m(1,2) by (simp add: a)
qed

text \<open>
  C32: as long as there are no more clients than addresses, the DHCP server gives each client the same address in every
  reply and different clients different addresses, whatever the order of their messages; the addresses are those of the server's net
  from 1 on, without the server's own.
\<close>
theorem dhcp_leases:
  assumes "n < 256" "\<forall>m\<in>set ms. chaddr m \<noteq> null_chaddr \<and> 312 \<le> length (options m)"
    "card (chaddr ` set ms) \<le> (if 1 \<le> unat (ip ! 3) \<and> unat (ip ! 3) \<le> n then n - 1 else n)"
  shows "\<exists>as s'. create_msgs ms (dhcps_init n ip) = Some (as, s') \<and> length as = length ms
    \<and> (\<forall>j < length ms. \<forall>k < length ms. as ! j = as ! k \<longleftrightarrow> chaddr (ms ! j) = chaddr (ms ! k))
    \<and> (\<forall>a\<in>set as. \<exists>h. 1 \<le> h \<and> h \<le> n \<and> h \<noteq> unat (ip ! 3) \<and> a = [ip ! 0, ip ! 1, ip ! 2, of_nat h])"
proof -
  let ?s = "dhcps_init n ip"
  define cs where "cs = clients ms []"
  define A where "A = map (\<lambda>h. [ip ! 0, ip ! 1, ip ! 2, of_nat h :: byte]) (hosts n ip)"
  have cs: "set cs = chaddr ` set ms" "distinct cs" by (simp_all add: cs_def clients_set clients_distinct)
  then have len: "length cs \<le> length (hosts n ip)" using assms(3) unfolding dhcps_addresses(2) by (metis distinct_card)
  also have "\<dots> \<le> n" unfolding dhcps_addresses(2) by simp
  finally have n: "length (clients ms []) \<le> length (chaddres ?s)" by (simp add: cs_def dhcps_init_def)
  obtain s' where s': "create_msgs ms ?s = Some (map (\<lambda>m. client_addresses ?s ! slot (chaddr m) cs) ms, s')"
    using create_msgs_known [OF assms(2) known_init n] unfolding cs_def by blast
  have at: "client_addresses ?s ! slot c cs = A ! slot c cs" "slot c cs < length A" if "c \<in> set cs" for c
    using slot_less [OF that] len unfolding dhcps_addresses(1) by (auto simp: A_def nth_append)
  have inj: "client_addresses ?s ! slot c cs = client_addresses ?s ! slot d cs \<longleftrightarrow> c = d" if "c \<in> set cs" "d \<in> set cs" for c d
    using at [OF that(1)] at [OF that(2)] hosts_distinct [OF assms(1), of "ip ! 0" "ip ! 1" "ip ! 2" ip] slot_inj [OF that]
    by (simp only: A_def [symmetric] nth_eq_iff_index_eq)
  have mem: "chaddr (ms ! j) \<in> set cs" if "j < length ms" for j using that by (simp add: cs(1))
  have "\<exists>h. 1 \<le> h \<and> h \<le> n \<and> h \<noteq> unat (ip ! 3) \<and> client_addresses ?s ! slot c cs = [ip ! 0, ip ! 1, ip ! 2, of_nat h]"
    if "c \<in> set cs" for c
    using at [OF that] hosts_range [OF nth_mem [of "slot c cs" "hosts n ip"]] by (auto simp: A_def)
  then show ?thesis using s' inj mem cs(1) by (intro exI conjI) auto
qed

theorem dhcp_leases_witness:
  "\<exists>as s'. create_msgs [dhcp_request [] 400, (dhcp_request [] 400)\<lparr>chaddr := replicate 16 9\<rparr>, dhcp_request [] 400]
      (dhcps_init 3 [10, 0, 0, 1]) = Some (as, s') \<and> as ! 0 = as ! 2 \<and> as ! 0 \<noteq> as ! 1"
proof -
  let ?ms = "[dhcp_request [] 400, (dhcp_request [] 400)\<lparr>chaddr := replicate 16 9\<rparr>, dhcp_request [] 400]"
  have c: "chaddr ` set ?ms = {dhcp_client, replicate 16 9}" by (auto simp: dhcp_request_def)
  note d = dhcp_clients(1-3)
  have "card (chaddr ` set ?ms) \<le> (if 1 \<le> unat ([10, 0, 0, 1 :: byte] ! 3) \<and> unat ([10, 0, 0, 1 :: byte] ! 3) \<le> 3 then 3 - 1 else 3)"
    unfolding c using d by simp
  moreover have "\<forall>m\<in>set ?ms. chaddr m \<noteq> null_chaddr \<and> 312 \<le> length (options m)"
    using d by (simp add: dhcp_request_def)
  ultimately obtain as s' where a: "create_msgs ?ms (dhcps_init 3 [10, 0, 0, 1]) = Some (as, s')"
    "\<forall>j < length ?ms. \<forall>k < length ?ms. as ! j = as ! k \<longleftrightarrow> chaddr (?ms ! j) = chaddr (?ms ! k)"
    using dhcp_leases [of 3 ?ms "[10, 0, 0, 1]"] by auto
  have "as ! 0 = as ! 2" "as ! 0 \<noteq> as ! 1"
    using a(2) [rule_format, of 0 2] a(2) [rule_format, of 0 1] d(1) by (simp_all add: dhcp_request_def)
  then show ?thesis using a(1) by blast
qed

text \<open>
  C33: an event that one board sends reaches the application of the other, whatever the buffers held before, when
  the queues are empty and the read succeeds: the test events but the second with their type and arguments (of
  a byte each), a message with its first four characters. Two exceptions: the tag of the second test event is
  overwritten by an argument, and it arrives as one only if the byte that the stack happened to hold is the
  tag; and a message whose first character is one of \<open>0\<close> to \<open>5\<close> does not arrive as a message, but as a test event.
\<close>
theorem external_arrives:
  assumes "\<not> extQuit s" "extOutQueue s = []" "\<not> extQuit s'" "extInQueue s' = []" "length junk = 4"
    "\<forall>a\<in>set (event_args ev). unat a < 256" "length (buf1 ev) = EXTERNAL_BUFFER_SIZE"
  shows "\<exists>s1 s2 bs ev'. ExternalSend ev s = Some (0, s1) \<and> ExternalOutTask_step junk s1 = Some (bs, s2) \<and> s2 = s
    \<and> ExternalReceive evr (ExternalInTask_step 4 bs ev0 s') = (1, ev', s')
    \<and> (if etype ev = EXTERNAL_TEST2 then etype ev' = EXTERNAL_TEST2 \<longleftrightarrow> junk ! 0 = 0x32
       else if etype ev = EXTERNAL_SHOW_MSG
       then if buf1 ev ! 0 \<in> {0x30, 0x31, 0x32, 0x33, 0x34, 0x35} then etype ev' \<noteq> EXTERNAL_SHOW_MSG
         else etype ev' = EXTERNAL_SHOW_MSG \<and> buf1 ev' = take 4 (buf1 ev) @ replicate (EXTERNAL_BUFFER_SIZE - 4) 0
       else etype ev' = etype ev \<and> event_args ev' = event_args ev)"
proof -
  let ?s1 = "s\<lparr>extOutQueue := [ev]\<rparr>" and ?bs = "external_encode ev junk"
  have "ExternalSend ev s = Some (0, ?s1)" using assms(1,2) by (simp add: ExternalSend_def EXT_MAX_QUEUE_SIZE_def)
  moreover have "ExternalOutTask_step junk ?s1 = Some (?bs, s)" using assms(2) by (simp add: ExternalOutTask_step_def)
  moreover have "ExternalReceive evr (ExternalInTask_step 4 ?bs ev0 s') = (1, external_decode ?bs ev0, s')"
    using assms(3,4) by (simp add: ExternalReceive_def ExternalInTask_step_def EXT_MAX_QUEUE_SIZE_def)
  moreover have "if etype ev = EXTERNAL_TEST2 then etype (external_decode ?bs ev0) = EXTERNAL_TEST2 \<longleftrightarrow> junk ! 0 = 0x32
       else if etype ev = EXTERNAL_SHOW_MSG
       then if buf1 ev ! 0 \<in> {0x30, 0x31, 0x32, 0x33, 0x34, 0x35} then etype (external_decode ?bs ev0) \<noteq> EXTERNAL_SHOW_MSG
         else etype (external_decode ?bs ev0) = EXTERNAL_SHOW_MSG
           \<and> buf1 (external_decode ?bs ev0) = take 4 (buf1 ev) @ replicate (EXTERNAL_BUFFER_SIZE - 4) 0
       else etype (external_decode ?bs ev0) = etype ev \<and> event_args (external_decode ?bs ev0) = event_args ev"
    using external_wire [OF assms(5,6)] external_wire_test2 [OF assms(5)] external_wire_msg [OF assms(7)] by simp
  ultimately show ?thesis by (intro exI conjI) (assumption | rule refl)+
qed

theorem external_arrives_witness:
  "\<exists>s1 s2 bs ev'. ExternalSend test3_event ExternalInit = Some (0, s1) \<and> ExternalOutTask_step [7, 7, 7, 7] s1 = Some (bs, s2)
     \<and> ExternalReceive test3_event (ExternalInTask_step 4 bs test3_event ExternalInit) = (1, ev', ExternalInit)
     \<and> etype ev' = EXTERNAL_TEST3 \<and> event_args ev' = [1, 2, 255]"
  using external_arrives [of ExternalInit ExternalInit "[7, 7, 7, 7]" test3_event test3_event test3_event]
  by (auto simp: ExternalInit_def test3_event_def event_args_def EXTERNAL_BUFFER_SIZE_def)

section \<open>Calendar\<close>

text \<open>
  C34: the grid of the calendar is right for every month: each day of the month is in the column of its
  day of the week by Zeller's congruence (0 is Sunday), in reading order over at most six rows, every
  other cell is empty, and no write of the loops leaves the array.
\<close>
theorem calendar_grid:
  assumes "1 \<le> cyear cal" "cyear cal \<le> 11000000" "1 \<le> cmonth cal" "cmonth cal \<le> 12"
  shows "\<exists>wd. CalendarUpdateWeekDays cal = Some (cal\<lparr>weekDays := wd\<rparr>)
    \<and> (\<forall>i \<in> {1..CalendarDay (nat (cmonth cal)) (nat (cyear cal))}.
         wd (nat (zeller (cyear cal) (cmonth cal) (int i)))
            ((nat (zeller (cyear cal) (cmonth cal) 1) + i - 1) div 7) = i)
    \<and> (\<forall>w l. wd w l \<noteq> 0 \<longrightarrow> wd w l \<le> CalendarDay (nat (cmonth cal)) (nat (cyear cal))
         \<and> w = nat (zeller (cyear cal) (cmonth cal) (int (wd w l)))
         \<and> l = (nat (zeller (cyear cal) (cmonth cal) 1) + wd w l - 1) div 7)"
proof -
  have s: "sane_date cal" using assms by (simp add: sane_date_def)
  let ?wd = "grid (first_column cal) (month_days cal)"
  have le: "first_column cal + month_days cal \<le> 42"
    using zeller_range(2) [of "cyear cal" "cmonth cal" 1] month_days_le(1) [of cal]
    by (simp add: first_column_def)
  have "\<forall>i \<in> {1..month_days cal}.
      ?wd (nat (zeller (cyear cal) (cmonth cal) (int i))) ((first_column cal + i - 1) div 7) = i"
    using grid_day [OF _ _ le] zeller_days [OF s] by simp
  moreover have "?wd w l \<le> month_days cal \<and> w = nat (zeller (cyear cal) (cmonth cal) (int (?wd w l)))
      \<and> l = (first_column cal + ?wd w l - 1) div 7" if "?wd w l \<noteq> 0" for w l
    using grid_column [OF that] zeller_days [OF s, of "?wd w l"] that by simp
  ultimately show ?thesis
    using week_days_grid [OF s] unfolding month_days_def first_column_def by blast
qed

theorem calendar_grid_witness:
  "\<exists>wd. CalendarUpdateWeekDays \<lparr>minYear = 1970, maxYear = 2100, cyear = 2024, cmonth = 2, cday = 0, weekDays = \<lambda>_ _. 0\<rparr>
      = Some \<lparr>minYear = 1970, maxYear = 2100, cyear = 2024, cmonth = 2, cday = 0, weekDays = wd\<rparr>
    \<and> wd 4 0 = 1 \<and> wd 4 4 = 29"
proof -
  let ?cal = "\<lparr>minYear = 1970, maxYear = 2100, cyear = 2024, cmonth = 2, cday = 0, weekDays = \<lambda>_ _. 0\<rparr>"
  have "1 \<in> {1..CalendarDay (nat (cmonth ?cal)) (nat (cyear ?cal))}" "29 \<in> {1..CalendarDay (nat (cmonth ?cal)) (nat (cyear ?cal))}"
    by (simp_all add: CalendarDay_def leap_year_def)
  moreover have "zeller 2024 2 1 = 4" "zeller 2024 2 29 = 4" by (simp_all add: zeller_def)
  ultimately show ?thesis using calendar_grid [of ?cal] by fastforce
qed

section \<open>Faults of the code\<close>

text \<open>
  C35: the read of a wrapped ring that does not reach the end of the buffer copies the wrong way:
  the caller's bytes stay as they were and replace the unread bytes of the ring.
\<close>
theorem buffer_unsplit_read_reversed:
  assumes "bs_ok s" "\<not> eof s" "buf s = Some b" "readpos s = int r" "writepos s \<le> readpos s"
    "0 < n" "r + n < length b" "n = length out" "lockable t (mutex s)"
    "writepos s \<noteq> int (r + n)"
  shows "\<exists>s'. BufferStreamRead mem_ok t s out (int n) = Some (int n, out, s')
    \<and> buf s' = Some (take r b @ out @ drop (r + n) b) \<and> readpos s' = int (r + n)"
proof -
  have b: "bsize s = int (length b)" using assms(1,3) by (auto simp: bs_ok_def bs_bounds_def)
  obtain m where m: "pthread_mutex_lock mem_ok t (mutex s) = Some (0, m)"
    "pthread_mutex_unlock t m = Some (0, mutex s)"
    using mtx.section_restores [OF assms(9), of mem_ok] by blast
  have "memcpy b (int r) out 0 (int n) = Some (take r b @ out @ drop (r + n) b)"
    using assms(7,8) poke_nat [of b r out 0 n] by simp
  then have w: "bs_read_body out (int n) (s\<lparr>mutex := m\<rparr>) = Some ((int n, out),
      s\<lparr>mutex := m, buf := Some (take r b @ out @ drop (r + n) b), readpos := int (r + n)\<rparr>)"
    using assms b by (simp add: bs_read_body_def Let_def)
  show ?thesis
    unfolding BufferStreamRead_def
      critical_run [where body = "bs_read_body out (int n)", OF m w, simplified] by simp
qed

theorem buffer_unsplit_read_reversed_witness:
  "\<exists>s'. BufferStreamRead True 1 (ring [1, 2, 3, 4] False 2 1) [0] 1 = Some (1, [0], s')
    \<and> buf s' = Some [1, 2, 0, 4] \<and> readpos s' = 3"
  using buffer_unsplit_read_reversed
    [of "ring [1, 2, 3, 4] False 2 1" "[1, 2, 3, 4]" 2 1 "[0]" 1 True]
  by (simp add: ring_defs)

text \<open>
  C36: a wait that times out just before a signal takes its place from the count twice: two tasks can reach a
  state in which nobody waits, the count is -1, and the next broadcast fills the semaphore with 32
  tokens that belong to nobody and returns an error.
\<close>
theorem cond_timeout_race:
  "\<exists>s k s'. cond_reach True True (two_tasks COND_INITIALIZER) s \<and> ccond s = Cond k \<and> ccount k = -1
    \<and> waiting s = 0 \<and> giving s = 0 \<and> phases s ! 0 = Broadcasting
    \<and> broadcast_loop 33 0 s = Some s' \<and> phases s' ! 0 = Returned EINVAL
    \<and> ccond s' = Cond \<lparr>ccount = -32, tokens = 32\<rparr>"
proof -
  let ?k = "\<lparr>ccount = -1, tokens = 1\<rparr>"
  let ?s = "\<lparr>ccond = Cond ?k, cmutex = cmutex (two_tasks COND_INITIALIZER), phases = [Broadcasting, Returned ETIMEDOUT]\<rparr>"
  have r: "cond_reach True True (two_tasks COND_INITIALIZER) ?s" by (rule race_reached)
  have "\<exists>s'. broadcast_loop (Suc 31) 0 ?s = Some s' \<and> phases s' ! 0 = Returned EINVAL
      \<and> ccond s' = Cond \<lparr>ccount = -32, tokens = 32\<rparr>"
    using broadcast_result [of ?s ?k 31 0] by simp
  then obtain s' where s': "broadcast_loop (Suc 31) 0 ?s = Some s'" "phases s' ! 0 = Returned EINVAL"
    "ccond s' = Cond \<lparr>ccount = -32, tokens = 32\<rparr>" by blast
  have "broadcast_loop 33 0 ?s = Some s'"
    by (rule broadcast_loop_mono [OF s'(1)]) simp
  moreover have "waiting ?s = 0" "giving ?s = 0" by (simp_all add: waiting_def giving_def)
  ultimately show ?thesis using r s'(2,3) by (intro exI [of _ ?s] exI [of _ ?k] exI [of _ s']) simp
qed

text \<open>
  C37: settings that are changed and saved while the task of an earlier save is copying the backup are lost: the
  counter of the saves is a \<open>bool\<close> that is true already, so the task does not see the second save and ends, and
  the drives hold what the first save wrote.
\<close>
theorem config_save_lost:
  assumes "config_reach dump pub commit s0 s" "config_idle s0" "cfgTasks s = [T_commit n]" "cfgIsSaving s"
    "commit (cfgDisk s) = Some v"
  shows "\<exists>s'. run_task dump pub commit 2 (ConfigSave (s\<lparr>theConfig := c\<rparr>)) = Some s'
    \<and> config_idle s' \<and> theConfig s' = c \<and> cfgDisk s' = v"
proof -
  have "cfgSavingCount s" "n"
    using config_reach_counted [OF assms(1,2)] assms(3) by simp_all
  then show ?thesis
    using assms(3-5) by (simp add: ConfigSave_def ConfigSaveTask_step_def Let_def numeral_2_eq_2 config_idle_def)
qed

theorem config_save_lost_witness:
  "\<exists>s s'. theConfig s = 7 \<and> run_task (\<lambda>c. [c]) ''A'' Some 2 (ConfigSave (s\<lparr>theConfig := 8\<rparr>)) = Some s'
    \<and> config_idle s' \<and> theConfig s' = 8 \<and> files (cfgDisk s') ''A:/ctrlboard.ini'' = Some [7]"
proof -
  obtain s where s: "config_reach (\<lambda>c. [c]) ''A'' Some board s" "cfgTasks s = [T_commit True]" "cfgIsSaving s" "theConfig s = 7"
    "files (cfgDisk s) ''A:/ctrlboard.ini'' = Some [7]"
    using board_saving by blast
  moreover obtain s' where "run_task (\<lambda>c. [c]) ''A'' Some 2 (ConfigSave (s\<lparr>theConfig := 8\<rparr>)) = Some s'"
    "config_idle s'" "theConfig s' = 8" "cfgDisk s' = cfgDisk s"
    using config_save_lost [OF s(1) board_idle s(2,3) refl, of 8] by blast
  ultimately show ?thesis by (intro exI [of _ s] exI [of _ s']) simp
qed

text \<open>
  C38: a package that asks for a partition whose size is no multiple of the sector partitions and
  formats the disk again at every upgrade, although nothing else asks for it: the size that is read
  back is rounded down and never the one asked for.
\<close>
theorem device_odd_sizes:
  assumes "fat_lib_ok fl tab phy" "drives_ok d" "ITP_MAX_PARTITION \<le> free_from (drives d) 0"
    "length sizes \<le> ITP_MAX_PARTITION" "sz \<in> set sizes" "\<not> unat (sector_bytes (phy dk)) dvd unat sz"
    "length junk = ITP_MAX_PARTITION"
    "\<forall>pts. plan_partitions (phy dk) (asked_partition dk u sizes) 0 0 [] = Some (Inr pts) \<longrightarrow> (\<forall>pt \<in> set pts. 0 < secnum pt)"
    "device_disk t = Some dk"
    "array_stream_inv s1" "drop (nat (pos s1)) (arr s1) = device_block t u sizes @ rest1"
    "array_stream_inv s2" "drop (nat (pos s2)) (arr s2) = device_block t u sizes @ rest2"
    "ugUpgradeDevice array_ops (fat_services fl junk srv) s1 d old True nopart = Some (0, dk', s1', d')"
  shows "\<exists>s2'. ugUpgradeDevice array_ops (fat_services fl junk srv) s2 d' old' False False
    = map_option (\<lambda>(ret, d). (ret, dk, s2', d))
        (repartition (fat_services fl junk srv) dk u (of_nat (length sizes)) sizes d')"
  by (rule arr.ugUpgradeDevice_again [OF assms])

theorem device_odd_sizes_witness:
  "\<exists>dk s1 d. ugUpgradeDevice array_ops toy_fat_services (snd (itcArrayStreamOpen (device_block 1 0 [524289, 0]) 28))
        blank_fat ITP_DISK_SD0 True False = Some (0, dk, s1, d)
    \<and> (\<exists>s2. ugUpgradeDevice array_ops toy_fat_services (snd (itcArrayStreamOpen (device_block 1 0 [524289, 0]) 28))
        d ITP_DISK_SD0 False False
      = map_option (\<lambda>(ret, d). (ret, ITP_DISK_NOR, s2, d)) (repartition toy_fat_services ITP_DISK_NOR 0 2 [524289, 0] d))"
proof -
  let ?s = "snd (itcArrayStreamOpen (device_block 1 0 [524289, 0]) 28)"
  have s: "array_stream_inv ?s" "drop (nat (pos ?s)) (arr ?s) = device_block 1 0 [524289, 0] @ []" "device_disk 1 = Some ITP_DISK_NOR"
    by (simp_all add: itcArrayStreamOpen_eq array_stream_inv_def device_block_def device_disk_def)
  have n: "length [524289, 0 :: 64 word] \<le> ITP_MAX_PARTITION" "[524289, 0 :: 64 word] \<noteq> []" by (simp_all add: ITP_MAX_PARTITION_def)
  obtain d where d: "repartition toy_fat_services ITP_DISK_NOR 0 2 [524289, 0] blank_fat = Some (0, d)"
    using toy_repartition(2) by (auto simp: map_option_case split: option.splits)
  obtain s1 where up: "ugUpgradeDevice array_ops toy_fat_services ?s blank_fat ITP_DISK_SD0 True False = Some (0, ITP_DISK_NOR, s1, d)"
    using arr.ugUpgradeDevice_repartitions [OF s(1,2) n s(3), of toy_fat_services blank_fat ITP_DISK_SD0 False] d by auto
  have p: "plan_partitions \<lparr>number_of_sectors = 4096, bytes_per_sector = 512\<rparr> (asked_partition ITP_DISK_NOR 0 [524289, 0]) 0 0 []
      = Some (Inr [\<lparr>secnum = 1024, system_indicator = 4\<rparr>, \<lparr>secnum = 3009, system_indicator = 4\<rparr>])"
    by code_simp
  show ?thesis
    using device_odd_sizes [OF toy_fat_ok blank_fat_ok(1,2) n(1) _ _ _ _ s(3) s(1,2) s(1,2) up [unfolded toy_fat_services_def],
        of 524289 ITP_DISK_SD0] up p
    by (auto simp: toy_fat_services_def [symmetric] ITP_MAX_PARTITION_def sector_bytes_def)
qed

text \<open>
  C39: when the SD card leaves and a USB stick is mounted before the storage is checked, the stick takes
  the drive of the card; from then on the storage takes the stick for the card. However often it is
  checked while the stick stays there, it never reports that the card is gone, nor that a card is
  inserted again, and the path of the SD storage leads to the stick.
\<close>
theorem storage_slot_reused:
  assumes "drives_ok s" "ITP_MAX_PARTITION \<le> free_from (drives s) 0" "i < ITP_MAX_DRIVE"
    "avail (drives s ! i)" "dr_disk (drives s ! i) = ITP_DISK_SD0"
    "\<forall>j < i. avail (drives s ! j) \<and> dr_disk (drives s ! j) \<noteq> ITP_DISK_SD0"
    "storageTable st STORAGE_SD = Some i"
    "s1 = snd (FatUnmount fl ITP_DISK_SD0 s)"
    "FatMount fl (ITP_DISK_MSC n) force s1 = Some (ret, s2)" "drives s2 \<noteq> drives s1"
    "\<forall>(cfg, connected, ds) \<in> set rounds. length ds = ITP_MAX_DRIVE \<and> ds ! i = drives s2 ! i"
    "storage_checks rounds st = (actions, st')"
  shows "dr_disk (drives s2 ! i) = ITP_DISK_MSC n \<and> storageTable st' STORAGE_SD = Some i
    \<and> STORAGE_SD_REMOVED \<notin> set actions \<and> STORAGE_SD_INSERTED \<notin> set actions
    \<and> StorageGetDrivePath (drives s2) st' STORAGE_SD = Some (drive_name i)"
proof -
  have u: "unmounted ITP_DISK_SD0 s s1" using FatUnmount_ok [OF assms(1)] assms(8) by simp
  then have free: "ITP_MAX_PARTITION \<le> free_from (drives s1) 0" and ok: "drives_ok s1"
    using free_from_unmounted [OF assms(1) u] assms(2) by (simp_all add: unmounted_def)
  have first: "\<not> avail (drives s1 ! i)" "\<forall>j < i. avail (drives s1 ! j)"
    using u assms(3,5,6) by (auto simp: unmounted_def)
  note m = FatMount_first [OF ok free assms(3) first assms(9,10)]
  have "storageTable (snd (storage_checks rounds st)) STORAGE_SD = Some i
    \<and> set (fst (storage_checks rounds st)) \<inter> {STORAGE_SD_INSERTED, STORAGE_SD_REMOVED} = {}"
  proof (rule storage_checks_stale [OF assms(7)])
    show "\<forall>(cfg, connected, ds) \<in> set rounds. length ds = ITP_MAX_DRIVE \<and> \<not> sd_disk (dr_disk (ds ! i))"
      using assms(11) m by (fastforce simp: sd_disk_def)
  qed
  then show ?thesis using m assms(12) by (auto simp: StorageGetDrivePath_def)
qed

theorem storage_slot_reused_witness:
  "\<exists>s2. FatMount toy_fat (ITP_DISK_MSC 3) False (snd (FatUnmount toy_fat ITP_DISK_SD0 card_fat)) = Some (0, s2)
    \<and> dr_disk (drives s2 ! 0) = ITP_DISK_MSC 3
    \<and> storageTable (snd (storage_checks [(True, False, drives s2), (True, False, drives s2)] card_storage)) STORAGE_SD = Some 0"
proof -
  obtain s2 where s2: "FatMount toy_fat (ITP_DISK_MSC 3) False (snd (FatUnmount toy_fat ITP_DISK_SD0 card_fat)) = Some (0, s2)"
    "drives s2 \<noteq> drives (snd (FatUnmount toy_fat ITP_DISK_SD0 card_fat))" "length (drives s2) = ITP_MAX_DRIVE"
    using card_replaced by blast
  show ?thesis
    using storage_slot_reused [OF card_fat_ok(1,2) _ _ _ _ _ refl s2(1,2), of 0 card_storage
        "[(True, False, drives s2), (True, False, drives s2)]" "fst (storage_checks [(True, False, drives s2), (True, False, drives s2)] card_storage)"
        "snd (storage_checks [(True, False, drives s2), (True, False, drives s2)] card_storage)"] s2 card_fat_ok(3-)
    by simp
qed

text \<open>
  C40: the last block of the NOR flash cannot be written as a raw data block: \<open>_NorWrite\<close> takes what would not fit,
  nothing, for the length of a transfer that ends with the flash, \<open>NorWrite\<close> refuses to write nothing, the upgrade ends with the
  error of line 160, and the flash is unchanged.
\<close>
theorem nor_last_block_refused:
  assumes "nor_works alloc bus x eb v" "nor_registered table init fl alloc bus x" "eb = 2 ^ k" "k < 31"
    "busy v (flash d) = 0" "norBlockSizeInBytes d = of_nat eb" "eb dvd unat (seekPos d)"
    "cfg_ok cfg" "int eb \<le> buf_size cfg" "array_stream_inv s" "data \<noteq> []" "length data \<le> eb"
    "drop (nat (pos s)) (arr s)
      = le_of_word 4 (position :: 32 word) @ le_of_word 4 (of_nat (length data) :: 32 word) @ data @ tl_bs"
    "unat position div eb = totalBlocks x - 1"
  shows "\<exists>s' d'. ugUpgradeRawData cfg array_ops (posix_raw table drvs vol) s d ITP_DISK_NOR = Some (160, s', d')
    \<and> mem v (flash d') = mem v (flash d)"
proof -
  have "nor_device x eb v (mem v (flash d)) d" using assms(5-7) by (simp add: nor_device_def)
  from arr.raw_last_block_refused [OF assms(1,2) this assms(3,4,8-14)] show ?thesis .
qed

theorem nor_last_block_refused_witness:
  "\<exists>s' d'. ugUpgradeRawData sim_cfg array_ops (posix_raw sim_table (\<lambda>_. []) 0)
        (snd (itcArrayStreamOpen (le_of_word 4 (256 :: 32 word) @ le_of_word 4 (of_nat (length [1, 2, 3 :: byte]) :: 32 word)
          @ [1, 2, 3] @ []) 11)) sim_nor ITP_DISK_NOR = Some (160, s', d')"
proof -
  let ?data = "[1, 2, 3 :: byte]"
  let ?arr = "le_of_word 4 (256 :: 32 word) @ le_of_word 4 (of_nat (length ?data) :: 32 word) @ ?data @ []"
  let ?s = "snd (itcArrayStreamOpen ?arr 11)"
  have s: "array_stream_inv ?s" "drop (nat (pos ?s)) (arr ?s) = ?arr"
    by (simp_all add: itcArrayStreamOpen_eq array_stream_inv_def)
  have b: "unat (256 :: 32 word) div 256 = totalBlocks sim_context - 1" "(256 :: nat) = 2 ^ 8"
    by (simp_all add: sim_context_def)
  show ?thesis
    using nor_last_block_refused [OF sim_nor(1,2) b(2) _ sim_nor(3-6,7) s(1) _ _ s(2) b(1), of "\<lambda>_. []" 0] by auto
qed

section \<open>Further facts\<close>

text \<open>
  The ring buffer is a first-in first-out queue: bytes that are written and fit are read
  back in order, behind the bytes that were there, and the ring is empty afterwards.
\<close>
theorem buffer_put_then_drain:
  assumes "bs_ok s" "lockable t (mutex s)" "\<not> bs_collided s" "d \<noteq> []" "length d \<le> bs_room s"
    "length (bs_content s @ d) \<le> length out"
  shows "\<exists>s1 s2. BufferStreamWrite mem_ok t s d (int (length d)) = Some (int (length d), s1)
    \<and> BufferStreamRead mem_ok t s1 out (int (length (bs_content s @ d)))
        = Some (int (length (bs_content s @ d)),
                (bs_content s @ d) @ drop (length (bs_content s @ d)) out, s2)
    \<and> bs_content s2 = [] \<and> bs_ok s2"
  using bfifo.put_then_drain [of s t d out mem_ok] assms by auto

theorem buffer_put_then_drain_witness:
  "\<exists>s1 s2. BufferStreamWrite True 1 (ring [1, 2, 3, 4] False 3 1) [7, 8] 2 = Some (2, s1)
    \<and> BufferStreamRead True 1 s1 [0, 0, 0, 0] 4 = Some (4, [4, 1, 7, 8], s2)
    \<and> bs_content s2 = [] \<and> bs_ok s2"
  using buffer_put_then_drain [of "ring [1, 2, 3, 4] False 3 1" 1 "[7, 8]" "[0, 0, 0, 0]" True]
  by (simp add: ring_defs)

text \<open>
  A disk whose partitions are as the package asks is not touched by the device block, and the
  disk of the block becomes the current one.
\<close>
theorem device_keeps_partitions:
  assumes "array_stream_inv s" "drop (nat (pos s)) (arr s) = device_block t u sizes @ rest"
    "length sizes \<le> ITP_MAX_PARTITION" "device_disk t = Some dk"
    "fat_get_partition srv dk d = (0, par, d)" "par_count par = int (length sizes)"
    "length (par_size par) = ITP_MAX_PARTITION"
    "\<forall>i < length sizes. sizes ! i = 0 \<or> par_size par ! i = sizes ! i"
  shows "\<exists>s'. ugUpgradeDevice array_ops srv s d old False nopart = Some (0, dk, s', d)
    \<and> drop (nat (pos s')) (arr s') = rest"
  using arr.ugUpgradeDevice_keeps [OF assms] by blast

theorem device_keeps_partitions_witness:
  "\<exists>s'. ugUpgradeDevice array_ops log_services (snd (itcArrayStreamOpen (device_block 1 0 [0] @ [9]) 21))
        [] ITP_DISK_SD0 False False = Some (0, ITP_DISK_NOR, s', [])
    \<and> drop (nat (pos s')) (arr s') = [9]"
  using device_keeps_partitions [of "snd (itcArrayStreamOpen (device_block 1 0 [0] @ [9]) 21)" 1 0 "[0]" "[9]"
      ITP_DISK_NOR log_services "[]"]
  by (simp add: itcArrayStreamOpen_eq array_stream_inv_def device_block_def ITP_MAX_PARTITION_def
      device_disk_def log_services_def)

text \<open>
  A region locked for reading holds the front of the queue, and while the lock is held no
  other task can run an operation on the stream.
\<close>
theorem buffer_read_lock:
  assumes "bs_ok s" "\<not> eof s" "lockable t (mutex s)" "u \<noteq> t"
  shows "\<exists>k off b s'. BufferStreamReadLock mem_ok t s (int n) = Some (int k, Some off, s')
    \<and> buf s' = Some b \<and> k \<le> n \<and> peek b off (int k) = Some (take k (bs_content s))
    \<and> BufferStreamRead mem_ok u s' out m = None \<and> BufferStreamWrite mem_ok u s' d l = None
    \<and> BufferStreamAvailable mem_ok u s' = None"
proof -
  obtain m1 where m1: "pthread_mutex_lock mem_ok t (mutex s) = Some (0, m1)"
    using mtx.section_restores [OF assms(3), of mem_ok] by blast
  have "pthread_mutex_lock mem_ok u m1 = None"
    by (rule mtx.inside_excludes [OF assms(3) m1 assms(4)])
  moreover obtain k b where "BufferStreamReadLock mem_ok t s (int n)
      = Some (int k, Some (readpos (wrap_readpos s)), (wrap_readpos s)\<lparr>mutex := m1\<rparr>)"
    "buf s = Some b" "k \<le> n" "peek b (readpos (wrap_readpos s)) (int k) = Some (take k (bs_content s))"
    using bs_read_lock_region [OF assms(1,2), of mem_ok t n] m1 by auto
  ultimately show ?thesis
    using wrap_readpos(7) [OF assms(1,2)]
    by (auto simp: BufferStreamRead_def BufferStreamWrite_def BufferStreamAvailable_def critical_def)
qed

theorem buffer_read_lock_witness:
  "\<exists>k off b s'. BufferStreamReadLock True 1 (ring [1, 2, 3, 4] False 1 3) 4 = Some (int k, Some off, s')
    \<and> buf s' = Some b \<and> k \<le> 4 \<and> peek b off (int k) = Some (take k [2, 3])
    \<and> BufferStreamRead True 2 s' [] 0 = None \<and> BufferStreamWrite True 2 s' [] 0 = None
    \<and> BufferStreamAvailable True 2 s' = None"
  using buffer_read_lock [of "ring [1, 2, 3, 4] False 1 3" 1 2 True 4 "[]" 0 "[]" 0]
  by (simp add: ring_defs)

text \<open>
  A directory of the backup is not restored when the drive has an entry of its name: nothing of
  it is copied, the drive stays as it was, and the reset reports -1.
\<close>
theorem restore_skips_existing:
  assumes "healthy s" "walk (root s) (path_of dest) = Some (DirN ds)"
    "walk (root s) (path_of src) = Some (DirN [(n, DirN sub)])" "file_name n" "take 1 n \<noteq> ''~''"
    "map_of ds n \<noteq> None" "length dest + 1 + length n < PATH_MAX"
  shows "\<exists>s'. ugRestoreDir PATH_MAX malloc s dest src = Some (-1, s') \<and> root s' = root s"
  using assms(4-7) mkdir_child [OF assms(1,2,4)] opendir_dir [OF assms(3)]
  by (auto simp: ugRestoreDir.simps restore_loop.simps(2) listing_def keep_error_def file_name_not_dots
      simp del: map_of_eq_None_iff)

theorem restore_skips_existing_witness:
  "\<exists>s'. ugRestoreDir 64 small_heap (two_drives\<lparr>root := DirN [(''A:'', DirN [(''cfg'', DirN [])]),
        (''D:'', DirN [(''cfg'', DirN [(''f'', FileN [7])])])]\<rparr>) ''A:'' ''D:'' = Some (-1, s')
    \<and> walk (root s') [''A:'', ''cfg'', ''f''] = None"
  using restore_skips_existing [of "two_drives\<lparr>root := DirN [(''A:'', DirN [(''cfg'', DirN [])]),
        (''D:'', DirN [(''cfg'', DirN [(''f'', FileN [7])])])]\<rparr>" "''A:''" "[(''cfg'', DirN [])]" "''D:''" "''cfg''"
        "[(''f'', FileN [7])]" 64 small_heap]
  by (auto simp: two_drives_defs healthy_def)

text \<open>
  A package that ends behind its header, or before, upgrades nothing and is reported as a
  success.
\<close>
theorem package_cut_off_succeeds:
  assumes "length pkg \<le> 24"
  shows "\<exists>s'. ugUpgradePackage cfg array_ops srv raw (snd (itcArrayStreamOpen pkg (int (length pkg)))) e
      = Some (0, 0, s', e)"
  using arr.ugUpgradePackage_cut_off [OF array_stream_inv_open, of pkg cfg srv raw e] assms
  by (simp add: itcArrayStreamOpen_eq)

theorem package_cut_off_succeeds_witness:
  "\<exists>s'. ugUpgradePackage small_cfg array_ops log_services ram_flash (snd (itcArrayStreamOpen [1, 2, 3] 3)) small_env
      = Some (0, 0, s', small_env)"
  using package_cut_off_succeeds [of "[1, 2, 3]" small_cfg log_services ram_flash small_env] by simp

text \<open>
  A widget with a hide delay that is shown in a scene stays visible for one frame less than its
  delay and is hidden by the delayed command in the frame after, without any other call.
\<close>
theorem scene_auto_hide:
  assumes "quiet (Widget w cs)" "\<not> visible w" "hideDelay w = int (Suc n)" "flags w AND ITU_ALWAYS_VISIBLE = 0"
    "show_effect (effects w ITU_STATE_SHOWING) = None" "hide_effect (effects w ITU_STATE_HIDING) = None"
    "state w = ITU_STATE_NORMAL"
  shows "\<exists>t q s1 s2 w1 cs1 w2 cs2.
      ituWidgetSetVisibleImpl True (Widget w cs) True no_commands = Some (t, q, False)
    \<and> scene_frames True n \<lparr>roots = [t], commands = q\<rparr> = Some s1 \<and> roots s1 = [Widget w1 cs1] \<and> visible w1
    \<and> scene_frames True (Suc n) \<lparr>roots = [t], commands = q\<rparr> = Some s2 \<and> roots s2 = [Widget w2 cs2] \<and> \<not> visible w2"
proof -
  obtain w' cs' where t: "ituWidgetSetVisibleImpl True (Widget w cs) True no_commands
      = Some (Widget w' cs', one_command (int (Suc n)) WidgetHide (wid w), False)"
    "w' = w\<lparr>visible := True, dirty := True\<rparr>" "\<forall>c \<in> set cs'. quiet c"
    using SetVisible_shows_plain [OF assms(1,2,5,7), where q = no_commands and m = True] assms(3) execute_first by auto
  have "quiet (Widget w' cs')" using assms(1) t(2,3) by simp
  then show ?thesis
    using t(1) hides_after [of w' cs' "\<lparr>roots = [Widget w' cs'], commands = one_command (int (Suc n)) WidgetHide (wid w)\<rparr>" n True]
      t(2) assms(4,6) by fastforce
qed

theorem scene_auto_hide_witness:
  "\<exists>t q s1 s2 w1 cs1 w2 cs2.
      ituWidgetSetVisibleImpl True (Widget (panel\<lparr>visible := False, hideDelay := 3\<rparr>) []) True no_commands = Some (t, q, False)
    \<and> scene_frames True 2 \<lparr>roots = [t], commands = q\<rparr> = Some s1 \<and> roots s1 = [Widget w1 cs1] \<and> visible w1
    \<and> scene_frames True (Suc 2) \<lparr>roots = [t], commands = q\<rparr> = Some s2 \<and> roots s2 = [Widget w2 cs2] \<and> \<not> visible w2"
  by (rule scene_auto_hide) (simp_all add: button_defs)

text \<open>
  Drawing a tree of widgets leaves the surface as it was: every widget sets the clipping back, flag
  and rectangle, however deep the tree.
\<close>
theorem draw_keeps_clipping:
  assumes "surface_ok dest"
  shows "\<exists>tr t'. ituWidgetDrawImpl t dest x y a = (tr, t', dest)"
  using draw_surface(1) [OF assms, of t x y a] by (metis prod.collapse)

theorem draw_keeps_clipping_witness:
  "\<exists>tr t'. ituWidgetDrawImpl (Widget panel [Widget button []]) screen 0 0 255 = (tr, t', screen)"
  by (rule draw_keeps_clipping) (simp add: surface_ok_def screen_def is_clipping_def)

text \<open>
  For each date from the 8th of February 1921 on that the table of lunar years covers, the loops find a
  day of a lunar month, from 1 to 30, within the table of names; and the day after it is the next day
  of that month or, after the 29th or 30th day, the first of a month.
\<close>
theorem lunar_days:
  assumes "1921 \<le> y" "y \<le> 2099" "1 \<le> m" "m \<le> 12"
    "day_number 1921 2 8 \<le> day_number y m d" "day_number y m d < day_number 1921 2 8 + 36528"
  shows "\<exists>r r'. GetDayOf y m d = Some r \<and> GetDayOf y m (d + 1) = Some r' \<and> 1 \<le> r \<and> r \<le> 30
    \<and> (r' = r + 1 \<or> (r' = 1 \<and> r \<in> {29, 30}))"
proof -
  have t: "the_date y m d = day_number y m d - day_number 1921 2 8 + 1" "the_date y m (d + 1) = the_date y m d + 1"
    using the_date_difference [OF assms(1-4)] by (simp_all add: the_date_def)
  have "1 \<le> the_date y m d" "the_date y m d < table_length wNongliData"
    using t(1) assms(5,6) table_ends by simp_all
  then obtain r r' where r: "lunar_years wNongliData (the_date y m d) = Some r"
    "lunar_years wNongliData (the_date y m d + 1) = Some r'" "next_day r r'" "1 \<le> r" "r \<le> 30" "1 \<le> r'" "r' \<le> 30"
    using lunar_years_next [of "the_date y m d" wNongliData] lunar_years_found [of "the_date y m d" wNongliData]
      lunar_years_found [of "the_date y m d + 1" wNongliData] by fastforce
  then have "GetDayOf y m d = Some (nat r)" "GetDayOf y m (d + 1) = Some (nat r')"
    using assms(3,4) t(2) by (simp_all add: GetDayOf_def)
  then show ?thesis using r(3-7) by (auto simp: next_day_def nat_add_distrib)
qed

theorem lunar_days_witness:
  "\<exists>r r'. GetDayOf 2020 1 24 = Some r \<and> GetDayOf 2020 1 25 = Some r' \<and> (r' = r + 1 \<or> r' = 1)"
proof -
  have b: "int (days_before 1921) = 365 * 1921 + 480 - 14" "int (days_before 2020) = 365 * 2020 + 504 - 14"
    using days_before_int [of 1920] days_before_int [of 2019] by simp_all
  have "day_number 1921 2 8 \<le> day_number 2020 1 24" "day_number 2020 1 24 < day_number 1921 2 8 + 36528"
    using b month_offsets(1) [of 2020] month_offsets(2) [of 1921] by (simp_all add: day_number_def)
  then show ?thesis using lunar_days [of 2020 1 24] by fastforce
qed

text \<open>
  The files of a directory pass the check against their checksum file exactly when the
  checksum recorded for each is the one of its content.
\<close>
theorem check_files_crc:
  assumes "files v p = Some (crc_file es)" "\<not> denied v p" "bad_from v p = None"
    "length (crc_file es) < 2 ^ 31" "malloc_sized malloc" "malloc (int (length (crc_file es))) \<noteq> None"
    "\<forall>e \<in> set es. entry_ok cfg malloc PATH_MAX v dir e"
  shows "ugCheckFilesCrc cfg malloc (\<lambda>_. True) PATH_MAX v dir p
     = Some (if \<forall>e \<in> set es. entry_matches v dir e then 0 else 76, v)"
  using assms by (rule ugCheckFilesCrc_entries)

theorem check_files_crc_witness:
  "ugCheckFilesCrc 4 small_heap (\<lambda>_. True) 64 (crc_disk (crc_of [1, 2])) ''A/'' ''A/crc''
     = Some (0, crc_disk (crc_of [1, 2]))"
  using check_files_crc [of "crc_disk (crc_of [1, 2])" "''A/crc''" "[(''f'', crc_of [1, 2])]" small_heap 4 64 "''A/''"]
  by (simp add: entry_ok_def crc_readable_def crc_buffer_ok_def entry_matches_def file_data_def)

text \<open>
  A write into a full ring whose positions meet is accepted and destroys the unread bytes:
  afterwards the queue holds only the new ones.
\<close>
theorem buffer_full_write_overwrites:
  assumes "bs_ok s" "\<not> eof s" "readpos s = writepos s" "0 < readpos s" "lockable t (mutex s)"
    "d \<noteq> []" "int (length d) \<le> bsize s - writepos s"
  shows "\<exists>s'. BufferStreamWrite mem_ok t s d (int (length d)) = Some (int (length d), s')
    \<and> bs_room s = 0 \<and> bs_content s' = d"
proof -
  from assms(1) obtain b r where s: "buf s = Some b" "bsize s = int (length b)" "0 < length b"
    "readpos s = int r" "writepos s = int r" "r \<le> length b"
    using assms(3) by (elim bs_okE) auto
  obtain m where m: "pthread_mutex_lock mem_ok t (mutex s) = Some (0, m)"
    "pthread_mutex_unlock t m = Some (0, mutex s)"
    using mtx.section_restores [OF assms(5), of mem_ok] by blast
  have fits: "r + length d \<le> length b" using assms(7) s by simp
  have w: "bs_write_body d (int (length d)) (s\<lparr>mutex := m\<rparr>) = Some (int (length d),
      (s\<lparr>mutex := m\<rparr>)\<lparr>buf := Some (take r b @ d @ drop (r + length d) b),
                      writepos := int (r + length d), eof := False\<rparr>)"
    using bs_write_ahead [of "s\<lparr>mutex := m\<rparr>" b r r "length d" d] s fits assms(6) by simp
  have run: "BufferStreamWrite mem_ok t s d (int (length d)) = Some (int (length d),
      ((s\<lparr>mutex := m\<rparr>)\<lparr>buf := Some (take r b @ d @ drop (r + length d) b),
                      writepos := int (r + length d), eof := False\<rparr>)\<lparr>mutex := mutex s\<rparr>)"
    unfolding BufferStreamWrite_def 
    by (rule critical_run [where body = "bs_write_body d (int (length d))", OF m w]) simp
  have "bs_room s = 0"
    using assms(2) s by (simp add: bs_room_def bs_content_def)
  then show ?thesis
    unfolding run using s assms(6) by (simp add: bs_content_def)
qed

theorem buffer_full_write_overwrites_witness:
  "\<exists>s'. BufferStreamWrite True 1 (ring [1, 2, 3, 4] False 2 2) [9] 1 = Some (1, s')
    \<and> bs_room (ring [1, 2, 3, 4] False 2 2) = 0 \<and> bs_content s' = [9]"
  using buffer_full_write_overwrites [of "ring [1, 2, 3, 4] False 2 2" 1 "[9]" True]
  by (simp add: ring_defs)

text \<open>
  A wait with a time limit gives the mutex back when it is signalled, but not when it times out: a task
  that locked the mutex once is returned \<open>ETIMEDOUT\<close> without the mutex, where the signalled wait
  returns 0 with it.
\<close>
theorem timedwait_loses_mutex:
  assumes "ccond s = Cond \<lparr>ccount = 0, tokens = 0\<rparr>" "t < length (phases s)" "u < length (phases s)" "t \<noteq> u"
    "lockable t (cmutex s)" "held t (cmutex s) = 1"
  shows "(\<exists>s'. run_timeout m t s = Some s' \<and> phases s' ! t = Returned ETIMEDOUT \<and> held t (cmutex s') = 0)
    \<and> (\<exists>s'. run_signalled m t u s = Some s' \<and> phases s' ! t = Returned 0 \<and> held t (cmutex s') = 1)"
  using timeout_result [OF assms(1) _ assms(2,5), of 0] signalled_result [OF assms(1) _ _ assms(2-5), of 0] assms(6)
  by simp

theorem timedwait_loses_mutex_witness:
  "\<exists>s'. run_timeout True 1 ((two_tasks (Cond \<lparr>ccount = 0, tokens = 0\<rparr>))
        \<lparr>cmutex := Mutex \<lparr>mtype = PTHREAD_MUTEX_RECURSIVE, holder = Some 1, call_count = 1\<rparr>\<rparr>) = Some s'
      \<and> phases s' ! 1 = Returned ETIMEDOUT \<and> held 1 (cmutex s') = 0"
  using timedwait_loses_mutex [of "(two_tasks (Cond \<lparr>ccount = 0, tokens = 0\<rparr>))
        \<lparr>cmutex := Mutex \<lparr>mtype = PTHREAD_MUTEX_RECURSIVE, holder = Some 1, call_count = 1\<rparr>\<rparr>" 1 0 True]
  by (simp add: two_tasks_def lockable_def held_def sem_ok_def)

text \<open>
  The cache ends one sector before the disc that the driver reports: reading the last sector never
  returns. Each pass of the loop loads a page, copies nothing from it and goes on with the same sector.
\<close>
theorem nor_last_sector_hangs:
  assumes "fat_flash alloc bus nx eb v reserved x"
    "nor_initfunc (nor_chip_of alloc bus nx) True True fresh reserved cacheSize t s0 = Some (Some x, s1)"
    "eb \<le> cacheSize" "\<And>i. length (fresh i) = eb" "busy v (disc s0) = 0"
  shows "nor_readsector (nor_chip_of alloc bus nx) x m t (snd (nor_getphy x) - 1) s1 = None
    \<and> (\<forall>j. \<exists>s'. read_passes (discInterface (nor_chip_of alloc bus nx) x) m t j (snd (nor_getphy x) - 1, 1, [], s1)
                  = Some (snd (nor_getphy x) - 1, 1, [], s'))"
proof -
  let ?ops = "discInterface (nor_chip_of alloc bus nx) x"
  obtain c where c: "nor_ok ?ops (fat_sector v x) (\<lambda>d. busy v d = 0) c s1" "endOfPartition c = nor_sectors x - 1"
    "lockable t (flushMutex s1)" "\<not> sectorsPerPage c dvd endOfPartition c"
    using fat_init_ok(3) [OF assms(1,3,4,5,2)] fat_flashD(14) [OF assms(1)] by metis
  note b = nor_ok_bounded [OF c(1,4)]
  have "nor_readsector (nor_chip_of alloc bus nx) x m t (nor_sectors x - 1) s1 = None"
    using last_sector_never [OF b c(3,2), of 1] nor_okD(1) [OF c(1)]
    by (simp add: nor_readsector_def nor_readmultiplesector_def NOR_cache_readSectors_def)
  then show ?thesis using last_sector_passes [OF b c(3,2)] unfolding nor_sectors_def by blast
qed

theorem nor_last_sector_hangs_witness:
  "nor_initfunc fat_chip True True (\<lambda>i. replicate 16384 0) 16384 65536 1 fat_start = Some (Some fat_context, fat_nor)
    \<and> snd (nor_getphy fat_context) = 64 \<and> nor_readsector fat_chip fat_context True 1 63 fat_nor = None"
proof -
  have p: "snd (nor_getphy fat_context) = 64" "busy sim_view (disc fat_start) = 0"
    using fat_geometry(2) by (simp_all add: nor_sectors_def fat_start_def sim_start_def sim_view_def)
  have f: "length (replicate 16384 (0 :: byte)) = 16384" "16384 \<le> (65536 :: nat)" "(64 :: nat) - 1 = 63"
    by simp_all
  show ?thesis
    using nor_last_sector_hangs [OF fat_geometry(3) fat_started [unfolded fat_chip_def] f(2,1) p(2), of True] fat_started p(1)
    unfolding p(1) f(3) fat_chip_def by blast
qed

text \<open>
  When the last byte of the server's own address is within the number of client addresses, as with the default of 254,
  leaving it out leaves the last entry of the table empty, and the client that gets it is given the address 0.0.0.0.
\<close>
theorem dhcp_last_client_zero:
  assumes "1 \<le> unat (ip ! 3)" "unat (ip ! 3) \<le> n" "\<forall>m'\<in>set (ms @ [m]). chaddr m' \<noteq> null_chaddr \<and> 312 \<le> length (options m')"
    "card (chaddr ` set ms) = n - 1" "chaddr m \<notin> chaddr ` set ms"
  shows "\<exists>as s'. create_msgs (ms @ [m]) (dhcps_init n ip) = Some (as, s') \<and> last as = [0, 0, 0, 0]"
proof -
  let ?s = "dhcps_init n ip"
  define cs where "cs = clients ms []"
  have cs: "set cs = chaddr ` set ms" "distinct cs" by (simp_all add: cs_def clients_set clients_distinct)
  then have len: "length cs = n - 1" using assms(4) by (metis distinct_card)
  have all: "clients (ms @ [m]) [] = cs @ [chaddr m]"
    using assms(5) cs(1) by (simp add: clients_def cs_def [unfolded clients_def] add_client_def)
  have n: "length (clients (ms @ [m]) []) \<le> length (chaddres ?s)"
    unfolding all using len assms(1,2) by (simp add: dhcps_init_def)
  obtain s' where s': "create_msgs (ms @ [m]) ?s
      = Some (map (\<lambda>m'. client_addresses ?s ! slot (chaddr m') (cs @ [chaddr m])) (ms @ [m]), s')"
    using create_msgs_known [OF assms(3) known_init n] unfolding all by blast
  have "slot (chaddr m) (cs @ [chaddr m]) = n - 1" using assms(5) cs(1) len by (simp add: slot_new)
  moreover have "client_addresses ?s ! (n - 1) = [0, 0, 0, 0]"
    using assms(1,2) dhcps_addresses(2) [of n ip] unfolding dhcps_addresses(1) by (simp add: nth_append numeral_eq_Suc)
  ultimately show ?thesis using s' by simp
qed

theorem dhcp_last_client_zero_witness:
  "\<exists>as s'. create_msgs ([dhcp_request [] 400] @ [(dhcp_request [] 400)\<lparr>chaddr := replicate 16 9\<rparr>]) (dhcps_init 2 [10, 0, 0, 1])
     = Some (as, s') \<and> last as = [0, 0, 0, 0]"
proof (rule dhcp_last_client_zero)
  show "\<forall>m'\<in>set ([dhcp_request [] 400] @ [(dhcp_request [] 400)\<lparr>chaddr := replicate 16 9\<rparr>]).
      chaddr m' \<noteq> null_chaddr \<and> 312 \<le> length (options m')"
    "chaddr ((dhcp_request [] 400)\<lparr>chaddr := replicate 16 9\<rparr>) \<notin> chaddr ` set [dhcp_request [] 400]"
    using dhcp_clients(1-3) by (auto simp: dhcp_request_def)
qed simp_all

text \<open>
  With both SD slots registered, \<open>open(":sd:1")\<close> opens the first one, since names are compared only up to
  the second colon: upgrading the raw data of the second card does exactly what upgrading the first one does.
\<close>
theorem sd1_opens_sd0:
  assumes "table ITP_DEVICE_SD0 = Some (dev_part info put (itpDeviceSd '':sd:0'' drv))"
    "table ITP_DEVICE_SD1 = Some (dev_part info' put' (itpDeviceSd '':sd:1'' drv))"
    "\<forall>i\<in>{ITP_DEVICE_CUSTOM..<ITP_DEVICE_SD0}. \<not> posix_names table '':sd'' i"
  shows "ugUpgradeRawData cfg ops (posix_raw table drvs vol) f w ITP_DISK_SD1
    = ugUpgradeRawData cfg ops (posix_raw table drvs vol) f w ITP_DISK_SD0"
proof -
  have "raw_open (posix_raw table drvs vol) '':sd:1'' = raw_open (posix_raw table drvs vol) '':sd:0''"
    using sd1_name [OF assms(1,3)] by (intro ext) (simp add: posix_raw_def)
  moreover have "raw_device cfg ops (posix_raw table drvs vol) fd ITP_DISK_SD1 = raw_device cfg ops (posix_raw table drvs vol) fd ITP_DISK_SD0" for fd
    by (rule raw_device_disk) simp_all
  moreover have "raw_disk_name ITP_DISK_SD1 = Some '':sd:1''" "raw_disk_name ITP_DISK_SD0 = Some '':sd:0''"
    by (simp_all add: raw_disk_name_def)
  ultimately show ?thesis by (simp only: ugUpgradeRawData_def option.case)
qed

theorem sd1_opens_sd0_witness:
  "ugUpgradeRawData raw_cfg array_ops (posix_raw sim_slots (\<lambda>_. []) 0)
      (snd (itcArrayStreamOpen (replicate 16 0) 16))
      (\<lparr>sdIndex = 0, sectorCnt = 4, sdBlockSize = 512, sdPos = 0, sdCard = ()\<rparr>,
         \<lparr>sdIndex = 1, sectorCnt = 4, sdBlockSize = 512, sdPos = 0, sdCard = ()\<rparr>) ITP_DISK_SD1
    = ugUpgradeRawData raw_cfg array_ops (posix_raw sim_slots (\<lambda>_. []) 0)
      (snd (itcArrayStreamOpen (replicate 16 0) 16))
      (\<lparr>sdIndex = 0, sectorCnt = 4, sdBlockSize = 512, sdPos = 0, sdCard = ()\<rparr>,
         \<lparr>sdIndex = 1, sectorCnt = 4, sdBlockSize = 512, sdPos = 0, sdCard = ()\<rparr>) ITP_DISK_SD0"
  by (rule sd1_opens_sd0 [where info = fst and put = "\<lambda>s w. (s, snd w)" and info' = snd and put' = "\<lambda>s w. (fst w, s)"
        and drv = sim_cards])
    (simp_all add: sim_slots_def posix_names_def ITP_DEVICE_SD0_def ITP_DEVICE_SD1_def)

end
